(* ===== verification/SeqOB_Prelude.thy ===== *)
theory SeqOB_Prelude
  imports Complex_Main "HOL-Library.Word" "HOL-Library.AList" "HOL-Library.Multiset"
begin

text \<open>
  Shared vocabulary of the SeqDEX order-book development: the Go types and library functions the
  relay's code uses (machine words, maps, byte strings, \<open>encoding/hex\<close>, \<open>strings\<close>, \<open>time\<close>,
  \<open>float64\<close>), the lemma collections the component theories feed, and generic lemmas on association
  lists and 64-bit words.

  Conventions. A Go \<open>map\<close> is an association list with distinct keys: its list order stands for the
  unspecified iteration order of the Go map, and every theorem is stated for all list orders. A Go
  \<open>string\<close> or \<open>[]byte\<close> is a list of characters or bytes. A \<open>time.Time\<close> is the integer number of
  nanoseconds since the Unix epoch. An error return is the left side of a sum.
\<close>

section \<open>Lemma collections\<close>

named_theorems u64_simps \<open>reading 64-bit comparisons and subtractions through unat\<close>
named_theorems gomap_simps \<open>lookup after update and delete in a Go map\<close>
named_theorems store_simps \<open>what the book operations do to each field of the store\<close>

section \<open>Machine types\<close>

type_synonym u64 = "64 word"
type_synonym u32 = "32 word"
type_synonym byte = "8 word"
type_synonym bytes = "byte list"
type_synonym ('e, 'a) result = "'e + 'a"

definition MaxUint64 :: u64 where
  "MaxUint64 = 18446744073709551615"

lemma unat_u64_less: "unat (x :: u64) < 18446744073709551616"
  using unsigned_less [of x, where 'a = nat] by simp

lemma unat_u64_le: "unat (x :: u64) \<le> 18446744073709551615"
  using unat_u64_less [of x] by linarith

lemma unat_MaxUint64: "unat MaxUint64 = 18446744073709551615"
  by (simp add: MaxUint64_def)

lemma u64_le [u64_simps]: "(x :: u64) \<le> y \<longleftrightarrow> unat x \<le> unat y"
  by (rule word_le_nat_alt)

lemma u64_less [u64_simps]: "(x :: u64) < y \<longleftrightarrow> unat x < unat y"
  by (rule word_less_nat_alt)

lemma u64_eq [u64_simps]: "(x :: u64) = y \<longleftrightarrow> unat x = unat y"
  by (rule word_unat_eq_iff)

lemma u64_unat_diff: "(y :: u64) \<le> x \<Longrightarrow> unat (x - y) = unat x - unat y"
  by (rule unat_sub)

lemma u64_unat_add: "unat (x :: u64) + unat y < 18446744073709551616 \<Longrightarrow> unat (x + y) = unat x + unat y"
  by (simp add: unat_word_ariths)

lemma u64_unat_of_nat: "n < 18446744073709551616 \<Longrightarrow> unat (of_nat n :: u64) = n"
  by (simp add: unat_of_nat)

lemma u64_of_nat_inject:
  assumes "m < 18446744073709551616" "n < 18446744073709551616" "(of_nat m :: u64) = of_nat n"
  shows "m = n"
proof -
  have "unat (of_nat m :: u64) = unat (of_nat n :: u64)" using assms(3) by simp
  then show ?thesis by (simp only: u64_unat_of_nat [OF assms(1)] u64_unat_of_nat [OF assms(2)])
qed

lemma unat_u64_pos: "0 < unat (x :: u64) \<longleftrightarrow> x \<noteq> 0"
  by (simp add: unat_gt_0)

text \<open>Rounding up a quotient: the ceil-price arithmetic of the covenant leaf and the matcher.\<close>

definition ceil_div :: "nat \<Rightarrow> nat \<Rightarrow> nat" where
  "ceil_div a d = (a + (d - 1)) div d"

lemma ceil_div_ge: "0 < d \<Longrightarrow> a \<le> ceil_div a d * d"
proof -
  assume d: "0 < d"
  have "(a + (d - 1)) mod d \<le> d - 1"
    using mod_less_divisor [OF d, of "a + (d - 1)"] by linarith
  moreover have "(a + (d - 1)) div d * d + (a + (d - 1)) mod d = a + (d - 1)"
    by simp
  ultimately show ?thesis
    unfolding ceil_div_def by linarith
qed

lemma ceil_div_least: "0 < d \<Longrightarrow> a \<le> q * d \<Longrightarrow> ceil_div a d \<le> q"
proof -
  assume d: "0 < d" and le: "a \<le> q * d"
  have "a + (d - 1) < Suc q * d" using d le by simp
  then have "(a + (d - 1)) div d < Suc q"
    using d by (simp add: less_mult_imp_div_less)
  then show ?thesis by (simp add: ceil_div_def)
qed

lemma ceil_div_mono: "a \<le> b \<Longrightarrow> ceil_div a d \<le> ceil_div b d"
  by (simp add: ceil_div_def div_le_mono)

lemma ceil_div_pos: "0 < d \<Longrightarrow> 0 < a \<Longrightarrow> 0 < ceil_div a d"
  using ceil_div_ge [of d a] by (cases "ceil_div a d") auto

text \<open>
  Two equal ratios give the same rounded price: this is what makes a covenant's rate and its
  offer's want/offer ratio interchangeable.
\<close>

lemma ceil_div_ratio:
  assumes "0 < d" "0 < d'" "n * d' = n' * d"
  shows "ceil_div (f * n) d = ceil_div (f * n') d'"
proof -
  have gen: "ceil_div (f * m) e \<le> ceil_div (f * m') e'"
    if e: "0 < e" "0 < e'" and eq: "m * e' = m' * e" for m e m' e'
  proof (rule ceil_div_least [OF e(1)])
    have "f * m * e' = f * m' * e" using eq by simp
    also have "\<dots> \<le> ceil_div (f * m') e' * e' * e"
      using ceil_div_ge [OF e(2), of "f * m'"] by simp
    finally have "f * m * e' \<le> (ceil_div (f * m') e' * e) * e'"
      by (simp add: ac_simps)
    then show "f * m \<le> ceil_div (f * m') e' * e"
      using e(2) by simp
  qed
  from assms gen [of d d' n n'] gen [of d' d n' n] show ?thesis by simp
qed

section \<open>Results\<close>

text \<open>\<open>if err != nil { return err }\<close>: sequencing of fallible calls.\<close>

definition rbind :: "('e, 'a) result \<Rightarrow> ('a \<Rightarrow> ('e, 'b) result) \<Rightarrow> ('e, 'b) result" where
  "rbind r f = (case r of Inl e \<Rightarrow> Inl e | Inr a \<Rightarrow> f a)"

definition reject_if :: "bool \<Rightarrow> 'e \<Rightarrow> ('e, unit) result" where
  "reject_if b e = (if b then Inl e else Inr ())"

lemma rbind_simps [simp]: "rbind (Inl e) f = Inl e" "rbind (Inr a) f = f a"
  by (simp_all add: rbind_def)

lemma rbind_eq_Inr: "rbind r f = Inr b \<longleftrightarrow> (\<exists>a. r = Inr a \<and> f a = Inr b)"
  by (cases r) auto

lemma rbind_InrE [elim!]:
  assumes "rbind r f = Inr b"
  obtains a where "r = Inr a" "f a = Inr b"
  using assms by (auto simp: rbind_eq_Inr)

lemma rbind_eq_Inl: "rbind r f = Inl e \<longleftrightarrow> r = Inl e \<or> (\<exists>a. r = Inr a \<and> f a = Inl e)"
  by (cases r) auto

lemma reject_if_Inr [simp]: "reject_if b e = Inr u \<longleftrightarrow> \<not> b"
  by (simp add: reject_if_def)

lemma reject_if_Inl [simp]: "reject_if b e = Inl e' \<longleftrightarrow> b \<and> e' = e"
  by (auto simp: reject_if_def)

lemma result_unit_ok: "(r :: ('e, unit) result) = Inr u \<longleftrightarrow> (\<forall>e. r \<noteq> Inl e)"
  by (cases r) auto

section \<open>Go maps\<close>

type_synonym ('k, 'v) gomap = "('k \<times> 'v) list"

definition gomap_ok :: "('k, 'v) gomap \<Rightarrow> bool" where
  "gomap_ok m \<longleftrightarrow> distinct (map fst m)"

text \<open>\<open>m[k]\<close> on a missing key reads the zero value of the element type.\<close>

definition gomap_get :: "'v \<Rightarrow> ('k, 'v) gomap \<Rightarrow> 'k \<Rightarrow> 'v" where
  "gomap_get z m k = (case map_of m k of None \<Rightarrow> z | Some v \<Rightarrow> v)"

lemma gomap_ok_Nil [simp]: "gomap_ok []"
  by (simp add: gomap_ok_def)

lemma gomap_ok_update [simp]: "gomap_ok m \<Longrightarrow> gomap_ok (AList.update k v m)"
  by (simp add: gomap_ok_def distinct_update)

lemma gomap_ok_delete [simp]: "gomap_ok m \<Longrightarrow> gomap_ok (AList.delete k m)"
  by (simp add: gomap_ok_def distinct_delete)

lemma map_of_update [gomap_simps]: "map_of (AList.update k v m) k' = (if k' = k then Some v else map_of m k')"
  by (simp add: update_conv')

lemma map_of_delete [gomap_simps]: "map_of (AList.delete k m) k' = (if k' = k then None else map_of m k')"
  by (simp add: delete_conv')

lemma gomap_get_update [gomap_simps]:
  "gomap_get z (AList.update k v m) k' = (if k' = k then v else gomap_get z m k')"
  by (simp add: gomap_get_def map_of_update)

lemma gomap_mem: "gomap_ok m \<Longrightarrow> (k, v) \<in> set m \<longleftrightarrow> map_of m k = Some v"
  by (simp add: gomap_ok_def)

lemma gomap_mem_update:
  "gomap_ok m \<Longrightarrow> (k', v') \<in> set (AList.update k v m) \<longleftrightarrow> (if k' = k then v' = v else (k', v') \<in> set m)"
  by (simp add: gomap_mem map_of_update) auto

lemma gomap_mem_delete:
  "gomap_ok m \<Longrightarrow> (k', v') \<in> set (AList.delete k m) \<longleftrightarrow> k' \<noteq> k \<and> (k', v') \<in> set m"
  by (simp add: gomap_mem map_of_delete)

lemma gomap_keys_delete: "fst ` set (AList.delete k m) = fst ` set m - {k}"
  by (auto simp: AList.delete_eq)

lemma map_of_filter_key: "map_of (filter (\<lambda>(k, v). P k) m) k = (if P k then map_of m k else None)"
  by (induction m) auto

section \<open>Byte strings\<close>

text \<open>\<open>encoding/hex\<close>: lower-case encoding, case-insensitive decoding, an error on an odd length.\<close>

definition hex_digit :: "nat \<Rightarrow> char" where
  "hex_digit n = (if n < 10 then char_of (48 + n) else char_of (87 + n))"

definition from_hex_char :: "char \<Rightarrow> nat option" where
  "from_hex_char c =
     (let n = (of_char c :: nat) in
      if 48 \<le> n \<and> n \<le> 57 then Some (n - 48)
      else if 97 \<le> n \<and> n \<le> 102 then Some (n - 87)
      else if 65 \<le> n \<and> n \<le> 70 then Some (n - 55)
      else None)"

fun hex_EncodeToString :: "bytes \<Rightarrow> string" where
  "hex_EncodeToString [] = []"
| "hex_EncodeToString (b # bs) =
     hex_digit (unat b div 16) # hex_digit (unat b mod 16) # hex_EncodeToString bs"

fun hex_DecodeString :: "string \<Rightarrow> bytes option" where
  "hex_DecodeString [] = Some []"
| "hex_DecodeString [c] = None"
| "hex_DecodeString (c # d # cs) =
     (case (from_hex_char c, from_hex_char d) of
        (Some hi, Some lo) \<Rightarrow> map_option ((#) (of_nat (16 * hi + lo))) (hex_DecodeString cs)
      | _ \<Rightarrow> None)"

lemma from_hex_digit: "n < 16 \<Longrightarrow> from_hex_char (hex_digit n) = Some n"
  by (auto simp: hex_digit_def from_hex_char_def Let_def)

lemma hex_Decode_Encode: "hex_DecodeString (hex_EncodeToString bs) = Some bs"
proof (induction bs)
  case (Cons b bs)
  have "unat b < 256" using unsigned_less [of b, where 'a = nat] by simp
  then have "unat b div 16 < 16" "unat b mod 16 < 16" by auto
  then show ?case using Cons by (simp add: from_hex_digit)
qed simp

lemma hex_EncodeToString_length [simp]: "length (hex_EncodeToString bs) = 2 * length bs"
  by (induction bs) auto

lemma hex_EncodeToString_inject: "hex_EncodeToString a = hex_EncodeToString b \<longleftrightarrow> a = b"
  by (metis hex_Decode_Encode option.inject)

lemma hex_DecodeString_length: "hex_DecodeString s = Some bs \<Longrightarrow> length s = 2 * length bs"
  by (induction s arbitrary: bs rule: hex_DecodeString.induct) (auto split: option.splits)

text \<open>
  \<open>strings.ToLower\<close> and \<open>strings.EqualFold\<close>. The strings the code folds are compared against
  hexadecimal text, whose letters fold only within ASCII.
\<close>

definition char_lower :: "char \<Rightarrow> char" where
  "char_lower c = (let n = (of_char c :: nat) in if 65 \<le> n \<and> n \<le> 90 then char_of (n + 32) else c)"

definition strings_ToLower :: "string \<Rightarrow> string" where
  "strings_ToLower s = map char_lower s"

definition strings_EqualFold :: "string \<Rightarrow> string \<Rightarrow> bool" where
  "strings_EqualFold s t \<longleftrightarrow> strings_ToLower s = strings_ToLower t"

lemma strings_EqualFold_refl [simp]: "strings_EqualFold s s"
  by (simp add: strings_EqualFold_def)

lemma from_hex_char_lower: "from_hex_char (char_lower c) = from_hex_char c"
proof -
  have "(of_char c :: nat) < 256" by simp
  then show ?thesis
    by (auto simp: char_lower_def from_hex_char_def Let_def)
qed

lemma hex_DecodeString_lower: "hex_DecodeString (strings_ToLower s) = hex_DecodeString s"
  by (induction s rule: hex_DecodeString.induct)
    (auto simp: strings_ToLower_def from_hex_char_lower split: option.splits)

lemma hex_DecodeString_EqualFold: "strings_EqualFold s t \<Longrightarrow> hex_DecodeString s = hex_DecodeString t"
  by (metis hex_DecodeString_lower strings_EqualFold_def)

section \<open>Time\<close>

type_synonym time = int
type_synonym duration = int

definition Second :: duration where "Second = 1000000000"
definition Minute :: duration where "Minute = 60 * Second"
definition Hour :: duration where "Hour = 60 * Minute"

text \<open>
  \<open>time.Unix(int64(sec), 0)\<close>: Go stores seconds since year 1 in a signed 64-bit field, so the
  addition of the epoch offset wraps.
\<close>

definition time_Unix :: "u64 \<Rightarrow> time" where
  "time_Unix sec = (sint (sec + 62135596800) - 62135596800) * Second"

text \<open>\<open>uint64(t.Unix())\<close>.\<close>

definition unix_seconds :: "time \<Rightarrow> u64" where
  "unix_seconds t = of_int (t div Second)"

section \<open>Float64\<close>

text \<open>
  \<open>float64(x)\<close> of an unsigned integer and the quotient of two such values, rounded to the nearest
  53-bit significand with ties to even. All operands are below \<open>2 ^ 64\<close>, so every nonzero quotient
  lies between \<open>2 ^ -64\<close> and \<open>2 ^ 64\<close>: no overflow, no subnormal. The quotient is computed on
  128 fractional bits, enough to fix the exponent of any such quotient exactly.
\<close>

fun nat_bits :: "nat \<Rightarrow> nat" where
  "nat_bits n = (if n = 0 then 0 else Suc (nat_bits (n div 2)))"

declare nat_bits.simps [simp del]

definition round_half_even :: "nat \<Rightarrow> nat \<Rightarrow> nat" where
  "round_half_even n d =
     (let q = n div d; r = n mod d in
      if 2 * r < d then q else if d < 2 * r then q + 1 else if even q then q else q + 1)"

definition f64_of_nat :: "nat \<Rightarrow> nat" where
  "f64_of_nat n = (let u = nat_bits n - 53 in round_half_even n (2 ^ u) * 2 ^ u)"

definition f64_div :: "nat \<Rightarrow> nat \<Rightarrow> rat" where
  "f64_div a b =
     (let n = a * 2 ^ 128; u = nat_bits (n div b) - 53 in
      of_nat (round_half_even n (b * 2 ^ u) * 2 ^ u) / 2 ^ 128)"

lemma nat_bits_lower: "0 < n \<Longrightarrow> 2 ^ (nat_bits n - 1) \<le> n"
proof (induction n rule: nat_bits.induct)
  case (1 n)
  then have eq: "nat_bits n = Suc (nat_bits (n div 2))" by (simp add: nat_bits.simps [of n])
  show ?case
  proof (cases "n div 2 = 0")
    case True
    then have "nat_bits (n div 2) = 0" by (simp add: nat_bits.simps [of 0])
    with eq 1 show ?thesis by simp
  next
    case False
    with 1 have ih: "2 ^ (nat_bits (n div 2) - 1) \<le> n div 2" by simp
    moreover from False have "0 < nat_bits (n div 2)" by (simp add: nat_bits.simps [of "n div 2"])
    ultimately have "2 ^ nat_bits (n div 2) \<le> 2 * (n div 2)"
      by (cases "nat_bits (n div 2)") auto
    with eq show ?thesis by simp
  qed
qed

lemma div_sig_bits_pos: "0 < n \<Longrightarrow> 0 < n div 2 ^ (nat_bits n - 53)"
proof -
  assume n: "0 < n"
  have "2 ^ (nat_bits n - 53) \<le> (2 :: nat) ^ (nat_bits n - 1)" by (rule power_increasing) auto
  also have "\<dots> \<le> n" using nat_bits_lower [OF n] .
  finally show ?thesis by (simp add: div_greater_zero_iff)
qed

lemma round_half_even_ge: "n div d \<le> round_half_even n d"
  by (simp add: round_half_even_def Let_def)

lemma f64_of_nat_pos: "0 < n \<Longrightarrow> 0 < f64_of_nat n"
  using div_sig_bits_pos [of n] round_half_even_ge [of n "2 ^ (nat_bits n - 53)"]
  by (simp add: f64_of_nat_def Let_def)

lemma f64_of_nat_0 [simp]: "f64_of_nat 0 = 0"
  by (simp add: f64_of_nat_def round_half_even_def)

lemma f64_div_0 [simp]: "f64_div 0 b = 0"
  by (simp add: f64_div_def round_half_even_def Let_def)

lemma f64_div_pos:
  assumes "0 < a" "0 < b" "b < 2 ^ 128"
  shows "0 < f64_div a b"
proof -
  define n where "n = a * 2 ^ 128"
  define u where "u = nat_bits (n div b) - 53"
  have "b \<le> n" using assms unfolding n_def by (cases a) auto
  with \<open>0 < b\<close> have q: "0 < n div b" by (simp add: div_greater_zero_iff)
  have "0 < (n div b) div 2 ^ u" unfolding u_def by (rule div_sig_bits_pos [OF q])
  then have "0 < n div (b * 2 ^ u)" by (simp add: div_mult2_eq)
  with round_half_even_ge [of n "b * 2 ^ u"] have "0 < round_half_even n (b * 2 ^ u)" by linarith
  then show ?thesis
    by (simp add: f64_div_def Let_def n_def u_def)
qed

lemma round_half_even_le: "round_half_even n d \<le> n div d + 1"
  by (simp add: round_half_even_def Let_def)

lemma f64_of_nat_bound: "n < 2 ^ 64 \<Longrightarrow> f64_of_nat n < 2 ^ 66"
proof -
  assume n: "n < 2 ^ 64"
  define u where "u = nat_bits n - 53"
  have "2 ^ u \<le> (2 :: nat) ^ 64"
  proof (cases "n = 0")
    case True
    then show ?thesis by (simp add: u_def nat_bits.simps [of 0])
  next
    case False
    then have "2 ^ (nat_bits n - 1) \<le> n" using nat_bits_lower [of n] by simp
    then have "2 ^ (nat_bits n - 1) < (2 :: nat) ^ 64" using n by linarith
    then have "nat_bits n - 1 < 64" by (rule power_less_imp_less_exp [rotated]) simp
    then show ?thesis unfolding u_def by (intro power_increasing) auto
  qed
  moreover have "round_half_even n (2 ^ u) * 2 ^ u \<le> (n div 2 ^ u + 1) * 2 ^ u"
    using round_half_even_le [of n "2 ^ u"] by (intro mult_le_mono1)
  moreover have "n div 2 ^ u * 2 ^ u \<le> n" by simp
  ultimately have "round_half_even n (2 ^ u) * 2 ^ u \<le> n + 2 ^ 64"
    unfolding add_mult_distrib by linarith
  then show ?thesis
    using n by (simp add: f64_of_nat_def Let_def u_def [symmetric])
qed

end
