(* ===== verification/Offer_Model.thy ===== *)
theory Offer_Model
  imports SeqOB_Prelude
begin

text \<open>
  The SeqOB wire messages (\<open>seqob/v1/offer.proto\<close>, \<open>seqob/v1/relay.proto\<close>) as records, the
  direction constants of \<open>offer/sentinel.go\<close>, and the canonical serialization, signing and
  verification of offers, cancels, settled-trade records and session reattachments of
  \<open>offer/offer.go\<close>. The protobuf encoder, SHA-256 and the secp256k1 library are the parameter
  \<open>crypto\<close> of the definitions.
\<close>

section \<open>Wire messages\<close>

record asset_pair =
  BaseAsset :: string
  QuoteAsset :: string
  PairConfidential :: bool

text \<open>Protobuf enumerations are open: an unknown number is kept.\<close>

datatype trade_dir =
  TRADE_DIR_UNSPECIFIED | TRADE_DIR_SELL | TRADE_DIR_BUY | TRADE_DIR_UNKNOWN u32

datatype time_in_force =
  TIME_IN_FORCE_UNSPECIFIED | TIME_IN_FORCE_IOC | TIME_IN_FORCE_FOK | TIME_IN_FORCE_POST_ONLY
  | TIME_IN_FORCE_UNKNOWN u32

datatype offer_status =
  OFFER_STATUS_UNSPECIFIED | OFFER_STATUS_OPEN | OFFER_STATUS_PARTIAL | OFFER_STATUS_FILLED
  | OFFER_STATUS_CANCELLED | OFFER_STATUS_EXPIRED | OFFER_STATUS_UTXO_INVALIDATED

record same_chain_terms =
  sc_MakerRecvAddress :: string
  sc_MakerBlindingPub :: string

record cross_chain_terms =
  cc_BtcSentinel :: string
  cc_MakerClaimPub :: string
  cc_MakerRefundPub :: string
  cc_MakerLegLocktime :: u32
  cc_MakerRecvAddress :: string
  cc_Direction :: u32

record lightning_terms =
  ln_LnDirection :: u32
  ln_MakerClaimPub :: bytes
  ln_MakerRefundPub :: bytes
  ln_OnchainCltv :: u32
  ln_MakerIssuesHoldInvoice :: bool
  ln_Max0confAmount :: u64

record covenant_terms =
  ct_CovenantTxid :: string
  ct_CovenantVout :: u32
  ct_AssetA :: string
  ct_AssetB :: string
  ct_RateNum :: u64
  ct_RateDen :: u64
  ct_MakerProg :: bytes
  ct_MakerProgVer :: u32
  ct_MinLot :: u64
  ct_ExpiryLocktime :: u32
  ct_MakerX :: bytes
  ct_InternalKey :: bytes
  ct_MerklePath :: "bytes list"

datatype settlement =
  NoSettlement | SameChain same_chain_terms | CrossChain cross_chain_terms
  | Lightning lightning_terms | Covenant covenant_terms

record offer =
  OfferId :: string
  SchemaVersion :: u32
  Pair :: "asset_pair option"
  TradeDir :: trade_dir
  BaseAmount :: u64
  OfferAmount :: u64
  OfferAsset :: string
  WantAmount :: u64
  WantAsset :: string
  AllowPartial :: bool
  MinFill :: u64
  CreatedAtUnix :: u64
  ExpiresAtUnix :: u64
  MakerPubkey :: string
  FeeAssetHint :: string
  MinAnchorDepth :: u32
  MakerLnNodePubkey :: string
  LnConnectHints :: "string list"
  TimeInForce :: time_in_force
  Confidential :: bool
  Settlement :: settlement
  MakerSig :: bytes

record offer_cancel =
  c_OfferId :: string
  c_MakerPubkey :: string
  c_Nonce :: u64
  c_Sig :: bytes

record settled_trade =
  st_OfferId :: string
  st_MakerPubkey :: string
  st_FillBase :: u64
  st_SettleTxid :: string
  st_AnchorConfs :: u32
  st_Nonce :: u64
  st_Sig :: bytes

text \<open>The generated getters of the settlement oneof and of a possibly nil pair.\<close>

definition GetSameChain :: "offer \<Rightarrow> same_chain_terms option" where
  "GetSameChain ofr = (case Settlement ofr of SameChain t \<Rightarrow> Some t | _ \<Rightarrow> None)"

definition GetCrossChain :: "offer \<Rightarrow> cross_chain_terms option" where
  "GetCrossChain ofr = (case Settlement ofr of CrossChain t \<Rightarrow> Some t | _ \<Rightarrow> None)"

definition GetLightning :: "offer \<Rightarrow> lightning_terms option" where
  "GetLightning ofr = (case Settlement ofr of Lightning t \<Rightarrow> Some t | _ \<Rightarrow> None)"

definition GetCovenant :: "offer \<Rightarrow> covenant_terms option" where
  "GetCovenant ofr = (case Settlement ofr of Covenant t \<Rightarrow> Some t | _ \<Rightarrow> None)"

definition GetBaseAsset :: "asset_pair option \<Rightarrow> string" where
  "GetBaseAsset p = (case p of None \<Rightarrow> '''' | Some q \<Rightarrow> BaseAsset q)"

definition GetQuoteAsset :: "asset_pair option \<Rightarrow> string" where
  "GetQuoteAsset p = (case p of None \<Rightarrow> '''' | Some q \<Rightarrow> QuoteAsset q)"

lemma GetCovenant_Some [simp]: "GetCovenant ofr = Some t \<longleftrightarrow> Settlement ofr = Covenant t"
  by (auto simp: GetCovenant_def split: settlement.splits)

lemma GetCovenant_None: "GetCovenant ofr = None \<longleftrightarrow> (\<forall>t. Settlement ofr \<noteq> Covenant t)"
  by (auto simp: GetCovenant_def split: settlement.splits)

lemma GetLightning_Some [simp]: "GetLightning ofr = Some t \<longleftrightarrow> Settlement ofr = Lightning t"
  by (auto simp: GetLightning_def split: settlement.splits)

lemma GetSameChain_Some [simp]: "GetSameChain ofr = Some t \<longleftrightarrow> Settlement ofr = SameChain t"
  by (auto simp: GetSameChain_def split: settlement.splits)

lemma GetCrossChain_Some [simp]: "GetCrossChain ofr = Some t \<longleftrightarrow> Settlement ofr = CrossChain t"
  by (auto simp: GetCrossChain_def split: settlement.splits)

lemma settlement_getters [simp]:
  "Settlement ofr = Covenant ct \<Longrightarrow> GetCovenant ofr = Some ct"
  "Settlement ofr = Lightning lt \<Longrightarrow> GetLightning ofr = Some lt"
  "Settlement ofr = SameChain st \<Longrightarrow> GetSameChain ofr = Some st"
  "Settlement ofr = CrossChain xt \<Longrightarrow> GetCrossChain ofr = Some xt"
  by simp_all

section \<open>Sentinel and direction constants\<close>

definition BTCSentinel :: string where "BTCSentinel = ''BTC''"

definition DirBTCToAsset :: u32 where "DirBTCToAsset = 0"
definition DirAssetToBTC :: u32 where "DirAssetToBTC = 1"
definition LnAssetForBTC :: u32 where "LnAssetForBTC = 0"
definition LnBTCForAsset :: u32 where "LnBTCForAsset = 1"
definition LnAssetLNForBTCLN :: u32 where "LnAssetLNForBTCLN = 2"
definition LnBTCLNForAssetLN :: u32 where "LnBTCLNForAssetLN = 3"
definition LnAssetLNForBTC :: u32 where "LnAssetLNForBTC = 4"
definition LnBTCForAssetLN :: u32 where "LnBTCForAssetLN = 5"

lemmas direction_defs = DirBTCToAsset_def DirAssetToBTC_def LnAssetForBTC_def LnBTCForAsset_def
  LnAssetLNForBTCLN_def LnBTCLNForAssetLN_def LnAssetLNForBTC_def LnBTCForAssetLN_def

definition IsPureLN :: "u32 \<Rightarrow> bool" where
  "IsPureLN d \<longleftrightarrow> d = LnAssetLNForBTCLN \<or> d = LnBTCLNForAssetLN"

definition IsSubAsset :: "u32 \<Rightarrow> bool" where
  "IsSubAsset d \<longleftrightarrow> d = LnAssetLNForBTC \<or> d = LnBTCForAssetLN"

definition IsBTCSentinel :: "string \<Rightarrow> bool" where
  "IsBTCSentinel a \<longleftrightarrow> a = BTCSentinel"

definition DirectionConsistent :: "u32 \<Rightarrow> bool \<Rightarrow> bool" where
  "DirectionConsistent d isSell = (if isSell then d = DirBTCToAsset else d = DirAssetToBTC)"

definition LnDirectionConsistent :: "u32 \<Rightarrow> bool \<Rightarrow> bool" where
  "LnDirectionConsistent d isSell =
     (if d = LnAssetForBTC \<or> d = LnAssetLNForBTCLN \<or> d = LnBTCForAssetLN then \<not> isSell
      else if d = LnBTCForAsset \<or> d = LnBTCLNForAssetLN \<or> d = LnAssetLNForBTC then isSell
      else False)"

section \<open>Cryptographic environment\<close>

text \<open>
  Everything the code calls in the protobuf runtime, crypto/sha256 and btcec. Keys, points and
  signatures are their numbers: a private scalar, affine coordinates, the pair (r, s).
\<close>

datatype privkey = PrivKey nat
datatype pubkey = PubKey nat nat
datatype signature = Signature nat nat

record crypto =
  proto_Marshal_Offer :: "offer \<Rightarrow> bytes option"
  proto_Marshal_Cancel :: "offer_cancel \<Rightarrow> bytes option"
  proto_Marshal_SettledTrade :: "settled_trade \<Rightarrow> bytes option"
  proto_Size :: "offer \<Rightarrow> nat"
  sha256_Sum256 :: "bytes \<Rightarrow> bytes"
  btcec_ParsePubKey :: "bytes \<Rightarrow> pubkey option"
  ecdsa_ParseDERSignature :: "bytes \<Rightarrow> signature option"
  ecdsa_Serialize :: "signature \<Rightarrow> bytes"
  ecdsa_Verify :: "signature \<Rightarrow> bytes \<Rightarrow> pubkey \<Rightarrow> bool"
  ecdsa_Sign :: "privkey \<Rightarrow> bytes \<Rightarrow> signature"
  priv_PubKey :: "privkey \<Rightarrow> pubkey"
  SerializeCompressed :: "pubkey \<Rightarrow> bytes"
  schnorr_ParsePubKey :: "bytes \<Rightarrow> pubkey option"
  ScalarBaseMult :: "nat \<Rightarrow> pubkey"
  AddPoints :: "pubkey \<Rightarrow> pubkey \<Rightarrow> pubkey"

datatype sig_error =
  NilMessage | MissingSig | BadPubkeyHex | BadPubkey | BadSigEncoding | NonCanonicalSig
  | MarshalError | PubkeyMismatch | VerificationFailed

definition parseCanonicalSig :: "crypto \<Rightarrow> bytes \<Rightarrow> (sig_error, signature) result" where
  "parseCanonicalSig cr der =
     (case ecdsa_ParseDERSignature cr der of
        None \<Rightarrow> Inl BadSigEncoding
      | Some sig \<Rightarrow> if ecdsa_Serialize cr sig \<noteq> der then Inl NonCanonicalSig else Inr sig)"

definition parsePubkeyHex :: "crypto \<Rightarrow> string \<Rightarrow> (sig_error, pubkey) result" where
  "parsePubkeyHex cr s =
     (case hex_DecodeString s of
        None \<Rightarrow> Inl BadPubkeyHex
      | Some b \<Rightarrow> (case btcec_ParsePubKey cr b of None \<Rightarrow> Inl BadPubkey | Some pub \<Rightarrow> Inr pub))"

section \<open>Offers\<close>

definition CanonicalOfferBytes :: "crypto \<Rightarrow> offer option \<Rightarrow> (sig_error, bytes) result" where
  "CanonicalOfferBytes cr oo =
     (case oo of
        None \<Rightarrow> Inl NilMessage
      | Some ofr \<Rightarrow>
          (let c = ofr\<lparr>MakerSig := []\<rparr>;
               c = (case GetCovenant c of
                      None \<Rightarrow> c
                    | Some ct \<Rightarrow> c\<lparr>Settlement := Covenant (ct\<lparr>ct_CovenantTxid := '''', ct_CovenantVout := 0\<rparr>)\<rparr>)
           in case proto_Marshal_Offer cr c of None \<Rightarrow> Inl MarshalError | Some b \<Rightarrow> Inr b))"

definition OfferHash :: "crypto \<Rightarrow> offer option \<Rightarrow> (sig_error, bytes) result" where
  "OfferHash cr oo = rbind (CanonicalOfferBytes cr oo) (\<lambda>b. Inr (sha256_Sum256 cr b))"

definition SignOffer :: "crypto \<Rightarrow> offer option \<Rightarrow> privkey \<Rightarrow> (sig_error, offer) result" where
  "SignOffer cr oo priv =
     (case oo of
        None \<Rightarrow> Inl NilMessage
      | Some ofr \<Rightarrow>
          (let pubHex = hex_EncodeToString (SerializeCompressed cr (priv_PubKey cr priv)) in
           if MakerPubkey ofr \<noteq> '''' \<and> \<not> strings_EqualFold (MakerPubkey ofr) pubHex then Inl PubkeyMismatch
           else
             (let ofr = (if MakerPubkey ofr = '''' then ofr\<lparr>MakerPubkey := pubHex\<rparr> else ofr) in
              rbind (OfferHash cr (Some ofr))
                (\<lambda>h. Inr (ofr\<lparr>MakerSig := ecdsa_Serialize cr (ecdsa_Sign cr priv h)\<rparr>)))))"

definition VerifyOffer :: "crypto \<Rightarrow> offer option \<Rightarrow> (sig_error, unit) result" where
  "VerifyOffer cr oo =
     (case oo of
        None \<Rightarrow> Inl NilMessage
      | Some ofr \<Rightarrow>
          if MakerSig ofr = [] then Inl MissingSig
          else rbind (parsePubkeyHex cr (MakerPubkey ofr)) (\<lambda>pub.
               rbind (parseCanonicalSig cr (MakerSig ofr)) (\<lambda>sig.
               rbind (OfferHash cr oo) (\<lambda>h.
               if ecdsa_Verify cr sig h pub then Inr () else Inl VerificationFailed))))"

section \<open>Cancels\<close>

definition CanonicalCancelBytes :: "crypto \<Rightarrow> offer_cancel option \<Rightarrow> (sig_error, bytes) result" where
  "CanonicalCancelBytes cr co =
     (case co of
        None \<Rightarrow> Inl NilMessage
      | Some c \<Rightarrow> (case proto_Marshal_Cancel cr (c\<lparr>c_Sig := []\<rparr>) of
                     None \<Rightarrow> Inl MarshalError | Some b \<Rightarrow> Inr b))"

definition CancelHash :: "crypto \<Rightarrow> offer_cancel option \<Rightarrow> (sig_error, bytes) result" where
  "CancelHash cr co = rbind (CanonicalCancelBytes cr co) (\<lambda>b. Inr (sha256_Sum256 cr b))"

definition SignCancel :: "crypto \<Rightarrow> offer_cancel option \<Rightarrow> privkey \<Rightarrow> (sig_error, offer_cancel) result" where
  "SignCancel cr co priv =
     (case co of
        None \<Rightarrow> Inl NilMessage
      | Some c \<Rightarrow>
          (let pubHex = hex_EncodeToString (SerializeCompressed cr (priv_PubKey cr priv)) in
           if c_MakerPubkey c \<noteq> '''' \<and> \<not> strings_EqualFold (c_MakerPubkey c) pubHex then Inl PubkeyMismatch
           else
             (let c = (if c_MakerPubkey c = '''' then c\<lparr>c_MakerPubkey := pubHex\<rparr> else c) in
              rbind (CancelHash cr (Some c))
                (\<lambda>h. Inr (c\<lparr>c_Sig := ecdsa_Serialize cr (ecdsa_Sign cr priv h)\<rparr>)))))"

definition VerifyCancel :: "crypto \<Rightarrow> offer_cancel option \<Rightarrow> (sig_error, unit) result" where
  "VerifyCancel cr co =
     (case co of
        None \<Rightarrow> Inl NilMessage
      | Some c \<Rightarrow>
          if c_Sig c = [] then Inl MissingSig
          else rbind (parsePubkeyHex cr (c_MakerPubkey c)) (\<lambda>pub.
               rbind (parseCanonicalSig cr (c_Sig c)) (\<lambda>sig.
               rbind (CancelHash cr co) (\<lambda>h.
               if ecdsa_Verify cr sig h pub then Inr () else Inl VerificationFailed))))"

section \<open>Settled trades\<close>

definition CanonicalSettledTradeBytes :: "crypto \<Rightarrow> settled_trade option \<Rightarrow> (sig_error, bytes) result" where
  "CanonicalSettledTradeBytes cr so =
     (case so of
        None \<Rightarrow> Inl NilMessage
      | Some st \<Rightarrow> (case proto_Marshal_SettledTrade cr (st\<lparr>st_Sig := []\<rparr>) of
                      None \<Rightarrow> Inl MarshalError | Some b \<Rightarrow> Inr b))"

definition SettledTradeHash :: "crypto \<Rightarrow> settled_trade option \<Rightarrow> (sig_error, bytes) result" where
  "SettledTradeHash cr so = rbind (CanonicalSettledTradeBytes cr so) (\<lambda>b. Inr (sha256_Sum256 cr b))"

definition SignSettledTrade :: "crypto \<Rightarrow> settled_trade option \<Rightarrow> privkey \<Rightarrow> (sig_error, settled_trade) result" where
  "SignSettledTrade cr so priv =
     (case so of
        None \<Rightarrow> Inl NilMessage
      | Some st \<Rightarrow>
          (let pubHex = hex_EncodeToString (SerializeCompressed cr (priv_PubKey cr priv)) in
           if st_MakerPubkey st \<noteq> '''' \<and> \<not> strings_EqualFold (st_MakerPubkey st) pubHex then Inl PubkeyMismatch
           else
             (let st = (if st_MakerPubkey st = '''' then st\<lparr>st_MakerPubkey := pubHex\<rparr> else st) in
              rbind (SettledTradeHash cr (Some st))
                (\<lambda>h. Inr (st\<lparr>st_Sig := ecdsa_Serialize cr (ecdsa_Sign cr priv h)\<rparr>)))))"

definition VerifySettledTrade :: "crypto \<Rightarrow> settled_trade option \<Rightarrow> (sig_error, unit) result" where
  "VerifySettledTrade cr so =
     (case so of
        None \<Rightarrow> Inl NilMessage
      | Some st \<Rightarrow>
          if st_Sig st = [] then Inl MissingSig
          else rbind (parsePubkeyHex cr (st_MakerPubkey st)) (\<lambda>pub.
               rbind (parseCanonicalSig cr (st_Sig st)) (\<lambda>sig.
               rbind (SettledTradeHash cr so) (\<lambda>h.
               if ecdsa_Verify cr sig h pub then Inr () else Inl VerificationFailed))))"

section \<open>Session reattachment\<close>

definition string_bytes :: "string \<Rightarrow> bytes" where
  "string_bytes s = map (\<lambda>c. of_nat (of_char c)) s"

definition ReattachHash :: "crypto \<Rightarrow> string \<Rightarrow> string \<Rightarrow> bytes" where
  "ReattachHash cr sessionID role =
     sha256_Sum256 cr (string_bytes (''seqob-reattach|'' @ sessionID @ ''|'' @ role))"

definition SignReattach :: "crypto \<Rightarrow> string \<Rightarrow> string \<Rightarrow> privkey \<Rightarrow> bytes" where
  "SignReattach cr sessionID role priv =
     ecdsa_Serialize cr (ecdsa_Sign cr priv (ReattachHash cr sessionID role))"

definition VerifyReattach :: "crypto \<Rightarrow> string \<Rightarrow> string \<Rightarrow> bytes \<Rightarrow> bytes \<Rightarrow> (sig_error, unit) result" where
  "VerifyReattach cr sessionID role pubkey sig =
     (if sig = [] then Inl MissingSig
      else case btcec_ParsePubKey cr pubkey of
          None \<Rightarrow> Inl BadPubkey
        | Some pub \<Rightarrow>
            rbind (parseCanonicalSig cr sig) (\<lambda>s.
            if ecdsa_Verify cr s (ReattachHash cr sessionID role) pub then Inr () else Inl VerificationFailed))"

section \<open>Laws of the signature library, and what the code gets from them\<close>

text \<open>
  The order of the secp256k1 group. A private key is a number between one and \<open>N - 1\<close>, its public key the corresponding
  point; nothing is assumed of other numbers.
\<close>

definition secp256k1_N :: nat where
  "secp256k1_N = 115792089237316195423570985008687907852837564279074904382605163141518161494337"

fun valid_priv :: "privkey \<Rightarrow> bool" where
  "valid_priv (PrivKey n) \<longleftrightarrow> 0 < n \<and> n < secp256k1_N"

text \<open>
  The documented behaviour of btcec the code relies on, for valid private keys: a fresh signature verifies under the
  key's own public key, its DER encoding is nonempty and parses back, and the compressed encoding of that public key parses back.
\<close>

definition signing_laws :: "crypto \<Rightarrow> bool" where
  "signing_laws cr \<longleftrightarrow>
     (\<forall>priv h. valid_priv priv \<longrightarrow>
        ecdsa_Verify cr (ecdsa_Sign cr priv h) h (priv_PubKey cr priv) \<and>
        ecdsa_ParseDERSignature cr (ecdsa_Serialize cr (ecdsa_Sign cr priv h)) = Some (ecdsa_Sign cr priv h) \<and>
        ecdsa_Serialize cr (ecdsa_Sign cr priv h) \<noteq> [] \<and>
        btcec_ParsePubKey cr (SerializeCompressed cr (priv_PubKey cr priv)) = Some (priv_PubKey cr priv))"

text \<open>
  The malleability law: the encoder writes S in its low half, so a signature and its twin with \<open>N - s\<close> have the same encoding.
\<close>

definition low_s_law :: "crypto \<Rightarrow> bool" where
  "low_s_law cr \<longleftrightarrow>
     (\<forall>r s. 0 < s \<and> s < secp256k1_N \<longrightarrow>
        ecdsa_Serialize cr (Signature r s) = ecdsa_Serialize cr (Signature r (secp256k1_N - s)))"

lemma parsePubkeyHex_own:
  assumes "signing_laws cr" "valid_priv priv" "strings_EqualFold pk (hex_EncodeToString (SerializeCompressed cr (priv_PubKey cr priv)))"
  shows "parsePubkeyHex cr pk = Inr (priv_PubKey cr priv)"
  using assms hex_DecodeString_EqualFold [OF assms(3)]
  by (simp add: parsePubkeyHex_def hex_Decode_Encode signing_laws_def)

lemma parsePubkeyHex_encoded:
  "signing_laws cr \<Longrightarrow> valid_priv priv \<Longrightarrow> parsePubkeyHex cr (hex_EncodeToString (SerializeCompressed cr (priv_PubKey cr priv))) = Inr (priv_PubKey cr priv)"
  by (rule parsePubkeyHex_own) simp_all

lemma parseCanonicalSig_fresh:
  "signing_laws cr \<Longrightarrow> valid_priv priv \<Longrightarrow> parseCanonicalSig cr (ecdsa_Serialize cr (ecdsa_Sign cr priv h)) = Inr (ecdsa_Sign cr priv h)"
  by (simp add: parseCanonicalSig_def signing_laws_def)

lemma parseCanonicalSig_encoding: "parseCanonicalSig cr der = Inr sig \<Longrightarrow> der = ecdsa_Serialize cr sig"
  by (auto simp: parseCanonicalSig_def split: option.splits if_splits)

lemma OfferHash_sig [simp]: "OfferHash cr (Some (ofr\<lparr>MakerSig := sg\<rparr>)) = OfferHash cr (Some ofr)"
  by (simp add: OfferHash_def CanonicalOfferBytes_def GetCovenant_def)

lemma CancelHash_sig [simp]: "CancelHash cr (Some (c\<lparr>c_Sig := sg\<rparr>)) = CancelHash cr (Some c)"
  by (simp add: CancelHash_def CanonicalCancelBytes_def)

lemma SettledTradeHash_sig [simp]:
  "SettledTradeHash cr (Some (st\<lparr>st_Sig := sg\<rparr>)) = SettledTradeHash cr (Some st)"
  by (simp add: SettledTradeHash_def CanonicalSettledTradeBytes_def)

lemma fresh_sig_verifies: "signing_laws cr \<Longrightarrow> valid_priv priv \<Longrightarrow> ecdsa_Verify cr (ecdsa_Sign cr priv h) h (priv_PubKey cr priv)"
  by (simp add: signing_laws_def)

lemma fresh_sig_nonempty: "signing_laws cr \<Longrightarrow> valid_priv priv \<Longrightarrow> ecdsa_Serialize cr (ecdsa_Sign cr priv h) \<noteq> []"
  by (simp add: signing_laws_def)

lemma compressed_pubkey_parses: "signing_laws cr \<Longrightarrow> valid_priv priv \<Longrightarrow> btcec_ParsePubKey cr (SerializeCompressed cr (priv_PubKey cr priv)) = Some (priv_PubKey cr priv)"
  by (simp add: signing_laws_def)

lemmas fresh_sig = parsePubkeyHex_own parsePubkeyHex_encoded
  parseCanonicalSig_fresh fresh_sig_verifies fresh_sig_nonempty
  compressed_pubkey_parses

lemma SignOffer_verifies:
  assumes "signing_laws cr" "valid_priv priv" "SignOffer cr (Some ofr) priv = Inr ofr'"
  shows "VerifyOffer cr (Some ofr') = Inr ()"
  using assms
  by (auto simp: SignOffer_def VerifyOffer_def Let_def fresh_sig split: if_splits)

lemma SignCancel_verifies:
  assumes "signing_laws cr" "valid_priv priv" "SignCancel cr (Some c) priv = Inr c'"
  shows "VerifyCancel cr (Some c') = Inr ()"
  using assms
  by (auto simp: SignCancel_def VerifyCancel_def Let_def fresh_sig split: if_splits)

lemma SignSettledTrade_verifies:
  assumes "signing_laws cr" "valid_priv priv" "SignSettledTrade cr (Some st) priv = Inr st'"
  shows "VerifySettledTrade cr (Some st') = Inr ()"
  using assms
  by (auto simp: SignSettledTrade_def VerifySettledTrade_def Let_def fresh_sig split: if_splits)

lemma SignReattach_verifies:
  "signing_laws cr \<Longrightarrow> valid_priv priv \<Longrightarrow>
   VerifyReattach cr sid role (SerializeCompressed cr (priv_PubKey cr priv)) (SignReattach cr sid role priv) = Inr ()"
  by (simp add: VerifyReattach_def SignReattach_def fresh_sig)

text \<open>A verified offer carries a nonempty signature in its one canonical encoding.\<close>

lemma VerifyOffer_canonical:
  assumes "VerifyOffer cr (Some ofr) = Inr ()"
  obtains sig where "ecdsa_ParseDERSignature cr (MakerSig ofr) = Some sig"
    "MakerSig ofr = ecdsa_Serialize cr sig" "MakerSig ofr \<noteq> []"
proof -
  from assms obtain sig where "MakerSig ofr \<noteq> []" "parseCanonicalSig cr (MakerSig ofr) = Inr sig"
    by (auto simp: VerifyOffer_def split: if_splits)
  moreover from this(2) have "ecdsa_ParseDERSignature cr (MakerSig ofr) = Some sig"
    by (auto simp: parseCanonicalSig_def split: option.splits if_splits)
  ultimately show ?thesis
    using that parseCanonicalSig_encoding by blast
qed

text \<open>The resting outpoint is not signed: rewriting it keeps an offer's verification result.\<close>

definition set_outpoint :: "string \<Rightarrow> u32 \<Rightarrow> offer \<Rightarrow> offer" where
  "set_outpoint txid vout ofr =
     (case GetCovenant ofr of
        None \<Rightarrow> ofr
      | Some ct \<Rightarrow> ofr\<lparr>Settlement := Covenant (ct\<lparr>ct_CovenantTxid := txid, ct_CovenantVout := vout\<rparr>)\<rparr>)"

lemma set_outpoint_fields [simp]:
  "OfferId (set_outpoint t v ofr) = OfferId ofr" "MakerPubkey (set_outpoint t v ofr) = MakerPubkey ofr"
  "Pair (set_outpoint t v ofr) = Pair ofr" "BaseAmount (set_outpoint t v ofr) = BaseAmount ofr"
  "OfferAmount (set_outpoint t v ofr) = OfferAmount ofr" "WantAmount (set_outpoint t v ofr) = WantAmount ofr"
  "OfferAsset (set_outpoint t v ofr) = OfferAsset ofr" "WantAsset (set_outpoint t v ofr) = WantAsset ofr"
  "Confidential (set_outpoint t v ofr) = Confidential ofr" "TradeDir (set_outpoint t v ofr) = TradeDir ofr"
  "MakerSig (set_outpoint t v ofr) = MakerSig ofr" "ExpiresAtUnix (set_outpoint t v ofr) = ExpiresAtUnix ofr"
  "CreatedAtUnix (set_outpoint t v ofr) = CreatedAtUnix ofr" "MinFill (set_outpoint t v ofr) = MinFill ofr"
  "AllowPartial (set_outpoint t v ofr) = AllowPartial ofr"
  by (simp_all add: set_outpoint_def split: option.splits)

lemma set_outpoint_covenant [simp]:
  "GetCovenant (set_outpoint t v ofr) =
     map_option (\<lambda>ct. ct\<lparr>ct_CovenantTxid := t, ct_CovenantVout := v\<rparr>) (GetCovenant ofr)"
  by (cases "Settlement ofr") (simp_all add: set_outpoint_def GetCovenant_def)

lemma CanonicalOfferBytes_set_outpoint [simp]:
  "CanonicalOfferBytes cr (Some (set_outpoint t v ofr)) = CanonicalOfferBytes cr (Some ofr)"
proof (cases "GetCovenant ofr")
  case None
  then show ?thesis by (simp add: set_outpoint_def)
next
  case (Some ct)
  then show ?thesis by (simp add: set_outpoint_def CanonicalOfferBytes_def GetCovenant_def Let_def)
qed

lemma VerifyOffer_set_outpoint [simp]:
  "VerifyOffer cr (Some (set_outpoint t v ofr)) = VerifyOffer cr (Some ofr)"
  by (simp add: VerifyOffer_def OfferHash_def)

section \<open>Concrete signature scheme\<close>

text \<open>
  An instance of the environment in which every law above holds, used to evaluate the definitions
  on concrete inputs: a signature carries the signer's number, keys and signatures are encoded in
  unary, messages are encoded by their identifying fields.
\<close>

definition unary_pair :: "nat \<Rightarrow> nat \<Rightarrow> bytes" where
  "unary_pair a b = 2 # replicate a 1 @ 0 # replicate b 1"

definition parse_unary_pair :: "bytes \<Rightarrow> (nat \<times> nat) option" where
  "parse_unary_pair bs =
     (case bs of
        [] \<Rightarrow> None
      | t # cs \<Rightarrow>
          (let a = takeWhile (\<lambda>x. x = 1) cs; d = dropWhile (\<lambda>x. x = 1) cs in
           if t = 2 \<and> d \<noteq> [] \<and> hd d = 0 \<and> list_all (\<lambda>x. x = 1) (tl d) then Some (length a, length (tl d)) else None))"

lemma parse_unary_pair: "parse_unary_pair (unary_pair a b) = Some (a, b)"
proof -
  have "takeWhile (\<lambda>x. x = (1::byte)) (replicate a 1 @ 0 # replicate b 1) = replicate a 1"
    by (induction a) auto
  moreover have "dropWhile (\<lambda>x. x = (1::byte)) (replicate a 1 @ 0 # replicate b 1) = 0 # replicate b 1"
    by (induction a) auto
  ultimately show ?thesis
    by (simp add: parse_unary_pair_def unary_pair_def list_all_iff)
qed

definition demo_crypto :: crypto where
  "demo_crypto =
     \<lparr>proto_Marshal_Offer = (\<lambda>ofr. Some (string_bytes (OfferId ofr @ MakerPubkey ofr))),
      proto_Marshal_Cancel = (\<lambda>c. Some (string_bytes (c_OfferId c @ c_MakerPubkey c))),
      proto_Marshal_SettledTrade = (\<lambda>st. Some (string_bytes (st_OfferId st @ st_MakerPubkey st))),
      proto_Size = (\<lambda>ofr. length (OfferId ofr)),
      sha256_Sum256 = (\<lambda>b. replicate 32 0),
      btcec_ParsePubKey = (\<lambda>b. map_option (\<lambda>(x, y). PubKey x y) (parse_unary_pair b)),
      ecdsa_ParseDERSignature = (\<lambda>b. map_option (\<lambda>(r, s). Signature r s) (parse_unary_pair b)),
      ecdsa_Serialize = (\<lambda>sig. case sig of Signature r s \<Rightarrow>
         unary_pair r (if 0 < s \<and> s < secp256k1_N then min s (secp256k1_N - s) else s)),
      ecdsa_Verify = (\<lambda>sig h pub. case sig of Signature r s \<Rightarrow> case pub of PubKey x y \<Rightarrow> r = x),
      ecdsa_Sign = (\<lambda>priv h. case priv of PrivKey n \<Rightarrow> Signature n 1),
      priv_PubKey = (\<lambda>priv. case priv of PrivKey n \<Rightarrow> PubKey n 0),
      SerializeCompressed = (\<lambda>pub. case pub of PubKey x y \<Rightarrow> unary_pair x y),
      schnorr_ParsePubKey = (\<lambda>b. if length b = 32 then Some (PubKey 7 0) else None),
      ScalarBaseMult = (\<lambda>n. PubKey n 0),
      AddPoints = (\<lambda>p q. case p of PubKey x y \<Rightarrow> case q of PubKey x' y' \<Rightarrow> PubKey (x + x') (y + y'))\<rparr>"

lemma demo_signing_laws: "signing_laws demo_crypto"
  by (auto simp: signing_laws_def demo_crypto_def parse_unary_pair unary_pair_def [of _ "min _ _"]
      secp256k1_N_def split: privkey.splits pubkey.splits)
    (simp add: unary_pair_def)

lemma demo_low_s_law: "low_s_law demo_crypto"
  by (auto simp: low_s_law_def demo_crypto_def min.commute)

end
