(* ===== verification/Offerstore.thy ===== *)
theory Offerstore
  imports Offer_Model
begin

text \<open>
  The relay's in-memory order book (\<open>offerstore/store.go\<close>): its data, its locked helpers, the
  delta broadcast to subscribers, the trade feed with its append-only log, and every operation that
  reads or changes the book. An operation takes the clock reading and the store and returns the new
  store with its result. The mutex makes each operation atomic, so an execution is a sequence of
  operations; where an operation releases the lock between two steps (recording a trade after the
  book change), the steps are composed in the order the code runs them.
\<close>

section \<open>Data\<close>

datatype key = Key (k_MakerPubkey: string) (k_OfferID: string)

record entry =
  e_Offer :: offer
  e_Status :: offer_status
  e_ActiveAmount :: u64
  e_SettleTxid :: string
  e_AnchorConfs :: u32
  e_CreatedAt :: time
  e_heldFill :: u64
  e_reRested :: bool
  e_demoted :: bool

record trade =
  tr_TS :: time
  tr_Price :: rat
  tr_Size :: u64
  tr_Txid :: string

definition maxTradesPerPair :: nat where
  "maxTradesPerPair = 1000"

record tradeRec =
  rec_PK :: string
  rec_TS :: time
  rec_Price :: rat
  rec_Size :: u64
  rec_Txid :: string
  rec_RetractTxid :: string

record order_status =
  os_OfferId :: string
  os_MakerPubkey :: string
  os_Status :: offer_status
  os_ActiveAmount :: u64
  os_SettleTxid :: string
  os_AnchorConfs :: u32
  os_Demoted :: bool

datatype event_type = EventCreated | EventRemoved | EventStatus

record event =
  ev_Type :: event_type
  ev_Pair :: "asset_pair option"
  ev_Confidential :: bool
  ev_Offer :: "offer option"
  ev_Ref :: "key option"
  ev_Status :: "order_status option"
  ev_Seq :: u64

text \<open>
  A subscriber's buffered channel is its queue of undelivered events and its capacity.
\<close>

record subscriber =
  sub_pair :: string
  sub_confidential :: bool
  sub_ch :: "event list"
  sub_cap :: nat
  sub_seq :: u64

text \<open>
  The set of keys of a pair bucket is a distinct list. The trade log is the list of its lines, each
  the record it decodes to or \<open>None\<close> for a line that does not decode; a nil log handle is \<open>None\<close>.
\<close>

record store =
  entries :: "(key, entry) gomap"
  pairs :: "(string, key list) gomap"
  subs :: "(nat, subscriber) gomap"
  nextSub :: nat
  cancelNonce :: "(key, u64) gomap"
  settledNonce :: "(key, u64) gomap"
  subBuf :: nat
  trades :: "(string, trade list) gomap"
  tradeLog :: "tradeRec option list option"
  interactiveCap :: u64

datatype store_error =
  ErrSignature sig_error | ErrMissingPair | ErrExists | ErrNotFound | ErrCreatedBackwards
  | ErrStaleCancelNonce | ErrCancelPredates | ErrZeroNonce | ErrStaleSettledNonce | ErrCancelledByMaker
  | ErrOpenLog

definition NewStore :: store where
  "NewStore =
     \<lparr>entries = [], pairs = [], subs = [], nextSub = 0, cancelNonce = [], settledNonce = [],
      subBuf = 256, trades = [], tradeLog = None, interactiveCap = 0\<rparr>"

definition SetInteractiveCap :: "u64 \<Rightarrow> store \<Rightarrow> store" where
  "SetInteractiveCap n s = s\<lparr>interactiveCap := n\<rparr>"

definition SetSubBuf :: "int \<Rightarrow> store \<Rightarrow> store" where
  "SetSubBuf n s = s\<lparr>subBuf := nat (if n < 1 then 1 else n)\<rparr>"

section \<open>Keys, prices, locked helpers\<close>

definition pairKey :: "asset_pair option \<Rightarrow> string" where
  "pairKey p = GetBaseAsset p @ ''/'' @ GetQuoteAsset p"

definition keyOf :: "offer \<Rightarrow> key" where
  "keyOf ofr = Key (MakerPubkey ofr) (OfferId ofr)"

definition displayPrice :: "offer \<Rightarrow> rat \<times> bool" where
  "displayPrice ofr =
     (if BaseAmount ofr = 0 then (0, False)
      else case TradeDir ofr of
          TRADE_DIR_SELL \<Rightarrow>
            if OfferAmount ofr = 0 then (0, False)
            else (f64_div (f64_of_nat (unat (WantAmount ofr))) (f64_of_nat (unat (OfferAmount ofr))), False)
        | TRADE_DIR_BUY \<Rightarrow>
            if WantAmount ofr = 0 then (0, True)
            else (f64_div (f64_of_nat (unat (OfferAmount ofr))) (f64_of_nat (unat (WantAmount ofr))), True)
        | _ \<Rightarrow> (0, False))"

definition put :: "key \<Rightarrow> entry \<Rightarrow> store \<Rightarrow> store" where
  "put k e s =
     (let pk = pairKey (Pair (e_Offer e)) in
      s\<lparr>entries := AList.update k e (entries s),
        pairs := AList.update pk (List.insert k (gomap_get [] (pairs s) pk)) (pairs s)\<rparr>)"

definition remove :: "key \<Rightarrow> store \<Rightarrow> store" where
  "remove k s =
     (case map_of (entries s) k of
        None \<Rightarrow> s
      | Some e \<Rightarrow>
          (let pk = pairKey (Pair (e_Offer e)); s = s\<lparr>entries := AList.delete k (entries s)\<rparr> in
           case map_of (pairs s) pk of
             None \<Rightarrow> s
           | Some ks \<Rightarrow>
               (let ks = removeAll k ks in
                if ks = [] then s\<lparr>pairs := AList.delete pk (pairs s)\<rparr>
                else s\<lparr>pairs := AList.update pk ks (pairs s)\<rparr>)))"

text \<open>Writing through the shared \<open>*Entry\<close> of a resting key.\<close>

definition set_entry :: "key \<Rightarrow> entry \<Rightarrow> store \<Rightarrow> store" where
  "set_entry k e s = s\<lparr>entries := AList.update k e (entries s)\<rparr>"

definition orderStatus :: "key \<Rightarrow> entry \<Rightarrow> order_status" where
  "orderStatus k e =
     \<lparr>os_OfferId = k_OfferID k, os_MakerPubkey = k_MakerPubkey k, os_Status = e_Status e,
      os_ActiveAmount = e_ActiveAmount e, os_SettleTxid = e_SettleTxid e, os_AnchorConfs = e_AnchorConfs e,
      os_Demoted = e_demoted e\<rparr>"

definition ev_created :: "offer \<Rightarrow> event" where
  "ev_created ofr =
     \<lparr>ev_Type = EventCreated, ev_Pair = Pair ofr, ev_Confidential = Confidential ofr, ev_Offer = Some ofr,
      ev_Ref = None, ev_Status = None, ev_Seq = 0\<rparr>"

definition ev_removed :: "key \<Rightarrow> offer \<Rightarrow> event" where
  "ev_removed k ofr =
     \<lparr>ev_Type = EventRemoved, ev_Pair = Pair ofr, ev_Confidential = Confidential ofr, ev_Offer = None,
      ev_Ref = Some k, ev_Status = None, ev_Seq = 0\<rparr>"

definition ev_status :: "key \<Rightarrow> entry \<Rightarrow> event" where
  "ev_status k e =
     \<lparr>ev_Type = EventStatus, ev_Pair = Pair (e_Offer e), ev_Confidential = Confidential (e_Offer e),
      ev_Offer = None, ev_Ref = None, ev_Status = Some (orderStatus k e), ev_Seq = 0\<rparr>"

definition routed :: "event \<Rightarrow> subscriber \<Rightarrow> bool" where
  "routed ev sub \<longleftrightarrow>
     sub_confidential sub = ev_Confidential ev \<and> (sub_pair sub = '''' \<or> sub_pair sub = pairKey (ev_Pair ev))"

text \<open>One non-blocking send: the sequence number is consumed even when the buffer is full.\<close>

definition deliver :: "event \<Rightarrow> subscriber \<Rightarrow> subscriber" where
  "deliver ev sub =
     (if routed ev sub
      then (let n = sub_seq sub + 1 in
            sub\<lparr>sub_seq := n,
                sub_ch := (if length (sub_ch sub) < sub_cap sub then sub_ch sub @ [ev\<lparr>ev_Seq := n\<rparr>] else sub_ch sub)\<rparr>)
      else sub)"

definition broadcast :: "event \<Rightarrow> store \<Rightarrow> store" where
  "broadcast ev s = s\<lparr>subs := map (\<lambda>(i, sub). (i, deliver ev sub)) (subs s)\<rparr>"

section \<open>Trade feed\<close>

definition push_trade :: "trade \<Rightarrow> trade list \<Rightarrow> trade list" where
  "push_trade t ring =
     (let ring = ring @ [t] in
      if maxTradesPerPair < length ring then drop (length ring - maxTradesPerPair) ring else ring)"

text \<open>\<open>tradeLog\<close> holds the contents of the log at start-up and the lines issued since, in the order of the critical sections. The write itself
  happens after the mutex is released and its errors are ignored; \<open>Trade_File\<close> models it.\<close>

definition append_log :: "tradeRec \<Rightarrow> store \<Rightarrow> store" where
  "append_log r s = s\<lparr>tradeLog := map_option (\<lambda>l. l @ [Some r]) (tradeLog s)\<rparr>"

definition RecordTradeTx :: "time \<Rightarrow> offer option \<Rightarrow> u64 \<Rightarrow> string \<Rightarrow> store \<Rightarrow> store" where
  "RecordTradeTx now restingOffer sizeBase txid s =
     (case restingOffer of
        None \<Rightarrow> s
      | Some ofr \<Rightarrow>
          if sizeBase = 0 then s
          else
            (let price = fst (displayPrice ofr) in
             if price \<le> 0 \<or> Pair ofr = None then s
             else
               (let pk = pairKey (Pair ofr);
                    t = push_trade \<lparr>tr_TS = now, tr_Price = price, tr_Size = sizeBase, tr_Txid = txid\<rparr>
                          (gomap_get [] (trades s) pk)
                in append_log \<lparr>rec_PK = pk, rec_TS = now, rec_Price = price, rec_Size = sizeBase, rec_Txid = txid,
                               rec_RetractTxid = ''''\<rparr>
                     (s\<lparr>trades := AList.update pk t (trades s)\<rparr>))))"

definition RecordTrade :: "time \<Rightarrow> offer option \<Rightarrow> u64 \<Rightarrow> store \<Rightarrow> store" where
  "RecordTrade now restingOffer sizeBase s = RecordTradeTx now restingOffer sizeBase '''' s"

definition RetractTrade :: "time \<Rightarrow> asset_pair option \<Rightarrow> string \<Rightarrow> store \<Rightarrow> store \<times> nat" where
  "RetractTrade now pr txid s =
     (if pr = None \<or> txid = '''' then (s, 0)
      else
        (let pk = pairKey pr;
             ring = gomap_get [] (trades s) pk;
             kept = filter (\<lambda>tr. tr_Txid tr \<noteq> txid) ring;
             removed = length (filter (\<lambda>tr. tr_Txid tr = txid) ring)
         in if removed = 0 then (s, 0)
            else (append_log \<lparr>rec_PK = pk, rec_TS = now, rec_Price = 0, rec_Size = 0, rec_Txid = '''',
                              rec_RetractTxid = txid\<rparr> (s\<lparr>trades := AList.update pk kept (trades s)\<rparr>), removed)))"

text \<open>Replaying one decoded line of the log into the rings.\<close>

definition replay_rec :: "tradeRec option \<Rightarrow> (string, trade list) gomap \<Rightarrow> (string, trade list) gomap" where
  "replay_rec line rings =
     (case line of
        None \<Rightarrow> rings
      | Some r \<Rightarrow>
          if rec_PK r = '''' then rings
          else if rec_RetractTxid r \<noteq> '''' then
            AList.update (rec_PK r)
              (filter (\<lambda>tr. tr_Txid tr \<noteq> rec_RetractTxid r) (gomap_get [] rings (rec_PK r))) rings
          else if 0 < rec_Price r \<and> rec_Size r \<noteq> 0 then
            AList.update (rec_PK r)
              (push_trade \<lparr>tr_TS = rec_TS r, tr_Price = rec_Price r, tr_Size = rec_Size r, tr_Txid = rec_Txid r\<rparr>
                (gomap_get [] rings (rec_PK r))) rings
          else rings)"

definition compactTradeLog :: "(string, trade list) gomap \<Rightarrow> tradeRec option list" where
  "compactTradeLog rings =
     concat (map (\<lambda>(pk, ring).
       map (\<lambda>tr. Some \<lparr>rec_PK = pk, rec_TS = tr_TS tr, rec_Price = tr_Price tr, rec_Size = tr_Size tr,
                       rec_Txid = tr_Txid tr, rec_RetractTxid = ''''\<rparr>) ring) rings)"

text \<open>
  \<open>EnableTradeLog\<close> on the current contents of the file (\<open>None\<close>: it cannot be opened for reading).
  \<open>compactOk\<close> and \<open>openOk\<close> say whether rewriting the file and opening it for appending succeed.
  The last component is the file left on disk.
\<close>

definition EnableTradeLog ::
  "tradeRec option list option \<Rightarrow> bool \<Rightarrow> bool \<Rightarrow> store \<Rightarrow> store \<times> (store_error, unit) result \<times> tradeRec option list option" where
  "EnableTradeLog file compactOk openOk s =
     (let s = (case file of None \<Rightarrow> s | Some ls \<Rightarrow> s\<lparr>trades := fold replay_rec ls (trades s)\<rparr>);
          disk = (case file of None \<Rightarrow> None
                  | Some ls \<Rightarrow> Some (if compactOk then compactTradeLog (trades s) else ls))
      in if \<not> openOk then (s, Inl ErrOpenLog, disk)
         else (let l = (case disk of None \<Rightarrow> [] | Some ls \<Rightarrow> ls) in (s\<lparr>tradeLog := Some l\<rparr>, Inr (), Some l)))"

definition TradesFor :: "asset_pair option \<Rightarrow> int \<Rightarrow> store \<Rightarrow> trade list" where
  "TradesFor pr limit s =
     (if pr = None then []
      else
        (let t = gomap_get [] (trades s) (pairKey pr) in
         if 0 < limit \<and> limit < int (length t) then drop (length t - nat limit) t else t))"

section \<open>Committed capital\<close>

definition committedInteractiveLocked :: "string \<Rightarrow> string \<Rightarrow> store \<Rightarrow> u64" where
  "committedInteractiveLocked makerPubkey offerAsset s =
     foldl (\<lambda>total (k, e).
       if k_MakerPubkey k \<noteq> makerPubkey \<or> GetCovenant (e_Offer e) \<noteq> None then total
       else if OfferAsset (e_Offer e) \<noteq> offerAsset then total
       else total + OfferAmount (e_Offer e)) 0 (entries s)"

definition CommittedInteractiveCapital :: "string \<Rightarrow> string \<Rightarrow> store \<Rightarrow> u64" where
  "CommittedInteractiveCapital makerPubkey offerAsset s = committedInteractiveLocked makerPubkey offerAsset s"

section \<open>Submit, edit, cancel\<close>

definition new_entry :: "time \<Rightarrow> offer \<Rightarrow> offer_status \<Rightarrow> u64 \<Rightarrow> entry" where
  "new_entry now ofr st active =
     \<lparr>e_Offer = ofr, e_Status = st, e_ActiveAmount = active, e_SettleTxid = '''', e_AnchorConfs = 0,
      e_CreatedAt = now, e_heldFill = 0, e_reRested = False, e_demoted = False\<rparr>"

definition Submit :: "crypto \<Rightarrow> time \<Rightarrow> offer \<Rightarrow> store \<Rightarrow> store \<times> (store_error, key) result" where
  "Submit cr now ofr s =
     (case VerifyOffer cr (Some ofr) of
        Inl e \<Rightarrow> (s, Inl (ErrSignature e))
      | Inr _ \<Rightarrow>
          if Pair ofr = None then (s, Inl ErrMissingPair)
          else
            (let k = keyOf ofr in
             case map_of (entries s) k of
               Some _ \<Rightarrow> (s, Inl ErrExists)
             | None \<Rightarrow>
                 (let e = new_entry now ofr OFFER_STATUS_OPEN (BaseAmount ofr);
                      s = put k e s;
                      s = (if 0 < interactiveCap s \<and> GetCovenant ofr = None \<and>
                              interactiveCap s < committedInteractiveLocked (k_MakerPubkey k) (OfferAsset ofr) s
                           then set_entry k (e\<lparr>e_demoted := True\<rparr>) s else s)
                  in (broadcast (ev_created ofr) s, Inr k))))"

definition Edit :: "crypto \<Rightarrow> time \<Rightarrow> offer \<Rightarrow> store \<Rightarrow> store \<times> (store_error, unit) result" where
  "Edit cr now ofr s =
     (case VerifyOffer cr (Some ofr) of
        Inl e \<Rightarrow> (s, Inl (ErrSignature e))
      | Inr _ \<Rightarrow>
          (let k = keyOf ofr in
           case map_of (entries s) k of
             None \<Rightarrow> (s, Inl ErrNotFound)
           | Some old \<Rightarrow>
               if CreatedAtUnix ofr < CreatedAtUnix (e_Offer old) then (s, Inl ErrCreatedBackwards)
               else
                 (let s = remove k s;
                      s = put k (new_entry now ofr OFFER_STATUS_OPEN (BaseAmount ofr)) s
                  in (broadcast (ev_created ofr) (broadcast (ev_removed k (e_Offer old)) s), Inr ()))))"

text \<open>Clock nonces: nanoseconds from \<open>1e15\<close> up, seconds from \<open>1e9\<close> up, opaque counters below.
  The products wrap at 64 bits.\<close>

definition cancelledSince :: "u64 \<Rightarrow> u64 \<Rightarrow> bool" where
  "cancelledSince n createdAtUnix =
     (if n = 0 \<or> createdAtUnix = 0 then False
      else if 1000000000000000 \<le> n then createdAtUnix * 1000000000 \<le> n
      else createdAtUnix \<le> n \<and> 1000000000 \<le> n)"

definition nonceBefore :: "u64 \<Rightarrow> u64 \<Rightarrow> bool" where
  "nonceBefore n createdAtUnix =
     (if n = 0 \<or> createdAtUnix = 0 \<or> n < 1000000000 then False
      else if 1000000000000000 \<le> n then n < createdAtUnix * 1000000000
      else n < createdAtUnix)"

definition Cancel :: "crypto \<Rightarrow> offer_cancel \<Rightarrow> store \<Rightarrow> store \<times> (store_error, unit) result" where
  "Cancel cr c s =
     (case VerifyCancel cr (Some c) of
        Inl e \<Rightarrow> (s, Inl (ErrSignature e))
      | Inr _ \<Rightarrow>
          (let k = Key (c_MakerPubkey c) (c_OfferId c) in
           if c_Nonce c \<le> gomap_get 0 (cancelNonce s) k then (s, Inl ErrStaleCancelNonce)
           else
             (let eo = map_of (entries s) k in
              if (case eo of Some e \<Rightarrow> nonceBefore (c_Nonce c) (CreatedAtUnix (e_Offer e)) | None \<Rightarrow> False)
              then (s, Inl ErrCancelPredates)
              else
                (let s = (if eo \<noteq> None \<or> map_of (cancelNonce s) k \<noteq> None
                          then s\<lparr>cancelNonce := AList.update k (c_Nonce c) (cancelNonce s)\<rparr> else s)
                 in case eo of
                      None \<Rightarrow> (s, Inl ErrNotFound)
                    | Some e \<Rightarrow> (broadcast (ev_removed k (e_Offer e)) (remove k s), Inr ())))))"

section \<open>Reads\<close>

definition Get :: "key \<Rightarrow> store \<Rightarrow> entry option" where
  "Get k s = map_of (entries s) k"

definition RestingMakerSig :: "string \<Rightarrow> string \<Rightarrow> store \<Rightarrow> bytes option" where
  "RestingMakerSig makerPubkey offerID s =
     (case map_of (entries s) (Key makerPubkey offerID) of None \<Rightarrow> None | Some e \<Rightarrow> Some (MakerSig (e_Offer e)))"

definition OrderStatusOf :: "key \<Rightarrow> store \<Rightarrow> order_status option" where
  "OrderStatusOf k s = (case map_of (entries s) k of None \<Rightarrow> None | Some e \<Rightarrow> Some (orderStatus k e))"

definition SnapshotPairEntries :: "asset_pair option \<Rightarrow> bool \<Rightarrow> store \<Rightarrow> entry list" where
  "SnapshotPairEntries p confidential s =
     List.map_filter (\<lambda>k. case map_of (entries s) k of
         Some e \<Rightarrow> if Confidential (e_Offer e) = confidential then Some e else None
       | None \<Rightarrow> None) (gomap_get [] (pairs s) (pairKey p))"

definition snapshotLocked :: "string \<Rightarrow> bool \<Rightarrow> store \<Rightarrow> offer list" where
  "snapshotLocked pk confidential s =
     List.map_filter (\<lambda>k. case map_of (entries s) k of
         Some e \<Rightarrow> if Confidential (e_Offer e) = confidential then Some (e_Offer e) else None
       | None \<Rightarrow> None) (gomap_get [] (pairs s) pk)"

definition SnapshotPair :: "asset_pair option \<Rightarrow> bool \<Rightarrow> store \<Rightarrow> offer list" where
  "SnapshotPair p confidential s =
     List.map_filter (\<lambda>k. case map_of (entries s) k of
         Some e \<Rightarrow> if Confidential (e_Offer e) = confidential then Some (e_Offer e) else None
       | None \<Rightarrow> None) (gomap_get [] (pairs s) (pairKey p))"

definition SnapshotMaker :: "string \<Rightarrow> store \<Rightarrow> entry list" where
  "SnapshotMaker makerPubkey s =
     map snd (filter (\<lambda>(k, e). k_MakerPubkey k = makerPubkey) (entries s))"

section \<open>Market summaries\<close>

record market =
  mk_Pair :: asset_pair
  mk_BestBid :: rat
  mk_BestAsk :: rat
  mk_LastPrice :: rat
  mk_NOrders :: u64

text \<open>The per-namespace aggregate of one pair.\<close>

record agg =
  ag_pair :: asset_pair
  ag_bestBid :: rat
  ag_bestAsk :: rat
  ag_n :: u64

text \<open>Counting one offer into its namespace's aggregate; \<open>None\<close> is the nil dereference of an offer
  without a pair.\<close>

definition agg_offer :: "offer \<Rightarrow> agg option \<Rightarrow> agg option" where
  "agg_offer ofr ao =
     (case (case ao of
              Some a \<Rightarrow> Some a
            | None \<Rightarrow>
                map_option (\<lambda>p. \<lparr>ag_pair = p\<lparr>PairConfidential := Confidential ofr\<rparr>, ag_bestBid = 0, ag_bestAsk = 0, ag_n = 0\<rparr>)
                  (Pair ofr)) of
        None \<Rightarrow> None
      | Some a \<Rightarrow>
          (let a = a\<lparr>ag_n := ag_n a + 1\<rparr>; (price, isBid) = displayPrice ofr in
           Some (if price \<le> 0 then a
                 else if isBid then (if ag_bestBid a < price then a\<lparr>ag_bestBid := price\<rparr> else a)
                 else if ag_bestAsk a = 0 \<or> price < ag_bestAsk a then a\<lparr>ag_bestAsk := price\<rparr> else a)))"

definition counted :: "(offer \<Rightarrow> bool) option \<Rightarrow> entry \<Rightarrow> bool" where
  "counted keep e \<longleftrightarrow> e_ActiveAmount e \<noteq> 0 \<and> (case keep of None \<Rightarrow> True | Some f \<Rightarrow> f (e_Offer e))"

fun agg_keys ::
  "(offer \<Rightarrow> bool) option \<Rightarrow> store \<Rightarrow> key list \<Rightarrow> agg option \<times> agg option \<Rightarrow> (agg option \<times> agg option) option" where
  "agg_keys keep s [] books = Some books"
| "agg_keys keep s (k # ks) (transparent, blinded) =
     (case map_of (entries s) k of
        None \<Rightarrow> agg_keys keep s ks (transparent, blinded)
      | Some e \<Rightarrow>
          if \<not> counted keep e then agg_keys keep s ks (transparent, blinded)
          else if Confidential (e_Offer e)
          then (case agg_offer (e_Offer e) blinded of
                  None \<Rightarrow> None | Some a \<Rightarrow> agg_keys keep s ks (transparent, Some a))
          else (case agg_offer (e_Offer e) transparent of
                  None \<Rightarrow> None | Some a \<Rightarrow> agg_keys keep s ks (Some a, blinded)))"

definition market_of :: "rat \<Rightarrow> agg option \<Rightarrow> market list" where
  "market_of lst ao =
     (case ao of
        None \<Rightarrow> []
      | Some a \<Rightarrow>
          if ag_n a = 0 then []
          else [\<lparr>mk_Pair = ag_pair a, mk_BestBid = ag_bestBid a, mk_BestAsk = ag_bestAsk a, mk_LastPrice = lst,
                 mk_NOrders = ag_n a\<rparr>])"

fun markets_of_pairs ::
  "(offer \<Rightarrow> bool) option \<Rightarrow> store \<Rightarrow> (string \<times> key list) list \<Rightarrow> market list option" where
  "markets_of_pairs keep s [] = Some []"
| "markets_of_pairs keep s ((pk, ks) # ps) =
     (if ks = [] then markets_of_pairs keep s ps
      else case agg_keys keep s ks (None, None) of
          None \<Rightarrow> None
        | Some (transparent, blinded) \<Rightarrow>
            (let t = gomap_get [] (trades s) pk; lst = (if t = [] then 0 else tr_Price (last t)) in
             map_option (\<lambda>out. market_of lst transparent @ market_of lst blinded @ out) (markets_of_pairs keep s ps)))"

definition MarketsFiltered :: "(offer \<Rightarrow> bool) option \<Rightarrow> store \<Rightarrow> market list option" where
  "MarketsFiltered keep s = markets_of_pairs keep s (pairs s)"

definition Markets :: "store \<Rightarrow> market list option" where
  "Markets s = MarketsFiltered None s"

section \<open>Fills\<close>

text \<open>The resting entry after \<open>filledBase\<close> base atoms of it settled.\<close>

definition fill_entry :: "u64 \<Rightarrow> string \<Rightarrow> u32 \<Rightarrow> entry \<Rightarrow> entry" where
  "fill_entry filledBase settleTxid anchorConfs e =
     (let filledBase = (if e_ActiveAmount e < filledBase then e_ActiveAmount e else filledBase);
          e = e\<lparr>e_ActiveAmount := e_ActiveAmount e - filledBase, e_SettleTxid := settleTxid,
                e_AnchorConfs := anchorConfs\<rparr>
      in e\<lparr>e_Status := (if e_ActiveAmount e = 0 \<and> MinAnchorDepth (e_Offer e) \<le> anchorConfs
                         then OFFER_STATUS_FILLED else OFFER_STATUS_PARTIAL)\<rparr>)"

definition ApplyPartialFill ::
  "key \<Rightarrow> u64 \<Rightarrow> string \<Rightarrow> u32 \<Rightarrow> store \<Rightarrow> store \<times> (store_error, unit) result" where
  "ApplyPartialFill k filledBase settleTxid anchorConfs s =
     (case map_of (entries s) k of
        None \<Rightarrow> (s, Inl ErrNotFound)
      | Some e \<Rightarrow>
          (let e = fill_entry filledBase settleTxid anchorConfs e;
               filled = (e_ActiveAmount e = 0 \<and> e_Status e = OFFER_STATUS_FILLED);
               s = set_entry k e s;
               s = (if filled then remove k s else s);
               s = broadcast (ev_status k e) s
           in (if filled then broadcast (ev_removed k (e_Offer e)) s else s, Inr ())))"

definition RecordSettledFill ::
  "time \<Rightarrow> key \<Rightarrow> u64 \<Rightarrow> string \<Rightarrow> u32 \<Rightarrow> u64 \<Rightarrow> store \<Rightarrow> store \<times> (store_error, unit) result" where
  "RecordSettledFill now k fillBase settleTxid anchorConfs nonce s =
     (if nonce = 0 then (s, Inl ErrZeroNonce)
      else if nonce \<le> gomap_get 0 (settledNonce s) k then (s, Inl ErrStaleSettledNonce)
      else
        (let eo = map_of (entries s) k;
             s = (if eo \<noteq> None \<or> map_of (settledNonce s) k \<noteq> None
                  then s\<lparr>settledNonce := AList.update k nonce (settledNonce s)\<rparr> else s)
         in case eo of
              None \<Rightarrow> (s, Inr ())
            | Some e \<Rightarrow>
                (let fill = (if e_ActiveAmount e < fillBase then e_ActiveAmount e else fillBase) in
                 if fill = 0 then (s, Inr ())
                 else ApplyPartialFill k fill settleTxid anchorConfs (RecordTrade now (Some (e_Offer e)) fill s))))"

definition dropWithStatus :: "key \<Rightarrow> offer_status \<Rightarrow> store \<Rightarrow> store \<times> (store_error, unit) result" where
  "dropWithStatus k status s =
     (case map_of (entries s) k of
        None \<Rightarrow> (s, Inl ErrNotFound)
      | Some e \<Rightarrow>
          (let e = e\<lparr>e_Status := status\<rparr>; s = remove k s in
           (broadcast (ev_removed k (e_Offer e)) (broadcast (ev_status k e) s), Inr ())))"

definition MarkInvalidated :: "key \<Rightarrow> store \<Rightarrow> store \<times> (store_error, unit) result" where
  "MarkInvalidated k s = dropWithStatus k OFFER_STATUS_UTXO_INVALIDATED s"

definition RetireIncoming :: "key \<Rightarrow> offer_status \<Rightarrow> store \<Rightarrow> store \<times> (store_error, unit) result" where
  "RetireIncoming k status s =
     (case map_of (entries s) k of None \<Rightarrow> (s, Inr ()) | Some _ \<Rightarrow> dropWithStatus k status s)"

definition Reopen :: "crypto \<Rightarrow> time \<Rightarrow> offer \<Rightarrow> u64 \<Rightarrow> store \<Rightarrow> store \<times> (store_error, unit) result" where
  "Reopen cr now ofr restoreActive s =
     (case VerifyOffer cr (Some ofr) of
        Inl e \<Rightarrow> (s, Inl (ErrSignature e))
      | Inr _ \<Rightarrow>
          (let k = keyOf ofr;
               restoreActive = (if restoreActive = 0 \<or> BaseAmount ofr < restoreActive then BaseAmount ofr else restoreActive);
               status = (if restoreActive < BaseAmount ofr then OFFER_STATUS_PARTIAL else OFFER_STATUS_OPEN)
           in if cancelledSince (gomap_get 0 (cancelNonce s) k) (CreatedAtUnix ofr) then (s, Inl ErrCancelledByMaker)
              else (broadcast (ev_created ofr) (put k (new_entry now ofr status restoreActive) s), Inr ())))"

section \<open>Bulk removals\<close>

text \<open>Remove each key in turn under one lock, then send each one's events.\<close>

definition remove_all :: "key list \<Rightarrow> store \<Rightarrow> store" where
  "remove_all ks s = fold remove ks s"

definition broadcast_all :: "event list \<Rightarrow> store \<Rightarrow> store" where
  "broadcast_all evs s = fold broadcast evs s"

definition SweepExpired :: "time \<Rightarrow> store \<Rightarrow> store \<times> nat" where
  "SweepExpired now s =
     (let expired = filter (\<lambda>(k, e). ExpiresAtUnix (e_Offer e) \<noteq> 0 \<and> ExpiresAtUnix (e_Offer e) \<le> unix_seconds now) (entries s);
          evs = concat (map (\<lambda>(k, e). [ev_status k (e\<lparr>e_Status := OFFER_STATUS_EXPIRED\<rparr>), ev_removed k (e_Offer e)]) expired)
      in (broadcast_all evs (remove_all (map fst expired) s), length expired))"

definition RemoveInteractiveByMaker :: "string \<Rightarrow> store \<Rightarrow> store \<times> nat" where
  "RemoveInteractiveByMaker makerPubkey s =
     (let victims = filter (\<lambda>(k, e). k_MakerPubkey k = makerPubkey \<and> GetCovenant (e_Offer e) = None) (entries s)
      in (broadcast_all (map (\<lambda>(k, e). ev_removed k (e_Offer e)) victims) (remove_all (map fst victims) s), length victims))"

text \<open>The victims of an explicit key list are found and removed one key at a time, so a repeated key
  is removed once.\<close>

fun remove_interactive_keys :: "key list \<Rightarrow> store \<Rightarrow> store \<times> event list" where
  "remove_interactive_keys [] s = (s, [])"
| "remove_interactive_keys (k # ks) s =
     (case map_of (entries s) k of
        None \<Rightarrow> remove_interactive_keys ks s
      | Some e \<Rightarrow>
          if GetCovenant (e_Offer e) \<noteq> None then remove_interactive_keys ks s
          else (let (s', evs) = remove_interactive_keys ks (remove k s) in (s', ev_removed k (e_Offer e) # evs)))"

definition RemoveInteractiveByKeys :: "key list \<Rightarrow> store \<Rightarrow> store \<times> nat" where
  "RemoveInteractiveByKeys ks s =
     (let (s', evs) = remove_interactive_keys ks s in (broadcast_all evs s', length evs))"

definition RemoveByMaker :: "string \<Rightarrow> store \<Rightarrow> store \<times> nat" where
  "RemoveByMaker makerPubkey s =
     (let victims = filter (\<lambda>(k, e). k_MakerPubkey k = makerPubkey \<and> GetSameChain (e_Offer e) \<noteq> None \<and>
                                     GetCovenant (e_Offer e) = None) (entries s)
      in (broadcast_all (map (\<lambda>(k, e). ev_removed k (e_Offer e)) victims) (remove_all (map fst victims) s), length victims))"

section \<open>Covenant reconciliation\<close>

record covenant_entry =
  ce_Key :: key
  ce_Terms :: covenant_terms
  ce_Active :: u64
  ce_ReRested :: bool

definition SnapshotCovenants :: "store \<Rightarrow> covenant_entry list" where
  "SnapshotCovenants s =
     List.map_filter (\<lambda>(k, e). case GetCovenant (e_Offer e) of
         Some cov \<Rightarrow> Some \<lparr>ce_Key = k, ce_Terms = cov, ce_Active = e_ActiveAmount e, ce_ReRested = e_reRested e\<rparr>
       | None \<Rightarrow> None) (entries s)"

text \<open>The covenant operations act on a resting covenant entry only; otherwise they are no-ops.\<close>

definition on_covenant :: "key \<Rightarrow> (entry \<Rightarrow> store \<Rightarrow> store) \<Rightarrow> store \<Rightarrow> store" where
  "on_covenant k f s =
     (case map_of (entries s) k of
        None \<Rightarrow> s
      | Some e \<Rightarrow> if GetCovenant (e_Offer e) = None then s else f e s)"

text \<open>The entry a covenant operation leaves behind, and the operation itself.\<close>

definition ghost_entry :: "entry \<Rightarrow> entry" where
  "ghost_entry e =
     (let e = (if 0 < e_ActiveAmount e then e\<lparr>e_heldFill := e_ActiveAmount e\<rparr> else e)
      in e\<lparr>e_ActiveAmount := 0, e_Status := OFFER_STATUS_PARTIAL\<rparr>)"

definition HoldCovenantGhost :: "key \<Rightarrow> store \<Rightarrow> store" where
  "HoldCovenantGhost k = on_covenant k (\<lambda>e s.
     (let changed = (e_ActiveAmount e \<noteq> 0);
          e = ghost_entry e;
          s = set_entry k e s
      in if changed then broadcast (ev_status k e) s else s))"

definition reconcile_entry :: "u64 \<Rightarrow> entry \<Rightarrow> entry" where
  "reconcile_entry active e =
     e\<lparr>e_ActiveAmount := active, e_SettleTxid := '''', e_heldFill := 0,
       e_Status := (if BaseAmount (e_Offer e) \<le> active then OFFER_STATUS_OPEN else OFFER_STATUS_PARTIAL)\<rparr>"

definition ReconcileCovenantActive :: "key \<Rightarrow> u64 \<Rightarrow> store \<Rightarrow> store" where
  "ReconcileCovenantActive k active = on_covenant k (\<lambda>e s.
     (let active = (if BaseAmount (e_Offer e) < active then BaseAmount (e_Offer e) else active);
          changed = (e_ActiveAmount e \<noteq> active \<or> e_SettleTxid e \<noteq> '''');
          e = reconcile_entry active e;
          s = set_entry k e s
      in if changed then broadcast (ev_status k e) s else s))"

text \<open>The size a covenant order had before its spend was seen: its live size, or the size set aside
  when an unconfirmed spend zeroed it.\<close>

definition live_size :: "entry \<Rightarrow> u64" where
  "live_size e = (if e_ActiveAmount e = 0 then e_heldFill e else e_ActiveAmount e)"

definition rerest_entry :: "string \<Rightarrow> u32 \<Rightarrow> u64 \<Rightarrow> entry \<Rightarrow> entry" where
  "rerest_entry txid vout sz e =
     (let no = set_outpoint txid vout (e_Offer e) in
      e\<lparr>e_Offer := no, e_reRested := True, e_heldFill := 0, e_ActiveAmount := sz, e_SettleTxid := '''',
        e_Status := (if BaseAmount no \<le> sz then OFFER_STATUS_OPEN else OFFER_STATUS_PARTIAL)\<rparr>)"

definition RerestCovenantRemainder :: "time \<Rightarrow> key \<Rightarrow> string \<Rightarrow> u32 \<Rightarrow> u64 \<Rightarrow> store \<Rightarrow> store" where
  "RerestCovenantRemainder now k txid vout sz = on_covenant k (\<lambda>e s.
     (let no = set_outpoint txid vout (e_Offer e);
          sz = (if BaseAmount no < sz then BaseAmount no else sz);
          prevActive = live_size e;
          filled = (if sz < prevActive then prevActive - sz else 0);
          e = rerest_entry txid vout sz e;
          s = set_entry k e s;
          s = (if 0 < filled then RecordTrade now (Some no) filled s else s)
      in broadcast (ev_status k e) (broadcast (ev_created no) s)))"

definition spend_entry :: "string \<Rightarrow> entry \<Rightarrow> entry" where
  "spend_entry spenderTxid e =
     (let e = (if 0 < e_ActiveAmount e then e\<lparr>e_heldFill := e_ActiveAmount e\<rparr> else e)
      in e\<lparr>e_ActiveAmount := 0, e_SettleTxid := spenderTxid, e_Status := OFFER_STATUS_PARTIAL\<rparr>)"

definition HoldCovenantForSpend :: "key \<Rightarrow> string \<Rightarrow> store \<Rightarrow> store" where
  "HoldCovenantForSpend k spenderTxid = on_covenant k (\<lambda>e s.
     (let changed = (e_ActiveAmount e \<noteq> 0 \<or> e_SettleTxid e \<noteq> spenderTxid);
          e = spend_entry spenderTxid e;
          s = set_entry k e s
      in if changed then broadcast (ev_status k e) s else s))"

definition filled_entry :: "string \<Rightarrow> entry \<Rightarrow> entry" where
  "filled_entry settleTxid e = e\<lparr>e_Status := OFFER_STATUS_FILLED, e_SettleTxid := settleTxid, e_ActiveAmount := 0\<rparr>"

definition RemoveCovenantFilled :: "time \<Rightarrow> key \<Rightarrow> string \<Rightarrow> store \<Rightarrow> store" where
  "RemoveCovenantFilled now k settleTxid = on_covenant k (\<lambda>e s.
     (let filled = live_size e;
          e = filled_entry settleTxid e;
          s = remove k s;
          s = RecordTrade now (Some (e_Offer e)) filled s
      in broadcast (ev_removed k (e_Offer e)) (broadcast (ev_status k e) s)))"

section \<open>Subscriptions\<close>

definition Subscribe :: "asset_pair option \<Rightarrow> bool \<Rightarrow> store \<Rightarrow> store \<times> offer list \<times> nat" where
  "Subscribe pairFilter confidential s =
     (let i = nextSub s;
          pk = (case pairFilter of None \<Rightarrow> '''' | Some _ \<Rightarrow> pairKey pairFilter);
          sub = \<lparr>sub_pair = pk, sub_confidential = confidential, sub_ch = [], sub_cap = subBuf s, sub_seq = 0\<rparr>;
          snap = (if pk \<noteq> '''' then snapshotLocked pk confidential s
                  else map (\<lambda>(k, e). e_Offer e) (filter (\<lambda>(k, e). Confidential (e_Offer e) = confidential) (entries s)))
      in (s\<lparr>nextSub := Suc i, subs := AList.update i sub (subs s)\<rparr>, snap, i))"

text \<open>The consumer takes the oldest buffered event off its channel.\<close>

definition Receive :: "nat \<Rightarrow> store \<Rightarrow> store \<times> event option" where
  "Receive i s =
     (case map_of (subs s) i of
        None \<Rightarrow> (s, None)
      | Some sub \<Rightarrow>
          (case sub_ch sub of
             [] \<Rightarrow> (s, None)
           | ev # rest \<Rightarrow> (s\<lparr>subs := AList.update i (sub\<lparr>sub_ch := rest\<rparr>) (subs s)\<rparr>, Some ev)))"

definition Unsubscribe :: "nat \<Rightarrow> store \<Rightarrow> store" where
  "Unsubscribe i s = s\<lparr>subs := AList.delete i (subs s)\<rparr>"

end
