(* ===== verification/Book_Invariant.thy ===== *)
theory Book_Invariant
  imports Offerstore
begin

text \<open>
  The order book as a state machine. \<open>store_op\<close> lists the operations of \<open>offerstore.Store\<close>,
  \<open>exec\<close> runs one, \<open>reachable\<close> are the states of a relay that started from an empty store. Each
  operation is a path of four primitive changes (\<open>prim\<close>): leave the book alone, insert an entry,
  remove a key, rewrite a resting entry in place. The invariants are proved once per primitive and
  lift to every operation and every reachable state.
\<close>

section \<open>Operations as data\<close>

datatype store_op =
    OpSubmit offer | OpEdit offer | OpCancel offer_cancel
  | OpApplyPartialFill key u64 string u32
  | OpRecordSettledFill key u64 string u32 u64
  | OpMarkInvalidated key | OpRetireIncoming key offer_status
  | OpReopen offer u64
  | OpSweepExpired | OpRemoveInteractiveByMaker string | OpRemoveInteractiveByKeys "key list" | OpRemoveByMaker string
  | OpHoldCovenantGhost key | OpReconcileCovenantActive key u64
  | OpRerestCovenantRemainder key string u32 u64 | OpHoldCovenantForSpend key string
  | OpRemoveCovenantFilled key string
  | OpRecordTradeTx offer u64 string | OpRetractTrade "asset_pair option" string
  | OpSubscribe "asset_pair option" bool | OpUnsubscribe nat | OpReceive nat
  | OpSetInteractiveCap u64 | OpSetSubBuf int

fun exec :: "crypto \<Rightarrow> time \<Rightarrow> store_op \<Rightarrow> store \<Rightarrow> store" where
  "exec cr now (OpSubmit ofr) s = fst (Submit cr now ofr s)"
| "exec cr now (OpEdit ofr) s = fst (Edit cr now ofr s)"
| "exec cr now (OpCancel c) s = fst (Cancel cr c s)"
| "exec cr now (OpApplyPartialFill k n tx confs) s = fst (ApplyPartialFill k n tx confs s)"
| "exec cr now (OpRecordSettledFill k n tx confs nonce) s = fst (RecordSettledFill now k n tx confs nonce s)"
| "exec cr now (OpMarkInvalidated k) s = fst (MarkInvalidated k s)"
| "exec cr now (OpRetireIncoming k st) s = fst (RetireIncoming k st s)"
| "exec cr now (OpReopen ofr n) s = fst (Reopen cr now ofr n s)"
| "exec cr now OpSweepExpired s = fst (SweepExpired now s)"
| "exec cr now (OpRemoveInteractiveByMaker m) s = fst (RemoveInteractiveByMaker m s)"
| "exec cr now (OpRemoveInteractiveByKeys ks) s = fst (RemoveInteractiveByKeys ks s)"
| "exec cr now (OpRemoveByMaker m) s = fst (RemoveByMaker m s)"
| "exec cr now (OpHoldCovenantGhost k) s = HoldCovenantGhost k s"
| "exec cr now (OpReconcileCovenantActive k n) s = ReconcileCovenantActive k n s"
| "exec cr now (OpRerestCovenantRemainder k tx vout n) s = RerestCovenantRemainder now k tx vout n s"
| "exec cr now (OpHoldCovenantForSpend k tx) s = HoldCovenantForSpend k tx s"
| "exec cr now (OpRemoveCovenantFilled k tx) s = RemoveCovenantFilled now k tx s"
| "exec cr now (OpRecordTradeTx ofr n tx) s = RecordTradeTx now (Some ofr) n tx s"
| "exec cr now (OpRetractTrade pr tx) s = fst (RetractTrade now pr tx s)"
| "exec cr now (OpSubscribe pf c) s = fst (Subscribe pf c s)"
| "exec cr now (OpUnsubscribe i) s = Unsubscribe i s"
| "exec cr now (OpReceive i) s = fst (Receive i s)"
| "exec cr now (OpSetInteractiveCap n) s = SetInteractiveCap n s"
| "exec cr now (OpSetSubBuf n) s = SetSubBuf n s"

section \<open>What each helper leaves alone\<close>

lemma entries_frame [simp, store_simps]:
  "entries (broadcast ev s) = entries s" "entries (append_log r s) = entries s"
  "entries (RecordTradeTx now oo n tx s) = entries s" "entries (RecordTrade now oo n s) = entries s"
  by (simp_all add: broadcast_def append_log_def RecordTradeTx_def RecordTrade_def Let_def split: option.split)

lemma pairs_frame [simp, store_simps]:
  "pairs (broadcast ev s) = pairs s" "pairs (append_log r s) = pairs s" "pairs (set_entry k e s) = pairs s"
  "pairs (RecordTradeTx now oo n tx s) = pairs s" "pairs (RecordTrade now oo n s) = pairs s"
  by (simp_all add: broadcast_def append_log_def set_entry_def RecordTradeTx_def RecordTrade_def Let_def
      split: option.split)

lemma entries_set_entry [simp, store_simps]: "entries (set_entry k e s) = AList.update k e (entries s)"
  by (simp add: set_entry_def)

lemma entries_put [simp, store_simps]: "entries (put k e s) = AList.update k e (entries s)"
  by (simp add: put_def Let_def)

lemma pairs_put [store_simps]:
  "pairs (put k e s) =
     (let pk = pairKey (Pair (e_Offer e)) in
      AList.update pk (List.insert k (gomap_get [] (pairs s) pk)) (pairs s))"
  by (simp add: put_def Let_def)

lemma delete_absent: "map_of m k = None \<Longrightarrow> AList.delete k m = m"
  by (induction m) (auto split: if_splits)

lemma entries_remove [simp, store_simps]: "entries (remove k s) = AList.delete k (entries s)"
  by (simp add: remove_def Let_def delete_absent split: option.split)

lemma entries_broadcast_all [simp, store_simps]:
  "entries (broadcast_all evs s) = entries s" "pairs (broadcast_all evs s) = pairs s"
  by (induction evs arbitrary: s) (simp_all add: broadcast_all_def)

lemma entries_remove_all [simp, store_simps]: "entries (remove_all ks s) = fold AList.delete ks (entries s)"
  by (induction ks arbitrary: s) (simp_all add: remove_all_def)

lemma bucket_put:
  "set (gomap_get [] (pairs (put k e s)) pk) =
     (if pk = pairKey (Pair (e_Offer e)) then insert k else id) (set (gomap_get [] (pairs s) pk))"
  by (simp add: pairs_put Let_def gomap_simps)

lemma pairs_remove:
  "pairs (remove k s) =
     (case map_of (entries s) k of
        None \<Rightarrow> pairs s
      | Some e \<Rightarrow>
          (let pk = pairKey (Pair (e_Offer e)) in
           case map_of (pairs s) pk of
             None \<Rightarrow> pairs s
           | Some ks \<Rightarrow>
               if removeAll k ks = [] then AList.delete pk (pairs s)
               else AList.update pk (removeAll k ks) (pairs s)))"
  by (simp add: remove_def Let_def split: option.split)

lemma bucket_remove:
  "set (gomap_get [] (pairs (remove k s)) pk) =
     (case map_of (entries s) k of
        None \<Rightarrow> set (gomap_get [] (pairs s) pk)
      | Some e \<Rightarrow> set (gomap_get [] (pairs s) pk) - (if pk = pairKey (Pair (e_Offer e)) then {k} else {}))"
proof (cases "map_of (entries s) k")
  case None
  then show ?thesis by (simp add: remove_def)
next
  case (Some e)
  show ?thesis
  proof (cases "map_of (pairs s) (pairKey (Pair (e_Offer e)))")
    case None
    with Some show ?thesis by (auto simp: remove_def Let_def gomap_get_def)
  next
    case (Some ks)
    have rm: "set (removeAll k ks) = set ks - {k}" by auto
    then have "removeAll k ks = [] \<Longrightarrow> set ks - {k} = {}"
      by (metis set_empty)
    with rm show ?thesis
      using Some \<open>map_of (entries s) k = Some e\<close>
      by (auto simp: pairs_remove Let_def gomap_get_def map_of_update map_of_delete)
  qed
qed

section \<open>Primitive changes\<close>

definition entry_ok :: "crypto \<Rightarrow> key \<Rightarrow> entry \<Rightarrow> bool" where
  "entry_ok cr k e \<longleftrightarrow>
     keyOf (e_Offer e) = k \<and> VerifyOffer cr (Some (e_Offer e)) = Inr () \<and>
     e_ActiveAmount e \<le> BaseAmount (e_Offer e) \<and> e_heldFill e \<le> BaseAmount (e_Offer e)"

text \<open>Under \<open>strict\<close>, an entry is only put over a resting one of the same pair and namespace.\<close>

inductive prim :: "crypto \<Rightarrow> bool \<Rightarrow> store \<Rightarrow> store \<Rightarrow> bool" for cr strict where
  prim_frame: "entries s' = entries s \<Longrightarrow> pairs s' = pairs s \<Longrightarrow> prim cr strict s s'"
| prim_put: "entry_ok cr k e \<Longrightarrow>
     (\<And>old. strict \<Longrightarrow> map_of (entries s) k = Some old \<Longrightarrow>
        Pair (e_Offer e) = Pair (e_Offer old) \<and> Confidential (e_Offer e) = Confidential (e_Offer old)) \<Longrightarrow>
     prim cr strict s (put k e s)"
| prim_remove: "prim cr strict s (remove k s)"
| prim_set: "map_of (entries s) k = Some old \<Longrightarrow> entry_ok cr k e \<Longrightarrow>
     Pair (e_Offer e) = Pair (e_Offer old) \<Longrightarrow> Confidential (e_Offer e) = Confidential (e_Offer old) \<Longrightarrow>
     prim cr strict s (set_entry k e s)"

definition book_ok :: "crypto \<Rightarrow> store \<Rightarrow> bool" where
  "book_ok cr s \<longleftrightarrow>
     gomap_ok (entries s) \<and> gomap_ok (pairs s) \<and>
     (\<forall>k e. map_of (entries s) k = Some e \<longrightarrow>
        entry_ok cr k e \<and> k \<in> set (gomap_get [] (pairs s) (pairKey (Pair (e_Offer e))))) \<and>
     (\<forall>pk ks. map_of (pairs s) pk = Some ks \<longrightarrow> distinct ks \<and> ks \<noteq> [])"

definition index_exact :: "store \<Rightarrow> bool" where
  "index_exact s \<longleftrightarrow>
     (\<forall>pk k. k \<in> set (gomap_get [] (pairs s) pk) \<longrightarrow>
        (\<exists>e. map_of (entries s) k = Some e \<and> pairKey (Pair (e_Offer e)) = pk))"

lemma book_okD:
  assumes "book_ok cr s"
  shows "gomap_ok (entries s)" "gomap_ok (pairs s)"
    "map_of (entries s) k = Some e \<Longrightarrow> entry_ok cr k e"
    "map_of (entries s) k = Some e \<Longrightarrow> k \<in> set (gomap_get [] (pairs s) (pairKey (Pair (e_Offer e))))"
    "map_of (pairs s) pk = Some ks \<Longrightarrow> distinct ks" "map_of (pairs s) pk = Some ks \<Longrightarrow> ks \<noteq> []"
  using assms by (auto simp: book_ok_def)

lemma bucket_distinct: "book_ok cr s \<Longrightarrow> distinct (gomap_get [] (pairs s) pk)"
  by (auto simp: gomap_get_def book_ok_def split: option.split)

lemma book_ok_NewStore: "book_ok cr NewStore"
  by (simp add: book_ok_def NewStore_def)

lemma index_exact_NewStore: "index_exact NewStore"
  by (simp add: index_exact_def NewStore_def gomap_get_def)

lemma pairs_remove_cases:
  obtains "pairs (remove k s) = pairs s"
  | pk where "pairs (remove k s) = AList.delete pk (pairs s)"
  | pk ks where "map_of (pairs s) pk = Some ks" "removeAll k ks \<noteq> []"
      "pairs (remove k s) = AList.update pk (removeAll k ks) (pairs s)"
proof (cases "map_of (entries s) k")
  case None
  then show thesis using that(1) by (simp add: remove_def)
next
  case (Some e)
  note entry = this
  show thesis
  proof (cases "map_of (pairs s) (pairKey (Pair (e_Offer e)))")
    case None
    with entry that(1) show thesis by (simp add: pairs_remove)
  next
    case (Some ks)
    with entry that(2) that(3) [OF Some] show thesis
      by (cases "removeAll k ks = []") (simp_all add: pairs_remove)
  qed
qed

lemma book_ok_remove: "book_ok cr s \<Longrightarrow> book_ok cr (remove k s)"
proof -
  assume ok: "book_ok cr s"
  have maps: "gomap_ok (pairs (remove k s)) \<and>
      (\<forall>pk ks. map_of (pairs (remove k s)) pk = Some ks \<longrightarrow> distinct ks \<and> ks \<noteq> [])"
    using ok by (cases rule: pairs_remove_cases [of k s])
      (auto simp: book_ok_def map_of_update map_of_delete distinct_removeAll split: if_splits)
  have "k' \<in> set (gomap_get [] (pairs (remove k s)) (pairKey (Pair (e_Offer e))))"
    if "map_of (entries (remove k s)) k' = Some e" for k' e
    using that book_okD(4) [OF ok, of k' e] by (auto simp: bucket_remove map_of_delete split: option.split if_splits)
  with maps book_okD [OF ok] show ?thesis
    unfolding book_ok_def by (simp add: map_of_delete)
qed

lemma book_ok_put: "book_ok cr s \<Longrightarrow> entry_ok cr k e \<Longrightarrow> book_ok cr (put k e s)"
proof -
  assume ok: "book_ok cr s" and e: "entry_ok cr k e"
  let ?pk = "pairKey (Pair (e_Offer e))"
  have "List.insert k (gomap_get [] (pairs s) ?pk) \<noteq> []"
    by (metis List.set_insert insert_not_empty set_empty)
  then have maps: "gomap_ok (pairs (put k e s)) \<and>
      (\<forall>pk ks. map_of (pairs (put k e s)) pk = Some ks \<longrightarrow> distinct ks \<and> ks \<noteq> [])"
    using book_okD [OF ok] bucket_distinct [OF ok, of ?pk]
    by (auto simp: pairs_put Let_def map_of_update split: if_splits)
  have "k' \<in> set (gomap_get [] (pairs (put k e s)) (pairKey (Pair (e_Offer e'))))"
    if "map_of (entries (put k e s)) k' = Some e'" for k' e'
    using that book_okD(4) [OF ok, of k' e'] by (auto simp: bucket_put map_of_update split: if_splits)
  with maps e book_okD [OF ok] show ?thesis
    unfolding book_ok_def by (simp add: map_of_update)
qed

lemma book_ok_set_entry:
  assumes "book_ok cr s" "map_of (entries s) k = Some old" "entry_ok cr k e" "Pair (e_Offer e) = Pair (e_Offer old)"
  shows "book_ok cr (set_entry k e s)"
  using assms by (auto simp: book_ok_def map_of_update)

lemma prim_book_ok: "prim cr strict s s' \<Longrightarrow> book_ok cr s \<Longrightarrow> book_ok cr s'"
proof (induction rule: prim.induct)
  case (prim_frame s' s)
  then show ?case by (simp add: book_ok_def)
qed (auto intro: book_ok_put book_ok_remove book_ok_set_entry)

lemma prim_index_exact: "prim cr True s s' \<Longrightarrow> book_ok cr s \<Longrightarrow> index_exact s \<Longrightarrow> index_exact s'"
proof (induction rule: prim.induct)
  case (prim_put k e s)
  then show ?case
    by (fastforce simp: index_exact_def bucket_put map_of_update split: if_splits)
next
  case (prim_remove s k)
  then show ?case
    by (fastforce simp: index_exact_def bucket_remove map_of_delete split: option.splits if_splits)
next
  case (prim_set s k old e)
  then show ?case
    by (fastforce simp: index_exact_def map_of_update)
qed (simp add: index_exact_def)

lemma prims_book_ok: "(prim cr strict)\<^sup>*\<^sup>* s s' \<Longrightarrow> book_ok cr s \<Longrightarrow> book_ok cr s'"
  by (induction rule: rtranclp_induct) (auto intro: prim_book_ok)

lemma prims_index_exact:
  "(prim cr True)\<^sup>*\<^sup>* s s' \<Longrightarrow> book_ok cr s \<Longrightarrow> index_exact s \<Longrightarrow> index_exact s'"
  by (induction rule: rtranclp_induct) (auto intro: prim_index_exact prims_book_ok)


section \<open>Every operation is a path of primitive changes\<close>

lemma prims_frame: "entries s' = entries s \<Longrightarrow> pairs s' = pairs s \<Longrightarrow> (prim cr strict)\<^sup>*\<^sup>* s s'"
  by (blast intro: prim_frame)

lemma prims_then_frame:
  "(prim cr strict)\<^sup>*\<^sup>* s s' \<Longrightarrow> entries s'' = entries s' \<Longrightarrow> pairs s'' = pairs s' \<Longrightarrow> (prim cr strict)\<^sup>*\<^sup>* s s''"
  by (rule rtranclp_trans [OF _ prims_frame])

lemma prims_steps [intro!]:
  assumes "(prim cr strict)\<^sup>*\<^sup>* s s'"
  shows "(prim cr strict)\<^sup>*\<^sup>* s (broadcast ev s')" "(prim cr strict)\<^sup>*\<^sup>* s (broadcast_all evs s')"
    "(prim cr strict)\<^sup>*\<^sup>* s (RecordTrade now oo n s')" "(prim cr strict)\<^sup>*\<^sup>* s (remove k s')"
    "(prim cr strict)\<^sup>*\<^sup>* s (s'\<lparr>cancelNonce := m\<rparr>)" "(prim cr strict)\<^sup>*\<^sup>* s (s'\<lparr>settledNonce := m\<rparr>)"
  using assms by (auto intro: prims_then_frame rtranclp.rtrancl_into_rtrancl prim_remove)

lemma prims_remove_all [intro!]: "(prim cr strict)\<^sup>*\<^sup>* s s' \<Longrightarrow> (prim cr strict)\<^sup>*\<^sup>* s (remove_all ks s')"
  by (induction ks arbitrary: s') (auto simp: remove_all_def)

lemma prims_remove_interactive_keys:
  "(prim cr strict)\<^sup>*\<^sup>* s0 s \<Longrightarrow> (prim cr strict)\<^sup>*\<^sup>* s0 (fst (remove_interactive_keys ks s))"
proof (induction ks s rule: remove_interactive_keys.induct)
  case (2 k ks s)
  have "(prim cr strict)\<^sup>*\<^sup>* s0 (remove k s)" using 2(4) by blast
  then show ?case
    using 2 by (auto split: option.split prod.split)
qed simp

lemma prims_set:
  assumes "(prim cr strict)\<^sup>*\<^sup>* s0 s" "map_of (entries s) k = Some old" "entry_ok cr k e"
    "Pair (e_Offer e) = Pair (e_Offer old)" "Confidential (e_Offer e) = Confidential (e_Offer old)"
  shows "(prim cr strict)\<^sup>*\<^sup>* s0 (set_entry k e s)"
  by (rule rtranclp.rtrancl_into_rtrancl [OF assms(1) prim_set [OF assms(2-5)]])

lemma prims_put_fresh:
  assumes "(prim cr strict)\<^sup>*\<^sup>* s0 s" "entry_ok cr k e" "map_of (entries s) k = None"
  shows "(prim cr strict)\<^sup>*\<^sup>* s0 (put k e s)"
  by (rule rtranclp.rtrancl_into_rtrancl [OF assms(1) prim_put]) (use assms in auto)

lemma entry_ok_new:
  "VerifyOffer cr (Some ofr) = Inr () \<Longrightarrow> n \<le> BaseAmount ofr \<Longrightarrow> entry_ok cr (keyOf ofr) (new_entry now ofr st n)"
  by (simp add: entry_ok_def new_entry_def)

lemma new_entry_simps [simp]:
  "e_Offer (new_entry now ofr st n) = ofr" "e_Status (new_entry now ofr st n) = st"
  "e_ActiveAmount (new_entry now ofr st n) = n"
  by (simp_all add: new_entry_def)

lemma keyOf_set_outpoint [simp]: "keyOf (set_outpoint t v ofr) = keyOf ofr"
  by (simp add: keyOf_def)

lemma prims_Submit: "book_ok cr s \<Longrightarrow> (prim cr strict)\<^sup>*\<^sup>* s (fst (Submit cr now ofr s))"
proof (cases "VerifyOffer cr (Some ofr) = Inr () \<and> Pair ofr \<noteq> None \<and> map_of (entries s) (keyOf ofr) = None")
  case True
  let ?k = "keyOf ofr" and ?e = "new_entry now ofr OFFER_STATUS_OPEN (BaseAmount ofr)"
  have ok: "entry_ok cr ?k ?e" using True by (simp add: entry_ok_new)
  then have put: "(prim cr strict)\<^sup>*\<^sup>* s (put ?k ?e s)" using True by (simp add: prims_put_fresh)
  have set: "(prim cr strict)\<^sup>*\<^sup>* s (set_entry ?k (?e\<lparr>e_demoted := True\<rparr>) (put ?k ?e s))"
    by (rule prims_set [OF put, where old = ?e]) (use ok in \<open>simp_all add: map_of_update entry_ok_def new_entry_def\<close>)
  from True put set show ?thesis
    by (auto simp: Submit_def Let_def split: sum.split)
next
  case False
  then have "fst (Submit cr now ofr s) = s"
    by (auto simp: Submit_def Let_def split: sum.split option.split)
  then show ?thesis by simp
qed

lemma prims_Edit: "(prim cr strict)\<^sup>*\<^sup>* s (fst (Edit cr now ofr s))"
proof (cases "VerifyOffer cr (Some ofr) = Inr ()")
  case True
  let ?k = "keyOf ofr" and ?e = "new_entry now ofr OFFER_STATUS_OPEN (BaseAmount ofr)"
  have "(prim cr strict)\<^sup>*\<^sup>* s (put ?k ?e (remove ?k s))"
    by (rule prims_put_fresh) (use True in \<open>auto simp: entry_ok_new map_of_delete\<close>)
  with True show ?thesis
    by (auto simp: Edit_def Let_def split: sum.split option.split)
qed (auto simp: Edit_def split: sum.split)

lemma prims_Cancel: "(prim cr strict)\<^sup>*\<^sup>* s (fst (Cancel cr c s))"
  by (auto simp: Cancel_def Let_def split: sum.split option.split)

lemma entry_ok_rewrite:
  "entry_ok cr k e \<Longrightarrow> keyOf (e_Offer e') = keyOf (e_Offer e) \<Longrightarrow>
   VerifyOffer cr (Some (e_Offer e')) = VerifyOffer cr (Some (e_Offer e)) \<Longrightarrow>
   e_ActiveAmount e' \<le> BaseAmount (e_Offer e') \<Longrightarrow> e_heldFill e' \<le> BaseAmount (e_Offer e') \<Longrightarrow> entry_ok cr k e'"
  by (simp add: entry_ok_def)

lemma entry_ok_bounds:
  "entry_ok cr k e \<Longrightarrow> e_ActiveAmount e \<le> BaseAmount (e_Offer e)"
  "entry_ok cr k e \<Longrightarrow> e_heldFill e \<le> BaseAmount (e_Offer e)"
  by (simp_all add: entry_ok_def)

lemma fill_entry_Offer [simp]: "e_Offer (fill_entry n tx confs e) = e_Offer e"
  "e_heldFill (fill_entry n tx confs e) = e_heldFill e"
  by (simp_all add: fill_entry_def Let_def)

lemma fill_entry_active:
  "unat (e_ActiveAmount (fill_entry n tx confs e)) = unat (e_ActiveAmount e) - unat n"
proof (cases "e_ActiveAmount e < n")
  case True
  then show ?thesis by (simp add: fill_entry_def Let_def u64_less)
next
  case False
  then have "n \<le> e_ActiveAmount e" by simp
  with False show ?thesis by (simp add: fill_entry_def Let_def u64_unat_diff)
qed

lemma entry_ok_fill: "entry_ok cr k e \<Longrightarrow> entry_ok cr k (fill_entry n tx confs e)"
  by (auto simp: entry_ok_def fill_entry_active u64_le)

lemma covenant_entries_Offer [simp]:
  "e_Offer (ghost_entry e) = e_Offer e" "e_Offer (reconcile_entry n e) = e_Offer e"
  "e_Offer (spend_entry tx e) = e_Offer e" "e_Offer (filled_entry tx e) = e_Offer e"
  "e_Offer (rerest_entry tx vout n e) = set_outpoint tx vout (e_Offer e)"
  by (simp_all add: ghost_entry_def reconcile_entry_def spend_entry_def filled_entry_def rerest_entry_def Let_def)

lemma covenant_entries_amounts [simp]:
  "e_ActiveAmount (ghost_entry e) = 0" "e_heldFill (ghost_entry e) = live_size e"
  "e_ActiveAmount (reconcile_entry n e) = n" "e_heldFill (reconcile_entry n e) = 0"
  "e_ActiveAmount (spend_entry tx e) = 0" "e_heldFill (spend_entry tx e) = live_size e"
  "e_ActiveAmount (rerest_entry tx vout n e) = n" "e_heldFill (rerest_entry tx vout n e) = 0"
  by (simp_all add: ghost_entry_def reconcile_entry_def spend_entry_def rerest_entry_def live_size_def Let_def word_gt_0)

lemma live_size_bound: "entry_ok cr k e \<Longrightarrow> live_size e \<le> BaseAmount (e_Offer e)"
  by (simp add: live_size_def entry_ok_def)

lemma prims_ApplyPartialFill:
  assumes "book_ok cr s"
  shows "(prim cr strict)\<^sup>*\<^sup>* s (fst (ApplyPartialFill k n tx confs s))"
proof (cases "map_of (entries s) k")
  case None
  then show ?thesis by (simp add: ApplyPartialFill_def)
next
  case (Some e)
  note ok = book_okD(3) [OF assms Some]
  have "entry_ok cr k (fill_entry n tx confs e)" by (rule entry_ok_fill [OF ok])
  then have set: "(prim cr strict)\<^sup>*\<^sup>* s (set_entry k (fill_entry n tx confs e) s)"
    by (intro prims_set [where old = e]) (use Some in simp_all)
  with Some show ?thesis by (auto simp: ApplyPartialFill_def Let_def)
qed

lemma book_ok_settledNonce [simp]: "book_ok cr (s\<lparr>settledNonce := m\<rparr>) = book_ok cr s"
  by (simp add: book_ok_def)

lemma book_ok_RecordTrade [simp]: "book_ok cr (RecordTrade now oo n s) = book_ok cr s"
  by (simp add: book_ok_def)

lemma prims_RecordSettledFill:
  assumes "book_ok cr s"
  shows "(prim cr strict)\<^sup>*\<^sup>* s (fst (RecordSettledFill now k n tx confs nonce s))"
proof -
  have "(prim cr strict)\<^sup>*\<^sup>* s (fst (ApplyPartialFill k f tx confs (RecordTrade now oo f (s\<lparr>settledNonce := m\<rparr>))))"
    for oo f m
    by (rule rtranclp_trans [OF prims_steps(3) [OF prims_steps(6)] prims_ApplyPartialFill]) (use assms in auto)
  then show ?thesis
    by (auto simp: RecordSettledFill_def Let_def split: option.split)
qed

lemma prims_dropWithStatus: "(prim cr strict)\<^sup>*\<^sup>* s (fst (dropWithStatus k st s))"
  by (auto simp: dropWithStatus_def Let_def split: option.split)

definition reopen_fresh :: "store_op \<Rightarrow> store \<Rightarrow> bool" where
  "reopen_fresh op s \<longleftrightarrow>
     (case op of
        OpReopen ofr n \<Rightarrow>
          (case map_of (entries s) (keyOf ofr) of
             None \<Rightarrow> True
           | Some e \<Rightarrow> Pair ofr = Pair (e_Offer e) \<and> Confidential ofr = Confidential (e_Offer e))
      | _ \<Rightarrow> True)"

lemma prims_Reopen:
  assumes "strict \<longrightarrow> reopen_fresh (OpReopen ofr n) s"
  shows "(prim cr strict)\<^sup>*\<^sup>* s (fst (Reopen cr now ofr n s))"
proof (cases "VerifyOffer cr (Some ofr) = Inr ()")
  case True
  have "prim cr strict s (put (keyOf ofr) (new_entry now ofr st m) s)" if "m \<le> BaseAmount ofr" for st m
    by (rule prim_put) (use True that assms in \<open>auto simp: entry_ok_new reopen_fresh_def\<close>)
  with True show ?thesis
    by (auto simp: Reopen_def Let_def split: sum.split)
qed (auto simp: Reopen_def split: sum.split)

lemma prims_on_covenant:
  assumes "\<And>e. map_of (entries s) k = Some e \<Longrightarrow> GetCovenant (e_Offer e) \<noteq> None \<Longrightarrow> (prim cr strict)\<^sup>*\<^sup>* s (f e s)"
  shows "(prim cr strict)\<^sup>*\<^sup>* s (on_covenant k f s)"
  using assms by (auto simp: on_covenant_def split: option.split)

lemma prims_HoldCovenantGhost:
  assumes "book_ok cr s"
  shows "(prim cr strict)\<^sup>*\<^sup>* s (HoldCovenantGhost k s)"
  unfolding HoldCovenantGhost_def
proof (rule prims_on_covenant, goal_cases)
  case (1 e)
  note ok = book_okD(3) [OF assms 1(1)]
  show ?case
    using entry_ok_bounds [OF ok] live_size_bound [OF ok]
    by (auto simp: Let_def intro!: prims_set [OF _ 1(1)] entry_ok_rewrite [OF ok])
qed

lemma prims_ReconcileCovenantActive:
  assumes "book_ok cr s"
  shows "(prim cr strict)\<^sup>*\<^sup>* s (ReconcileCovenantActive k n s)"
  unfolding ReconcileCovenantActive_def
proof (rule prims_on_covenant, goal_cases)
  case (1 e)
  note ok = book_okD(3) [OF assms 1(1)]
  show ?case
    using entry_ok_bounds [OF ok] live_size_bound [OF ok]
    by (auto simp: Let_def intro!: prims_set [OF _ 1(1)] entry_ok_rewrite [OF ok])
qed

lemma prims_HoldCovenantForSpend:
  assumes "book_ok cr s"
  shows "(prim cr strict)\<^sup>*\<^sup>* s (HoldCovenantForSpend k tx s)"
  unfolding HoldCovenantForSpend_def
proof (rule prims_on_covenant, goal_cases)
  case (1 e)
  note ok = book_okD(3) [OF assms 1(1)]
  show ?case
    using entry_ok_bounds [OF ok] live_size_bound [OF ok]
    by (auto simp: Let_def intro!: prims_set [OF _ 1(1)] entry_ok_rewrite [OF ok])
qed

lemma prims_RerestCovenantRemainder:
  assumes "book_ok cr s"
  shows "(prim cr strict)\<^sup>*\<^sup>* s (RerestCovenantRemainder now k tx vout n s)"
  unfolding RerestCovenantRemainder_def
proof (rule prims_on_covenant, goal_cases)
  case (1 e)
  note ok = book_okD(3) [OF assms 1(1)]
  show ?case
    using entry_ok_bounds [OF ok] live_size_bound [OF ok]
    by (auto simp: Let_def intro!: prims_set [OF _ 1(1)] entry_ok_rewrite [OF ok])
qed

lemma prims_RemoveCovenantFilled: "(prim cr strict)\<^sup>*\<^sup>* s (RemoveCovenantFilled now k tx s)"
  unfolding RemoveCovenantFilled_def by (rule prims_on_covenant) (auto simp: Let_def)

lemma prims_exec:
  assumes "book_ok cr s" "strict \<longrightarrow> reopen_fresh op s"
  shows "(prim cr strict)\<^sup>*\<^sup>* s (exec cr now op s)"
proof (cases op)
  case (OpRemoveInteractiveByKeys ks)
  then show ?thesis
    by (auto simp: RemoveInteractiveByKeys_def split: prod.split)
      (metis fst_conv prims_remove_interactive_keys rtranclp.rtrancl_refl)
next
  case (OpReopen ofr n)
  with assms show ?thesis by (simp add: prims_Reopen)
qed (use assms in \<open>auto simp: prims_Submit prims_Edit prims_Cancel prims_ApplyPartialFill prims_RecordSettledFill
    MarkInvalidated_def RetireIncoming_def prims_dropWithStatus SweepExpired_def Let_def
    RemoveInteractiveByMaker_def RemoveByMaker_def prims_HoldCovenantGhost prims_ReconcileCovenantActive
    prims_RerestCovenantRemainder prims_HoldCovenantForSpend prims_RemoveCovenantFilled
    RetractTrade_def Subscribe_def Unsubscribe_def Receive_def SetInteractiveCap_def SetSubBuf_def
    intro!: prims_frame split: option.split list.split\<close>)

section \<open>Reachable books\<close>

inductive reachable :: "crypto \<Rightarrow> store \<Rightarrow> bool" for cr where
  reach_new: "reachable cr NewStore"
| reach_exec: "reachable cr s \<Longrightarrow> reachable cr (exec cr now op s)"

inductive reachable_fresh :: "crypto \<Rightarrow> store \<Rightarrow> bool" for cr where
  fresh_new: "reachable_fresh cr NewStore"
| fresh_exec: "reachable_fresh cr s \<Longrightarrow> reopen_fresh op s \<Longrightarrow> reachable_fresh cr (exec cr now op s)"

lemma reachable_book_ok: "reachable cr s \<Longrightarrow> book_ok cr s"
  by (induction rule: reachable.induct) (auto intro: book_ok_NewStore prims_book_ok [OF prims_exec [where strict = False]])

lemma reachable_fresh_ok: "reachable_fresh cr s \<Longrightarrow> book_ok cr s \<and> index_exact s"
proof (induction rule: reachable_fresh.induct)
  case (fresh_exec s op now)
  then have "(prim cr True)\<^sup>*\<^sup>* s (exec cr now op s)" by (simp add: prims_exec)
  with fresh_exec show ?case by (blast intro: prims_book_ok prims_index_exact)
qed (simp add: book_ok_NewStore index_exact_NewStore)

end
