(* ===== verification/Session_Router.thy ===== *)
theory Session_Router
  imports Book_Invariant
begin

text \<open>
  The lift-session router (\<open>session/router.go\<close>) and the reorg watcher of interactive settlements
  (\<open>reorg/reorg.go\<close>). Session objects live in a heap indexed by address, because the orphan callback
  captures the session pointer and runs after the session has left the router's map. A session's
  inbox is its queue of undelivered frames; the capacity is the router's \<open>inboxBuf\<close>.
\<close>

section \<open>Sessions\<close>

datatype role = RoleTaker | RoleMaker

record swap_msg =
  sm_SessionId :: string
  sm_Ciphertext :: bytes

record session =
  ss_ID :: string
  ss_OfferID :: string
  ss_MakerPubkey :: string
  ss_TakeAmount :: u64
  ss_TakerSessionPubkey :: bytes
  ss_MakerSessionPubkey :: bytes
  ss_Deadline :: time
  ss_takerInbox :: "swap_msg list"
  ss_makerInbox :: "swap_msg list"
  ss_done :: bool
  ss_settleTxid :: string
  ss_settledOffer :: "offer option"
  ss_settledFill :: u64

record open_req =
  rq_OfferID :: string
  rq_MakerPubkey :: string
  rq_TakeAmount :: u64
  rq_TakerSessionPubkey :: bytes
  rq_MakerSessionPubkey :: bytes

record router =
  r_sessions :: "(string, nat) gomap"
  r_heap :: "session list"
  r_deadline :: duration
  r_inboxBuf :: nat

datatype session_error = ErrLiftFields | ErrUnknownSession | ErrDeadlineElapsed | ErrSessionClosed

definition NewRouter :: "duration \<Rightarrow> router" where
  "NewRouter deadline =
     \<lparr>r_sessions = [], r_heap = [], r_deadline = (if deadline \<le> 0 then 2 * Minute else deadline), r_inboxBuf = 16\<rparr>"

text \<open>\<open>newID\<close> is the identifier the generator returns for this call.\<close>

definition StartLift :: "time \<Rightarrow> string \<Rightarrow> open_req \<Rightarrow> router \<Rightarrow> router \<times> (session_error, nat) result" where
  "StartLift now newID req r =
     (if rq_OfferID req = '''' \<or> rq_MakerPubkey req = '''' then (r, Inl ErrLiftFields)
      else
        (let s = \<lparr>ss_ID = newID, ss_OfferID = rq_OfferID req, ss_MakerPubkey = rq_MakerPubkey req,
                  ss_TakeAmount = rq_TakeAmount req, ss_TakerSessionPubkey = rq_TakerSessionPubkey req,
                  ss_MakerSessionPubkey = rq_MakerSessionPubkey req, ss_Deadline = now + r_deadline r,
                  ss_takerInbox = [], ss_makerInbox = [], ss_done = False, ss_settleTxid = '''',
                  ss_settledOffer = None, ss_settledFill = 0\<rparr>;
             a = length (r_heap r)
         in (r\<lparr>r_heap := r_heap r @ [s], r_sessions := AList.update newID a (r_sessions r)\<rparr>, Inr a)))"

definition write_session :: "nat \<Rightarrow> session \<Rightarrow> router \<Rightarrow> router" where
  "write_session a s r = r\<lparr>r_heap := (r_heap r)[a := s]\<rparr>"

definition ExtendDeadline :: "time \<Rightarrow> string \<Rightarrow> duration \<Rightarrow> router \<Rightarrow> router" where
  "ExtendDeadline now sessionID d r =
     (case map_of (r_sessions r) sessionID of
        None \<Rightarrow> r
      | Some a \<Rightarrow> write_session a ((r_heap r ! a)\<lparr>ss_Deadline := now + d\<rparr>) r)"

definition router_Get :: "string \<Rightarrow> router \<Rightarrow> nat option" where
  "router_Get sessionID r = map_of (r_sessions r) sessionID"

definition Inbox :: "session \<Rightarrow> role \<Rightarrow> swap_msg list" where
  "Inbox s ro = (case ro of RoleTaker \<Rightarrow> ss_takerInbox s | RoleMaker \<Rightarrow> ss_makerInbox s)"

text \<open>
  \<open>Send\<close> blocks (\<open>None\<close>) on a full inbox of an open session. When the inbox has room and the session
  is closed, the select may take either case; \<open>pick\<close> says which.
\<close>

definition Send ::
  "time \<Rightarrow> bool \<Rightarrow> string \<Rightarrow> role \<Rightarrow> bytes \<Rightarrow> router \<Rightarrow> router \<times> (session_error, unit) result option" where
  "Send now pick sessionID sender ciphertext r =
     (case router_Get sessionID r of
        None \<Rightarrow> (r, Some (Inl ErrUnknownSession))
      | Some a \<Rightarrow>
          (let s = r_heap r ! a in
           if ss_Deadline s < now then (r, Some (Inl ErrDeadlineElapsed))
           else
             (let msg = \<lparr>sm_SessionId = sessionID, sm_Ciphertext = ciphertext\<rparr>;
                  dst = (case sender of RoleTaker \<Rightarrow> RoleMaker | RoleMaker \<Rightarrow> RoleTaker);
                  room = (length (Inbox s dst) < r_inboxBuf r);
                  s' = (case dst of
                          RoleMaker \<Rightarrow> s\<lparr>ss_makerInbox := ss_makerInbox s @ [msg]\<rparr>
                        | RoleTaker \<Rightarrow> s\<lparr>ss_takerInbox := ss_takerInbox s @ [msg]\<rparr>)
              in if room \<and> (\<not> ss_done s \<or> pick) then (write_session a s' r, Some (Inr ()))
                 else if ss_done s then (r, Some (Inl ErrSessionClosed))
                 else (r, None))))"

section \<open>Reorg watcher\<close>

text \<open>A watch carries the address of the session its callback captured.\<close>

record watch =
  wt_txid :: string
  wt_session :: nat
  wt_seen :: bool

record chain_probe =
  cp_TxPresent :: "string \<Rightarrow> bool option"
  cp_TxConfirmations :: "(string \<Rightarrow> int option) option"

definition ReorgForgetDepth :: int where
  "ReorgForgetDepth = 144"

definition WatchSettlement :: "string \<Rightarrow> string \<Rightarrow> nat \<Rightarrow> (string, watch) gomap \<Rightarrow> (string, watch) gomap" where
  "WatchSettlement sessionID txid a w =
     (if txid = '''' then w
      else AList.update sessionID \<lparr>wt_txid = txid, wt_session = a, wt_seen = False\<rparr> w)"

definition Forget :: "string \<Rightarrow> (string, watch) gomap \<Rightarrow> (string, watch) gomap" where
  "Forget sessionID w = AList.delete sessionID w"

text \<open>One watched settlement in a pass: the new watches and the callbacks that fired so far.\<close>

definition reconcile_watch ::
  "chain_probe \<Rightarrow> string \<Rightarrow> (string, watch) gomap \<times> nat list \<Rightarrow> (string, watch) gomap \<times> nat list" where
  "reconcile_watch probe i st =
     (case st of (w, fired) \<Rightarrow>
        (case map_of w i of
           None \<Rightarrow> (w, fired)
         | Some wt \<Rightarrow>
             (case cp_TxPresent probe (wt_txid wt) of
                None \<Rightarrow> (w, fired)
              | Some True \<Rightarrow>
                  (let w = AList.update i (wt\<lparr>wt_seen := True\<rparr>) w in
                   case cp_TxConfirmations probe of
                     None \<Rightarrow> (w, fired)
                   | Some confs \<Rightarrow>
                       (case confs (wt_txid wt) of
                          None \<Rightarrow> (w, fired)
                        | Some n \<Rightarrow> if ReorgForgetDepth \<le> n then (Forget i w, fired) else (w, fired)))
              | Some False \<Rightarrow> if wt_seen wt then (Forget i w, fired @ [wt_session wt]) else (w, fired))))"

definition reorg_ReconcileOnce :: "chain_probe \<Rightarrow> (string, watch) gomap \<Rightarrow> (string, watch) gomap \<times> nat list" where
  "reorg_ReconcileOnce probe w = fold (reconcile_watch probe) (map fst w) (w, [])"

section \<open>Settling and closing\<close>

definition ArmReorgReopen ::
  "string \<Rightarrow> string \<Rightarrow> offer option \<Rightarrow> u64 \<Rightarrow> router \<Rightarrow> (string, watch) gomap \<Rightarrow>
   router \<times> (string, watch) gomap \<times> (session_error, unit) result" where
  "ArmReorgReopen sessionID txid oo fill r w =
     (case router_Get sessionID r of
        None \<Rightarrow> (r, w, Inl ErrUnknownSession)
      | Some a \<Rightarrow>
          (let s = (r_heap r ! a)\<lparr>ss_settleTxid := txid\<rparr>;
               s = (case oo of None \<Rightarrow> s | Some ofr \<Rightarrow> s\<lparr>ss_settledOffer := Some ofr, ss_settledFill := fill\<rparr>)
           in (write_session a s r, WatchSettlement sessionID txid a w, Inr ())))"

definition SetSettleTxid ::
  "string \<Rightarrow> string \<Rightarrow> router \<Rightarrow> (string, watch) gomap \<Rightarrow> router \<times> (string, watch) gomap \<times> (session_error, unit) result" where
  "SetSettleTxid sessionID txid r w = ArmReorgReopen sessionID txid None 0 r w"

text \<open>\<open>closeReopen\<close> returns the address of the session whose re-open hook must run, if any.\<close>

definition closeReopen :: "string \<Rightarrow> bool \<Rightarrow> router \<Rightarrow> router \<times> nat option" where
  "closeReopen sessionID reopen r =
     (case map_of (r_sessions r) sessionID of
        None \<Rightarrow> (r, None)
      | Some a \<Rightarrow>
          (let r = r\<lparr>r_sessions := AList.delete sessionID (r_sessions r)\<rparr>;
               r = write_session a ((r_heap r ! a)\<lparr>ss_done := True\<rparr>) r
           in (r, if reopen then Some a else None)))"

definition router_Close :: "string \<Rightarrow> router \<Rightarrow> router" where
  "router_Close sessionID r = fst (closeReopen sessionID False r)"

definition Abort :: "string \<Rightarrow> router \<Rightarrow> router \<times> nat option" where
  "Abort sessionID r = closeReopen sessionID True r"

definition OnAnchorOrphaned :: "string \<Rightarrow> router \<Rightarrow> router \<times> nat option" where
  "OnAnchorOrphaned sessionID r = closeReopen sessionID True r"

fun abort_all :: "string list \<Rightarrow> router \<Rightarrow> router \<times> nat list" where
  "abort_all [] r = (r, [])"
| "abort_all (i # is) r =
     (case Abort i r of (r, hook) \<Rightarrow>
        (case abort_all is r of (r, hooks) \<Rightarrow> (r, (case hook of None \<Rightarrow> [] | Some a \<Rightarrow> [a]) @ hooks)))"

definition router_SweepExpired :: "time \<Rightarrow> router \<Rightarrow> router \<times> nat list \<times> nat" where
  "router_SweepExpired now r =
     (let expired = map fst (filter (\<lambda>(i, a). ss_Deadline (r_heap r ! a) < now) (r_sessions r))
      in case abort_all expired r of (r, hooks) \<Rightarrow> (r, hooks, length expired))"

section \<open>Router invariant\<close>

definition router_ok :: "router \<Rightarrow> bool" where
  "router_ok r \<longleftrightarrow> gomap_ok (r_sessions r) \<and>
     (\<forall>i a. map_of (r_sessions r) i = Some a \<longrightarrow> a < length (r_heap r) \<and> ss_ID (r_heap r ! a) = i \<and>
        ss_OfferID (r_heap r ! a) \<noteq> '''' \<and> ss_MakerPubkey (r_heap r ! a) \<noteq> '''' \<and> \<not> ss_done (r_heap r ! a)) \<and>
     list_all (\<lambda>s. length (ss_takerInbox s) \<le> r_inboxBuf r \<and> length (ss_makerInbox s) \<le> r_inboxBuf r) (r_heap r)"

lemma write_session_simps [simp]:
  "r_sessions (write_session a s r) = r_sessions r" "r_inboxBuf (write_session a s r) = r_inboxBuf r"
  "r_heap (write_session a s r) = (r_heap r)[a := s]" "r_deadline (write_session a s r) = r_deadline r"
  by (simp_all add: write_session_def)

lemma router_okD:
  assumes "router_ok r" "map_of (r_sessions r) i = Some a"
  shows "a < length (r_heap r)" "ss_ID (r_heap r ! a) = i" "\<not> ss_done (r_heap r ! a)"
    "length (ss_takerInbox (r_heap r ! a)) \<le> r_inboxBuf r" "length (ss_makerInbox (r_heap r ! a)) \<le> r_inboxBuf r"
    "ss_OfferID (r_heap r ! a) \<noteq> ''''" "ss_MakerPubkey (r_heap r ! a) \<noteq> ''''"
  using assms by (auto simp: router_ok_def list_all_length)

text \<open>Addresses are shared by no two live sessions, so a write touches one session.\<close>

lemma live_addresses_distinct:
  "router_ok r \<Longrightarrow> map_of (r_sessions r) i = Some a \<Longrightarrow> map_of (r_sessions r) j = Some a \<Longrightarrow> i = j"
  using router_okD(2) by metis

lemma router_ok_write:
  assumes "router_ok r" "map_of (r_sessions r) i = Some a" "ss_ID s = i" "\<not> ss_done s"
    "ss_OfferID s \<noteq> ''''" "ss_MakerPubkey s \<noteq> ''''"
    "length (ss_takerInbox s) \<le> r_inboxBuf r" "length (ss_makerInbox s) \<le> r_inboxBuf r"
  shows "router_ok (write_session a s r)"
proof -
  have live: "b < length (r_heap r) \<and> ss_ID ((r_heap r)[a := s] ! b) = j \<and> ss_OfferID ((r_heap r)[a := s] ! b) \<noteq> '''' \<and>
      ss_MakerPubkey ((r_heap r)[a := s] ! b) \<noteq> '''' \<and> \<not> ss_done ((r_heap r)[a := s] ! b)"
    if jb: "map_of (r_sessions r) j = Some b" for j b
  proof (cases "b = a")
    case True
    with live_addresses_distinct [OF assms(1) jb] assms(2) have "j = i" by simp
    with True assms router_okD(1) [OF assms(1,2)] show ?thesis by simp
  next
    case False
    with router_okD [OF assms(1) jb] show ?thesis by simp
  qed
  have "list_all (\<lambda>s. length (ss_takerInbox s) \<le> r_inboxBuf r \<and> length (ss_makerInbox s) \<le> r_inboxBuf r) ((r_heap r)[a := s])"
    using assms by (auto simp: router_ok_def list_all_iff dest!: set_update_subset_insert [THEN subsetD])
  with live assms(1) show ?thesis by (simp add: router_ok_def)
qed

lemma router_ok_StartLift: "router_ok r \<Longrightarrow> router_ok (fst (StartLift now newID req r))"
  by (auto simp: router_ok_def StartLift_def Let_def map_of_update nth_append list_all_length split: if_splits)
    (metis less_SucI)

lemma router_ok_Send: "router_ok r \<Longrightarrow> router_ok (fst (Send now pick i sender c r))"
proof (cases "router_Get i r")
  case (Some a)
  assume ok: "router_ok r"
  have a: "map_of (r_sessions r) i = Some a" using Some by (simp add: router_Get_def)
  note facts = router_okD [OF ok a]
  show ?thesis
    using ok facts Some
    by (cases sender) (auto simp: Send_def Let_def Inbox_def intro!: router_ok_write [OF ok a])
qed (simp add: Send_def)

lemma router_ok_close:
  assumes "router_ok r"
  shows "router_ok (fst (closeReopen i b r))"
proof (cases "map_of (r_sessions r) i")
  case (Some a)
  have other: "c \<noteq> a" if "map_of (r_sessions r) j = Some c" "j \<noteq> i" for j c
    using live_addresses_distinct [OF assms that(1)] Some that(2) by blast
  show ?thesis
    using assms Some other router_okD(4,5) [OF assms Some]
    unfolding router_ok_def by (auto simp: closeReopen_def Let_def map_of_delete nth_list_update list_all_length)
qed (use assms in \<open>simp add: closeReopen_def\<close>)

end
