(* ===== verification/Trade_Log.thy ===== *)
theory Trade_Log
  imports Book_Invariant
begin

text \<open>
  The trade feed and its durable log. Rings are compared as functions of the pair key, since the log
  replay may rebuild the map in another order. Every store operation changes the feed only by
  recording or retracting a trade (\<open>feeds\<close>), so the invariant that the lines issued replay to the rings
  holds in every state. What of those lines reaches the file is the subject of \<open>Trade_File\<close>.
\<close>

section \<open>Rings\<close>

definition ring :: "(string, trade list) gomap \<Rightarrow> string \<Rightarrow> trade list" where
  "ring m pk = gomap_get [] m pk"

definition trade_ok :: "trade \<Rightarrow> bool" where
  "trade_ok t \<longleftrightarrow> 0 < tr_Price t \<and> tr_Size t \<noteq> 0"

definition rings_ok :: "(string, trade list) gomap \<Rightarrow> bool" where
  "rings_ok m \<longleftrightarrow> gomap_ok m \<and>
     (\<forall>pk ts. map_of m pk = Some ts \<longrightarrow> pk \<noteq> '''' \<and> length ts \<le> maxTradesPerPair \<and> list_all trade_ok ts)"

lemma ring_update: "ring (AList.update pk ts m) = (ring m)(pk := ts)"
  by (auto simp: ring_def gomap_get_update)

lemma ring_Nil [simp]: "ring [] = (\<lambda>_. [])"
  by (simp add: ring_def gomap_get_def fun_eq_iff)

lemma push_trade_length: "length ts \<le> maxTradesPerPair \<Longrightarrow> length (push_trade t ts) \<le> maxTradesPerPair"
  by (auto simp: push_trade_def Let_def maxTradesPerPair_def)

lemma push_trade_snoc: "length ts < maxTradesPerPair \<Longrightarrow> push_trade t ts = ts @ [t]"
  by (simp add: push_trade_def Let_def)

lemma push_trade_ok: "list_all trade_ok ts \<Longrightarrow> trade_ok t \<Longrightarrow> list_all trade_ok (push_trade t ts)"
  by (auto simp: push_trade_def Let_def list_all_iff dest: in_set_dropD)

lemma rings_ok_ring:
  "rings_ok m \<Longrightarrow> length (ring m pk) \<le> maxTradesPerPair" "rings_ok m \<Longrightarrow> list_all trade_ok (ring m pk)"
  by (auto simp: rings_ok_def ring_def gomap_get_def split: option.split)

lemma rings_ok_update:
  "rings_ok m \<Longrightarrow> pk \<noteq> '''' \<Longrightarrow> length ts \<le> maxTradesPerPair \<Longrightarrow> list_all trade_ok ts \<Longrightarrow> rings_ok (AList.update pk ts m)"
  by (auto simp: rings_ok_def map_of_update)

text \<open>The effect of one log line on the rings as functions.\<close>

definition replay_fun :: "tradeRec option \<Rightarrow> (string \<Rightarrow> trade list) \<Rightarrow> string \<Rightarrow> trade list" where
  "replay_fun line f =
     (case line of
        None \<Rightarrow> f
      | Some r \<Rightarrow>
          if rec_PK r = '''' then f
          else if rec_RetractTxid r \<noteq> '''' then f(rec_PK r := filter (\<lambda>tr. tr_Txid tr \<noteq> rec_RetractTxid r) (f (rec_PK r)))
          else if 0 < rec_Price r \<and> rec_Size r \<noteq> 0
          then f(rec_PK r := push_trade \<lparr>tr_TS = rec_TS r, tr_Price = rec_Price r, tr_Size = rec_Size r, tr_Txid = rec_Txid r\<rparr>
                   (f (rec_PK r)))
          else f)"

lemma ring_replay_rec: "ring (replay_rec line m) = replay_fun line (ring m)"
  by (auto simp: replay_rec_def replay_fun_def ring_update ring_def split: option.split)

lemma ring_fold_replay: "ring (fold replay_rec ls m) = fold replay_fun ls (ring m)"
  by (induction ls arbitrary: m) (simp_all add: ring_replay_rec)

lemma rings_ok_replay_rec:
  assumes "rings_ok m"
  shows "rings_ok (replay_rec line m)"
proof -
  note ring = rings_ok_ring [OF assms, unfolded ring_def]
  have "rings_ok (AList.update pk (filter P (gomap_get [] m pk)) m)" if "pk \<noteq> ''''" for pk P
    using ring le_trans [OF length_filter_le ring(1)] that
    by (intro rings_ok_update assms) (auto simp: list_all_iff)
  moreover have "rings_ok (AList.update pk (push_trade t (gomap_get [] m pk)) m)" if "pk \<noteq> ''''" "trade_ok t" for pk t
    using ring that by (intro rings_ok_update assms push_trade_length push_trade_ok) simp_all
  ultimately show ?thesis
    using assms by (auto simp: replay_rec_def trade_ok_def split: option.split)
qed

lemma rings_ok_fold_replay: "rings_ok m \<Longrightarrow> rings_ok (fold replay_rec ls m)"
  by (induction ls arbitrary: m) (simp_all add: rings_ok_replay_rec)

section \<open>Compaction\<close>

definition trade_line :: "string \<Rightarrow> trade \<Rightarrow> tradeRec option" where
  "trade_line pk tr = Some \<lparr>rec_PK = pk, rec_TS = tr_TS tr, rec_Price = tr_Price tr, rec_Size = tr_Size tr,
     rec_Txid = tr_Txid tr, rec_RetractTxid = ''''\<rparr>"

lemma replay_trade_line:
  "pk \<noteq> '''' \<Longrightarrow> trade_ok t \<Longrightarrow> replay_fun (trade_line pk t) f = f(pk := push_trade t (f pk))"
  by (cases t) (simp add: replay_fun_def trade_line_def trade_ok_def)

lemma replay_ring_lines:
  "pk \<noteq> '''' \<Longrightarrow> list_all trade_ok ts \<Longrightarrow> length (f pk) + length ts \<le> maxTradesPerPair \<Longrightarrow>
   fold replay_fun (map (trade_line pk) ts) f = f(pk := f pk @ ts)"
proof (induction ts arbitrary: f)
  case (Cons t ts)
  then have "replay_fun (trade_line pk t) f = f(pk := f pk @ [t])"
    by (simp add: replay_trade_line push_trade_snoc)
  with Cons show ?case by (simp add: fun_eq_iff)
qed simp

lemma compactTradeLog_lines: "compactTradeLog m = concat (map (\<lambda>(pk, ts). map (trade_line pk) ts) m)"
  by (simp add: compactTradeLog_def trade_line_def [abs_def])

lemma replay_compact:
  assumes "rings_ok m" "\<And>pk. pk \<in> fst ` set m \<Longrightarrow> f pk = []"
  shows "fold replay_fun (compactTradeLog m) f = (\<lambda>pk. if pk \<in> fst ` set m then ring m pk else f pk)"
  using assms
proof (induction m arbitrary: f)
  case (Cons x m)
  obtain pk ts where x: "x = (pk, ts)" by (cases x)
  have fresh: "pk \<notin> fst ` set m" using Cons.prems(1) by (simp add: rings_ok_def gomap_ok_def x)
  have "map_of (x # m) pk = Some ts" by (simp add: x)
  with Cons.prems(1) have ok: "pk \<noteq> ''''" "length ts \<le> maxTradesPerPair" "list_all trade_ok ts"
    unfolding rings_ok_def by blast+
  have lift: "map_of (x # m) pk' = Some ts'" if "map_of m pk' = Some ts'" for pk' ts'
    using fresh map_of_SomeD [OF that] that by (force simp: x)
  have "rings_ok m"
    unfolding rings_ok_def
  proof (intro conjI allI impI)
    show "gomap_ok m" using Cons.prems(1) by (simp add: rings_ok_def gomap_ok_def)
    fix pk' ts' assume "map_of m pk' = Some ts'"
    from lift [OF this] Cons.prems(1)
    show "pk' \<noteq> ''''" "length ts' \<le> maxTradesPerPair" "list_all trade_ok ts'"
      unfolding rings_ok_def by blast+
  qed
  have "fold replay_fun (map (trade_line pk) ts) f = f(pk := ts)"
    using ok Cons.prems(2) by (subst replay_ring_lines) (auto simp: x)
  then have "fold replay_fun (compactTradeLog (x # m)) f = fold replay_fun (compactTradeLog m) (f(pk := ts))"
    by (simp add: compactTradeLog_lines x)
  also have "\<dots> = (\<lambda>pk'. if pk' \<in> fst ` set m then ring m pk' else (f(pk := ts)) pk')"
    using Cons.prems(2) fresh by (intro Cons.IH \<open>rings_ok m\<close>) auto
  also have "\<dots> = (\<lambda>pk'. if pk' \<in> fst ` set (x # m) then ring (x # m) pk' else f pk')"
    using fresh by (auto simp: x ring_def gomap_get_def fun_eq_iff)
  finally show ?case .
qed (simp add: compactTradeLog_def)

lemma replay_compactTradeLog: "rings_ok m \<Longrightarrow> fold replay_fun (compactTradeLog m) (\<lambda>_. []) = ring m"
  by (subst replay_compact) (auto simp: fun_eq_iff ring_def gomap_get_def map_of_eq_None_iff split: option.split
      dest: map_of_SomeD intro: rev_image_eqI)

section \<open>How operations change the feed\<close>

definition feed :: "store \<Rightarrow> (string, trade list) gomap \<times> tradeRec option list option" where
  "feed s = (trades s, tradeLog s)"

inductive feeds :: "store \<Rightarrow> store \<Rightarrow> bool" where
  feeds_frame: "feed s' = feed s \<Longrightarrow> feeds s s'"
| feeds_record: "feeds s s' \<Longrightarrow> feeds s (RecordTradeTx now oo n tx s')"
| feeds_retract: "feeds s s' \<Longrightarrow> feeds s (fst (RetractTrade now pr tx s'))"
| feeds_then: "feeds s s' \<Longrightarrow> feed s'' = feed s' \<Longrightarrow> feeds s s''"

definition feed_ok :: "store \<Rightarrow> bool" where
  "feed_ok s \<longleftrightarrow> rings_ok (trades s) \<and>
     (case tradeLog s of None \<Rightarrow> True | Some l \<Rightarrow> fold replay_fun l (\<lambda>_. []) = ring (trades s))"

lemma feed_ok_cong: "feed s' = feed s \<Longrightarrow> feed_ok s' = feed_ok s"
  by (cases "tradeLog s") (simp_all add: feed_ok_def feed_def)

lemma pairKey_not_Nil [simp]: "pairKey p \<noteq> []"
  by (simp add: pairKey_def)

lemma feed_ok_record: "feed_ok s \<Longrightarrow> feed_ok (RecordTradeTx now oo n tx s)"
proof (cases "\<exists>ofr. oo = Some ofr \<and> n \<noteq> 0 \<and> \<not> fst (displayPrice ofr) \<le> 0 \<and> Pair ofr \<noteq> None")
  case True
  then obtain ofr where ofr: "oo = Some ofr" "n \<noteq> 0" "\<not> fst (displayPrice ofr) \<le> 0" "Pair ofr \<noteq> None" by blast
  let ?t = "\<lparr>tr_TS = now, tr_Price = fst (displayPrice ofr), tr_Size = n, tr_Txid = tx\<rparr>"
  let ?pk = "pairKey (Pair ofr)"
  have t: "trade_ok ?t" using ofr by (simp add: trade_ok_def)
  assume ok: "feed_ok s"
  then have rings: "rings_ok (trades s)" by (simp add: feed_ok_def)
  have line: "replay_fun (Some \<lparr>rec_PK = ?pk, rec_TS = now, rec_Price = fst (displayPrice ofr), rec_Size = n, rec_Txid = tx,
      rec_RetractTxid = ''''\<rparr>) f = f(?pk := push_trade ?t (f ?pk))" for f
    using replay_trade_line [OF pairKey_not_Nil t] by (simp add: trade_line_def)
  have "rings_ok (AList.update ?pk (push_trade ?t (ring (trades s) ?pk)) (trades s))"
    using rings_ok_ring [OF rings] t by (intro rings_ok_update push_trade_length push_trade_ok rings) simp_all
  with ok ofr line show ?thesis
    by (auto simp: feed_ok_def RecordTradeTx_def Let_def append_log_def ring_update ring_def [symmetric] split: option.splits)
next
  case False
  assume "feed_ok s"
  moreover from False have "RecordTradeTx now oo n tx s = s"
    by (auto simp: RecordTradeTx_def Let_def split: option.split)
  ultimately show ?thesis by simp
qed

lemma feed_ok_retract: "feed_ok s \<Longrightarrow> feed_ok (fst (RetractTrade now pr tx s))"
proof -
  assume ok: "feed_ok s"
  then have rings: "rings_ok (trades s)" by (simp add: feed_ok_def)
  have "length (filter P (ring (trades s) pk)) \<le> maxTradesPerPair" for P pk
    using rings_ok_ring(1) [OF rings] length_filter_le le_trans by blast
  then have "rings_ok (AList.update (pairKey pr) (filter P (ring (trades s) (pairKey pr))) (trades s))" for P
    using rings_ok_ring(2) [OF rings] by (intro rings_ok_update rings) (auto simp: list_all_iff)
  with ok show ?thesis
    by (auto simp: feed_ok_def RetractTrade_def Let_def append_log_def ring_update replay_fun_def
        ring_def [symmetric] split: option.splits)
qed

lemma feeds_feed_ok: "feeds s s' \<Longrightarrow> feed_ok s \<Longrightarrow> feed_ok s'"
  by (induction rule: feeds.induct) (auto simp: feed_ok_record feed_ok_retract dest: feed_ok_cong)

lemma feed_frame [simp]:
  "feed (broadcast ev s) = feed s" "feed (remove k s) = feed s" "feed (put k e s) = feed s"
  "feed (set_entry k e s) = feed s" "feed (s\<lparr>cancelNonce := m\<rparr>) = feed s" "feed (s\<lparr>settledNonce := m'\<rparr>) = feed s"
  "feed (s\<lparr>subs := u\<rparr>) = feed s" "feed (s\<lparr>nextSub := i\<rparr>) = feed s" "feed (s\<lparr>interactiveCap := cap\<rparr>) = feed s"
  "feed (s\<lparr>subBuf := b\<rparr>) = feed s"
  by (simp_all add: feed_def broadcast_def remove_def put_def set_entry_def Let_def split: option.split)

lemma feed_bulk [simp]:
  "feed (remove_all ks s) = feed s" "feed (broadcast_all evs s) = feed s"
  "feed (fst (remove_interactive_keys ks s)) = feed s"
proof -
  show "feed (remove_all ks s) = feed s" by (induction ks arbitrary: s) (simp_all add: remove_all_def)
  show "feed (broadcast_all evs s) = feed s" by (induction evs arbitrary: s) (simp_all add: broadcast_all_def)
  show "feed (fst (remove_interactive_keys ks s)) = feed s"
    by (induction ks s rule: remove_interactive_keys.induct) (auto split: option.split prod.split)
qed

lemma feeds_steps:
  "feeds s s' \<Longrightarrow> feeds s (broadcast ev s')" "feeds s s' \<Longrightarrow> feeds s (remove k s')"
  "feeds s s' \<Longrightarrow> feeds s (RecordTrade now oo n s')" "feeds s (set_entry k e s)" "feeds s (remove k s)" "feeds s s"
  by (auto intro: feeds.intros simp: RecordTrade_def)

lemma feeds_on_covenant: "(\<And>e. feeds s (f e s)) \<Longrightarrow> feeds s (on_covenant k f s)"
  by (auto simp: on_covenant_def intro: feeds_steps split: option.split)

lemma feeds_ApplyPartialFill: "feeds s s' \<Longrightarrow> feeds s (fst (ApplyPartialFill k n tx confs s'))"
  by (rule feeds_then [where s' = s']) (auto simp: ApplyPartialFill_def Let_def split: option.split)

lemma feeds_exec: "feeds s (exec cr now op s)"
proof (cases op)
  case (OpRecordSettledFill k n tx confs nonce)
  have "feeds s (fst (ApplyPartialFill k m tx confs (RecordTrade now oo m (s\<lparr>settledNonce := sn\<rparr>))))" for oo m sn
    by (intro feeds_ApplyPartialFill feeds_steps(3) feeds_frame) simp
  with OpRecordSettledFill show ?thesis
    by (auto simp: RecordSettledFill_def Let_def intro: feeds_frame split: option.split)
next
  case (OpRerestCovenantRemainder k tx vout n)
  then show ?thesis
    by (auto simp: RerestCovenantRemainder_def Let_def intro!: feeds_on_covenant feeds_steps)
next
  case (OpRemoveCovenantFilled k tx)
  then show ?thesis
    by (auto simp: RemoveCovenantFilled_def Let_def intro!: feeds_on_covenant feeds_steps)
next
  case (OpRecordTradeTx ofr n tx) then show ?thesis by (auto intro: feeds_record feeds_steps)
next
  case (OpRetractTrade pr tx) then show ?thesis by (auto intro: feeds_retract feeds_steps)
qed (auto simp: Submit_def Edit_def Cancel_def MarkInvalidated_def RetireIncoming_def dropWithStatus_def
    Reopen_def SweepExpired_def RemoveInteractiveByMaker_def RemoveInteractiveByKeys_def RemoveByMaker_def
    Subscribe_def Unsubscribe_def Receive_def SetInteractiveCap_def SetSubBuf_def ApplyPartialFill_def
    HoldCovenantGhost_def ReconcileCovenantActive_def HoldCovenantForSpend_def
    Let_def case_prod_beta
    intro!: feeds_frame feeds_on_covenant split: sum.split option.split list.split)

section \<open>Restart\<close>

text \<open>States of a relay that enabled its log on \<open>logfile\<close> at startup and then ran any operations.\<close>

inductive logged :: "crypto \<Rightarrow> tradeRec option list option \<Rightarrow> store \<Rightarrow> bool" for cr logfile where
  logged_start: "EnableTradeLog logfile compactOk openOk NewStore = (s, r, disk) \<Longrightarrow> logged cr logfile s"
| logged_exec: "logged cr logfile s \<Longrightarrow> logged cr logfile (exec cr now op s)"

lemma rings_ok_Nil [simp]: "rings_ok []"
  by (simp add: rings_ok_def)

lemma EnableTradeLog_feed_ok:
  assumes "EnableTradeLog logfile compactOk openOk NewStore = (s, r, disk)"
  shows "feed_ok s"
proof (cases logfile)
  case None
  with assms show ?thesis
    by (auto simp: EnableTradeLog_def Let_def NewStore_def feed_ok_def split: if_splits)
next
  case (Some ls)
  let ?m = "fold replay_rec ls []"
  have ok: "rings_ok ?m" by (simp add: rings_ok_fold_replay)
  have "fold replay_fun ls (\<lambda>_. []) = ring ?m" by (simp add: ring_fold_replay)
  with assms Some ok replay_compactTradeLog [OF ok] show ?thesis
    by (auto simp: EnableTradeLog_def Let_def NewStore_def feed_ok_def split: if_splits)
qed

lemma logged_feed_ok: "logged cr logfile s \<Longrightarrow> feed_ok s"
  by (induction rule: logged.induct) (auto intro: EnableTradeLog_feed_ok feeds_feed_ok [OF feeds_exec])

lemma EnableTradeLog_rings:
  "EnableTradeLog (Some l) compactOk openOk NewStore = (s, r, disk) \<Longrightarrow> ring (trades s) = fold replay_fun l (\<lambda>_. [])"
  by (auto simp: EnableTradeLog_def Let_def NewStore_def ring_fold_replay split: if_splits)

lemma reachable_feed_ok: "reachable cr s \<Longrightarrow> feed_ok s"
proof (induction rule: reachable.induct)
  case reach_new
  show ?case by (simp add: feed_ok_def NewStore_def)
next
  case (reach_exec s now op)
  then show ?case using feeds_feed_ok [OF feeds_exec] by blast
qed

end
