(* ===== verification/Relay.thy ===== *)
theory Relay
  imports Session_Router Trade_Log
begin

text \<open>
  The relay's wiring of book, session router and reorg watcher (\<open>cmd/seqobd/main.go\<close>,
  \<open>api/ws.go\<close>): the settlement reports of makers, and the undo hook that runs when the anchor of a
  settling transaction is orphaned.
\<close>

record relay =
  rl_store :: store
  rl_router :: router
  rl_watches :: "(string, watch) gomap"

record settle_ack =
  sa_SessionId :: string
  sa_SettleTxid :: string
  sa_FillBase :: u64
  sa_AnchorConfs :: u32

datatype ws_error =
    WsSettleAckFields | WsNotSessionMaker | WsUnknownSession | WsApplyFill store_error
  | WsSettledTradeFields | WsSettledTradeSig sig_error | WsSettledTradeRecord store_error

section \<open>Undo hook\<close>

definition onReopen :: "crypto \<Rightarrow> time \<Rightarrow> session \<Rightarrow> store \<Rightarrow> store" where
  "onReopen cr now ses s =
     (case ss_settledOffer ses of
        None \<Rightarrow> s
      | Some ofr \<Rightarrow>
          (let k = Key (ss_MakerPubkey ses) (ss_OfferID ses);
               cur = (case Get k s of None \<Rightarrow> 0 | Some e \<Rightarrow> e_ActiveAmount e);
               restore = cur + ss_settledFill ses;
               s = fst (Reopen cr now ofr restore s)
           in if ss_settleTxid ses \<noteq> '''' then fst (RetractTrade now (Pair ofr) (ss_settleTxid ses) s) else s))"

text \<open>One pass of the reorg watcher: the hooks of the orphaned settlements run in order.\<close>

definition reorg_pass :: "crypto \<Rightarrow> time \<Rightarrow> chain_probe \<Rightarrow> relay \<Rightarrow> relay" where
  "reorg_pass cr now probe rl =
     (case reorg_ReconcileOnce probe (rl_watches rl) of (w, fired) \<Rightarrow>
        rl\<lparr>rl_watches := w,
           rl_store := fold (\<lambda>a s. onReopen cr now (r_heap (rl_router rl) ! a) s) fired (rl_store rl)\<rparr>)"

text \<open>The deadline sweeper aborts sessions; each abort runs the hook.\<close>

definition deadline_sweep :: "crypto \<Rightarrow> time \<Rightarrow> relay \<Rightarrow> relay" where
  "deadline_sweep cr now rl =
     (case router_SweepExpired now (rl_router rl) of (r, hooks, n) \<Rightarrow>
        rl\<lparr>rl_router := r, rl_store := fold (\<lambda>a s. onReopen cr now (r_heap r ! a) s) hooks (rl_store rl)\<rparr>)"

section \<open>Settlement reports\<close>

definition wsSettleAck ::
  "time \<Rightarrow> (string, role) gomap \<Rightarrow> settle_ack \<Rightarrow> relay \<Rightarrow> relay \<times> (ws_error, unit) result" where
  "wsSettleAck now roles sa rl =
     (let sid = sa_SessionId sa in
      if sid = '''' then (rl, Inl WsSettleAckFields)
      else if map_of roles sid \<noteq> Some RoleMaker then (rl, Inl WsNotSessionMaker)
      else
        (case router_Get sid (rl_router rl) of
           None \<Rightarrow> (rl, Inl WsUnknownSession)
         | Some a \<Rightarrow>
             (let sess = r_heap (rl_router rl) ! a;
                  k = Key (ss_MakerPubkey sess) (ss_OfferID sess);
                  unfilled =
                    (case SetSettleTxid sid (sa_SettleTxid sa) (rl_router rl) (rl_watches rl) of (r, w, _) \<Rightarrow>
                       (rl\<lparr>rl_router := router_Close sid r, rl_watches := w\<rparr>, Inr ()))
              in case Get k (rl_store rl) of
                   None \<Rightarrow> unfilled
                 | Some e \<Rightarrow>
                     (let fill = (if e_ActiveAmount e < ss_TakeAmount sess then e_ActiveAmount e else ss_TakeAmount sess) in
                      if 0 < fill then
                        (let s = RecordTradeTx now (Some (e_Offer e)) fill (sa_SettleTxid sa) (rl_store rl) in
                         case ApplyPartialFill k fill (sa_SettleTxid sa) (sa_AnchorConfs sa) s of
                           (s, Inl er) \<Rightarrow> (rl\<lparr>rl_store := s\<rparr>, Inl (WsApplyFill er))
                         | (s, Inr _) \<Rightarrow>
                             (case ArmReorgReopen sid (sa_SettleTxid sa) (Some (e_Offer e)) fill (rl_router rl) (rl_watches rl) of
                                (r, w, _) \<Rightarrow>
                                  (rl\<lparr>rl_store := s, rl_router := router_Close sid r, rl_watches := w\<rparr>, Inr ())))
                      else unfilled))))"

definition wsSettledTrade :: "crypto \<Rightarrow> time \<Rightarrow> settled_trade \<Rightarrow> relay \<Rightarrow> relay \<times> (ws_error, unit) result" where
  "wsSettledTrade cr now st rl =
     (if st_OfferId st = '''' \<or> st_MakerPubkey st = '''' then (rl, Inl WsSettledTradeFields)
      else
        (case VerifySettledTrade cr (Some st) of
           Inl e \<Rightarrow> (rl, Inl (WsSettledTradeSig e))
         | Inr _ \<Rightarrow>
             (case RecordSettledFill now (Key (st_MakerPubkey st) (st_OfferId st)) (st_FillBase st) (st_SettleTxid st)
                     (st_AnchorConfs st) (st_Nonce st) (rl_store rl) of
                (s, Inl e) \<Rightarrow> (rl\<lparr>rl_store := s\<rparr>, Inl (WsSettledTradeRecord e))
              | (s, Inr _) \<Rightarrow> (rl\<lparr>rl_store := s\<rparr>, Inr ()))))"

section \<open>The reorg pass\<close>

text \<open>What a pass does with one watch.\<close>

definition watch_after :: "chain_probe \<Rightarrow> watch \<Rightarrow> watch option" where
  "watch_after probe wt =
     (case cp_TxPresent probe (wt_txid wt) of
        None \<Rightarrow> Some wt
      | Some True \<Rightarrow>
          (case cp_TxConfirmations probe of
             None \<Rightarrow> Some (wt\<lparr>wt_seen := True\<rparr>)
           | Some confs \<Rightarrow>
               (case confs (wt_txid wt) of
                  None \<Rightarrow> Some (wt\<lparr>wt_seen := True\<rparr>)
                | Some n \<Rightarrow> if ReorgForgetDepth \<le> n then None else Some (wt\<lparr>wt_seen := True\<rparr>)))
      | Some False \<Rightarrow> if wt_seen wt then None else Some wt)"

definition watch_fires :: "chain_probe \<Rightarrow> watch \<Rightarrow> bool" where
  "watch_fires probe wt \<longleftrightarrow> cp_TxPresent probe (wt_txid wt) = Some False \<and> wt_seen wt"

lemma map_of_fun_upd: "map_of (AList.update k v m) = (map_of m)(k \<mapsto> v)" "map_of (AList.delete k m) = (map_of m)(k := None)"
  by (simp_all add: update_conv' delete_conv')

lemma reconcile_watch_one:
  assumes "map_of w i = Some wt"
  shows "map_of (fst (reconcile_watch probe i (w, fired))) = (map_of w)(i := watch_after probe wt)"
    "snd (reconcile_watch probe i (w, fired)) = fired @ (if watch_fires probe wt then [wt_session wt] else [])"
  using assms
  by (auto simp: reconcile_watch_def watch_after_def watch_fires_def Forget_def map_of_fun_upd Let_def fun_eq_iff
      split: option.split bool.split)

lemma fold_reconcile_watch:
  assumes "distinct is" "\<And>i. i \<in> set is \<Longrightarrow> map_of w i \<noteq> None"
  shows "map_of (fst (fold (reconcile_watch probe) is (w, fired))) =
      (\<lambda>i. if i \<in> set is then watch_after probe (the (map_of w i)) else map_of w i) \<and>
    snd (fold (reconcile_watch probe) is (w, fired)) =
      fired @ map wt_session (filter (watch_fires probe) (map (\<lambda>i. the (map_of w i)) is))"
  using assms
proof (induction "is" arbitrary: w fired)
  case (Cons i js)
  from Cons.prems(2) [of i] obtain wt where wt: "map_of w i = Some wt" by auto
  obtain w' fired' where step: "reconcile_watch probe i (w, fired) = (w', fired')" by fastforce
  have w': "map_of w' = (map_of w)(i := watch_after probe wt)"
      "fired' = fired @ (if watch_fires probe wt then [wt_session wt] else [])"
    using reconcile_watch_one [OF wt, of probe fired] step by simp_all
  have same: "map_of w' j = map_of w j" if "j \<in> set js" for j using w' Cons.prems(1) that by auto
  have samemap: "map (\<lambda>i. the (map_of w' i)) js = map (\<lambda>i. the (map_of w i)) js" using same by simp
  have dom': "map_of w' j \<noteq> None" if "j \<in> set js" for j using same [OF that] Cons.prems(2) [of j] that by simp
  have "distinct js" using Cons.prems(1) by simp
  note ih' = Cons.IH [OF this dom', of fired', unfolded samemap]
  note ih = conjunct1 [OF ih'] conjunct2 [OF ih']
  show ?case
  proof
    show "map_of (fst (fold (reconcile_watch probe) (i # js) (w, fired))) =
        (\<lambda>j. if j \<in> set (i # js) then watch_after probe (the (map_of w j)) else map_of w j)"
      using ih(1) same w'(1) wt Cons.prems(1) by (auto simp: step fun_eq_iff)
    show "snd (fold (reconcile_watch probe) (i # js) (w, fired)) =
        fired @ map wt_session (filter (watch_fires probe) (map (\<lambda>i. the (map_of w i)) (i # js)))"
      using ih(2) w'(2) wt by (simp add: step)
  qed
qed simp

lemma reorg_ReconcileOnce_spec:
  assumes "gomap_ok w" "reorg_ReconcileOnce probe w = (w', fired)"
  shows "map_of w' i = (case map_of w i of None \<Rightarrow> None | Some wt \<Rightarrow> watch_after probe wt)"
    "fired = map wt_session (filter (watch_fires probe) (map snd w))"
proof -
  have keys: "distinct (map fst w)" using assms(1) by (simp add: gomap_ok_def)
  have dom: "map_of w j \<noteq> None" if "j \<in> set (map fst w)" for j
    using that by (simp add: map_of_eq_None_iff)
  note spec = fold_reconcile_watch [OF keys dom, of probe "[]"]
  have res: "fold (reconcile_watch probe) (map fst w) (w, []) = (w', fired)"
    using assms(2) by (simp add: reorg_ReconcileOnce_def)
  show "map_of w' i = (case map_of w i of None \<Rightarrow> None | Some wt \<Rightarrow> watch_after probe wt)"
  proof (cases "map_of w i")
    case None
    then have "i \<notin> set (map fst w)" by (simp add: map_of_eq_None_iff)
    with spec res None show ?thesis by simp
  next
    case (Some wt)
    then have "i \<in> set (map fst w)" by (metis map_of_eq_None_iff option.distinct(1) set_map)
    with spec res Some show ?thesis by simp
  qed
  have "map (\<lambda>i. the (map_of w i)) (map fst w) = map snd w"
    using keys by (auto simp: map_of_eq_Some_iff)
  then show "fired = map wt_session (filter (watch_fires probe) (map snd w))"
    using conjunct2 [OF spec] by (simp only: res snd_conv append_Nil)
qed

section \<open>Undo of a settlement\<close>

lemma RecordTradeTx_trades:
  assumes "n \<noteq> 0" "0 < fst (displayPrice ofr)" "Pair ofr \<noteq> None"
  shows "ring (trades (RecordTradeTx now (Some ofr) n tx s)) =
    (ring (trades s))(pairKey (Pair ofr) := push_trade \<lparr>tr_TS = now, tr_Price = fst (displayPrice ofr), tr_Size = n, tr_Txid = tx\<rparr>
       (ring (trades s) (pairKey (Pair ofr))))"
proof -
  from assms(3) obtain pr where "Pair ofr = Some pr" by auto
  with assms(1,2) show ?thesis
    by (simp add: RecordTradeTx_def Let_def append_log_def ring_update ring_def fun_eq_iff gomap_get_update not_le)
qed

lemma RetractTrade_trades:
  assumes "Pair ofr \<noteq> None" "tx \<noteq> ''''"
  shows "ring (trades (fst (RetractTrade now (Pair ofr) tx s))) =
    (ring (trades s))(pairKey (Pair ofr) := filter (\<lambda>t. tr_Txid t \<noteq> tx) (ring (trades s) (pairKey (Pair ofr))))"
proof (cases "filter (\<lambda>t. tr_Txid t = tx) (ring (trades s) (pairKey (Pair ofr))) = []")
  case True
  then have "filter (\<lambda>t. tr_Txid t \<noteq> tx) (ring (trades s) (pairKey (Pair ofr))) = ring (trades s) (pairKey (Pair ofr))"
    by (simp add: filter_empty_conv filter_id_conv)
  moreover from assms(1) obtain pr where "Pair ofr = Some pr" by auto
  ultimately show ?thesis using True assms(2) by (simp add: RetractTrade_def Let_def ring_def fun_eq_iff)
next
  case False
  moreover from assms(1) obtain pr where "Pair ofr = Some pr" by auto
  ultimately show ?thesis using assms(2)
    by (simp add: RetractTrade_def Let_def append_log_def ring_update ring_def fun_eq_iff gomap_get_update)
qed

lemma trades_frame [simp]:
  "trades (broadcast ev s) = trades s" "trades (remove k s) = trades s" "trades (put k e s) = trades s"
  "trades (set_entry k e s) = trades s"
  by (simp_all add: broadcast_def remove_def put_def set_entry_def Let_def split: option.split)

lemma ApplyPartialFill_trades [simp]: "trades (fst (ApplyPartialFill k n tx confs s)) = trades s"
  by (simp add: ApplyPartialFill_def Let_def split: option.split)

lemma Reopen_trades [simp]: "trades (fst (Reopen cr now ofr n s)) = trades s"
  by (simp add: Reopen_def Let_def split: sum.split)

lemma RetractTrade_entries [simp]: "entries (fst (RetractTrade now pr tx s)) = entries s"
  by (simp add: RetractTrade_def Let_def)

lemma cancelNonce_frame [simp]:
  "cancelNonce (broadcast ev s) = cancelNonce s" "cancelNonce (remove k s) = cancelNonce s"
  "cancelNonce (set_entry k e s) = cancelNonce s" "cancelNonce (RecordTradeTx now oo n tx s) = cancelNonce s"
  by (simp_all add: broadcast_def remove_def set_entry_def RecordTradeTx_def append_log_def Let_def split: option.split)

lemma ApplyPartialFill_cancelNonce [simp]: "cancelNonce (fst (ApplyPartialFill k n tx confs s)) = cancelNonce s"
  by (simp add: ApplyPartialFill_def Let_def split: option.split)

text \<open>The size still resting after a fill, read the way the undo hook reads it.\<close>

lemma ApplyPartialFill_rest:
  assumes "map_of (entries s) k = Some e" "n \<le> e_ActiveAmount e"
  shows "(case map_of (entries (fst (ApplyPartialFill k n tx confs s))) k of None \<Rightarrow> 0 | Some e \<Rightarrow> e_ActiveAmount e) =
    e_ActiveAmount e - n"
proof -
  let ?e = "fill_entry n tx confs e"
  have act: "e_ActiveAmount ?e = e_ActiveAmount e - n"
    using assms(2) by (simp add: fill_entry_def Let_def leD)
  have "map_of (entries (fst (ApplyPartialFill k n tx confs s))) k =
      (if e_ActiveAmount ?e = 0 \<and> e_Status ?e = OFFER_STATUS_FILLED then None else Some ?e)"
    using assms(1) by (simp add: ApplyPartialFill_def Let_def map_of_update map_of_delete)
  with act show ?thesis by simp
qed

lemma Reopen_entry:
  assumes "VerifyOffer cr (Some ofr) = Inr ()" "\<not> cancelledSince (gomap_get 0 (cancelNonce s) (keyOf ofr)) (CreatedAtUnix ofr)"
    "n \<noteq> 0" "n \<le> BaseAmount ofr"
  shows "map_of (entries (fst (Reopen cr now ofr n s))) (keyOf ofr) =
    Some (new_entry now ofr (if n < BaseAmount ofr then OFFER_STATUS_PARTIAL else OFFER_STATUS_OPEN) n)"
  using assms by (auto simp: Reopen_def Let_def map_of_update leD)

lemma undo_entry:
  assumes "book_ok cr s" "map_of (entries s) (keyOf (e_Offer e)) = Some e"
    "\<not> cancelledSince (gomap_get 0 (cancelNonce s) (keyOf (e_Offer e))) (CreatedAtUnix (e_Offer e))"
    "fill \<noteq> 0" "fill \<le> e_ActiveAmount e"
    "ss_settledOffer ses = Some (e_Offer e)" "ss_settledFill ses = fill" "keyOf (e_Offer e) = Key (ss_MakerPubkey ses) (ss_OfferID ses)"
    "s1 = fst (ApplyPartialFill (keyOf (e_Offer e)) fill tx confs (RecordTradeTx now (Some (e_Offer e)) fill tx s))"
  shows "map_of (entries (onReopen cr now' ses s1)) (keyOf (e_Offer e)) =
    Some (new_entry now' (e_Offer e) (if e_ActiveAmount e < BaseAmount (e_Offer e) then OFFER_STATUS_PARTIAL else OFFER_STATUS_OPEN)
      (e_ActiveAmount e))"
proof -
  have ok: "VerifyOffer cr (Some (e_Offer e)) = Inr ()" "e_ActiveAmount e \<le> BaseAmount (e_Offer e)"
    using book_okD(3) [OF assms(1,2)] by (auto simp: entry_ok_def)
  have nz: "e_ActiveAmount e \<noteq> 0" using assms(4,5) by auto
  have "(case Get (keyOf (e_Offer e)) s1 of None \<Rightarrow> 0 | Some e \<Rightarrow> e_ActiveAmount e) + fill = e_ActiveAmount e"
    using ApplyPartialFill_rest [of "RecordTradeTx now (Some (e_Offer e)) fill tx s", OF _ assms(5)] assms(2,9)
    by (simp add: Get_def)
  then show ?thesis
    using Reopen_entry [OF ok(1) _ nz ok(2), of s1 now'] assms(3,6-9) by (auto simp: onReopen_def Let_def)
qed

lemma undo_trades:
  assumes "Pair ofr \<noteq> None" "tx \<noteq> ''''" "length (ring (trades s) (pairKey (Pair ofr))) < maxTradesPerPair"
    "\<forall>t\<in>set (ring (trades s) (pairKey (Pair ofr))). tr_Txid t \<noteq> tx"
    "ss_settledOffer ses = Some ofr" "ss_settleTxid ses = tx"
    "s1 = fst (ApplyPartialFill k fill tx confs (RecordTradeTx now (Some ofr) fill tx s))"
  shows "ring (trades (onReopen cr now' ses s1)) = ring (trades s)"
proof -
  let ?pk = "pairKey (Pair ofr)"
  have keep: "filter (\<lambda>t. tr_Txid t \<noteq> tx) (ring (trades s) ?pk) = ring (trades s) ?pk"
    using assms(4) by (simp add: filter_id_conv)
  have undone: "ring (trades (onReopen cr now' ses s1)) =
      (ring (trades s1))(?pk := filter (\<lambda>t. tr_Txid t \<noteq> tx) (ring (trades s1) ?pk))"
    using assms(2,5,6) RetractTrade_trades [OF assms(1,2), of now' "fst (Reopen cr now' ofr n s1)" for n]
    by (simp add: onReopen_def Let_def)
  show ?thesis
  proof (cases "fill \<noteq> 0 \<and> 0 < fst (displayPrice ofr)")
    case True
    then have "ring (trades s1) = (ring (trades s))(?pk := ring (trades s) ?pk @
        [\<lparr>tr_TS = now, tr_Price = fst (displayPrice ofr), tr_Size = fill, tr_Txid = tx\<rparr>])"
      using RecordTradeTx_trades [of fill ofr now tx s] assms(1,3,7) by (simp add: push_trade_snoc)
    with undone keep show ?thesis by (simp add: fun_upd_idem)
  next
    case False
    then have "ring (trades s1) = ring (trades s)"
      using assms(7) by (auto simp: RecordTradeTx_def Let_def)
    with undone keep show ?thesis by (simp add: fun_upd_idem)
  qed
qed

end
