(* ===== verification/Matcher.thy ===== *)
theory Matcher
  imports Book_Invariant "HOL-Library.Product_Lexorder"
begin

text \<open>
  The continuous matching engine (\<open>matcher/matcher.go\<close>): candidates of an incoming order in
  price-time priority, the pure book walk that plans the fills, and the time-in-force policy on top.
  The Go interface \<open>Book\<close> is the record \<open>book\<close>; \<open>store_book\<close> is the one the relay passes.
  \<open>big.Rat.SetFrac\<close> panics on a zero denominator: a definition that may panic returns an option,
  with \<open>None\<close> for the panic.
\<close>

section \<open>Data\<close>

record book =
  bk_SnapshotPairEntries :: "asset_pair option \<Rightarrow> bool \<Rightarrow> entry list"
  bk_Get :: "key \<Rightarrow> entry option"

definition store_book :: "store \<Rightarrow> book" where
  "store_book s = \<lparr>bk_SnapshotPairEntries = (\<lambda>p c. SnapshotPairEntries p c s), bk_Get = (\<lambda>k. Get k s)\<rparr>"

record match =
  mt_Pair :: "asset_pair option"
  mt_RestingKey :: key
  mt_Resting :: offer
  mt_IncomingKey :: key
  mt_Incoming :: offer
  mt_FillBase :: u64
  mt_FillQuote :: u64
  mt_RestingCovenant :: "covenant_terms option"
  mt_RestingLocked :: u64
  mt_IncomingCovenant :: "covenant_terms option"
  mt_RestingLightning :: "lightning_terms option"
  mt_IncomingLightning :: "lightning_terms option"

datatype disposition = DispRest | DispCancelRemainder | DispReject

record cross_result =
  cr_Matches :: "match list"
  cr_Disposition :: disposition
  cr_Filled :: u64
  cr_Remainder :: u64

section \<open>Guards and prices\<close>

definition isSubAssetOffer :: "offer \<Rightarrow> bool" where
  "isSubAssetOffer ofr = (case GetLightning ofr of None \<Rightarrow> False | Some lt \<Rightarrow> IsSubAsset (ln_LnDirection lt))"

definition hasSettlementOwner :: "offer \<Rightarrow> offer \<Rightarrow> bool" where
  "hasSettlementOwner incoming resting \<longleftrightarrow> GetCovenant resting \<noteq> None"

definition crosses :: "offer \<Rightarrow> offer \<Rightarrow> bool" where
  "crosses incoming resting \<longleftrightarrow>
     unat (WantAmount resting) * unat (WantAmount incoming) \<le> unat (OfferAmount incoming) * unat (OfferAmount resting)"

definition SetFrac :: "u64 \<Rightarrow> u64 \<Rightarrow> rat option" where
  "SetFrac a b = (if b = 0 then None else Some (of_nat (unat a) / of_nat (unat b)))"

definition quotePerBase :: "offer \<Rightarrow> rat option" where
  "quotePerBase ofr =
     (case TradeDir ofr of
        TRADE_DIR_SELL \<Rightarrow> SetFrac (WantAmount ofr) (OfferAmount ofr)
      | TRADE_DIR_BUY \<Rightarrow> SetFrac (OfferAmount ofr) (WantAmount ofr)
      | _ \<Rightarrow> Some 0)"

definition fillQuote :: "offer \<Rightarrow> u64 \<Rightarrow> u64" where
  "fillQuote resting fillBase =
     (let (num, den) =
        (case GetCovenant resting of
           Some cov \<Rightarrow> (ct_RateNum cov, ct_RateDen cov)
         | None \<Rightarrow>
             (case TradeDir resting of
                TRADE_DIR_SELL \<Rightarrow> (WantAmount resting, OfferAmount resting)
              | TRADE_DIR_BUY \<Rightarrow> (OfferAmount resting, WantAmount resting)
              | _ \<Rightarrow> (0, 0)))
      in if den = 0 then 0
         else (let p = (unat fillBase * unat num + unat (den - 1)) div unat den in
               if p < 18446744073709551616 then of_nat p else 0))"

section \<open>Candidates\<close>

definition eligible :: "offer \<Rightarrow> entry \<Rightarrow> bool" where
  "eligible incoming e \<longleftrightarrow>
     keyOf (e_Offer e) \<noteq> keyOf incoming \<and>
     e_ActiveAmount e \<noteq> 0 \<and>
     Confidential (e_Offer e) = Confidential incoming \<and>
     (TradeDir (e_Offer e) = TRADE_DIR_BUY) \<noteq> (TradeDir incoming = TRADE_DIR_BUY) \<and>
     OfferAsset incoming = WantAsset (e_Offer e) \<and> WantAsset incoming = OfferAsset (e_Offer e) \<and>
     \<not> isSubAssetOffer incoming \<and> \<not> isSubAssetOffer (e_Offer e) \<and>
     hasSettlementOwner incoming (e_Offer e) \<and>
     crosses incoming (e_Offer e)"

text \<open>
  The comparison of the stable sort: cheapest ask first for a BUY, richest bid first for a SELL,
  then the older entry. Two or more candidates are all compared, so a zero denominator among them
  panics; a single candidate is never compared.
\<close>

definition priority :: "bool \<Rightarrow> entry \<Rightarrow> rat \<times> time" where
  "priority buy e = ((if buy then the (quotePerBase (e_Offer e)) else - the (quotePerBase (e_Offer e))), e_CreatedAt e)"

definition candidates :: "book \<Rightarrow> offer \<Rightarrow> entry list option" where
  "candidates bk incoming =
     (let c = filter (eligible incoming) (bk_SnapshotPairEntries bk (Pair incoming) (Confidential incoming)) in
      if 2 \<le> length c \<and> \<not> list_all (\<lambda>e. quotePerBase (e_Offer e) \<noteq> None) c then None
      else Some (sort_key (priority (TradeDir incoming = TRADE_DIR_BUY)) c))"

section \<open>The walk\<close>

text \<open>The fill an order resting as \<open>e\<close> gives to \<open>rem\<close> wanted base atoms; \<open>None\<close> skips it.\<close>

definition fill_of :: "u64 \<Rightarrow> entry \<Rightarrow> (u64 \<times> u64) option" where
  "fill_of rem e =
     (let restActive = e_ActiveAmount e in
      if restActive = 0 then None
      else
        (let fillBase = (if rem < restActive then rem else restActive);
             partialOfResting = (fillBase < restActive)
         in if partialOfResting \<and> \<not> AllowPartial (e_Offer e) then None
            else if partialOfResting \<and> 0 < MinFill (e_Offer e) \<and> fillBase < MinFill (e_Offer e) then None
            else
              (let sized =
                 (case GetCovenant (e_Offer e) of
                    None \<Rightarrow> Some fillBase
                  | Some cov \<Rightarrow>
                      (let ml = ct_MinLot cov in
                       if fillBase < ml then None
                       else
                         (let r = restActive - fillBase in
                          if r \<noteq> 0 \<and> r < ml
                          then (if ml \<le> restActive \<and> restActive - ml \<le> rem
                                then (let fillBase = restActive - ml in if fillBase < ml then None else Some fillBase)
                                else None)
                          else Some fillBase)))
               in case sized of
                    None \<Rightarrow> None
                  | Some fillBase \<Rightarrow>
                      (let fq = fillQuote (e_Offer e) fillBase in if fq = 0 then None else Some (fillBase, fq)))))"

fun plan_fills :: "entry list \<Rightarrow> u64 \<Rightarrow> (entry \<times> u64 \<times> u64) list \<times> u64" where
  "plan_fills [] rem = ([], rem)"
| "plan_fills (e # es) rem =
     (if rem = 0 then ([], rem)
      else case fill_of rem e of
          None \<Rightarrow> plan_fills es rem
        | Some (fillBase, fq) \<Rightarrow>
            (let (plan, rem') = plan_fills es (rem - fillBase) in ((e, fillBase, fq) # plan, rem')))"

definition match_of :: "offer \<Rightarrow> entry \<times> u64 \<times> u64 \<Rightarrow> match" where
  "match_of incoming p =
     (case p of (e, fillBase, fq) \<Rightarrow>
        \<lparr>mt_Pair = Pair incoming, mt_RestingKey = keyOf (e_Offer e), mt_Resting = e_Offer e,
         mt_IncomingKey = keyOf incoming, mt_Incoming = incoming, mt_FillBase = fillBase, mt_FillQuote = fq,
         mt_RestingCovenant = GetCovenant (e_Offer e),
         mt_RestingLocked = (case GetCovenant (e_Offer e) of None \<Rightarrow> 0 | Some _ \<Rightarrow> e_ActiveAmount e),
         mt_IncomingCovenant = GetCovenant incoming,
         mt_RestingLightning = GetLightning (e_Offer e), mt_IncomingLightning = GetLightning incoming\<rparr>)"

definition walk :: "book \<Rightarrow> offer \<Rightarrow> (match list \<times> u64) option" where
  "walk bk incoming =
     (case bk_Get bk (keyOf incoming) of
        None \<Rightarrow> Some ([], 0)
      | Some inEntry \<Rightarrow>
          (let incomingRemaining = e_ActiveAmount inEntry in
           if incomingRemaining = 0 then Some ([], 0)
           else
             (case candidates bk incoming of
                None \<Rightarrow> None
              | Some rest \<Rightarrow>
                  if rest = [] then Some ([], incomingRemaining)
                  else (let (plan, rem) = plan_fills rest incomingRemaining in Some (map (match_of incoming) plan, rem)))))"

definition Cross :: "book \<Rightarrow> offer \<Rightarrow> match list option" where
  "Cross bk incoming =
     map_option (\<lambda>(matches, remainder). if \<not> AllowPartial incoming \<and> remainder \<noteq> 0 then [] else matches)
       (walk bk incoming)"

definition CrossOrder :: "book \<Rightarrow> offer \<Rightarrow> cross_result option" where
  "CrossOrder bk incoming =
     map_option (\<lambda>(matches, remainder).
       (let filled = foldl (\<lambda>acc mt. acc + mt_FillBase mt) 0 matches in
        case TimeInForce incoming of
          TIME_IN_FORCE_POST_ONLY \<Rightarrow>
            if matches \<noteq> []
            then \<lparr>cr_Matches = [], cr_Disposition = DispReject, cr_Filled = 0, cr_Remainder = filled + remainder\<rparr>
            else \<lparr>cr_Matches = [], cr_Disposition = DispRest, cr_Filled = 0, cr_Remainder = remainder\<rparr>
        | TIME_IN_FORCE_FOK \<Rightarrow>
            if remainder \<noteq> 0
            then \<lparr>cr_Matches = [], cr_Disposition = DispReject, cr_Filled = 0, cr_Remainder = filled + remainder\<rparr>
            else \<lparr>cr_Matches = matches, cr_Disposition = DispRest, cr_Filled = filled, cr_Remainder = 0\<rparr>
        | TIME_IN_FORCE_IOC \<Rightarrow>
            \<lparr>cr_Matches = matches, cr_Disposition = DispCancelRemainder, cr_Filled = filled, cr_Remainder = remainder\<rparr>
        | _ \<Rightarrow>
            if \<not> AllowPartial incoming \<and> remainder \<noteq> 0
            then \<lparr>cr_Matches = [], cr_Disposition = DispRest, cr_Filled = 0, cr_Remainder = filled + remainder\<rparr>
            else \<lparr>cr_Matches = matches, cr_Disposition = DispRest, cr_Filled = filled, cr_Remainder = remainder\<rparr>))
       (walk bk incoming)"

section \<open>Match kinds\<close>

definition BothCovenant :: "match \<Rightarrow> bool" where
  "BothCovenant m \<longleftrightarrow> mt_RestingCovenant m \<noteq> None \<and> mt_IncomingCovenant m \<noteq> None"

definition CrossRail :: "match \<Rightarrow> bool" where
  "CrossRail m \<longleftrightarrow>
     (let covs = (if mt_RestingCovenant m \<noteq> None then 1 else 0) + (if mt_IncomingCovenant m \<noteq> None then 1 else (0 :: nat));
          lns = (if mt_RestingLightning m \<noteq> None then 1 else 0) + (if mt_IncomingLightning m \<noteq> None then 1 else (0 :: nat))
      in covs = 1 \<and> lns = 1)"

definition BridgeCovenant :: "match \<Rightarrow> covenant_terms option \<times> bool" where
  "BridgeCovenant m =
     (if \<not> CrossRail m then (None, False)
      else if mt_RestingCovenant m \<noteq> None then (mt_RestingCovenant m, True)
      else (mt_IncomingCovenant m, False))"

definition BridgeLightning :: "match \<Rightarrow> lightning_terms option" where
  "BridgeLightning m =
     (if \<not> CrossRail m then None
      else if mt_RestingLightning m \<noteq> None then mt_RestingLightning m
      else mt_IncomingLightning m)"

section \<open>Prices\<close>

lemma fillQuote_covenant:
  assumes "GetCovenant ofr = Some cov"
  shows "fillQuote ofr n =
    (if ct_RateDen cov = 0 then 0
     else if ceil_div (unat n * unat (ct_RateNum cov)) (unat (ct_RateDen cov)) < 18446744073709551616
     then of_nat (ceil_div (unat n * unat (ct_RateNum cov)) (unat (ct_RateDen cov))) else 0)"
proof -
  have "unat (ct_RateDen cov - 1) = unat (ct_RateDen cov) - 1" if "ct_RateDen cov \<noteq> 0"
    using that by (simp add: unat_minus_one)
  with assms show ?thesis by (simp add: fillQuote_def ceil_div_def Let_def)
qed

lemma fillQuote_nonzero:
  assumes "GetCovenant ofr = Some cov" "fillQuote ofr n = q" "q \<noteq> 0"
  shows "ct_RateDen cov \<noteq> 0" "unat q = ceil_div (unat n * unat (ct_RateNum cov)) (unat (ct_RateDen cov))"
  using assms by (auto simp: fillQuote_covenant u64_unat_of_nat split: if_splits)

section \<open>Candidate order\<close>

lemma candidates_Some:
  assumes "candidates bk incoming = Some c"
  shows "mset c = mset (filter (eligible incoming) (bk_SnapshotPairEntries bk (Pair incoming) (Confidential incoming)))"
    "sorted (map (priority (TradeDir incoming = TRADE_DIR_BUY)) c)"
  using assms by (auto simp: candidates_def Let_def split: if_splits)

lemma candidates_eligible: "candidates bk incoming = Some c \<Longrightarrow> e \<in> set c \<Longrightarrow> eligible incoming e"
  by (auto simp: candidates_def Let_def split: if_splits)

lemma eligible_covenant: "eligible incoming e \<Longrightarrow> \<exists>cov. GetCovenant (e_Offer e) = Some cov"
  by (auto simp: eligible_def hasSettlementOwner_def)

section \<open>Fills\<close>

text \<open>What the walk may take from a resting covenant order.\<close>

definition valid_fill :: "u64 \<Rightarrow> entry \<Rightarrow> u64 \<Rightarrow> u64 \<Rightarrow> bool" where
  "valid_fill rem e n q \<longleftrightarrow>
     0 < n \<and> n \<le> rem \<and> n \<le> e_ActiveAmount e \<and> (n < e_ActiveAmount e \<longrightarrow> AllowPartial (e_Offer e)) \<and>
     q \<noteq> 0 \<and> q = fillQuote (e_Offer e) n \<and>
     (\<forall>cov. GetCovenant (e_Offer e) = Some cov \<longrightarrow>
        ct_MinLot cov \<le> n \<and> (n = e_ActiveAmount e \<or> ct_MinLot cov \<le> e_ActiveAmount e - n))"

lemma fill_of_valid:
  assumes "fill_of rem e = Some (n, q)" "rem \<noteq> 0"
  shows "valid_fill rem e n q"
proof -
  let ?a = "e_ActiveAmount e"
  have base: "?a \<noteq> 0" using assms(1) by (auto simp: fill_of_def Let_def)
  define f where "f = (if rem < ?a then rem else ?a)"
  have f: "f \<noteq> 0" "f \<le> rem" "f \<le> ?a" using base assms(2) by (auto simp: f_def not_less)
  have q: "q \<noteq> 0" "q = fillQuote (e_Offer e) n" and ap: "f < ?a \<longrightarrow> AllowPartial (e_Offer e)"
    using assms(1) by (auto simp: fill_of_def Let_def f_def split: if_splits option.splits)
  show ?thesis
  proof (cases "GetCovenant (e_Offer e)")
    case None
    then have "n = f" using assms(1) by (auto simp: fill_of_def Let_def f_def split: if_splits option.splits)
    with f q ap None show ?thesis by (simp add: valid_fill_def word_gt_0)
  next
    case (Some cov)
    let ?ml = "ct_MinLot cov"
    from Some assms(1) have "\<not> f < ?ml" and
      cases: "(n = f \<and> \<not> (?a - f \<noteq> 0 \<and> ?a - f < ?ml)) \<or>
              (n = ?a - ?ml \<and> ?a - f \<noteq> 0 \<and> ?a - f < ?ml \<and> ?ml \<le> ?a \<and> ?a - ?ml \<le> rem \<and> \<not> n < ?ml)"
      by (auto simp: fill_of_def Let_def f_def split: if_splits)
    from cases show ?thesis
    proof
      assume "n = f \<and> \<not> (?a - f \<noteq> 0 \<and> ?a - f < ?ml)"
      with f q ap Some \<open>\<not> f < ?ml\<close> show ?thesis by (auto simp: valid_fill_def word_gt_0)
    next
      assume trim: "n = ?a - ?ml \<and> ?a - f \<noteq> 0 \<and> ?a - f < ?ml \<and> ?ml \<le> ?a \<and> ?a - ?ml \<le> rem \<and> \<not> n < ?ml"
      then have "?ml \<noteq> 0" by auto
      have n: "unat n = unat ?a - unat ?ml" using trim u64_unat_diff [of ?ml ?a] by simp
      have "f < ?a" using trim f by (metis order_le_imp_less_or_eq right_minus_eq)
      moreover have "n \<le> ?a" "?a - n = ?ml" using trim n by (auto simp: u64_le)
      moreover have "n \<noteq> 0" using trim \<open>?ml \<noteq> 0\<close> by (auto simp: word_gt_0)
      ultimately show ?thesis using q ap Some trim by (auto simp: valid_fill_def word_gt_0)
    qed
  qed
qed

text \<open>The planned fills, read left to right, each valid for what is left, with the final remainder.\<close>

fun fills_ok :: "u64 \<Rightarrow> (entry \<times> u64 \<times> u64) list \<Rightarrow> u64 \<Rightarrow> bool" where
  "fills_ok rem [] rem' \<longleftrightarrow> rem' = rem"
| "fills_ok rem ((e, n, q) # ps) rem' \<longleftrightarrow> valid_fill rem e n q \<and> fills_ok (rem - n) ps rem'"

lemma plan_fills_ok: "plan_fills es rem = (ps, rem') \<Longrightarrow> fills_ok rem ps rem'"
proof (induction es arbitrary: rem ps rem')
  case (Cons e es)
  show ?case
  proof (cases "rem = 0 \<or> fill_of rem e = None")
    case True
    with Cons show ?thesis by (auto split: if_splits)
  next
    case False
    then obtain n q where f: "fill_of rem e = Some (n, q)" by auto
    obtain ps' r where p: "plan_fills es (rem - n) = (ps', r)" by fastforce
    from Cons.prems False f p have "ps = (e, n, q) # ps'" "rem' = r" by auto
    with Cons.IH [OF p] fill_of_valid [OF f] False show ?thesis by simp
  qed
qed simp

lemma fills_ok_sum:
  "fills_ok rem ps rem' \<Longrightarrow> sum_list (map (\<lambda>(e, n, q). unat n) ps) + unat rem' = unat rem"
proof (induction ps arbitrary: rem)
  case (Cons p ps)
  obtain e n q where p: "p = (e, n, q)" by (cases p)
  from Cons.prems p have "n \<le> rem" by (simp add: valid_fill_def)
  then have "unat (rem - n) + unat n = unat rem" using u64_unat_diff [of n rem] by (simp add: u64_le)
  with Cons.IH [of "rem - n"] Cons.prems p show ?case by simp
qed simp

lemma plan_fills_valid:
  "fills_ok rem ps rem' \<Longrightarrow> (e, n, q) \<in> set ps \<Longrightarrow> \<exists>r. r \<le> rem \<and> valid_fill r e n q"
proof (induction ps arbitrary: rem)
  case (Cons p ps)
  obtain e1 n1 q1 where p: "p = (e1, n1, q1)" by (cases p)
  from Cons.prems p have le: "n1 \<le> rem" by (simp add: valid_fill_def)
  then have "rem - n1 \<le> rem" by (rule word_sub_le)
  with Cons p show ?case by (auto intro: order_trans)
qed simp

lemma plan_fills_subseq: "plan_fills es rem = (ps, rem') \<Longrightarrow> set (map fst ps) \<subseteq> set es \<and> (distinct es \<longrightarrow> distinct (map fst ps))"
proof (induction es arbitrary: rem ps)
  case (Cons e es)
  then show ?case
    by (fastforce split: if_splits option.splits prod.splits)
qed simp

lemma foldl_fill_sum:
  "unat acc + sum_list (map (\<lambda>mt. unat (mt_FillBase mt)) ms) < 18446744073709551616 \<Longrightarrow>
   unat (foldl (\<lambda>acc mt. acc + mt_FillBase mt) acc ms) = unat acc + sum_list (map (\<lambda>mt. unat (mt_FillBase mt)) ms)"
proof (induction ms arbitrary: acc)
  case (Cons m ms)
  then have "unat (acc + mt_FillBase m) = unat acc + unat (mt_FillBase m)" by (intro u64_unat_add) simp
  with Cons show ?case by simp
qed simp

section \<open>The walk on any book\<close>

lemma walk_cases:
  assumes "walk bk incoming = Some (ms, rem)"
  obtains (absent) "bk_Get bk (keyOf incoming) = None" "ms = []" "rem = 0"
  | (resting) ie c ps where "bk_Get bk (keyOf incoming) = Some ie" "e_ActiveAmount ie = 0 \<Longrightarrow> ms = [] \<and> rem = 0"
      "e_ActiveAmount ie \<noteq> 0 \<Longrightarrow> candidates bk incoming = Some c" "e_ActiveAmount ie \<noteq> 0 \<Longrightarrow> plan_fills c (e_ActiveAmount ie) = (ps, rem)"
      "e_ActiveAmount ie \<noteq> 0 \<Longrightarrow> ms = map (match_of incoming) ps"
proof (cases "bk_Get bk (keyOf incoming)")
  case None
  with assms absent show thesis by (simp add: walk_def)
next
  case (Some ie)
  show thesis
  proof (cases "e_ActiveAmount ie = 0")
    case True
    with assms Some resting show thesis by (simp add: walk_def)
  next
    case False
    with assms Some obtain c where c: "candidates bk incoming = Some c"
      by (auto simp: walk_def Let_def split: option.splits)
    obtain ps r where p: "plan_fills c (e_ActiveAmount ie) = (ps, r)" by fastforce
    from assms Some False c p have "ms = map (match_of incoming) ps" "rem = r"
      by (auto simp: walk_def Let_def split: if_splits)
    with resting Some False c p show thesis by blast
  qed
qed

lemma match_of_simps [simp]:
  "mt_FillBase (match_of incoming (e, n, q)) = n" "mt_FillQuote (match_of incoming (e, n, q)) = q"
  "mt_Resting (match_of incoming (e, n, q)) = e_Offer e" "mt_RestingKey (match_of incoming (e, n, q)) = keyOf (e_Offer e)"
  "mt_Incoming (match_of incoming (e, n, q)) = incoming" "mt_IncomingCovenant (match_of incoming (e, n, q)) = GetCovenant incoming"
  "mt_RestingCovenant (match_of incoming (e, n, q)) = GetCovenant (e_Offer e)"
  "mt_RestingLightning (match_of incoming (e, n, q)) = GetLightning (e_Offer e)"
  "mt_IncomingLightning (match_of incoming (e, n, q)) = GetLightning incoming"
  "mt_RestingLocked (match_of incoming (e, n, q)) = (case GetCovenant (e_Offer e) of None \<Rightarrow> 0 | Some _ \<Rightarrow> e_ActiveAmount e)"
  "mt_IncomingKey (match_of incoming (e, n, q)) = keyOf incoming" "mt_Pair (match_of incoming (e, n, q)) = Pair incoming"
  by (simp_all add: match_of_def)

lemma walk_matches:
  assumes "walk bk incoming = Some (ms, rem)" "m \<in> set ms"
  obtains e n q r where "m = match_of incoming (e, n, q)" "eligible incoming e" "valid_fill r e n q"
    "e \<in> set (bk_SnapshotPairEntries bk (Pair incoming) (Confidential incoming))"
  using assms(1)
proof (cases rule: walk_cases)
  case absent
  with assms(2) show thesis by simp
next
  case (resting ie c ps)
  with assms(2) have nz: "e_ActiveAmount ie \<noteq> 0" by auto
  with resting assms(2) obtain e n q where m: "m = match_of incoming (e, n, q)" "(e, n, q) \<in> set ps" by auto
  have "e \<in> set c" using plan_fills_subseq [OF resting(4) [OF nz]] m(2) by force
  then have "eligible incoming e" "e \<in> set (bk_SnapshotPairEntries bk (Pair incoming) (Confidential incoming))"
    using resting(3) [OF nz] by (auto simp: candidates_def Let_def split: if_splits)
  moreover obtain r where "valid_fill r e n q"
    using plan_fills_valid [OF plan_fills_ok [OF resting(4) [OF nz]] m(2)] by blast
  ultimately show thesis using that m(1) by blast
qed

lemma walk_conserves:
  assumes "walk bk incoming = Some (ms, rem)" "bk_Get bk (keyOf incoming) = Some ie"
  shows "sum_list (map (\<lambda>m. unat (mt_FillBase m)) ms) + unat rem = unat (e_ActiveAmount ie)"
  using assms(1)
proof (cases rule: walk_cases)
  case (resting ie' c ps)
  with assms(2) have [simp]: "ie' = ie" by simp
  show ?thesis
  proof (cases "e_ActiveAmount ie = 0")
    case False
    with resting have ok: "fills_ok (e_ActiveAmount ie) ps rem" and ms: "ms = map (match_of incoming) ps"
      using plan_fills_ok by auto
    have "map (\<lambda>m. unat (mt_FillBase m)) ms = map (\<lambda>(e, n, q). unat n) ps" by (auto simp: ms)
    with fills_ok_sum [OF ok] show ?thesis by simp
  qed (use resting in auto)
qed (use assms in simp)

lemma walk_filled:
  assumes "walk bk incoming = Some (ms, rem)" "bk_Get bk (keyOf incoming) = Some ie"
  shows "unat (foldl (\<lambda>acc mt. acc + mt_FillBase mt) 0 ms) + unat rem = unat (e_ActiveAmount ie)"
    "foldl (\<lambda>acc mt. acc + mt_FillBase mt) 0 ms + rem = e_ActiveAmount ie"
proof -
  note sum = walk_conserves [OF assms]
  have "unat (0 :: u64) + sum_list (map (\<lambda>mt. unat (mt_FillBase mt)) ms) < 18446744073709551616"
    using sum unat_u64_less [of "e_ActiveAmount ie"] by simp
  from foldl_fill_sum [OF this] sum
  show *: "unat (foldl (\<lambda>acc mt. acc + mt_FillBase mt) 0 ms) + unat rem = unat (e_ActiveAmount ie)" by simp
  then have "unat (foldl (\<lambda>acc mt. acc + mt_FillBase mt) 0 ms + rem) = unat (e_ActiveAmount ie)"
    using unat_u64_less [of "e_ActiveAmount ie"] by (subst u64_unat_add) simp_all
  then show "foldl (\<lambda>acc mt. acc + mt_FillBase mt) 0 ms + rem = e_ActiveAmount ie"
    by (simp add: u64_eq)
qed

text \<open>Fills come in candidate order: price first, then age.\<close>

lemma plan_fills_sorted:
  "plan_fills es rem = (ps, rem') \<Longrightarrow> sorted (map f es) \<Longrightarrow> sorted (map f (map fst ps))"
proof (induction es arbitrary: rem ps rem')
  case (Cons e es)
  show ?case
  proof (cases "rem = 0 \<or> fill_of rem e = None")
    case True
    with Cons show ?thesis by (auto split: if_splits)
  next
    case False
    then obtain n q where f: "fill_of rem e = Some (n, q)" by auto
    obtain ps' r where p: "plan_fills es (rem - n) = (ps', r)" by fastforce
    from Cons.prems False f p have ps: "ps = (e, n, q) # ps'" by auto
    with Cons.IH [OF p] Cons.prems(2) plan_fills_subseq [OF p] show ?thesis by (auto simp: subset_iff)
  qed
qed simp

text \<open>
  A resting order that fits whole into what finally remains is never passed over.
\<close>

lemma fill_of_whole:
  assumes "e_ActiveAmount e \<le> rem" "e_ActiveAmount e \<noteq> 0" "fillQuote (e_Offer e) (e_ActiveAmount e) \<noteq> 0"
    "\<And>cov. GetCovenant (e_Offer e) = Some cov \<Longrightarrow> ct_MinLot cov \<le> e_ActiveAmount e"
  shows "fill_of rem e = Some (e_ActiveAmount e, fillQuote (e_Offer e) (e_ActiveAmount e))"
proof -
  have "\<not> rem < e_ActiveAmount e" using assms(1) by simp
  with assms show ?thesis
    by (cases "GetCovenant (e_Offer e)") (auto simp: fill_of_def Let_def leD)
qed

lemma plan_fills_le: "plan_fills es rem = (ps, rem') \<Longrightarrow> rem' \<le> rem"
  using fills_ok_sum [OF plan_fills_ok] by (fastforce simp: u64_le)

lemma plan_fills_complete:
  assumes "plan_fills es rem = (ps, rem')" "e \<in> set es" "e_ActiveAmount e \<le> rem'" "e_ActiveAmount e \<noteq> 0"
    "fillQuote (e_Offer e) (e_ActiveAmount e) \<noteq> 0"
    "\<And>cov. GetCovenant (e_Offer e) = Some cov \<Longrightarrow> ct_MinLot cov \<le> e_ActiveAmount e"
  shows "(e, e_ActiveAmount e, fillQuote (e_Offer e) (e_ActiveAmount e)) \<in> set ps"
  using assms(1-3)
proof (induction es arbitrary: rem ps)
  case (Cons x es)
  have "rem \<noteq> 0"
    using plan_fills_le [OF Cons.prems(1)] Cons.prems(3) assms(4) by (auto simp: u64_le u64_eq)
  show ?case
  proof (cases "fill_of rem x")
    case None
    have "e_ActiveAmount e \<le> rem" using plan_fills_le [OF Cons.prems(1)] Cons.prems(3) by (rule order_trans [rotated])
    from fill_of_whole [OF this assms(4-6)] None have "x \<noteq> e" by auto
    with None \<open>rem \<noteq> 0\<close> Cons show ?thesis by auto
  next
    case (Some nq)
    obtain n q where nq: "nq = (n, q)" by (cases nq)
    obtain ps' r where p: "plan_fills es (rem - n) = (ps', r)" by fastforce
    from Cons.prems Some nq p \<open>rem \<noteq> 0\<close> have ps: "ps = (x, n, q) # ps'" "rem' = r" by auto
    show ?thesis
    proof (cases "x = e")
      case True
      have "e_ActiveAmount e \<le> rem" using plan_fills_le [OF Cons.prems(1)] Cons.prems(3) by (rule order_trans [rotated])
      from fill_of_whole [OF this assms(4-6)] Some nq True ps show ?thesis by auto
    next
      case False
      with Cons.IH [of "rem - n" ps'] p ps Cons.prems show ?thesis by simp
    qed
  qed
qed simp

section \<open>The interface of the book\<close>

text \<open>
  What the matcher relies on: a snapshot lists live entries of one namespace, each once and as \<open>Get\<close> returns it, with no more on
  offer than its base amount.
\<close>

locale snapshot_book =
  fixes bk_of :: "'s \<Rightarrow> book" and inv :: "'s \<Rightarrow> bool"
  assumes snapshot_get: "inv s \<Longrightarrow> e \<in> set (bk_SnapshotPairEntries (bk_of s) p c) \<Longrightarrow> bk_Get (bk_of s) (keyOf (e_Offer e)) = Some e"
    and snapshot_namespace: "inv s \<Longrightarrow> e \<in> set (bk_SnapshotPairEntries (bk_of s) p c) \<Longrightarrow> Confidential (e_Offer e) = c"
    and snapshot_distinct: "inv s \<Longrightarrow> distinct (map (\<lambda>e. keyOf (e_Offer e)) (bk_SnapshotPairEntries (bk_of s) p c))"
    and snapshot_bound: "inv s \<Longrightarrow> e \<in> set (bk_SnapshotPairEntries (bk_of s) p c) \<Longrightarrow> e_ActiveAmount e \<le> BaseAmount (e_Offer e)"
begin

lemma resting_keys_distinct:
  assumes "inv s" "walk (bk_of s) incoming = Some (ms, rem)"
  shows "distinct (map mt_RestingKey ms)"
  using assms(2)
proof (cases rule: walk_cases)
  case (resting ie c ps)
  show ?thesis
  proof (cases "e_ActiveAmount ie = 0")
    case False
    let ?key = "\<lambda>e. keyOf (e_Offer e)" and ?snap = "bk_SnapshotPairEntries (bk_of s) (Pair incoming) (Confidential incoming)"
    have "mset c = mset (filter (eligible incoming) ?snap)"
      using candidates_Some(1) [OF resting(3) [OF False]] .
    then have c: "distinct (map ?key c)" "set c \<subseteq> set ?snap"
      using snapshot_distinct [OF assms(1), of "Pair incoming" "Confidential incoming"]
      by (metis distinct_map_filter mset_eq_imp_distinct_iff mset_map)
        (metis \<open>mset c = mset (filter (eligible incoming) ?snap)\<close> filter_is_subset mset_eq_setD)
    have "distinct (map fst ps)" "set (map fst ps) \<subseteq> set c"
      using plan_fills_subseq [OF resting(4) [OF False]] c(1) by (auto simp: distinct_map)
    then have "distinct (map ?key (map fst ps))"
      using c(1) by (metis distinct_map inj_on_subset)
    moreover have "map mt_RestingKey ms = map ?key (map fst ps)"
      using resting(5) [OF False] by (auto simp: match_of_def)
    ultimately show ?thesis by metis
  qed (use resting in auto)
qed simp

lemma match_from_snapshot:
  assumes "inv s" "walk (bk_of s) incoming = Some (ms, rem)" "m \<in> set ms"
  shows "\<exists>e. e \<in> set (bk_SnapshotPairEntries (bk_of s) (Pair incoming) (Confidential incoming)) \<and>
      bk_Get (bk_of s) (mt_RestingKey m) = Some e \<and> mt_Resting m = e_Offer e \<and>
      mt_RestingKey m \<noteq> keyOf incoming \<and> Confidential (e_Offer e) = Confidential incoming \<and> 0 < mt_FillBase m \<and> mt_FillBase m \<le> e_ActiveAmount e \<and>
      e_ActiveAmount e \<le> BaseAmount (e_Offer e) \<and> mt_RestingLocked m = e_ActiveAmount e"
proof -
  from walk_matches [OF assms(2,3)] obtain e n q r where
    m: "m = match_of incoming (e, n, q)" "eligible incoming e" "valid_fill r e n q"
    "e \<in> set (bk_SnapshotPairEntries (bk_of s) (Pair incoming) (Confidential incoming))" by blast
  from eligible_covenant [OF m(2)] obtain cov where "GetCovenant (e_Offer e) = Some cov" by blast
  then show ?thesis
    using m snapshot_get [OF assms(1) m(4)] snapshot_namespace [OF assms(1) m(4)] snapshot_bound [OF assms(1) m(4)]
    by (auto simp: valid_fill_def eligible_def)
qed

end

text \<open>Where the pair index is exact as well, the entries are of the pair that was asked for.\<close>

locale matchable_book = snapshot_book +
  assumes snapshot_pair: "inv s \<Longrightarrow> e \<in> set (bk_SnapshotPairEntries (bk_of s) p c) \<Longrightarrow> pairKey (Pair (e_Offer e)) = pairKey p"
begin

lemma match_is_live:
  assumes "inv s" "walk (bk_of s) incoming = Some (ms, rem)" "m \<in> set ms"
  shows "\<exists>e. bk_Get (bk_of s) (mt_RestingKey m) = Some e \<and> mt_Resting m = e_Offer e \<and>
      mt_RestingKey m \<noteq> keyOf incoming \<and> pairKey (Pair (e_Offer e)) = pairKey (Pair incoming) \<and>
      Confidential (e_Offer e) = Confidential incoming \<and> 0 < mt_FillBase m \<and> mt_FillBase m \<le> e_ActiveAmount e \<and>
      e_ActiveAmount e \<le> BaseAmount (e_Offer e) \<and> mt_RestingLocked m = e_ActiveAmount e"
  using match_from_snapshot [OF assms] snapshot_pair [OF assms(1)] by blast

end

lemma SnapshotPairEntries_mem:
  "e \<in> set (SnapshotPairEntries p c s) \<longleftrightarrow>
     (\<exists>k. k \<in> set (gomap_get [] (pairs s) (pairKey p)) \<and> map_of (entries s) k = Some e \<and> Confidential (e_Offer e) = c)"
  by (auto simp: SnapshotPairEntries_def List.map_filter_def split: option.splits if_splits) force+

lemma SnapshotPairEntries_distinct:
  assumes "book_ok cr s"
  shows "distinct (map (\<lambda>e. keyOf (e_Offer e)) (SnapshotPairEntries p c s))"
proof -
  let ?f = "\<lambda>k. case map_of (entries s) k of
      Some e \<Rightarrow> if Confidential (e_Offer e) = c then Some e else None | None \<Rightarrow> None"
  have key: "keyOf (e_Offer e) = k" if "?f k = Some e" for k e
    using that book_okD(3) [OF assms] by (auto simp: entry_ok_def split: option.splits if_splits)
  have "map (\<lambda>e. keyOf (e_Offer e)) (List.map_filter ?f ks) = filter (\<lambda>k. ?f k \<noteq> None) ks" for ks
    using key by (induction ks) (auto simp: List.map_filter_simps)
  then show ?thesis
    using bucket_distinct [OF assms] by (simp add: SnapshotPairEntries_def)
qed

interpretation book: snapshot_book store_book "book_ok cr" for cr
proof (unfold_locales, goal_cases)
  case (1 s e p c)
  then show ?case
    by (auto simp: store_book_def SnapshotPairEntries_mem Get_def entry_ok_def dest: book_okD(3))
next
  case (2 s e p c)
  then show ?case by (auto simp: store_book_def SnapshotPairEntries_mem)
next
  case (3 s p c)
  then show ?case using SnapshotPairEntries_distinct by (auto simp: store_book_def)
next
  case (4 s e p c)
  then show ?case
    by (auto simp: store_book_def SnapshotPairEntries_mem entry_ok_def dest: book_okD(3))
qed

interpretation store: matchable_book store_book "\<lambda>s. book_ok cr s \<and> index_exact s" for cr
proof (unfold_locales, goal_cases)
  case (5 s e p c)
  then show ?case
    by (force simp: store_book_def SnapshotPairEntries_mem index_exact_def)
qed (metis book.snapshot_get book.snapshot_namespace book.snapshot_distinct book.snapshot_bound)+

section \<open>Determinism\<close>

text \<open>
  The snapshot comes in the unspecified order of a Go map. When no two eligible orders tie on price
  and time, that order does not influence the outcome.
\<close>

lemma candidates_perm:
  assumes "mset (bk_SnapshotPairEntries bk' (Pair incoming) (Confidential incoming)) =
      mset (bk_SnapshotPairEntries bk (Pair incoming) (Confidential incoming))"
    "inj_on (priority (TradeDir incoming = TRADE_DIR_BUY))
       (set (filter (eligible incoming) (bk_SnapshotPairEntries bk (Pair incoming) (Confidential incoming))))"
  shows "candidates bk' incoming = candidates bk incoming"
proof -
  define xs where "xs = filter (eligible incoming) (bk_SnapshotPairEntries bk (Pair incoming) (Confidential incoming))"
  define ys where "ys = filter (eligible incoming) (bk_SnapshotPairEntries bk' (Pair incoming) (Confidential incoming))"
  have m: "mset ys = mset xs" using assms(1) by (simp add: xs_def ys_def)
  then have "length ys = length xs" "set ys = set xs" by (auto dest: mset_eq_length mset_eq_setD)
  moreover have "sort_key (priority b) ys = sort_key (priority b) xs" if "b = (TradeDir incoming = TRADE_DIR_BUY)" for b
    by (rule sort_key_inj_key_eq) (use m that assms(2) \<open>set ys = set xs\<close> in \<open>auto simp: xs_def\<close>)
  ultimately show ?thesis
    unfolding candidates_def xs_def [symmetric] ys_def [symmetric] Let_def by (simp add: list_all_iff)
qed

lemma walk_perm:
  assumes "\<And>k. bk_Get bk' k = bk_Get bk k" "candidates bk' incoming = candidates bk incoming"
  shows "walk bk' incoming = walk bk incoming"
  using assms by (cases "bk_Get bk (keyOf incoming)") (simp_all add: walk_def Let_def)

end
