(* ===== verification/Covenant.thy ===== *)
theory Covenant
  imports Offer_Model
begin

text \<open>
  The covenant package (\<open>pkg/covenant\<close>): the FILL and REFUND tapscript builders of \<open>leaf.go\<close>, the
  taproot derivation and 64-bit price arithmetic of \<open>order.go\<close>, the single-input fill plan of
  \<open>plan.go\<close> and the two-covenant joint settlement of \<open>settle.go\<close>. A 32-byte array is a byte list of
  length 32 (\<open>order_ok\<close> states the lengths).
\<close>

unbundle bit_operations_syntax

section \<open>Script building (leaf.go)\<close>

definition op0 :: byte where "op0 = 0x00"
definition op1 :: byte where "op1 = 0x51"
definition opIf :: byte where "opIf = 0x63"
definition opElse :: byte where "opElse = 0x67"
definition opEndif :: byte where "opEndif = 0x68"
definition opVerify :: byte where "opVerify = 0x69"
definition opDrop :: byte where "opDrop = 0x75"
definition opDup :: byte where "opDup = 0x76"
definition opNip :: byte where "opNip = 0x77"
definition opRot :: byte where "opRot = 0x7b"
definition opSwap :: byte where "opSwap = 0x7c"
definition opEqual :: byte where "opEqual = 0x87"
definition opEqualVerify :: byte where "opEqualVerify = 0x88"
definition op1Add :: byte where "op1Add = 0x8b"
definition opAdd :: byte where "opAdd = 0x93"
definition opLessThan :: byte where "opLessThan = 0x9f"
definition opChecksig :: byte where "opChecksig = 0xac"
definition opCheckLockTimeVerify :: byte where "opCheckLockTimeVerify = 0xb1"
definition opInspectInputValue :: byte where "opInspectInputValue = 0xc9"
definition opInspectInputScriptPubkey :: byte where "opInspectInputScriptPubkey = 0xca"
definition opPushCurrentInputIndex :: byte where "opPushCurrentInputIndex = 0xcd"
definition opInspectOutputAsset :: byte where "opInspectOutputAsset = 0xce"
definition opInspectOutputValue :: byte where "opInspectOutputValue = 0xcf"
definition opInspectOutputScriptPubkey :: byte where "opInspectOutputScriptPubkey = 0xd1"
definition opInspectNumOutputs :: byte where "opInspectNumOutputs = 0xd5"
definition opAdd64 :: byte where "opAdd64 = 0xd7"
definition opSub64 :: byte where "opSub64 = 0xd8"
definition opMul64 :: byte where "opMul64 = 0xd9"
definition opDiv64 :: byte where "opDiv64 = 0xda"
definition opGreaterThanOrEqual64 :: byte where "opGreaterThanOrEqual64 = 0xdf"

definition leafVersion :: byte where "leafVersion = 0xc4"

definition creditIdx :: bytes where "creditIdx = [opPushCurrentInputIndex, opDup, opAdd]"
definition remIdx :: bytes where "remIdx = [opPushCurrentInputIndex, opDup, opAdd, op1Add]"

text \<open>
  The script builder's methods append to one byte slice; here each method is the bytes it appends.
\<close>

definition push :: "bytes \<Rightarrow> bytes" where
  "push d =
     (let n = length d in
      (if n < 0x4c then [of_nat n]
       else if n \<le> 0xff then [0x4c, of_nat n]
       else if n \<le> 0xffff then [0x4d, of_nat n, of_nat (n div 2 ^ 8)]
       else [0x4e, of_nat n, of_nat (n div 2 ^ 8), of_nat (n div 2 ^ 16), of_nat (n div 2 ^ 24)]) @ d)"

fun le_bytes :: "nat \<Rightarrow> bytes" where
  "le_bytes av = (if av = 0 then [] else of_nat (av mod 256) # le_bytes (av div 256))"

declare le_bytes.simps [simp del]

text \<open>
  \<open>uint64(-v)\<close> of a negative 64-bit \<open>v\<close> is its magnitude, also at the least value.
\<close>

definition bn2vch :: "int \<Rightarrow> bytes" where
  "bn2vch v =
     (if v = 0 then []
      else
        (let neg = v < 0; out = le_bytes (nat \<bar>v\<bar>) in
         if last out AND 0x80 \<noteq> 0 then out @ (if neg then [0x80] else [0x00])
         else if neg then butlast out @ [last out OR 0x80]
         else out))"

definition pushNum :: "int \<Rightarrow> bytes" where
  "pushNum n =
     (if n = 0 then [op0]
      else if 1 \<le> n \<and> n \<le> 16 then [op1 + of_int (n - 1)]
      else if n = -1 then [0x4f]
      else push (bn2vch n))"

definition le8 :: "u64 \<Rightarrow> bytes" where
  "le8 n = map (\<lambda>i. ucast (drop_bit (8 * i) n)) [0, 1, 2, 3, 4, 5, 6, 7]"

datatype cov_error =
  LeafConstants | MakerVersion | MakerProgLength | NegativeExpiry | BadInternalKey | TweakOverflow
  | NonNumsKey | SpkMismatch | RateZero | ArithmeticOverflow | FillOutOfRange | FillBelowMinLot
  | RemainderBelowMinLot | NotCounterpartiesA | NotCounterpartiesB | UnderpaysMaker0 | UnderpaysMaker1
  | CreditAlias | SlotReused | GapIsSoldAsset

text \<open>The opcode sequence of the FILL leaf.\<close>

definition fill_leaf_script :: "bytes \<Rightarrow> bytes \<Rightarrow> u64 \<Rightarrow> u64 \<Rightarrow> u64 \<Rightarrow> bytes \<Rightarrow> bytes" where
  "fill_leaf_script assetA assetB rateNum rateDen minLot makerProg = concat
       [[opPushCurrentInputIndex, opInspectInputValue],
        [op1, opEqualVerify],
        remIdx,
        [opInspectNumOutputs, opLessThan],
        [opIf],
          remIdx,
          [opInspectOutputAsset],
          [op1, opEqualVerify],
          push assetA,
          [opEqual],
          [opIf],
            remIdx,
            [opInspectOutputScriptPubkey],
            [opPushCurrentInputIndex, opInspectInputScriptPubkey],
            [opRot, opEqualVerify, opEqualVerify],
            remIdx,
            [opInspectOutputValue, op1, opEqualVerify],
            [opDup],
            push (le8 minLot),
            [opGreaterThanOrEqual64, opVerify],
          [opElse],
            push (le8 0),
          [opEndif],
        [opElse],
          push (le8 0),
        [opEndif],
        [opSub64, opVerify],
        [opDup],
        push (le8 minLot),
        [opGreaterThanOrEqual64, opVerify],
        push (le8 rateNum),
        [opMul64, opVerify],
        push (le8 (rateDen - 1)),
        [opAdd64, opVerify],
        push (le8 rateDen),
        [opDiv64, opVerify, opNip],
        creditIdx,
        [opInspectOutputAsset, op1, opEqualVerify],
        push assetB,
        [opEqualVerify],
        creditIdx,
        [opInspectOutputScriptPubkey, op1, opEqualVerify],
        push makerProg,
        [opEqualVerify],
        creditIdx,
        [opInspectOutputValue, op1, opEqualVerify],
        [opSwap, opGreaterThanOrEqual64]]"

definition BuildFillLeaf ::
  "bytes \<Rightarrow> bytes \<Rightarrow> u64 \<Rightarrow> u64 \<Rightarrow> u64 \<Rightarrow> bytes \<Rightarrow> int \<Rightarrow> (cov_error, bytes) result" where
  "BuildFillLeaf assetA assetB rateNum rateDen minLot makerProg makerVer =
     (if rateNum < 1 \<or> rateDen < 1 \<or> minLot < 1 then Inl LeafConstants
      else if makerVer \<noteq> 1 then Inl MakerVersion
      else if length makerProg \<noteq> 32 then Inl MakerProgLength
      else Inr (fill_leaf_script assetA assetB rateNum rateDen minLot makerProg))"

definition BuildRefundLeaf :: "int \<Rightarrow> bytes \<Rightarrow> (cov_error, bytes) result" where
  "BuildRefundLeaf expiryLocktime makerX =
     (if expiryLocktime < 0 then Inl NegativeExpiry
      else Inr (concat
        [pushNum expiryLocktime, [opCheckLockTimeVerify, opDrop], push makerX, [opChecksig]]))"

section \<open>Tagged hashes and the output key (leaf.go)\<close>

definition taggedHash :: "crypto \<Rightarrow> string \<Rightarrow> bytes list \<Rightarrow> bytes" where
  "taggedHash cr tag data =
     (let th = sha256_Sum256 cr (string_bytes tag) in sha256_Sum256 cr (th @ th @ concat data))"

definition compactSize :: "nat \<Rightarrow> bytes" where
  "compactSize n =
     (if n < 0xfd then [of_nat n]
      else if n \<le> 0xffff then [0xfd, of_nat n, of_nat (n div 2 ^ 8)]
      else if n \<le> 0xffffffff then [0xfe, of_nat n, of_nat (n div 2 ^ 8), of_nat (n div 2 ^ 16), of_nat (n div 2 ^ 24)]
      else 0xff # le8 (of_nat n))"

definition serString :: "bytes \<Rightarrow> bytes" where
  "serString b = compactSize (length b) @ b"

definition LeafHash :: "crypto \<Rightarrow> bytes \<Rightarrow> bytes" where
  "LeafHash cr script = taggedHash cr ''TapLeaf/elements'' [[leafVersion], serString script]"

definition mustHex32 :: "string \<Rightarrow> bytes option" where
  "mustHex32 s = (if length s \<noteq> 64 then None else hex_DecodeString s)"

definition NUMS :: bytes where
  "NUMS =
     [0x50, 0x92, 0x9b, 0x74, 0xc1, 0xa0, 0x49, 0x54, 0xb7, 0x8b, 0x4b, 0x60, 0x35, 0xe9, 0x7a, 0x5e,
      0x07, 0x8a, 0x5a, 0x0f, 0x28, 0xec, 0x96, 0xd5, 0x47, 0xbf, 0xee, 0x9a, 0xce, 0x80, 0x3a, 0xc0]"

lemma NUMS_hex: "mustHex32 ''50929b74c1a04954b78b4b6035e97a5e078a5a0f28ec96d547bfee9ace803ac0'' = Some NUMS"
  by (simp add: mustHex32_def NUMS_def from_hex_char_def)

text \<open>Big-endian 32-byte scalars and coordinates.\<close>

definition be_nat :: "bytes \<Rightarrow> nat" where
  "be_nat bs = foldl (\<lambda>acc b. 256 * acc + unat b) 0 bs"

definition be32 :: "nat \<Rightarrow> bytes" where
  "be32 n = map (\<lambda>i. of_nat (n div 256 ^ (31 - i))) [0..<32]"

definition tweakOutputKey :: "crypto \<Rightarrow> bytes \<Rightarrow> bytes \<Rightarrow> (cov_error, bytes \<times> byte) result" where
  "tweakOutputKey cr internalX merkleRoot =
     (case schnorr_ParsePubKey cr internalX of
        None \<Rightarrow> Inl BadInternalKey
      | Some ip \<Rightarrow>
          (let t = be_nat (taggedHash cr ''TapTweak/elements'' [internalX, merkleRoot]) in
           if secp256k1_N \<le> t then Inl TweakOverflow
           else (case AddPoints cr (ScalarBaseMult cr t) ip of
                   PubKey x y \<Rightarrow> Inr (be32 x, if odd y then 1 else 0))))"

section \<open>Orders and their taproot commitment (order.go)\<close>

record order =
  AssetA :: bytes
  AssetB :: bytes
  RateNum :: u64
  RateDen :: u64
  MakerProg :: bytes
  MakerVer :: int
  MinLot :: u64
  ExpiryLocktime :: int
  MakerX :: bytes
  InternalKey :: bytes

record taptree =
  tt_FillLeaf :: bytes
  tt_RefundLeaf :: bytes
  tt_FillLeafHash :: bytes
  tt_RefundLeafHash :: bytes
  tt_MerkleRoot :: bytes
  tt_FillMerkleBranch :: bytes
  tt_OutputKey :: bytes
  tt_Negflag :: byte
  tt_ScriptPubKey :: bytes

definition order_ok :: "order \<Rightarrow> bool" where
  "order_ok ord \<longleftrightarrow>
     length (AssetA ord) = 32 \<and> length (AssetB ord) = 32 \<and> length (MakerX ord) = 32 \<and> length (InternalKey ord) = 32"

definition DefaultOrder :: "bytes \<Rightarrow> bytes \<Rightarrow> u64 \<Rightarrow> u64 \<Rightarrow> u64 \<Rightarrow> bytes \<Rightarrow> int \<Rightarrow> bytes \<Rightarrow> order" where
  "DefaultOrder assetA assetB rateNum rateDen minLot makerProg expiry makerX =
     \<lparr>AssetA = assetA, AssetB = assetB, RateNum = rateNum, RateDen = rateDen, MakerProg = makerProg,
      MakerVer = 1, MinLot = minLot, ExpiryLocktime = expiry, MakerX = makerX, InternalKey = NUMS\<rparr>"

text \<open>\<open>bytes.Compare(a, b) < 0\<close>.\<close>

fun bytes_less :: "bytes \<Rightarrow> bytes \<Rightarrow> bool" where
  "bytes_less [] ys = (ys \<noteq> [])"
| "bytes_less (x # xs) [] = False"
| "bytes_less (x # xs) (y # ys) = (x < y \<or> x = y \<and> bytes_less xs ys)"

definition Derive :: "crypto \<Rightarrow> order \<Rightarrow> (cov_error, taptree) result" where
  "Derive cr ord =
     (let ord = (if InternalKey ord = replicate 32 0 then ord\<lparr>InternalKey := NUMS\<rparr> else ord) in
      rbind (BuildFillLeaf (AssetA ord) (AssetB ord) (RateNum ord) (RateDen ord) (MinLot ord)
               (MakerProg ord) (MakerVer ord)) (\<lambda>fill.
      rbind (BuildRefundLeaf (ExpiryLocktime ord) (MakerX ord)) (\<lambda>refund.
      (let fillH = LeafHash cr fill;
           refundH = LeafHash cr refund;
           (lo, hi) = (if bytes_less refundH fillH then (refundH, fillH) else (fillH, refundH));
           root = taggedHash cr ''TapBranch/elements'' [lo, hi]
       in rbind (tweakOutputKey cr (InternalKey ord) root) (\<lambda>(outKey, neg).
          Inr \<lparr>tt_FillLeaf = fill, tt_RefundLeaf = refund, tt_FillLeafHash = fillH, tt_RefundLeafHash = refundH,
               tt_MerkleRoot = root, tt_FillMerkleBranch = refundH, tt_OutputKey = outKey, tt_Negflag = neg,
               tt_ScriptPubKey = [op1, 0x20] @ outKey\<rparr>)))))"

definition ControlBlock :: "taptree \<Rightarrow> bytes \<Rightarrow> bytes" where
  "ControlBlock tt internalKey = [leafVersion + tt_Negflag tt] @ internalKey @ tt_FillMerkleBranch tt"

definition FillWitness :: "taptree \<Rightarrow> bytes \<Rightarrow> bytes list" where
  "FillWitness tt internalKey = [tt_FillLeaf tt, ControlBlock tt internalKey]"

definition VerifyAgainstSPK :: "crypto \<Rightarrow> order \<Rightarrow> bytes \<Rightarrow> bool \<Rightarrow> (cov_error, taptree) result" where
  "VerifyAgainstSPK cr ord onchainSPK makerCancellableOK =
     (if \<not> makerCancellableOK \<and> InternalKey ord \<noteq> NUMS then Inl NonNumsKey
      else rbind (Derive cr ord) (\<lambda>tt.
           if tt_ScriptPubKey tt \<noteq> onchainSPK then Inl SpkMismatch else Inr tt))"

section \<open>Price arithmetic (order.go)\<close>

text \<open>\<open>math/bits\<close>: the 128-bit product, addition with carry, and the 128 by 64 quotient
  (\<open>bits.Div64\<close> panics unless \<open>hi < y\<close>, which its one call guards).\<close>

definition bits_Mul64 :: "u64 \<Rightarrow> u64 \<Rightarrow> u64 \<times> u64" where
  "bits_Mul64 x y = (of_nat (unat x * unat y div 2 ^ 64), x * y)"

definition bits_Add64 :: "u64 \<Rightarrow> u64 \<Rightarrow> u64 \<Rightarrow> u64 \<times> u64" where
  "bits_Add64 x y c = (x + y + c, if 2 ^ 64 \<le> unat x + unat y + unat c then 1 else 0)"

definition bits_Div64 :: "u64 \<Rightarrow> u64 \<Rightarrow> u64 \<Rightarrow> u64 \<times> u64" where
  "bits_Div64 hi lo y =
     (let n = unat hi * 2 ^ 64 + unat lo in (of_nat (n div unat y), of_nat (n mod unat y)))"

definition CeilPrice :: "u64 \<Rightarrow> u64 \<Rightarrow> u64 \<Rightarrow> u64" where
  "CeilPrice filled rateNum rateDen =
     (let (hi, lo) = bits_Mul64 filled rateNum;
          (lo, carry) = bits_Add64 lo (rateDen - 1) 0;
          hi = hi + carry
      in if rateDen \<le> hi then MaxUint64 else fst (bits_Div64 hi lo rateDen))"

definition MaxLeafProduct :: u64 where
  "MaxLeafProduct = 9223372036854775807"

definition CheckArithmetic :: "order \<Rightarrow> u64 \<Rightarrow> (cov_error, unit) result" where
  "CheckArithmetic ord locked =
     (if RateNum ord < 1 \<or> RateDen ord < 1 then Inl RateZero
      else
        (let (hi, lo) = bits_Mul64 locked (RateNum ord);
             (lo, carry) = bits_Add64 lo (RateDen ord - 1) 0;
             hi = hi + carry
         in if hi \<noteq> 0 \<or> MaxLeafProduct < lo then Inl ArithmeticOverflow else Inr ()))"

section \<open>Fill plans (plan.go)\<close>

record fill_plan =
  fp_InputIndex :: u32
  fp_CreditIndex :: u32
  fp_RemainderIndex :: u32
  fp_Filled :: u64
  fp_Remainder :: u64
  fp_RequiredB :: u64
  fp_Partial :: bool
  fp_FillLeaf :: bytes
  fp_ControlBlock :: bytes
  fp_OrderSPK :: bytes
  fp_Taptree :: taptree

definition fp_Witness :: "fill_plan \<Rightarrow> bytes list" where
  "fp_Witness p = [fp_FillLeaf p, fp_ControlBlock p]"

definition PlanFill :: "crypto \<Rightarrow> order \<Rightarrow> u64 \<Rightarrow> u64 \<Rightarrow> u32 \<Rightarrow> (cov_error, fill_plan) result" where
  "PlanFill cr ord locked filled k =
     (if filled = 0 \<or> locked < filled then Inl FillOutOfRange
      else if filled < MinLot ord then Inl FillBelowMinLot
      else
        (let remainder = locked - filled in
         if remainder \<noteq> 0 \<and> remainder < MinLot ord then Inl RemainderBelowMinLot
         else
           rbind (CheckArithmetic ord locked) (\<lambda>_.
           rbind (Derive cr ord) (\<lambda>tap.
           Inr \<lparr>fp_InputIndex = k, fp_CreditIndex = 2 * k, fp_RemainderIndex = 2 * k + 1,
                fp_Filled = filled, fp_Remainder = remainder,
                fp_RequiredB = CeilPrice filled (RateNum ord) (RateDen ord),
                fp_Partial = (remainder \<noteq> 0), fp_FillLeaf = tt_FillLeaf tap,
                fp_ControlBlock = ControlBlock tap (InternalKey ord),
                fp_OrderSPK = tt_ScriptPubKey tap, fp_Taptree = tap\<rparr>))))"

definition PlanJointFill ::
  "crypto \<Rightarrow> order \<Rightarrow> u64 \<Rightarrow> u64 \<Rightarrow> order \<Rightarrow> u64 \<Rightarrow> u64 \<Rightarrow> (cov_error, fill_plan \<times> fill_plan) result" where
  "PlanJointFill cr orderA lockedA fillA orderB lockedB fillB =
     rbind (PlanFill cr orderA lockedA fillA 0) (\<lambda>pa.
     rbind (PlanFill cr orderB lockedB fillB 1) (\<lambda>pb. Inr (pa, pb)))"

section \<open>Joint settlement (settle.go)\<close>

record cov_leg =
  leg_InputIndex :: u32
  leg_CreditIndex :: u32
  leg_CreditAsset :: bytes
  leg_CreditSPK :: bytes
  leg_CreditValue :: u64
  leg_CreditFloor :: u64
  leg_RemainderIndex :: u32
  leg_Partial :: bool
  leg_Remainder :: u64
  leg_RemainderAsset :: bytes
  leg_OrderSPK :: bytes
  leg_FillLeaf :: bytes
  leg_ControlBlock :: bytes

record joint_settlement =
  Leg0 :: cov_leg
  Leg1 :: cov_leg
  GapSlots :: "u32 list"
  MinOutputs :: u32

definition leg_Witness :: "cov_leg \<Rightarrow> bytes list" where
  "leg_Witness l = [leg_FillLeaf l, leg_ControlBlock l]"

definition makerCreditSPK :: "order \<Rightarrow> (cov_error, bytes) result" where
  "makerCreditSPK ord =
     (if MakerVer ord \<noteq> 1 \<or> length (MakerProg ord) \<noteq> 32 then Inl MakerVersion
      else Inr ([op1, 0x20] @ MakerProg ord))"

text \<open>One leg of the joint transaction, from its order, its plan, its payout script and the atoms
  the other covenant delivers.\<close>

definition mk_leg :: "order \<Rightarrow> fill_plan \<Rightarrow> bytes \<Rightarrow> u64 \<Rightarrow> cov_leg" where
  "mk_leg ord p spk credit =
     \<lparr>leg_InputIndex = fp_InputIndex p, leg_CreditIndex = fp_CreditIndex p, leg_CreditAsset = AssetB ord,
      leg_CreditSPK = spk, leg_CreditValue = credit, leg_CreditFloor = fp_RequiredB p,
      leg_RemainderIndex = fp_RemainderIndex p, leg_Partial = fp_Partial p, leg_Remainder = fp_Remainder p,
      leg_RemainderAsset = AssetA ord, leg_OrderSPK = fp_OrderSPK p, leg_FillLeaf = fp_FillLeaf p,
      leg_ControlBlock = fp_ControlBlock p\<rparr>"

definition PlanJointSettlement ::
  "crypto \<Rightarrow> order \<Rightarrow> u64 \<Rightarrow> u64 \<Rightarrow> order \<Rightarrow> u64 \<Rightarrow> u64 \<Rightarrow> (cov_error, joint_settlement) result" where
  "PlanJointSettlement cr orderA lockedA fillA orderB lockedB fillB =
     (if AssetA orderA \<noteq> AssetB orderB then Inl NotCounterpartiesA
      else if AssetB orderA \<noteq> AssetA orderB then Inl NotCounterpartiesB
      else
        rbind (PlanJointFill cr orderA lockedA fillA orderB lockedB fillB) (\<lambda>(jpA, jpB).
        if fillB < fp_RequiredB jpA then Inl UnderpaysMaker0
        else if fillA < fp_RequiredB jpB then Inl UnderpaysMaker1
        else
          rbind (makerCreditSPK orderA) (\<lambda>spk0.
          rbind (makerCreditSPK orderB) (\<lambda>spk1.
          (let leg0 = mk_leg orderA jpA spk0 fillB;
               leg1 = mk_leg orderB jpB spk1 fillA;
               slots = [leg_CreditIndex leg0, leg_RemainderIndex leg0, leg_CreditIndex leg1, leg_RemainderIndex leg1]
           in if leg_CreditIndex leg0 = leg_CreditIndex leg1 then Inl CreditAlias
              else if \<not> distinct slots then Inl SlotReused
              else Inr \<lparr>Leg0 = leg0, Leg1 = leg1,
                        GapSlots = (if \<not> leg_Partial leg0 then [leg_RemainderIndex leg0] else []) @
                                   (if \<not> leg_Partial leg1 then [leg_RemainderIndex leg1] else []),
                        MinOutputs = 4\<rparr>)))))"

definition GapAsset :: "cov_leg \<Rightarrow> bytes \<Rightarrow> (cov_error, unit) result" where
  "GapAsset l asset = (if asset = leg_RemainderAsset l then Inl GapIsSoldAsset else Inr ())"

section \<open>Exactness of the price arithmetic\<close>


lemma unat_bits_Mul64:
  assumes "bits_Mul64 x y = (hi, lo)"
  shows "unat hi * 2 ^ 64 + unat lo = unat x * unat y" "unat hi < 2 ^ 64 - 1"
proof -
  let ?p = "unat x * unat y"
  have "?p \<le> (2 ^ 64 - 1) * (2 ^ 64 - 1)" using unat_u64_le [of x] unat_u64_le [of y] by (intro mult_le_mono) simp_all
  then have hi: "?p div 2 ^ 64 < 2 ^ 64 - 1" by (simp add: less_mult_imp_div_less)
  from assms have h: "hi = of_nat (?p div 2 ^ 64)" and l: "lo = x * y"
    by (simp_all add: bits_Mul64_def)
  have "unat hi = ?p div 2 ^ 64" unfolding h using hi by (intro u64_unat_of_nat) simp
  moreover have "unat lo = ?p mod 2 ^ 64" unfolding l by (simp add: unat_word_ariths)
  ultimately show "unat hi * 2 ^ 64 + unat lo = ?p" "unat hi < 2 ^ 64 - 1" using hi by simp_all
qed

lemma unat_bits_Add64:
  assumes "bits_Add64 x y 0 = (s, c)"
  shows "unat c * 2 ^ 64 + unat s = unat x + unat y" "unat c \<le> 1"
proof -
  have s: "unat s = (unat x + unat y) mod 2 ^ 64" and c: "c = (if 2 ^ 64 \<le> unat x + unat y then 1 else 0)"
    using assms by (auto simp: bits_Add64_def unat_word_ariths)
  have "unat x + unat y < 2 * 2 ^ 64" using unat_u64_less [of x] unat_u64_less [of y] by simp
  then show "unat c * 2 ^ 64 + unat s = unat x + unat y" "unat c \<le> 1"
    using s c by (cases "2 ^ 64 \<le> unat x + unat y"; simp add: le_mod_geq)+
qed

text \<open>The two-word accumulator of the price code is the exact natural number.\<close>

lemma mul_add_128:
  assumes "bits_Mul64 x y = (hi, lo)" "bits_Add64 lo z 0 = (lo', c)"
  shows "unat (hi + c) * 2 ^ 64 + unat lo' = unat x * unat y + unat z"
proof -
  have "unat (hi + c) = unat hi + unat c"
    using unat_bits_Mul64(2) [OF assms(1)] unat_bits_Add64(2) [OF assms(2)]
    by (intro u64_unat_add) simp
  then show ?thesis
    using unat_bits_Mul64(1) [OF assms(1)] unat_bits_Add64(1) [OF assms(2)]
    by (simp add: algebra_simps)
qed

lemma unat_pred: "(d :: u64) \<noteq> 0 \<Longrightarrow> unat (d - 1) = unat d - 1"
  by (rule unat_minus_one)

lemma CeilPrice_exact:
  assumes d: "d \<noteq> 0"
  shows "unat (CeilPrice f n d) =
    (if ceil_div (unat f * unat n) (unat d) < 2 ^ 64 then ceil_div (unat f * unat n) (unat d) else 2 ^ 64 - 1)"
proof -
  obtain hi lo where m: "bits_Mul64 f n = (hi, lo)" by fastforce
  obtain lo' c where a: "bits_Add64 lo (d - 1) 0 = (lo', c)" by fastforce
  define P where "P = unat f * unat n + (unat d - 1)"
  have eq: "unat (hi + c) * 2 ^ 64 + unat lo' = P"
    using mul_add_128 [OF m a] d by (simp add: unat_pred P_def)
  have d0: "0 < unat d" using d by (simp add: unat_u64_pos)
  have cp: "CeilPrice f n d = (if d \<le> hi + c then MaxUint64 else fst (bits_Div64 (hi + c) lo' d))"
    by (simp add: CeilPrice_def m a)
  show ?thesis
  proof (cases "d \<le> hi + c")
    case True
    then have "unat d * 2 ^ 64 \<le> P" using eq by (simp add: word_le_nat_alt)
    then have "2 ^ 64 \<le> P div unat d"
      using d0 by (simp add: less_eq_div_iff_mult_less_eq mult.commute)
    then show ?thesis using True by (simp add: cp ceil_div_def P_def unat_MaxUint64)
  next
    case False
    then have lt: "unat (hi + c) < unat d" by (simp add: word_le_nat_alt)
    have "P < unat d * 2 ^ 64"
    proof -
      have "P < Suc (unat (hi + c)) * 2 ^ 64"
        using eq unat_u64_less [of lo'] by simp
      also have "\<dots> \<le> unat d * 2 ^ 64" using lt by (intro mult_le_mono1) simp
      finally show ?thesis .
    qed
    then have q: "P div unat d < 2 ^ 64" by (simp add: less_mult_imp_div_less mult.commute)
    have "unat (fst (bits_Div64 (hi + c) lo' d)) = P div unat d"
      unfolding bits_Div64_def Let_def eq fst_conv using q by (intro u64_unat_of_nat) simp
    then show ?thesis using False q by (simp add: cp ceil_div_def P_def)
  qed
qed

lemma CheckArithmetic_iff:
  "CheckArithmetic ord locked = Inr () \<longleftrightarrow>
     1 \<le> unat (RateNum ord) \<and> 1 \<le> unat (RateDen ord) \<and>
     unat locked * unat (RateNum ord) + unat (RateDen ord) - 1 \<le> 2 ^ 63 - 1"
proof (cases "RateNum ord < 1 \<or> RateDen ord < 1")
  case True
  then show ?thesis by (auto simp: CheckArithmetic_def word_less_nat_alt)
next
  case False
  then have nz: "RateDen ord \<noteq> 0" "RateNum ord \<noteq> 0" by auto
  then have ge: "1 \<le> unat (RateDen ord)" "1 \<le> unat (RateNum ord)"
    using unat_u64_pos by (simp_all add: Suc_le_eq)
  obtain hi lo where m: "bits_Mul64 locked (RateNum ord) = (hi, lo)" by fastforce
  obtain lo' c where a: "bits_Add64 lo (RateDen ord - 1) 0 = (lo', c)" by fastforce
  have eq: "unat (hi + c) * 2 ^ 64 + unat lo' = unat locked * unat (RateNum ord) + unat (RateDen ord) - 1"
    using mul_add_128 [OF m a] nz ge by (simp add: unat_pred)
  have "CheckArithmetic ord locked = Inr () \<longleftrightarrow> hi + c = 0 \<and> unat lo' \<le> 2 ^ 63 - 1"
    using False by (auto simp add: CheckArithmetic_def m a MaxLeafProduct_def word_less_nat_alt not_less)
  also have "\<dots> \<longleftrightarrow> unat (hi + c) * 2 ^ 64 + unat lo' \<le> 2 ^ 63 - 1"
  proof (cases "hi + c = 0")
    case False
    then have "1 \<le> unat (hi + c)" using unat_u64_pos [of "hi + c"] by linarith
    then have "2 ^ 64 \<le> unat (hi + c) * 2 ^ 64" by simp
    then have "\<not> unat (hi + c) * 2 ^ 64 + unat lo' \<le> 2 ^ 63 - 1" by simp
    with False show ?thesis by blast
  qed simp
  finally show ?thesis using eq ge by simp
qed

lemma bit_le8: "i < 64 \<Longrightarrow> bit (le8 n ! (i div 8)) (i mod 8) = bit n i"
proof -
  assume i: "i < 64"
  then have "i div 8 < 8" by auto
  then have nth: "le8 n ! (i div 8) = ucast (drop_bit (8 * (i div 8)) n)"
    by (auto simp: le8_def nth_Cons split: nat.splits)
  show ?thesis unfolding nth
    by (simp add: bit_simps)
qed

lemma le8_inject: "le8 a = le8 b \<longleftrightarrow> a = b"
proof
  assume eq: "le8 a = le8 b"
  show "a = b"
  proof (rule bit_word_eqI)
    fix i assume "i < LENGTH(64)"
    then have i: "i < 64" by simp
    then show "bit a i = bit b i" using bit_le8 [OF i, of a] bit_le8 [OF i, of b] eq by simp
  qed
qed simp

lemma le8_length [simp]: "length (le8 n) = 8"
  by (simp add: le8_def)

lemma push_short: "length d < 76 \<Longrightarrow> push d = of_nat (length d) # d"
  by (simp add: push_def)

lemma BuildFillLeaf_ok_iff:
  "(\<exists>lf. BuildFillLeaf a b rn rd ml mp mv = Inr lf) \<longleftrightarrow> 1 \<le> rn \<and> 1 \<le> rd \<and> 1 \<le> ml \<and> mv = 1 \<and> length mp = 32"
  by (auto simp: BuildFillLeaf_def word_le_nat_alt word_less_nat_alt not_less)

lemma BuildFillLeaf_inject:
  assumes "BuildFillLeaf a b rn rd ml mp mv = Inr lf" "BuildFillLeaf a' b' rn' rd' ml' mp' mv' = Inr lf"
    and "length a = 32" "length a' = 32" "length b = 32" "length b' = 32"
  shows "a = a' \<and> b = b' \<and> rn = rn' \<and> rd = rd' \<and> ml = ml' \<and> mp = mp' \<and> mv = mv'"
  using assms
  by (auto simp: BuildFillLeaf_def fill_leaf_script_def push_short le8_inject split: if_splits)


lemma CheckArithmetic_leaf_price:
  assumes "CheckArithmetic ord locked = Inr ()" "filled \<le> locked"
  shows "unat (CeilPrice filled (RateNum ord) (RateDen ord)) = ceil_div (unat filled * unat (RateNum ord)) (unat (RateDen ord))"
    and "unat filled * unat (RateNum ord) + (unat (RateDen ord) - 1) < 2 ^ 63"
proof -
  from assms(1) have rd: "1 \<le> unat (RateDen ord)"
    and le: "unat locked * unat (RateNum ord) + unat (RateDen ord) - 1 \<le> 2 ^ 63 - 1"
    by (simp_all add: CheckArithmetic_iff)
  have "unat filled * unat (RateNum ord) \<le> unat locked * unat (RateNum ord)"
    using assms(2) by (simp add: word_le_nat_alt)
  then have "unat filled * unat (RateNum ord) + (unat (RateDen ord) - 1) \<le> 2 ^ 63 - 1"
    using le rd by linarith
  then show lt: "unat filled * unat (RateNum ord) + (unat (RateDen ord) - 1) < 2 ^ 63" by simp
  then have "ceil_div (unat filled * unat (RateNum ord)) (unat (RateDen ord)) < 2 ^ 64"
    unfolding ceil_div_def by (intro le_less_trans [OF div_le_dividend]) simp
  moreover from rd have "RateDen ord \<noteq> 0" by auto
  ultimately show "unat (CeilPrice filled (RateNum ord) (RateDen ord)) = ceil_div (unat filled * unat (RateNum ord)) (unat (RateDen ord))"
    by (simp add: CeilPrice_exact)
qed

lemma PlanFill_Inr:
  "PlanFill cr ord locked filled k = Inr p \<longleftrightarrow>
     filled \<noteq> 0 \<and> filled \<le> locked \<and> MinLot ord \<le> filled \<and>
     (locked - filled = 0 \<or> MinLot ord \<le> locked - filled) \<and>
     CheckArithmetic ord locked = Inr () \<and>
     (\<exists>tap. Derive cr ord = Inr tap \<and>
        p = \<lparr>fp_InputIndex = k, fp_CreditIndex = 2 * k, fp_RemainderIndex = 2 * k + 1,
                fp_Filled = filled, fp_Remainder = locked - filled,
                fp_RequiredB = CeilPrice filled (RateNum ord) (RateDen ord),
                fp_Partial = (locked - filled \<noteq> 0), fp_FillLeaf = tt_FillLeaf tap,
                fp_ControlBlock = ControlBlock tap (InternalKey ord),
                fp_OrderSPK = tt_ScriptPubKey tap, fp_Taptree = tap\<rparr>)"
  by (auto simp: PlanFill_def Let_def rbind_eq_Inr not_less)

lemma PlanFill_total:
  assumes "PlanFill cr ord locked filled k = Inr p"
  shows "unat (fp_Filled p) + unat (fp_Remainder p) = unat locked"
  using assms by (auto simp: PlanFill_Inr u64_unat_diff) (auto simp: word_le_nat_alt)

lemma PlanFill_floor:
  assumes "PlanFill cr ord locked filled k = Inr p"
  shows "unat (fp_RequiredB p) = ceil_div (unat filled * unat (RateNum ord)) (unat (RateDen ord))"
  using assms CheckArithmetic_leaf_price(1) [of ord locked filled] by (auto simp: PlanFill_Inr)

lemma PlanFill_fields:
  assumes "PlanFill cr ord locked filled k = Inr p"
  shows "fp_InputIndex p = k" "fp_CreditIndex p = 2 * k" "fp_RemainderIndex p = 2 * k + 1"
    "fp_Filled p = filled" "fp_Remainder p = locked - filled" "fp_Partial p \<longleftrightarrow> filled \<noteq> locked"
  using assms by (auto simp: PlanFill_Inr)

lemma PlanJointSettlement_Inr:
  "PlanJointSettlement cr oA lA fA oB lB fB = Inr js \<longleftrightarrow>
     AssetA oA = AssetB oB \<and> AssetB oA = AssetA oB \<and>
     (\<exists>pA pB. PlanFill cr oA lA fA 0 = Inr pA \<and> PlanFill cr oB lB fB 1 = Inr pB \<and>
        fp_RequiredB pA \<le> fB \<and> fp_RequiredB pB \<le> fA \<and>
        MakerVer oA = 1 \<and> length (MakerProg oA) = 32 \<and> MakerVer oB = 1 \<and> length (MakerProg oB) = 32 \<and>
        js = \<lparr>Leg0 = mk_leg oA pA ([op1, 0x20] @ MakerProg oA) fB, Leg1 = mk_leg oB pB ([op1, 0x20] @ MakerProg oB) fA,
              GapSlots = (if fA = lA then [1] else []) @ (if fB = lB then [3] else []), MinOutputs = 4\<rparr>)"
  (is "?L \<longleftrightarrow> ?R")
proof
  assume ?L
  then show ?R
    by (auto simp: PlanJointSettlement_def PlanJointFill_def makerCreditSPK_def rbind_eq_Inr Let_def mk_leg_def
        PlanFill_fields not_less split: if_splits)
next
  assume ?R
  then show ?L
    by (auto simp: PlanJointSettlement_def PlanJointFill_def makerCreditSPK_def Let_def mk_leg_def
        PlanFill_fields not_less)
qed

text \<open>The errors each planner can return; the aliasing checks of the joint plan never fire.\<close>

lemma BuildFillLeaf_err:
  "BuildFillLeaf a b rn rd ml mp mv = Inl e \<Longrightarrow> e \<in> {LeafConstants, MakerVersion, MakerProgLength}"
  by (simp add: BuildFillLeaf_def split: if_splits)

lemma tweakOutputKey_err: "tweakOutputKey cr k r = Inl e \<Longrightarrow> e \<in> {BadInternalKey, TweakOverflow}"
  by (simp add: tweakOutputKey_def Let_def split: option.splits if_splits pubkey.splits)

lemma Derive_err:
  assumes "Derive cr ord = Inl e"
  shows "e \<in> {LeafConstants, MakerVersion, MakerProgLength, NegativeExpiry, BadInternalKey, TweakOverflow}"
  using assms BuildFillLeaf_err tweakOutputKey_err
  by (fastforce simp: Derive_def Let_def rbind_eq_Inl BuildRefundLeaf_def split: if_splits prod.splits)

lemma PlanFill_err:
  assumes "PlanFill cr ord l f k = Inl e"
  shows "e \<notin> {CreditAlias, SlotReused}"
  using assms Derive_err [of cr ord e]
  by (auto simp: PlanFill_def Let_def rbind_eq_Inl CheckArithmetic_def split: if_splits prod.splits)

lemma PlanJointSettlement_no_alias:
  assumes "PlanJointSettlement cr oA lA fA oB lB fB = Inl e"
  shows "e \<notin> {CreditAlias, SlotReused}"
proof (cases "PlanJointFill cr oA lA fA oB lB fB")
  case (Inl e')
  then have "e' \<notin> {CreditAlias, SlotReused}"
    by (auto simp: PlanJointFill_def rbind_eq_Inl dest: PlanFill_err)
  with assms Inl show ?thesis by (auto simp: PlanJointSettlement_def split: if_splits)
next
  case (Inr q)
  obtain pA pB where q: "q = (pA, pB)" by fastforce
  with Inr have "PlanFill cr oA lA fA 0 = Inr pA" "PlanFill cr oB lB fB 1 = Inr pB"
    by (auto simp: PlanJointFill_def)
  note f = this [THEN PlanFill_fields(2)] this [THEN PlanFill_fields(3)]
  from assms show ?thesis
    by (auto simp: PlanJointSettlement_def Inr q rbind_eq_Inl makerCreditSPK_def Let_def mk_leg_def f split: if_splits)
qed

end
