(* ===== verification/Validator.thy ===== *)
theory Validator
  imports Covenant Book_Invariant
begin

text \<open>
  The offer validator (\<open>validator/validator.go\<close>): the ordered checks every submission passes before
  it enters the book, and the per-IP and per-key sliding-window rate limits. The clock is read three
  times per submission (IP limit, expiry, key limit), so \<open>ValidateOffer\<close> takes three readings.
\<close>

section \<open>Configuration and state\<close>

record config =
  cfg_SchemaVersion :: u32
  cfg_KnownAssets :: "(string, bool) gomap"
  cfg_MinExpiry :: duration
  cfg_MaxExpiry :: duration
  cfg_MaxOffersPerMinPerPubkey :: int
  cfg_MaxOffersPerMinPerIP :: int

definition DefaultConfig :: config where
  "DefaultConfig =
     \<lparr>cfg_SchemaVersion = 1, cfg_KnownAssets = [], cfg_MinExpiry = 30 * Second, cfg_MaxExpiry = 7 * 24 * Hour,
      cfg_MaxOffersPerMinPerPubkey = 60, cfg_MaxOffersPerMinPerIP = 120\<rparr>"

datatype val_error =
    ErrIPRate | ErrOfferTooLarge | ErrPubkeyCase | ErrOfferSig sig_error | ErrSchemaVersion
  | ErrPairAssets | ErrSameAssets | ErrAmounts | ErrOfferWantMissing
  | ErrSellAssets | ErrSellAmount | ErrBuyAssets | ErrBuyAmount | ErrTradeDir | ErrMinFill | ErrUnknownAsset
  | ErrConfRail | ErrConfTerms | ErrConfBTC | ErrConfNoBlind | ErrConfBlindHex | ErrConfBlindKey | ErrConfAddress
  | ErrXcOneBTC | ErrXcQuoteBTC | ErrXcSentinel | ErrXcKeyHex | ErrXcKey | ErrXcLocktime | ErrXcDirection | ErrXcDirMismatch
  | ErrLnBase | ErrLnQuote | ErrLnSame | ErrLnKey | ErrLnDirection | ErrLnDirMismatch | ErrLnNodeMissing
  | ErrLnNodeHex | ErrLnNodeKey
  | ErrCovTxid | ErrCovAsset | ErrCovMakerProg | ErrCovMakerX | ErrCovInternalKey | ErrCovExpiry | ErrCovRate
  | ErrCovMinLot | ErrCovSide | ErrCovMinLotLocked | ErrCovPrice | ErrCovArithmetic cov_error | ErrCovAssetA | ErrCovAssetB
  | ErrExpMissing | ErrExpired | ErrExpTooSoon | ErrExpTooFar
  | ErrReplay | ErrPubkeyRate | ErrLiveness

text \<open>The zero \<open>time.Time\<close> (year 1), the initial \<open>lastSweep\<close>.\<close>

definition zero_time :: time where
  "zero_time = - 62135596800 * Second"

record validator =
  v_cfg :: config
  v_probe :: "offer \<Rightarrow> bool"
  v_pubHits :: "(string, time list) gomap"
  v_ipHits :: "(string, time list) gomap"
  v_lastSweep :: time

definition NoopLivenessProbe :: "offer \<Rightarrow> bool" where
  "NoopLivenessProbe ofr = True"

definition NewValidator :: "config \<Rightarrow> (offer \<Rightarrow> bool) option \<Rightarrow> validator" where
  "NewValidator cfg probe =
     \<lparr>v_cfg = (if cfg_SchemaVersion cfg = 0 then cfg\<lparr>cfg_SchemaVersion := 1\<rparr> else cfg),
      v_probe = (case probe of None \<Rightarrow> NoopLivenessProbe | Some p \<Rightarrow> p),
      v_pubHits = [], v_ipHits = [], v_lastSweep = zero_time\<rparr>"

section \<open>Rate limits\<close>

text \<open>
  \<open>prune\<close> filters into the slice it reads (\<open>hits[:0]\<close>), so it also rewrites the caller's array:
  the survivors move to the front and the tail keeps its old contents. \<open>prune_in_place\<close> is what a
  slice of the original length holds afterwards.
\<close>

definition prune :: "time list \<Rightarrow> time \<Rightarrow> time list" where
  "prune hits cutoff = filter (\<lambda>h. cutoff < h) hits"

definition prune_in_place :: "time list \<Rightarrow> time \<Rightarrow> time list" where
  "prune_in_place hits cutoff = (let out = prune hits cutoff in out @ drop (length out) hits)"

definition sweep_map :: "time \<Rightarrow> (string, time list) gomap \<Rightarrow> (string, time list) gomap" where
  "sweep_map cutoff m =
     map (\<lambda>(k, hits). (k, prune_in_place hits cutoff)) (filter (\<lambda>(k, hits). prune hits cutoff \<noteq> []) m)"

definition sweepLocked :: "time \<Rightarrow> time \<Rightarrow> validator \<Rightarrow> validator" where
  "sweepLocked now cutoff v =
     (if now - v_lastSweep v < Minute then v
      else v\<lparr>v_lastSweep := now, v_ipHits := sweep_map cutoff (v_ipHits v), v_pubHits := sweep_map cutoff (v_pubHits v)\<rparr>)"

definition charge :: "int \<Rightarrow> time \<Rightarrow> time \<Rightarrow> string \<Rightarrow> (string, time list) gomap \<Rightarrow> (string, time list) gomap \<times> bool" where
  "charge limit now cutoff k m =
     (let hits = prune (gomap_get [] m k) cutoff in
      if limit \<le> int (length hits) then (AList.update k hits m, False)
      else (AList.update k (hits @ [now]) m, True))"

definition checkIPRate :: "time \<Rightarrow> string \<Rightarrow> validator \<Rightarrow> validator \<times> (val_error, unit) result" where
  "checkIPRate now ip v =
     (if ip = '''' \<or> cfg_MaxOffersPerMinPerIP (v_cfg v) \<le> 0 then (v, Inr ())
      else
        (let cutoff = now - Minute;
             v = sweepLocked now cutoff v;
             (m, ok) = charge (cfg_MaxOffersPerMinPerIP (v_cfg v)) now cutoff ip (v_ipHits v)
         in (v\<lparr>v_ipHits := m\<rparr>, if ok then Inr () else Inl ErrIPRate)))"

definition checkPubkeyRate :: "time \<Rightarrow> string \<Rightarrow> validator \<Rightarrow> validator \<times> (val_error, unit) result" where
  "checkPubkeyRate now makerPubkey v =
     (if cfg_MaxOffersPerMinPerPubkey (v_cfg v) \<le> 0 then (v, Inr ())
      else
        (let cutoff = now - Minute;
             v = sweepLocked now cutoff v;
             (m, ok) = charge (cfg_MaxOffersPerMinPerPubkey (v_cfg v)) now cutoff makerPubkey (v_pubHits v)
         in (v\<lparr>v_pubHits := m\<rparr>, if ok then Inr () else Inl ErrPubkeyRate)))"

section \<open>Structural checks\<close>

definition MaxOfferBytes :: nat where
  "MaxOfferBytes = 16 * 1024"

definition asset32 :: "string \<Rightarrow> string option" where
  "asset32 s =
     (case hex_DecodeString s of
        None \<Rightarrow> None | Some b \<Rightarrow> if length b \<noteq> 32 then None else Some (strings_ToLower s))"

definition internalToDisplay :: "string \<Rightarrow> string option" where
  "internalToDisplay s =
     (case hex_DecodeString s of
        None \<Rightarrow> None | Some b \<Rightarrow> if length b \<noteq> 32 then None else Some (hex_EncodeToString (rev b)))"

definition covenant_asset_bad :: "offer \<Rightarrow> string \<Rightarrow> bool" where
  "covenant_asset_bad ofr a \<longleftrightarrow>
     (case hex_DecodeString a of None \<Rightarrow> True | Some b \<Rightarrow> length b \<noteq> 32 \<and> length a \<noteq> 2) \<and>
     (asset32 (OfferAsset ofr) \<noteq> None \<or> length a \<noteq> 2)"

text \<open>\<open>covenant.Order{RateNum: ..., RateDen: ...}\<close>: every other field has its zero value.\<close>

definition rate_order :: "u64 \<Rightarrow> u64 \<Rightarrow> order" where
  "rate_order num den =
     \<lparr>AssetA = replicate 32 0, AssetB = replicate 32 0, RateNum = num, RateDen = den, MakerProg = [], MakerVer = 0,
      MinLot = 0, ExpiryLocktime = 0, MakerX = replicate 32 0, InternalKey = replicate 32 0\<rparr>"

definition checkCovenant :: "offer \<Rightarrow> covenant_terms \<Rightarrow> (val_error, unit) result" where
  "checkCovenant ofr ct =
     rbind (reject_if (case hex_DecodeString (ct_CovenantTxid ct) of None \<Rightarrow> True | Some b \<Rightarrow> length b \<noteq> 32) ErrCovTxid) (\<lambda>_.
     rbind (reject_if (covenant_asset_bad ofr (ct_AssetA ct) \<or> covenant_asset_bad ofr (ct_AssetB ct)) ErrCovAsset) (\<lambda>_.
     rbind (reject_if (length (ct_MakerProg ct) \<noteq> 32 \<or> ct_MakerProgVer ct \<noteq> 1) ErrCovMakerProg) (\<lambda>_.
     rbind (reject_if (length (ct_MakerX ct) \<noteq> 32) ErrCovMakerX) (\<lambda>_.
     rbind (reject_if (length (ct_InternalKey ct) \<noteq> 0 \<and> length (ct_InternalKey ct) \<noteq> 32) ErrCovInternalKey) (\<lambda>_.
     rbind (reject_if (ct_ExpiryLocktime ct = 0) ErrCovExpiry) (\<lambda>_.
     rbind (reject_if (ct_RateNum ct < 1 \<or> ct_RateDen ct < 1) ErrCovRate) (\<lambda>_.
     rbind (reject_if (ct_MinLot ct < 1) ErrCovMinLot) (\<lambda>_.
     rbind (reject_if (TradeDir ofr \<noteq> TRADE_DIR_SELL) ErrCovSide) (\<lambda>_.
     rbind (reject_if (OfferAmount ofr < ct_MinLot ct) ErrCovMinLotLocked) (\<lambda>_.
     rbind (reject_if (unat (ct_RateNum ct) * unat (OfferAmount ofr) \<noteq> unat (ct_RateDen ct) * unat (WantAmount ofr)) ErrCovPrice) (\<lambda>_.
     rbind (case CheckArithmetic (rate_order (ct_RateNum ct) (ct_RateDen ct)) (OfferAmount ofr) of
              Inl e \<Rightarrow> Inl (ErrCovArithmetic e) | Inr _ \<Rightarrow> Inr ()) (\<lambda>_.
     rbind (reject_if (case (internalToDisplay (ct_AssetA ct), asset32 (OfferAsset ofr)) of
              (Some a, Some off) \<Rightarrow> a \<noteq> off | _ \<Rightarrow> False) ErrCovAssetA) (\<lambda>_.
     reject_if (case (internalToDisplay (ct_AssetB ct), asset32 (WantAsset ofr)) of
              (Some b, Some want) \<Rightarrow> b \<noteq> want | _ \<Rightarrow> False) ErrCovAssetB)))))))))))))"

text \<open>
  \<open>strings.TrimSpace\<close> in front of a prefix test: the leading white space of Unicode in its UTF-8
  encoding is dropped (trailing space cannot change the test).
\<close>

definition char_codes :: "string \<Rightarrow> nat list" where
  "char_codes s = map of_char s"

fun leading_space :: "nat list \<Rightarrow> nat" where
  "leading_space (a # b # c # _) =
     (if a \<in> {9, 10, 11, 12, 13, 32} then 1
      else if a = 194 \<and> b \<in> {133, 160} then 2
      else if (a = 225 \<and> b = 154 \<and> c = 128) \<or>
              (a = 226 \<and> b = 128 \<and> (128 \<le> c \<and> c \<le> 138 \<or> c \<in> {168, 169, 175})) \<or>
              (a = 226 \<and> b = 129 \<and> c = 159) \<or> (a = 227 \<and> b = 128 \<and> c = 128) then 3
      else 0)"
| "leading_space [a, b] = (if a \<in> {9, 10, 11, 12, 13, 32} then 1 else if a = 194 \<and> b \<in> {133, 160} then 2 else 0)"
| "leading_space [a] = (if a \<in> {9, 10, 11, 12, 13, 32} then 1 else 0)"
| "leading_space [] = 0"

function trim_leading :: "string \<Rightarrow> string" where
  "trim_leading s =
     (if 0 < leading_space (char_codes s) \<and> s \<noteq> [] then trim_leading (drop (leading_space (char_codes s)) s) else s)"
  by pat_completeness auto
termination
  by (relation "measure length") auto

declare trim_leading.simps [simp del]

definition HasPrefix :: "string \<Rightarrow> string \<Rightarrow> bool" where
  "HasPrefix s p \<longleftrightarrow> take (length p) s = p"

definition isBlindedAddress :: "string \<Rightarrow> bool" where
  "isBlindedAddress addr =
     (let a = strings_ToLower (trim_leading addr) in HasPrefix a ''tsqb1'' \<or> HasPrefix a ''sqb1'')"

definition checkConfidential :: "crypto \<Rightarrow> offer \<Rightarrow> (val_error, unit) result" where
  "checkConfidential cr ofr =
     rbind (reject_if (GetCrossChain ofr \<noteq> None \<or> GetLightning ofr \<noteq> None \<or> GetCovenant ofr \<noteq> None) ErrConfRail) (\<lambda>_.
     case GetSameChain ofr of
       None \<Rightarrow> Inl ErrConfTerms
     | Some sc \<Rightarrow>
         rbind (reject_if (IsBTCSentinel (GetBaseAsset (Pair ofr)) \<or> IsBTCSentinel (GetQuoteAsset (Pair ofr)) \<or>
                           IsBTCSentinel (OfferAsset ofr) \<or> IsBTCSentinel (WantAsset ofr)) ErrConfBTC) (\<lambda>_.
         rbind (reject_if (sc_MakerBlindingPub sc = '''') ErrConfNoBlind) (\<lambda>_.
         case hex_DecodeString (sc_MakerBlindingPub sc) of
           None \<Rightarrow> Inl ErrConfBlindHex
         | Some b \<Rightarrow>
             rbind (reject_if (btcec_ParsePubKey cr b = None) ErrConfBlindKey) (\<lambda>_.
             reject_if (\<not> isBlindedAddress (sc_MakerRecvAddress sc)) ErrConfAddress))))"

definition checkLightning :: "crypto \<Rightarrow> offer \<Rightarrow> lightning_terms \<Rightarrow> (val_error, unit) result" where
  "checkLightning cr ofr lt =
     (let baseBTC = IsBTCSentinel (GetBaseAsset (Pair ofr)); quoteBTC = IsBTCSentinel (GetQuoteAsset (Pair ofr)) in
      rbind (reject_if baseBTC ErrLnBase) (\<lambda>_.
      rbind (if quoteBTC then Inr ()
             else rbind (reject_if (case hex_DecodeString (GetQuoteAsset (Pair ofr)) of None \<Rightarrow> True | Some b \<Rightarrow> length b \<noteq> 32) ErrLnQuote)
                    (\<lambda>_. reject_if (GetBaseAsset (Pair ofr) = GetQuoteAsset (Pair ofr)) ErrLnSame)) (\<lambda>_.
      rbind (reject_if (btcec_ParsePubKey cr (ln_MakerClaimPub lt) = None \<or> btcec_ParsePubKey cr (ln_MakerRefundPub lt) = None) ErrLnKey) (\<lambda>_.
      rbind (reject_if (5 < ln_LnDirection lt) ErrLnDirection) (\<lambda>_.
      rbind (reject_if (\<not> LnDirectionConsistent (ln_LnDirection lt) (TradeDir ofr = TRADE_DIR_SELL)) ErrLnDirMismatch) (\<lambda>_.
      rbind (reject_if ((ln_LnDirection lt = LnBTCForAsset \<or> IsPureLN (ln_LnDirection lt)) \<and> MakerLnNodePubkey ofr = '''') ErrLnNodeMissing) (\<lambda>_.
      if MakerLnNodePubkey ofr = '''' then Inr ()
      else case hex_DecodeString (MakerLnNodePubkey ofr) of
          None \<Rightarrow> Inl ErrLnNodeHex
        | Some b \<Rightarrow> reject_if (btcec_ParsePubKey cr b = None) ErrLnNodeKey)))))))"

text \<open>One advisory key of a cross-chain offer.\<close>

definition check_xc_key :: "crypto \<Rightarrow> string \<Rightarrow> (val_error, unit) result" where
  "check_xc_key cr hexv =
     (case hex_DecodeString hexv of
        None \<Rightarrow> Inl ErrXcKeyHex | Some b \<Rightarrow> reject_if (btcec_ParsePubKey cr b = None) ErrXcKey)"

definition checkCrossChain :: "crypto \<Rightarrow> offer \<Rightarrow> cross_chain_terms \<Rightarrow> (val_error, unit) result" where
  "checkCrossChain cr ofr cc =
     (let baseBTC = IsBTCSentinel (GetBaseAsset (Pair ofr)); quoteBTC = IsBTCSentinel (GetQuoteAsset (Pair ofr)) in
      rbind (reject_if (baseBTC = quoteBTC) ErrXcOneBTC) (\<lambda>_.
      rbind (reject_if (\<not> quoteBTC) ErrXcQuoteBTC) (\<lambda>_.
      rbind (reject_if (cc_BtcSentinel cc \<noteq> BTCSentinel) ErrXcSentinel) (\<lambda>_.
      rbind (check_xc_key cr (cc_MakerClaimPub cc)) (\<lambda>_.
      rbind (check_xc_key cr (cc_MakerRefundPub cc)) (\<lambda>_.
      rbind (reject_if (cc_MakerLegLocktime cc = 0) ErrXcLocktime) (\<lambda>_.
      rbind (reject_if (1 < cc_Direction cc) ErrXcDirection) (\<lambda>_.
      reject_if (\<not> DirectionConsistent (cc_Direction cc) (TradeDir ofr = TRADE_DIR_SELL)) ErrXcDirMismatch))))))))"

definition unknown_asset :: "config \<Rightarrow> string \<Rightarrow> bool" where
  "unknown_asset cfg a \<longleftrightarrow>
     \<not> IsBTCSentinel a \<and> \<not> gomap_get False (cfg_KnownAssets cfg) (strings_ToLower a) \<and> \<not> gomap_get False (cfg_KnownAssets cfg) a"

definition check_direction :: "offer \<Rightarrow> (val_error, unit) result" where
  "check_direction ofr =
     (case TradeDir ofr of
        TRADE_DIR_SELL \<Rightarrow>
          rbind (reject_if (OfferAsset ofr \<noteq> GetBaseAsset (Pair ofr) \<or> WantAsset ofr \<noteq> GetQuoteAsset (Pair ofr)) ErrSellAssets)
            (\<lambda>_. reject_if (OfferAmount ofr \<noteq> BaseAmount ofr) ErrSellAmount)
      | TRADE_DIR_BUY \<Rightarrow>
          rbind (reject_if (OfferAsset ofr \<noteq> GetQuoteAsset (Pair ofr) \<or> WantAsset ofr \<noteq> GetBaseAsset (Pair ofr)) ErrBuyAssets)
            (\<lambda>_. reject_if (WantAmount ofr \<noteq> BaseAmount ofr) ErrBuyAmount)
      | _ \<Rightarrow> Inl ErrTradeDir)"

definition checkTerms :: "crypto \<Rightarrow> config \<Rightarrow> offer \<Rightarrow> (val_error, unit) result" where
  "checkTerms cr cfg ofr =
     (let p = Pair ofr in
      rbind (reject_if (p = None \<or> GetBaseAsset p = '''' \<or> GetQuoteAsset p = '''') ErrPairAssets) (\<lambda>_.
      rbind (reject_if (GetBaseAsset p = GetQuoteAsset p) ErrSameAssets) (\<lambda>_.
      rbind (reject_if (BaseAmount ofr = 0 \<or> OfferAmount ofr = 0 \<or> WantAmount ofr = 0) ErrAmounts) (\<lambda>_.
      rbind (reject_if (OfferAsset ofr = '''' \<or> WantAsset ofr = '''') ErrOfferWantMissing) (\<lambda>_.
      rbind (check_direction ofr) (\<lambda>_.
      rbind (reject_if (BaseAmount ofr < MinFill ofr) ErrMinFill) (\<lambda>_.
      rbind (reject_if (cfg_KnownAssets cfg \<noteq> [] \<and>
               list_ex (unknown_asset cfg) [GetBaseAsset p, GetQuoteAsset p, OfferAsset ofr, WantAsset ofr]) ErrUnknownAsset) (\<lambda>_.
      rbind (if Confidential ofr then checkConfidential cr ofr else Inr ()) (\<lambda>_.
      case GetCrossChain ofr of
        Some cc \<Rightarrow> checkCrossChain cr ofr cc
      | None \<Rightarrow>
          (case GetLightning ofr of
             Some lt \<Rightarrow> checkLightning cr ofr lt
           | None \<Rightarrow>
               (case GetCovenant ofr of Some ct \<Rightarrow> checkCovenant ofr ct | None \<Rightarrow> Inr ())))))))))))"

definition checkExpiry :: "config \<Rightarrow> time \<Rightarrow> offer \<Rightarrow> (val_error, unit) result" where
  "checkExpiry cfg now ofr =
     (let exp = ExpiresAtUnix ofr; t = time_Unix exp in
      rbind (reject_if (exp = 0) ErrExpMissing) (\<lambda>_.
      rbind (reject_if (\<not> now < t) ErrExpired) (\<lambda>_.
      rbind (reject_if (0 < cfg_MinExpiry cfg \<and> t < now + cfg_MinExpiry cfg) ErrExpTooSoon) (\<lambda>_.
      reject_if (0 < cfg_MaxExpiry cfg \<and> now + cfg_MaxExpiry cfg < t) ErrExpTooFar))))"

section \<open>The validator\<close>

text \<open>Everything between the IP limit and the key limit: no state changes.\<close>

definition check_offer ::
  "crypto \<Rightarrow> config \<Rightarrow> (string \<Rightarrow> string \<Rightarrow> bytes option) option \<Rightarrow> time \<Rightarrow> offer \<Rightarrow> (val_error, unit) result" where
  "check_offer cr cfg book now ofr =
     rbind (reject_if (MaxOfferBytes < proto_Size cr ofr) ErrOfferTooLarge) (\<lambda>_.
     rbind (reject_if (MakerPubkey ofr \<noteq> strings_ToLower (MakerPubkey ofr)) ErrPubkeyCase) (\<lambda>_.
     rbind (case VerifyOffer cr (Some ofr) of Inl e \<Rightarrow> Inl (ErrOfferSig e) | Inr _ \<Rightarrow> Inr ()) (\<lambda>_.
     rbind (reject_if (SchemaVersion ofr \<noteq> cfg_SchemaVersion cfg) ErrSchemaVersion) (\<lambda>_.
     rbind (checkTerms cr cfg ofr) (\<lambda>_.
     rbind (checkExpiry cfg now ofr) (\<lambda>_.
     reject_if (case book of
         None \<Rightarrow> False
       | Some RestingSig \<Rightarrow> (case RestingSig (MakerPubkey ofr) (OfferId ofr) of None \<Rightarrow> False | Some sig \<Rightarrow> sig = MakerSig ofr))
       ErrReplay))))))"

definition ValidateOffer ::
  "crypto \<Rightarrow> time \<times> time \<times> time \<Rightarrow> (string \<Rightarrow> string \<Rightarrow> bytes option) option \<Rightarrow> offer \<Rightarrow> string \<Rightarrow> validator
   \<Rightarrow> validator \<times> (val_error, unit) result" where
  "ValidateOffer cr clock book ofr ip v =
     (case clock of (t1, t2, t3) \<Rightarrow>
        (case checkIPRate t1 ip v of
           (v, Inl e) \<Rightarrow> (v, Inl e)
         | (v, Inr _) \<Rightarrow>
             (case check_offer cr (v_cfg v) book t2 ofr of
                Inl e \<Rightarrow> (v, Inl e)
              | Inr _ \<Rightarrow>
                  (case checkPubkeyRate t3 (MakerPubkey ofr) v of
                     (v, Inl e) \<Rightarrow> (v, Inl e)
                   | (v, Inr _) \<Rightarrow> (v, reject_if (\<not> v_probe v ofr) ErrLiveness)))))"

definition ValidateCancel :: "crypto \<Rightarrow> offer_cancel \<Rightarrow> (sig_error, unit) result" where
  "ValidateCancel cr c = VerifyCancel cr (Some c)"

section \<open>Accepted offers are well formed\<close>

definition covenant_wf :: "offer \<Rightarrow> covenant_terms \<Rightarrow> bool" where
  "covenant_wf ofr ct \<longleftrightarrow>
     TradeDir ofr = TRADE_DIR_SELL \<and> \<not> Confidential ofr \<and> ct_RateNum ct \<noteq> 0 \<and> ct_RateDen ct \<noteq> 0 \<and>
     ct_MinLot ct \<noteq> 0 \<and> ct_MinLot ct \<le> OfferAmount ofr \<and>
     unat (ct_RateNum ct) * unat (OfferAmount ofr) = unat (ct_RateDen ct) * unat (WantAmount ofr) \<and>
     CheckArithmetic (rate_order (ct_RateNum ct) (ct_RateDen ct)) (OfferAmount ofr) = Inr () \<and>
     length (ct_MakerProg ct) = 32 \<and> ct_MakerProgVer ct = 1 \<and> length (ct_MakerX ct) = 32 \<and>
     (length (ct_InternalKey ct) = 0 \<or> length (ct_InternalKey ct) = 32) \<and> ct_ExpiryLocktime ct \<noteq> 0"

definition offer_wf :: "offer \<Rightarrow> bool" where
  "offer_wf ofr \<longleftrightarrow>
     Pair ofr \<noteq> None \<and> GetBaseAsset (Pair ofr) \<noteq> GetQuoteAsset (Pair ofr) \<and>
     BaseAmount ofr \<noteq> 0 \<and> OfferAmount ofr \<noteq> 0 \<and> WantAmount ofr \<noteq> 0 \<and> MinFill ofr \<le> BaseAmount ofr \<and>
     (TradeDir ofr = TRADE_DIR_SELL \<and> OfferAsset ofr = GetBaseAsset (Pair ofr) \<and> WantAsset ofr = GetQuoteAsset (Pair ofr) \<and>
        OfferAmount ofr = BaseAmount ofr \<or>
      TradeDir ofr = TRADE_DIR_BUY \<and> OfferAsset ofr = GetQuoteAsset (Pair ofr) \<and> WantAsset ofr = GetBaseAsset (Pair ofr) \<and>
        WantAmount ofr = BaseAmount ofr) \<and>
     (\<forall>ct. GetCovenant ofr = Some ct \<longrightarrow> covenant_wf ofr ct) \<and>
     (Confidential ofr \<longrightarrow> GetSameChain ofr \<noteq> None \<and> \<not> IsBTCSentinel (OfferAsset ofr) \<and> \<not> IsBTCSentinel (WantAsset ofr))"

lemma check_direction_ok:
  "check_direction ofr = Inr u \<longleftrightarrow>
     TradeDir ofr = TRADE_DIR_SELL \<and> OfferAsset ofr = GetBaseAsset (Pair ofr) \<and> WantAsset ofr = GetQuoteAsset (Pair ofr) \<and>
        OfferAmount ofr = BaseAmount ofr \<or>
     TradeDir ofr = TRADE_DIR_BUY \<and> OfferAsset ofr = GetQuoteAsset (Pair ofr) \<and> WantAsset ofr = GetBaseAsset (Pair ofr) \<and>
        WantAmount ofr = BaseAmount ofr"
  by (auto simp: check_direction_def rbind_eq_Inr split: trade_dir.split)

lemma same_chain_excl: "GetSameChain ofr \<noteq> None \<Longrightarrow> GetCovenant ofr = None \<and> GetLightning ofr = None \<and> GetCrossChain ofr = None"
  by (cases "Settlement ofr") (auto simp: GetSameChain_def GetCovenant_def GetLightning_def GetCrossChain_def)

lemma covenant_excl: "GetCovenant ofr = Some ct \<Longrightarrow> GetCrossChain ofr = None \<and> GetLightning ofr = None \<and> GetSameChain ofr = None"
  by (cases "Settlement ofr") (auto simp: GetSameChain_def GetCovenant_def GetLightning_def GetCrossChain_def)

lemma checkConfidential_ok:
  assumes "checkConfidential cr ofr = Inr u"
  shows "GetSameChain ofr \<noteq> None" "GetCovenant ofr = None" "\<not> IsBTCSentinel (OfferAsset ofr)" "\<not> IsBTCSentinel (WantAsset ofr)"
proof -
  show sc: "GetSameChain ofr \<noteq> None"
    using assms by (auto simp: checkConfidential_def rbind_eq_Inr split: option.splits)
  show "GetCovenant ofr = None" using same_chain_excl [OF sc] by blast
  show "\<not> IsBTCSentinel (OfferAsset ofr)" "\<not> IsBTCSentinel (WantAsset ofr)"
    using assms by (auto simp: checkConfidential_def rbind_eq_Inr split: option.splits)
qed

lemma checkCovenant_ok:
  assumes "checkCovenant ofr ct = Inr u" "\<not> Confidential ofr"
  shows "covenant_wf ofr ct"
  using assms
  by (auto simp: checkCovenant_def covenant_wf_def rbind_eq_Inr not_less split: sum.splits)

lemma checkTerms_wf:
  assumes "checkTerms cr cfg ofr = Inr u"
  shows "offer_wf ofr"
proof -
  let ?p = "Pair ofr"
  from assms have basic: "?p \<noteq> None" "GetBaseAsset ?p \<noteq> GetQuoteAsset ?p"
      "BaseAmount ofr \<noteq> 0" "OfferAmount ofr \<noteq> 0" "WantAmount ofr \<noteq> 0" "MinFill ofr \<le> BaseAmount ofr"
    and dir: "check_direction ofr = Inr ()"
    and conf: "Confidential ofr \<Longrightarrow> checkConfidential cr ofr = Inr ()"
    and rail: "(case GetCrossChain ofr of Some cc \<Rightarrow> checkCrossChain cr ofr cc
      | None \<Rightarrow> (case GetLightning ofr of Some lt \<Rightarrow> checkLightning cr ofr lt
      | None \<Rightarrow> (case GetCovenant ofr of Some ct \<Rightarrow> checkCovenant ofr ct | None \<Rightarrow> Inr ()))) = Inr ()"
    by (auto simp: checkTerms_def Let_def rbind_eq_Inr not_less simp del: GetCovenant_Some GetLightning_Some GetCrossChain_Some
        split: if_splits)
  have "covenant_wf ofr ct" if ct: "GetCovenant ofr = Some ct" for ct
  proof (rule checkCovenant_ok)
    show "checkCovenant ofr ct = Inr ()" using rail covenant_excl [OF ct] ct by simp
    show "\<not> Confidential ofr" using checkConfidential_ok(2) [OF conf] ct by auto
  qed
  with basic dir conf checkConfidential_ok show ?thesis
    unfolding offer_wf_def check_direction_ok by blast
qed

lemma check_offer_ok:
  assumes "check_offer cr cfg book now ofr = Inr u"
  shows "VerifyOffer cr (Some ofr) = Inr ()" "offer_wf ofr" "checkExpiry cfg now ofr = Inr ()"
    "MakerPubkey ofr = strings_ToLower (MakerPubkey ofr)" "proto_Size cr ofr \<le> MaxOfferBytes"
    "\<And>f. book = Some f \<Longrightarrow> f (MakerPubkey ofr) (OfferId ofr) \<noteq> Some (MakerSig ofr)"
  using assms checkTerms_wf
  by (auto simp: check_offer_def rbind_eq_Inr not_less split: sum.splits option.splits)

lemma ValidateOffer_accepts:
  assumes "ValidateOffer cr (t1, t2, t3) book ofr ip v = (v', Inr u)"
  obtains v1 v2 where "checkIPRate t1 ip v = (v1, Inr ())" "check_offer cr (v_cfg v1) book t2 ofr = Inr ()"
    "checkPubkeyRate t3 (MakerPubkey ofr) v1 = (v', Inr ())" "v_probe v' ofr"
  using assms by (auto simp: ValidateOffer_def split: prod.splits sum.splits)

lemma sweepLocked_cfg [simp]: "v_cfg (sweepLocked now cutoff v) = v_cfg v" "v_probe (sweepLocked now cutoff v) = v_probe v"
  by (simp_all add: sweepLocked_def)

lemma checkIPRate_cfg: "checkIPRate now ip v = (v', r) \<Longrightarrow> v_cfg v' = v_cfg v \<and> v_probe v' = v_probe v"
  by (auto simp: checkIPRate_def Let_def split: if_splits prod.splits)

lemma checkPubkeyRate_cfg: "checkPubkeyRate now k v = (v', r) \<Longrightarrow> v_cfg v' = v_cfg v \<and> v_probe v' = v_probe v"
  by (auto simp: checkPubkeyRate_def Let_def split: if_splits prod.splits)

section \<open>The windows are bounds\<close>

text \<open>
  The two limits as critical sections in any interleaving, with the accepted attempts of each recorded at the time that was read for
  them. A call reads the clock before it locks the mutex, so the times are not those of the order of the sections; \<open>lag\<close> bounds how
  far the reading of a call is behind the latest one that was used before it, that is, how long a call waits for the mutex.
\<close>

inductive limiter :: "config \<Rightarrow> duration \<Rightarrow> validator \<Rightarrow> time \<Rightarrow> (string \<times> time) list \<Rightarrow> (string \<times> time) list \<Rightarrow> bool" for cfg lag where
  limiter_new: "limiter cfg lag (NewValidator cfg probe) t [] []"
| limiter_ip: "limiter cfg lag v t ips pubs \<Longrightarrow> t - lag \<le> now \<Longrightarrow> checkIPRate now ip v = (v', r) \<Longrightarrow>
    limiter cfg lag v' (max t now) (if r = Inr () then ips @ [(ip, now)] else ips) pubs"
| limiter_pub: "limiter cfg lag v t ips pubs \<Longrightarrow> t - lag \<le> now \<Longrightarrow> checkPubkeyRate now k v = (v', r) \<Longrightarrow>
    limiter cfg lag v' (max t now) ips (if r = Inr () then pubs @ [(k, now)] else pubs)"

definition hit_times :: "string \<Rightarrow> (string \<times> time) list \<Rightarrow> time list" where
  "hit_times k h = map snd (filter (\<lambda>p. fst p = k) h)"

text \<open>The times in the window of the given width that ends at \<open>t\<close>.\<close>

definition in_window :: "duration \<Rightarrow> time \<Rightarrow> time list \<Rightarrow> time list" where
  "in_window width t ts = filter (\<lambda>x. t - width < x \<and> x \<le> t) ts"

definition covered :: "time \<Rightarrow> (string, time list) gomap \<Rightarrow> (string \<times> time) list \<Rightarrow> bool" where
  "covered t m h \<longleftrightarrow> gomap_ok m \<and> (\<forall>k. list_all (\<lambda>x. x \<le> t) (hit_times k h) \<and>
     filter_mset (\<lambda>x. t - Minute < x) (mset (hit_times k h)) \<subseteq># mset (gomap_get [] m k))"

lemma hit_times_snoc: "hit_times k (h @ [(k', t)]) = hit_times k h @ (if k' = k then [t] else [])"
  by (simp add: hit_times_def)

lemma filter_mset_weaken: "(\<And>x. P x \<Longrightarrow> Q x) \<Longrightarrow> filter_mset P M \<subseteq># filter_mset Q M"
  by (induction M) (auto intro: subset_mset.order_trans)

lemma covered_later: "covered t m h \<Longrightarrow> t \<le> t' \<Longrightarrow> covered t' m h"
  unfolding covered_def
proof (intro conjI allI)
  fix k
  assume c: "gomap_ok m \<and> (\<forall>k. list_all (\<lambda>x. x \<le> t) (hit_times k h) \<and>
      filter_mset (\<lambda>x. t - Minute < x) (mset (hit_times k h)) \<subseteq># mset (gomap_get [] m k))" and le: "t \<le> t'"
  show "list_all (\<lambda>x. x \<le> t') (hit_times k h)" using c le by (fastforce simp: list_all_iff)
  have "filter_mset (\<lambda>x. t' - Minute < x) (mset (hit_times k h)) \<subseteq># filter_mset (\<lambda>x. t - Minute < x) (mset (hit_times k h))"
    using le by (intro filter_mset_weaken) auto
  with c show "filter_mset (\<lambda>x. t' - Minute < x) (mset (hit_times k h)) \<subseteq># mset (gomap_get [] m k)"
    by (meson subset_mset.order_trans)
qed auto

lemma gomap_ok_sweep_map [simp]: "gomap_ok m \<Longrightarrow> gomap_ok (sweep_map c m)"
proof -
  assume ok: "gomap_ok m"
  have "map fst (sweep_map c m) = map fst (filter (\<lambda>(k, hits). prune hits c \<noteq> []) m)"
    by (simp add: sweep_map_def case_prod_beta comp_def)
  with ok show ?thesis by (simp add: gomap_ok_def distinct_map_filter)
qed

lemma sweep_map_mem:
  "(k, hs) \<in> set (sweep_map c m) \<longleftrightarrow> (\<exists>h. (k, h) \<in> set m \<and> prune h c \<noteq> [] \<and> hs = prune_in_place h c)"
  by (auto simp: sweep_map_def)

text \<open>A sweep keeps at least every hit inside the window.\<close>

lemma sweep_map_keeps:
  assumes "gomap_ok m"
  shows "filter_mset (\<lambda>x. c < x) (mset (gomap_get [] m k)) \<subseteq># mset (gomap_get [] (sweep_map c m) k)"
proof (cases "map_of m k")
  case None
  then show ?thesis by (simp add: gomap_get_def)
next
  case (Some h)
  show ?thesis
  proof (cases "prune h c = []")
    case True
    then have "filter_mset (\<lambda>x. c < x) (mset (gomap_get [] m k)) = {#}"
      using Some by (simp add: prune_def gomap_get_def filter_empty_conv)
    then show ?thesis by (simp only: subset_mset.bot_least)
  next
    case False
    then have "map_of (sweep_map c m) k = Some (prune_in_place h c)"
      using Some assms by (simp add: gomap_mem [symmetric] sweep_map_mem) blast
    moreover have "filter_mset (\<lambda>x. c < x) (mset h) = mset (prune h c)" by (simp add: prune_def)
    ultimately show ?thesis using Some by (simp add: gomap_get_def prune_in_place_def Let_def)
  qed
qed

lemma covered_sweep: "covered t m h \<Longrightarrow> c \<le> t - Minute \<Longrightarrow> covered t (sweep_map c m) h"
  unfolding covered_def
proof (intro conjI allI)
  fix k
  assume cov: "gomap_ok m \<and> (\<forall>k. list_all (\<lambda>x. x \<le> t) (hit_times k h) \<and>
      filter_mset (\<lambda>x. t - Minute < x) (mset (hit_times k h)) \<subseteq># mset (gomap_get [] m k))" and le: "c \<le> t - Minute"
  have "filter_mset (\<lambda>x. c < x) (filter_mset (\<lambda>x. t - Minute < x) (mset (hit_times k h))) \<subseteq>#
      filter_mset (\<lambda>x. c < x) (mset (gomap_get [] m k))"
    using cov by (intro multiset_filter_mono) blast
  moreover have "filter_mset (\<lambda>x. c < x) (filter_mset (\<lambda>x. t - Minute < x) (mset (hit_times k h))) =
      filter_mset (\<lambda>x. t - Minute < x) (mset (hit_times k h))"
    unfolding filter_filter_mset using le by (intro filter_mset_cong) auto
  ultimately show "filter_mset (\<lambda>x. t - Minute < x) (mset (hit_times k h)) \<subseteq># mset (gomap_get [] (sweep_map c m) k)"
    using sweep_map_keeps [of m c k] cov by (metis subset_mset.order_trans)
qed auto

definition bounded :: "duration \<Rightarrow> int \<Rightarrow> (string \<times> time) list \<Rightarrow> bool" where
  "bounded width limit h \<longleftrightarrow> (\<forall>k t. int (length (in_window width t (hit_times k h))) \<le> limit)"

text \<open>Every recorded hit that may still count is among those that a call finds, also when its reading \<open>now\<close> is behind \<open>t\<close>.\<close>

lemma covered_recent:
  assumes "covered t m h" "now \<le> t"
  shows "filter_mset (\<lambda>x. t - Minute < x) (mset (hit_times k h)) \<subseteq># filter_mset (\<lambda>x. now - Minute < x) (mset (gomap_get [] m k))"
proof -
  have "filter_mset (\<lambda>x. now - Minute < x) (filter_mset (\<lambda>x. t - Minute < x) (mset (hit_times k h))) =
      filter_mset (\<lambda>x. t - Minute < x) (mset (hit_times k h))"
    unfolding filter_filter_mset using assms(2) by (intro filter_mset_cong) auto
  then show ?thesis
    using assms(1) multiset_filter_mono [of "filter_mset (\<lambda>x. t - Minute < x) (mset (hit_times k h))" "mset (gomap_get [] m k)" "\<lambda>x. now - Minute < x"]
    by (simp add: covered_def)
qed

lemma covered_charge:
  assumes "covered t m h" "now \<le> t" "charge limit now (now - Minute) k m = (m', ok)"
  shows "covered t m' (if ok then h @ [(k, now)] else h)"
proof -
  have hits: "mset (prune (gomap_get [] m k) (now - Minute)) = filter_mset (\<lambda>x. now - Minute < x) (mset (gomap_get [] m k))" by (simp add: prune_def)
  have "A \<subseteq># add_mset now B" if "A \<subseteq># B" for A B :: "time multiset"
    using that by (metis add_mset_add_single mset_subset_eq_add_left subset_mset.order_trans)
  with assms covered_recent [OF assms(1,2), of k] hits show ?thesis
    by (auto simp: covered_def charge_def Let_def gomap_get_update hit_times_snoc split: if_splits)
qed

lemma bounded_charge:
  assumes "covered t m h" "bounded (Minute - lag) limit h" "now \<le> t" "t - lag \<le> now" "charge limit now (now - Minute) k m = (m', True)"
  shows "bounded (Minute - lag) limit (h @ [(k, now)])"
  unfolding bounded_def
proof (intro allI)
  fix k' w
  show "int (length (in_window (Minute - lag) w (hit_times k' (h @ [(k, now)])))) \<le> limit"
  proof (cases "k' = k \<and> now \<le> w \<and> w - (Minute - lag) < now")
    case False
    then have "in_window (Minute - lag) w (hit_times k' (h @ [(k, now)])) = in_window (Minute - lag) w (hit_times k' h)"
      by (auto simp: hit_times_snoc in_window_def)
    with assms(2) show ?thesis by (simp add: bounded_def)
  next
    case True
    let ?hits = "prune (gomap_get [] m k) (now - Minute)"
    have lim: "int (length ?hits) < limit" using assms(5) by (auto simp: charge_def Let_def split: if_splits)
    have "mset (in_window (Minute - lag) w (hit_times k h)) \<subseteq># filter_mset (\<lambda>x. t - Minute < x) (mset (hit_times k h))"
      unfolding in_window_def mset_filter using True assms(4) by (intro filter_mset_weaken) auto
    also have "\<dots> \<subseteq># filter_mset (\<lambda>x. now - Minute < x) (mset (gomap_get [] m k))" by (rule covered_recent [OF assms(1,3)])
    finally have "length (in_window (Minute - lag) w (hit_times k h)) \<le> length ?hits"
      by (metis mset_filter prune_def size_mset size_mset_mono)
    with lim True show ?thesis by (simp add: hit_times_snoc in_window_def)
  qed
qed

definition limiter_inv :: "config \<Rightarrow> duration \<Rightarrow> validator \<Rightarrow> time \<Rightarrow> (string \<times> time) list \<Rightarrow> (string \<times> time) list \<Rightarrow> bool" where
  "limiter_inv cfg lag v t ips pubs \<longleftrightarrow>
     cfg_MaxOffersPerMinPerIP (v_cfg v) = cfg_MaxOffersPerMinPerIP cfg \<and>
     cfg_MaxOffersPerMinPerPubkey (v_cfg v) = cfg_MaxOffersPerMinPerPubkey cfg \<and>
     (0 < cfg_MaxOffersPerMinPerIP cfg \<longrightarrow>
        covered t (v_ipHits v) (filter (\<lambda>p. fst p \<noteq> '''') ips) \<and> bounded (Minute - lag) (cfg_MaxOffersPerMinPerIP cfg) (filter (\<lambda>p. fst p \<noteq> '''') ips)) \<and>
     (0 < cfg_MaxOffersPerMinPerPubkey cfg \<longrightarrow> covered t (v_pubHits v) pubs \<and> bounded (Minute - lag) (cfg_MaxOffersPerMinPerPubkey cfg) pubs)"

lemma limiter_inv_sweep:
  assumes "limiter_inv cfg lag v t ips pubs"
  shows "limiter_inv cfg lag (sweepLocked now (now - Minute) v) (max t now) ips pubs"
  using assms covered_later [of t _ _ "max t now"] covered_sweep [of "max t now" _ _ "now - Minute"]
  by (auto simp: limiter_inv_def sweepLocked_def)

lemma limiter_limiter_inv:
  assumes "limiter cfg lag v t ips pubs" "0 \<le> lag"
  shows "limiter_inv cfg lag v t ips pubs"
  using assms(1)
proof (induction rule: limiter.induct)
  case (limiter_new probe t)
  show ?case
    by (auto simp: limiter_inv_def NewValidator_def covered_def hit_times_def bounded_def in_window_def)
next
  case (limiter_ip v t ips pubs now ip v' r)
  let ?v = "sweepLocked now (now - Minute) v"
  show ?case
  proof (cases "ip = '''' \<or> cfg_MaxOffersPerMinPerIP cfg \<le> 0")
    case True
    with limiter_ip show ?thesis
      using covered_later [of t _ _ "max t now"] by (auto simp: limiter_inv_def checkIPRate_def)
  next
    case False
    note inv = limiter_inv_sweep [OF limiter_ip(4), of now]
    obtain m ok where ch: "charge (cfg_MaxOffersPerMinPerIP cfg) now (now - Minute) ip (v_ipHits ?v) = (m, ok)" by fastforce
    from limiter_ip(3,4) False ch have v': "v' = ?v\<lparr>v_ipHits := m\<rparr>" "r = (if ok then Inr () else Inl ErrIPRate)"
      by (auto simp: checkIPRate_def Let_def limiter_inv_def)
    from inv False have "covered (max t now) (v_ipHits ?v) (filter (\<lambda>p. fst p \<noteq> '''') ips)"
        "bounded (Minute - lag) (cfg_MaxOffersPerMinPerIP cfg) (filter (\<lambda>p. fst p \<noteq> '''') ips)"
      by (auto simp: limiter_inv_def)
    from covered_charge [OF this(1) _ ch] bounded_charge [OF this] ch this(2) inv False v' limiter_ip(2) assms(2) show ?thesis
      by (cases ok) (auto simp: limiter_inv_def)
  qed
next
  case (limiter_pub v t ips pubs now k v' r)
  let ?v = "sweepLocked now (now - Minute) v"
  show ?case
  proof (cases "cfg_MaxOffersPerMinPerPubkey cfg \<le> 0")
    case True
    with limiter_pub show ?thesis
      using covered_later [of t _ _ "max t now"] by (auto simp: limiter_inv_def checkPubkeyRate_def)
  next
    case False
    note inv = limiter_inv_sweep [OF limiter_pub(4), of now]
    obtain m ok where ch: "charge (cfg_MaxOffersPerMinPerPubkey cfg) now (now - Minute) k (v_pubHits ?v) = (m, ok)" by fastforce
    from limiter_pub(3,4) False ch have v': "v' = ?v\<lparr>v_pubHits := m\<rparr>" "r = (if ok then Inr () else Inl ErrPubkeyRate)"
      by (auto simp: checkPubkeyRate_def Let_def limiter_inv_def)
    from inv False have "covered (max t now) (v_pubHits ?v) pubs" "bounded (Minute - lag) (cfg_MaxOffersPerMinPerPubkey cfg) pubs"
      by (auto simp: limiter_inv_def)
    from covered_charge [OF this(1) _ ch] bounded_charge [OF this] ch this(2) inv False v' limiter_pub(2) assms(2) show ?thesis
      by (cases ok) (auto simp: limiter_inv_def)
  qed
qed

section \<open>Who pays for a submission\<close>

definition swept_only :: "time \<Rightarrow> validator \<Rightarrow> validator \<Rightarrow> bool" where
  "swept_only now v v' \<longleftrightarrow>
     v_pubHits v' = v_pubHits v \<or> v_pubHits v' = sweep_map (now - Minute) (v_pubHits v)"

lemma checkIPRate_pubHits: "checkIPRate now ip v = (v', r) \<Longrightarrow> swept_only now v v'"
  by (auto simp: checkIPRate_def swept_only_def sweepLocked_def Let_def split: if_splits prod.splits)

lemma ValidateOffer_uncharged:
  assumes "ValidateOffer cr (t1, t2, t3) book ofr ip v = (v', r)" "check_offer cr (v_cfg v) book t2 ofr \<noteq> Inr ()"
  shows "r \<noteq> Inr () \<and> swept_only t1 v v'"
proof -
  obtain v1 r1 where ip: "checkIPRate t1 ip v = (v1, r1)" by fastforce
  have "v_cfg v1 = v_cfg v" using checkIPRate_cfg [OF ip] by simp
  with assms ip have "v' = v1 \<and> r \<noteq> Inr ()"
    by (auto simp: ValidateOffer_def split: sum.splits)
  with checkIPRate_pubHits [OF ip] show ?thesis by simp
qed

text \<open>
  What the validator relies on of the book behind \<open>RestingOffers\<close>: it reports the signature of a
  resting offer, and reports nothing else.
\<close>

locale resting_offers =
  fixes sig_of :: "'s \<Rightarrow> string \<Rightarrow> string \<Rightarrow> bytes option" and rests :: "'s \<Rightarrow> offer \<Rightarrow> bool"
  assumes resting_sig: "rests s ofr \<Longrightarrow> sig_of s (MakerPubkey ofr) (OfferId ofr) = Some (MakerSig ofr)"
    and sig_resting: "sig_of s (MakerPubkey ofr) (OfferId ofr) = Some (MakerSig ofr) \<Longrightarrow> rests s ofr"
begin

lemma replay_refused: "rests s ofr \<Longrightarrow> check_offer cr cfg (Some (sig_of s)) now ofr \<noteq> Inr ()"
  using check_offer_ok(6) resting_sig by blast

lemma replay_uncharged:
  "rests s ofr \<Longrightarrow> ValidateOffer cr (t1, t2, t3) (Some (sig_of s)) ofr ip v = (v', r) \<Longrightarrow> r \<noteq> Inr () \<and> swept_only t1 v v'"
  using ValidateOffer_uncharged replay_refused by blast

lemma fresh_not_replay: "\<not> rests s ofr \<Longrightarrow> check_offer cr cfg (Some (sig_of s)) now ofr = check_offer cr cfg None now ofr"
proof -
  assume "\<not> rests s ofr"
  then have "sig_of s (MakerPubkey ofr) (OfferId ofr) \<noteq> Some (MakerSig ofr)" using sig_resting by blast
  then show ?thesis by (auto simp: check_offer_def split: option.split)
qed

end

definition rests_in :: "store \<Rightarrow> offer \<Rightarrow> bool" where
  "rests_in s ofr \<longleftrightarrow> (\<exists>e. map_of (entries s) (keyOf ofr) = Some e \<and> MakerSig (e_Offer e) = MakerSig ofr)"

interpretation resting: resting_offers "\<lambda>s m i. RestingMakerSig m i s" rests_in
  by unfold_locales (auto simp: RestingMakerSig_def rests_in_def keyOf_def split: option.splits)

end
