(* ===== verification/Relay_Api.thy ===== *)
theory Relay_Api
  imports Relay Matcher Validator "HOL-Library.Signed_Division"
begin

text \<open>
  The relay's API (\<open>api/server.go\<close>, \<open>api/ws.go\<close>, \<open>api/matched.go\<close>): the server that puts the book,
  the validator, the matcher and the session router behind REST and WebSocket. Connections are objects
  in a heap, and every goroutine the handlers start (inbox pumps, delayed evictions, abandoned-lift
  timers) is an element of the state that a later step runs. A handler is an atomic function on the
  state, except \<open>openLift\<close>, which is composed of its critical sections so that they can interleave.
  Frames are the decoded messages; JSON framing is not modelled.
\<close>

section \<open>Messages\<close>

record matched =
  md_SessionId :: string
  md_OfferId :: string
  md_MakerPubkey :: string
  md_Role :: string
  md_FillBaseAmount :: u64
  md_FillQuoteAmount :: u64
  md_RestingIsCovenant :: bool
  md_Covenant :: "covenant_terms option"
  md_CovenantLocked :: u64

record start_lift =
  sl_OfferId :: string
  sl_MakerPubkey :: string
  sl_TakeAmount :: u64
  sl_TakerSessionPubkey :: bytes
  sl_TimeInForce :: time_in_force

record session_reattach =
  ra_SessionId :: string
  ra_Role :: string
  ra_Sig :: bytes

record lift_requested =
  lr_SessionId :: string
  lr_OfferId :: string
  lr_MakerPubkey :: string
  lr_TakeAmount :: u64
  lr_TakerSessionPubkey :: bytes

datatype to_msg =
    ToMarketSubscribe "asset_pair option" | ToMarketUnsubscribe "asset_pair option"
  | ToOfferSubmit offer | ToOfferEdit offer | ToOfferCancel offer_cancel
  | ToStartLift start_lift | ToSessionReattach session_reattach
  | ToSettleAck settle_ack | ToSettledTrade settled_trade | ToSwapMsg swap_msg
  | ToListMarkets | ToUnknown

datatype api_error =
    ApiDecode | ApiUnknownTo | ApiMissingPair | ApiTooManySubs | ApiMethod | ApiPath | ApiMakerRequired
  | ApiInvalidOffer val_error | ApiSubmit store_error | ApiRefresh store_error | ApiEdit store_error
  | ApiInvalidCancel sig_error | ApiCancel store_error
  | ApiMakerNotConnected | ApiPostOnlyLift | ApiOfferNotOpen | ApiTakeTooLarge | ApiLiftInProgress
  | ApiStartLift session_error
  | ApiReattachFields | ApiUnknownSession | ApiReattachRole | ApiNoSessionKey | ApiReattachAuth sig_error
  | ApiSwapFields | ApiNotParticipant | ApiNotAttached role string | ApiCourier session_error
  | ApiSettlement ws_error

datatype from_msg =
    FromPublicBook "asset_pair option" "offer list"
  | FromPublicOrderCreated "offer option" | FromOrderStatus "order_status option" | FromPublicOrderRemoved "key option"
  | FromResync "asset_pair option" u64
  | FromMatched matched | FromLiftAccepted string bytes | FromLiftRequested lift_requested
  | FromSessionReattached string string | FromSwapMsg swap_msg | FromMarketList "market list"
  | FromError nat api_error

record from_frame =
  fr_Msg :: from_msg
  fr_Seq :: u64

definition frame :: "from_msg \<Rightarrow> from_frame" where
  "frame m = \<lparr>fr_Msg = m, fr_Seq = 0\<rparr>"

section \<open>Server state\<close>

text \<open>
  \<open>wc_subs\<close> maps a subscription key to the store's subscription its stop function ends; \<open>wc_last\<close> is
  the forwarder's \<open>lastSeq\<close> of that subscription. \<open>wc_sent\<close> collects what is written to the socket; a
  closed socket takes nothing.
\<close>

record ws_conn =
  wc_subs :: "(string, nat) gomap"
  wc_last :: "(nat, u64) gomap"
  wc_roles :: "(string, role) gomap"
  wc_makerPubkey :: string
  wc_closed :: bool
  wc_sent :: "from_frame list"

text \<open>The goroutine of \<open>attach\<close>: it drains one inbox of one session object into one connection.\<close>

record pump =
  pm_conn :: nat
  pm_sess :: nat
  pm_sid :: string
  pm_role :: role

text \<open>The goroutines that sleep for a grace period and then act.\<close>

datatype timer_job =
    EvictGhostOffers string | EvictConnOffers nat "key list" | ReleaseLift nat string | ExpireLift string

record server =
  sv_relay :: relay
  sv_validator :: validator
  sv_crossDeadline :: duration
  sv_conns :: "ws_conn list"
  sv_makerConns :: "(string, nat) gomap"
  sv_offerOwners :: "(key, nat) gomap"
  sv_liftActive :: "(key, string) gomap"
  sv_takerConns :: "(string, nat) gomap"
  sv_pumped :: "(string, (role, int) gomap) gomap"
  sv_pumps :: "pump list"
  sv_timers :: "(time \<times> timer_job) list"

abbreviation sv_store :: "server \<Rightarrow> store" where "sv_store sv \<equiv> rl_store (sv_relay sv)"
abbreviation sv_router :: "server \<Rightarrow> router" where "sv_router sv \<equiv> rl_router (sv_relay sv)"

definition set_store :: "store \<Rightarrow> server \<Rightarrow> server" where
  "set_store s sv = sv\<lparr>sv_relay := (sv_relay sv)\<lparr>rl_store := s\<rparr>\<rparr>"

definition set_router :: "router \<Rightarrow> server \<Rightarrow> server" where
  "set_router r sv = sv\<lparr>sv_relay := (sv_relay sv)\<lparr>rl_router := r\<rparr>\<rparr>"

definition NewServer :: "store \<Rightarrow> validator \<Rightarrow> router \<Rightarrow> server" where
  "NewServer s v r =
     \<lparr>sv_relay = \<lparr>rl_store = s, rl_router = r, rl_watches = []\<rparr>, sv_validator = v, sv_crossDeadline = 0, sv_conns = [],
      sv_makerConns = [], sv_offerOwners = [], sv_liftActive = [], sv_takerConns = [], sv_pumped = [], sv_pumps = [],
      sv_timers = []\<rparr>"

definition SetCrossSessionDeadline :: "duration \<Rightarrow> server \<Rightarrow> server" where
  "SetCrossSessionDeadline d sv = sv\<lparr>sv_crossDeadline := d\<rparr>"

text \<open>
  What one call reads from outside the state: the validator's three clock reads, the clock, the
  identifier generator's next answers, and the choice of a \<open>select\<close> with two ready cases.
\<close>

record api_call =
  tk_validator :: "time \<times> time \<times> time"
  tk_now :: time
  tk_newID :: string
  tk_matchID :: "nat \<Rightarrow> string"
  tk_pick :: bool

datatype 'a outcome = Done 'a | Blocks | Panics

section \<open>Connections\<close>

definition new_conn :: ws_conn where
  "new_conn = \<lparr>wc_subs = [], wc_last = [], wc_roles = [], wc_makerPubkey = '''', wc_closed = False, wc_sent = []\<rparr>"

definition upd_conn :: "nat \<Rightarrow> (ws_conn \<Rightarrow> ws_conn) \<Rightarrow> server \<Rightarrow> server" where
  "upd_conn c f sv = sv\<lparr>sv_conns := (sv_conns sv)[c := f (sv_conns sv ! c)]\<rparr>"

definition send_frame :: "nat \<Rightarrow> from_frame \<Rightarrow> server \<Rightarrow> server" where
  "send_frame c fr = upd_conn c (\<lambda>wc. if wc_closed wc then wc else wc\<lparr>wc_sent := wc_sent wc @ [fr]\<rparr>)"

definition ws_send :: "nat \<Rightarrow> from_msg \<Rightarrow> server \<Rightarrow> server" where
  "ws_send c m = send_frame c (frame m)"

definition sendErr :: "nat \<Rightarrow> nat \<Rightarrow> api_error \<Rightarrow> server \<Rightarrow> server" where
  "sendErr c code e = ws_send c (FromError code e)"

text \<open>The upgrade of a request to a WebSocket; the result is the new connection.\<close>

definition ws_accept :: "server \<Rightarrow> server \<times> nat" where
  "ws_accept sv = (sv\<lparr>sv_conns := sv_conns sv @ [new_conn]\<rparr>, length (sv_conns sv))"

definition connRegistry_drop :: "nat \<Rightarrow> (string, nat) gomap \<Rightarrow> (string, nat) gomap \<times> string list" where
  "connRegistry_drop c m = (filter (\<lambda>(k, v). v \<noteq> c) m, map fst (filter (\<lambda>(k, v). v = c) m))"

definition registerMaker :: "nat \<Rightarrow> string \<Rightarrow> server \<Rightarrow> server" where
  "registerMaker c makerPubkey sv =
     (upd_conn c (\<lambda>wc. wc\<lparr>wc_makerPubkey := makerPubkey\<rparr>) sv)\<lparr>sv_makerConns := AList.update makerPubkey c (sv_makerConns sv)\<rparr>"

definition ownOffer :: "nat \<Rightarrow> offer \<Rightarrow> server \<Rightarrow> server" where
  "ownOffer c ofr sv = sv\<lparr>sv_offerOwners := AList.update (keyOf ofr) c (sv_offerOwners sv)\<rparr>"

section \<open>Pumps\<close>

definition pumpAdd ::
  "string \<Rightarrow> role \<Rightarrow> int \<Rightarrow> (string, (role, int) gomap) gomap \<Rightarrow> (string, (role, int) gomap) gomap" where
  "pumpAdd sessionID role delta pumped =
     (if map_of pumped sessionID = None \<and> delta \<le> 0 then pumped
      else
        (let m = gomap_get [] pumped sessionID;
             n = gomap_get 0 m role + delta;
             m = (if n \<le> 0 then AList.delete role m else AList.update role n m)
         in if m = [] then AList.delete sessionID pumped else AList.update sessionID m pumped))"

definition pumpCount :: "string \<Rightarrow> role \<Rightarrow> server \<Rightarrow> int" where
  "pumpCount sessionID role sv = gomap_get 0 (gomap_get [] (sv_pumped sv) sessionID) role"

definition attach :: "nat \<Rightarrow> nat \<Rightarrow> role \<Rightarrow> server \<Rightarrow> server" where
  "attach c a role sv =
     (let sid = ss_ID (r_heap (sv_router sv) ! a);
          sv = upd_conn c (\<lambda>wc. wc\<lparr>wc_roles := AList.update sid role (wc_roles wc)\<rparr>) sv;
          sv = (case role of RoleTaker \<Rightarrow> sv\<lparr>sv_takerConns := AList.update sid c (sv_takerConns sv)\<rparr> | RoleMaker \<Rightarrow> sv)
      in sv\<lparr>sv_pumped := pumpAdd sid role 1 (sv_pumped sv),
            sv_pumps := sv_pumps sv @ [\<lparr>pm_conn = c, pm_sess = a, pm_sid = sid, pm_role = role\<rparr>]\<rparr>)"

text \<open>
  The steps of a pump: forwarding the next frame of its inbox (\<open>ok\<close> says whether the write succeeds),
  and leaving once the session or the connection is gone. Leaving decrements the count.
\<close>

definition pump_leave :: "nat \<Rightarrow> server \<Rightarrow> server" where
  "pump_leave i sv =
     (let p = sv_pumps sv ! i in
      sv\<lparr>sv_pumped := pumpAdd (pm_sid p) (pm_role p) (- 1) (sv_pumped sv),
         sv_pumps := take i (sv_pumps sv) @ drop (Suc i) (sv_pumps sv)\<rparr>)"

definition pump_exit :: "nat \<Rightarrow> server \<Rightarrow> server" where
  "pump_exit i sv =
     (if length (sv_pumps sv) \<le> i then sv
      else
        (let p = sv_pumps sv ! i in
         if ss_done (r_heap (sv_router sv) ! pm_sess p) \<or> wc_closed (sv_conns sv ! pm_conn p) then pump_leave i sv else sv))"

definition drop_inbox :: "role \<Rightarrow> session \<Rightarrow> session" where
  "drop_inbox role s =
     (case role of
        RoleTaker \<Rightarrow> s\<lparr>ss_takerInbox := tl (ss_takerInbox s)\<rparr>
      | RoleMaker \<Rightarrow> s\<lparr>ss_makerInbox := tl (ss_makerInbox s)\<rparr>)"

definition pump_forward :: "nat \<Rightarrow> bool \<Rightarrow> server \<Rightarrow> server" where
  "pump_forward i ok sv =
     (if length (sv_pumps sv) \<le> i then sv
      else
        (let p = sv_pumps sv ! i; s = r_heap (sv_router sv) ! pm_sess p in
         case Inbox s (pm_role p) of
           [] \<Rightarrow> sv
         | msg # _ \<Rightarrow>
             (let sv = set_router (write_session (pm_sess p) (drop_inbox (pm_role p) s) (sv_router sv)) sv in
              if ok \<and> \<not> wc_closed (sv_conns sv ! pm_conn p) then ws_send (pm_conn p) (FromSwapMsg msg) sv
              else pump_leave i sv)))"

section \<open>Match notifications\<close>

definition matchedProto :: "match \<Rightarrow> string \<Rightarrow> string \<Rightarrow> matched" where
  "matchedProto mt role sessionID =
     \<lparr>md_SessionId = sessionID, md_OfferId = k_OfferID (mt_RestingKey mt), md_MakerPubkey = k_MakerPubkey (mt_RestingKey mt),
      md_Role = role, md_FillBaseAmount = mt_FillBase mt, md_FillQuoteAmount = mt_FillQuote mt,
      md_RestingIsCovenant = (mt_RestingCovenant mt \<noteq> None), md_Covenant = mt_RestingCovenant mt,
      md_CovenantLocked = (if mt_RestingCovenant mt = None then 0 else mt_RestingLocked mt)\<rparr>"

text \<open>The loop body of \<open>routeMatches\<close>, with the session identifier of this match.\<close>

definition route_match :: "nat option \<Rightarrow> string \<Rightarrow> match \<Rightarrow> server \<Rightarrow> server" where
  "route_match tc sid mt sv =
     (let sv = (case tc of None \<Rightarrow> sv | Some c \<Rightarrow> ws_send c (FromMatched (matchedProto mt ''taker'' sid)) sv)
      in if mt_RestingCovenant mt = None
         then (case map_of (sv_makerConns sv) (k_MakerPubkey (mt_RestingKey mt)) of
                 None \<Rightarrow> sv
               | Some mc \<Rightarrow> if Some mc = tc then sv else ws_send mc (FromMatched (matchedProto mt ''maker'' sid)) sv)
         else sv)"

fun routeMatches :: "nat option \<Rightarrow> (nat \<Rightarrow> string) \<Rightarrow> match list \<Rightarrow> server \<Rightarrow> server" where
  "routeMatches tc ids [] sv = sv"
| "routeMatches tc ids (mt # mts) sv = routeMatches tc (\<lambda>n. ids (Suc n)) mts (route_match tc (ids 0) mt sv)"

definition applyDisposition :: "offer \<Rightarrow> cross_result \<Rightarrow> store \<Rightarrow> store \<times> bool" where
  "applyDisposition ofr res s =
     (case cr_Disposition res of
        DispReject \<Rightarrow> (fst (RetireIncoming (keyOf ofr) OFFER_STATUS_CANCELLED s), True)
      | DispCancelRemainder \<Rightarrow>
          if 0 < cr_Remainder res \<and> (GetCovenant ofr = None \<or> cr_Filled res = 0)
          then (fst (RetireIncoming (keyOf ofr) OFFER_STATUS_CANCELLED s), True)
          else (s, False)
      | DispRest \<Rightarrow> (s, False))"

definition plain_status :: "offer \<Rightarrow> offer_status \<Rightarrow> u64 \<Rightarrow> order_status" where
  "plain_status ofr st active =
     \<lparr>os_OfferId = OfferId ofr, os_MakerPubkey = MakerPubkey ofr, os_Status = st, os_ActiveAmount = active,
      os_SettleTxid = '''', os_AnchorConfs = 0, os_Demoted = False\<rparr>"

definition cancelledStatus :: "offer \<Rightarrow> order_status" where
  "cancelledStatus ofr = plain_status ofr OFFER_STATUS_CANCELLED 0"

definition restingStatus :: "offer \<Rightarrow> store \<Rightarrow> order_status" where
  "restingStatus ofr s =
     (case OrderStatusOf (keyOf ofr) s of
        Some st \<Rightarrow> st
      | None \<Rightarrow> plain_status ofr OFFER_STATUS_OPEN (BaseAmount ofr))"

section \<open>Market data\<close>

definition needsLiveMaker :: "offer \<Rightarrow> bool" where
  "needsLiveMaker ofr \<longleftrightarrow> GetCovenant ofr = None \<and> GetLightning ofr = None \<and> GetCrossChain ofr = None"

definition ghostGraceSecs :: int where
  "ghostGraceSecs = 90"

text \<open>The age is an \<open>int64\<close> difference; \<open>unixNow\<close> is the clock in seconds.\<close>

definition offerLiftable :: "server \<Rightarrow> offer \<Rightarrow> u64 \<Rightarrow> bool" where
  "offerLiftable sv ofr unixNow \<longleftrightarrow>
     \<not> needsLiveMaker ofr \<or>
     map_of (sv_makerConns sv) (MakerPubkey ofr) \<noteq> None \<or>
     (0 < CreatedAtUnix ofr \<and> sint (unixNow - CreatedAtUnix ofr) < ghostGraceSecs)"

definition liftableOffers :: "server \<Rightarrow> time \<Rightarrow> offer list \<Rightarrow> offer list" where
  "liftableOffers sv now ofrs = filter (\<lambda>ofr. offerLiftable sv ofr (unix_seconds now)) ofrs"

definition api_markets :: "server \<Rightarrow> time \<Rightarrow> market list option" where
  "api_markets sv now = MarketsFiltered (Some (\<lambda>ofr. offerLiftable sv ofr (unix_seconds now))) (sv_store sv)"

definition maxSubsPerConn :: nat where
  "maxSubsPerConn = 64"

definition subKey :: "asset_pair \<Rightarrow> string" where
  "subKey p = BaseAsset p @ ''/'' @ QuoteAsset p @ (if PairConfidential p then ''|conf'' else '''')"

definition wsSubscribe :: "api_call \<Rightarrow> nat \<Rightarrow> asset_pair option \<Rightarrow> server \<Rightarrow> server" where
  "wsSubscribe tk c po sv =
     (case po of
        None \<Rightarrow> sendErr c 400 ApiMissingPair sv
      | Some p \<Rightarrow>
          (let pk = subKey p;
               csubs = wc_subs (sv_conns sv ! c);
               full = (map_of csubs pk = None \<and> maxSubsPerConn \<le> length csubs)
           in if full then sendErr c 429 ApiTooManySubs sv
              else
                (case Subscribe (Some p) (PairConfidential p) (sv_store sv) of (s, snap, i) \<Rightarrow>
                   (let s = (case map_of csubs pk of None \<Rightarrow> s | Some prev \<Rightarrow> Unsubscribe prev s);
                        sv = upd_conn c (\<lambda>wc. wc\<lparr>wc_subs := AList.update pk i (wc_subs wc),
                                                 wc_last := AList.update i 0 (wc_last wc)\<rparr>) (set_store s sv)
                    in ws_send c (FromPublicBook (Some p) (liftableOffers sv (tk_now tk) snap)) sv))))"

definition wsUnsubscribe :: "nat \<Rightarrow> asset_pair option \<Rightarrow> server \<Rightarrow> server" where
  "wsUnsubscribe c po sv =
     (case po of
        None \<Rightarrow> sv
      | Some p \<Rightarrow>
          (case map_of (wc_subs (sv_conns sv ! c)) (subKey p) of
             None \<Rightarrow> sv
           | Some i \<Rightarrow>
               upd_conn c (\<lambda>wc. wc\<lparr>wc_subs := AList.delete (subKey p) (wc_subs wc)\<rparr>)
                 (set_store (Unsubscribe i (sv_store sv)) sv)))"

text \<open>What the forwarder writes for one event, and its loop over the events it receives.\<close>

definition delta_msg :: "event \<Rightarrow> from_msg" where
  "delta_msg ev =
     (case ev_Type ev of
        EventCreated \<Rightarrow> FromPublicOrderCreated (ev_Offer ev)
      | EventStatus \<Rightarrow> FromOrderStatus (ev_Status ev)
      | EventRemoved \<Rightarrow> FromPublicOrderRemoved (ev_Ref ev))"

definition forward_event :: "u64 \<Rightarrow> event \<Rightarrow> from_frame list" where
  "forward_event lastSeq ev =
     (if lastSeq \<noteq> 0 \<and> ev_Seq ev \<noteq> lastSeq + 1 then [frame (FromResync (ev_Pair ev) (ev_Seq ev))] else []) @
     [\<lparr>fr_Msg = delta_msg ev, fr_Seq = ev_Seq ev\<rparr>]"

primrec forwardDeltas :: "u64 \<Rightarrow> event list \<Rightarrow> from_frame list" where
  "forwardDeltas lastSeq [] = []"
| "forwardDeltas lastSeq (ev # evs) = forward_event lastSeq ev @ forwardDeltas (ev_Seq ev) evs"

text \<open>One turn of the forwarder of subscription \<open>i\<close> of connection \<open>c\<close>.\<close>

definition forward_turn :: "nat \<Rightarrow> nat \<Rightarrow> server \<Rightarrow> server" where
  "forward_turn c i sv =
     (if i \<notin> snd ` set (wc_subs (sv_conns sv ! c)) then sv
      else
        (case Receive i (sv_store sv) of
           (s, None) \<Rightarrow> sv
         | (s, Some ev) \<Rightarrow>
             upd_conn c (\<lambda>wc. wc\<lparr>wc_last := AList.update i (ev_Seq ev) (wc_last wc)\<rparr>)
               (fold (send_frame c) (forward_event (gomap_get 0 (wc_last (sv_conns sv ! c)) i) ev) (set_store s sv))))"

section \<open>Offers\<close>

abbreviation sv_book :: "server \<Rightarrow> string \<Rightarrow> string \<Rightarrow> bytes option" where
  "sv_book sv \<equiv> (\<lambda>m i. RestingMakerSig m i (sv_store sv))"

definition validate :: "crypto \<Rightarrow> api_call \<Rightarrow> offer \<Rightarrow> string \<Rightarrow> server \<Rightarrow> server \<times> (val_error, unit) result" where
  "validate cr tk ofr ip sv =
     (case ValidateOffer cr (tk_validator tk) (Some (sv_book sv)) ofr ip (sv_validator sv) of
        (v, res) \<Rightarrow> (sv\<lparr>sv_validator := v\<rparr>, res))"

text \<open>The part of a submission after the order rests: match, notify, apply the time in force. The
  result says whether the order was retired.\<close>

definition cross_resting :: "api_call \<Rightarrow> nat option \<Rightarrow> offer \<Rightarrow> server \<Rightarrow> (server \<times> bool) outcome" where
  "cross_resting tk tc ofr sv =
     (case CrossOrder (store_book (sv_store sv)) ofr of
        None \<Rightarrow> Panics
      | Some res \<Rightarrow>
          (let sv = routeMatches tc (tk_matchID tk) (cr_Matches res) sv in
           case applyDisposition ofr res (sv_store sv) of (s, retired) \<Rightarrow> Done (set_store s sv, retired)))"

definition wsOfferSubmit :: "crypto \<Rightarrow> api_call \<Rightarrow> nat \<Rightarrow> offer \<Rightarrow> string \<Rightarrow> server \<Rightarrow> server outcome" where
  "wsOfferSubmit cr tk c ofr ip sv =
     (case validate cr tk ofr ip sv of
        (sv, Inl e) \<Rightarrow>
          if e = ErrReplay then Done (ws_send c (FromOrderStatus (Some (restingStatus ofr (sv_store sv)))) sv)
          else Done (sendErr c 400 (ApiInvalidOffer e) sv)
      | (sv, Inr _) \<Rightarrow>
          (case Submit cr (tk_now tk) ofr (sv_store sv) of
             (s, Inl e) \<Rightarrow>
               if e = ErrExists
               then
                 (let prev = Get (keyOf ofr) (sv_store sv) in
                  case Edit cr (tk_now tk) ofr (sv_store sv) of
                    (s, Inl e) \<Rightarrow> Done (sendErr c 409 (ApiRefresh e) (set_store s sv))
                  | (s, Inr _) \<Rightarrow>
                      (let sv = set_store s sv;
                           newer = (case prev of None \<Rightarrow> True | Some e \<Rightarrow> CreatedAtUnix (e_Offer e) < CreatedAtUnix ofr);
                           sv = (if newer then ownOffer c ofr (registerMaker c (MakerPubkey ofr) sv) else sv)
                       in Done (ws_send c (FromOrderStatus (Some (restingStatus ofr (sv_store sv)))) sv)))
               else Done (sendErr c 409 (ApiSubmit e) (set_store s sv))
           | (s, Inr _) \<Rightarrow>
               (case cross_resting tk (Some c) ofr (ownOffer c ofr (registerMaker c (MakerPubkey ofr) (set_store s sv))) of
                  Panics \<Rightarrow> Panics
                | Blocks \<Rightarrow> Blocks
                | Done (sv, retired) \<Rightarrow>
                    Done (ws_send c (FromOrderStatus (Some (if retired then cancelledStatus ofr
                                                            else restingStatus ofr (sv_store sv)))) sv))))"

definition wsOfferEdit :: "crypto \<Rightarrow> api_call \<Rightarrow> nat \<Rightarrow> offer \<Rightarrow> string \<Rightarrow> server \<Rightarrow> server" where
  "wsOfferEdit cr tk c ofr ip sv =
     (case validate cr tk ofr ip sv of
        (sv, Inl e) \<Rightarrow>
          if e = ErrReplay then ws_send c (FromOrderStatus (Some (restingStatus ofr (sv_store sv)))) sv
          else sendErr c 400 (ApiInvalidOffer e) sv
      | (sv, Inr _) \<Rightarrow>
          (case Edit cr (tk_now tk) ofr (sv_store sv) of
             (s, Inl e) \<Rightarrow> sendErr c 409 (ApiEdit e) (set_store s sv)
           | (s, Inr _) \<Rightarrow>
               ws_send c (FromOrderStatus (Some (plain_status ofr OFFER_STATUS_OPEN (BaseAmount ofr))))
                 (ownOffer c ofr (set_store s sv))))"

definition cancel_status :: "offer_cancel \<Rightarrow> order_status" where
  "cancel_status can =
     \<lparr>os_OfferId = c_OfferId can, os_MakerPubkey = c_MakerPubkey can, os_Status = OFFER_STATUS_CANCELLED, os_ActiveAmount = 0,
      os_SettleTxid = '''', os_AnchorConfs = 0, os_Demoted = False\<rparr>"

definition wsOfferCancel :: "crypto \<Rightarrow> nat \<Rightarrow> offer_cancel \<Rightarrow> server \<Rightarrow> server" where
  "wsOfferCancel cr c can sv =
     (case ValidateCancel cr can of
        Inl e \<Rightarrow> sendErr c 400 (ApiInvalidCancel e) sv
      | Inr _ \<Rightarrow>
          (case Cancel cr can (sv_store sv) of
             (s, Inl e) \<Rightarrow> sendErr c 409 (ApiCancel e) (set_store s sv)
           | (s, Inr _) \<Rightarrow> ws_send c (FromOrderStatus (Some (cancel_status can))) (set_store s sv)))"


section \<open>Lifts\<close>

text \<open>The in-progress sentinel of a reserved lift slot.\<close>

definition liftReserving :: string where
  "liftReserving = CHR 0x00 # ''reserving''"

definition pruneDeadLifts :: "server \<Rightarrow> server" where
  "pruneDeadLifts sv =
     sv\<lparr>sv_liftActive := filter (\<lambda>(k, sid). sid = liftReserving \<or> router_Get sid (sv_router sv) \<noteq> None) (sv_liftActive sv)\<rparr>"

definition notifyMaker :: "nat \<Rightarrow> server \<Rightarrow> server" where
  "notifyMaker a sv =
     (let sess = r_heap (sv_router sv) ! a in
      case map_of (sv_makerConns sv) (ss_MakerPubkey sess) of
        None \<Rightarrow> sv
      | Some mc \<Rightarrow>
          ws_send mc (FromLiftRequested
              \<lparr>lr_SessionId = ss_ID sess, lr_OfferId = ss_OfferID sess, lr_MakerPubkey = ss_MakerPubkey sess,
               lr_TakeAmount = ss_TakeAmount sess, lr_TakerSessionPubkey = ss_TakerSessionPubkey sess\<rparr>)
            (attach mc a RoleMaker sv))"

text \<open>
  The sections of \<open>openLift\<close>: the checks on the book, the reservation of the offer's slot (false: it is
  taken), the start of the session with its notification, and the record of the outcome in the slot.
\<close>

definition lift_key :: "start_lift \<Rightarrow> key" where
  "lift_key sl = Key (sl_MakerPubkey sl) (sl_OfferId sl)"

definition lift_check :: "start_lift \<Rightarrow> server \<Rightarrow> (api_error, entry) result" where
  "lift_check sl sv =
     (if sl_TimeInForce sl = TIME_IN_FORCE_POST_ONLY then Inl ApiPostOnlyLift
      else case Get (lift_key sl) (sv_store sv) of
          None \<Rightarrow> Inl ApiOfferNotOpen
        | Some e \<Rightarrow> if e_ActiveAmount e < sl_TakeAmount sl then Inl ApiTakeTooLarge else Inr e)"

definition lift_reserve :: "key \<Rightarrow> server \<Rightarrow> server \<times> bool" where
  "lift_reserve k sv =
     (case map_of (sv_liftActive sv) k of
        Some prev \<Rightarrow>
          if prev \<noteq> '''' \<and> (prev = liftReserving \<or> router_Get prev (sv_router sv) \<noteq> None) then (sv, False)
          else (sv\<lparr>sv_liftActive := AList.update k liftReserving (sv_liftActive sv)\<rparr>, True)
      | None \<Rightarrow> (sv\<lparr>sv_liftActive := AList.update k liftReserving (sv_liftActive sv)\<rparr>, True))"

definition lift_start :: "api_call \<Rightarrow> start_lift \<Rightarrow> server \<Rightarrow> server \<times> (session_error, nat) result" where
  "lift_start tk sl sv =
     (case StartLift (tk_now tk) (tk_newID tk)
             \<lparr>rq_OfferID = sl_OfferId sl, rq_MakerPubkey = sl_MakerPubkey sl, rq_TakeAmount = sl_TakeAmount sl,
              rq_TakerSessionPubkey = sl_TakerSessionPubkey sl, rq_MakerSessionPubkey = []\<rparr> (sv_router sv) of
        (r, Inl e) \<Rightarrow> (set_router r sv, Inl e)
      | (r, Inr a) \<Rightarrow> (notifyMaker a (set_router r sv), Inr a))"

definition lift_record :: "key \<Rightarrow> (session_error, nat) result \<Rightarrow> server \<Rightarrow> server" where
  "lift_record k res sv =
     (case res of
        Inl _ \<Rightarrow> sv\<lparr>sv_liftActive := AList.delete k (sv_liftActive sv)\<rparr>
      | Inr a \<Rightarrow> sv\<lparr>sv_liftActive := AList.update k (ss_ID (r_heap (sv_router sv) ! a)) (sv_liftActive sv)\<rparr>)"

definition lift_extend :: "api_call \<Rightarrow> entry \<Rightarrow> nat \<Rightarrow> server \<Rightarrow> server" where
  "lift_extend tk e a sv =
     (if 0 < sv_crossDeadline sv \<and> GetCrossChain (e_Offer e) \<noteq> None
      then set_router (ExtendDeadline (tk_now tk) (ss_ID (r_heap (sv_router sv) ! a)) (sv_crossDeadline sv) (sv_router sv)) sv
      else sv)"

text \<open>A covenant offer holds no slot.\<close>

definition lift_slot :: "entry \<Rightarrow> start_lift \<Rightarrow> server \<Rightarrow> server \<times> bool" where
  "lift_slot e sl sv =
     (if GetCovenant (e_Offer e) \<noteq> None then (sv, True) else lift_reserve (lift_key sl) (pruneDeadLifts sv))"

definition lift_finish ::
  "api_call \<Rightarrow> entry \<Rightarrow> start_lift \<Rightarrow> (session_error, nat) result \<Rightarrow> server \<Rightarrow> server \<times> (api_error, nat) result" where
  "lift_finish tk e sl res sv =
     (let sv = (if GetCovenant (e_Offer e) \<noteq> None then sv else lift_record (lift_key sl) res sv) in
      case res of
        Inl er \<Rightarrow> (sv, Inl (ApiStartLift er))
      | Inr a \<Rightarrow> (lift_extend tk e a sv, Inr a))"

definition openLift :: "api_call \<Rightarrow> start_lift \<Rightarrow> server \<Rightarrow> server \<times> (api_error, nat) result" where
  "openLift tk sl sv =
     (case lift_check sl sv of
        Inl er \<Rightarrow> (sv, Inl er)
      | Inr e \<Rightarrow>
          (case lift_slot e sl sv of
             (sv, False) \<Rightarrow> (sv, Inl ApiLiftInProgress)
           | (sv, True) \<Rightarrow> (case lift_start tk sl sv of (sv, res) \<Rightarrow> lift_finish tk e sl res sv)))"

definition makerPubkeyBytes :: "string \<Rightarrow> bytes" where
  "makerPubkeyBytes hexPub = (case hex_DecodeString hexPub of None \<Rightarrow> [] | Some b \<Rightarrow> b)"

definition liftGuardExempts :: "offer \<Rightarrow> bool" where
  "liftGuardExempts ofr \<longleftrightarrow> GetCovenant ofr \<noteq> None"

definition wsStartLift :: "api_call \<Rightarrow> nat \<Rightarrow> start_lift \<Rightarrow> server \<Rightarrow> server" where
  "wsStartLift tk c sl sv =
     (if (case Get (lift_key sl) (sv_store sv) of None \<Rightarrow> False | Some e \<Rightarrow> \<not> liftGuardExempts (e_Offer e)) \<and>
         map_of (sv_makerConns sv) (sl_MakerPubkey sl) = None
      then sendErr c 409 ApiMakerNotConnected sv
      else
        (case openLift tk sl sv of
           (sv, Inl e) \<Rightarrow> sendErr c 409 e sv
         | (sv, Inr a) \<Rightarrow>
             ws_send c (FromLiftAccepted (ss_ID (r_heap (sv_router sv) ! a)) (makerPubkeyBytes (sl_MakerPubkey sl)))
               (attach c a RoleTaker sv)))"

definition wsSessionReattach :: "crypto \<Rightarrow> nat \<Rightarrow> session_reattach \<Rightarrow> server \<Rightarrow> server" where
  "wsSessionReattach cr c ra sv =
     (let sid = ra_SessionId ra in
      if sid = '''' then sendErr c 400 ApiReattachFields sv
      else case router_Get sid (sv_router sv) of
          None \<Rightarrow> sendErr c 409 ApiUnknownSession sv
        | Some a \<Rightarrow>
            (let sess = r_heap (sv_router sv) ! a;
                 bound =
                   (if ra_Role ra = ''maker'' then Some (RoleMaker, makerPubkeyBytes (ss_MakerPubkey sess))
                    else if ra_Role ra = ''taker'' then Some (RoleTaker, ss_TakerSessionPubkey sess)
                    else None)
             in case bound of
                  None \<Rightarrow> sendErr c 400 ApiReattachRole sv
                | Some (role, keyBytes) \<Rightarrow>
                    if keyBytes = [] then sendErr c 409 ApiNoSessionKey sv
                    else
                      (case VerifyReattach cr sid (ra_Role ra) keyBytes (ra_Sig ra) of
                         Inl e \<Rightarrow> sendErr c 403 (ApiReattachAuth e) sv
                       | Inr _ \<Rightarrow>
                           (let sv = attach c a role sv;
                                sv = (case role of RoleMaker \<Rightarrow> registerMaker c (ss_MakerPubkey sess) sv | RoleTaker \<Rightarrow> sv)
                            in ws_send c (FromSessionReattached sid (ra_Role ra)) sv))))"

definition other_role :: "role \<Rightarrow> role" where
  "other_role ro = (case ro of RoleTaker \<Rightarrow> RoleMaker | RoleMaker \<Rightarrow> RoleTaker)"

definition wsSwapMsg :: "api_call \<Rightarrow> nat \<Rightarrow> swap_msg \<Rightarrow> server \<Rightarrow> server outcome" where
  "wsSwapMsg tk c msg sv =
     (let sid = sm_SessionId msg in
      if sid = '''' then Done (sendErr c 400 ApiSwapFields sv)
      else case map_of (wc_roles (sv_conns sv ! c)) sid of
          None \<Rightarrow> Done (sendErr c 403 ApiNotParticipant sv)
        | Some role \<Rightarrow>
            if pumpCount sid (other_role role) sv = 0
            then Done (sendErr c 409 (ApiNotAttached (other_role role) sid) sv)
            else
              (case Send (tk_now tk) (tk_pick tk) sid role (sm_Ciphertext msg) (sv_router sv) of
                 (r, None) \<Rightarrow> Blocks
               | (r, Some (Inl e)) \<Rightarrow> Done (sendErr c 409 (ApiCourier e) (set_router r sv))
               | (r, Some (Inr _)) \<Rightarrow> Done (set_router r sv)))"

definition settlement_code :: "ws_error \<Rightarrow> nat" where
  "settlement_code e =
     (case e of
        WsSettleAckFields \<Rightarrow> 400 | WsNotSessionMaker \<Rightarrow> 403 | WsUnknownSession \<Rightarrow> 409 | WsApplyFill _ \<Rightarrow> 409
      | WsSettledTradeFields \<Rightarrow> 400 | WsSettledTradeSig _ \<Rightarrow> 400 | WsSettledTradeRecord _ \<Rightarrow> 409)"

definition settlement_reply :: "nat \<Rightarrow> relay \<times> (ws_error, unit) result \<Rightarrow> server \<Rightarrow> server" where
  "settlement_reply c out sv =
     (case out of
        (rl, Inl e) \<Rightarrow> sendErr c (settlement_code e) (ApiSettlement e) (sv\<lparr>sv_relay := rl\<rparr>)
      | (rl, Inr _) \<Rightarrow> sv\<lparr>sv_relay := rl\<rparr>)"

section \<open>Closing a connection\<close>

definition makerReconnectGrace :: duration where "makerReconnectGrace = 60 * Second"
definition takerReattachGrace :: duration where "takerReattachGrace = 15 * Second"
definition restLiftAttachGrace :: duration where "restLiftAttachGrace = 30 * Second"

definition after_grace :: "time \<Rightarrow> duration \<Rightarrow> timer_job \<Rightarrow> server \<Rightarrow> server" where
  "after_grace now d job sv = sv\<lparr>sv_timers := sv_timers sv @ [(now + d, job)]\<rparr>"

definition releaseAbandonedLifts :: "time \<Rightarrow> nat \<Rightarrow> server \<Rightarrow> server" where
  "releaseAbandonedLifts now c sv =
     fold (\<lambda>sid. after_grace now takerReattachGrace (ReleaseLift c sid))
       (map fst (filter (\<lambda>(sid, role). role = RoleTaker) (wc_roles (sv_conns sv ! c)))) sv"

definition evict_departed :: "time \<Rightarrow> string \<Rightarrow> server \<Rightarrow> server" where
  "evict_departed now pubkey sv =
     after_grace now makerReconnectGrace (EvictGhostOffers pubkey) (set_store (fst (RemoveByMaker pubkey (sv_store sv))) sv)"

definition evictConnOffersAfterGrace :: "time \<Rightarrow> nat \<Rightarrow> key list \<Rightarrow> server \<Rightarrow> server" where
  "evictConnOffersAfterGrace now c ks sv =
     (if ks = [] then sv else after_grace now makerReconnectGrace (EvictConnOffers c ks) sv)"

definition closeConn :: "time \<Rightarrow> nat \<Rightarrow> server \<Rightarrow> server" where
  "closeConn now c sv =
     (let sv = set_store (fold Unsubscribe (map snd (wc_subs (sv_conns sv ! c))) (sv_store sv)) sv;
          sv = upd_conn c (\<lambda>wc. wc\<lparr>wc_closed := True, wc_subs := []\<rparr>) sv
      in case connRegistry_drop c (sv_makerConns sv) of (m, dropped) \<Rightarrow>
        (let sv = fold (evict_departed now) dropped (sv\<lparr>sv_makerConns := m\<rparr>);
             ownKeys = map fst (filter (\<lambda>(k, owner). owner = c) (sv_offerOwners sv))
         in releaseAbandonedLifts now c (evictConnOffersAfterGrace now c ownKeys sv)))"

definition notifyMakerTakerGone :: "string \<Rightarrow> server \<Rightarrow> server" where
  "notifyMakerTakerGone sid sv =
     (case find (\<lambda>(k, live). live = sid) (sv_liftActive sv) of
        None \<Rightarrow> sv
      | Some (k, _) \<Rightarrow>
          if k_MakerPubkey k = '''' then sv
          else (case map_of (sv_makerConns sv) (k_MakerPubkey k) of
                  None \<Rightarrow> sv
                | Some mc \<Rightarrow> sendErr mc 409 (ApiNotAttached RoleTaker sid) sv))"

text \<open>Aborting a session runs the router's re-open hook.\<close>

definition abort_session :: "crypto \<Rightarrow> time \<Rightarrow> string \<Rightarrow> server \<Rightarrow> server" where
  "abort_session cr now sid sv =
     (case Abort sid (sv_router sv) of (r, hook) \<Rightarrow>
        (let sv = set_router r sv in
         case hook of None \<Rightarrow> sv | Some a \<Rightarrow> set_store (onReopen cr now (r_heap r ! a) (sv_store sv)) sv))"

definition release_session :: "crypto \<Rightarrow> time \<Rightarrow> string \<Rightarrow> server \<Rightarrow> server" where
  "release_session cr now sid sv =
     (if router_Get sid (sv_router sv) = None then sv else notifyMakerTakerGone sid (abort_session cr now sid sv))"

definition run_timer :: "crypto \<Rightarrow> time \<Rightarrow> timer_job \<Rightarrow> server \<Rightarrow> server" where
  "run_timer cr now job sv =
     (case job of
        EvictGhostOffers pubkey \<Rightarrow>
          if map_of (sv_makerConns sv) pubkey \<noteq> None then sv
          else set_store (fst (RemoveInteractiveByMaker pubkey (sv_store sv))) sv
      | EvictConnOffers c ks \<Rightarrow>
          (let stale = filter (\<lambda>k. map_of (sv_offerOwners sv) k = Some c) ks;
               sv = sv\<lparr>sv_offerOwners := fold AList.delete stale (sv_offerOwners sv)\<rparr>
           in set_store (fst (RemoveInteractiveByKeys stale (sv_store sv))) sv)
      | ReleaseLift c sid \<Rightarrow>
          if map_of (sv_takerConns sv) sid = Some c
          then release_session cr now sid (sv\<lparr>sv_takerConns := AList.delete sid (sv_takerConns sv)\<rparr>)
          else sv
      | ExpireLift sid \<Rightarrow> if map_of (sv_takerConns sv) sid \<noteq> None then sv else release_session cr now sid sv)"

definition timer_fires :: "crypto \<Rightarrow> time \<Rightarrow> nat \<Rightarrow> server \<Rightarrow> server" where
  "timer_fires cr now i sv =
     (if length (sv_timers sv) \<le> i \<or> now < fst (sv_timers sv ! i) then sv
      else run_timer cr now (snd (sv_timers sv ! i)) (sv\<lparr>sv_timers := take i (sv_timers sv) @ drop (Suc i) (sv_timers sv)\<rparr>))"

section \<open>Dispatch\<close>

definition dispatch :: "crypto \<Rightarrow> api_call \<Rightarrow> nat \<Rightarrow> to_msg \<Rightarrow> string \<Rightarrow> server \<Rightarrow> server outcome" where
  "dispatch cr tk c msg ip sv =
     (case msg of
        ToMarketSubscribe p \<Rightarrow> Done (wsSubscribe tk c p sv)
      | ToMarketUnsubscribe p \<Rightarrow> Done (wsUnsubscribe c p sv)
      | ToOfferSubmit ofr \<Rightarrow> wsOfferSubmit cr tk c ofr ip sv
      | ToOfferEdit ofr \<Rightarrow> Done (wsOfferEdit cr tk c ofr ip sv)
      | ToOfferCancel can \<Rightarrow> Done (wsOfferCancel cr c can sv)
      | ToStartLift sl \<Rightarrow> Done (wsStartLift tk c sl sv)
      | ToSessionReattach ra \<Rightarrow> Done (wsSessionReattach cr c ra sv)
      | ToSettleAck sa \<Rightarrow>
          Done (settlement_reply c (wsSettleAck (tk_now tk) (wc_roles (sv_conns sv ! c)) sa (sv_relay sv)) sv)
      | ToSettledTrade st \<Rightarrow> Done (settlement_reply c (wsSettledTrade cr (tk_now tk) st (sv_relay sv)) sv)
      | ToSwapMsg m \<Rightarrow> wsSwapMsg tk c m sv
      | ToListMarkets \<Rightarrow>
          (case api_markets sv (tk_now tk) of None \<Rightarrow> Panics | Some ms \<Rightarrow> Done (ws_send c (FromMarketList ms) sv))
      | ToUnknown \<Rightarrow> Done (sendErr c 400 ApiUnknownTo sv))"

text \<open>One turn of the read loop; \<open>None\<close> is a frame that does not decode.\<close>

definition handleWS :: "crypto \<Rightarrow> api_call \<Rightarrow> nat \<Rightarrow> to_msg option \<Rightarrow> string \<Rightarrow> server \<Rightarrow> server outcome" where
  "handleWS cr tk c fr ip sv =
     (if length (sv_conns sv) \<le> c \<or> wc_closed (sv_conns sv ! c) then Done sv
      else case fr of None \<Rightarrow> Done (sendErr c 400 ApiDecode sv) | Some msg \<Rightarrow> dispatch cr tk c msg ip sv)"


end
