(* ===== verification/Book_Deltas.thy ===== *)
theory Book_Deltas
  imports Book_Invariant "HOL-Library.Sublist"
begin

text \<open>
  The delta stream. \<open>op_events\<close> is what each book operation announces, in order. A client keeps a
  replica of the offers of its pair and namespace and applies the events it receives. The lemmas
  show that the announced events turn the replica of the old book into that of the new one, that
  every subscriber is handed exactly the events routed to it, and that a subscriber whose sequence
  numbers have no hole holds the current book.
\<close>

section \<open>Replica of a pair and namespace\<close>

definition in_view :: "string \<Rightarrow> bool \<Rightarrow> offer \<Rightarrow> bool" where
  "in_view p c ofr \<longleftrightarrow> Confidential ofr = c \<and> (p = '''' \<or> p = pairKey (Pair ofr))"

definition view :: "string \<Rightarrow> bool \<Rightarrow> store \<Rightarrow> key \<rightharpoonup> offer" where
  "view p c s = (\<lambda>k. case map_of (entries s) k of
     None \<Rightarrow> None | Some e \<Rightarrow> if in_view p c (e_Offer e) then Some (e_Offer e) else None)"

definition apply_event :: "event \<Rightarrow> (key \<rightharpoonup> offer) \<Rightarrow> (key \<rightharpoonup> offer)" where
  "apply_event ev m =
     (case ev_Type ev of
        EventCreated \<Rightarrow> (case ev_Offer ev of None \<Rightarrow> m | Some ofr \<Rightarrow> m(keyOf ofr \<mapsto> ofr))
      | EventRemoved \<Rightarrow> (case ev_Ref ev of None \<Rightarrow> m | Some k \<Rightarrow> m(k := None))
      | EventStatus \<Rightarrow> m)"

definition routed_to :: "string \<Rightarrow> bool \<Rightarrow> event \<Rightarrow> bool" where
  "routed_to p c ev \<longleftrightarrow> c = ev_Confidential ev \<and> (p = '''' \<or> p = pairKey (ev_Pair ev))"

definition replay :: "string \<Rightarrow> bool \<Rightarrow> event list \<Rightarrow> (key \<rightharpoonup> offer) \<Rightarrow> (key \<rightharpoonup> offer)" where
  "replay p c evs = fold apply_event (filter (routed_to p c) evs)"

section \<open>What each operation announces\<close>

definition fill_events :: "key \<Rightarrow> entry \<Rightarrow> event list" where
  "fill_events k e =
     ev_status k e # (if e_ActiveAmount e = 0 \<and> e_Status e = OFFER_STATUS_FILLED then [ev_removed k (e_Offer e)] else [])"

definition drop_events :: "key \<Rightarrow> offer_status \<Rightarrow> store \<Rightarrow> event list" where
  "drop_events k st s =
     (case map_of (entries s) k of
        None \<Rightarrow> [] | Some e \<Rightarrow> [ev_status k (e\<lparr>e_Status := st\<rparr>), ev_removed k (e_Offer e)])"

definition covenant_events :: "key \<Rightarrow> (entry \<Rightarrow> event list) \<Rightarrow> store \<Rightarrow> event list" where
  "covenant_events k f s =
     (case map_of (entries s) k of
        None \<Rightarrow> [] | Some e \<Rightarrow> if GetCovenant (e_Offer e) = None then [] else f e)"

definition removed_events :: "(key \<times> entry) list \<Rightarrow> event list" where
  "removed_events vs = map (\<lambda>(k, e). ev_removed k (e_Offer e)) vs"

fun op_events :: "crypto \<Rightarrow> time \<Rightarrow> store_op \<Rightarrow> store \<Rightarrow> event list" where
  "op_events cr now (OpSubmit ofr) s =
     (case snd (Submit cr now ofr s) of Inl _ \<Rightarrow> [] | Inr _ \<Rightarrow> [ev_created ofr])"
| "op_events cr now (OpEdit ofr) s =
     (case (snd (Edit cr now ofr s), map_of (entries s) (keyOf ofr)) of
        (Inr _, Some old) \<Rightarrow> [ev_removed (keyOf ofr) (e_Offer old), ev_created ofr] | _ \<Rightarrow> [])"
| "op_events cr now (OpCancel c) s =
     (case (snd (Cancel cr c s), map_of (entries s) (Key (c_MakerPubkey c) (c_OfferId c))) of
        (Inr _, Some e) \<Rightarrow> [ev_removed (Key (c_MakerPubkey c) (c_OfferId c)) (e_Offer e)] | _ \<Rightarrow> [])"
| "op_events cr now (OpApplyPartialFill k n tx confs) s =
     (case map_of (entries s) k of None \<Rightarrow> [] | Some e \<Rightarrow> fill_events k (fill_entry n tx confs e))"
| "op_events cr now (OpRecordSettledFill k n tx confs nonce) s =
     (case map_of (entries s) k of
        None \<Rightarrow> []
      | Some e \<Rightarrow>
          if nonce = 0 \<or> nonce \<le> gomap_get 0 (settledNonce s) k \<or> e_ActiveAmount e = 0 \<or> n = 0 then []
          else fill_events k (fill_entry n tx confs e))"
| "op_events cr now (OpMarkInvalidated k) s = drop_events k OFFER_STATUS_UTXO_INVALIDATED s"
| "op_events cr now (OpRetireIncoming k st) s = drop_events k st s"
| "op_events cr now (OpReopen ofr n) s =
     (case snd (Reopen cr now ofr n s) of Inl _ \<Rightarrow> [] | Inr _ \<Rightarrow> [ev_created ofr])"
| "op_events cr now OpSweepExpired s =
     concat (map (\<lambda>(k, e). [ev_status k (e\<lparr>e_Status := OFFER_STATUS_EXPIRED\<rparr>), ev_removed k (e_Offer e)])
       (filter (\<lambda>(k, e). ExpiresAtUnix (e_Offer e) \<noteq> 0 \<and> ExpiresAtUnix (e_Offer e) \<le> unix_seconds now) (entries s)))"
| "op_events cr now (OpRemoveInteractiveByMaker m) s =
     removed_events (filter (\<lambda>(k, e). k_MakerPubkey k = m \<and> GetCovenant (e_Offer e) = None) (entries s))"
| "op_events cr now (OpRemoveInteractiveByKeys ks) s = snd (remove_interactive_keys ks s)"
| "op_events cr now (OpRemoveByMaker m) s =
     removed_events (filter (\<lambda>(k, e). k_MakerPubkey k = m \<and> GetSameChain (e_Offer e) \<noteq> None \<and>
       GetCovenant (e_Offer e) = None) (entries s))"
| "op_events cr now (OpHoldCovenantGhost k) s =
     covenant_events k (\<lambda>e. if e_ActiveAmount e \<noteq> 0 then [ev_status k (ghost_entry e)] else []) s"
| "op_events cr now (OpReconcileCovenantActive k n) s =
     covenant_events k (\<lambda>e. (let n = (if BaseAmount (e_Offer e) < n then BaseAmount (e_Offer e) else n) in
       if e_ActiveAmount e \<noteq> n \<or> e_SettleTxid e \<noteq> '''' then [ev_status k (reconcile_entry n e)] else [])) s"
| "op_events cr now (OpRerestCovenantRemainder k tx vout n) s =
     covenant_events k (\<lambda>e. (let n = (if BaseAmount (e_Offer e) < n then BaseAmount (e_Offer e) else n) in
       [ev_created (set_outpoint tx vout (e_Offer e)), ev_status k (rerest_entry tx vout n e)])) s"
| "op_events cr now (OpHoldCovenantForSpend k tx) s =
     covenant_events k (\<lambda>e. if e_ActiveAmount e \<noteq> 0 \<or> e_SettleTxid e \<noteq> tx then [ev_status k (spend_entry tx e)] else []) s"
| "op_events cr now (OpRemoveCovenantFilled k tx) s =
     covenant_events k (\<lambda>e. [ev_status k (filled_entry tx e), ev_removed k (e_Offer e)]) s"
| "op_events cr now _ s = []"

section \<open>Effect on the book\<close>

text \<open>The events turn every view of the old book into that of the new one.\<close>

definition upd :: "event list \<Rightarrow> store \<Rightarrow> store \<Rightarrow> bool" where
  "upd evs s s' \<longleftrightarrow> (\<forall>p c. view p c s' = replay p c evs (view p c s))"

lemma view_cong: "map_of (entries s') = map_of (entries s) \<Longrightarrow> view p c s' = view p c s"
  by (simp add: view_def)

lemma replay_append: "replay p c (evs @ evs') m = replay p c evs' (replay p c evs m)"
  by (simp add: replay_def)

lemma replay_Nil [simp]: "replay p c [] m = m"
  by (simp add: replay_def)

lemma replay_Cons: "replay p c (ev # evs) m = replay p c evs (if routed_to p c ev then apply_event ev m else m)"
  by (simp add: replay_def)

lemma apply_event_status [simp]: "apply_event (ev_status k e) m = m"
  by (simp add: apply_event_def ev_status_def)

lemma replay_status [simp]: "replay p c (ev_status k e # evs) m = replay p c evs m"
  by (simp add: replay_Cons)

lemma upd_trans: "upd evs s s1 \<Longrightarrow> upd evs' s1 s2 \<Longrightarrow> upd (evs @ evs') s s2"
  by (simp add: upd_def replay_append)

lemma upd_refl: "entries s' = entries s \<Longrightarrow> upd [] s s'"
  by (simp add: upd_def view_def)

lemma upd_then_frame: "upd evs s s' \<Longrightarrow> entries s'' = entries s' \<Longrightarrow> upd evs s s''"
proof -
  assume "upd evs s s'" "entries s'' = entries s'"
  moreover from this(2) have "view p c s'' = view p c s'" for p c by (simp only: view_def)
  ultimately show ?thesis by (simp only: upd_def) blast
qed

lemma upd_frame [simp]:
  "upd evs s (broadcast ev s') = upd evs s s'" "upd evs s (broadcast_all evs' s') = upd evs s s'"
  "upd evs s (RecordTrade now oo n s') = upd evs s s'"
  by (simp_all add: upd_def view_def)

lemma upd_status [simp]: "upd (ev_status k e # evs) s s' = upd evs s s'"
  by (simp add: upd_def)

lemma upd_remove: "map_of (entries s) k = Some e \<Longrightarrow> upd [ev_removed k (e_Offer e)] s (remove k s)"
  by (auto simp: upd_def replay_Cons apply_event_def ev_removed_def view_def map_of_delete fun_eq_iff
      routed_to_def in_view_def)

lemma upd_put:
  assumes "keyOf (e_Offer e) = k"
    "\<And>old. map_of (entries s) k = Some old \<Longrightarrow>
       Pair (e_Offer e) = Pair (e_Offer old) \<and> Confidential (e_Offer e) = Confidential (e_Offer old)"
  shows "upd [ev_created (e_Offer e)] s (put k e s)"
  using assms
  by (cases "map_of (entries s) k")
    (auto simp: upd_def replay_Cons apply_event_def ev_created_def view_def map_of_update fun_eq_iff
      routed_to_def in_view_def)

lemma upd_set_entry:
  "map_of (entries s) k = Some old \<Longrightarrow> e_Offer e = e_Offer old \<Longrightarrow> upd [] s (set_entry k e s)"
  by (auto simp: upd_def view_def map_of_update fun_eq_iff)

lemma upd_set_entry_offer:
  assumes "map_of (entries s) k = Some old" "keyOf (e_Offer e) = k" "Pair (e_Offer e) = Pair (e_Offer old)"
    "Confidential (e_Offer e) = Confidential (e_Offer old)"
  shows "upd [ev_created (e_Offer e)] s (set_entry k e s)"
  using assms
  by (auto simp: upd_def replay_Cons apply_event_def ev_created_def view_def map_of_update fun_eq_iff
      routed_to_def in_view_def)

lemma upd_remove_all:
  assumes "distinct (map fst vs)" "\<And>k e. (k, e) \<in> set vs \<Longrightarrow> map_of (entries s) k = Some e"
  shows "upd (removed_events vs) s (remove_all (map fst vs) s)"
  using assms
proof (induction vs arbitrary: s)
  case Nil
  show ?case by (simp add: removed_events_def remove_all_def upd_refl)
next
  case (Cons v vs)
  obtain k e where v: "v = (k, e)" by (cases v)
  have "upd (removed_events vs) (remove k s) (remove_all (map fst vs) (remove k s))"
    using Cons.prems v by (intro Cons.IH) (auto simp: map_of_delete image_iff)
  from upd_trans [OF upd_remove this] show ?case
    using Cons.prems v by (simp add: removed_events_def remove_all_def)
qed

lemma filtered_victims:
  assumes "gomap_ok m"
  shows "distinct (map fst (filter P m))" "(k, e) \<in> set (filter P m) \<Longrightarrow> map_of m k = Some e"
  using assms by (auto simp: gomap_ok_def distinct_map_filter)

lemma upd_expired: "upd (concat (map (\<lambda>(k, e). [ev_status k (f e), ev_removed k (e_Offer e)]) vs)) s s' =
    upd (removed_events vs) s s'"
proof -
  have "replay p c (concat (map (\<lambda>(k, e). [ev_status k (f e), ev_removed k (e_Offer e)]) vs)) m =
      replay p c (removed_events vs) m" for p c m
    by (induction vs arbitrary: m) (auto simp: removed_events_def replay_Cons)
  then show ?thesis by (simp add: upd_def)
qed

lemma upd_remove_interactive_keys:
  "upd (snd (remove_interactive_keys ks s)) s (fst (remove_interactive_keys ks s))"
proof (induction ks s rule: remove_interactive_keys.induct)
  case (2 k ks s)
  show ?case
  proof (cases "map_of (entries s) k")
    case (Some e)
    show ?thesis
    proof (cases "GetCovenant (e_Offer e) = None")
      case True
      with Some 2(3) [OF Some] upd_trans [OF upd_remove [OF Some]] show ?thesis
        by (auto split: prod.split)
    qed (use 2(2) [OF Some] Some in auto)
  qed (use 2 in auto)
qed (simp add: upd_refl)

section \<open>Effect on the subscribers\<close>

text \<open>Every subscriber is handed the events in order.\<close>

definition emits :: "event list \<Rightarrow> store \<Rightarrow> store \<Rightarrow> bool" where
  "emits evs s s' \<longleftrightarrow> subs s' = map (\<lambda>(i, sub). (i, fold deliver evs sub)) (subs s)"

lemma subs_frame [simp]:
  "subs (remove k s) = subs s" "subs (put k e s) = subs s" "subs (set_entry k e s) = subs s"
  "subs (RecordTradeTx now oo n tx s) = subs s" "subs (RecordTrade now oo n s) = subs s"
  "subs (append_log r s) = subs s"
  by (simp_all add: remove_def put_def set_entry_def RecordTradeTx_def RecordTrade_def append_log_def Let_def
      split: option.split)

lemma subs_remove_all [simp]: "subs (remove_all ks s) = subs s"
  by (induction ks arbitrary: s) (simp_all add: remove_all_def)

lemma emits_Nil: "emits [] s s' \<longleftrightarrow> subs s' = subs s"
  by (simp add: emits_def)

lemma emits_refl [simp]: "subs s' = subs s \<Longrightarrow> emits [] s s'"
  by (simp add: emits_Nil)

lemma subs_broadcast: "subs (broadcast ev s) = map (\<lambda>(i, sub). (i, deliver ev sub)) (subs s)"
  by (simp add: broadcast_def)

lemma emits_snoc: "emits evs s s' \<Longrightarrow> emits (evs @ [ev]) s (broadcast ev s')"
  by (simp add: emits_def subs_broadcast case_prod_beta)

lemma emits_broadcast1: "subs s' = subs s \<Longrightarrow> emits [ev] s (broadcast ev s')"
  using emits_snoc [of "[]"] by simp

lemma emits_broadcast2: "subs s' = subs s \<Longrightarrow> emits [ev, ev'] s (broadcast ev' (broadcast ev s'))"
  using emits_snoc [of "[ev]"] by (simp add: emits_broadcast1)

lemma emits_broadcast_all: "subs s' = subs s \<Longrightarrow> emits evs s (broadcast_all evs s')"
proof (induction evs rule: rev_induct)
  case (snoc ev evs)
  then have "emits evs s (broadcast_all evs s')" by simp
  from emits_snoc [OF this] show ?case by (simp add: broadcast_all_def)
qed (simp add: broadcast_all_def)

lemmas emits_rules = emits_broadcast1 emits_broadcast2 emits_broadcast_all emits_refl

lemma subs_remove_interactive_keys [simp]: "subs (fst (remove_interactive_keys ks s)) = subs s"
  by (induction ks s rule: remove_interactive_keys.induct) (auto split: option.split prod.split)

text \<open>Both effects of one operation.\<close>

definition announces :: "event list \<Rightarrow> store \<Rightarrow> store \<Rightarrow> bool" where
  "announces evs s s' \<longleftrightarrow> upd evs s s' \<and> emits evs s s'"

lemma announces_frame: "entries s' = entries s \<Longrightarrow> subs s' = subs s \<Longrightarrow> announces [] s s'"
  by (simp add: announces_def upd_refl)

lemma announces_Submit: "announces (op_events cr now (OpSubmit ofr) s) s (exec cr now (OpSubmit ofr) s)"
proof (cases "VerifyOffer cr (Some ofr) = Inr () \<and> Pair ofr \<noteq> None \<and> map_of (entries s) (keyOf ofr) = None")
  case True
  let ?k = "keyOf ofr" and ?e = "new_entry now ofr OFFER_STATUS_OPEN (BaseAmount ofr)"
  have put: "upd [ev_created ofr] s (put ?k ?e s)"
    using upd_put [of ?e ?k s] True by simp
  have "upd [] (put ?k ?e s) (set_entry ?k (?e\<lparr>e_demoted := True\<rparr>) (put ?k ?e s))"
    by (rule upd_set_entry [where old = ?e]) (simp_all add: map_of_update)
  from put upd_trans [OF put this] True show ?thesis
    by (auto simp: announces_def Submit_def Let_def emits_rules split: sum.split)
next
  case False
  then show ?thesis
    by (auto simp: Submit_def Let_def announces_frame split: sum.split option.split)
qed

lemma announces_Edit: "announces (op_events cr now (OpEdit ofr) s) s (exec cr now (OpEdit ofr) s)"
proof -
  have "upd [ev_removed (keyOf ofr) (e_Offer old), ev_created ofr] s
      (put (keyOf ofr) (new_entry now ofr OFFER_STATUS_OPEN (BaseAmount ofr)) (remove (keyOf ofr) s))"
    if "map_of (entries s) (keyOf ofr) = Some old" for old
    using upd_trans [OF upd_remove [OF that]
        upd_put [of "new_entry now ofr OFFER_STATUS_OPEN (BaseAmount ofr)" "keyOf ofr"]]
    by (simp add: map_of_delete)
  then show ?thesis
    by (auto simp: announces_def Edit_def Let_def emits_rules upd_refl split: sum.split option.split)
qed

lemma announces_Cancel: "announces (op_events cr now (OpCancel c) s) s (exec cr now (OpCancel c) s)"
proof -
  have "upd [ev_removed k (e_Offer e)] s (remove k (s\<lparr>cancelNonce := m\<rparr>))" if "map_of (entries s) k = Some e" for k e m
    using upd_remove [of "s\<lparr>cancelNonce := m\<rparr>" k e] that by (simp add: upd_def view_def)
  then show ?thesis
    by (auto simp: announces_def Cancel_def Let_def emits_rules upd_refl split: sum.split option.split)
qed

lemma announces_ApplyPartialFill:
  "announces (op_events cr now (OpApplyPartialFill k n tx confs) s) s (exec cr now (OpApplyPartialFill k n tx confs) s)"
proof (cases "map_of (entries s) k")
  case (Some e)
  let ?e = "fill_entry n tx confs e"
  have set: "upd [] s (set_entry k ?e s)" using Some by (simp add: upd_set_entry)
  have "upd [ev_removed k (e_Offer ?e)] (set_entry k ?e s) (remove k (set_entry k ?e s))"
    by (rule upd_remove) (simp add: map_of_update)
  from set upd_trans [OF set this] Some show ?thesis
    by (auto simp: announces_def ApplyPartialFill_def fill_events_def Let_def emits_rules)
qed (simp add: ApplyPartialFill_def announces_frame)

text \<open>A change of fields other than the book's entries and subscribers may come first.\<close>

lemma announces_pre:
  "announces evs s0 s' \<Longrightarrow> entries s0 = entries s \<Longrightarrow> subs s0 = subs s \<Longrightarrow> announces evs s s'"
  by (simp add: announces_def upd_def emits_def view_def)

lemma fill_entry_clamp: "fill_entry (if e_ActiveAmount e < n then e_ActiveAmount e else n) tx confs e = fill_entry n tx confs e"
  by (simp add: fill_entry_def)

lemma announces_RecordSettledFill:
  "announces (op_events cr now (OpRecordSettledFill k n tx confs nonce) s) s
     (exec cr now (OpRecordSettledFill k n tx confs nonce) s)"
proof (cases "map_of (entries s) k")
  case None
  then show ?thesis by (auto simp: RecordSettledFill_def Let_def announces_frame)
next
  case (Some e)
  let ?n = "if e_ActiveAmount e < n then e_ActiveAmount e else n"
  let ?s = "RecordTrade now (Some (e_Offer e)) ?n (s\<lparr>settledNonce := AList.update k nonce (settledNonce s)\<rparr>)"
  have "announces (fill_events k (fill_entry n tx confs e)) ?s (fst (ApplyPartialFill k ?n tx confs ?s))"
    using announces_ApplyPartialFill [of undefined undefined k ?n tx confs ?s] Some by (simp add: fill_entry_clamp del: if_split)
  then have "announces (fill_events k (fill_entry n tx confs e)) s (fst (ApplyPartialFill k ?n tx confs ?s))"
    by (rule announces_pre) simp_all
  with Some show ?thesis
    by (auto simp: RecordSettledFill_def Let_def announces_frame word_gt_0)
qed

lemma announces_drop: "announces (drop_events k st s) s (fst (dropWithStatus k st s))"
  by (auto simp: announces_def dropWithStatus_def drop_events_def Let_def emits_rules upd_refl
      upd_remove split: option.split)

lemma announces_Reopen:
  assumes "reopen_fresh (OpReopen ofr n) s"
  shows "announces (op_events cr now (OpReopen ofr n) s) s (exec cr now (OpReopen ofr n) s)"
proof -
  have "upd [ev_created ofr] s (put (keyOf ofr) (new_entry now ofr st m) s)" for st m
    using upd_put [of "new_entry now ofr st m" "keyOf ofr" s] assms by (simp add: reopen_fresh_def split: option.splits)
  then show ?thesis
    by (auto simp: announces_def Reopen_def Let_def emits_rules upd_refl split: sum.split)
qed

lemma announces_on_covenant:
  assumes "\<And>e. map_of (entries s) k = Some e \<Longrightarrow> announces (g e) s (f e s)"
  shows "announces (covenant_events k g s) s (on_covenant k f s)"
proof (cases "map_of (entries s) k")
  case (Some e)
  with assms [OF Some] show ?thesis
    by (cases "GetCovenant (e_Offer e) = None") (auto simp: covenant_events_def on_covenant_def announces_frame GetCovenant_None)
qed (simp add: covenant_events_def on_covenant_def announces_frame)

lemma announces_HoldCovenantGhost:
  "announces (op_events cr now (OpHoldCovenantGhost k) s) s (exec cr now (OpHoldCovenantGhost k) s)"
  unfolding op_events.simps exec.simps HoldCovenantGhost_def
  by (rule announces_on_covenant) (auto simp: announces_def Let_def emits_rules upd_set_entry)

lemma announces_ReconcileCovenantActive:
  "announces (op_events cr now (OpReconcileCovenantActive k n) s) s (exec cr now (OpReconcileCovenantActive k n) s)"
  unfolding op_events.simps exec.simps ReconcileCovenantActive_def
  by (rule announces_on_covenant) (auto simp: announces_def Let_def emits_rules upd_set_entry)

lemma announces_HoldCovenantForSpend:
  "announces (op_events cr now (OpHoldCovenantForSpend k tx) s) s (exec cr now (OpHoldCovenantForSpend k tx) s)"
  unfolding op_events.simps exec.simps HoldCovenantForSpend_def
  by (rule announces_on_covenant) (auto simp: announces_def Let_def emits_rules upd_set_entry)

lemma announces_RemoveCovenantFilled:
  "announces (op_events cr now (OpRemoveCovenantFilled k tx) s) s (exec cr now (OpRemoveCovenantFilled k tx) s)"
  unfolding op_events.simps exec.simps RemoveCovenantFilled_def
  by (rule announces_on_covenant) (auto simp: announces_def Let_def emits_rules upd_set_entry upd_remove)

lemma announces_RerestCovenantRemainder:
  assumes "book_ok cr s"
  shows "announces (op_events cr now (OpRerestCovenantRemainder k tx vout n) s) s
    (exec cr now (OpRerestCovenantRemainder k tx vout n) s)"
  unfolding op_events.simps exec.simps RerestCovenantRemainder_def
proof (rule announces_on_covenant, goal_cases)
  case (1 e)
  have "upd [ev_created (set_outpoint tx vout (e_Offer e))] s (set_entry k (rerest_entry tx vout m e) s)" for m
    using upd_set_entry_offer [OF 1, of "rerest_entry tx vout m e"] book_okD(3) [OF assms 1] by (simp add: entry_ok_def)
  moreover have "upd [ev, ev_status k e'] s s'" if "upd [ev] s s'" for ev e' s'
    using that by (simp add: upd_def replay_Cons)
  ultimately show ?case
    by (auto simp: announces_def Let_def emits_rules)
qed

lemma announces_RemoveInteractiveByKeys:
  "announces (op_events cr now (OpRemoveInteractiveByKeys ks) s) s (exec cr now (OpRemoveInteractiveByKeys ks) s)"
proof -
  have "upd (snd (remove_interactive_keys ks s)) s
      (broadcast_all (snd (remove_interactive_keys ks s)) (fst (remove_interactive_keys ks s)))"
    by (simp add: upd_remove_interactive_keys)
  then show ?thesis
    by (simp add: announces_def RemoveInteractiveByKeys_def emits_broadcast_all case_prod_beta)
qed

lemma announces_bulk:
  assumes "gomap_ok (entries s)"
  shows "announces (removed_events (filter P (entries s))) s
      (broadcast_all (removed_events (filter P (entries s))) (remove_all (map fst (filter P (entries s))) s))"
  by (simp add: announces_def emits_broadcast_all)
    (rule upd_remove_all, use filtered_victims [OF assms] in auto)

lemma announces_sweep:
  assumes "gomap_ok (entries s)"
  shows "announces (op_events cr now OpSweepExpired s) s (exec cr now OpSweepExpired s)"
proof -
  let ?P = "\<lambda>(k, e). ExpiresAtUnix (e_Offer e) \<noteq> 0 \<and> ExpiresAtUnix (e_Offer e) \<le> unix_seconds now"
  have "upd (removed_events (filter ?P (entries s))) s (remove_all (map fst (filter ?P (entries s))) s)"
    by (rule upd_remove_all) (use filtered_victims [OF assms, where P = ?P] in auto)
  then have "upd (op_events cr now OpSweepExpired s) s (remove_all (map fst (filter ?P (entries s))) s)"
    by (simp add: upd_expired)
  then show ?thesis
    unfolding announces_def
    by (simp add: SweepExpired_def Let_def emits_broadcast_all)
qed

definition book_op :: "store_op \<Rightarrow> bool" where
  "book_op op \<longleftrightarrow> (case op of OpSubscribe _ _ \<Rightarrow> False | OpUnsubscribe _ \<Rightarrow> False | OpReceive _ \<Rightarrow> False | _ \<Rightarrow> True)"

lemma announces_exec:
  assumes "book_ok cr s" "reopen_fresh op s" "book_op op"
  shows "announces (op_events cr now op s) s (exec cr now op s)"
proof (cases op)
  case (OpSubmit ofr) then show ?thesis using announces_Submit by simp
next
  case (OpEdit ofr) then show ?thesis using announces_Edit by simp
next
  case (OpCancel c) then show ?thesis using announces_Cancel by simp
next
  case (OpApplyPartialFill k n tx confs) then show ?thesis using announces_ApplyPartialFill by simp
next
  case (OpRecordSettledFill k n tx confs nonce) then show ?thesis using announces_RecordSettledFill by simp
next
  case (OpReopen ofr n) then show ?thesis using announces_Reopen assms(2) by simp
next
  case OpSweepExpired then show ?thesis using announces_sweep book_okD(1) [OF assms(1)] by simp
next
  case (OpRemoveInteractiveByKeys ks) then show ?thesis using announces_RemoveInteractiveByKeys by simp
next
  case (OpHoldCovenantGhost k) then show ?thesis using announces_HoldCovenantGhost by simp
next
  case (OpReconcileCovenantActive k n) then show ?thesis using announces_ReconcileCovenantActive by simp
next
  case (OpRerestCovenantRemainder k tx vout n) then show ?thesis
    using announces_RerestCovenantRemainder [OF assms(1)] by simp
next
  case (OpHoldCovenantForSpend k tx) then show ?thesis using announces_HoldCovenantForSpend by simp
next
  case (OpRemoveCovenantFilled k tx) then show ?thesis using announces_RemoveCovenantFilled by simp
next
  case (OpRemoveInteractiveByMaker m) then show ?thesis
    using announces_bulk [OF book_okD(1) [OF assms(1)]] by (simp add: RemoveInteractiveByMaker_def Let_def removed_events_def)
next
  case (OpRemoveByMaker m) then show ?thesis
    using announces_bulk [OF book_okD(1) [OF assms(1)]] by (simp add: RemoveByMaker_def Let_def removed_events_def)
next
  case (OpMarkInvalidated k) then show ?thesis using announces_drop by (simp add: MarkInvalidated_def)
next
  case (OpRetireIncoming k st) then show ?thesis
    using announces_drop [of k st s] by (auto simp: RetireIncoming_def drop_events_def announces_frame split: option.split)
qed (use assms(3) in \<open>auto simp: book_op_def announces_frame RetractTrade_def Let_def SetInteractiveCap_def SetSubBuf_def\<close>)

section \<open>A subscription\<close>

text \<open>The events routed to a subscriber, numbered on from \<open>n\<close>.\<close>

fun stamp :: "u64 \<Rightarrow> event list \<Rightarrow> event list" where
  "stamp n [] = []"
| "stamp n (ev # evs) = ev\<lparr>ev_Seq := n + 1\<rparr> # stamp (n + 1) evs"

lemma length_stamp [simp]: "length (stamp n evs) = length evs"
  by (induction evs arbitrary: n) simp_all

lemma stamp_seqs: "map ev_Seq (stamp n evs) = map (\<lambda>i. n + of_nat i) [1..<Suc (length evs)]"
proof (induction evs arbitrary: n)
  case (Cons ev evs)
  have "[1..<Suc (length (ev # evs))] = 1 # map Suc [1..<Suc (length evs)]"
    by (simp add: map_Suc_upt upt_conv_Cons del: upt_Suc)
  with Cons show ?case by (simp add: add.assoc del: upt_Suc)
qed simp

lemma fold_apply_stamp: "fold apply_event (stamp n evs) m = fold apply_event evs m"
  by (induction evs arbitrary: n m) (auto simp: apply_event_def split: event_type.split)

lemma deliver_fields [simp]:
  "sub_pair (deliver ev sub) = sub_pair sub" "sub_confidential (deliver ev sub) = sub_confidential sub"
  "sub_cap (deliver ev sub) = sub_cap sub"
  by (simp_all add: deliver_def Let_def)

lemma routed_routed_to: "routed ev sub \<longleftrightarrow> routed_to (sub_pair sub) (sub_confidential sub) ev"
  by (simp add: routed_def routed_to_def)

lemma fold_deliver:
  fixes evs :: "event list" and sub :: subscriber
  defines "r \<equiv> filter (routed_to (sub_pair sub) (sub_confidential sub)) evs"
  shows "sub_pair (fold deliver evs sub) = sub_pair sub \<and> sub_confidential (fold deliver evs sub) = sub_confidential sub \<and>
    sub_seq (fold deliver evs sub) = sub_seq sub + of_nat (length r) \<and>
    (\<exists>d. sub_ch (fold deliver evs sub) = sub_ch sub @ d \<and> subseq d (stamp (sub_seq sub) r))"
  unfolding r_def
proof (induction evs arbitrary: sub)
  case (Cons ev evs)
  let ?sub = "deliver ev sub"
  from Cons [of ?sub] obtain d where d: "sub_ch (fold deliver evs ?sub) = sub_ch ?sub @ d"
      "subseq d (stamp (sub_seq ?sub) (filter (routed_to (sub_pair sub) (sub_confidential sub)) evs))"
    by auto
  show ?case
  proof (cases "routed ev sub")
    case False
    then have "?sub = sub" by (simp add: deliver_def)
    with Cons [of ?sub] False show ?thesis by (simp add: routed_routed_to)
  next
    case True
    then have sub: "sub_seq ?sub = sub_seq sub + 1"
        "sub_ch ?sub = sub_ch sub @ (if length (sub_ch sub) < sub_cap sub then [ev\<lparr>ev_Seq := sub_seq sub + 1\<rparr>] else [])"
      by (simp_all add: deliver_def Let_def)
    define d' where "d' = (if length (sub_ch sub) < sub_cap sub then [ev\<lparr>ev_Seq := sub_seq sub + 1\<rparr>] else []) @ d"
    have "subseq d' (stamp (sub_seq sub) (ev # filter (routed_to (sub_pair sub) (sub_confidential sub)) evs))"
      using d(2) sub by (auto simp: d'_def)
    moreover have "sub_ch (fold deliver (ev # evs) sub) = sub_ch sub @ d'"
      using d(1) sub by (simp add: d'_def)
    ultimately show ?thesis
      using Cons [of ?sub] True sub by (auto simp: routed_routed_to add.assoc)
  qed
qed simp

lemma map_of_map_snd: "map_of (map (\<lambda>(i, x). (i, f x)) m) i = map_option f (map_of m i)"
  by (induction m) auto

definition replica_of :: "offer list \<Rightarrow> (key \<rightharpoonup> offer)" where
  "replica_of offers = fold (\<lambda>ofr m. m(keyOf ofr \<mapsto> ofr)) offers Map.empty"

lemma replica_of_fold:
  "fold (\<lambda>ofr m. m(keyOf ofr \<mapsto> ofr)) xs m k =
     (case find (\<lambda>ofr. keyOf ofr = k) (rev xs) of None \<Rightarrow> m k | Some ofr \<Rightarrow> Some ofr)"
  by (induction xs rule: rev_induct) auto

lemma find_SomeD: "find P xs = Some x \<Longrightarrow> x \<in> set xs \<and> P x"
  by (induction xs) (auto split: if_splits)

lemma replica_of_iff:
  assumes "inj_on keyOf (set xs)"
  shows "replica_of xs k = Some ofr \<longleftrightarrow> ofr \<in> set xs \<and> keyOf ofr = k"
proof
  assume "replica_of xs k = Some ofr"
  then show "ofr \<in> set xs \<and> keyOf ofr = k"
    by (auto simp: replica_of_def replica_of_fold split: option.splits dest!: find_SomeD)
next
  assume *: "ofr \<in> set xs \<and> keyOf ofr = k"
  then have "find (\<lambda>ofr. keyOf ofr = k) (rev xs) \<noteq> None"
    by (simp add: find_None_iff) blast
  then obtain ofr' where f: "find (\<lambda>ofr. keyOf ofr = k) (rev xs) = Some ofr'" by blast
  then have "ofr' \<in> set xs" "keyOf ofr' = k"
    by (auto dest: find_SomeD)
  with * assms have "ofr' = ofr" by (auto dest: inj_onD)
  with f show "replica_of xs k = Some ofr" by (simp add: replica_of_def replica_of_fold)
qed

lemma replica_of_view:
  assumes "book_ok cr s"
    and "\<And>ofr. ofr \<in> set xs \<longleftrightarrow> (\<exists>k e. map_of (entries s) k = Some e \<and> in_view p c (e_Offer e) \<and> ofr = e_Offer e)"
  shows "replica_of xs = view p c s"
proof
  fix k
  have key: "keyOf (e_Offer e) = k'" if "map_of (entries s) k' = Some e" for k' e
    using book_okD(3) [OF assms(1) that] by (simp add: entry_ok_def)
  have inj: "inj_on keyOf (set xs)"
    by (rule inj_onI) (use key in \<open>fastforce simp: assms(2)\<close>)
  have "replica_of xs k = Some ofr \<longleftrightarrow> view p c s k = Some ofr" for ofr
    using key by (auto simp: replica_of_iff [OF inj] assms(2) view_def split: option.splits)
  then show "replica_of xs k = view p c s k"
    by (metis not_Some_eq)
qed

definition filter_key :: "asset_pair option \<Rightarrow> string" where
  "filter_key pf = (case pf of None \<Rightarrow> '''' | Some _ \<Rightarrow> pairKey pf)"

lemma pairKey_nonempty [simp]: "pairKey p \<noteq> ''''"
  by (simp add: pairKey_def)

lemma Subscribe_snapshot:
  assumes "book_ok cr s" "index_exact s" "Subscribe pf c s = (s', offers, i)"
  shows "replica_of offers = view (filter_key pf) c s"
proof (rule replica_of_view [OF assms(1)])
  fix ofr
  note ok = book_okD [OF assms(1)]
  show "ofr \<in> set offers \<longleftrightarrow>
      (\<exists>k e. map_of (entries s) k = Some e \<and> in_view (filter_key pf) c (e_Offer e) \<and> ofr = e_Offer e)"
  proof (cases pf)
    case None
    then have "set offers = {e_Offer e | k e. (k, e) \<in> set (entries s) \<and> Confidential (e_Offer e) = c}"
      using assms(3) by (force simp: Subscribe_def Let_def)
    with ok(1) None show ?thesis by (auto simp: gomap_mem in_view_def filter_key_def)
  next
    case (Some pr)
    let ?ks = "gomap_get [] (pairs s) (pairKey pf)"
    have "set offers = {e_Offer e | k e. k \<in> set ?ks \<and> map_of (entries s) k = Some e \<and> Confidential (e_Offer e) = c}"
      using assms(3) Some by (auto simp: Subscribe_def Let_def snapshotLocked_def List.map_filter_def
          split: option.splits if_splits) force+
    moreover have "k \<in> set ?ks \<longleftrightarrow> pairKey pf = pairKey (Pair (e_Offer e))" if "map_of (entries s) k = Some e" for k e
      using ok(4) [OF that] assms(2) that by (fastforce simp: index_exact_def)
    ultimately show ?thesis using Some by (simp add: in_view_def filter_key_def) metis
  qed
qed

section \<open>Convergence of a subscriber\<close>

text \<open>
  One subscription from its snapshot on: \<open>sent\<close> are all events routed to it so far, numbered,
  \<open>rcv\<close> those its consumer has taken off the channel. Other subscribers come and go freely.
\<close>

definition leaves_sub :: "nat \<Rightarrow> store_op \<Rightarrow> bool" where
  "leaves_sub i op \<longleftrightarrow> op \<noteq> OpUnsubscribe i \<and> op \<noteq> OpReceive i"

inductive subscription ::
  "crypto \<Rightarrow> nat \<Rightarrow> string \<Rightarrow> bool \<Rightarrow> (key \<rightharpoonup> offer) \<Rightarrow> store \<Rightarrow> event list \<Rightarrow> event list \<Rightarrow> bool"
  for cr i p c snap where
  subscription_start:
    "reachable_fresh cr s \<Longrightarrow> Subscribe pf c s = (s', offers, i) \<Longrightarrow> p = filter_key pf \<Longrightarrow> snap = replica_of offers \<Longrightarrow>
     subscription cr i p c snap s' [] []"
| subscription_op:
    "subscription cr i p c snap s sent rcv \<Longrightarrow> reopen_fresh op s \<Longrightarrow> leaves_sub i op \<Longrightarrow>
     subscription cr i p c snap (exec cr now op s)
       (sent @ stamp (of_nat (length sent)) (filter (routed_to p c) (op_events cr now op s))) rcv"
| subscription_receive:
    "subscription cr i p c snap s sent rcv \<Longrightarrow> Receive i s = (s', Some ev) \<Longrightarrow> subscription cr i p c snap s' sent (rcv @ [ev])"

definition sub_tracks :: "nat \<Rightarrow> string \<Rightarrow> bool \<Rightarrow> store \<Rightarrow> event list \<Rightarrow> event list \<Rightarrow> bool" where
  "sub_tracks i p c s sent rcv \<longleftrightarrow>
     i < nextSub s \<and>
     (\<exists>sub. map_of (subs s) i = Some sub \<and> sub_pair sub = p \<and> sub_confidential sub = c \<and>
        sub_seq sub = of_nat (length sent) \<and> subseq (rcv @ sub_ch sub) sent)"

definition subscription_inv ::
  "crypto \<Rightarrow> nat \<Rightarrow> string \<Rightarrow> bool \<Rightarrow> (key \<rightharpoonup> offer) \<Rightarrow> store \<Rightarrow> event list \<Rightarrow> event list \<Rightarrow> bool" where
  "subscription_inv cr i p c snap s sent rcv \<longleftrightarrow>
     reachable_fresh cr s \<and> fold apply_event sent snap = view p c s \<and>
     map ev_Seq sent = map of_nat [1..<Suc (length sent)] \<and> sub_tracks i p c s sent rcv"

lemma nextSub_frame [simp]:
  "nextSub (broadcast ev s) = nextSub s" "nextSub (remove k s) = nextSub s" "nextSub (put k e s) = nextSub s"
  "nextSub (set_entry k e s) = nextSub s" "nextSub (RecordTradeTx now oo n tx s) = nextSub s"
  "nextSub (RecordTrade now oo n s) = nextSub s" "nextSub (append_log r s) = nextSub s"
  by (simp_all add: broadcast_def remove_def put_def set_entry_def RecordTradeTx_def RecordTrade_def append_log_def
      Let_def split: option.split)

lemma nextSub_bulk [simp]:
  "nextSub (remove_all ks s) = nextSub s" "nextSub (broadcast_all evs s) = nextSub s"
  "nextSub (fst (remove_interactive_keys ks s)) = nextSub s"
proof -
  show "nextSub (remove_all ks s) = nextSub s"
    by (induction ks arbitrary: s) (simp_all add: remove_all_def)
  show "nextSub (broadcast_all evs s) = nextSub s"
    by (induction evs arbitrary: s) (simp_all add: broadcast_all_def)
  show "nextSub (fst (remove_interactive_keys ks s)) = nextSub s"
    by (induction ks s rule: remove_interactive_keys.induct) (auto split: option.split prod.split)
qed

lemma nextSub_exec: "nextSub s \<le> nextSub (exec cr now op s)"
proof -
  have fill: "nextSub (fst (ApplyPartialFill k n tx confs s)) = nextSub s" for k n tx confs s
    by (simp add: ApplyPartialFill_def Let_def split: option.split)
  have drop: "nextSub (fst (dropWithStatus k st s)) = nextSub s" for k st s
    by (simp add: dropWithStatus_def Let_def split: option.split)
  have cov: "nextSub (on_covenant k f s) = nextSub s" if "\<And>e. nextSub (f e s) = nextSub s" for k f
    using that by (simp add: on_covenant_def split: option.split)
  show ?thesis
    by (cases op)
      (auto simp: fill drop Submit_def Edit_def Cancel_def RecordSettledFill_def MarkInvalidated_def RetireIncoming_def
        Reopen_def SweepExpired_def RemoveInteractiveByMaker_def RemoveInteractiveByKeys_def RemoveByMaker_def
        RetractTrade_def Subscribe_def Unsubscribe_def Receive_def SetInteractiveCap_def SetSubBuf_def
        HoldCovenantGhost_def ReconcileCovenantActive_def RerestCovenantRemainder_def HoldCovenantForSpend_def
        RemoveCovenantFilled_def Let_def case_prod_beta intro!: eq_imp_le [OF cov [symmetric]]
        split: sum.split option.split list.split)
qed

lemma sub_tracks_book_op:
  assumes "sub_tracks i p c s sent rcv" "emits evs s s'" "nextSub s \<le> nextSub s'"
  shows "sub_tracks i p c s' (sent @ stamp (of_nat (length sent)) (filter (routed_to p c) evs)) rcv"
proof -
  from assms(1) obtain sub where i: "i < nextSub s" and sub: "map_of (subs s) i = Some sub" "sub_pair sub = p"
      "sub_confidential sub = c" "sub_seq sub = of_nat (length sent)" "subseq (rcv @ sub_ch sub) sent"
    by (auto simp: sub_tracks_def)
  have "map_of (subs s') i = Some (fold deliver evs sub)"
    using assms(2) sub(1) by (simp add: emits_def map_of_map_snd)
  moreover from fold_deliver [of evs sub] sub obtain d where
    "sub_ch (fold deliver evs sub) = sub_ch sub @ d" "subseq d (stamp (of_nat (length sent)) (filter (routed_to p c) evs))"
    by auto
  ultimately show ?thesis
    using fold_deliver [of evs sub] sub i assms(3) list_emb_append_mono [of "(=)" "rcv @ sub_ch sub" sent d]
    by (auto simp: sub_tracks_def)
qed

lemma sub_tracks_other_op:
  assumes "sub_tracks i p c s sent rcv" "\<not> book_op op" "leaves_sub i op"
  shows "sub_tracks i p c (exec cr now op s) sent rcv"
  using assms
  by (cases op) (auto simp: sub_tracks_def book_op_def leaves_sub_def Subscribe_def Unsubscribe_def Receive_def Let_def
      map_of_update map_of_delete split: option.splits list.splits)

lemma view_other_op: "\<not> book_op op \<Longrightarrow> view p c (exec cr now op s) = view p c s"
  by (cases op) (auto simp: book_op_def view_def Subscribe_def Unsubscribe_def Receive_def Let_def
      split: option.splits list.splits)

lemma op_events_other: "\<not> book_op op \<Longrightarrow> op_events cr now op s = []"
  by (cases op) (auto simp: book_op_def)

lemma upt_append_shift:
  "map (of_nat :: nat \<Rightarrow> u64) [1..<Suc (m + n)] = map of_nat [1..<Suc m] @ map (\<lambda>i. of_nat m + of_nat i) [1..<Suc n]"
  by (induction n) (simp_all add: add_ac)

lemma subscription_inv_holds: "subscription cr i p c snap s sent rcv \<Longrightarrow> subscription_inv cr i p c snap s sent rcv"
proof (induction rule: subscription.induct)
  case (subscription_start s pf s' offers)
  have s': "s' = exec cr 0 (OpSubscribe pf c) s" using subscription_start by simp
  then have "reachable_fresh cr s'"
    using subscription_start fresh_exec [of cr s "OpSubscribe pf c" 0] by (simp add: reopen_fresh_def)
  moreover have "view p c s' = view p c s" using view_other_op [of "OpSubscribe pf c"] s' by (simp add: book_op_def)
  moreover have "replica_of offers = view p c s"
    using reachable_fresh_ok [OF subscription_start(1)] Subscribe_snapshot [OF _ _ subscription_start(2)] subscription_start(3) by blast
  moreover have "sub_tracks i p c s' [] []"
    using subscription_start by (auto simp: sub_tracks_def Subscribe_def Let_def map_of_update filter_key_def split: option.split)
  ultimately show ?case by (simp add: subscription_inv_def subscription_start)
next
  case (subscription_op s sent rcv op now)
  let ?r = "filter (routed_to p c) (op_events cr now op s)" and ?s = "exec cr now op s"
  from subscription_op have inv: "reachable_fresh cr s" "fold apply_event sent snap = view p c s"
      "map ev_Seq sent = map of_nat [1..<Suc (length sent)]" "sub_tracks i p c s sent rcv"
    by (auto simp: subscription_inv_def)
  have "view p c ?s = fold apply_event ?r (view p c s) \<and>
      sub_tracks i p c ?s (sent @ stamp (of_nat (length sent)) ?r) rcv"
  proof (cases "book_op op")
    case True
    have "announces (op_events cr now op s) s ?s"
      using announces_exec reachable_fresh_ok [OF inv(1)] subscription_op(2) True by blast
    then show ?thesis
      using sub_tracks_book_op [OF inv(4) _ nextSub_exec] by (simp add: announces_def upd_def replay_def)
  next
    case False
    then show ?thesis
      using sub_tracks_other_op [OF inv(4) False subscription_op(3)] by (simp add: view_other_op op_events_other)
  qed
  moreover have "map ev_Seq (sent @ stamp (of_nat (length sent)) ?r) =
      map of_nat [1..<Suc (length (sent @ stamp (of_nat (length sent)) ?r))]"
    using inv(3) by (simp only: map_append stamp_seqs length_append length_stamp upt_append_shift)
  ultimately show ?case
    using inv(2) fresh_exec [OF inv(1) subscription_op(2), of now]
    by (simp add: subscription_inv_def fold_apply_stamp del: upt_Suc)
next
  case (subscription_receive s sent rcv s' ev)
  have s': "s' = exec cr 0 (OpReceive i) s" using subscription_receive(2) by simp
  then have "reachable_fresh cr s'"
    using subscription_receive fresh_exec [of cr s "OpReceive i" 0] by (simp add: subscription_inv_def reopen_fresh_def)
  moreover have "view p c s' = view p c s" using view_other_op [of "OpReceive i"] s' by (simp add: book_op_def)
  moreover have "sub_tracks i p c s' sent (rcv @ [ev])"
    using subscription_receive by (auto simp: subscription_inv_def sub_tracks_def Receive_def map_of_update split: option.splits list.splits)
  ultimately show ?case using subscription_receive by (simp add: subscription_inv_def)
qed

text \<open>Below \<open>2 ^ 64\<close> events, numbers identify events: consecutive numbers mean no event is missing.\<close>

lemma subseq_consecutive:
  assumes "subseq xs ys" "map f ys = map g [1..<Suc (length ys)]" "inj_on g {1..length ys}"
    "map f xs = map g [1..<Suc (length xs)]"
  shows "xs = take (length xs) ys"
  using assms
proof (induction ys arbitrary: xs rule: rev_induct)
  case (snoc y ys)
  have len: "length xs \<le> length (ys @ [y])" using snoc.prems(1) by (rule list_emb_length)
  have ys: "map f ys = map g [1..<Suc (length ys)]" and y: "f y = g (Suc (length ys))"
    using snoc.prems(2) by (auto simp: append_eq_append_conv)
  have inj: "inj_on g {1..length ys}" using snoc.prems(3) by (rule inj_on_subset) auto
  show ?case
  proof (cases "subseq xs ys")
    case True
    then show ?thesis using snoc.IH [OF True ys inj snoc.prems(4)] list_emb_length [OF True] by simp
  next
    case False
    from snoc.prems(1) obtain xs' zs where split: "xs = xs' @ zs" "subseq xs' ys" "subseq zs [y]"
      by (rule subseq_appendE)
    with False have "zs = [y]"
      by (cases zs) (auto simp: list_emb.simps [of _ _ "[y]"] split: if_splits)
    with split have xs: "xs = xs' @ [y]" "subseq xs' ys" by simp_all
    then have "f y = g (Suc (length xs'))" using snoc.prems(4) by simp
    with y have "g (Suc (length xs')) = g (Suc (length ys))" by simp
    with snoc.prems(3) list_emb_length [OF xs(2)] have "length xs' = length ys" by (auto dest: inj_onD)
    with xs(2) have "xs' = ys" by (metis subseq_same_length)
    with xs show ?thesis by simp
  qed
qed simp

lemma inj_on_of_nat_u64: "n < 18446744073709551616 \<Longrightarrow> inj_on (of_nat :: nat \<Rightarrow> u64) {1..n}"
  by (rule inj_onI) (auto intro: u64_of_nat_inject)

lemma subscription_no_gap:
  assumes "subscription cr i p c snap s sent rcv" "length sent < 18446744073709551616"
    "map_of (subs s) i = Some sub" "sub_ch sub = []"
    "map ev_Seq rcv = map of_nat [1..<Suc (length rcv)]" "sub_seq sub = of_nat (length rcv)"
  shows "fold apply_event rcv snap = view p c s"
proof -
  from subscription_inv_holds [OF assms(1)] assms(3,4) have inv: "fold apply_event sent snap = view p c s"
      "map ev_Seq sent = map of_nat [1..<Suc (length sent)]" "sub_seq sub = of_nat (length sent)" "subseq rcv sent"
    by (auto simp: subscription_inv_def sub_tracks_def)
  have "length rcv \<le> length sent" by (rule list_emb_length [OF inv(4)])
  moreover have "(of_nat (length rcv) :: u64) = of_nat (length sent)" using inv(3) assms(6) by simp
  ultimately have "length rcv = length sent"
    using assms(2) by (auto intro: u64_of_nat_inject)
  then have "rcv = sent" using inv(4) by (metis subseq_same_length)
  with inv(1) show ?thesis by simp
qed

lemma subscription_prefix:
  assumes "subscription cr i p c snap s sent rcv" "length sent < 18446744073709551616"
    "map ev_Seq rcv = map of_nat [1..<Suc (length rcv)]"
  shows "rcv = take (length rcv) sent"
proof (rule subseq_consecutive [where f = ev_Seq and g = of_nat])
  show "subseq rcv sent"
    using subscription_inv_holds [OF assms(1)]
    by (auto simp: subscription_inv_def sub_tracks_def dest!: list_emb_appendD intro: list_emb_append_mono)
  show "map ev_Seq sent = map of_nat [1..<Suc (length sent)]"
    using subscription_inv_holds [OF assms(1)] by (simp add: subscription_inv_def)
qed (use assms inj_on_of_nat_u64 in auto)

end
