(* ===== verification/Sample_Book.thy ===== *)
theory Sample_Book
  imports Book_Invariant
begin

text \<open>
  Concrete offers and books under \<open>demo_crypto\<close>, on which the theorems of the development are
  evaluated: a covenant ask of 100 at 2 a unit, a same-chain bid for 60 that pays up to 2.5, and the
  book that holds both.
\<close>

definition gold_usdx :: asset_pair where
  "gold_usdx = \<lparr>BaseAsset = ''gold'', QuoteAsset = ''usdx'', PairConfidential = False\<rparr>"

definition ask_terms :: covenant_terms where
  "ask_terms =
     \<lparr>ct_CovenantTxid = hex_EncodeToString (replicate 32 10), ct_CovenantVout = 0,
      ct_AssetA = hex_EncodeToString (replicate 32 1), ct_AssetB = hex_EncodeToString (replicate 32 2),
      ct_RateNum = 2, ct_RateDen = 1, ct_MakerProg = replicate 32 7, ct_MakerProgVer = 1, ct_MinLot = 10,
      ct_ExpiryLocktime = 1000, ct_MakerX = replicate 32 9, ct_InternalKey = [], ct_MerklePath = []\<rparr>"

definition ask_offer :: offer where
  "ask_offer =
     \<lparr>OfferId = ''a'', SchemaVersion = 1, Pair = Some gold_usdx, TradeDir = TRADE_DIR_SELL, BaseAmount = 100,
      OfferAmount = 100, OfferAsset = ''gold'', WantAmount = 200, WantAsset = ''usdx'', AllowPartial = True, MinFill = 0,
      CreatedAtUnix = 1, ExpiresAtUnix = 5000, MakerPubkey = ''020100'', FeeAssetHint = '''', MinAnchorDepth = 0,
      MakerLnNodePubkey = '''', LnConnectHints = [], TimeInForce = TIME_IN_FORCE_UNSPECIFIED, Confidential = False,
      Settlement = Covenant ask_terms, MakerSig = unary_pair 1 1\<rparr>"

definition bid_offer :: offer where
  "bid_offer =
     \<lparr>OfferId = ''b'', SchemaVersion = 1, Pair = Some gold_usdx, TradeDir = TRADE_DIR_BUY, BaseAmount = 60,
      OfferAmount = 150, OfferAsset = ''usdx'', WantAmount = 60, WantAsset = ''gold'', AllowPartial = True, MinFill = 0,
      CreatedAtUnix = 2, ExpiresAtUnix = 5000, MakerPubkey = ''02010100'', FeeAssetHint = '''', MinAnchorDepth = 0,
      MakerLnNodePubkey = '''', LnConnectHints = [], TimeInForce = TIME_IN_FORCE_UNSPECIFIED, Confidential = False,
      Settlement = SameChain \<lparr>sc_MakerRecvAddress = ''addr'', sc_MakerBlindingPub = ''''\<rparr>, MakerSig = unary_pair 2 1\<rparr>"

definition sample_store :: store where
  "sample_store =
     exec demo_crypto (2 * Second) (OpSubmit bid_offer) (exec demo_crypto Second (OpSubmit ask_offer) NewStore)"

definition ask_entry :: entry where
  "ask_entry = new_entry Second ask_offer OFFER_STATUS_OPEN 100"

definition bid_entry :: entry where
  "bid_entry = new_entry (2 * Second) bid_offer OFFER_STATUS_OPEN 60"

lemma sample_keys:
  "keyOf ask_offer = Key ''020100'' ''a''" "keyOf bid_offer = Key ''02010100'' ''b''"
  "pairKey (Pair ask_offer) = ''gold/usdx''" "pairKey (Pair bid_offer) = ''gold/usdx''"
  by (simp_all add: keyOf_def ask_offer_def bid_offer_def gold_usdx_def pairKey_def GetBaseAsset_def GetQuoteAsset_def)

lemma parse_sample_keys:
  "parsePubkeyHex demo_crypto ''020100'' = Inr (PubKey 1 0)" "parsePubkeyHex demo_crypto ''02010100'' = Inr (PubKey 2 0)"
  by (simp_all add: parsePubkeyHex_def from_hex_char_def demo_crypto_def parse_unary_pair_def)

lemma demo_sig: "parseCanonicalSig demo_crypto (unary_pair n 1) = Inr (Signature n 1)"
  by (simp add: parseCanonicalSig_def demo_crypto_def parse_unary_pair secp256k1_N_def)

lemma demo_fields:
  "ecdsa_Verify demo_crypto (Signature n m) h (PubKey x y) \<longleftrightarrow> n = x"
  "proto_Marshal_Offer demo_crypto ofr = Some (string_bytes (OfferId ofr @ MakerPubkey ofr))"
  "proto_Marshal_Cancel demo_crypto c = Some (string_bytes (c_OfferId c @ c_MakerPubkey c))"
  "proto_Size demo_crypto ofr = length (OfferId ofr)"
  by (simp_all add: demo_crypto_def)

lemma demo_verified:
  assumes "parsePubkeyHex demo_crypto (MakerPubkey ofr) = Inr (PubKey n 0)" "MakerSig ofr = unary_pair n 1"
  shows "VerifyOffer demo_crypto (Some ofr) = Inr ()"
  unfolding VerifyOffer_def OfferHash_def CanonicalOfferBytes_def
  by (simp only: option.case assms demo_sig) (simp add: demo_fields Let_def unary_pair_def)

lemma sample_verified: "VerifyOffer demo_crypto (Some ask_offer) = Inr ()" "VerifyOffer demo_crypto (Some bid_offer) = Inr ()"
  by (rule demo_verified [where n = 1], use parse_sample_keys(1) in \<open>simp_all add: ask_offer_def\<close>)
    (rule demo_verified [where n = 2], use parse_sample_keys(2) in \<open>simp_all add: bid_offer_def\<close>)

lemma sample_store_eq:
  "sample_store =
     \<lparr>entries = [(keyOf ask_offer, ask_entry), (keyOf bid_offer, bid_entry)],
      pairs = [(''gold/usdx'', [keyOf bid_offer, keyOf ask_offer])], subs = [], nextSub = 0, cancelNonce = [],
      settledNonce = [], subBuf = 256, trades = [], tradeLog = None, interactiveCap = 0\<rparr>"
proof -
  have some: "Pair ask_offer \<noteq> None" "Pair bid_offer \<noteq> None" "BaseAmount ask_offer = 100" "BaseAmount bid_offer = 60"
    by (simp_all add: ask_offer_def bid_offer_def)
  have first: "exec demo_crypto Second (OpSubmit ask_offer) NewStore =
      NewStore\<lparr>entries := [(keyOf ask_offer, ask_entry)], pairs := [(''gold/usdx'', [keyOf ask_offer])]\<rparr>"
    using some by (simp add: Submit_def sample_verified sample_keys NewStore_def Let_def ask_entry_def put_def new_entry_def
        broadcast_def gomap_get_def)
  show ?thesis
    unfolding sample_store_def first
    using some by (simp add: Submit_def sample_verified sample_keys NewStore_def Let_def bid_entry_def put_def
        new_entry_def broadcast_def gomap_get_def)
qed

lemma sample_gomap: "gomap_ok (entries sample_store)"
  by (simp add: sample_store_eq gomap_ok_def sample_keys)

lemma sample_Get: "Get (keyOf ask_offer) sample_store = Some ask_entry" "Get (keyOf bid_offer) sample_store = Some bid_entry"
  by (simp_all add: Get_def sample_store_eq sample_keys)

lemma sample_reachable: "reachable_fresh demo_crypto sample_store"
  unfolding sample_store_def by (intro reachable_fresh.intros) (simp_all add: reopen_fresh_def)

end
