(* ===== verification/Book_Properties.thy ===== *)
theory Book_Properties
  imports Sample_Book
begin

text \<open>
  Properties of the order book operations: the invariant of reachable books, replay protection of
  cancels and settlement reports across any later history, and what fills, sweeps and evictions do.
\<close>

section \<open>Helpers\<close>

lemma map_of_fold_delete: "map_of (fold AList.delete ks m) k = (if k \<in> set ks then None else map_of m k)"
  by (induction ks arbitrary: m) (auto simp: map_of_delete)

lemma filter_keys_mem:
  assumes "gomap_ok m"
  shows "k \<in> set (map fst (filter P m)) \<longleftrightarrow> (\<exists>v. map_of m k = Some v \<and> P (k, v))"
  using gomap_mem [OF assms, of k] by force

text \<open>The book after a bulk removal of the entries satisfying \<open>P\<close>.\<close>

lemma map_of_removed:
  assumes "gomap_ok m"
  shows "map_of (fold AList.delete (map fst (filter P m)) m) k =
    (case map_of m k of None \<Rightarrow> None | Some v \<Rightarrow> if P (k, v) then None else Some v)"
proof (cases "map_of m k")
  case None
  then show ?thesis by (simp add: map_of_fold_delete)
next
  case (Some v)
  with filter_keys_mem [OF assms, of k P] have "k \<in> set (map fst (filter P m)) \<longleftrightarrow> P (k, v)" by simp
  then show ?thesis using Some by (simp only: map_of_fold_delete option.case)
qed

section \<open>Nonces only grow\<close>

lemma nonce_frame [simp]:
  "cancelNonce (broadcast ev s) = cancelNonce s" "cancelNonce (remove k s) = cancelNonce s"
  "cancelNonce (put k e s) = cancelNonce s" "cancelNonce (set_entry k e s) = cancelNonce s"
  "cancelNonce (RecordTradeTx now oo n tx s) = cancelNonce s"
  "settledNonce (broadcast ev s) = settledNonce s" "settledNonce (remove k s) = settledNonce s"
  "settledNonce (put k e s) = settledNonce s" "settledNonce (set_entry k e s) = settledNonce s"
  "settledNonce (RecordTradeTx now oo n tx s) = settledNonce s"
  by (simp_all add: broadcast_def remove_def put_def set_entry_def RecordTradeTx_def append_log_def Let_def split: option.split)

lemma nonce_frame_more [simp]:
  "cancelNonce (RecordTrade now oo n s) = cancelNonce s" "settledNonce (RecordTrade now oo n s) = settledNonce s"
  by (simp_all add: RecordTrade_def)

lemma nonce_frame_all [simp]:
  "cancelNonce (broadcast_all evs s) = cancelNonce s" "settledNonce (broadcast_all evs s) = settledNonce s"
  "cancelNonce (remove_all ks s) = cancelNonce s" "settledNonce (remove_all ks s) = settledNonce s"
proof -
  show "cancelNonce (broadcast_all evs s) = cancelNonce s" "settledNonce (broadcast_all evs s) = settledNonce s"
    unfolding broadcast_all_def by (induction evs arbitrary: s) simp_all
  show "cancelNonce (remove_all ks s) = cancelNonce s" "settledNonce (remove_all ks s) = settledNonce s"
    unfolding remove_all_def by (induction ks arbitrary: s) simp_all
qed

lemma nonce_remove_interactive_keys [simp]:
  "cancelNonce (fst (remove_interactive_keys ks s)) = cancelNonce s"
  "settledNonce (fst (remove_interactive_keys ks s)) = settledNonce s"
  by (induction ks s rule: remove_interactive_keys.induct) (auto simp: Let_def split: option.split prod.split)

lemma nonce_ApplyPartialFill [simp]:
  "cancelNonce (fst (ApplyPartialFill k n tx confs s)) = cancelNonce s"
  "settledNonce (fst (ApplyPartialFill k n tx confs s)) = settledNonce s"
  by (simp_all add: ApplyPartialFill_def Let_def split: option.split)

lemma nonce_ApplyPartialFill_result: "ApplyPartialFill k n tx confs s = (t, r) \<Longrightarrow> settledNonce t = settledNonce s"
  by (metis fst_conv nonce_ApplyPartialFill(2))

lemmas covenant_op_defs =
  HoldCovenantGhost_def ReconcileCovenantActive_def RerestCovenantRemainder_def HoldCovenantForSpend_def
  RemoveCovenantFilled_def on_covenant_def

lemmas book_op_defs =
  Submit_def Edit_def MarkInvalidated_def RetireIncoming_def dropWithStatus_def Reopen_def SweepExpired_def
  RemoveInteractiveByMaker_def RemoveInteractiveByKeys_def RemoveByMaker_def RetractTrade_def append_log_def Subscribe_def
  Unsubscribe_def Receive_def SetInteractiveCap_def SetSubBuf_def

lemma cancelNonce_exec:
  "cancelNonce (exec cr now op s) = (case op of OpCancel c \<Rightarrow> cancelNonce (fst (Cancel cr c s)) | _ \<Rightarrow> cancelNonce s)"
proof (cases op)
  case (OpRemoveInteractiveByKeys ks)
  then show ?thesis
    by (simp add: RemoveInteractiveByKeys_def case_prod_unfold Let_def)
qed (auto simp: book_op_defs covenant_op_defs RecordSettledFill_def Let_def split: sum.split option.split list.split)

lemma settledNonce_exec:
  "settledNonce (exec cr now op s) =
     (case op of OpRecordSettledFill k n tx confs nonce \<Rightarrow> settledNonce (fst (RecordSettledFill now k n tx confs nonce s))
      | _ \<Rightarrow> settledNonce s)"
proof (cases op)
  case (OpRemoveInteractiveByKeys ks)
  then show ?thesis
    by (simp add: RemoveInteractiveByKeys_def case_prod_unfold Let_def)
qed (auto simp: book_op_defs covenant_op_defs Cancel_def Let_def split: sum.split option.split list.split)

lemma cancelNonce_mono: "gomap_get 0 (cancelNonce s) k \<le> gomap_get 0 (cancelNonce (exec cr now op s)) k"
  by (auto simp: cancelNonce_exec Cancel_def Let_def gomap_get_update not_le split: store_op.split sum.split option.split)

lemma settledNonce_mono: "gomap_get 0 (settledNonce s) k \<le> gomap_get 0 (settledNonce (exec cr now op s)) k"
  by (auto simp: settledNonce_exec RecordSettledFill_def Let_def gomap_get_update not_le
      split: store_op.split sum.split option.split)

definition history :: "crypto \<Rightarrow> (time \<times> store_op) list \<Rightarrow> store \<Rightarrow> store" where
  "history cr ops s = fold (\<lambda>(now, op). exec cr now op) ops s"

lemma nonces_history:
  "gomap_get 0 (cancelNonce s) k \<le> gomap_get 0 (cancelNonce (history cr ops s)) k"
  "gomap_get 0 (settledNonce s) k \<le> gomap_get 0 (settledNonce (history cr ops s)) k"
proof -
  have "gomap_get 0 (cancelNonce s) k \<le> gomap_get 0 (cancelNonce (history cr ops s)) k \<and>
      gomap_get 0 (settledNonce s) k \<le> gomap_get 0 (settledNonce (history cr ops s)) k"
    unfolding history_def
  proof (induction ops arbitrary: s)
    case (Cons p ops)
    obtain now op where p: "p = (now, op)" by fastforce
    from Cons.IH [of "exec cr now op s"] cancelNonce_mono [of s k cr now op] settledNonce_mono [of s k cr now op]
    show ?case by (auto simp: p intro: order_trans)
  qed simp
  then show "gomap_get 0 (cancelNonce s) k \<le> gomap_get 0 (cancelNonce (history cr ops s)) k"
    "gomap_get 0 (settledNonce s) k \<le> gomap_get 0 (settledNonce (history cr ops s)) k" by simp_all
qed

section \<open>Properties\<close>

text \<open>C7: in every book the relay can reach from an empty store, by any sequence of operations, each entry is filed
  under its own key, carries a verified signature, never shows more than it offered, and is indexed under its pair.\<close>

theorem reachable_book_invariant:
  "reachable cr s \<Longrightarrow> book_ok cr s"
  by (rule reachable_book_ok)

lemma sample_reachable_any: "reachable demo_crypto sample_store"
  unfolding sample_store_def by (intro reachable.intros)

theorem reachable_book_invariant_witness: "book_ok demo_crypto sample_store"
  by (rule reachable_book_invariant [OF sample_reachable_any])

text \<open>As long as every reorg re-open restores an offer to the pair and namespace it rests in, the pair index of a reachable
  book is exact: a key is listed under a pair just when an entry of that pair rests under it, and no bucket is empty.\<close>

lemma reachable_index_exact:
  assumes "reachable_fresh cr s"
  shows "(k \<in> set (gomap_get [] (pairs s) pk) \<longleftrightarrow> (\<exists>e. Get k s = Some e \<and> pairKey (Pair (e_Offer e)) = pk)) \<and>
    map_of (pairs s) pk \<noteq> Some []"
proof
  from reachable_fresh_ok [OF assms] have ok: "book_ok cr s" "index_exact s" by auto
  show "k \<in> set (gomap_get [] (pairs s) pk) \<longleftrightarrow> (\<exists>e. Get k s = Some e \<and> pairKey (Pair (e_Offer e)) = pk)"
    using ok book_okD(4) [OF ok(1)] by (auto simp: index_exact_def Get_def)
  show "map_of (pairs s) pk \<noteq> Some []" using ok(1) by (auto simp: book_ok_def)
qed

text \<open>A cancel that was accepted stays spent: after any later history of the book, a correctly signed cancel of the
  same offer with the same or a smaller nonce is refused as stale and changes nothing.\<close>

lemma cancel_replay_refused:
  assumes "Cancel cr c s = (t, Inr ())" "VerifyCancel cr (Some d) = Inr ()"
    "c_MakerPubkey d = c_MakerPubkey c" "c_OfferId d = c_OfferId c" "c_Nonce d \<le> c_Nonce c"
  shows "Cancel cr d (history cr ops t) = (history cr ops t, Inl ErrStaleCancelNonce)"
proof -
  let ?k = "Key (c_MakerPubkey c) (c_OfferId c)"
  have "gomap_get 0 (cancelNonce t) ?k = c_Nonce c"
    using assms(1) by (auto simp: Cancel_def Let_def gomap_get_update split: sum.splits if_splits option.splits)
  then have "c_Nonce d \<le> gomap_get 0 (cancelNonce (history cr ops t)) ?k"
    using nonces_history(1) [of t ?k cr ops] assms(5) by (auto intro: order_trans)
  then show ?thesis using assms(2-4) by (simp add: Cancel_def)
qed

definition ask_cancel :: offer_cancel where
  "ask_cancel = \<lparr>c_OfferId = ''a'', c_MakerPubkey = ''020100'', c_Nonce = 7, c_Sig = unary_pair 1 1\<rparr>"

lemma ask_cancel_verified: "VerifyCancel demo_crypto (Some ask_cancel) = Inr ()"
proof -
  have key: "parsePubkeyHex demo_crypto (c_MakerPubkey ask_cancel) = Inr (PubKey 1 0)"
    using parse_sample_keys by (simp add: ask_cancel_def)
  have sig: "c_Sig ask_cancel = unary_pair 1 1" by (simp add: ask_cancel_def)
  show ?thesis
    unfolding VerifyCancel_def CancelHash_def CanonicalCancelBytes_def
    by (simp only: option.case key sig demo_sig) (simp add: demo_fields unary_pair_def)
qed

lemma ask_cancel_accepted: "\<exists>t. Cancel demo_crypto ask_cancel sample_store = (t, Inr ())"
  by (simp add: Cancel_def ask_cancel_verified Let_def) (simp add: ask_cancel_def sample_store_eq sample_keys gomap_get_def
      nonceBefore_def ask_entry_def new_entry_def)

text \<open>A settlement report on a resting order is counted once: after any later history, a report on the same order
  with the same or a smaller nonce is refused and changes nothing.\<close>

lemma settled_report_replay_refused:
  assumes "map_of (entries s) k \<noteq> None" "RecordSettledFill now k n tx confs nonce s = (t, Inr ())" "nonce' \<le> nonce"
  shows "\<exists>e. RecordSettledFill now' k n' tx' confs' nonce' (history cr ops t) = (history cr ops t, Inl e)"
proof -
  have "gomap_get 0 (settledNonce t) k = nonce"
    using assms(1,2)
    by (auto simp: RecordSettledFill_def Let_def gomap_get_update dest!: nonce_ApplyPartialFill_result split: if_splits)
  then have "nonce' \<le> gomap_get 0 (settledNonce (history cr ops t)) k"
    using nonces_history(2) [of t k cr ops] assms(3) by (auto intro: order_trans)
  then show ?thesis by (simp add: RecordSettledFill_def)
qed

text \<open>A fill lowers the live size by exactly the filled amount (or to zero when more is reported), keeps the signed offer,
  leaves every other order alone, and removes the order just when nothing is left and the maker's anchor depth is reached;
  a fill of an unknown order is an error.\<close>

lemma ApplyPartialFill_functional:
  assumes "ApplyPartialFill k n tx confs s = (t, r)"
  shows "case Get k s of
      None \<Rightarrow> t = s \<and> r = Inl ErrNotFound
    | Some e \<Rightarrow> r = Inr () \<and>
        (let left = unat (e_ActiveAmount e) - unat n in
         Get k t = (if left = 0 \<and> MinAnchorDepth (e_Offer e) \<le> confs then None else Some (fill_entry n tx confs e)) \<and>
         unat (e_ActiveAmount (fill_entry n tx confs e)) = left \<and> e_Offer (fill_entry n tx confs e) = e_Offer e) \<and>
        (\<forall>k'. k' \<noteq> k \<longrightarrow> Get k' t = Get k' s)"
proof (cases "Get k s")
  case None
  with assms show ?thesis by (auto simp: ApplyPartialFill_def Get_def)
next
  case (Some e)
  let ?f = "fill_entry n tx confs e"
  have act: "unat (e_ActiveAmount ?f) = unat (e_ActiveAmount e) - unat n" "e_Offer ?f = e_Offer e"
    by (auto simp: fill_entry_def Let_def u64_less u64_unat_diff u64_le not_less)
  have filled: "e_ActiveAmount ?f = 0 \<and> e_Status ?f = OFFER_STATUS_FILLED \<longleftrightarrow>
      unat (e_ActiveAmount e) - unat n = 0 \<and> MinAnchorDepth (e_Offer e) \<le> confs"
    unfolding act(1) [symmetric] by (auto simp: fill_entry_def Let_def unat_eq_0)
  from assms Some have "r = Inr ()" by (auto simp: ApplyPartialFill_def Get_def Let_def)
  moreover have "Get k' t = (if k' = k then if e_ActiveAmount ?f = 0 \<and> e_Status ?f = OFFER_STATUS_FILLED then None else Some ?f
      else Get k' s)" for k'
    using assms Some by (auto simp: ApplyPartialFill_def Get_def Let_def map_of_update map_of_delete)
  ultimately show ?thesis using Some act unfolding filled by (simp add: Let_def)
qed

text \<open>The expiry sweep removes exactly the orders whose expiry is set and has passed, and counts them.\<close>

lemma SweepExpired_exact:
  assumes "gomap_ok (entries s)" "SweepExpired now s = (t, n)"
  shows "Get k t = (case Get k s of None \<Rightarrow> None | Some e \<Rightarrow>
      if ExpiresAtUnix (e_Offer e) \<noteq> 0 \<and> ExpiresAtUnix (e_Offer e) \<le> unix_seconds now then None else Some e) \<and>
    n = card {k. \<exists>e. Get k s = Some e \<and> ExpiresAtUnix (e_Offer e) \<noteq> 0 \<and> ExpiresAtUnix (e_Offer e) \<le> unix_seconds now}"
proof
  let ?P = "\<lambda>(k :: key, e). ExpiresAtUnix (e_Offer e) \<noteq> 0 \<and> ExpiresAtUnix (e_Offer e) \<le> unix_seconds now"
  let ?vs = "filter ?P (entries s)"
  have t: "entries t = fold AList.delete (map fst ?vs) (entries s)" and n: "n = length ?vs"
    using assms(2) by (auto simp: SweepExpired_def Let_def)
  show "Get k t = (case Get k s of None \<Rightarrow> None | Some e \<Rightarrow>
      if ExpiresAtUnix (e_Offer e) \<noteq> 0 \<and> ExpiresAtUnix (e_Offer e) \<le> unix_seconds now then None else Some e)"
    unfolding Get_def t map_of_removed [OF assms(1)] by (simp split: option.split)
  have "distinct (map fst ?vs)" using assms(1) by (simp add: gomap_ok_def distinct_map_filter)
  then have "n = card (set (map fst ?vs))" by (simp only: distinct_card length_map n)
  also have "set (map fst ?vs) = {k. \<exists>e. Get k s = Some e \<and> ?P (k, e)}"
    by (rule set_eqI) (simp only: filter_keys_mem [OF assms(1)] mem_Collect_eq Get_def)
  finally show "n = card {k. \<exists>e. Get k s = Some e \<and> ExpiresAtUnix (e_Offer e) \<noteq> 0 \<and> ExpiresAtUnix (e_Offer e) \<le> unix_seconds now}"
    by simp
qed

text \<open>Evicting a maker's interactive orders removes exactly its orders without a covenant, and dropping a maker removes
  exactly its same-chain ones.\<close>

lemma eviction_exact:
  assumes "gomap_ok (entries s)"
  shows "Get k (fst (RemoveInteractiveByMaker m s)) =
      (case Get k s of None \<Rightarrow> None | Some e \<Rightarrow>
         if k_MakerPubkey k = m \<and> GetCovenant (e_Offer e) = None then None else Some e) \<and>
    Get k (fst (RemoveByMaker m s)) =
      (case Get k s of None \<Rightarrow> None | Some e \<Rightarrow>
         if k_MakerPubkey k = m \<and> GetSameChain (e_Offer e) \<noteq> None then None else Some e)"
proof
  show "Get k (fst (RemoveInteractiveByMaker m s)) =
      (case Get k s of None \<Rightarrow> None | Some e \<Rightarrow>
         if k_MakerPubkey k = m \<and> GetCovenant (e_Offer e) = None then None else Some e)"
    unfolding RemoveInteractiveByMaker_def Let_def Get_def
    by (simp add: map_of_removed [OF assms, unfolded] del: GetCovenant_None split: option.split)
  have excl: "GetSameChain ofr \<noteq> None \<Longrightarrow> GetCovenant ofr = None" for ofr
    by (cases "Settlement ofr") (auto simp: GetSameChain_def GetCovenant_def)
  show "Get k (fst (RemoveByMaker m s)) =
      (case Get k s of None \<Rightarrow> None | Some e \<Rightarrow>
         if k_MakerPubkey k = m \<and> GetSameChain (e_Offer e) \<noteq> None then None else Some e)"
    unfolding RemoveByMaker_def Let_def Get_def
    using excl by (auto simp: map_of_removed [OF assms] split: option.split)
qed

end
