(* ===== verification/Feed_Properties.thy ===== *)
theory Feed_Properties
  imports Book_Deltas Relay Book_Properties
begin

text \<open>
  Properties of what the relay publishes: the delta stream of the book, the trade feed and its durable
  log, and the trades a covenant order records as its funding moves on chain.
\<close>

section \<open>Delta stream\<close>

text \<open>A subscriber of the whole public book, which sees the sample ask arrive.\<close>

definition watched_store :: store where
  "watched_store = fst (Subscribe None False NewStore)"

definition ask_created :: event where
  "ask_created = (ev_created ask_offer)\<lparr>ev_Seq := 1\<rparr>"

lemma watched_submit:
  "Subscribe None False NewStore = (watched_store, [], 0)"
  "subs (exec demo_crypto Second (OpSubmit ask_offer) watched_store) =
     [(0, \<lparr>sub_pair = '''', sub_confidential = False, sub_ch = [ask_created], sub_cap = 256, sub_seq = 1\<rparr>)]"
proof -
  show "Subscribe None False NewStore = (watched_store, [], 0)"
    by (simp add: watched_store_def Subscribe_def NewStore_def)
  have "Pair ask_offer \<noteq> None" "\<not> Confidential ask_offer" by (simp_all add: ask_offer_def)
  then show "subs (exec demo_crypto Second (OpSubmit ask_offer) watched_store) =
     [(0, \<lparr>sub_pair = '''', sub_confidential = False, sub_ch = [ask_created], sub_cap = 256, sub_seq = 1\<rparr>)]"
    by (simp add: Submit_def sample_verified watched_store_def Subscribe_def NewStore_def Let_def put_def broadcast_def
        deliver_def routed_def ev_created_def ask_created_def)
qed

lemma ask_events: "op_events demo_crypto Second (OpSubmit ask_offer) watched_store = [ev_created ask_offer]"
proof -
  have "Pair ask_offer \<noteq> None" by (simp add: ask_offer_def)
  then show ?thesis
    by (simp add: Submit_def sample_verified watched_store_def Subscribe_def NewStore_def Let_def)
qed

lemma watched_subscription:
  "\<exists>s. subscription demo_crypto 0 '''' False (replica_of []) s [ask_created] [ask_created]"
proof -
  let ?s1 = "exec demo_crypto Second (OpSubmit ask_offer) watched_store"
  have zero: "subscription demo_crypto 0 '''' False (replica_of []) watched_store [] []"
    by (rule subscription_start [OF fresh_new watched_submit(1)]) (simp_all add: filter_key_def)
  have "\<not> Confidential ask_offer" by (simp add: ask_offer_def)
  then have ev: "[] @ stamp (of_nat (length ([] :: event list)))
      (filter (routed_to '''' False) (op_events demo_crypto Second (OpSubmit ask_offer) watched_store)) = [ask_created]"
    unfolding ask_events by (simp add: routed_to_def ev_created_def ask_created_def)
  have "reopen_fresh (OpSubmit ask_offer) watched_store" "leaves_sub 0 (OpSubmit ask_offer)"
    by (simp_all add: reopen_fresh_def leaves_sub_def)
  from subscription_op [OF zero this, of Second]
  have one: "subscription demo_crypto 0 '''' False (replica_of []) ?s1 [ask_created] []" by (simp only: ev)
  obtain s2 where r: "Receive 0 ?s1 = (s2, Some ask_created)"
    and s2: "map_of (subs s2) 0 = Some \<lparr>sub_pair = '''', sub_confidential = False, sub_ch = [], sub_cap = 256, sub_seq = 1\<rparr>"
    by (auto simp: Receive_def watched_submit(2) simp del: exec.simps)
  from subscription_receive [OF one r]
  have two: "subscription demo_crypto 0 '''' False (replica_of []) s2 [ask_created] [ask_created]" by simp
  then show ?thesis by blast
qed

text \<open>Every queued event belongs to its subscriber.\<close>

definition channels_own :: "store \<Rightarrow> bool" where
  "channels_own s \<longleftrightarrow> (\<forall>(i, sub) \<in> set (subs s). \<forall>ev \<in> set (sub_ch sub). routed ev sub)"

lemma routed_irrelevant [simp]:
  "routed (ev\<lparr>ev_Seq := n\<rparr>) sub = routed ev sub" "routed ev (sub\<lparr>sub_ch := l\<rparr>) = routed ev sub"
  "routed ev (sub\<lparr>sub_seq := n\<rparr>) = routed ev sub"
  by (simp_all add: routed_def)

lemma deliver_own:
  "\<forall>x \<in> set (sub_ch sub). routed x sub \<Longrightarrow> y \<in> set (sub_ch (deliver ev sub)) \<Longrightarrow> routed y (deliver ev sub)"
  by (auto simp: deliver_def Let_def split: if_splits)

lemma channels_own_broadcast: "channels_own s \<Longrightarrow> channels_own (broadcast ev s)"
  by (auto simp: channels_own_def broadcast_def intro!: deliver_own)

lemma subs_unchanged [simp]:
  "subs (remove k s) = subs s" "subs (put k e s) = subs s" "subs (set_entry k e s) = subs s"
  "subs (RecordTradeTx now oo n tx s) = subs s" "subs (RecordTrade now oo n s) = subs s" "subs (remove_all ks s) = subs s"
proof -
  show rm: "subs (remove k s) = subs s" for k s by (simp add: remove_def Let_def split: option.split)
  show "subs (remove_all ks s) = subs s" unfolding remove_all_def by (induction ks arbitrary: s) (simp_all add: rm)
qed (simp_all add: put_def set_entry_def RecordTradeTx_def RecordTrade_def append_log_def Let_def split: option.split)

lemma channels_own_steps [intro]:
  "channels_own s \<Longrightarrow> channels_own (remove k s)" "channels_own s \<Longrightarrow> channels_own (put k e s)"
  "channels_own s \<Longrightarrow> channels_own (set_entry k e s)" "channels_own s \<Longrightarrow> channels_own (RecordTradeTx now oo n tx s)"
  "channels_own s \<Longrightarrow> channels_own (RecordTrade now oo n s)" "channels_own s \<Longrightarrow> channels_own (remove_all ks s)"
  "channels_own s \<Longrightarrow> channels_own (s\<lparr>cancelNonce := m\<rparr>)" "channels_own s \<Longrightarrow> channels_own (s\<lparr>settledNonce := m\<rparr>)"
  "channels_own s \<Longrightarrow> channels_own (broadcast ev s)"
  by (simp_all add: channels_own_broadcast) (simp_all add: channels_own_def)

lemma channels_own_broadcast_all [intro]: "channels_own s \<Longrightarrow> channels_own (broadcast_all evs s)"
  unfolding broadcast_all_def by (induction evs arbitrary: s) auto

lemma channels_own_remove_interactive [intro]: "channels_own s \<Longrightarrow> channels_own (fst (remove_interactive_keys ks s))"
proof (induction ks s rule: remove_interactive_keys.induct)
  case (2 k ks s)
  then show ?case using channels_own_steps(1) [of s k] by (auto simp: Let_def split: option.split prod.split)
qed simp

lemma channels_own_ApplyPartialFill [intro]: "channels_own s \<Longrightarrow> channels_own (fst (ApplyPartialFill k n tx confs s))"
  by (auto simp: ApplyPartialFill_def Let_def split: option.split)

lemma in_update: "(i, v) \<in> set (AList.update j w m) \<Longrightarrow> (i, v) \<in> set m \<or> (i, v) = (j, w)"
  by (induction m) (auto split: if_splits)

lemma channels_own_subs:
  assumes "channels_own s"
  shows "channels_own (fst (Subscribe pf c s))" "channels_own (Unsubscribe i s)" "channels_own (fst (Receive i s))"
proof -
  show "channels_own (fst (Subscribe pf c s))"
    using assms by (fastforce simp: channels_own_def Subscribe_def Let_def dest!: in_update)
  show "channels_own (Unsubscribe i s)"
    using assms by (auto simp: channels_own_def Unsubscribe_def AList.delete_eq)
  show "channels_own (fst (Receive i s))"
  proof (cases "snd (Receive i s)")
    case None
    then show ?thesis using assms by (auto simp: Receive_def split: option.splits list.splits)
  next
    case (Some ev)
    then obtain sub rest where sub: "map_of (subs s) i = Some sub" "sub_ch sub = ev # rest"
        "subs (fst (Receive i s)) = AList.update i (sub\<lparr>sub_ch := rest\<rparr>) (subs s)"
      by (auto simp: Receive_def split: option.splits list.splits)
    have "\<forall>x\<in>set rest. routed x sub" using assms map_of_SomeD [OF sub(1)] sub(2) by (fastforce simp: channels_own_def)
    then show ?thesis using assms unfolding channels_own_def sub(3) by (fastforce dest!: in_update)
  qed
qed

lemma channels_own_exec: "channels_own s \<Longrightarrow> channels_own (exec cr now op s)"
proof (cases op)
  case (OpRemoveInteractiveByKeys ks)
  moreover assume "channels_own s"
  ultimately show ?thesis by (auto simp: RemoveInteractiveByKeys_def case_prod_unfold Let_def)
next
  case (OpRetractTrade pr tx)
  moreover assume "channels_own s"
  ultimately show ?thesis by (simp add: RetractTrade_def append_log_def Let_def channels_own_def)
next
  case (OpSetSubBuf n)
  moreover assume "channels_own s"
  ultimately show ?thesis by (simp add: SetSubBuf_def channels_own_def)
next
  case (OpSetInteractiveCap n)
  moreover assume "channels_own s"
  ultimately show ?thesis by (simp add: SetInteractiveCap_def channels_own_def)
qed (auto simp: Submit_def Edit_def Cancel_def MarkInvalidated_def RetireIncoming_def dropWithStatus_def Reopen_def
    SweepExpired_def RemoveInteractiveByMaker_def RemoveByMaker_def RecordSettledFill_def covenant_op_defs Let_def
    channels_own_subs split: sum.split option.split)

text \<open>A subscriber sees no event of the other namespace: everything on the channel of a transparent or confidential
  subscription, in any reachable history, carries that subscription's namespace and its pair.\<close>

lemma namespaces_stay_disjoint:
  assumes "reachable cr s" "map_of (subs s) i = Some sub" "ev \<in> set (sub_ch sub)"
  shows "ev_Confidential ev = sub_confidential sub \<and> (sub_pair sub = '''' \<or> sub_pair sub = pairKey (ev_Pair ev))"
proof -
  have "channels_own s" using assms(1)
  proof (induction rule: reachable.induct)
    case reach_new
    show ?case by (simp add: channels_own_def NewStore_def)
  next
    case (reach_exec s now op)
    then show ?case by (simp add: channels_own_exec)
  qed
  with map_of_SomeD [OF assms(2)] assms(3) show ?thesis by (fastforce simp: channels_own_def routed_def)
qed

section \<open>Trade feed\<close>

lemma ask_price: "0 < fst (displayPrice ask_offer)"
proof -
  have "0 < f64_div (f64_of_nat 200) (f64_of_nat 100)"
    using f64_of_nat_bound [of 100] by (intro f64_div_pos f64_of_nat_pos) simp_all
  then show ?thesis by (simp add: displayPrice_def ask_offer_def)
qed

text \<open>Retracting a settlement removes exactly its trades: every trade of the market with that transaction id, no other
  trade, and no other market's.\<close>

lemma RetractTrade_exact:
  assumes "pr \<noteq> None" "tx \<noteq> ''''"
  shows "TradesFor pr' 0 (fst (RetractTrade now pr tx s)) =
    (if pr' \<noteq> None \<and> pairKey pr' = pairKey pr then filter (\<lambda>t. tr_Txid t \<noteq> tx) (TradesFor pr' 0 s) else TradesFor pr' 0 s)"
proof -
  have "ring (trades (fst (RetractTrade now pr tx s))) =
      (ring (trades s))(pairKey pr := filter (\<lambda>t. tr_Txid t \<noteq> tx) (ring (trades s) (pairKey pr)))"
    using RetractTrade_trades [of "ask_offer\<lparr>Pair := pr\<rparr>" tx now s] assms by simp
  then show ?thesis by (auto simp: TradesFor_def Let_def ring_def fun_eq_iff)
qed

section \<open>Covenant trades\<close>

lemma displayPrice_set_outpoint [simp]: "displayPrice (set_outpoint tx vout ofr) = displayPrice ofr"
  by (simp add: displayPrice_def split: trade_dir.split)

lemma live_size_spend [simp]: "live_size (spend_entry tx e) = live_size e"
  by (simp add: live_size_def [of "spend_entry tx e"])

lemma HoldCovenantForSpend_entry:
  assumes "map_of (entries s) k = Some e" "GetCovenant (e_Offer e) \<noteq> None"
  shows "map_of (entries (HoldCovenantForSpend k tx s)) k = Some (spend_entry tx e)"
    "trades (HoldCovenantForSpend k tx s) = trades s"
  using assms by (auto simp: HoldCovenantForSpend_def on_covenant_def Let_def map_of_update simp del: GetCovenant_Some)

lemma holds_keep:
  assumes "map_of (entries s) k = Some e" "GetCovenant (e_Offer e) \<noteq> None"
  shows "\<exists>e'. map_of (entries (fold (HoldCovenantForSpend k) txs s)) k = Some e' \<and> e_Offer e' = e_Offer e \<and>
    live_size e' = live_size e" "trades (fold (HoldCovenantForSpend k) txs s) = trades s"
proof -
  have "(\<exists>e'. map_of (entries (fold (HoldCovenantForSpend k) txs s)) k = Some e' \<and> e_Offer e' = e_Offer e \<and>
      live_size e' = live_size e) \<and> trades (fold (HoldCovenantForSpend k) txs s) = trades s"
    using assms
  proof (induction txs arbitrary: s e)
    case (Cons tx txs)
    from HoldCovenantForSpend_entry [OF Cons.prems, of tx] Cons.IH [of "HoldCovenantForSpend k tx s" "spend_entry tx e"] Cons.prems(2)
    show ?case by simp
  qed auto
  then show "\<exists>e'. map_of (entries (fold (HoldCovenantForSpend k) txs s)) k = Some e' \<and> e_Offer e' = e_Offer e \<and>
    live_size e' = live_size e" "trades (fold (HoldCovenantForSpend k) txs s) = trades s" by simp_all
qed

text \<open>A confirmed partial fill of a covenant order is recorded once and at its true size: however often the order was held
  for the unconfirmed spend before, re-resting the remainder appends one trade of the live size before the holds less the
  remainder, at the order's price, and leaves the order live at the remainder.\<close>

lemma covenant_partial_fill_recorded:
  assumes "map_of (entries s) k = Some e" "GetCovenant (e_Offer e) \<noteq> None" "Pair (e_Offer e) \<noteq> None"
    "0 < fst (displayPrice (e_Offer e))" "sz < live_size e" "sz \<le> BaseAmount (e_Offer e)"
    "t = RerestCovenantRemainder now k txid vout sz (fold (HoldCovenantForSpend k) txs s)"
  shows "ring (trades t) = (ring (trades s))(pairKey (Pair (e_Offer e)) :=
      push_trade \<lparr>tr_TS = now, tr_Price = fst (displayPrice (e_Offer e)), tr_Size = live_size e - sz, tr_Txid = ''''\<rparr>
        (ring (trades s) (pairKey (Pair (e_Offer e))))) \<and>
    (\<exists>e'. Get k t = Some e' \<and> e_ActiveAmount e' = sz \<and> e_Offer e' = set_outpoint txid vout (e_Offer e))"
proof -
  obtain e' where e': "map_of (entries (fold (HoldCovenantForSpend k) txs s)) k = Some e'" "e_Offer e' = e_Offer e"
      "live_size e' = live_size e"
    using holds_keep(1) [OF assms(1,2)] by blast
  have nz: "live_size e - sz \<noteq> 0" using assms(5) by auto
  have cov: "GetCovenant (e_Offer e') \<noteq> None" using assms(2) e'(2) by simp
  have t: "trades t = trades (RecordTradeTx now (Some (set_outpoint txid vout (e_Offer e))) (live_size e - sz) ''''
      (set_entry k (rerest_entry txid vout sz e') (fold (HoldCovenantForSpend k) txs s)))"
    "map_of (entries t) k = Some (rerest_entry txid vout sz e')"
    using assms(5-7) e' cov nz
    by (auto simp: RerestCovenantRemainder_def on_covenant_def Let_def RecordTrade_def map_of_update word_gt_0 leD
        simp del: GetCovenant_Some)
  show ?thesis
    using t e'(2) holds_keep(2) [OF assms(1,2), of txs] assms(3,4)
      RecordTradeTx_trades [OF nz, of "set_outpoint txid vout (e_Offer e)"]
    by (simp add: Get_def)
qed

end
