(* ===== verification/Feed_Client.thy ===== *)
theory Feed_Client
  imports Relay_Api Feed_Properties
begin

text \<open>
  What a WebSocket subscriber can conclude from its frames: the forwarder announces a gap exactly
  when an event was dropped, because the first event of a subscription is never dropped.
\<close>

section \<open>The first event is kept\<close>

lemma subBuf_frame [simp]:
  "subBuf (broadcast ev s) = subBuf s" "subBuf (remove k s) = subBuf s" "subBuf (put k e s) = subBuf s"
  "subBuf (set_entry k e s) = subBuf s" "subBuf (RecordTradeTx now oo n tx s) = subBuf s"
  "subBuf (RecordTrade now oo n s) = subBuf s" "subBuf (append_log r s) = subBuf s"
  by (simp_all add: broadcast_def remove_def put_def set_entry_def RecordTradeTx_def RecordTrade_def append_log_def
      Let_def split: option.split)

lemma subBuf_bulk [simp]:
  "subBuf (remove_all ks s) = subBuf s" "subBuf (broadcast_all evs s) = subBuf s"
  "subBuf (fst (remove_interactive_keys ks s)) = subBuf s"
proof -
  show "subBuf (remove_all ks s) = subBuf s"
    by (induction ks arbitrary: s) (simp_all add: remove_all_def)
  show "subBuf (broadcast_all evs s) = subBuf s"
    by (induction evs arbitrary: s) (simp_all add: broadcast_all_def)
  show "subBuf (fst (remove_interactive_keys ks s)) = subBuf s"
    by (induction ks s rule: remove_interactive_keys.induct) (auto split: option.split prod.split)
qed

lemma subBuf_exec: "0 < subBuf s \<Longrightarrow> 0 < subBuf (exec cr now op s)"
proof -
  assume pos: "0 < subBuf s"
  have cov: "0 < subBuf (on_covenant k f s)" if "\<And>e. subBuf (f e s) = subBuf s" for k f
    using that pos by (simp add: on_covenant_def split: option.split)
  from pos show ?thesis
    by (cases op)
      (auto simp: ApplyPartialFill_def dropWithStatus_def Submit_def Edit_def Cancel_def RecordSettledFill_def MarkInvalidated_def
        RetireIncoming_def Reopen_def SweepExpired_def RemoveInteractiveByMaker_def RemoveInteractiveByKeys_def RemoveByMaker_def
        RetractTrade_def Subscribe_def Unsubscribe_def Receive_def SetInteractiveCap_def SetSubBuf_def
        HoldCovenantGhost_def ReconcileCovenantActive_def RerestCovenantRemainder_def HoldCovenantForSpend_def
        RemoveCovenantFilled_def Let_def case_prod_beta intro!: cov split: sum.split option.split list.split)
qed

lemma deliver_cap [simp]: "sub_cap (fold deliver evs sub) = sub_cap sub"
  by (induction evs arbitrary: sub) (simp_all add: deliver_def Let_def)

lemma fold_deliver_first:
  assumes "0 < sub_cap sub" "sub_ch sub = []" "filter (routed_to (sub_pair sub) (sub_confidential sub)) evs = ev # rest"
  shows "sub_ch (fold deliver evs sub) \<noteq> [] \<and> hd (sub_ch (fold deliver evs sub)) = ev\<lparr>ev_Seq := sub_seq sub + 1\<rparr>"
  using assms
proof (induction evs)
  case (Cons x evs)
  show ?case
  proof (cases "routed x sub")
    case True
    then have "deliver x sub = sub\<lparr>sub_seq := sub_seq sub + 1, sub_ch := [x\<lparr>ev_Seq := sub_seq sub + 1\<rparr>]\<rparr>" "x = ev"
      using Cons.prems by (simp_all add: deliver_def Let_def routed_routed_to)
    with fold_deliver [of evs "deliver x sub"] show ?thesis by auto
  next
    case False
    with Cons show ?thesis by (simp add: deliver_def routed_routed_to)
  qed
qed simp

definition first_kept :: "nat \<Rightarrow> store \<Rightarrow> event list \<Rightarrow> event list \<Rightarrow> bool" where
  "first_kept i s sent rcv \<longleftrightarrow>
     (\<exists>sub. map_of (subs s) i = Some sub \<and> 0 < sub_cap sub \<and>
        (sent \<noteq> [] \<longrightarrow> rcv @ sub_ch sub \<noteq> [] \<and> hd (rcv @ sub_ch sub) = hd sent))"

lemma first_kept_book_op:
  assumes "first_kept i s sent rcv" "emits evs s s'" "sub_tracks i p c s sent rcv"
  shows "first_kept i s' (sent @ stamp (of_nat (length sent)) (filter (routed_to p c) evs)) rcv"
proof -
  from assms obtain sub where sub: "map_of (subs s) i = Some sub" "0 < sub_cap sub"
      "sent \<noteq> [] \<Longrightarrow> rcv @ sub_ch sub \<noteq> [] \<and> hd (rcv @ sub_ch sub) = hd sent"
      "sub_pair sub = p" "sub_confidential sub = c" "sub_seq sub = of_nat (length sent)" "subseq (rcv @ sub_ch sub) sent"
    by (auto simp: first_kept_def sub_tracks_def)
  let ?new = "stamp (of_nat (length sent)) (filter (routed_to p c) evs)"
  have s': "map_of (subs s') i = Some (fold deliver evs sub)" using assms(2) sub(1) by (simp add: emits_def map_of_map_snd)
  have "rcv @ sub_ch (fold deliver evs sub) \<noteq> [] \<and> hd (rcv @ sub_ch (fold deliver evs sub)) = hd (sent @ ?new)" if ne: "sent @ ?new \<noteq> []"
  proof (cases "sent = []")
    case True
    then have nil: "rcv = []" "sub_ch sub = []" using list_emb_length [OF sub(7)] by simp_all
    from ne True obtain ev rest where f: "filter (routed_to p c) evs = ev # rest"
      by (cases "filter (routed_to p c) evs") auto
    from fold_deliver_first [OF sub(2) nil(2)] f True sub nil show ?thesis by simp
  next
    case False
    from fold_deliver [of evs sub] obtain d where "sub_ch (fold deliver evs sub) = sub_ch sub @ d" by blast
    moreover have "rcv @ sub_ch sub \<noteq> []" "hd (rcv @ sub_ch sub) = hd sent" using sub(3) [OF False] by simp_all
    ultimately show ?thesis using False by (metis append_assoc append_is_Nil_conv hd_append2)
  qed
  with s' sub(2) show ?thesis by (simp add: first_kept_def)
qed

lemma first_kept_other_op:
  assumes "first_kept i s sent rcv" "\<not> book_op op" "leaves_sub i op" "i < nextSub s"
  shows "first_kept i (exec cr now op s) sent rcv"
  using assms
  by (cases op) (auto simp: first_kept_def book_op_def leaves_sub_def Subscribe_def Unsubscribe_def Receive_def Let_def
      map_of_update map_of_delete split: option.splits list.splits)

section \<open>Silent feeds\<close>

definition is_resync :: "from_frame \<Rightarrow> bool" where
  "is_resync fr = (case fr_Msg fr of FromResync _ _ \<Rightarrow> True | _ \<Rightarrow> False)"

definition silent :: "from_frame list \<Rightarrow> bool" where
  "silent frs \<longleftrightarrow> \<not> list_ex is_resync frs"

lemma silent_forward_event: "silent (forward_event l ev) \<longleftrightarrow> l = 0 \<or> ev_Seq ev = l + 1"
  by (simp add: silent_def forward_event_def is_resync_def frame_def delta_msg_def split: event_type.split)

lemma silent_Cons: "silent (forwardDeltas l (ev # evs)) \<longleftrightarrow> (l = 0 \<or> ev_Seq ev = l + 1) \<and> silent (forwardDeltas (ev_Seq ev) evs)"
  using silent_forward_event [of l ev] by (simp add: silent_def)

lemma silent_consecutive:
  assumes "0 < n" "n + length evs < 18446744073709551616"
  shows "silent (forwardDeltas (of_nat n) evs) \<longleftrightarrow> map ev_Seq evs = map of_nat [Suc n..<Suc n + length evs]"
  using assms
proof (induction evs arbitrary: n)
  case (Cons ev evs)
  have "(of_nat n :: u64) \<noteq> 0" using u64_of_nat_inject [of n 0] Cons.prems by auto
  then have "silent (forwardDeltas (of_nat n) (ev # evs)) \<longleftrightarrow>
      ev_Seq ev = of_nat (Suc n) \<and> silent (forwardDeltas (of_nat (Suc n)) evs)"
    unfolding silent_Cons of_nat_Suc by (metis add.commute)
  also have "silent (forwardDeltas (of_nat (Suc n)) evs) \<longleftrightarrow> map ev_Seq evs = map of_nat [Suc (Suc n)..<Suc (Suc n) + length evs]"
    by (rule Cons.IH) (use Cons.prems in simp_all)
  moreover have "[Suc n..<Suc n + length (ev # evs)] = Suc n # [Suc (Suc n)..<Suc (Suc n) + length evs]"
    using upt_conv_Cons [of "Suc n" "Suc n + length (ev # evs)"] by (simp del: upt_Suc)
  ultimately show ?case by (simp only: list.map list.inject)
qed (simp add: silent_def)

lemma silent_prefix:
  assumes seqs: "map ev_Seq sent = map of_nat [1..<Suc (length sent)]" and sub: "subseq rcv sent"
    and first: "rcv \<noteq> [] \<Longrightarrow> hd rcv = hd sent" and bound: "length sent < 18446744073709551616"
  shows "silent (forwardDeltas 0 rcv) \<longleftrightarrow> rcv = take (length rcv) sent"
proof -
  have len: "length rcv \<le> length sent" by (rule list_emb_length [OF sub])
  have "rcv = take (length rcv) sent \<longleftrightarrow> map ev_Seq rcv = map of_nat [1..<Suc (length rcv)]"
  proof
    assume "rcv = take (length rcv) sent"
    then have "map ev_Seq rcv = take (length rcv) (map ev_Seq sent)" by (metis take_map)
    also have "\<dots> = map of_nat [1..<Suc (length rcv)]" unfolding seqs using len by (simp add: take_map take_upt del: upt_Suc)
    finally show "map ev_Seq rcv = map of_nat [1..<Suc (length rcv)]" .
  qed (rule subseq_consecutive [OF sub seqs inj_on_of_nat_u64 [OF bound]])
  moreover have "silent (forwardDeltas 0 rcv) \<longleftrightarrow> map ev_Seq rcv = map of_nat [1..<Suc (length rcv)]"
  proof (cases rcv)
    case (Cons ev evs)
    with sub have ne: "sent \<noteq> []" by auto
    have "hd rcv = hd sent" using first Cons by simp
    moreover have "ev_Seq (hd sent) = 1" using arg_cong [OF seqs, of hd] ne by (simp add: hd_map upt_conv_Cons del: upt_Suc)
    ultimately have one: "ev_Seq ev = of_nat 1" using Cons by simp
    have "silent (forwardDeltas 0 rcv) \<longleftrightarrow> silent (forwardDeltas (of_nat 1) evs)" unfolding Cons silent_Cons one by simp
    also have "\<dots> \<longleftrightarrow> map ev_Seq evs = map of_nat [Suc 1..<Suc 1 + length evs]"
      by (rule silent_consecutive) (use len bound Cons in simp_all)
    finally show ?thesis
      using Cons one upt_conv_Cons [of 1 "Suc (length rcv)"] by simp
  qed (simp add: silent_def)
  ultimately show ?thesis by blast
qed

end
