(* ===== verification/Feed_Interleaving.thy ===== *)
theory Feed_Interleaving
  imports Feed_Client
begin

text \<open>
  Feeds of concurrent operations. Every method of the store changes the book under its mutex and sends its deltas after it has
  released it (\<open>offerstore/store.go\<close>), so deltas of overlapping calls may be sent in another order than their changes were
  made. A step commits the change of one operation, sends one delta of an operation that has committed, or subscribes,
  unsubscribes or receives. The lemmas show what a subscriber can conclude in every such interleaving.
\<close>

section \<open>Writes\<close>








section \<open>Interleavings\<close>

record live_feed =
  fd_store :: store
  fd_pending :: "event list list"
  fd_committed :: "event list"
  fd_delivered :: "event list"

datatype feed_act = Commit time store_op | Deliver nat | Listen store_op

fun feed_enabled :: "crypto \<Rightarrow> feed_act \<Rightarrow> live_feed \<Rightarrow> bool" where
  "feed_enabled cr (Commit now op) f \<longleftrightarrow> book_op op \<and> reopen_fresh op (fd_store f)"
| "feed_enabled cr (Deliver j) f \<longleftrightarrow> j < length (fd_pending f) \<and> fd_pending f ! j \<noteq> []"
| "feed_enabled cr (Listen op) f \<longleftrightarrow> \<not> book_op op"

text \<open>The critical section of an operation leaves the subscribers alone; its deltas wait to be sent, in order.\<close>

fun feed_step :: "crypto \<Rightarrow> feed_act \<Rightarrow> live_feed \<Rightarrow> live_feed" where
  "feed_step cr (Commit now op) f =
     f\<lparr>fd_store := (exec cr now op (fd_store f))\<lparr>subs := subs (fd_store f)\<rparr>,
       fd_pending := fd_pending f @ [op_events cr now op (fd_store f)],
       fd_committed := fd_committed f @ op_events cr now op (fd_store f)\<rparr>"
| "feed_step cr (Deliver j) f =
     f\<lparr>fd_store := broadcast (hd (fd_pending f ! j)) (fd_store f), fd_pending := (fd_pending f)[j := tl (fd_pending f ! j)],
       fd_delivered := fd_delivered f @ [hd (fd_pending f ! j)]\<rparr>"
| "feed_step cr (Listen op) f = f\<lparr>fd_store := exec cr 0 op (fd_store f)\<rparr>"

fun act_sends :: "feed_act \<Rightarrow> live_feed \<Rightarrow> event list" where
  "act_sends (Deliver j) f = [hd (fd_pending f ! j)]"
| "act_sends _ f = []"

fun act_leaves :: "nat \<Rightarrow> feed_act \<Rightarrow> bool" where
  "act_leaves i (Listen op) \<longleftrightarrow> leaves_sub i op"
| "act_leaves i _ \<longleftrightarrow> True"

inductive feeding :: "crypto \<Rightarrow> live_feed \<Rightarrow> bool" for cr where
  feeding_new: "feeding cr \<lparr>fd_store = NewStore, fd_pending = [], fd_committed = [], fd_delivered = []\<rparr>"
| feeding_step: "feeding cr f \<Longrightarrow> feed_enabled cr a f \<Longrightarrow> feeding cr (feed_step cr a f)"

text \<open>One subscription from its snapshot on, in the state \<open>f0\<close>: \<open>sent\<close> are the deltas routed to it so far, numbered, \<open>rcv\<close>
  those its consumer has taken off the channel.\<close>

inductive watching :: "crypto \<Rightarrow> nat \<Rightarrow> string \<Rightarrow> bool \<Rightarrow> (key \<rightharpoonup> offer) \<Rightarrow> live_feed \<Rightarrow> live_feed \<Rightarrow> event list \<Rightarrow> event list \<Rightarrow> bool"
  for cr i p c snap f0 where
  watching_start:
    "feeding cr f0 \<Longrightarrow> Subscribe pf c (fd_store f0) = (s', offers, i) \<Longrightarrow> p = filter_key pf \<Longrightarrow> snap = replica_of offers \<Longrightarrow>
     watching cr i p c snap f0 (f0\<lparr>fd_store := s'\<rparr>) [] []"
| watching_step:
    "watching cr i p c snap f0 f sent rcv \<Longrightarrow> feed_enabled cr a f \<Longrightarrow> act_leaves i a \<Longrightarrow>
     watching cr i p c snap f0 (feed_step cr a f)
       (sent @ stamp (of_nat (length sent)) (filter (routed_to p c) (act_sends a f))) rcv"
| watching_receive:
    "watching cr i p c snap f0 f sent rcv \<Longrightarrow> Receive i (fd_store f) = (s', Some ev) \<Longrightarrow>
     watching cr i p c snap f0 (f\<lparr>fd_store := s'\<rparr>) sent (rcv @ [ev])"

section \<open>Invariants\<close>


lemma subs_update_frame [simp]:
  "book_ok cr (s\<lparr>subs := x\<rparr>) = book_ok cr s" "index_exact (s\<lparr>subs := x\<rparr>) = index_exact s" "view p c (s\<lparr>subs := x\<rparr>) = view p c s"
  by (simp_all add: book_ok_def index_exact_def view_def)

lemma broadcast_frame [simp]:
  "book_ok cr (broadcast ev s) = book_ok cr s" "index_exact (broadcast ev s) = index_exact s" "view p c (broadcast ev s) = view p c s"
  by (simp_all add: broadcast_def)







section \<open>What a subscriber knows\<close>





text \<open>The sample ask is submitted while somebody watches the public book, and announced.\<close>

definition quiet_feed :: live_feed where
  "quiet_feed = \<lparr>fd_store = NewStore, fd_pending = [], fd_committed = [], fd_delivered = []\<rparr>"

definition asking_feed :: live_feed where
  "asking_feed = feed_step demo_crypto (Commit Second (OpSubmit ask_offer)) (quiet_feed\<lparr>fd_store := watched_store\<rparr>)"

lemma asking_feed_fields:
  "fd_pending asking_feed = [[ev_created ask_offer]]" "fd_committed asking_feed = [ev_created ask_offer]" "fd_delivered asking_feed = []"
  "subs (fd_store asking_feed) = subs watched_store" "entries (fd_store asking_feed) = [(keyOf ask_offer, new_entry Second ask_offer OFFER_STATUS_OPEN (BaseAmount ask_offer))]"
proof -
  show "fd_pending asking_feed = [[ev_created ask_offer]]" "fd_committed asking_feed = [ev_created ask_offer]" "fd_delivered asking_feed = []"
      "subs (fd_store asking_feed) = subs watched_store"
    by (simp_all add: asking_feed_def quiet_feed_def ask_events del: op_events.simps exec.simps)
  have "Pair ask_offer \<noteq> None" by (simp add: ask_offer_def)
  then show "entries (fd_store asking_feed) = [(keyOf ask_offer, new_entry Second ask_offer OFFER_STATUS_OPEN (BaseAmount ask_offer))]"
    by (simp add: asking_feed_def quiet_feed_def Submit_def sample_verified watched_store_def Subscribe_def NewStore_def Let_def put_def broadcast_def)
qed

lemma asking_watching: "watching demo_crypto 0 [] False (replica_of []) quiet_feed asking_feed [] []"
proof -
  have start: "watching demo_crypto 0 [] False (replica_of []) quiet_feed (quiet_feed\<lparr>fd_store := watched_store\<rparr>) [] []"
    by (rule watching_start [of _ _ None]) (simp_all add: quiet_feed_def feeding_new watched_submit(1) filter_key_def)
  have "feed_enabled demo_crypto (Commit Second (OpSubmit ask_offer)) (quiet_feed\<lparr>fd_store := watched_store\<rparr>)"
    by (simp add: reopen_fresh_def book_op_def)
  from watching_step [OF start this] show ?thesis by (simp add: asking_feed_def del: feed_step.simps)
qed

lemma ask_routed: "stamp n (filter (routed_to [] False) [ev_created ask_offer]) = [(ev_created ask_offer)\<lparr>ev_Seq := n + 1\<rparr>]"
  by (simp add: routed_to_def ev_created_def ask_offer_def)



text \<open>The order of the broadcasts matters: when the ask is invalidated and that is announced before the ask itself, the subscriber keeps an offer that is gone,
  without a gap in its numbers.\<close>

definition overtaken_feed :: live_feed where
  "overtaken_feed = fold (feed_step demo_crypto) [Commit Second (OpMarkInvalidated (keyOf ask_offer)), Deliver (Suc 0), Deliver (Suc 0), Deliver 0] asking_feed"

lemma overtaken_feed_diverges:
  "\<exists>sent. watching demo_crypto 0 [] False (replica_of []) quiet_feed overtaken_feed sent [] \<and> concat (fd_pending overtaken_feed) = [] \<and>
     fold apply_event sent (replica_of []) (keyOf ask_offer) = Some ask_offer \<and> view [] False (fd_store overtaken_feed) (keyOf ask_offer) = None"
proof -
  let ?k = "keyOf ask_offer" and ?e = "new_entry Second ask_offer OFFER_STATUS_OPEN (BaseAmount ask_offer)"
  let ?gone = "[ev_status ?k (?e\<lparr>e_Status := OFFER_STATUS_UTXO_INVALIDATED\<rparr>), ev_removed ?k ask_offer]"
  define f1 where "f1 = feed_step demo_crypto (Commit Second (OpMarkInvalidated ?k)) asking_feed"
  have f1: "fd_pending f1 = [[ev_created ask_offer], ?gone]" "map_of (entries (fd_store f1)) ?k = None"
    by (simp_all add: f1_def asking_feed_fields drop_events_def MarkInvalidated_def dropWithStatus_def Let_def map_of_delete)
  have w1: "watching demo_crypto 0 [] False (replica_of []) quiet_feed f1 [] []"
    using watching_step [OF asking_watching, of "Commit Second (OpMarkInvalidated ?k)"] by (simp add: f1_def book_op_def reopen_fresh_def del: feed_step.simps)
  define f2 where "f2 = feed_step demo_crypto (Deliver (Suc 0)) f1"
  have f2: "fd_pending f2 = [[ev_created ask_offer], [ev_removed ?k ask_offer]]" by (simp add: f2_def f1)
  obtain s1 where w2: "watching demo_crypto 0 [] False (replica_of []) quiet_feed f2 s1 []"
    using watching_step [OF w1, of "Deliver (Suc 0)"] by (simp add: f2_def [symmetric] f1 del: feed_step.simps)
  define f3 where "f3 = feed_step demo_crypto (Deliver (Suc 0)) f2"
  have f3: "fd_pending f3 = [[ev_created ask_offer], []]" by (simp add: f3_def f2)
  obtain s2 where w3: "watching demo_crypto 0 [] False (replica_of []) quiet_feed f3 s2 []"
    using watching_step [OF w2, of "Deliver (Suc 0)"] by (simp add: f3_def [symmetric] f2 del: feed_step.simps)
  define f4 where "f4 = feed_step demo_crypto (Deliver 0) f3"
  have f4: "fd_pending f4 = [[], []]" "map_of (entries (fd_store f4)) ?k = None" by (simp_all add: f4_def f3 f3_def f2_def f1)
  have w4: "watching demo_crypto 0 [] False (replica_of []) quiet_feed f4 (s2 @ [(ev_created ask_offer)\<lparr>ev_Seq := of_nat (length s2) + 1\<rparr>]) []"
    using watching_step [OF w3, of "Deliver 0"] ask_routed [of "of_nat (length s2)"] by (simp add: f4_def [symmetric] f3 del: feed_step.simps)
  have "overtaken_feed = f4" by (simp add: overtaken_feed_def f4_def f3_def f2_def f1_def del: feed_step.simps)
  with w4 f4 show ?thesis
    by (intro exI [of _ "s2 @ [(ev_created ask_offer)\<lparr>ev_Seq := of_nat (length s2) + 1\<rparr>]"]) (simp add: view_def apply_event_def ev_created_def)
qed

end
