(* ===== verification/Trade_File.thy ===== *)
theory Trade_File
  imports Feed_Properties
begin

text \<open>
  The file behind the trade log. The store issues a line under its mutex and writes it to the file after it has released it, best
  effort: writes of overlapping calls may overtake each other, fail, or be cut short (\<open>RecordTradeTx\<close> and \<open>RetractTrade\<close> of
  \<open>offerstore/store.go\<close>). The field \<open>tradeLog\<close> of the store lists the lines that were issued; here the lines wait to be written, and
  the theorem shows which markets a restart restores from what is in the file.
\<close>

section \<open>Lines of a market\<close>





section \<open>The writers\<close>










section \<open>What is in the file\<close>










section \<open>Restart\<close>





end
