(* ===== verification/Wire_Properties.thy ===== *)
theory Wire_Properties
  imports Sample_Book Covenant
begin

text \<open>
  Properties of the signed messages (\<open>offer/offer.go\<close>) and of the covenant arithmetic, scripts and
  plans (\<open>pkg/covenant\<close>), each evaluated on the sample offers.
\<close>

section \<open>Signed messages\<close>

text \<open>C37: whatever a maker signs verifies: an offer, a cancel, a settlement report and a session re-attachment signed with a
  valid private key (between one and the group order) pass the matching verifier, whose public key field may be blank or any letter case of
  the key's hex, given that the signature library verifies and parses back what it makes itself with such a key.\<close>

theorem signed_messages_verify:
  assumes "signing_laws cr" "valid_priv priv"
  shows "(SignOffer cr (Some ofr) priv = Inr ofr' \<longrightarrow> VerifyOffer cr (Some ofr') = Inr ()) \<and>
    (SignCancel cr (Some c) priv = Inr c' \<longrightarrow> VerifyCancel cr (Some c') = Inr ()) \<and>
    (SignSettledTrade cr (Some st) priv = Inr st' \<longrightarrow> VerifySettledTrade cr (Some st') = Inr ()) \<and>
    VerifyReattach cr sid role (SerializeCompressed cr (priv_PubKey cr priv)) (SignReattach cr sid role priv) = Inr ()"
  using assms by (auto intro: SignOffer_verifies SignCancel_verifies SignSettledTrade_verifies SignReattach_verifies)

theorem signed_messages_verify_witness:
  "\<exists>ofr'. SignOffer demo_crypto (Some (ask_offer\<lparr>MakerPubkey := ''''\<rparr>)) (PrivKey 1) = Inr ofr' \<and>
     VerifyOffer demo_crypto (Some ofr') = Inr ()"
proof -
  obtain ofr' where s: "SignOffer demo_crypto (Some (ask_offer\<lparr>MakerPubkey := ''''\<rparr>)) (PrivKey 1) = Inr ofr'"
    by (auto simp: SignOffer_def Let_def OfferHash_def CanonicalOfferBytes_def demo_fields rbind_def split: sum.split)
  have "valid_priv (PrivKey 1)" by (simp add: secp256k1_N_def)
  from signed_messages_verify [OF demo_signing_laws this] s show ?thesis by blast
qed

text \<open>A verified offer's signature bytes cannot be swapped for an equivalent encoding: if the same offer verifies with two
  byte strings that decode to a signature and to itself or its twin with \<open>N - s\<close>, the byte strings are equal.\<close>

lemma offer_signature_unique:
  assumes "low_s_law cr" "VerifyOffer cr (Some ofr) = Inr ()" "VerifyOffer cr (Some (ofr\<lparr>MakerSig := sg\<rparr>)) = Inr ()"
    "ecdsa_ParseDERSignature cr (MakerSig ofr) = Some (Signature r s)"
    "ecdsa_ParseDERSignature cr sg = Some (Signature r s')" "s' = s \<or> 0 < s \<and> s < secp256k1_N \<and> s' = secp256k1_N - s"
  shows "sg = MakerSig ofr"
proof -
  from VerifyOffer_canonical [OF assms(2)] assms(4) have "MakerSig ofr = ecdsa_Serialize cr (Signature r s)" by force
  moreover from VerifyOffer_canonical [OF assms(3)] assms(5) have "sg = ecdsa_Serialize cr (Signature r s')" by force
  ultimately show ?thesis using assms(1,6) unfolding low_s_law_def by metis
qed

text \<open>The funding outpoint of a covenant is outside the signed bytes: moving it keeps the hash, so an order whose remainder
  was re-rested at a new outpoint still verifies, and nothing else of the offer moves.\<close>

lemma outpoint_not_signed:
  "OfferHash cr (Some (set_outpoint txid vout ofr)) = OfferHash cr (Some ofr) \<and>
   VerifyOffer cr (Some (set_outpoint txid vout ofr)) = VerifyOffer cr (Some ofr) \<and>
   GetCovenant (set_outpoint txid vout ofr) =
     map_option (\<lambda>ct. ct\<lparr>ct_CovenantTxid := txid, ct_CovenantVout := vout\<rparr>) (GetCovenant ofr)"
  by (simp add: OfferHash_def del: GetCovenant_Some)

section \<open>Covenant arithmetic\<close>

lemma ceil_div_ceiling:
  assumes "0 < d"
  shows "\<lceil>(of_nat n :: rat) / of_nat d\<rceil> = int (ceil_div n d)"
proof (rule ceiling_unique)
  have "ceil_div n d * d \<le> n + (d - 1)" unfolding ceil_div_def by (rule div_times_less_eq_dividend)
  with assms have "ceil_div n d * d < n + d" by linarith
  then have "(of_nat (ceil_div n d * d) :: rat) < of_nat (n + d)" by (simp only: of_nat_less_iff)
  then show "of_int (int (ceil_div n d)) - 1 < (of_nat n :: rat) / of_nat d"
    using assms by (simp add: field_simps)
  have "(of_nat n :: rat) \<le> of_nat (ceil_div n d * d)" using ceil_div_ge [OF assms, of n] by (simp only: of_nat_le_iff)
  then show "(of_nat n :: rat) / of_nat d \<le> of_int (int (ceil_div n d))"
    using assms by (simp add: field_simps)
qed

text \<open>The 128-bit price routine is the exact rounded-up price: for any fill and any rate with a nonzero denominator,
  \<open>CeilPrice\<close> is the ceiling of \<open>filled * num / den\<close>, and the largest 64-bit value when that does not fit.\<close>

lemma CeilPrice_is_ceiling:
  assumes "den \<noteq> 0"
  shows "int (unat (CeilPrice filled num den)) =
    min \<lceil>(of_nat (unat filled) * of_nat (unat num) :: rat) / of_nat (unat den)\<rceil> (2 ^ 64 - 1)"
proof -
  have "(of_nat (unat filled) * of_nat (unat num) :: rat) = of_nat (unat filled * unat num)" by (rule of_nat_mult [symmetric])
  then have "\<lceil>(of_nat (unat filled) * of_nat (unat num) :: rat) / of_nat (unat den)\<rceil> = int (ceil_div (unat filled * unat num) (unat den))"
    using ceil_div_ceiling [of "unat den" "unat filled * unat num"] assms by (simp only: unat_u64_pos simp_thms)
  then show ?thesis using CeilPrice_exact [OF assms, of filled num] by (auto simp: min_def)
qed

text \<open>The funding guard accepts a locked amount just when the leaf's signed 64-bit arithmetic cannot overflow on it, and
  then on no smaller fill either: the on-chain price of every fill is the exact ceiling.\<close>

lemma CheckArithmetic_guards_leaf:
  "CheckArithmetic ord locked = Inr () \<longleftrightarrow>
     1 \<le> unat (RateNum ord) \<and> 1 \<le> unat (RateDen ord) \<and>
     (\<forall>filled. filled \<le> locked \<longrightarrow> unat filled * unat (RateNum ord) + (unat (RateDen ord) - 1) < 2 ^ 63)"
proof
  assume "CheckArithmetic ord locked = Inr ()"
  then show "1 \<le> unat (RateNum ord) \<and> 1 \<le> unat (RateDen ord) \<and>
     (\<forall>filled. filled \<le> locked \<longrightarrow> unat filled * unat (RateNum ord) + (unat (RateDen ord) - 1) < 2 ^ 63)"
    using CheckArithmetic_leaf_price(2) [of ord locked] by (auto simp: CheckArithmetic_iff)
next
  assume r: "1 \<le> unat (RateNum ord) \<and> 1 \<le> unat (RateDen ord) \<and>
     (\<forall>filled. filled \<le> locked \<longrightarrow> unat filled * unat (RateNum ord) + (unat (RateDen ord) - 1) < 2 ^ 63)"
  then have "unat locked * unat (RateNum ord) + (unat (RateDen ord) - 1) < 2 ^ 63" by blast
  with r show "CheckArithmetic ord locked = Inr ()" by (auto simp: CheckArithmetic_iff)
qed

text \<open>Two resting orders have the same FILL script only if every term baked into it agrees: assets, rate, minimum lot and
  the maker's payout program.\<close>

lemma fill_leaf_commits_terms:
  assumes "BuildFillLeaf a b rn rd ml mp mv = Inr lf" "BuildFillLeaf a' b' rn' rd' ml' mp' mv' = Inr lf"
    and "length a = 32" "length a' = 32" "length b = 32" "length b' = 32"
  shows "a = a' \<and> b = b' \<and> rn = rn' \<and> rd = rd' \<and> ml = ml' \<and> mp = mp' \<and> mv = mv'"
  by (rule BuildFillLeaf_inject [OF assms])

section \<open>Fill plans\<close>

text \<open>A fill plan exists just when the fill is nonzero, within the locked amount, at least a lot, leaves nothing or at least
  a lot, passes the arithmetic guard and the order derives; the plan then splits the locked amount exactly, owes the maker
  the exact rounded-up price, and uses the outputs \<open>2k\<close> and \<open>2k + 1\<close>.\<close>

lemma PlanFill_characterised:
  "((\<exists>p. PlanFill cr ord locked filled k = Inr p) \<longleftrightarrow>
      filled \<noteq> 0 \<and> filled \<le> locked \<and> MinLot ord \<le> filled \<and> (filled = locked \<or> MinLot ord \<le> locked - filled) \<and>
      CheckArithmetic ord locked = Inr () \<and> (\<exists>tap. Derive cr ord = Inr tap)) \<and>
   (\<forall>p. PlanFill cr ord locked filled k = Inr p \<longrightarrow>
      unat (fp_Filled p) + unat (fp_Remainder p) = unat locked \<and>
      unat (fp_RequiredB p) = ceil_div (unat filled * unat (RateNum ord)) (unat (RateDen ord)) \<and>
      fp_CreditIndex p = 2 * k \<and> fp_RemainderIndex p = 2 * k + 1)"
proof (intro conjI allI impI)
  show "(\<exists>p. PlanFill cr ord locked filled k = Inr p) \<longleftrightarrow>
     filled \<noteq> 0 \<and> filled \<le> locked \<and> MinLot ord \<le> filled \<and> (filled = locked \<or> MinLot ord \<le> locked - filled) \<and>
     CheckArithmetic ord locked = Inr () \<and> (\<exists>tap. Derive cr ord = Inr tap)"
    unfolding PlanFill_Inr by auto
next
  fix p
  assume p: "PlanFill cr ord locked filled k = Inr p"
  show "unat (fp_Filled p) + unat (fp_Remainder p) = unat locked"
    "unat (fp_RequiredB p) = ceil_div (unat filled * unat (RateNum ord)) (unat (RateDen ord))"
    "fp_CreditIndex p = 2 * k" "fp_RemainderIndex p = 2 * k + 1"
    using PlanFill_total [OF p] PlanFill_floor [OF p] PlanFill_fields(2,3) [OF p] by simp_all
qed

text \<open>Under the sample primitives every well-formed order derives.\<close>

lemma demo_Derive:
  assumes "1 \<le> RateNum ord" "1 \<le> RateDen ord" "1 \<le> MinLot ord" "MakerVer ord = 1" "length (MakerProg ord) = 32"
    "0 \<le> ExpiryLocktime ord" "length (InternalKey ord) = 32"
  shows "\<exists>tap. Derive demo_crypto ord = Inr tap"
proof -
  have N: "length NUMS = 32" by (simp add: NUMS_def)
  have z: "be_nat (replicate n 0) = 0" for n by (induction n) (simp_all add: be_nat_def)
  have tw: "\<exists>x. tweakOutputKey demo_crypto key root = Inr x" if "length key = 32" for key root
    using that by (simp add: tweakOutputKey_def demo_crypto_def taggedHash_def z secp256k1_N_def)
  obtain fl where "BuildFillLeaf (AssetA ord) (AssetB ord) (RateNum ord) (RateDen ord) (MinLot ord) (MakerProg ord) (MakerVer ord) = Inr fl"
    using BuildFillLeaf_ok_iff assms by blast
  moreover obtain rl where "BuildRefundLeaf (ExpiryLocktime ord) (MakerX ord) = Inr rl"
    using assms(6) by (auto simp: BuildRefundLeaf_def)
  ultimately show ?thesis
    using tw [of NUMS] tw [of "InternalKey ord"] N assms(7)
    by (auto simp: Derive_def Let_def rbind_eq_Inr split: if_splits)
qed

text \<open>The joint plan of two covenants never fails on its own aliasing checks: they are unreachable, whatever the orders,
  amounts and fills.\<close>

lemma joint_plan_alias_checks_unreachable:
  "PlanJointSettlement cr oA lA fA oB lB fB \<noteq> Inl CreditAlias \<and> PlanJointSettlement cr oA lA fA oB lB fB \<noteq> Inl SlotReused"
  using PlanJointSettlement_no_alias [of cr oA lA fA oB lB fB] by blast

end
