(* ===== verification/Match_Properties.thy ===== *)
theory Match_Properties
  imports Matcher Validator Wire_Properties
begin

text \<open>
  Properties of the matching engine over the books the relay reaches: conservation, priority, limit
  prices, completeness, the time-in-force policies and independence of the map order.
\<close>

section \<open>A sample crossing\<close>

definition sample_match :: match where
  "sample_match = match_of bid_offer (ask_entry, 60, 120)"

lemma sample_entry_fields:
  "e_Offer ask_entry = ask_offer" "e_ActiveAmount ask_entry = 100" "e_CreatedAt ask_entry = Second"
  "e_Offer bid_entry = bid_offer" "e_ActiveAmount bid_entry = 60"
  by (simp_all add: ask_entry_def bid_entry_def new_entry_def)

lemma sample_terms: "GetCovenant ask_offer = Some ask_terms" "GetCovenant bid_offer = None"
  by (simp_all add: GetCovenant_def ask_offer_def bid_offer_def)

lemma sample_snapshot: "SnapshotPairEntries (Some gold_usdx) False sample_store = [bid_entry, ask_entry]"
proof -
  have "pairKey (Some gold_usdx) = ''gold/usdx''" using sample_keys(3) by (simp add: ask_offer_def)
  then show ?thesis
    by (simp add: SnapshotPairEntries_def sample_store_eq gomap_get_def List.map_filter_simps sample_keys sample_entry_fields)
      (simp add: ask_offer_def bid_offer_def)
qed

lemma sample_eligible: "eligible bid_offer ask_entry" "\<not> eligible bid_offer bid_entry"
  by (simp_all add: eligible_def sample_entry_fields sample_keys hasSettlementOwner_def sample_terms isSubAssetOffer_def
      crosses_def del: GetCovenant_Some) (simp_all add: GetLightning_def ask_offer_def bid_offer_def)

lemma sample_candidates: "candidates (store_book sample_store) bid_offer = Some [ask_entry]"
proof -
  have "Pair bid_offer = Some gold_usdx" "Confidential bid_offer = False" by (simp_all add: bid_offer_def)
  then show ?thesis by (simp add: candidates_def store_book_def sample_snapshot sample_eligible)
qed

lemma sample_fill: "fill_of 60 ask_entry = Some (60, 120)"
  by (simp add: fill_of_def sample_entry_fields sample_terms fillQuote_def ask_terms_def Let_def)
    (simp add: ask_offer_def)

lemma sample_walk: "walk (store_book sample_store) bid_offer = Some ([sample_match], 0)"
  using sample_candidates sample_fill
  by (simp add: walk_def) (simp add: store_book_def sample_Get sample_entry_fields sample_match_def)

section \<open>Conservation\<close>

lemma fresh_reachable: "reachable_fresh cr s \<Longrightarrow> reachable cr s"
  by (induction rule: reachable_fresh.induct) (auto intro: reachable.intros)

text \<open>C6: crossing an order against any book the relay reaches consumes exactly what it reports: the fills and the remainder add
  up to the order's open amount, no resting order is used twice, and every match names a live order of the same namespace, other
  than the incoming one, with at least the filled amount open. Every match is of the same market as well, provided the book was reached
  without reopening an order over a resting order of another pair or namespace under the same key (\<open>Reopen\<close> does not check for one).\<close>

theorem crossing_conserves:
  assumes "reachable cr s" "walk (store_book s) inc = Some (ms, rem)" "Get (keyOf inc) s = Some ie"
  shows "sum_list (map (\<lambda>m. unat (mt_FillBase m)) ms) + unat rem = unat (e_ActiveAmount ie) \<and>
    distinct (map mt_RestingKey ms) \<and>
    (\<forall>m\<in>set ms. \<exists>e. Get (mt_RestingKey m) s = Some e \<and> mt_Resting m = e_Offer e \<and> mt_RestingKey m \<noteq> keyOf inc \<and>
       Confidential (e_Offer e) = Confidential inc \<and> 0 < mt_FillBase m \<and> mt_FillBase m \<le> e_ActiveAmount e \<and>
       (reachable_fresh cr s \<longrightarrow> pairKey (Pair (e_Offer e)) = pairKey (Pair inc)))"
proof (intro conjI ballI)
  have inv: "book_ok cr s" by (rule reachable_book_ok [OF assms(1)])
  have get: "bk_Get (store_book s) k = Get k s" for k by (simp add: store_book_def)
  show "sum_list (map (\<lambda>m. unat (mt_FillBase m)) ms) + unat rem = unat (e_ActiveAmount ie)"
    using walk_conserves [OF assms(2)] assms(3) by (simp add: get)
  show "distinct (map mt_RestingKey ms)" by (rule book.resting_keys_distinct [OF inv assms(2)])
  fix m
  assume m: "m \<in> set ms"
  from book.match_from_snapshot [OF inv assms(2) m] obtain e where e: "Get (mt_RestingKey m) s = Some e" "mt_Resting m = e_Offer e"
      "mt_RestingKey m \<noteq> keyOf inc" "Confidential (e_Offer e) = Confidential inc" "0 < mt_FillBase m" "mt_FillBase m \<le> e_ActiveAmount e"
    unfolding get by blast
  moreover have "pairKey (Pair (e_Offer e)) = pairKey (Pair inc)" if "reachable_fresh cr s"
    using store.match_is_live [OF reachable_fresh_ok [OF that] assms(2) m] e(1) unfolding get by auto
  ultimately show "\<exists>e. Get (mt_RestingKey m) s = Some e \<and> mt_Resting m = e_Offer e \<and> mt_RestingKey m \<noteq> keyOf inc \<and>
      Confidential (e_Offer e) = Confidential inc \<and> 0 < mt_FillBase m \<and> mt_FillBase m \<le> e_ActiveAmount e \<and>
      (reachable_fresh cr s \<longrightarrow> pairKey (Pair (e_Offer e)) = pairKey (Pair inc))"
    by blast
qed

theorem crossing_conserves_witness:
  "sum_list (map (\<lambda>m. unat (mt_FillBase m)) [sample_match]) + unat (0 :: u64) = unat (e_ActiveAmount bid_entry) \<and>
   (\<exists>e. Get (mt_RestingKey sample_match) sample_store = Some e \<and> pairKey (Pair (e_Offer e)) = pairKey (Pair bid_offer))"
  using crossing_conserves [OF fresh_reachable [OF sample_reachable] sample_walk sample_Get(2)] sample_reachable by auto

section \<open>Priority\<close>

lemma candidates_priced:
  assumes "candidates bk inc = Some c" "a \<in> set c" "b \<in> set c" "a \<noteq> b"
  shows "quotePerBase (e_Offer a) \<noteq> None"
proof -
  have "2 \<le> card (set c)" using assms(2-4) by (metis card_2_iff card_mono empty_subsetI insert_subset List.finite_set)
  then have "2 \<le> length c" using card_length [of c] by linarith
  with candidates_Some(1) [OF assms(1)] assms(1,2) show ?thesis
    by (auto simp: candidates_def Let_def list_all_iff split: if_splits)
qed

lemma walk_planned:
  assumes "walk bk inc = Some (ms, rem)" "ms \<noteq> []"
  obtains ie :: entry and c ps where "e_ActiveAmount ie \<noteq> 0" "candidates bk inc = Some c" "plan_fills c (e_ActiveAmount ie) = (ps, rem)"
    "ms = map (match_of inc) ps"
  using assms(1)
proof (cases rule: walk_cases)
  case (resting ie c ps)
  with assms(2) have nz: "e_ActiveAmount ie \<noteq> 0" by blast
  show thesis by (rule that [OF nz resting(3) [OF nz] resting(4) [OF nz] resting(5) [OF nz]])
qed (use assms(2) in simp)

text \<open>C14: matches come in price-time priority: of two matches the earlier one has the better price for the incoming order
  (cheaper ask for a buy, richer bid for a sell), or the same price and an entry at least as old.\<close>

theorem price_time_priority:
  assumes "reachable_fresh cr s" "walk (store_book s) inc = Some (ms, rem)" "i < j" "j < length ms"
  shows "\<exists>e f p q. Get (mt_RestingKey (ms ! i)) s = Some e \<and> Get (mt_RestingKey (ms ! j)) s = Some f \<and>
    quotePerBase (e_Offer e) = Some p \<and> quotePerBase (e_Offer f) = Some q \<and>
    ((if TradeDir inc = TRADE_DIR_BUY then p < q else q < p) \<or> p = q \<and> e_CreatedAt e \<le> e_CreatedAt f)"
proof -
  have inv: "book_ok cr s \<and> index_exact s" by (rule reachable_fresh_ok [OF assms(1)])
  have "ms \<noteq> []" using assms(3,4) by auto
  from assms(2) this obtain ie :: entry and c ps where w: "e_ActiveAmount ie \<noteq> 0" "candidates (store_book s) inc = Some c"
      "plan_fills c (e_ActiveAmount ie) = (ps, rem)" and ms: "ms = map (match_of inc) ps"
    by (rule walk_planned)
  have len: "i < length ps" "j < length ps" using ms assms(3,4) by simp_all
  obtain e n q f n' q' where at_ij: "ps ! i = (e, n, q)" "ps ! j = (f, n', q')" by (metis prod_cases3)
  have mem: "e \<in> set c" "f \<in> set c" using plan_fills_subseq [OF w(3)] at_ij len by (force dest: nth_mem)+
  have snap: "set c \<subseteq> set (bk_SnapshotPairEntries (store_book s) (Pair inc) (Confidential inc))"
    using candidates_Some(1) [OF w(2)] by (metis filter_is_subset mset_eq_setD)
  have get: "Get (mt_RestingKey (ms ! i)) s = Some e" "Get (mt_RestingKey (ms ! j)) s = Some f"
    using store.snapshot_get [OF inv, of _ "Pair inc" "Confidential inc"] mem snap len at_ij ms
    by (auto simp: store_book_def)
  have "mt_RestingKey (ms ! i) \<noteq> mt_RestingKey (ms ! j)"
    using store.resting_keys_distinct [OF inv assms(2)] assms(3,4)
    by (simp add: distinct_conv_nth)
  then have "e \<noteq> f" using get ms len at_ij by auto
  then have quotes: "quotePerBase (e_Offer e) \<noteq> None" "quotePerBase (e_Offer f) \<noteq> None"
    using candidates_priced [OF w(2)] mem by blast+
  have "sorted (map (priority (TradeDir inc = TRADE_DIR_BUY)) (map fst ps))"
    by (rule plan_fills_sorted [OF w(3) candidates_Some(2) [OF w(2)]])
  then have "priority (TradeDir inc = TRADE_DIR_BUY) e \<le> priority (TradeDir inc = TRADE_DIR_BUY) f"
    using sorted_nth_mono [of _ i j] assms(3) len at_ij by fastforce
  with quotes get show ?thesis by (auto simp: priority_def less_eq_prod_def split: if_splits)
qed

text \<open>A second ask of the same maker at 2.25, and a bid for 150 that needs both.\<close>

definition ask2_offer :: offer where
  "ask2_offer = ask_offer\<lparr>OfferId := ''c'', WantAmount := 225, Settlement := Covenant (ask_terms\<lparr>ct_RateNum := 9, ct_RateDen := 4\<rparr>)\<rparr>"

definition wide_bid :: offer where
  "wide_bid = bid_offer\<lparr>BaseAmount := 150, WantAmount := 150, OfferAmount := 375\<rparr>"

definition deep_store :: store where
  "deep_store =
     exec demo_crypto (3 * Second) (OpSubmit wide_bid)
       (exec demo_crypto (2 * Second) (OpSubmit ask2_offer) (exec demo_crypto Second (OpSubmit ask_offer) NewStore))"

definition ask2_entry :: entry where
  "ask2_entry = new_entry (2 * Second) ask2_offer OFFER_STATUS_OPEN 100"

definition wide_entry :: entry where
  "wide_entry = new_entry (3 * Second) wide_bid OFFER_STATUS_OPEN 150"

lemma deep_keys:
  "keyOf ask2_offer = Key ''020100'' ''c''" "keyOf wide_bid = Key ''02010100'' ''b''"
  "Pair ask2_offer = Some gold_usdx" "Pair wide_bid = Some gold_usdx" "Pair ask_offer = Some gold_usdx"
  "pairKey (Some gold_usdx) = ''gold/usdx''"
  using sample_keys(3) by (simp_all add: keyOf_def ask2_offer_def wide_bid_def ask_offer_def bid_offer_def)

lemma deep_verified: "VerifyOffer demo_crypto (Some ask2_offer) = Inr ()" "VerifyOffer demo_crypto (Some wide_bid) = Inr ()"
  by (rule demo_verified [where n = 1], use parse_sample_keys(1) in \<open>simp_all add: ask_offer_def ask2_offer_def\<close>)
    (rule demo_verified [where n = 2], use parse_sample_keys(2) in \<open>simp_all add: bid_offer_def wide_bid_def\<close>)

lemma deep_amounts:
  "BaseAmount ask_offer = 100" "BaseAmount ask2_offer = 100" "BaseAmount wide_bid = 150"
  by (simp_all add: ask_offer_def ask2_offer_def wide_bid_def)

lemma deep_store_eq:
  "deep_store =
     \<lparr>entries = [(keyOf ask_offer, ask_entry), (keyOf ask2_offer, ask2_entry), (keyOf wide_bid, wide_entry)],
      pairs = [(''gold/usdx'', [keyOf wide_bid, keyOf ask2_offer, keyOf ask_offer])], subs = [], nextSub = 0, cancelNonce = [],
      settledNonce = [], subBuf = 256, trades = [], tradeLog = None, interactiveCap = 0\<rparr>"
proof -
  note submit = Submit_def sample_verified deep_verified sample_keys deep_keys deep_amounts NewStore_def Let_def put_def
    new_entry_def broadcast_def gomap_get_def
  have first: "exec demo_crypto Second (OpSubmit ask_offer) NewStore =
      NewStore\<lparr>entries := [(keyOf ask_offer, ask_entry)], pairs := [(''gold/usdx'', [keyOf ask_offer])]\<rparr>"
    by (simp add: submit ask_entry_def)
  have second: "exec demo_crypto (2 * Second) (OpSubmit ask2_offer)
      (NewStore\<lparr>entries := [(keyOf ask_offer, ask_entry)], pairs := [(''gold/usdx'', [keyOf ask_offer])]\<rparr>) =
      NewStore\<lparr>entries := [(keyOf ask_offer, ask_entry), (keyOf ask2_offer, ask2_entry)],
        pairs := [(''gold/usdx'', [keyOf ask2_offer, keyOf ask_offer])]\<rparr>"
    by (simp add: submit ask2_entry_def)
  show ?thesis unfolding deep_store_def first second by (simp add: submit wide_entry_def)
qed

lemma deep_reachable: "reachable_fresh demo_crypto deep_store"
  unfolding deep_store_def by (intro reachable_fresh.intros) (simp_all add: reopen_fresh_def)

lemma deep_Get:
  "Get (keyOf ask_offer) deep_store = Some ask_entry" "Get (keyOf ask2_offer) deep_store = Some ask2_entry"
  "Get (keyOf wide_bid) deep_store = Some wide_entry"
  by (simp_all add: Get_def deep_store_eq deep_keys sample_keys)

lemma deep_entry_fields:
  "e_Offer ask2_entry = ask2_offer" "e_ActiveAmount ask2_entry = 100" "e_CreatedAt ask2_entry = 2 * Second"
  "e_Offer wide_entry = wide_bid" "e_ActiveAmount wide_entry = 150"
  by (simp_all add: ask2_entry_def wide_entry_def new_entry_def)

lemma deep_terms: "GetCovenant ask2_offer = Some (ask_terms\<lparr>ct_RateNum := 9, ct_RateDen := 4\<rparr>)" "GetCovenant wide_bid = None"
  by (simp_all add: GetCovenant_def ask2_offer_def wide_bid_def bid_offer_def)

lemma deep_quotes: "quotePerBase ask_offer = Some 2" "quotePerBase ask2_offer = Some (9 / 4)"
  by (simp_all add: quotePerBase_def SetFrac_def ask2_offer_def ask_offer_def)

lemma deep_candidates: "candidates (store_book deep_store) wide_bid = Some [ask_entry, ask2_entry]"
proof -
  have snap: "SnapshotPairEntries (Some gold_usdx) False deep_store = [wide_entry, ask2_entry, ask_entry]"
    by (simp add: SnapshotPairEntries_def deep_store_eq gomap_get_def List.map_filter_simps deep_keys sample_keys
        sample_entry_fields deep_entry_fields) (simp add: ask_offer_def ask2_offer_def bid_offer_def wide_bid_def)
  have "eligible wide_bid ask_entry" "eligible wide_bid ask2_entry" "\<not> eligible wide_bid wide_entry"
    by (simp_all add: eligible_def sample_entry_fields deep_entry_fields deep_keys sample_keys hasSettlementOwner_def sample_terms
        deep_terms isSubAssetOffer_def crosses_def del: GetCovenant_Some)
      (simp_all add: GetLightning_def ask_offer_def ask2_offer_def bid_offer_def wide_bid_def)
  moreover have "Pair wide_bid = Some gold_usdx" "Confidential wide_bid = False" "TradeDir wide_bid = TRADE_DIR_BUY"
    by (simp_all add: wide_bid_def bid_offer_def)
  ultimately show ?thesis
    by (simp add: candidates_def store_book_def snap priority_def sample_entry_fields deep_entry_fields deep_quotes
        del: not_None_eq)
qed

lemma deep_walk:
  "walk (store_book deep_store) wide_bid =
     Some ([match_of wide_bid (ask_entry, 100, 200), match_of wide_bid (ask2_entry, 50, 113)], 0)"
proof -
  have "fill_of 150 ask_entry = Some (100, 200)"
    by (simp add: fill_of_def sample_entry_fields sample_terms fillQuote_def ask_terms_def Let_def)
  moreover have "fill_of 50 ask2_entry = Some (50, 113)"
    by (simp add: fill_of_def deep_entry_fields deep_terms fillQuote_def ask_terms_def Let_def)
      (simp add: ask2_offer_def ask_offer_def)
  ultimately show ?thesis
    using deep_candidates by (simp add: walk_def) (simp add: store_book_def deep_Get deep_entry_fields)
qed

theorem price_time_priority_witness:
  "\<exists>e f p q. Get (keyOf ask_offer) deep_store = Some e \<and> Get (keyOf ask2_offer) deep_store = Some f \<and>
    quotePerBase (e_Offer e) = Some p \<and> quotePerBase (e_Offer f) = Some q \<and> (p < q \<or> p = q \<and> e_CreatedAt e \<le> e_CreatedAt f)"
proof -
  have "TradeDir wide_bid = TRADE_DIR_BUY" by (simp add: wide_bid_def bid_offer_def)
  with price_time_priority [OF deep_reachable deep_walk, of 0 1] show ?thesis
    by (simp add: sample_entry_fields deep_entry_fields)
qed


section \<open>Limit prices\<close>

lemma covenant_quote:
  assumes "covenant_wf ofr ct" "GetCovenant ofr = Some ct" "q = fillQuote ofr n" "q \<noteq> 0"
  shows "unat q = ceil_div (unat n * unat (WantAmount ofr)) (unat (OfferAmount ofr))"
proof -
  have "unat q = ceil_div (unat n * unat (ct_RateNum ct)) (unat (ct_RateDen ct))"
    using fillQuote_nonzero [OF assms(2) _ assms(4)] assms(3) by simp
  also have "\<dots> = ceil_div (unat n * unat (WantAmount ofr)) (unat (OfferAmount ofr))"
    using assms(1) by (intro ceil_div_ratio) (auto simp: covenant_wf_def unat_u64_pos ac_simps)
  finally show ?thesis .
qed

lemma ceil_div_limit:
  assumes "0 < d" "0 < d'" "n * d' \<le> n' * d"
  shows "ceil_div (f * n) d \<le> ceil_div (f * n') d'"
proof (rule ceil_div_least [OF assms(1)])
  have "(f * n) * d' \<le> (f * n') * d" using assms(3) by (metis mult.assoc mult_le_mono2)
  also have "\<dots> \<le> (ceil_div (f * n') d' * d') * d" using ceil_div_ge [OF assms(2)] by simp
  finally show "f * n \<le> ceil_div (f * n') d' * d" using assms(2) by (simp add: ac_simps)
qed

lemma wf_match_terms:
  assumes "walk bk inc = Some (ms, rem)" "m \<in> set ms" "offer_wf (mt_Resting m)" "offer_wf inc"
  shows "TradeDir inc = TRADE_DIR_BUY" "GetCovenant inc = None" "0 < unat (OfferAmount (mt_Resting m))" "0 < unat (WantAmount inc)"
    "unat (WantAmount (mt_Resting m)) * unat (WantAmount inc) \<le> unat (OfferAmount inc) * unat (OfferAmount (mt_Resting m))"
    "unat (mt_FillQuote m) = ceil_div (unat (mt_FillBase m) * unat (WantAmount (mt_Resting m))) (unat (OfferAmount (mt_Resting m)))"
proof -
  obtain e n q r where m: "m = match_of inc (e, n, q)" "eligible inc e" "valid_fill r e n q"
    by (rule walk_matches [OF assms(1,2)])
  obtain ct where ct: "GetCovenant (e_Offer e) = Some ct" using eligible_covenant [OF m(2)] by blast
  have "offer_wf (e_Offer e)" using assms(3) m(1) by simp
  with ct have wf: "covenant_wf (e_Offer e) ct" unfolding offer_wf_def by blast
  have "unat q = ceil_div (unat n * unat (WantAmount (e_Offer e))) (unat (OfferAmount (e_Offer e)))"
    using m(3) by (intro covenant_quote [OF wf ct]) (auto simp: valid_fill_def)
  then show "unat (mt_FillQuote m) = ceil_div (unat (mt_FillBase m) * unat (WantAmount (mt_Resting m))) (unat (OfferAmount (mt_Resting m)))"
    using m(1) by simp
  show "0 < unat (OfferAmount (mt_Resting m))" "0 < unat (WantAmount inc)"
    using assms(3,4) by (simp_all add: offer_wf_def unat_u64_pos del: GetCovenant_Some)
  show "unat (WantAmount (mt_Resting m)) * unat (WantAmount inc) \<le> unat (OfferAmount inc) * unat (OfferAmount (mt_Resting m))"
    using m(1,2) by (simp add: eligible_def crosses_def)
  show buy: "TradeDir inc = TRADE_DIR_BUY" using m(2) wf by (auto simp: eligible_def covenant_wf_def)
  then show "GetCovenant inc = None"
    using assms(4) by (cases "GetCovenant inc") (auto simp: offer_wf_def covenant_wf_def simp del: GetCovenant_Some)
qed

lemma match_incoming: "walk bk inc = Some (ms, rem) \<Longrightarrow> m \<in> set ms \<Longrightarrow> mt_IncomingCovenant m = GetCovenant inc"
  by (erule walk_matches) (auto simp: match_of_def)

text \<open>C15: every match against a validated resting order is a buy executed at the resting order's price, rounded up to a whole
  quote atom, and never beyond the rounded limit of the incoming order; two validated orders never match covenant against
  covenant.\<close>

theorem match_within_limits:
  assumes "walk bk inc = Some (ms, rem)" "m \<in> set ms" "offer_wf (mt_Resting m)" "offer_wf inc"
  shows "TradeDir inc = TRADE_DIR_BUY \<and> \<not> BothCovenant m \<and>
    unat (mt_FillQuote m) = ceil_div (unat (mt_FillBase m) * unat (WantAmount (mt_Resting m))) (unat (OfferAmount (mt_Resting m))) \<and>
    unat (mt_FillQuote m) \<le> ceil_div (unat (mt_FillBase m) * unat (OfferAmount inc)) (unat (WantAmount inc))"
proof -
  note terms = wf_match_terms [OF assms]
  have "mt_IncomingCovenant m = None" using match_incoming [OF assms(1,2)] terms(2) by simp
  then show ?thesis using terms(1,6) ceil_div_limit [OF terms(3-5), of "unat (mt_FillBase m)"] by (simp add: BothCovenant_def)
qed

lemma sample_arith: "CheckArithmetic (rate_order 2 1) 100 = Inr ()"
  by (simp add: CheckArithmetic_iff rate_order_def)

lemma sample_wf: "offer_wf ask_offer" "offer_wf bid_offer"
proof -
  have "covenant_wf ask_offer ask_terms"
    using sample_arith by (simp add: covenant_wf_def ask_terms_def) (simp add: ask_offer_def)
  then show "offer_wf ask_offer"
    by (simp add: offer_wf_def sample_terms del: GetCovenant_Some)
      (simp add: ask_offer_def gold_usdx_def GetBaseAsset_def GetQuoteAsset_def)
  show "offer_wf bid_offer"
    by (simp add: offer_wf_def sample_terms del: GetCovenant_Some)
      (simp add: bid_offer_def gold_usdx_def GetBaseAsset_def GetQuoteAsset_def)
qed

theorem match_within_limits_witness:
  "unat (mt_FillQuote sample_match) = 120 \<and> TradeDir bid_offer = TRADE_DIR_BUY \<and> \<not> BothCovenant sample_match"
proof -
  have wf: "offer_wf (mt_Resting sample_match)" using sample_wf(1) by (simp add: sample_match_def sample_entry_fields)
  have "sample_match \<in> set [sample_match]" by simp
  from match_within_limits [OF sample_walk this wf sample_wf(2)] show ?thesis by (simp add: sample_match_def)
qed

section \<open>Completeness\<close>

text \<open>No liquidity is skipped: an eligible resting order whose whole open amount fits into what the walk left unfilled is
  filled completely, at its own price.\<close>

lemma walk_takes_whole_orders:
  assumes "reachable_fresh cr s" "walk (store_book s) inc = Some (ms, rem)" "Get (keyOf inc) s \<noteq> None"
    and "e \<in> set (SnapshotPairEntries (Pair inc) (Confidential inc) s)" "eligible inc e" "e_ActiveAmount e \<le> rem"
    and "fillQuote (e_Offer e) (e_ActiveAmount e) \<noteq> 0"
    and "\<And>cov. GetCovenant (e_Offer e) = Some cov \<Longrightarrow> ct_MinLot cov \<le> e_ActiveAmount e"
  shows "match_of inc (e, e_ActiveAmount e, fillQuote (e_Offer e) (e_ActiveAmount e)) \<in> set ms"
proof -
  have act: "e_ActiveAmount e \<noteq> 0" using assms(5) by (simp add: eligible_def)
  have snap: "e \<in> set (bk_SnapshotPairEntries (store_book s) (Pair inc) (Confidential inc))"
    using assms(4) by (simp add: store_book_def)
  show ?thesis
    using assms(2)
  proof (cases rule: walk_cases)
    case absent
    with assms(3) show ?thesis by (simp add: store_book_def)
  next
    case (resting ie c ps)
    show ?thesis
    proof (cases "e_ActiveAmount ie = 0")
      case True
      with resting(2) act assms(6) show ?thesis by simp
    next
      case False
      have "e \<in> set c" using candidates_Some(1) [OF resting(3) [OF False]] snap assms(5)
        by (metis (no_types, lifting) mem_Collect_eq mset_eq_setD set_filter)
      from plan_fills_complete [OF resting(4) [OF False] this assms(6) act assms(7,8)] resting(5) [OF False]
      show ?thesis by auto
    qed
  qed
qed

text \<open>A bid that wants more than the book offers.\<close>

definition whole_bid :: offer where
  "whole_bid = bid_offer\<lparr>BaseAmount := 300, WantAmount := 300, OfferAmount := 750\<rparr>"

definition whole_store :: store where
  "whole_store = exec demo_crypto (2 * Second) (OpSubmit whole_bid) (exec demo_crypto Second (OpSubmit ask_offer) NewStore)"

definition whole_entry :: entry where
  "whole_entry = new_entry (2 * Second) whole_bid OFFER_STATUS_OPEN 300"

lemma whole_verified: "VerifyOffer demo_crypto (Some whole_bid) = Inr ()"
  by (rule demo_verified [where n = 2], use parse_sample_keys(2) in \<open>simp_all add: bid_offer_def whole_bid_def\<close>)

lemma whole_keys:
  "keyOf whole_bid = Key ''02010100'' ''b''" "Pair whole_bid = Some gold_usdx" "BaseAmount whole_bid = 300"
  "e_Offer whole_entry = whole_bid" "e_ActiveAmount whole_entry = 300"
  by (simp_all add: keyOf_def whole_bid_def bid_offer_def whole_entry_def new_entry_def)

lemma whole_store_eq:
  "whole_store =
     \<lparr>entries = [(keyOf ask_offer, ask_entry), (keyOf whole_bid, whole_entry)],
      pairs = [(''gold/usdx'', [keyOf whole_bid, keyOf ask_offer])], subs = [], nextSub = 0, cancelNonce = [],
      settledNonce = [], subBuf = 256, trades = [], tradeLog = None, interactiveCap = 0\<rparr>"
proof -
  note submit = Submit_def sample_verified whole_verified sample_keys deep_keys whole_keys deep_amounts NewStore_def Let_def
    put_def new_entry_def broadcast_def gomap_get_def
  have first: "exec demo_crypto Second (OpSubmit ask_offer) NewStore =
      NewStore\<lparr>entries := [(keyOf ask_offer, ask_entry)], pairs := [(''gold/usdx'', [keyOf ask_offer])]\<rparr>"
    by (simp add: submit ask_entry_def)
  show ?thesis unfolding whole_store_def first by (simp add: submit whole_entry_def)
qed

lemma whole_reachable: "reachable_fresh demo_crypto whole_store"
  unfolding whole_store_def by (intro reachable_fresh.intros) (simp_all add: reopen_fresh_def)

lemma whole_snapshot: "SnapshotPairEntries (Some gold_usdx) False whole_store = [whole_entry, ask_entry]"
  by (simp add: SnapshotPairEntries_def whole_store_eq gomap_get_def List.map_filter_simps deep_keys sample_keys
      sample_entry_fields whole_keys) (simp add: ask_offer_def bid_offer_def whole_bid_def)

lemma whole_eligible: "eligible whole_bid ask_entry" "\<not> eligible whole_bid whole_entry"
  by (simp_all add: eligible_def sample_entry_fields whole_keys sample_keys hasSettlementOwner_def sample_terms
      isSubAssetOffer_def crosses_def del: GetCovenant_Some)
    (simp_all add: GetLightning_def ask_offer_def bid_offer_def whole_bid_def)

lemma whole_fields: "Confidential whole_bid = False" "TradeDir whole_bid = TRADE_DIR_BUY"
  by (simp_all add: whole_bid_def bid_offer_def)

lemma whole_walk: "walk (store_book whole_store) whole_bid = Some ([match_of whole_bid (ask_entry, 100, 200)], 200)"
proof -
  have "candidates (store_book whole_store) whole_bid = Some [ask_entry]"
    by (simp add: candidates_def store_book_def whole_snapshot whole_eligible whole_keys whole_fields)
  moreover have "fill_of 300 ask_entry = Some (100, 200)"
    by (simp add: fill_of_def sample_entry_fields sample_terms fillQuote_def ask_terms_def Let_def)
  moreover have "Get (keyOf whole_bid) whole_store = Some whole_entry" by (simp add: Get_def whole_store_eq whole_keys sample_keys)
  ultimately show ?thesis by (simp add: walk_def) (simp add: store_book_def whole_keys)
qed

section \<open>Time in force\<close>

text \<open>The outcome of an incoming order follows its time in force: filled and remaining amounts add up to the open amount and the
  matches sum to the filled amount; a post-only order never takes and is rejected just when it would; a fill-or-kill order is
  filled completely or rejected untouched; an immediate-or-cancel order never rests; any other order rests, and one that
  disallows partial fills trades only if it is filled completely.\<close>

lemma time_in_force_policy:
  assumes "CrossOrder bk inc = Some r" "bk_Get bk (keyOf inc) = Some ie"
  shows "unat (cr_Filled r) + unat (cr_Remainder r) = unat (e_ActiveAmount ie) \<and>
    unat (cr_Filled r) = sum_list (map (\<lambda>m. unat (mt_FillBase m)) (cr_Matches r)) \<and>
    (case TimeInForce inc of
       TIME_IN_FORCE_POST_ONLY \<Rightarrow>
         cr_Matches r = [] \<and> cr_Disposition r = (if fst (the (walk bk inc)) = [] then DispRest else DispReject)
     | TIME_IN_FORCE_FOK \<Rightarrow>
         cr_Disposition r = DispRest \<and> cr_Remainder r = 0 \<or> cr_Disposition r = DispReject \<and> cr_Matches r = []
     | TIME_IN_FORCE_IOC \<Rightarrow> cr_Disposition r = DispCancelRemainder
     | _ \<Rightarrow> cr_Disposition r = DispRest \<and> (AllowPartial inc \<or> cr_Matches r = [] \<or> cr_Remainder r = 0))"
proof -
  from assms(1) obtain ms rem where w: "walk bk inc = Some (ms, rem)" by (auto simp: CrossOrder_def)
  define filled where "filled = foldl (\<lambda>acc mt. acc + mt_FillBase mt) 0 ms"
  have all: "unat filled + unat rem = unat (e_ActiveAmount ie)" "filled + rem = e_ActiveAmount ie"
    unfolding filled_def by (rule walk_filled [OF w assms(2)])+
  have tally: "unat filled = sum_list (map (\<lambda>m. unat (mt_FillBase m)) ms)"
    using all(1) walk_conserves [OF w assms(2)] by simp
  have none: "filled = 0" if "ms = []" using that by (simp add: filled_def)
  from assms(1) w filled_def show ?thesis
    using all tally none
    by (auto simp: CrossOrder_def Let_def split: time_in_force.splits if_splits)
qed

section \<open>Independence of the map order\<close>

lemma SnapshotPairEntries_perm:
  assumes "map_of (entries s') = map_of (entries s)"
    "mset (gomap_get [] (pairs s') (pairKey p)) = mset (gomap_get [] (pairs s) (pairKey p))"
  shows "mset (SnapshotPairEntries p c s') = mset (SnapshotPairEntries p c s)"
proof -
  have "mset (List.map_filter f xs) = image_mset (the \<circ> f) (filter_mset (\<lambda>x. f x \<noteq> None) (mset xs))" for f :: "key \<Rightarrow> entry option" and xs
    by (simp add: List.map_filter_def)
  then show ?thesis using assms by (simp add: SnapshotPairEntries_def)
qed

text \<open>C35: the outcome does not depend on the order in which the relay's maps are iterated: on two books with the same entries and
  market buckets that are permutations of each other, an order with no ties in price and time among its candidates gives
  the same matches and the same disposition.\<close>

theorem crossing_ignores_map_order:
  assumes "map_of (entries s') = map_of (entries s)"
    "\<And>pk. mset (gomap_get [] (pairs s') pk) = mset (gomap_get [] (pairs s) pk)"
    "inj_on (priority (TradeDir inc = TRADE_DIR_BUY)) {e. e \<in> set (SnapshotPairEntries (Pair inc) (Confidential inc) s) \<and> eligible inc e}"
  shows "CrossOrder (store_book s') inc = CrossOrder (store_book s) inc"
proof -
  have "candidates (store_book s') inc = candidates (store_book s) inc"
  proof (rule candidates_perm)
    show "mset (bk_SnapshotPairEntries (store_book s') (Pair inc) (Confidential inc)) =
        mset (bk_SnapshotPairEntries (store_book s) (Pair inc) (Confidential inc))"
      unfolding store_book_def book.simps by (rule SnapshotPairEntries_perm [OF assms(1,2)])
    show "inj_on (priority (TradeDir inc = TRADE_DIR_BUY))
        (set (filter (eligible inc) (bk_SnapshotPairEntries (store_book s) (Pair inc) (Confidential inc))))"
      using assms(3) unfolding store_book_def book.simps set_filter .
  qed
  then have "walk (store_book s') inc = walk (store_book s) inc"
    by (intro walk_perm) (simp_all add: store_book_def Get_def assms(1))
  then show ?thesis by (simp add: CrossOrder_def)
qed

theorem crossing_ignores_map_order_witness:
  "CrossOrder (store_book (deep_store\<lparr>pairs := [(''gold/usdx'', rev (gomap_get [] (pairs deep_store) ''gold/usdx''))]\<rparr>)) wide_bid =
   CrossOrder (store_book deep_store) wide_bid"
proof (rule crossing_ignores_map_order)
  have "set [ask_entry, ask2_entry] = set (filter (eligible wide_bid)
      (bk_SnapshotPairEntries (store_book deep_store) (Pair wide_bid) (Confidential wide_bid)))"
    using candidates_Some(1) [OF deep_candidates] by (rule mset_eq_setD)
  then have "{e. e \<in> set (SnapshotPairEntries (Pair wide_bid) (Confidential wide_bid) deep_store) \<and> eligible wide_bid e} = {ask_entry, ask2_entry}"
    by (simp add: store_book_def)
  then show "inj_on (priority (TradeDir wide_bid = TRADE_DIR_BUY))
      {e. e \<in> set (SnapshotPairEntries (Pair wide_bid) (Confidential wide_bid) deep_store) \<and> eligible wide_bid e}"
    by (simp add: inj_on_def priority_def sample_entry_fields deep_entry_fields Second_def)
qed (auto simp: deep_store_eq gomap_get_def)

end
