(* ===== verification/Gate_Properties.thy ===== *)
theory Gate_Properties
  imports Validator Match_Properties
begin

text \<open>
  Properties of the admission gate: what acceptance establishes, the sliding-window rate limits, and
  who is charged for a submission.
\<close>

section \<open>Acceptance\<close>

text \<open>C31: an accepted offer carries a valid signature of its maker over its terms, is well formed (distinct assets, sides and amounts
  that agree with the direction, covenant terms that price and fit the signed 64-bit leaf arithmetic, confidential offers only
  between two parties on the chain), expires inside the configured window, is within the size limit, and is not the offer that
  already rests under its key.\<close>

theorem accepted_offers_sound:
  assumes "ValidateOffer cr (t1, t2, t3) (Some (\<lambda>m i. RestingMakerSig m i s)) ofr ip v = (v', Inr u)"
  shows "VerifyOffer cr (Some ofr) = Inr () \<and> offer_wf ofr \<and> proto_Size cr ofr \<le> MaxOfferBytes \<and> \<not> rests_in s ofr \<and>
    t2 < time_Unix (ExpiresAtUnix ofr) \<and>
    (0 < cfg_MinExpiry (v_cfg v) \<longrightarrow> t2 + cfg_MinExpiry (v_cfg v) \<le> time_Unix (ExpiresAtUnix ofr)) \<and>
    (0 < cfg_MaxExpiry (v_cfg v) \<longrightarrow> time_Unix (ExpiresAtUnix ofr) \<le> t2 + cfg_MaxExpiry (v_cfg v))"
proof -
  obtain v1 v2 where ip: "checkIPRate t1 ip v = (v1, Inr ())"
      and ok: "check_offer cr (v_cfg v1) (Some (\<lambda>m i. RestingMakerSig m i s)) t2 ofr = Inr ()"
    by (rule ValidateOffer_accepts [OF assms]) blast
  have cfg: "v_cfg v1 = v_cfg v" using checkIPRate_cfg [OF ip] by simp
  have "checkExpiry (v_cfg v) t2 ofr = Inr ()" using check_offer_ok(3) [OF ok] cfg by simp
  then have "t2 < time_Unix (ExpiresAtUnix ofr)"
    "0 < cfg_MinExpiry (v_cfg v) \<longrightarrow> t2 + cfg_MinExpiry (v_cfg v) \<le> time_Unix (ExpiresAtUnix ofr)"
    "0 < cfg_MaxExpiry (v_cfg v) \<longrightarrow> time_Unix (ExpiresAtUnix ofr) \<le> t2 + cfg_MaxExpiry (v_cfg v)"
    by (auto simp: checkExpiry_def Let_def rbind_eq_Inr)
  moreover have "\<not> rests_in s ofr" using resting.replay_refused ok by blast
  ultimately show ?thesis using check_offer_ok(1,2,5) [OF ok] by blast
qed

lemma ask_checkTerms: "checkTerms demo_crypto DefaultConfig ask_offer = Inr ()"
proof -
  have "checkCovenant ask_offer ask_terms = Inr ()"
    using sample_arith
    by (simp add: checkCovenant_def ask_terms_def hex_Decode_Encode covenant_asset_bad_def asset32_def internalToDisplay_def
        reject_if_def) (simp add: ask_offer_def from_hex_char_def)
  moreover have "GetCrossChain ask_offer = None" "GetLightning ask_offer = None"
    by (simp_all add: GetCrossChain_def GetLightning_def ask_offer_def)
  ultimately show ?thesis
    by (simp add: checkTerms_def Let_def sample_terms del: GetCovenant_Some)
      (simp add: ask_offer_def gold_usdx_def GetBaseAsset_def GetQuoteAsset_def check_direction_def DefaultConfig_def reject_if_def)
qed

lemma ask_check_offer:
  assumes "0 < t" "t < 100 * Second" "\<not> rests_in s ask_offer"
  shows "check_offer demo_crypto DefaultConfig (Some (\<lambda>m i. RestingMakerSig m i s)) t ask_offer = Inr ()"
proof -
  have "checkExpiry DefaultConfig t ask_offer = Inr ()"
    using assms(1,2) by (simp add: checkExpiry_def ask_offer_def DefaultConfig_def time_Unix_def Hour_def Minute_def Second_def reject_if_def)
  moreover have "check_offer demo_crypto DefaultConfig None t ask_offer = Inr ()" if "checkExpiry DefaultConfig t ask_offer = Inr ()"
    using that ask_checkTerms sample_verified(1) demo_fields(4)
    by (simp add: check_offer_def MaxOfferBytes_def reject_if_def)
      (simp add: ask_offer_def DefaultConfig_def strings_ToLower_def char_lower_def)
  ultimately show ?thesis using resting.fresh_not_replay [OF assms(3)] by simp
qed

lemma fresh_check: "checkIPRate t ip (NewValidator DefaultConfig None) =
    (if ip = '''' then (NewValidator DefaultConfig None, Inr ())
     else ((sweepLocked t (t - Minute) (NewValidator DefaultConfig None))\<lparr>v_ipHits := [(ip, [t])]\<rparr>, Inr ()))"
  by (simp add: checkIPRate_def NewValidator_def DefaultConfig_def sweepLocked_def sweep_map_def charge_def prune_def gomap_get_def)

lemma ask_accepted:
  "\<exists>v'. ValidateOffer demo_crypto (Second, Second, Second) (Some (\<lambda>m i. RestingMakerSig m i NewStore)) ask_offer ''''
     (NewValidator DefaultConfig None) = (v', Inr ())"
proof -
  have "\<not> rests_in NewStore ask_offer" by (simp add: rests_in_def NewStore_def)
  from ask_check_offer [OF _ _ this, of Second]
  have "check_offer demo_crypto DefaultConfig (Some (\<lambda>m i. RestingMakerSig m i NewStore)) Second ask_offer = Inr ()"
    by (simp add: Second_def)
  moreover have "v_cfg (NewValidator DefaultConfig None) = DefaultConfig" by (simp add: NewValidator_def DefaultConfig_def)
  moreover obtain v' where "checkPubkeyRate Second (MakerPubkey ask_offer) (NewValidator DefaultConfig None) = (v', Inr ())"
      "v_probe v' = NoopLivenessProbe"
    by (simp add: checkPubkeyRate_def NewValidator_def DefaultConfig_def sweepLocked_def sweep_map_def charge_def prune_def
        gomap_get_def Let_def zero_time_def Minute_def Second_def)
  ultimately show ?thesis by (simp add: ValidateOffer_def fresh_check NoopLivenessProbe_def reject_if_def)
qed

theorem accepted_offers_sound_witness:
  "VerifyOffer demo_crypto (Some ask_offer) = Inr () \<and> offer_wf ask_offer \<and> Second < time_Unix (ExpiresAtUnix ask_offer)"
proof -
  from ask_accepted obtain v' where
    "ValidateOffer demo_crypto (Second, Second, Second) (Some (\<lambda>m i. RestingMakerSig m i NewStore)) ask_offer ''''
       (NewValidator DefaultConfig None) = (v', Inr ())" by blast
  from accepted_offers_sound [OF this] show ?thesis by blast
qed

section \<open>Rate limits\<close>

text \<open>C33: the rate limits hold in every interleaving of submissions: when no call is charged with a clock reading more than \<open>lag\<close> behind a
  reading that was charged or checked before it (calls read the clock before they wait for the mutex), then in any window of one minute less \<open>lag\<close>, no IP
  address and no maker key gets more attempts past its limit than the configured maximum; with no lag, in any window of one minute.\<close>

theorem rate_limits_hold:
  assumes "limiter cfg lag v t ips pubs" "0 \<le> lag" "0 < cfg_MaxOffersPerMinPerIP cfg" "0 < cfg_MaxOffersPerMinPerPubkey cfg"
  shows "(ip \<noteq> [] \<longrightarrow> int (length (in_window (Minute - lag) now (hit_times ip ips))) \<le> cfg_MaxOffersPerMinPerIP cfg) \<and>
    int (length (in_window (Minute - lag) now (hit_times k pubs))) \<le> cfg_MaxOffersPerMinPerPubkey cfg"
proof -
  have "bounded (Minute - lag) (cfg_MaxOffersPerMinPerIP cfg) (filter (\<lambda>p. fst p \<noteq> []) ips)"
    "bounded (Minute - lag) (cfg_MaxOffersPerMinPerPubkey cfg) pubs"
    using limiter_limiter_inv [OF assms(1,2)] assms(3,4) by (simp_all add: limiter_inv_def)
  moreover have "hit_times ip (filter (\<lambda>p. fst p \<noteq> []) ips) = hit_times ip ips" if "ip \<noteq> []"
    using that by (auto simp: hit_times_def intro!: arg_cong [where f = "map snd"] filter_cong)
  ultimately show ?thesis by (metis bounded_def)
qed

theorem rate_limits_hold_witness:
  "\<exists>v. limiter DefaultConfig Second v Second [(''ip'', Second)] [] \<and>
     int (length (in_window (Minute - Second) Second (hit_times ''ip'' [(''ip'', Second)]))) \<le> 120"
proof -
  obtain v r where step: "checkIPRate Second ''ip'' (NewValidator DefaultConfig None) = (v, r)" by fastforce
  then have "r = Inr ()" by (simp add: fresh_check)
  with limiter_ip [OF limiter_new [where t = 0 and probe = None and cfg = DefaultConfig and lag = Second] _ step]
  have l: "limiter DefaultConfig Second v Second [(''ip'', Second)] []" by (simp add: Second_def)
  from rate_limits_hold [OF l, of "''ip''" Second] l show ?thesis by (auto simp: DefaultConfig_def Second_def)
qed

text \<open>The lag matters: with a limit of two a minute, a call that read its clock at 2 s but is charged after one that read it at 61 s finds the record of
  two attempts at 1 s pruned, and three attempts within a second pass.\<close>

lemma late_charge_passes:
  "let cfg = DefaultConfig\<lparr>cfg_MaxOffersPerMinPerPubkey := 2\<rparr>;
       (v1, r1) = checkPubkeyRate Second ''maker'' (NewValidator cfg None);
       (v2, r2) = checkPubkeyRate Second ''maker'' v1;
       (v3, r3) = checkPubkeyRate (61 * Second) ''maker'' v2;
       (v4, r4) = checkPubkeyRate (2 * Second) ''maker'' v3
   in r1 = Inr () \<and> r2 = Inr () \<and> r3 = Inr () \<and> r4 = Inr () \<and>
      length (in_window Minute (2 * Second) [Second, Second, 61 * Second, 2 * Second]) = 3"
  by (simp add: checkPubkeyRate_def NewValidator_def DefaultConfig_def sweepLocked_def zero_time_def sweep_map_def
      prune_in_place_def charge_def prune_def gomap_get_def in_window_def Minute_def Second_def)

section \<open>Who is charged\<close>

text \<open>A forged offer and a replay of a resting offer are refused and cost the named maker nothing: the maker's rate-limit record
  is untouched but for the periodic sweep.\<close>

lemma forged_and_replayed_uncharged:
  assumes "rests_in s ofr \<or> VerifyOffer cr (Some ofr) = Inl e"
    "ValidateOffer cr (t1, t2, t3) (Some (\<lambda>m i. RestingMakerSig m i s)) ofr ip v = (v', r)"
  shows "r \<noteq> Inr () \<and> (v_pubHits v' = v_pubHits v \<or> v_pubHits v' = sweep_map (t1 - Minute) (v_pubHits v))"
proof -
  have "check_offer cr (v_cfg v) (Some (\<lambda>m i. RestingMakerSig m i s)) t2 ofr \<noteq> Inr ()"
    using assms(1) resting.replay_refused check_offer_ok(1) by (metis Inl_Inr_False)
  from ValidateOffer_uncharged [OF assms(2) this] show ?thesis by (simp add: swept_only_def)
qed

section \<open>The sweep counts hits twice\<close>

text \<open>The periodic sweep prunes each record in place but stores the old length, so recent hits are counted twice: with a limit of
  two per minute, a maker with hits at 0 s and 50 s whose record is swept at 70 s by someone else's submission is refused at
  71 s, although only one of its attempts lies in the last minute.\<close>

lemma sweep_overcounts:
  "let cfg = DefaultConfig\<lparr>cfg_MaxOffersPerMinPerPubkey := 2\<rparr>;
       v0 = NewValidator cfg None;
       (v1, r1) = checkPubkeyRate 0 ''maker'' v0;
       (v2, r2) = checkPubkeyRate (50 * Second) ''maker'' v1;
       (v3, r3) = checkPubkeyRate (70 * Second) ''other'' v2;
       (v4, r4) = checkPubkeyRate (71 * Second) ''maker'' v3
   in r1 = Inr () \<and> r2 = Inr () \<and> r3 = Inr () \<and> r4 = Inl ErrPubkeyRate \<and>
      in_window Minute (71 * Second) (hit_times ''maker'' [(''maker'', 0), (''maker'', 50 * Second), (''other'', 70 * Second)]) = [50 * Second]"
  by (simp add: checkPubkeyRate_def NewValidator_def DefaultConfig_def sweepLocked_def zero_time_def sweep_map_def
      prune_in_place_def charge_def prune_def gomap_get_def in_window_def hit_times_def Minute_def Second_def)

end
