(* ===== verification/Chain_Watcher.thy ===== *)
theory Chain_Watcher
  imports Covenant Validator
begin

text \<open>
  The chain watcher (\<open>watcher/classify.go\<close>, \<open>watcher.go\<close>, \<open>storebook.go\<close>, \<open>probe.go\<close>): the pure
  classifier of a covenant outpoint, the reconciliation pass that drives the book, the adapter that
  backs the controller interface by the store, and the submit probe. The node behind \<open>ChainView\<close> is a
  parameter: a failed call is \<open>None\<close>.
\<close>

section \<open>Data\<close>

datatype cov_verdict_state = StateLive | StatePartialFill | StateFilled | StateUnconfirmedSpend | StateGhost

definition State_String :: "cov_verdict_state \<Rightarrow> string" where
  "State_String s =
     (case s of
        StateLive \<Rightarrow> ''LIVE'' | StatePartialFill \<Rightarrow> ''PARTIAL_FILL'' | StateFilled \<Rightarrow> ''FILLED''
      | StateUnconfirmedSpend \<Rightarrow> ''UNCONFIRMED_SPEND'' | StateGhost \<Rightarrow> ''GHOST'')"

record remainder_out =
  ro_Present :: bool
  ro_Vout :: u32
  ro_Value :: u64

record cov_state =
  cs_Unspent :: bool
  cs_Value :: u64
  cs_AssetDisplay :: string
  cs_SPKHex :: string
  cs_ConfirmedUTXO :: bool
  cs_SpenderTxid :: string
  cs_SpenderConfirmed :: bool
  cs_Remainder :: remainder_out

record expect =
  ex_OrderSPKHex :: string
  ex_AssetADisplay :: string
  ex_MinLot :: u64

record verdict =
  vd_State :: cov_verdict_state
  vd_LiveSize :: u64
  vd_RemainderTxid :: string
  vd_RemainderVout :: u32
  vd_RemainderSize :: u64
  vd_SpenderTxid :: string

text \<open>The zero \<open>Verdict\<close>; its \<open>Reason\<close> text is only logged and is not modelled.\<close>

definition no_verdict :: "cov_verdict_state \<Rightarrow> verdict" where
  "no_verdict st =
     \<lparr>vd_State = st, vd_LiveSize = 0, vd_RemainderTxid = '''', vd_RemainderVout = 0, vd_RemainderSize = 0,
      vd_SpenderTxid = ''''\<rparr>"

record chain_view =
  cv_Tip :: "(string \<times> int) option"
  cv_Inspect :: "string \<Rightarrow> u32 \<Rightarrow> string \<Rightarrow> string \<Rightarrow> cov_state option"

record cov_entry =
  cw_Key :: key
  cw_Terms :: covenant_terms
  cw_Active :: u64
  cw_ReRested :: bool

record 'b book_controller =
  bc_SnapshotCovenants :: "'b \<Rightarrow> cov_entry list"
  bc_ReconcileLive :: "key \<Rightarrow> u64 \<Rightarrow> 'b \<Rightarrow> 'b \<times> (store_error, unit) result"
  bc_RerestRemainder :: "key \<Rightarrow> string \<Rightarrow> u32 \<Rightarrow> u64 \<Rightarrow> 'b \<Rightarrow> 'b \<times> (store_error, unit) result"
  bc_RemoveFilled :: "key \<Rightarrow> string \<Rightarrow> 'b \<Rightarrow> 'b \<times> (store_error, unit) result"
  bc_HoldForSpend :: "key \<Rightarrow> string \<Rightarrow> 'b \<Rightarrow> 'b \<times> (store_error, unit) result"
  bc_RemoveGhost :: "key \<Rightarrow> 'b \<Rightarrow> 'b \<times> (store_error, unit) result"
  bc_HoldGhost :: "key \<Rightarrow> 'b \<Rightarrow> 'b \<times> (store_error, unit) result"

record watcher =
  w_lastTipHash :: string
  w_lastTipHeight :: int

record stats =
  st_Scanned :: nat
  st_Live :: nat
  st_PartialFill :: nat
  st_Filled :: nat
  st_Pending :: nat
  st_Ghost :: nat
  st_Errors :: nat
  st_ReorgSeen :: bool

definition NewWatcher :: watcher where
  "NewWatcher = \<lparr>w_lastTipHash = '''', w_lastTipHeight = 0\<rparr>"

definition no_stats :: stats where
  "no_stats = \<lparr>st_Scanned = 0, st_Live = 0, st_PartialFill = 0, st_Filled = 0, st_Pending = 0, st_Ghost = 0,
     st_Errors = 0, st_ReorgSeen = False\<rparr>"

section \<open>Classifier\<close>

definition Classify :: "cov_state \<Rightarrow> expect \<Rightarrow> verdict" where
  "Classify state ex =
     (if cs_Unspent state then
        (if \<not> strings_EqualFold (cs_SPKHex state) (ex_OrderSPKHex ex) \<or>
            \<not> strings_EqualFold (cs_AssetDisplay state) (ex_AssetADisplay ex)
         then no_verdict StateGhost
         else (no_verdict StateLive)\<lparr>vd_LiveSize := cs_Value state\<rparr>)
      else if cs_SpenderTxid state = '''' then no_verdict StateGhost
      else if \<not> cs_SpenderConfirmed state
      then (no_verdict StateUnconfirmedSpend)\<lparr>vd_SpenderTxid := cs_SpenderTxid state\<rparr>
      else if ro_Present (cs_Remainder state)
      then (no_verdict StatePartialFill)\<lparr>vd_RemainderTxid := cs_SpenderTxid state,
             vd_RemainderVout := ro_Vout (cs_Remainder state), vd_RemainderSize := ro_Value (cs_Remainder state)\<rparr>
      else (no_verdict StateFilled)\<lparr>vd_SpenderTxid := cs_SpenderTxid state\<rparr>)"

section \<open>Expected program\<close>

datatype watch_error = BadAssetHex | BadAssetLen | BadMakerProg | BadMakerX | DeriveError cov_error

definition hex32 :: "string \<Rightarrow> (watch_error, bytes) result" where
  "hex32 s =
     (case hex_DecodeString s of
        None \<Rightarrow> Inl BadAssetHex | Some b \<Rightarrow> if length b \<noteq> 32 then Inl BadAssetLen else Inr b)"

definition reverseHex :: "string \<Rightarrow> string" where
  "reverseHex s = (case hex_DecodeString s of None \<Rightarrow> '''' | Some b \<Rightarrow> hex_EncodeToString (rev b))"

definition orderFromTerms :: "covenant_terms \<Rightarrow> (watch_error, order) result" where
  "orderFromTerms t =
     rbind (hex32 (ct_AssetA t)) (\<lambda>a.
     rbind (hex32 (ct_AssetB t)) (\<lambda>b.
     rbind (reject_if (length (ct_MakerProg t) \<noteq> 32) BadMakerProg) (\<lambda>_.
     rbind (reject_if (length (ct_MakerX t) \<noteq> 32) BadMakerX) (\<lambda>_.
     Inr \<lparr>AssetA = a, AssetB = b, RateNum = ct_RateNum t, RateDen = ct_RateDen t, MakerProg = ct_MakerProg t,
          MakerVer = uint (ct_MakerProgVer t), MinLot = ct_MinLot t, ExpiryLocktime = uint (ct_ExpiryLocktime t),
          MakerX = ct_MakerX t,
          InternalKey = (if length (ct_InternalKey t) = 32 then ct_InternalKey t else NUMS)\<rparr>))))"

definition expectFromTerms :: "crypto \<Rightarrow> covenant_terms \<Rightarrow> (watch_error, expect) result" where
  "expectFromTerms cr t =
     rbind (orderFromTerms t) (\<lambda>ord.
     case Derive cr ord of
       Inl e \<Rightarrow> Inl (DeriveError e)
     | Inr tap \<Rightarrow> Inr \<lparr>ex_OrderSPKHex = hex_EncodeToString (tt_ScriptPubKey tap),
                       ex_AssetADisplay = reverseHex (ct_AssetA t), ex_MinLot = ct_MinLot t\<rparr>)"

section \<open>Driving the book\<close>

definition count_verdict :: "cov_verdict_state \<Rightarrow> stats \<Rightarrow> stats" where
  "count_verdict vs st =
     (case vs of
        StateLive \<Rightarrow> st\<lparr>st_Live := st_Live st + 1\<rparr>
      | StatePartialFill \<Rightarrow> st\<lparr>st_PartialFill := st_PartialFill st + 1\<rparr>
      | StateFilled \<Rightarrow> st\<lparr>st_Filled := st_Filled st + 1\<rparr>
      | StateUnconfirmedSpend \<Rightarrow> st\<lparr>st_Pending := st_Pending st + 1\<rparr>
      | StateGhost \<Rightarrow> st\<lparr>st_Ghost := st_Ghost st + 1\<rparr>)"

definition drive :: "'b book_controller \<Rightarrow> cov_entry \<Rightarrow> verdict \<Rightarrow> 'b \<Rightarrow> 'b \<times> (store_error, unit) result" where
  "drive bc c v b =
     (let k = cw_Key c in
      case vd_State v of
        StateLive \<Rightarrow> bc_ReconcileLive bc k (vd_LiveSize v) b
      | StatePartialFill \<Rightarrow> bc_RerestRemainder bc k (vd_RemainderTxid v) (vd_RemainderVout v) (vd_RemainderSize v) b
      | StateFilled \<Rightarrow> bc_RemoveFilled bc k (vd_SpenderTxid v) b
      | StateUnconfirmedSpend \<Rightarrow> bc_HoldForSpend bc k (vd_SpenderTxid v) b
      | StateGhost \<Rightarrow> if cw_ReRested c then bc_HoldGhost bc k b else bc_RemoveGhost bc k b)"

definition apply_verdict :: "'b book_controller \<Rightarrow> cov_entry \<Rightarrow> verdict \<Rightarrow> 'b \<times> stats \<Rightarrow> 'b \<times> stats" where
  "apply_verdict bc c v bst =
     (case bst of (b, st) \<Rightarrow>
        (case drive bc c v b of (b', r) \<Rightarrow>
           (let st = count_verdict (vd_State v) st in
            (b', case r of Inl _ \<Rightarrow> st\<lparr>st_Errors := st_Errors st + 1\<rparr> | Inr _ \<Rightarrow> st))))"

text \<open>What the node says about one covenant: \<open>None\<close> when its terms do not derive or the node fails.\<close>

definition inspect :: "crypto \<Rightarrow> chain_view \<Rightarrow> covenant_terms \<Rightarrow> verdict option" where
  "inspect cr chain t =
     (case expectFromTerms cr t of
        Inl _ \<Rightarrow> None
      | Inr ex \<Rightarrow>
          map_option (\<lambda>state. Classify state ex)
            (cv_Inspect chain (ct_CovenantTxid t) (ct_CovenantVout t) (ex_OrderSPKHex ex) (ex_AssetADisplay ex)))"

definition reconcile_one :: "crypto \<Rightarrow> chain_view \<Rightarrow> 'b book_controller \<Rightarrow> cov_entry \<Rightarrow> 'b \<times> stats \<Rightarrow> 'b \<times> stats" where
  "reconcile_one cr chain bc c bst =
     (case inspect cr chain (cw_Terms c) of
        None \<Rightarrow> (fst bst, (snd bst)\<lparr>st_Errors := st_Errors (snd bst) + 1\<rparr>)
      | Some v \<Rightarrow> apply_verdict bc c v bst)"

definition ReconcileOnce ::
  "crypto \<Rightarrow> chain_view \<Rightarrow> 'b book_controller \<Rightarrow> watcher \<Rightarrow> 'b \<Rightarrow> watcher \<times> 'b \<times> stats option" where
  "ReconcileOnce cr chain bc w b =
     (case cv_Tip chain of
        None \<Rightarrow> (w, b, None)
      | Some (tipHash, tipHeight) \<Rightarrow>
          (let reorg = (w_lastTipHash w \<noteq> '''' \<and> tipHash \<noteq> w_lastTipHash w \<and> tipHeight \<le> w_lastTipHeight w);
               w = \<lparr>w_lastTipHash = tipHash, w_lastTipHeight = tipHeight\<rparr>;
               covs = bc_SnapshotCovenants bc b;
               st = no_stats\<lparr>st_ReorgSeen := reorg, st_Scanned := length covs\<rparr>;
               (b, st) = fold (reconcile_one cr chain bc) covs (b, st)
           in (w, b, Some st)))"

section \<open>The store behind the controller\<close>

text \<open>\<open>clock k\<close> is the clock reading when the pass reaches the order \<open>k\<close>.\<close>

definition NewStoreBook :: "(key \<Rightarrow> time) \<Rightarrow> store book_controller" where
  "NewStoreBook clock =
     \<lparr>bc_SnapshotCovenants =
        (\<lambda>s. map (\<lambda>c. \<lparr>cw_Key = ce_Key c, cw_Terms = ce_Terms c, cw_Active = ce_Active c, cw_ReRested = ce_ReRested c\<rparr>)
           (SnapshotCovenants s)),
      bc_ReconcileLive = (\<lambda>k active s. (ReconcileCovenantActive k active s, Inr ())),
      bc_RerestRemainder = (\<lambda>k txid vout sz s. (RerestCovenantRemainder (clock k) k txid vout sz s, Inr ())),
      bc_RemoveFilled = (\<lambda>k tx s. (RemoveCovenantFilled (clock k) k tx s, Inr ())),
      bc_HoldForSpend = (\<lambda>k tx s. (HoldCovenantForSpend k tx s, Inr ())),
      bc_RemoveGhost = (\<lambda>k s. MarkInvalidated k s),
      bc_HoldGhost = (\<lambda>k s. (HoldCovenantGhost k s, Inr ()))\<rparr>"

section \<open>Submit probe\<close>

datatype probe_error = ProbeTerms watch_error | ProbeSpent | ProbeProgram | ProbeAsset | ProbeAmount

definition ProbeCovenant :: "crypto \<Rightarrow> chain_view option \<Rightarrow> offer \<Rightarrow> (probe_error, unit) result" where
  "ProbeCovenant cr chain ofr =
     (case (GetCovenant ofr, chain) of
        (Some t, Some chain) \<Rightarrow>
          (case expectFromTerms cr t of
             Inl e \<Rightarrow> Inl (ProbeTerms e)
           | Inr ex \<Rightarrow>
               (case cv_Inspect chain (ct_CovenantTxid t) (ct_CovenantVout t) (ex_OrderSPKHex ex) (ex_AssetADisplay ex) of
                  None \<Rightarrow> Inr ()
                | Some st \<Rightarrow>
                    rbind (reject_if (\<not> cs_Unspent st) ProbeSpent) (\<lambda>_.
                    rbind (reject_if (\<not> strings_EqualFold (cs_SPKHex st) (ex_OrderSPKHex ex)) ProbeProgram) (\<lambda>_.
                    rbind (reject_if (\<not> strings_EqualFold (cs_AssetDisplay st) (ex_AssetADisplay ex)) ProbeAsset) (\<lambda>_.
                    reject_if (cs_Value st \<noteq> OfferAmount ofr) ProbeAmount)))))
      | _ \<Rightarrow> Inr ())"

definition SubmitProbe_CheckOffer :: "crypto \<Rightarrow> chain_view option \<Rightarrow> offer \<Rightarrow> bool" where
  "SubmitProbe_CheckOffer cr chain ofr \<longleftrightarrow> ProbeCovenant cr chain ofr = Inr ()"

section \<open>What a pass does to the book\<close>

text \<open>The entry of a covenant order after a verdict; \<open>None\<close> when it leaves the book.\<close>

definition verdict_entry :: "verdict \<Rightarrow> entry \<Rightarrow> entry option" where
  "verdict_entry v e =
     (let base = BaseAmount (e_Offer e) in
      case vd_State v of
        StateLive \<Rightarrow> Some (reconcile_entry (if base < vd_LiveSize v then base else vd_LiveSize v) e)
      | StatePartialFill \<Rightarrow>
          Some (rerest_entry (vd_RemainderTxid v) (vd_RemainderVout v)
                  (if base < vd_RemainderSize v then base else vd_RemainderSize v) e)
      | StateFilled \<Rightarrow> None
      | StateUnconfirmedSpend \<Rightarrow> Some (spend_entry (vd_SpenderTxid v) e)
      | StateGhost \<Rightarrow> if e_reRested e then Some (ghost_entry e) else None)"

text \<open>The book a pass should leave: every covenant order as the node says, everything else as it was.\<close>

definition reconciled :: "crypto \<Rightarrow> chain_view \<Rightarrow> (key \<rightharpoonup> entry) \<Rightarrow> key \<rightharpoonup> entry" where
  "reconciled cr chain m k =
     (case m k of
        None \<Rightarrow> None
      | Some e \<Rightarrow>
          (case GetCovenant (e_Offer e) of
             None \<Rightarrow> Some e
           | Some t \<Rightarrow> (case inspect cr chain t of None \<Rightarrow> Some e | Some v \<Rightarrow> verdict_entry v e)))"

text \<open>
  The contract of a controller over a book with lookup \<open>look\<close>: the snapshot lists the covenant orders
  once each; every operation rewrites at most the named key.
\<close>

locale covenant_book =
  fixes bc :: "'b book_controller" and look :: "'b \<Rightarrow> key \<rightharpoonup> entry" and inv :: "'b \<Rightarrow> bool"
  assumes snapshot_keys: "inv b \<Longrightarrow> distinct (map cw_Key (bc_SnapshotCovenants bc b))"
    and snapshot_mem: "inv b \<Longrightarrow> c \<in> set (bc_SnapshotCovenants bc b) \<longleftrightarrow>
      (\<exists>e t. look b (cw_Key c) = Some e \<and> GetCovenant (e_Offer e) = Some t \<and>
         c = \<lparr>cw_Key = cw_Key c, cw_Terms = t, cw_Active = e_ActiveAmount e, cw_ReRested = e_reRested e\<rparr>)"
    and drive_law: "look b (cw_Key c) = Some e \<Longrightarrow> GetCovenant (e_Offer e) \<noteq> None \<Longrightarrow> cw_ReRested c = e_reRested e \<Longrightarrow>
      look (fst (drive bc c v b)) = (look b)(cw_Key c := verdict_entry v e)"
    and drive_ok: "look b (cw_Key c) = Some e \<Longrightarrow> GetCovenant (e_Offer e) \<noteq> None \<Longrightarrow> snd (drive bc c v b) = Inr ()"
begin

lemma fold_reconcile:
  assumes "distinct (map cw_Key cs)"
    "\<And>c. c \<in> set cs \<Longrightarrow> \<exists>e. look b (cw_Key c) = Some e \<and> GetCovenant (e_Offer e) = Some (cw_Terms c) \<and> cw_ReRested c = e_reRested e"
  shows "look (fst (fold (reconcile_one cr chain bc) cs (b, st))) k =
    (if k \<in> cw_Key ` set cs then reconciled cr chain (look b) k else look b k)"
  using assms
proof (induction cs arbitrary: b st)
  case (Cons c cs)
  from Cons.prems(2) [of c] obtain e where e: "look b (cw_Key c) = Some e"
      "GetCovenant (e_Offer e) = Some (cw_Terms c)" "cw_ReRested c = e_reRested e" by auto
  define b' where "b' = fst (reconcile_one cr chain bc c (b, st))"
  have b': "look b' = (look b)(cw_Key c := reconciled cr chain (look b) (cw_Key c))"
  proof (cases "inspect cr chain (cw_Terms c)")
    case None
    with e show ?thesis by (auto simp: b'_def reconcile_one_def reconciled_def fun_eq_iff)
  next
    case (Some v)
    have "look b' = look (fst (drive bc c v b))"
      by (simp add: b'_def reconcile_one_def Some apply_verdict_def Let_def split: prod.split)
    also have "\<dots> = (look b)(cw_Key c := verdict_entry v e)"
      using e by (intro drive_law) auto
    finally show ?thesis using e Some by (simp add: reconciled_def)
  qed
  obtain st' where step: "reconcile_one cr chain bc c (b, st) = (b', st')" by (metis b'_def prod.collapse)
  have "\<exists>e. look b' (cw_Key d) = Some e \<and> GetCovenant (e_Offer e) = Some (cw_Terms d) \<and> cw_ReRested d = e_reRested e"
    if "d \<in> set cs" for d
    using Cons.prems that b' by (auto simp: image_iff)
  from Cons.IH [OF _ this, of st'] Cons.prems(1)
  have "look (fst (fold (reconcile_one cr chain bc) (c # cs) (b, st))) k =
      (if k \<in> cw_Key ` set cs then reconciled cr chain (look b') k else look b' k)"
    by (simp add: step)
  with b' Cons.prems(1) show ?case by (auto simp: reconciled_def)
qed simp

lemma pass_reconciles:
  assumes "inv b" "ReconcileOnce cr chain bc w b = (w', b', Some st)"
  shows "look b' = reconciled cr chain (look b)"
proof
  fix k
  from assms(2) obtain st0 where b': "b' = fst (fold (reconcile_one cr chain bc) (bc_SnapshotCovenants bc b) (b, st0))"
    by (auto simp: ReconcileOnce_def Let_def split: option.splits prod.splits) (metis fst_conv)
  have cs: "\<exists>e. look b (cw_Key c) = Some e \<and> GetCovenant (e_Offer e) = Some (cw_Terms c) \<and> cw_ReRested c = e_reRested e"
    if "c \<in> set (bc_SnapshotCovenants bc b)" for c
    using that snapshot_mem [OF assms(1), of c] by (metis cov_entry.select_convs(2,4))
  have mem: "k \<in> cw_Key ` set (bc_SnapshotCovenants bc b) \<longleftrightarrow> (\<exists>e t. look b k = Some e \<and> GetCovenant (e_Offer e) = Some t)"
  proof
    assume "k \<in> cw_Key ` set (bc_SnapshotCovenants bc b)"
    then show "\<exists>e t. look b k = Some e \<and> GetCovenant (e_Offer e) = Some t" using cs by fastforce
  next
    assume "\<exists>e t. look b k = Some e \<and> GetCovenant (e_Offer e) = Some t"
    then obtain e t where "look b k = Some e" "GetCovenant (e_Offer e) = Some t" by blast
    then have "\<lparr>cw_Key = k, cw_Terms = t, cw_Active = e_ActiveAmount e, cw_ReRested = e_reRested e\<rparr> \<in> set (bc_SnapshotCovenants bc b)"
      by (subst snapshot_mem [OF assms(1)]) simp
    then show "k \<in> cw_Key ` set (bc_SnapshotCovenants bc b)" by force
  qed
  from fold_reconcile [OF snapshot_keys [OF assms(1)] cs]
  have "look b' k = (if k \<in> cw_Key ` set (bc_SnapshotCovenants bc b) then reconciled cr chain (look b) k else look b k)"
    by (simp add: b')
  then show "look b' k = reconciled cr chain (look b) k"
    unfolding mem by (auto simp: reconciled_def split: option.splits)
qed

end

lemma map_of_on_covenant_set:
  "map_of (entries s) k = Some e \<Longrightarrow> GetCovenant (e_Offer e) \<noteq> None \<Longrightarrow>
   entries (f e s) = AList.update k e' (entries s) \<Longrightarrow> map_of (entries (on_covenant k f s)) = (map_of (entries s))(k \<mapsto> e')"
  by (auto simp: on_covenant_def update_conv' GetCovenant_None)

lemma map_of_on_covenant_del:
  "map_of (entries s) k = Some e \<Longrightarrow> GetCovenant (e_Offer e) \<noteq> None \<Longrightarrow>
   entries (f e s) = AList.delete k (entries s) \<Longrightarrow> map_of (entries (on_covenant k f s)) = (map_of (entries s))(k := None)"
  by (auto simp: on_covenant_def delete_conv' GetCovenant_None)

lemma store_drive:
  assumes "map_of (entries s) (cw_Key c) = Some e" "GetCovenant (e_Offer e) \<noteq> None" "cw_ReRested c = e_reRested e"
  shows "map_of (entries (fst (drive (NewStoreBook clock) c v s))) = (map_of (entries s))(cw_Key c := verdict_entry v e)"
proof (cases "vd_State v")
  case StateLive
  then show ?thesis
    unfolding drive_def NewStoreBook_def verdict_entry_def Let_def
    by (simp add: ReconcileCovenantActive_def)
      (intro conjI impI; rule map_of_on_covenant_set [OF assms(1,2)]; simp add: Let_def)
next
  case StatePartialFill
  then show ?thesis
    unfolding drive_def NewStoreBook_def verdict_entry_def Let_def
    by (simp add: RerestCovenantRemainder_def)
      (intro conjI impI; rule map_of_on_covenant_set [OF assms(1,2)]; simp add: Let_def)
next
  case StateFilled
  then show ?thesis
    unfolding drive_def NewStoreBook_def verdict_entry_def Let_def
    by (simp add: RemoveCovenantFilled_def)
      (rule map_of_on_covenant_del [OF assms(1,2)]; simp add: Let_def)
next
  case StateUnconfirmedSpend
  then show ?thesis
    unfolding drive_def NewStoreBook_def verdict_entry_def Let_def
    by (simp add: HoldCovenantForSpend_def)
      (rule map_of_on_covenant_set [OF assms(1,2)]; simp add: Let_def)
next
  case StateGhost
  have "map_of (entries (HoldCovenantGhost (cw_Key c) s)) = (map_of (entries s))(cw_Key c \<mapsto> ghost_entry e)"
    unfolding HoldCovenantGhost_def by (rule map_of_on_covenant_set [OF assms(1,2)]) (simp add: Let_def)
  moreover have "map_of (entries (fst (MarkInvalidated (cw_Key c) s))) = (map_of (entries s))(cw_Key c := None)"
    using assms(1) by (simp add: MarkInvalidated_def dropWithStatus_def Let_def delete_conv')
  ultimately show ?thesis
    using StateGhost assms(3) by (simp add: drive_def NewStoreBook_def verdict_entry_def Let_def)
qed

lemma SnapshotCovenants_mem:
  "gomap_ok (entries s) \<Longrightarrow> c \<in> set (SnapshotCovenants s) \<longleftrightarrow>
     (\<exists>e t. map_of (entries s) (ce_Key c) = Some e \<and> GetCovenant (e_Offer e) = Some t \<and>
        c = \<lparr>ce_Key = ce_Key c, ce_Terms = t, ce_Active = e_ActiveAmount e, ce_ReRested = e_reRested e\<rparr>)"
  by (force simp: SnapshotCovenants_def List.map_filter_def gomap_mem [symmetric] split: option.splits)

lemma SnapshotCovenants_keys: "gomap_ok (entries s) \<Longrightarrow> distinct (map ce_Key (SnapshotCovenants s))"
proof -
  have "map ce_Key (List.map_filter (\<lambda>(k, e). case GetCovenant (e_Offer e) of
      Some cov \<Rightarrow> Some \<lparr>ce_Key = k, ce_Terms = cov, ce_Active = e_ActiveAmount e, ce_ReRested = e_reRested e\<rparr>
    | None \<Rightarrow> None) m) = map fst (filter (\<lambda>(k, e). GetCovenant (e_Offer e) \<noteq> None) m)" for m
    by (induction m) (auto simp: List.map_filter_simps simp del: GetCovenant_Some split: option.splits)
  then have "map ce_Key (SnapshotCovenants s) = map fst (filter (\<lambda>(k, e). GetCovenant (e_Offer e) \<noteq> None) (entries s))"
    unfolding SnapshotCovenants_def .
  then show "gomap_ok (entries s) \<Longrightarrow> ?thesis"
    unfolding gomap_ok_def by (simp only: distinct_map_filter)
qed

lemma covenant_entry_eta [simp]:
  "\<lparr>ce_Key = ce_Key c, ce_Terms = ce_Terms c, ce_Active = ce_Active c, ce_ReRested = ce_ReRested c\<rparr> = c"
  by (cases c) simp

interpretation store_cov: covenant_book "NewStoreBook clock" "\<lambda>s. map_of (entries s)" "\<lambda>s. gomap_ok (entries s)" for clock
proof (unfold_locales, goal_cases)
  case (1 s)
  then show ?case using SnapshotCovenants_keys [OF 1] by (simp add: NewStoreBook_def comp_def)
next
  case (2 s c)
  have "c \<in> set (bc_SnapshotCovenants (NewStoreBook clock) s) \<longleftrightarrow>
      \<lparr>ce_Key = cw_Key c, ce_Terms = cw_Terms c, ce_Active = cw_Active c, ce_ReRested = cw_ReRested c\<rparr> \<in> set (SnapshotCovenants s)"
  proof
    assume "c \<in> set (bc_SnapshotCovenants (NewStoreBook clock) s)"
    then show "\<lparr>ce_Key = cw_Key c, ce_Terms = cw_Terms c, ce_Active = cw_Active c, ce_ReRested = cw_ReRested c\<rparr> \<in> set (SnapshotCovenants s)"
      by (auto simp: NewStoreBook_def)
  next
    assume "\<lparr>ce_Key = cw_Key c, ce_Terms = cw_Terms c, ce_Active = cw_Active c, ce_ReRested = cw_ReRested c\<rparr> \<in> set (SnapshotCovenants s)"
    then show "c \<in> set (bc_SnapshotCovenants (NewStoreBook clock) s)"
      by (auto simp: NewStoreBook_def intro!: rev_image_eqI)
  qed
  also have "\<dots> \<longleftrightarrow> (\<exists>e t. map_of (entries s) (cw_Key c) = Some e \<and> GetCovenant (e_Offer e) = Some t \<and>
         c = \<lparr>cw_Key = cw_Key c, cw_Terms = t, cw_Active = e_ActiveAmount e, cw_ReRested = e_reRested e\<rparr>)"
    by (subst SnapshotCovenants_mem [OF 2]) (cases c, auto)
  finally show ?case .
next
  case (3 s c e v)
  then show ?case by (rule store_drive)
next
  case (4 s c e v)
  then show ?case
    by (auto simp: drive_def NewStoreBook_def MarkInvalidated_def dropWithStatus_def Let_def split: cov_verdict_state.split)
qed

end
