(* ===== verification/Settler.thy ===== *)
theory Settler
  imports Chain_Watcher Matcher
begin

text \<open>
  The settler of crossed covenant orders: \<open>settler/settler.go\<close>, \<open>settler/assemble.go\<close>,
  \<open>settler/node.go\<close> and the discovery loop of \<open>cmd/seqob-settler/run.go\<close>. The go-elements
  transaction library, the node's RPC replies and the relay's REST replies are parameters.
\<close>

section \<open>Planning (settler.go)\<close>

record utxo =
  u_Txid :: string
  u_Vout :: u32

record joint_plan =
  jp_JointSettlement :: "joint_settlement option"
  jp_In0 :: utxo
  jp_In1 :: utxo

datatype settler_error =
    NotBothCovenant | RestingCovenantErr watch_error | IncomingCovenantErr watch_error | PlanErr cov_error
  | NoFunder | NilJointSettlement | GapSpkErr | MinOutputsErr | CreditIndexErr | RemainderIndexErr | ValueErr
  | GapAssetErr cov_error | NoGapSpk | SlotUnfilled | CovInputErr | SerializeErr | FundErr | ParseFundedErr
  | FewInputs | BroadcastErr
  | PastExpiry | TermsErr watch_error | DeriveErr cov_error | InspectErr | NotUnspent | BadSpkHex
  | VerifyErr cov_error | WrongAsset
  | ParseSkeletonErr | ListUnspentErr | InsufficientFunds | UtxoTxidErr | ChangeSpkErr | SignErr
  | ZeroRateDen | NoValidCross | OrderbookErr

definition settler_orderFromTerms :: "covenant_terms \<Rightarrow> (watch_error, order \<times> utxo) result" where
  "settler_orderFromTerms t =
     rbind (hex32 (ct_AssetA t)) (\<lambda>a.
     rbind (hex32 (ct_AssetB t)) (\<lambda>b.
     rbind (reject_if (length (ct_MakerProg t) \<noteq> 32) BadMakerProg) (\<lambda>_.
     rbind (reject_if (length (ct_MakerX t) \<noteq> 32) BadMakerX) (\<lambda>_.
     Inr (\<lparr>AssetA = a, AssetB = b, RateNum = ct_RateNum t, RateDen = ct_RateDen t, MakerProg = ct_MakerProg t,
           MakerVer = uint (ct_MakerProgVer t), MinLot = ct_MinLot t, ExpiryLocktime = uint (ct_ExpiryLocktime t),
           MakerX = ct_MakerX t,
           InternalKey = (if length (ct_InternalKey t) = 32 then ct_InternalKey t else NUMS)\<rparr>,
          \<lparr>u_Txid = ct_CovenantTxid t, u_Vout = ct_CovenantVout t\<rparr>)))))"

definition settler_Plan ::
  "crypto \<Rightarrow> match \<Rightarrow> u64 \<Rightarrow> u64 \<Rightarrow> u64 \<Rightarrow> u64 \<Rightarrow> (settler_error, joint_plan) result" where
  "settler_Plan cr m lockedA fillA lockedB fillB =
     (case (mt_RestingCovenant m, mt_IncomingCovenant m) of
        (Some ta, Some tb) \<Rightarrow>
          (case settler_orderFromTerms ta of
             Inl e \<Rightarrow> Inl (RestingCovenantErr e)
           | Inr (orderA, in0) \<Rightarrow>
               (case settler_orderFromTerms tb of
                  Inl e \<Rightarrow> Inl (IncomingCovenantErr e)
                | Inr (orderB, in1) \<Rightarrow>
                    (case PlanJointSettlement cr orderA lockedA fillA orderB lockedB fillB of
                       Inl e \<Rightarrow> Inl (PlanErr e)
                     | Inr js \<Rightarrow> Inr \<lparr>jp_JointSettlement = Some js, jp_In0 = in0, jp_In1 = in1\<rparr>)))
      | _ \<Rightarrow> Inl NotBothCovenant)"

section \<open>Assembly (assemble.go)\<close>

text \<open>The fields of a go-elements transaction the settler reads or writes, and the library calls.\<close>

record tx_in =
  ti_Hash :: bytes
  ti_Index :: u32
  ti_Witness :: "bytes list"

record tx_out =
  to_Asset :: bytes
  to_Value :: bytes
  to_Script :: bytes

record tx =
  tx_Version :: int
  tx_Inputs :: "tx_in list"
  tx_Outputs :: "tx_out list"

record elements_lib =
  el_ToHex :: "tx \<Rightarrow> string option"
  el_NewTxFromHex :: "string \<Rightarrow> tx option"
  el_ValueToBytes :: "u64 \<Rightarrow> bytes option"
  el_TxIDToBytes :: "string \<Rightarrow> bytes option"

record fee_funder =
  ff_GapSPK :: "bytes option"
  ff_FundAndSign :: "string \<Rightarrow> u64 \<Rightarrow> (settler_error, string) result"

record node_assembler =
  na_Bitcoin :: bytes
  na_GapValue :: u64
  na_Funder :: "fee_funder option"

definition assetCommit :: "bytes \<Rightarrow> bytes" where
  "assetCommit internal = 1 # internal"

definition covInput :: "elements_lib \<Rightarrow> utxo \<Rightarrow> (settler_error, tx_in) result" where
  "covInput lib u =
     (case el_TxIDToBytes lib (u_Txid u) of
        None \<Rightarrow> Inl CovInputErr | Some h \<Rightarrow> Inr \<lparr>ti_Hash = h, ti_Index = u_Vout u, ti_Witness = []\<rparr>)"

lemma covInput_Inr: "covInput lib u = Inr i \<Longrightarrow> el_TxIDToBytes lib (u_Txid u) = Some (ti_Hash i) \<and> ti_Index i = u_Vout u"
  by (auto simp: covInput_def split: option.splits)

definition value_bytes :: "elements_lib \<Rightarrow> u64 \<Rightarrow> (settler_error, bytes) result" where
  "value_bytes lib v = (case el_ValueToBytes lib v of None \<Rightarrow> Inl ValueErr | Some b \<Rightarrow> Inr b)"

text \<open>The body of the loop over the two legs: the maker's credit, then the reserved slot.\<close>

definition place_leg ::
  "elements_lib \<Rightarrow> node_assembler \<Rightarrow> bytes option \<Rightarrow> cov_leg \<Rightarrow> tx_out option list \<times> u64 \<Rightarrow>
    (settler_error, tx_out option list \<times> u64) result" where
  "place_leg lib a gapSPK leg acc =
     (case acc of (outs, gapTotal) \<Rightarrow>
      if length outs \<le> unat (leg_CreditIndex leg) then Inl CreditIndexErr
      else rbind (value_bytes lib (leg_CreditValue leg)) (\<lambda>creditVal.
        let outs = outs[unat (leg_CreditIndex leg) :=
              Some \<lparr>to_Asset = assetCommit (leg_CreditAsset leg), to_Value = creditVal, to_Script = leg_CreditSPK leg\<rparr>] in
        if length outs \<le> unat (leg_RemainderIndex leg) then Inl RemainderIndexErr
        else if leg_Partial leg then
          rbind (value_bytes lib (leg_Remainder leg)) (\<lambda>remVal.
            Inr (outs[unat (leg_RemainderIndex leg) :=
              Some \<lparr>to_Asset = assetCommit (leg_RemainderAsset leg), to_Value = remVal, to_Script = leg_OrderSPK leg\<rparr>],
              gapTotal))
        else
          (case GapAsset leg (na_Bitcoin a) of
             Inl e \<Rightarrow> Inl (GapAssetErr e)
           | Inr _ \<Rightarrow>
               (case gapSPK of
                  None \<Rightarrow> Inl NoGapSpk
                | Some spk \<Rightarrow>
                    rbind (value_bytes lib (na_GapValue a)) (\<lambda>gapVal.
                      Inr (outs[unat (leg_RemainderIndex leg) :=
                        Some \<lparr>to_Asset = assetCommit (na_Bitcoin a), to_Value = gapVal, to_Script = spk\<rparr>],
                        gapTotal + na_GapValue a))))))"

definition buildCovenantOutputs ::
  "elements_lib \<Rightarrow> node_assembler \<Rightarrow> joint_settlement \<Rightarrow> bytes option \<Rightarrow> (settler_error, tx_out list \<times> u64) result" where
  "buildCovenantOutputs lib a s gapSPK =
     (let n = unat (MinOutputs s) in
      if n < 4 then Inl MinOutputsErr
      else
        rbind (place_leg lib a gapSPK (Leg0 s) (replicate n None, 0)) (\<lambda>acc.
        rbind (place_leg lib a gapSPK (Leg1 s) acc) (\<lambda>(outs, gapTotal).
        if None \<in> set outs then Inl SlotUnfilled else Inr (map the outs, gapTotal))))"

definition skeleton :: "elements_lib \<Rightarrow> joint_plan \<Rightarrow> tx_out list \<Rightarrow> (settler_error, tx) result" where
  "skeleton lib s outs =
     rbind (covInput lib (jp_In0 s)) (\<lambda>in0.
     rbind (covInput lib (jp_In1 s)) (\<lambda>in1.
     Inr \<lparr>tx_Version = 2, tx_Inputs = [in0, in1], tx_Outputs = outs\<rparr>))"

definition serialize :: "elements_lib \<Rightarrow> tx \<Rightarrow> (settler_error, string) result" where
  "serialize lib t = (case el_ToHex lib t of None \<Rightarrow> Inl SerializeErr | Some h \<Rightarrow> Inr h)"

text \<open>The last step: the two covenant witnesses go into inputs 0 and 1.\<close>

definition inject_witnesses :: "joint_settlement \<Rightarrow> tx \<Rightarrow> (settler_error, tx) result" where
  "inject_witnesses js t =
     (case tx_Inputs t of
        i0 # i1 # ins \<Rightarrow>
          Inr (t\<lparr>tx_Inputs := i0\<lparr>ti_Witness := leg_Witness (Leg0 js)\<rparr> # i1\<lparr>ti_Witness := leg_Witness (Leg1 js)\<rparr> # ins\<rparr>)
      | _ \<Rightarrow> Inl FewInputs)"

definition Assemble :: "elements_lib \<Rightarrow> node_assembler \<Rightarrow> joint_plan \<Rightarrow> (settler_error, string) result" where
  "Assemble lib a s =
     (case na_Funder a of
        None \<Rightarrow> Inl NoFunder
      | Some funder \<Rightarrow>
          (case jp_JointSettlement s of
             None \<Rightarrow> Inl NilJointSettlement
           | Some js \<Rightarrow>
               if GapSlots js \<noteq> [] \<and> ff_GapSPK funder = None then Inl GapSpkErr
               else
                 rbind (buildCovenantOutputs lib a js (if GapSlots js \<noteq> [] then ff_GapSPK funder else None))
                   (\<lambda>(outs, gapTotal).
                 rbind (skeleton lib s outs) (\<lambda>t.
                 rbind (serialize lib t) (\<lambda>skeletonHex.
                 case ff_FundAndSign funder skeletonHex gapTotal of
                   Inl _ \<Rightarrow> Inl FundErr
                 | Inr signedHex \<Rightarrow>
                     (case el_NewTxFromHex lib signedHex of
                        None \<Rightarrow> Inl ParseFundedErr
                      | Some ftx \<Rightarrow> rbind (inject_witnesses js ftx) (serialize lib)))))))"

definition Handle ::
  "crypto \<Rightarrow> elements_lib \<Rightarrow> node_assembler \<Rightarrow> (string \<Rightarrow> string option) \<Rightarrow> match \<Rightarrow> u64 \<Rightarrow> u64 \<Rightarrow> u64 \<Rightarrow> u64 \<Rightarrow>
    (settler_error, string) result" where
  "Handle cr lib asm bc m lockedA fillA lockedB fillB =
     rbind (settler_Plan cr m lockedA fillA lockedB fillB) (\<lambda>s.
     rbind (Assemble lib asm s) (\<lambda>raw.
     case bc raw of None \<Rightarrow> Inl BroadcastErr | Some txid \<Rightarrow> Inr txid))"

section \<open>Node wallet funding and covenant reads (node.go)\<close>

definition dustFold :: u64 where
  "dustFold = 1000"

record wallet_utxo =
  wu_Txid :: string
  wu_Vout :: u32
  wu_Amount :: rat
  wu_Asset :: string
  wu_Spendable :: bool

record btcUTXO =
  bu_txid :: string
  bu_vout :: u32
  bu_atoms :: u64

text \<open>
  The node behind the funder: \<open>listunspent\<close>, \<open>signrawtransactionwithwallet\<close> (its \<open>hex\<close> field),
  \<open>getaddressinfo\<close> (\<open>unconfidential\<close> and \<open>scriptPubKey\<close>), and the two replies of \<open>getnewaddress\<close>, one
  for the gap script and one for the change script. \<open>None\<close> is an RPC error.
\<close>

record node_rpc =
  rpc_listunspent :: "wallet_utxo list option"
  rpc_signraw :: "string \<Rightarrow> string option"
  rpc_getaddressinfo :: "string \<Rightarrow> (string \<times> string) option"
  rpc_gapaddress :: "string option"
  rpc_changeaddress :: "string option"

record node_funder =
  nf_bitcoin :: string
  nf_btcCommit :: bytes
  nf_feeAtoms :: u64

text \<open>\<open>uint64(math.Round(v * 1e8))\<close>: the product is rounded to a float64, then to the nearest integer.\<close>

definition coinsToAtoms :: "rat \<Rightarrow> u64" where
  "coinsToAtoms v =
     (if v \<le> 0 then 0
      else (case quotient_of v of (p, q) \<Rightarrow> of_int \<lfloor>f64_div (nat p * 100000000) (nat q) + 1 / 2\<rfloor>))"

definition addrSPK :: "node_rpc \<Rightarrow> string \<Rightarrow> string option" where
  "addrSPK rpc addr =
     (case rpc_getaddressinfo rpc addr of
        None \<Rightarrow> None
      | Some (unconf, spk) \<Rightarrow>
          (let own = (if spk = '''' then None else Some spk) in
           if unconf \<noteq> '''' \<and> unconf \<noteq> addr then
             (case rpc_getaddressinfo rpc unconf of
                Some (_, uspk) \<Rightarrow> if uspk \<noteq> '''' then Some uspk else own
              | None \<Rightarrow> own)
           else own))"

definition freshUnconfSPK :: "node_rpc \<Rightarrow> string option \<Rightarrow> bytes option" where
  "freshUnconfSPK rpc reply = Option.bind reply (\<lambda>addr. Option.bind (addrSPK rpc addr) hex_DecodeString)"

text \<open>The smallest-first accumulation of the wallet's coins.\<close>

fun accumulate :: "u64 \<Rightarrow> btcUTXO list \<Rightarrow> btcUTXO list \<Rightarrow> u64 \<Rightarrow> (btcUTXO list \<times> u64) option" where
  "accumulate target [] picked tally = None"
| "accumulate target (u # us) picked tally =
     (let picked = picked @ [u]; tally = tally + bu_atoms u in
      if target \<le> tally then Some (picked, tally) else accumulate target us picked tally)"

definition spendable_coins :: "node_funder \<Rightarrow> wallet_utxo list \<Rightarrow> btcUTXO list" where
  "spendable_coins f raw =
     map (\<lambda>u. \<lparr>bu_txid = wu_Txid u, bu_vout = wu_Vout u, bu_atoms = coinsToAtoms (wu_Amount u)\<rparr>)
       (filter (\<lambda>u. wu_Spendable u \<and> (strings_ToLower (wu_Asset u) = nf_bitcoin f \<or> strings_ToLower (wu_Asset u) = ''bitcoin'')) raw)"

text \<open>\<open>sort.Slice\<close> leaves the order of equal amounts open; it is the order the node listed them in here.\<close>

definition selectBitcoin :: "node_funder \<Rightarrow> node_rpc \<Rightarrow> u64 \<Rightarrow> (settler_error, btcUTXO list \<times> u64) result" where
  "selectBitcoin f rpc target =
     (case rpc_listunspent rpc of
        None \<Rightarrow> Inl ListUnspentErr
      | Some raw \<Rightarrow>
          (let cands = sort_key bu_atoms (spendable_coins f raw) in
           case find (\<lambda>u. target \<le> bu_atoms u) cands of
             Some u \<Rightarrow> Inr ([u], bu_atoms u)
           | None \<Rightarrow>
               (case accumulate target cands [] 0 of
                  None \<Rightarrow> Inl InsufficientFunds | Some ps \<Rightarrow> Inr ps)))"

definition fund_input :: "elements_lib \<Rightarrow> btcUTXO \<Rightarrow> (settler_error, tx_in) result" where
  "fund_input lib u =
     (case el_TxIDToBytes lib (bu_txid u) of
        None \<Rightarrow> Inl UtxoTxidErr | Some h \<Rightarrow> Inr \<lparr>ti_Hash = h, ti_Index = bu_vout u, ti_Witness = []\<rparr>)"

fun fund_inputs :: "elements_lib \<Rightarrow> btcUTXO list \<Rightarrow> (settler_error, tx_in list) result" where
  "fund_inputs lib [] = Inr []"
| "fund_inputs lib (u # us) = rbind (fund_input lib u) (\<lambda>i. rbind (fund_inputs lib us) (\<lambda>is. Inr (i # is)))"

text \<open>Change and fee of a funded transaction: dust change is folded into the fee.\<close>

definition change_fee :: "node_funder \<Rightarrow> u64 \<Rightarrow> u64 \<Rightarrow> u64 \<times> u64" where
  "change_fee f tally gapTotal =
     (let change = tally - gapTotal - nf_feeAtoms f; fee = nf_feeAtoms f in
      if 0 < change \<and> change < dustFold then (0, fee + change) else (change, fee))"

definition fund_outputs ::
  "elements_lib \<Rightarrow> node_funder \<Rightarrow> node_rpc \<Rightarrow> u64 \<Rightarrow> u64 \<Rightarrow> (settler_error, tx_out list) result" where
  "fund_outputs lib f rpc change fee =
     rbind (if 0 < change then
              (case freshUnconfSPK rpc (rpc_changeaddress rpc) of
                 None \<Rightarrow> Inl ChangeSpkErr
               | Some spk \<Rightarrow>
                   rbind (value_bytes lib change) (\<lambda>cv.
                   Inr [\<lparr>to_Asset = nf_btcCommit f, to_Value = cv, to_Script = spk\<rparr>]))
            else Inr []) (\<lambda>ch.
     rbind (value_bytes lib fee) (\<lambda>fv.
     Inr (ch @ [\<lparr>to_Asset = nf_btcCommit f, to_Value = fv, to_Script = []\<rparr>])))"

definition NodeFunder_FundAndSign ::
  "elements_lib \<Rightarrow> node_funder \<Rightarrow> node_rpc \<Rightarrow> string \<Rightarrow> u64 \<Rightarrow> (settler_error, string) result" where
  "NodeFunder_FundAndSign lib f rpc skeletonHex gapTotal =
     (case el_NewTxFromHex lib skeletonHex of
        None \<Rightarrow> Inl ParseSkeletonErr
      | Some t \<Rightarrow>
          rbind (selectBitcoin f rpc (gapTotal + nf_feeAtoms f)) (\<lambda>(utxos, tally).
          rbind (fund_inputs lib utxos) (\<lambda>ins.
          (let (change, fee) = change_fee f tally gapTotal in
           rbind (fund_outputs lib f rpc change fee) (\<lambda>outs.
           rbind (serialize lib (t\<lparr>tx_Inputs := tx_Inputs t @ ins, tx_Outputs := tx_Outputs t @ outs\<rparr>)) (\<lambda>rawHex.
           case rpc_signraw rpc rawHex of
             None \<Rightarrow> Inl SignErr
           | Some h \<Rightarrow> if h = '''' then Inl SignErr else Inr h))))))"

definition NodeFunder_fee_funder :: "elements_lib \<Rightarrow> node_funder \<Rightarrow> node_rpc \<Rightarrow> fee_funder" where
  "NodeFunder_fee_funder lib f rpc =
     \<lparr>ff_GapSPK = freshUnconfSPK rpc (rpc_gapaddress rpc), ff_FundAndSign = NodeFunder_FundAndSign lib f rpc\<rparr>"

text \<open>\<open>accept\<close> is the node's \<open>testmempoolaccept\<close> verdict (\<open>None\<close> an RPC error or an empty reply).\<close>

definition ChainBroadcaster_Broadcast :: "(string \<Rightarrow> bool option) \<Rightarrow> (string \<Rightarrow> string option) \<Rightarrow> string \<Rightarrow> string option" where
  "ChainBroadcaster_Broadcast accept send raw =
     (case accept raw of Some True \<Rightarrow> send raw | _ \<Rightarrow> None)"

definition resolveOne :: "crypto \<Rightarrow> covenant_terms \<Rightarrow> chain_view \<Rightarrow> (settler_error, u64) result" where
  "resolveOne cr t view =
     (case settler_orderFromTerms t of
        Inl e \<Rightarrow> Inl (TermsErr e)
      | Inr (ord, u) \<Rightarrow>
          (case Derive cr ord of
             Inl e \<Rightarrow> Inl (DeriveErr e)
           | Inr tap \<Rightarrow>
               (let spkHex = hex_EncodeToString (tt_ScriptPubKey tap);
                    assetADisplay = hex_EncodeToString (rev (AssetA ord))
                in case cv_Inspect view (u_Txid u) (u_Vout u) spkHex assetADisplay of
                     None \<Rightarrow> Inl InspectErr
                   | Some st \<Rightarrow>
                       if \<not> cs_Unspent st then Inl NotUnspent
                       else
                         (case hex_DecodeString (cs_SPKHex st) of
                            None \<Rightarrow> Inl BadSpkHex
                          | Some onchainSPK \<Rightarrow>
                              (case VerifyAgainstSPK cr ord onchainSPK False of
                                 Inl e \<Rightarrow> Inl (VerifyErr e)
                               | Inr _ \<Rightarrow>
                                   if \<not> strings_EqualFold (cs_AssetDisplay st) assetADisplay then Inl WrongAsset
                                   else Inr (cs_Value st))))))"

definition past_expiry :: "chain_view \<Rightarrow> covenant_terms \<Rightarrow> bool" where
  "past_expiry view t =
     (case cv_Tip view of
        None \<Rightarrow> False
      | Some (_, tip) \<Rightarrow> ct_ExpiryLocktime t \<noteq> 0 \<and> uint (ct_ExpiryLocktime t) \<le> tip)"

definition Resolve :: "crypto \<Rightarrow> match \<Rightarrow> chain_view \<Rightarrow> (settler_error, u64 \<times> u64) result" where
  "Resolve cr m view =
     (case (mt_RestingCovenant m, mt_IncomingCovenant m) of
        (Some ta, Some tb) \<Rightarrow>
          if past_expiry view ta \<or> past_expiry view tb then Inl PastExpiry
          else rbind (resolveOne cr ta view) (\<lambda>lockedA. rbind (resolveOne cr tb view) (\<lambda>lockedB. Inr (lockedA, lockedB)))
      | _ \<Rightarrow> Inl NotBothCovenant)"

section \<open>Choice of the fills (run.go)\<close>

lemma u64_dec: "0 < (f :: u64) \<Longrightarrow> unat (f - 1) < unat f"
  using unat_minus_one [of f] unat_u64_pos [of f] by (auto simp: word_gt_0)

lemma u64_le_dec: "x \<noteq> 0 \<Longrightarrow> a \<le> x - 1 \<Longrightarrow> a \<le> (x :: u64)"
  using u64_dec [of x] by (simp add: u64_le word_gt_0)

lemma u64_unat_mult: "unat (x :: u64) * unat y < 18446744073709551616 \<Longrightarrow> unat (x * y) = unat x * unat y"
  by (simp add: unat_word_ariths)

function back_off :: "u64 \<Rightarrow> u64 \<Rightarrow> u64 \<Rightarrow> u64 \<Rightarrow> u64" where
  "back_off budget num den f =
     (if 0 < f \<and> budget < CeilPrice f num den then back_off budget num den (f - 1) else f)"
  by pat_completeness auto
termination
  by (relation "measure (\<lambda>(budget, num, den, f). unat f)") (simp_all add: u64_dec)

declare back_off.simps [simp del]

definition largestFillCoveredBy :: "u64 \<Rightarrow> u64 \<Rightarrow> u64 \<Rightarrow> u64 \<Rightarrow> u64" where
  "largestFillCoveredBy budget num den cur =
     (if num = 0 then cur
      else (let f = back_off budget num den ((budget * den) div num) in if cur < f then cur else f))"

definition valid_cross :: "covenant_terms \<Rightarrow> covenant_terms \<Rightarrow> u64 \<Rightarrow> u64 \<Rightarrow> u64 \<Rightarrow> u64 \<Rightarrow> bool" where
  "valid_cross ta tb lockedA lockedB fa fb \<longleftrightarrow>
     \<not> (fa = 0 \<or> fb = 0 \<or> lockedA < fa \<or> lockedB < fb \<or> fa < ct_MinLot ta \<or> fb < ct_MinLot tb) \<and>
     \<not> (fb < CeilPrice fa (ct_RateNum ta) (ct_RateDen ta) \<or> fa < CeilPrice fb (ct_RateNum tb) (ct_RateDen tb)) \<and>
     \<not> (lockedA - fa \<noteq> 0 \<and> lockedA - fa < ct_MinLot ta) \<and>
     \<not> (lockedB - fb \<noteq> 0 \<and> lockedB - fb < ct_MinLot tb)"

text \<open>One descending search: \<open>pays x\<close> are the counter-fills tried for the fill \<open>x\<close>.\<close>

fun scan :: "nat \<Rightarrow> (u64 \<Rightarrow> u64 list) \<Rightarrow> (u64 \<Rightarrow> u64 \<Rightarrow> bool) \<Rightarrow> u64 \<Rightarrow> (u64 \<times> u64) option" where
  "scan 0 pays ok x = None"
| "scan (Suc n) pays ok x =
     (if x = 0 then None
      else (case find (ok x) (pays x) of Some y \<Rightarrow> Some (x, y) | None \<Rightarrow> scan n pays ok (x - 1)))"

definition start_of :: "u64 \<Rightarrow> u64 \<Rightarrow> covenant_terms \<Rightarrow> u64" where
  "start_of locked budget t =
     (let c = largestFillCoveredBy budget (ct_RateNum t) (ct_RateDen t) locked in if c < locked then c else locked)"

definition computeFills :: "match \<Rightarrow> u64 \<Rightarrow> u64 \<Rightarrow> (settler_error, u64 \<times> u64) result" where
  "computeFills m lockedA lockedB =
     (case (mt_RestingCovenant m, mt_IncomingCovenant m) of
        (Some ta, Some tb) \<Rightarrow>
          if ct_RateDen ta = 0 \<or> ct_RateDen tb = 0 then Inl ZeroRateDen
          else
            (case scan 256 (\<lambda>fa. [CeilPrice fa (ct_RateNum ta) (ct_RateDen ta), lockedB])
                    (valid_cross ta tb lockedA lockedB) (start_of lockedA lockedB ta) of
               Some (fa, fb) \<Rightarrow> Inr (fa, fb)
             | None \<Rightarrow>
                 (case scan 256 (\<lambda>fb. [CeilPrice fb (ct_RateNum tb) (ct_RateDen tb), lockedA])
                         (\<lambda>fb fa. valid_cross ta tb lockedA lockedB fa fb) (start_of lockedB lockedA tb) of
                    Some (fb, fa) \<Rightarrow> Inr (fa, fb)
                  | None \<Rightarrow> Inl NoValidCross))
      | _ \<Rightarrow> Inl ZeroRateDen)"

section \<open>Fills\<close>

lemma scan_Some:
  assumes "scan n pays ok x = Some (a, b)"
  shows "ok a b" "b \<in> set (pays a)" "a \<noteq> 0" "a \<le> x"
  using assms
proof (induction n arbitrary: x)
  case (Suc n)
  {
    case 1 with Suc show ?case by (auto split: if_splits option.splits simp: find_Some_iff)
  next
    case 2 with Suc show ?case by (auto split: if_splits option.splits simp: find_Some_iff)
  next
    case 3 with Suc show ?case by (auto split: if_splits option.splits)
  next
    case 4 with Suc(4) [of "x - 1"] show ?case by (auto split: if_splits option.splits intro: u64_le_dec)
  }
qed simp_all

lemma computeFills_valid:
  assumes "computeFills m lA lB = Inr (fA, fB)" "mt_RestingCovenant m = Some ta" "mt_IncomingCovenant m = Some tb"
  shows "valid_cross ta tb lA lB fA fB"
  using assms by (auto simp: computeFills_def split: if_splits option.splits dest: scan_Some(1))

lemma CeilPrice_covered:
  assumes "den \<noteq> 0" "unat f * unat num \<le> unat budget * unat den"
  shows "CeilPrice f num den \<le> budget"
proof -
  have "ceil_div (unat f * unat num) (unat den) \<le> unat budget"
    using assms by (intro ceil_div_least) (simp_all add: unat_u64_pos)
  moreover have "unat budget < 2 ^ 64" using unat_u64_less [of budget] by simp
  ultimately show ?thesis using assms(1) by (simp add: CeilPrice_exact u64_le)
qed

lemma CeilPrice_uncovered:
  assumes "den \<noteq> 0" "unat budget * unat den < unat f * unat num" "unat budget < 2 ^ 64 - 1"
  shows "budget < CeilPrice f num den"
proof -
  have "unat f * unat num \<le> ceil_div (unat f * unat num) (unat den) * unat den"
    using assms(1) by (intro ceil_div_ge) (simp add: unat_u64_pos)
  with assms(2) have "unat budget < ceil_div (unat f * unat num) (unat den)"
    by (meson le_less_trans linorder_not_le mult_le_mono1)
  with assms(1,3) show ?thesis by (simp add: CeilPrice_exact u64_less)
qed

lemma largestFillCoveredBy_unwrapped:
  assumes "num \<noteq> 0" "den \<noteq> 0" "unat budget * unat den < 2 ^ 64"
  shows "unat (largestFillCoveredBy budget num den cur) = min (unat cur) (unat budget * unat den div unat num)"
proof -
  let ?f = "budget * den div num"
  have f: "unat ?f = unat budget * unat den div unat num"
    using u64_unat_mult [of budget den] assms(3) by (simp add: unat_div)
  then have "CeilPrice ?f num den \<le> budget"
    using assms(2) by (intro CeilPrice_covered) (simp_all add: div_times_less_eq_dividend)
  then have "back_off budget num den ?f = ?f" by (subst back_off.simps) (auto dest: leD)
  then show ?thesis using assms(1) f by (auto simp: largestFillCoveredBy_def Let_def u64_less min_def)
qed

lemma Derive_maker: "Derive cr ord = Inr tt \<Longrightarrow> MakerVer ord = 1 \<and> length (MakerProg ord) = 32"
  by (auto simp: Derive_def Let_def BuildFillLeaf_def split: if_splits)

lemma valid_cross_plan:
  assumes "settler_orderFromTerms ta = Inr (oA, u)" "settler_orderFromTerms tb = Inr (oB, v)"
    "AssetA oA = AssetB oB" "AssetB oA = AssetA oB" "Derive cr oA = Inr tA" "Derive cr oB = Inr tB"
    "CheckArithmetic oA lA = Inr ()" "CheckArithmetic oB lB = Inr ()" "valid_cross ta tb lA lB fA fB"
  shows "\<exists>js. PlanJointSettlement cr oA lA fA oB lB fB = Inr js"
proof -
  have terms: "MinLot oA = ct_MinLot ta" "RateNum oA = ct_RateNum ta" "RateDen oA = ct_RateDen ta"
      "MinLot oB = ct_MinLot tb" "RateNum oB = ct_RateNum tb" "RateDen oB = ct_RateDen tb"
    using assms(1,2) by (auto simp: settler_orderFromTerms_def)
  obtain pA where pA: "PlanFill cr oA lA fA 0 = Inr pA" "fp_RequiredB pA = CeilPrice fA (RateNum oA) (RateDen oA)"
    using assms(5,7,9) by (force simp: PlanFill_Inr valid_cross_def terms not_less)
  obtain pB where pB: "PlanFill cr oB lB fB 1 = Inr pB" "fp_RequiredB pB = CeilPrice fB (RateNum oB) (RateDen oB)"
    using assms(6,8,9) by (force simp: PlanFill_Inr valid_cross_def terms not_less)
  show ?thesis
    using assms(3,4,9) pA pB Derive_maker [OF assms(5)] Derive_maker [OF assms(6)]
    unfolding PlanJointSettlement_Inr by (auto simp: valid_cross_def terms not_less)
qed

section \<open>What the FILL leaf accepts\<close>

text \<open>
  The covenant's own check of a transaction, as \<open>leaf.go\<close> documents it: the input at index \<open>k\<close> holds
  \<open>locked\<close> atoms under the script \<open>spk\<close>; output \<open>2k + 1\<close> is a remainder when it carries the sold
  asset; output \<open>2k\<close> credits the maker. Explicit assets and values carry the prefix 1, values are
  big-endian.
\<close>

definition explicit_out :: "bytes \<Rightarrow> u64 \<Rightarrow> bytes \<Rightarrow> tx_out" where
  "explicit_out asset v spk = \<lparr>to_Asset = 1 # asset, to_Value = 1 # rev (le8 v), to_Script = spk\<rparr>"

definition leaf_remainder :: "order \<Rightarrow> bytes \<Rightarrow> nat \<Rightarrow> tx_out list \<Rightarrow> u64 \<Rightarrow> bool" where
  "leaf_remainder ord spk k outs r \<longleftrightarrow>
     (if 2 * k + 1 < length outs then
        (if to_Asset (outs ! (2 * k + 1)) = 1 # AssetA ord
         then outs ! (2 * k + 1) = explicit_out (AssetA ord) r spk \<and> MinLot ord \<le> r
         else take 1 (to_Asset (outs ! (2 * k + 1))) = [1] \<and> r = 0)
      else r = 0)"

definition fill_leaf_accepts :: "order \<Rightarrow> bytes \<Rightarrow> u64 \<Rightarrow> nat \<Rightarrow> tx_out list \<Rightarrow> bool" where
  "fill_leaf_accepts ord spk locked k outs \<longleftrightarrow>
     (\<exists>r credit.
        leaf_remainder ord spk k outs r \<and> r \<le> locked \<and> MinLot ord \<le> locked - r \<and>
        unat (locked - r) * unat (RateNum ord) + (unat (RateDen ord) - 1) < 2 ^ 63 \<and>
        2 * k < length outs \<and> outs ! (2 * k) = explicit_out (AssetB ord) credit ([op1, 0x20] @ MakerProg ord) \<and>
        ceil_div (unat (locked - r) * unat (RateNum ord)) (unat (RateDen ord)) \<le> unat credit)"

text \<open>The library's documented encoding of values and its serialisation round trip.\<close>

definition value_law :: "elements_lib \<Rightarrow> bool" where
  "value_law lib \<longleftrightarrow> (\<forall>v. el_ValueToBytes lib v = Some (1 # rev (le8 v)))"

definition codec_law :: "elements_lib \<Rightarrow> bool" where
  "codec_law lib \<longleftrightarrow> (\<forall>t h. el_ToHex lib t = Some h \<longrightarrow> el_NewTxFromHex lib h = Some t)"

lemma place_leg_Inr:
  assumes "place_leg lib a gap leg (outs, g) = Inr (outs', g')" "value_law lib"
  shows "\<exists>slot.
    outs' = outs[unat (leg_CreditIndex leg) := Some (explicit_out (leg_CreditAsset leg) (leg_CreditValue leg) (leg_CreditSPK leg)),
                 unat (leg_RemainderIndex leg) := Some slot] \<and>
    (if leg_Partial leg then slot = explicit_out (leg_RemainderAsset leg) (leg_Remainder leg) (leg_OrderSPK leg) \<and> g' = g
     else na_Bitcoin a \<noteq> leg_RemainderAsset leg \<and> to_Asset slot = 1 # na_Bitcoin a \<and> g' = g + na_GapValue a)"
  using assms
  by (auto simp: place_leg_def Let_def value_bytes_def value_law_def explicit_out_def assetCommit_def GapAsset_def
      split: if_splits option.splits sum.splits)

lemma fill_leaf_accepts_planned:
  assumes "PlanFill cr ord locked filled k = Inr p" "unat k \<le> 1" "fp_RequiredB p \<le> credit"
    "2 * unat k + 1 < length outs"
    "outs ! (2 * unat k) = explicit_out (AssetB ord) credit ([op1, 0x20] @ MakerProg ord)"
    "if fp_Partial p then outs ! (2 * unat k + 1) = explicit_out (AssetA ord) (fp_Remainder p) (fp_OrderSPK p)
     else btc \<noteq> AssetA ord \<and> to_Asset (outs ! (2 * unat k + 1)) = 1 # btc"
  shows "fill_leaf_accepts ord (fp_OrderSPK p) locked (unat k) outs"
proof -
  from assms(1) have p: "filled \<le> locked" "MinLot ord \<le> filled" "locked - filled = 0 \<or> MinLot ord \<le> locked - filled"
      "CheckArithmetic ord locked = Inr ()" "fp_Remainder p = locked - filled" "fp_Partial p \<longleftrightarrow> locked - filled \<noteq> 0"
    by (auto simp: PlanFill_Inr)
  let ?r = "locked - filled"
  have filled: "locked - ?r = filled" "?r \<le> locked"
    using p(1) by (simp_all add: u64_le u64_unat_diff)
  have "leaf_remainder ord (fp_OrderSPK p) (unat k) outs ?r"
    using assms(4,6) p(3,5,6) by (auto simp: leaf_remainder_def explicit_out_def split: if_splits)
  moreover have "ceil_div (unat filled * unat (RateNum ord)) (unat (RateDen ord)) \<le> unat credit"
    using PlanFill_floor [OF assms(1)] assms(3) by (simp add: u64_le)
  ultimately show ?thesis
    unfolding fill_leaf_accepts_def
    using filled p(2) CheckArithmetic_leaf_price(2) [OF p(4,1)] assms(4,5) by (intro exI [of _ ?r] exI [of _ credit]) simp
qed

lemma list4: "length xs = 4 \<Longrightarrow> xs = [xs ! 0, xs ! 1, xs ! 2, xs ! 3]"
  by (auto simp: numeral_eq_Suc length_Suc_conv)

lemma buildCovenantOutputs_accepted:
  assumes "PlanJointSettlement cr oA lA fA oB lB fB = Inr js" "value_law lib"
    "buildCovenantOutputs lib a js gap = Inr (outs, g)"
  shows "length outs = 4"
    "fill_leaf_accepts oA (leg_OrderSPK (Leg0 js)) lA 0 (outs @ rest)"
    "fill_leaf_accepts oB (leg_OrderSPK (Leg1 js)) lB 1 (outs @ rest)"
    "unat g \<le> 2 * unat (na_GapValue a)"
proof -
  from assms(1) obtain pA pB where plans: "PlanFill cr oA lA fA 0 = Inr pA" "PlanFill cr oB lB fB 1 = Inr pB"
      "fp_RequiredB pA \<le> fB" "fp_RequiredB pB \<le> fA"
    and js: "Leg0 js = mk_leg oA pA ([op1, 0x20] @ MakerProg oA) fB" "Leg1 js = mk_leg oB pB ([op1, 0x20] @ MakerProg oB) fA"
      "MinOutputs js = 4"
    by (auto simp: PlanJointSettlement_Inr)
  note idx = PlanFill_fields(2,3) [OF plans(1)] PlanFill_fields(2,3) [OF plans(2)]
  from assms(3) obtain outs1 g1 outs2 where
    legs: "place_leg lib a gap (Leg0 js) (replicate 4 None, 0) = Inr (outs1, g1)"
      "place_leg lib a gap (Leg1 js) (outs1, g1) = Inr (outs2, g)" and outs: "outs = map the outs2"
    by (auto simp: buildCovenantOutputs_def Let_def js(3) split: if_splits)
  from place_leg_Inr [OF legs(1) assms(2)] obtain s0 where
    o1: "outs1 = [Some (explicit_out (AssetB oA) fB ([op1, 0x20] @ MakerProg oA)), Some s0, None, None]"
    and s0: "if fp_Partial pA then s0 = explicit_out (AssetA oA) (fp_Remainder pA) (fp_OrderSPK pA) \<and> g1 = 0
       else na_Bitcoin a \<noteq> AssetA oA \<and> to_Asset s0 = 1 # na_Bitcoin a \<and> g1 = na_GapValue a"
    by (auto simp: js mk_leg_def idx numeral_eq_Suc cong: if_cong)
  from place_leg_Inr [OF legs(2) assms(2)] obtain s1 where
    o2: "outs2 = outs1[2 := Some (explicit_out (AssetB oB) fA ([op1, 0x20] @ MakerProg oB)), 3 := Some s1]"
    and s1: "if fp_Partial pB then s1 = explicit_out (AssetA oB) (fp_Remainder pB) (fp_OrderSPK pB) \<and> g = g1
       else na_Bitcoin a \<noteq> AssetA oB \<and> to_Asset s1 = 1 # na_Bitcoin a \<and> g = g1 + na_GapValue a"
    by (auto simp: js mk_leg_def idx cong: if_cong)
  have o4: "outs = [explicit_out (AssetB oA) fB ([op1, 0x20] @ MakerProg oA), s0,
      explicit_out (AssetB oB) fA ([op1, 0x20] @ MakerProg oB), s1]"
    unfolding outs o2 o1 by (simp add: numeral_eq_Suc)
  show "length outs = 4" by (simp add: o4)
  show "fill_leaf_accepts oA (leg_OrderSPK (Leg0 js)) lA 0 (outs @ rest)"
    using fill_leaf_accepts_planned [OF plans(1) _ plans(3), of "outs @ rest" "na_Bitcoin a"] s0 js(1)
    by (simp add: o4 mk_leg_def)
  show "fill_leaf_accepts oB (leg_OrderSPK (Leg1 js)) lB 1 (outs @ rest)"
    using fill_leaf_accepts_planned [OF plans(2) _ plans(4), of "outs @ rest" "na_Bitcoin a"] s1 js(2)
    by (simp add: o4 mk_leg_def numeral_eq_Suc)
  have "unat g1 \<le> unat (na_GapValue a)" "unat g \<le> unat g1 + unat (na_GapValue a)"
    using s0 s1 unat_add_lem [of g1 "na_GapValue a"] by (auto simp: unat_word_ariths split: if_splits)
  then show "unat g \<le> 2 * unat (na_GapValue a)" by linarith
qed

section \<open>Funding\<close>

text \<open>A funder only appends: the outputs and outpoints it was given stay where they were.\<close>

definition outpoint :: "tx_in \<Rightarrow> bytes \<times> u32" where
  "outpoint i = (ti_Hash i, ti_Index i)"

definition extends :: "tx \<Rightarrow> tx \<Rightarrow> bool" where
  "extends t t' \<longleftrightarrow>
     take (length (tx_Outputs t)) (tx_Outputs t') = tx_Outputs t \<and>
     take (length (tx_Inputs t)) (map outpoint (tx_Inputs t')) = map outpoint (tx_Inputs t)"

lemma extends_trans:
  assumes "extends t t'" "tx_Outputs t'' = tx_Outputs t'" "map outpoint (tx_Inputs t'') = map outpoint (tx_Inputs t')"
  shows "extends t t''"
  using assms by (simp add: extends_def)

locale fee_funding =
  fixes fund :: "'w \<Rightarrow> string \<Rightarrow> u64 \<Rightarrow> (settler_error, string) result"
    and lib_of :: "'w \<Rightarrow> elements_lib"
    and lawful :: "'w \<Rightarrow> bool"
  assumes appends: "lawful w \<Longrightarrow> el_NewTxFromHex (lib_of w) h = Some t \<Longrightarrow> fund w h g = Inr h' \<Longrightarrow>
      \<exists>t'. el_NewTxFromHex (lib_of w) h' = Some t' \<and> extends t t'"
begin

lemma assembled_accepted:
  assumes "lawful w" "value_law (lib_of w)" "codec_law (lib_of w)"
    "na_Funder a = Some \<lparr>ff_GapSPK = gap, ff_FundAndSign = fund w\<rparr>"
    "PlanJointSettlement cr oA lA fA oB lB fB = Inr js"
    "jp_JointSettlement s = Some js" "Assemble (lib_of w) a s = Inr raw"
  shows "\<exists>t. el_NewTxFromHex (lib_of w) raw = Some t \<and>
    fill_leaf_accepts oA (leg_OrderSPK (Leg0 js)) lA 0 (tx_Outputs t) \<and>
    fill_leaf_accepts oB (leg_OrderSPK (Leg1 js)) lB 1 (tx_Outputs t) \<and>
    ti_Witness (tx_Inputs t ! 0) = leg_Witness (Leg0 js) \<and> ti_Witness (tx_Inputs t ! 1) = leg_Witness (Leg1 js) \<and>
    el_TxIDToBytes (lib_of w) (u_Txid (jp_In0 s)) = Some (ti_Hash (tx_Inputs t ! 0)) \<and>
    ti_Index (tx_Inputs t ! 0) = u_Vout (jp_In0 s) \<and>
    el_TxIDToBytes (lib_of w) (u_Txid (jp_In1 s)) = Some (ti_Hash (tx_Inputs t ! 1)) \<and>
    ti_Index (tx_Inputs t ! 1) = u_Vout (jp_In1 s)"
proof -
  from assms(4,6,7) obtain gapSPK outs g t0 h h' ftx t where
    build: "buildCovenantOutputs (lib_of w) a js gapSPK = Inr (outs, g)"
    and skel: "skeleton (lib_of w) s outs = Inr t0" and ser: "el_ToHex (lib_of w) t0 = Some h"
    and fund: "fund w h g = Inr h'" and parse: "el_NewTxFromHex (lib_of w) h' = Some ftx"
    and inj: "inject_witnesses js ftx = Inr t" and raw: "el_ToHex (lib_of w) t = Some raw"
    by (auto simp: Assemble_def serialize_def split: if_splits option.splits sum.splits)
  from assms(3) ser raw have rt: "el_NewTxFromHex (lib_of w) h = Some t0" "el_NewTxFromHex (lib_of w) raw = Some t"
    by (auto simp: codec_law_def)
  from skel obtain i0 i1 where t0: "t0 = \<lparr>tx_Version = 2, tx_Inputs = [i0, i1], tx_Outputs = outs\<rparr>"
    and ins: "el_TxIDToBytes (lib_of w) (u_Txid (jp_In0 s)) = Some (ti_Hash i0)" "ti_Index i0 = u_Vout (jp_In0 s)"
      "el_TxIDToBytes (lib_of w) (u_Txid (jp_In1 s)) = Some (ti_Hash i1)" "ti_Index i1 = u_Vout (jp_In1 s)"
    by (auto simp: skeleton_def dest!: covInput_Inr)
  from appends [OF assms(1) rt(1) fund] parse have "extends t0 ftx" by auto
  then obtain f0 f1 fs rest where f: "tx_Inputs ftx = f0 # f1 # fs" "outpoint f0 = outpoint i0" "outpoint f1 = outpoint i1"
      "tx_Outputs ftx = outs @ rest"
    using inj unfolding t0 extends_def
    by (auto simp: inject_witnesses_def split: list.splits) (metis append_take_drop_id)
  then have t: "tx_Outputs t = outs @ rest"
      "tx_Inputs t = f0\<lparr>ti_Witness := leg_Witness (Leg0 js)\<rparr> # f1\<lparr>ti_Witness := leg_Witness (Leg1 js)\<rparr> # fs"
    using inj by (auto simp: inject_witnesses_def)
  show ?thesis
    using buildCovenantOutputs_accepted(2,3) [OF assms(5,2) build, of rest] rt(2) t f(2,3) ins
    by (intro exI [of _ t]) (simp add: outpoint_def)
qed

end

text \<open>Signing fills in witnesses and nothing else.\<close>

definition sign_law :: "elements_lib \<Rightarrow> node_rpc \<Rightarrow> bool" where
  "sign_law lib rpc \<longleftrightarrow>
     (\<forall>h h' t. rpc_signraw rpc h = Some h' \<longrightarrow> h' \<noteq> '''' \<longrightarrow> el_NewTxFromHex lib h = Some t \<longrightarrow>
        (\<exists>t'. el_NewTxFromHex lib h' = Some t' \<and> tx_Outputs t' = tx_Outputs t \<and>
           map outpoint (tx_Inputs t') = map outpoint (tx_Inputs t)))"

lemma NodeFunder_appends:
  assumes "codec_law lib" "sign_law lib rpc" "el_NewTxFromHex lib h = Some t" "NodeFunder_FundAndSign lib f rpc h g = Inr h'"
  shows "\<exists>t'. el_NewTxFromHex lib h' = Some t' \<and> extends t t'"
proof -
  from assms(3,4) obtain ins outs raw where
    ser: "el_ToHex lib (t\<lparr>tx_Inputs := tx_Inputs t @ ins, tx_Outputs := tx_Outputs t @ outs\<rparr>) = Some raw"
    and sign: "rpc_signraw rpc raw = Some h'" "h' \<noteq> ''''"
    by (auto simp: NodeFunder_FundAndSign_def serialize_def Let_def split: if_splits option.splits prod.splits)
  from assms(1) ser have "el_NewTxFromHex lib raw = Some (t\<lparr>tx_Inputs := tx_Inputs t @ ins, tx_Outputs := tx_Outputs t @ outs\<rparr>)"
    by (simp add: codec_law_def)
  with assms(2) sign obtain t' where "el_NewTxFromHex lib h' = Some t'" "tx_Outputs t' = tx_Outputs t @ outs"
      "map outpoint (tx_Inputs t') = map outpoint (tx_Inputs t @ ins)"
    by (fastforce simp: sign_law_def)
  then show ?thesis by (auto simp: extends_def)
qed

interpretation node_funding: fee_funding
  "\<lambda>(lib, f, rpc). NodeFunder_FundAndSign lib f rpc" fst "\<lambda>(lib, f, rpc). codec_law lib \<and> sign_law lib rpc"
  by unfold_locales (auto intro: NodeFunder_appends)

text \<open>Coin selection.\<close>

definition atoms_of :: "btcUTXO list \<Rightarrow> nat" where
  "atoms_of us = sum_list (map (\<lambda>u. unat (bu_atoms u)) us)"

lemma atoms_of_simps [simp]:
  "atoms_of [] = 0" "atoms_of (u # us) = unat (bu_atoms u) + atoms_of us" "atoms_of (us @ vs) = atoms_of us + atoms_of vs"
  by (simp_all add: atoms_of_def)

lemma atoms_of_mset: "mset us = mset vs \<Longrightarrow> atoms_of us = atoms_of vs"
  by (metis atoms_of_def mset_map sum_mset_sum_list)

lemma accumulate_Some:
  assumes "accumulate target us picked n = Some (ps, s)" "unat n = atoms_of picked" "atoms_of picked + atoms_of us < 2 ^ 64"
  shows "\<exists>vs ws. us = vs @ ws \<and> ps = picked @ vs \<and> unat s = atoms_of ps \<and> target \<le> s"
  using assms
proof (induction us arbitrary: picked n)
  case (Cons u us)
  have n: "unat (n + bu_atoms u) = atoms_of (picked @ [u])"
    using Cons.prems(2,3) by (subst u64_unat_add) simp_all
  show ?case
  proof (cases "target \<le> n + bu_atoms u")
    case True
    with Cons.prems(1) n show ?thesis by (intro exI [of _ "[u]"] exI [of _ us]) (auto simp: Let_def)
  next
    case False
    with Cons.prems(1) have "accumulate target us (picked @ [u]) (n + bu_atoms u) = Some (ps, s)" by (simp add: Let_def)
    from Cons.IH [OF this n] Cons.prems(3) obtain vs ws where
      "us = vs @ ws" "ps = (picked @ [u]) @ vs" "unat s = atoms_of ps" "target \<le> s" by auto
    then show ?thesis by (intro exI [of _ "u # vs"] exI [of _ ws]) simp
  qed
qed simp

lemma accumulate_None:
  assumes "accumulate target us picked n = None" "unat n = atoms_of picked" "atoms_of picked + atoms_of us < 2 ^ 64"
    "us \<noteq> []"
  shows "atoms_of picked + atoms_of us < unat target"
  using assms
proof (induction us arbitrary: picked n)
  case (Cons u us)
  have n: "unat (n + bu_atoms u) = atoms_of (picked @ [u])"
    using Cons.prems(2,3) by (subst u64_unat_add) simp_all
  from Cons.prems(1) have "\<not> target \<le> n + bu_atoms u" and acc: "accumulate target us (picked @ [u]) (n + bu_atoms u) = None"
    by (auto simp: Let_def split: if_splits)
  then have lt: "atoms_of (picked @ [u]) < unat target" using n by (simp add: u64_le)
  show ?case
  proof (cases us)
    case Nil
    with lt show ?thesis by simp
  next
    case (Cons v vs)
    with Cons.IH [OF acc n] Cons.prems(3) show ?thesis by simp
  qed
qed simp

lemma mset_pick: "find P us = Some u \<Longrightarrow> {#u#} \<subseteq># mset us"
  by (auto simp: find_Some_iff)

lemma selectBitcoin_ok:
  assumes "rpc_listunspent rpc = Some raw" "atoms_of (spendable_coins f raw) < 2 ^ 64"
    "selectBitcoin f rpc target = Inr (us, s)"
  shows "mset us \<subseteq># mset (spendable_coins f raw) \<and> unat s = atoms_of us \<and> target \<le> s"
proof -
  let ?cands = "sort_key bu_atoms (spendable_coins f raw)"
  have total: "atoms_of ?cands = atoms_of (spendable_coins f raw)" by (rule atoms_of_mset) simp
  show ?thesis
  proof (cases "find (\<lambda>u. target \<le> bu_atoms u) ?cands")
    case (Some u)
    with assms(1,3) have "us = [u]" "s = bu_atoms u" by (auto simp: selectBitcoin_def Let_def)
    moreover from Some have "target \<le> bu_atoms u" by (auto simp: find_Some_iff)
    moreover from mset_pick [OF Some] have "{#u#} \<subseteq># mset (spendable_coins f raw)" by simp
    ultimately show ?thesis by simp
  next
    case None
    with assms(1,3) have "accumulate target ?cands [] 0 = Some (us, s)"
      by (auto simp: selectBitcoin_def Let_def split: option.splits)
    from accumulate_Some [OF this] assms(2) total obtain vs ws where
      "?cands = vs @ ws" "us = vs" "unat s = atoms_of us" "target \<le> s" by auto
    moreover from this have "mset us \<subseteq># mset (spendable_coins f raw)"
      by (metis mset_append mset_sort mset_subset_eq_add_left)
    ultimately show ?thesis by simp
  qed
qed

lemma selectBitcoin_enough:
  assumes "rpc_listunspent rpc = Some raw" "atoms_of (spendable_coins f raw) < 2 ^ 64" "spendable_coins f raw \<noteq> []"
    "unat target \<le> atoms_of (spendable_coins f raw)"
  shows "\<exists>us s. selectBitcoin f rpc target = Inr (us, s)"
proof -
  let ?cands = "sort_key bu_atoms (spendable_coins f raw)"
  have total: "atoms_of ?cands = atoms_of (spendable_coins f raw)" by (rule atoms_of_mset) simp
  have "?cands \<noteq> []" using assms(3) by (metis set_empty set_sort)
  then have "accumulate target ?cands [] 0 \<noteq> None"
    using accumulate_None [of target ?cands "[]" 0] assms(2,4) total by (metis add_0 atoms_of_simps(1) leD unat_0)
  then show ?thesis using assms(1) by (auto simp: selectBitcoin_def Let_def split: option.split)
qed

lemma selectBitcoin_short:
  assumes "rpc_listunspent rpc = Some raw" "atoms_of (spendable_coins f raw) < unat target"
  shows "selectBitcoin f rpc target = Inl InsufficientFunds"
proof (cases "selectBitcoin f rpc target")
  case (Inl e)
  with assms(1) show ?thesis by (auto simp: selectBitcoin_def Let_def split: option.splits)
next
  case (Inr p)
  obtain us s where p: "p = (us, s)" by fastforce
  have small: "atoms_of (spendable_coins f raw) < 2 ^ 64" using assms(2) unat_u64_less [of target] by simp
  from selectBitcoin_ok [OF assms(1) small Inr [unfolded p]] have "mset us \<subseteq># mset (spendable_coins f raw)" "unat target \<le> atoms_of us"
    by (auto simp: u64_le)
  moreover have "atoms_of us \<le> atoms_of (spendable_coins f raw)"
    using calculation(1) unfolding atoms_of_def
    by (metis (no_types, lifting) image_mset_subseteq_mono mset_map subset_mset.le_iff_add sum_mset_sum_list sum_mset.union le_add1)
  ultimately show ?thesis using assms(2) by simp
qed

lemma change_fee_balance:
  assumes "unat g + unat (nf_feeAtoms f) < 2 ^ 64" "g + nf_feeAtoms f \<le> s" "change_fee f s g = (change, fee)"
  shows "unat s = unat g + unat change + unat fee" "nf_feeAtoms f \<le> fee" "change = 0 \<or> dustFold \<le> change"
proof -
  have le: "unat g + unat (nf_feeAtoms f) \<le> unat s"
    using assms(1,2) by (simp add: u64_le u64_unat_add)
  have c: "unat (s - g - nf_feeAtoms f) = unat s - unat g - unat (nf_feeAtoms f)"
    using le by (simp add: u64_unat_diff u64_le)
  have f: "unat (nf_feeAtoms f + (s - g - nf_feeAtoms f)) = unat s - unat g"
    using le c unat_u64_less [of s] by (subst u64_unat_add) simp_all
  show "unat s = unat g + unat change + unat fee" "nf_feeAtoms f \<le> fee"
    using assms(3) le c f by (auto simp: change_fee_def Let_def u64_le split: if_splits)
  show "change = 0 \<or> dustFold \<le> change"
    using assms(3) by (auto simp: change_fee_def Let_def word_gt_0 not_less split: if_splits)
qed

section \<open>Discovery (run.go)\<close>

definition settledTTL :: duration where
  "settledTTL = 30 * Minute"

definition crossesOffers :: "offer \<Rightarrow> offer \<Rightarrow> bool" where
  "crossesOffers x y \<longleftrightarrow>
     unat (WantAmount y) * unat (WantAmount x) \<le> unat (OfferAmount x) * unat (OfferAmount y)"

text \<open>\<open>%d\<close> of \<open>fmt\<close>.\<close>

fun decimal :: "nat \<Rightarrow> string" where
  "decimal n = (if n < 10 then [char_of (48 + n)] else decimal (n div 10) @ [char_of (48 + n mod 10)])"

declare decimal.simps [simp del]

definition outpoint_string :: "covenant_terms \<Rightarrow> string" where
  "outpoint_string t = ct_CovenantTxid t @ '':'' @ decimal (unat (ct_CovenantVout t))"

definition outpointPairKey :: "covenant_terms \<Rightarrow> covenant_terms \<Rightarrow> string" where
  "outpointPairKey a b =
     (let x = outpoint_string a; y = outpoint_string b in
      if bytes_less (string_bytes y) (string_bytes x) then y @ ''|'' @ x else x @ ''|'' @ y)"

record candidate =
  cand_key :: string
  cand_resting :: covenant_terms
  cand_incoming :: covenant_terms

text \<open>The test of the inner loop; \<open>None\<close> when the pair of offers is skipped.\<close>

definition cross_candidate :: "offer \<Rightarrow> offer \<Rightarrow> candidate option" where
  "cross_candidate a b =
     (if (TradeDir a = TRADE_DIR_BUY) = (TradeDir b = TRADE_DIR_BUY) then None
      else if OfferAsset a \<noteq> WantAsset b \<or> WantAsset a \<noteq> OfferAsset b then None
      else if \<not> crossesOffers a b then None
      else
        (case (GetCovenant a, GetCovenant b) of
           (Some ca, Some cb) \<Rightarrow> Some \<lparr>cand_key = outpointPairKey ca cb, cand_resting = ca, cand_incoming = cb\<rparr>
         | _ \<Rightarrow> None))"

text \<open>The index pairs \<open>i < j\<close> in the order of the two nested loops.\<close>

fun offer_pairs :: "offer list \<Rightarrow> (offer \<times> offer) list" where
  "offer_pairs [] = []"
| "offer_pairs (a # as) = map (\<lambda>b. (a, b)) as @ offer_pairs as"

fun keep_new :: "string list \<Rightarrow> candidate list \<Rightarrow> candidate list" where
  "keep_new seen [] = []"
| "keep_new seen (c # cs) =
     (if cand_key c \<in> set seen then keep_new seen cs else c # keep_new (cand_key c # seen) cs)"

definition crossesForPair :: "offer list \<Rightarrow> candidate list" where
  "crossesForPair offers =
     keep_new [] (List.map_filter (\<lambda>(a, b). cross_candidate a b)
       (offer_pairs (filter (\<lambda>ofr. GetCovenant ofr \<noteq> None) offers)))"

lemma keep_new_keys: "distinct (map cand_key (keep_new seen cs))" "set seen \<inter> cand_key ` set (keep_new seen cs) = {}"
proof -
  have "distinct (map cand_key (keep_new seen cs)) \<and> set seen \<inter> cand_key ` set (keep_new seen cs) = {}"
  proof (induction cs arbitrary: seen)
    case (Cons c cs)
    from Cons.IH [of "cand_key c # seen"] Cons.IH [of seen] show ?case by auto
  qed simp
  then show "distinct (map cand_key (keep_new seen cs))" "set seen \<inter> cand_key ` set (keep_new seen cs) = {}" by simp_all
qed

lemma keep_new_subset: "set (keep_new seen cs) \<subseteq> set cs"
  by (induction cs arbitrary: seen) auto

lemma keep_new_all: "c \<in> set cs \<Longrightarrow> cand_key c \<notin> set seen \<Longrightarrow> cand_key c \<in> cand_key ` set (keep_new seen cs)"
proof (induction cs arbitrary: seen)
  case (Cons d cs)
  then show ?case using Cons.IH [of "cand_key d # seen"] by (cases "cand_key c = cand_key d") auto
qed simp

lemma offer_pairs_mem: "(a, b) \<in> set (offer_pairs xs) \<Longrightarrow> a \<in> set xs \<and> b \<in> set xs"
  by (induction xs) auto

lemma offer_pairs_nth: "i < j \<Longrightarrow> j < length xs \<Longrightarrow> (xs ! i, xs ! j) \<in> set (offer_pairs xs)"
proof (induction xs arbitrary: i j)
  case (Cons x xs)
  then show ?case by (cases i; cases j) auto
qed simp

section \<open>The settling pass (run.go)\<close>

text \<open>The zero \<open>Offer\<close>: the discovered match leaves its two offer pointers nil, and nothing reads them.\<close>

definition nil_offer :: offer where
  "nil_offer =
     \<lparr>OfferId = '''', SchemaVersion = 0, Pair = None, TradeDir = TRADE_DIR_UNSPECIFIED, BaseAmount = 0, OfferAmount = 0,
      OfferAsset = '''', WantAmount = 0, WantAsset = '''', AllowPartial = False, MinFill = 0, CreatedAtUnix = 0,
      ExpiresAtUnix = 0, MakerPubkey = '''', FeeAssetHint = '''', MinAnchorDepth = 0, MakerLnNodePubkey = '''',
      LnConnectHints = [], TimeInForce = TIME_IN_FORCE_UNSPECIFIED, Confidential = False, Settlement = NoSettlement,
      MakerSig = []\<rparr>"

definition cand_match :: "candidate \<Rightarrow> match" where
  "cand_match c =
     \<lparr>mt_Pair = None, mt_RestingKey = Key '''' '''', mt_Resting = nil_offer, mt_IncomingKey = Key '''' '''',
      mt_Incoming = nil_offer, mt_FillBase = 0, mt_FillQuote = 0, mt_RestingCovenant = Some (cand_resting c),
      mt_RestingLocked = 0, mt_IncomingCovenant = Some (cand_incoming c), mt_RestingLightning = None,
      mt_IncomingLightning = None\<rparr>"

record settler_env =
  se_crypto :: crypto
  se_lib :: elements_lib
  se_asm :: node_assembler
  se_bc :: "string \<Rightarrow> string option"
  se_view :: chain_view

definition settler_handle :: "settler_env \<Rightarrow> time \<Rightarrow> candidate \<Rightarrow> (string, time) gomap \<Rightarrow> (string, time) gomap \<times> bool" where
  "settler_handle env now c settled =
     (case Resolve (se_crypto env) (cand_match c) (se_view env) of
        Inl _ \<Rightarrow> (settled, False)
      | Inr (lockedA, lockedB) \<Rightarrow>
          (case computeFills (cand_match c) lockedA lockedB of
             Inl _ \<Rightarrow> (settled, False)
           | Inr (fillA, fillB) \<Rightarrow>
               (case Handle (se_crypto env) (se_lib env) (se_asm env) (se_bc env) (cand_match c) lockedA fillA lockedB fillB of
                  Inl _ \<Rightarrow> (settled, False)
                | Inr txid \<Rightarrow> (AList.update (cand_key c) now settled, True))))"

fun settle_candidates ::
  "settler_env \<Rightarrow> time \<Rightarrow> candidate list \<Rightarrow> (string, time) gomap \<times> nat \<Rightarrow> (string, time) gomap \<times> nat" where
  "settle_candidates env now [] acc = acc"
| "settle_candidates env now (c # cs) (settled, n) =
     (case map_of settled (cand_key c) of
        Some since \<Rightarrow>
          if now - since < settledTTL then settle_candidates env now cs (settled, n)
          else (case settler_handle env now c settled of (settled, ok) \<Rightarrow>
                  settle_candidates env now cs (settled, if ok then n + 1 else n))
      | None \<Rightarrow>
          (case settler_handle env now c settled of (settled, ok) \<Rightarrow>
             settle_candidates env now cs (settled, if ok then n + 1 else n)))"

fun tick_pairs ::
  "settler_env \<Rightarrow> time \<Rightarrow> ('p \<Rightarrow> offer list option) \<Rightarrow> 'p list \<Rightarrow> (string, time) gomap \<times> nat \<Rightarrow>
    ((string, time) gomap \<times> nat) \<times> settler_error option" where
  "tick_pairs env now orderbook [] acc = (acc, None)"
| "tick_pairs env now orderbook (p # ps) acc =
     (case orderbook p of
        None \<Rightarrow> (acc, Some OrderbookErr)
      | Some offers \<Rightarrow> tick_pairs env now orderbook ps (settle_candidates env now (crossesForPair offers) acc))"

definition tick ::
  "settler_env \<Rightarrow> time \<Rightarrow> (string \<times> string) list option \<Rightarrow> (string \<times> string \<Rightarrow> offer list option) \<Rightarrow> (string \<times> string) list \<Rightarrow>
    (string, time) gomap \<Rightarrow> ((string, time) gomap \<times> nat) \<times> settler_error option" where
  "tick env now discovered orderbook markets settled =
     (if markets = [] then
        (case discovered of None \<Rightarrow> ((settled, 0), Some OrderbookErr) | Some ps \<Rightarrow> tick_pairs env now orderbook ps (settled, 0))
      else tick_pairs env now orderbook markets (settled, 0))"

lemma settle_candidates_keeps:
  assumes "map_of settled k = Some since" "now - since < settledTTL"
  shows "map_of (fst (settle_candidates env now cs (settled, n))) k = Some since"
  using assms
proof (induction cs arbitrary: settled n)
  case (Cons c cs)
  show ?case
  proof (cases "cand_key c = k")
    case True
    with Cons show ?thesis by simp
  next
    case False
    obtain settled' ok where h: "settler_handle env now c settled = (settled', ok)" by fastforce
    with False Cons.prems(1) have "map_of settled' k = Some since"
      by (auto simp: settler_handle_def map_of_update split: sum.splits prod.splits)
    with Cons h show ?thesis by (auto split: option.split)
  qed
qed simp

lemma tick_pairs_keeps:
  assumes "map_of (fst acc) k = Some since" "now - since < settledTTL"
  shows "map_of (fst (fst (tick_pairs env now orderbook ps acc))) k = Some since"
  using assms
proof (induction ps arbitrary: acc)
  case (Cons p ps)
  obtain settled n where acc: "acc = (settled, n)" by fastforce
  show ?case
    using Cons.IH [of "settle_candidates env now (crossesForPair (the (orderbook p))) acc"] Cons.prems
      settle_candidates_keeps [of settled k since now env _ n] by (auto simp: acc split: option.split)
qed simp

end
