(* ===== verification/Settlement_Properties.thy ===== *)
theory Settlement_Properties
  imports Gate_Properties Settler Book_Properties
begin

text \<open>
  Properties that tie admission, book, matcher and settlement together: a book fed only through the
  validator holds only well-formed offers, each of its matches has a covenant fill plan at the matched
  price, and the settler's joint transaction satisfies both covenants.
\<close>

section \<open>Books behind the validator\<close>

definition offers_sat :: "(offer \<Rightarrow> bool) \<Rightarrow> store \<Rightarrow> bool" where
  "offers_sat P s \<longleftrightarrow> (\<forall>k e. map_of (entries s) k = Some e \<longrightarrow> P (e_Offer e))"

definition inserts :: "store_op \<Rightarrow> offer option" where
  "inserts op = (case op of OpSubmit ofr \<Rightarrow> Some ofr | OpEdit ofr \<Rightarrow> Some ofr | OpReopen ofr n \<Rightarrow> Some ofr | _ \<Rightarrow> None)"

lemma offers_satD: "offers_sat P s \<Longrightarrow> map_of (entries s) k = Some e \<Longrightarrow> P (e_Offer e)"
  by (simp add: offers_sat_def)

lemma offers_sat_frame: "entries s' = entries s \<Longrightarrow> offers_sat P s \<Longrightarrow> offers_sat P s'"
  by (simp add: offers_sat_def)

lemma offers_sat_updates [simp]:
  "offers_sat P (s\<lparr>settledNonce := m\<rparr>) = offers_sat P s" "offers_sat P (s\<lparr>cancelNonce := m\<rparr>) = offers_sat P s"
  "offers_sat P (broadcast ev s) = offers_sat P s" "offers_sat P (broadcast_all evs s) = offers_sat P s"
  "offers_sat P (RecordTrade now oo n s) = offers_sat P s" "offers_sat P (RecordTradeTx now oo n tx s) = offers_sat P s"
  by (simp_all add: offers_sat_def)

lemma offers_sat_changes [simp]:
  assumes "offers_sat P s"
  shows "offers_sat P (remove k s)" "offers_sat P (remove_all ks s)"
    "P (e_Offer e) \<Longrightarrow> offers_sat P (set_entry k e s)" "P (e_Offer e) \<Longrightarrow> offers_sat P (put k e s)"
  using assms by (simp_all add: offers_sat_def map_of_delete map_of_fold_delete map_of_update)

lemma offers_sat_interactive: "offers_sat P s \<Longrightarrow> offers_sat P (fst (remove_interactive_keys ks s))"
proof (induction ks s rule: remove_interactive_keys.induct)
  case (2 k ks s)
  then have "offers_sat P (remove k s)" by simp
  then show ?case using 2 by (auto split: option.split prod.split)
qed simp

lemma offers_sat_on_covenant:
  assumes "offers_sat P s" "\<And>e. map_of (entries s) k = Some e \<Longrightarrow> GetCovenant (e_Offer e) \<noteq> None \<Longrightarrow> offers_sat P (f e s)"
  shows "offers_sat P (on_covenant k f s)"
  using assms by (auto simp: on_covenant_def split: option.split)

lemma offers_sat_fill: "offers_sat P s \<Longrightarrow> offers_sat P (fst (ApplyPartialFill k n tx confs s))"
  by (auto simp: offers_sat_def ApplyPartialFill_def Let_def map_of_update map_of_delete split: option.splits if_splits)

lemma exec_offers_sat:
  assumes "offers_sat P s" "\<And>tx v ofr. P ofr \<Longrightarrow> P (set_outpoint tx v ofr)" "\<And>ofr. inserts op = Some ofr \<Longrightarrow> P ofr"
  shows "offers_sat P (exec cr now op s)"
proof (cases op)
  case (OpSubmit ofr)
  then have "P ofr" using assms(3) by (simp add: inserts_def)
  then show ?thesis using assms(1) OpSubmit
    by (auto simp: Submit_def offers_sat_def Let_def map_of_update split: sum.splits option.splits if_splits)
next
  case (OpEdit ofr)
  then have "P ofr" using assms(3) by (simp add: inserts_def)
  then show ?thesis using assms(1) OpEdit
    by (auto simp: Edit_def offers_sat_def Let_def map_of_update map_of_delete split: sum.splits option.splits if_splits)
next
  case (OpReopen ofr n)
  then have "P ofr" using assms(3) by (simp add: inserts_def)
  then show ?thesis using assms(1) OpReopen
    by (auto simp: Reopen_def offers_sat_def Let_def map_of_update map_of_delete split: sum.splits option.splits if_splits)
next
  case (OpRecordSettledFill k n tx confs nonce)
  have "offers_sat P (fst (ApplyPartialFill k f tx confs (RecordTrade now oo f (s\<lparr>settledNonce := m\<rparr>))))" for f oo m
    by (intro offers_sat_fill offers_sat_frame [OF _ assms(1)]) simp
  then show ?thesis
    using assms(1) OpRecordSettledFill by (auto simp: RecordSettledFill_def Let_def split: option.split prod.split)
next
  case (OpRemoveInteractiveByKeys ks)
  then show ?thesis
    using offers_sat_interactive [OF assms(1), of ks] 
    by (cases "remove_interactive_keys ks s") (simp add: RemoveInteractiveByKeys_def)
next
  case (OpRerestCovenantRemainder k tx vout n)
  then show ?thesis
    using assms(1,2) offers_satD [OF assms(1)]
    by (auto simp: RerestCovenantRemainder_def Let_def intro: offers_sat_on_covenant)
qed (use assms(1) offers_satD [OF assms(1)] in \<open>auto simp: book_op_defs HoldCovenantGhost_def ReconcileCovenantActive_def
    HoldCovenantForSpend_def RemoveCovenantFilled_def Cancel_def Let_def offers_sat_fill offers_sat_interactive
    intro: offers_sat_frame offers_sat_on_covenant split: sum.split option.split list.split\<close>)


text \<open>
  A relay that inserts only offers its validator accepted; a reopened offer is one that rested before.
  \<open>seen\<close> collects every offer that has rested.
\<close>

inductive admitted :: "crypto \<Rightarrow> offer set \<Rightarrow> store \<Rightarrow> bool" for cr where
  admitted_new: "admitted cr {} NewStore"
| admitted_exec: "admitted cr seen s \<Longrightarrow> reopen_fresh op s \<Longrightarrow>
    (\<And>ofr. op = OpSubmit ofr \<or> op = OpEdit ofr \<Longrightarrow> \<exists>cfg book t. check_offer cr cfg book t ofr = Inr ()) \<Longrightarrow>
    (\<And>ofr n. op = OpReopen ofr n \<Longrightarrow> ofr \<in> seen) \<Longrightarrow>
    admitted cr (seen \<union> {ofr. \<exists>k e. map_of (entries (exec cr now op s)) k = Some e \<and> e_Offer e = ofr}) (exec cr now op s)"

lemma admitted_reachable: "admitted cr seen s \<Longrightarrow> reachable_fresh cr s"
  by (induction rule: admitted.induct) (auto intro: reachable_fresh.intros)

lemma set_outpoint_rails [simp]:
  "GetLightning (set_outpoint tx v ofr) = GetLightning ofr" "GetSameChain (set_outpoint tx v ofr) = GetSameChain ofr"
  by (simp_all add: set_outpoint_def GetLightning_def GetSameChain_def GetCovenant_def split: settlement.split option.split)

lemma outpoint_terms:
  "GetCovenant (set_outpoint tx v ofr) = Some ct \<Longrightarrow>
   \<exists>ct0. GetCovenant ofr = Some ct0 \<and> ct = ct0\<lparr>ct_CovenantTxid := tx, ct_CovenantVout := v\<rparr>"
  by (simp add: set_outpoint_def GetCovenant_def split: settlement.splits option.splits)

lemma offer_wf_set_outpoint: "offer_wf ofr \<Longrightarrow> offer_wf (set_outpoint tx v ofr)"
  unfolding offer_wf_def by (auto dest!: outpoint_terms simp: covenant_wf_def simp del: GetCovenant_Some)

lemma admitted_wf: "admitted cr seen s \<Longrightarrow> offers_sat offer_wf s \<and> (\<forall>ofr\<in>seen. offer_wf ofr)"
proof (induction rule: admitted.induct)
  case admitted_new
  show ?case by (simp add: offers_sat_def NewStore_def)
next
  case (admitted_exec seen s op now)
  have "offers_sat offer_wf (exec cr now op s)"
  proof (rule exec_offers_sat)
    fix ofr
    assume "inserts op = Some ofr"
    then consider "op = OpSubmit ofr \<or> op = OpEdit ofr" | n where "op = OpReopen ofr n"
      by (auto simp: inserts_def split: store_op.splits)
    then show "offer_wf ofr" using admitted_exec check_offer_ok(2) by cases blast+
  qed (use admitted_exec offer_wf_set_outpoint in auto)
  with admitted_exec show ?case by (auto simp: offers_sat_def)
qed

section \<open>Every match settles\<close>

text \<open>A match against a well-formed resting order has a fill plan at the announced quote.\<close>

lemma wf_match_plan:
  assumes "reachable_fresh cr s" "offers_sat offer_wf s" "walk (store_book s) inc = Some (ms, rem)" "m \<in> set ms"
    "mt_RestingCovenant m = Some ct" "orderFromTerms ct = Inr ord" "Derive cr ord = Inr tap"
  shows "\<exists>p. PlanFill cr ord (mt_RestingLocked m) (mt_FillBase m) k = Inr p \<and> fp_RequiredB p = mt_FillQuote m"
proof -
  have inv: "book_ok cr s \<and> index_exact s" by (rule reachable_fresh_ok [OF assms(1)])
  obtain e n q r where m: "m = match_of inc (e, n, q)" "eligible inc e" "valid_fill r e n q"
    and snap: "e \<in> set (bk_SnapshotPairEntries (store_book s) (Pair inc) (Confidential inc))"
    by (rule walk_matches [OF assms(3,4)])
  have "Get (keyOf (e_Offer e)) s = Some e" using store.snapshot_get [OF inv snap] by (simp add: store_book_def)
  then have wf: "offer_wf (e_Offer e)"
    using offers_satD [OF assms(2)] by (simp add: Get_def)
  have ct: "GetCovenant (e_Offer e) = Some ct" using assms(5) m(1) by simp
  then have cwf: "covenant_wf (e_Offer e) ct" using wf unfolding offer_wf_def by blast
  have locked: "e_ActiveAmount e \<le> OfferAmount (e_Offer e)" "mt_RestingLocked m = e_ActiveAmount e"
    using store.snapshot_bound [OF inv snap] wf cwf m(1) ct by (auto simp: offer_wf_def covenant_wf_def simp del: GetCovenant_Some)
  have ord: "RateNum ord = ct_RateNum ct" "RateDen ord = ct_RateDen ct" "MinLot ord = ct_MinLot ct"
    using assms(6) by (auto simp: orderFromTerms_def)
  have arith: "CheckArithmetic ord (e_ActiveAmount e) = Inr ()"
    using cwf locked(1) CheckArithmetic_leaf_price(2) [of "rate_order (ct_RateNum ct) (ct_RateDen ct)" "OfferAmount (e_Offer e)" "e_ActiveAmount e"]
    by (auto simp: covenant_wf_def CheckArithmetic_iff ord rate_order_def)
  have fill: "n \<noteq> 0" "n \<le> e_ActiveAmount e" "ct_MinLot ct \<le> n" "n = e_ActiveAmount e \<or> ct_MinLot ct \<le> e_ActiveAmount e - n"
      "q \<noteq> 0" "q = fillQuote (e_Offer e) n"
    using m(3) ct by (auto simp: valid_fill_def word_gt_0 simp del: GetCovenant_Some)
  then obtain p where p: "PlanFill cr ord (e_ActiveAmount e) n k = Inr p"
    using arith assms(7) ord by (auto simp: PlanFill_Inr)
  have "unat q = ceil_div (unat n * unat (ct_RateNum ct)) (unat (ct_RateDen ct))"
    using fillQuote_nonzero(2) [OF ct _ fill(5)] fill(6) by simp
  with PlanFill_floor [OF p] ord have "fp_RequiredB p = q" by (simp add: u64_eq)
  with p locked(2) m(1) show ?thesis by simp
qed

text \<open>C1: in a book fed only through the validator, every match has a covenant fill plan: whenever the resting order's terms give an
  order that derives, filling the matched amount of the locked amount is a valid partial or whole fill at any input index, and
  what the covenant makes the taker pay is exactly the quote the matcher announced.\<close>

theorem admitted_matches_settle:
  assumes "admitted cr seen s" "walk (store_book s) inc = Some (ms, rem)" "m \<in> set ms" "mt_RestingCovenant m = Some ct"
    "orderFromTerms ct = Inr ord" "Derive cr ord = Inr tap"
  shows "\<exists>p. PlanFill cr ord (mt_RestingLocked m) (mt_FillBase m) k = Inr p \<and> fp_RequiredB p = mt_FillQuote m"
  by (rule wf_match_plan [OF admitted_reachable [OF assms(1)] conjunct1 [OF admitted_wf [OF assms(1)]] assms(2-6)])


lemma bid_check_offer: "check_offer demo_crypto DefaultConfig None (2 * Second) bid_offer = Inr ()"
proof -
  have "checkExpiry DefaultConfig (2 * Second) bid_offer = Inr ()"
    by (simp add: checkExpiry_def bid_offer_def DefaultConfig_def time_Unix_def Hour_def Minute_def Second_def reject_if_def)
  moreover have "checkTerms demo_crypto DefaultConfig bid_offer = Inr ()"
    by (simp add: checkTerms_def bid_offer_def gold_usdx_def GetBaseAsset_def GetQuoteAsset_def check_direction_def
        DefaultConfig_def reject_if_def GetCrossChain_def GetLightning_def GetCovenant_def)
  ultimately show ?thesis
    using sample_verified(2) demo_fields(4)
    by (simp add: check_offer_def MaxOfferBytes_def reject_if_def)
      (simp add: bid_offer_def DefaultConfig_def strings_ToLower_def char_lower_def)
qed

lemma ask_first_check: "\<exists>cfg book t. check_offer demo_crypto cfg book t ask_offer = Inr ()"
  using ask_check_offer [of Second NewStore] by (auto simp: Second_def rests_in_def NewStore_def)

lemma sample_admitted: "\<exists>seen. admitted demo_crypto seen sample_store"
proof -
  let ?first = "exec demo_crypto Second (OpSubmit ask_offer) NewStore"
  obtain seen where "admitted demo_crypto seen ?first"
    using admitted_exec [OF admitted_new, of "OpSubmit ask_offer" demo_crypto Second] ask_first_check
    by (auto simp: reopen_fresh_def simp del: exec.simps)
  from admitted_exec [OF this, of "OpSubmit bid_offer" "2 * Second"] bid_check_offer
  show ?thesis unfolding sample_store_def by (auto simp: reopen_fresh_def simp del: exec.simps)
qed

definition ask_order :: order where
  "ask_order =
     \<lparr>AssetA = replicate 32 1, AssetB = replicate 32 2, RateNum = 2, RateDen = 1, MakerProg = replicate 32 7, MakerVer = 1,
      MinLot = 10, ExpiryLocktime = 1000, MakerX = replicate 32 9, InternalKey = NUMS\<rparr>"

lemma ask_orderFromTerms: "orderFromTerms ask_terms = Inr ask_order"
  by (simp add: orderFromTerms_def ask_terms_def ask_order_def hex32_def hex_Decode_Encode reject_if_def)

lemma ask_Derive: "\<exists>tap. Derive demo_crypto ask_order = Inr tap"
  by (rule demo_Derive) (simp_all add: ask_order_def NUMS_def)

theorem admitted_matches_settle_witness:
  "\<exists>p. PlanFill demo_crypto ask_order 100 60 0 = Inr p \<and> fp_RequiredB p = 120"
proof -
  obtain seen where adm: "admitted demo_crypto seen sample_store" using sample_admitted by blast
  obtain tap where tap: "Derive demo_crypto ask_order = Inr tap" using ask_Derive by blast
  have cov: "mt_RestingCovenant sample_match = Some ask_terms"
    by (simp add: sample_match_def sample_entry_fields sample_terms)
  have "sample_match \<in> set [sample_match]" by simp
  from admitted_matches_settle [OF adm sample_walk this cov ask_orderFromTerms tap, of 0]
  show ?thesis by (simp add: sample_match_def sample_entry_fields sample_terms)
qed

end
