(* ===== verification/Relay_Properties.thy ===== *)
theory Relay_Properties
  imports Relay Settlement_Properties Feed_Properties
begin

text \<open>
  Properties of the relay's background parts: the session router, the chain watcher's pass over the
  covenant orders, and the undo of a settlement whose anchor is orphaned.
\<close>

section \<open>The session router\<close>

text \<open>The states of a router, and the receivers that drain its inboxes.\<close>

definition take_msg :: "nat \<Rightarrow> role \<Rightarrow> router \<Rightarrow> router" where
  "take_msg a ro r =
     write_session a (case ro of
         RoleTaker \<Rightarrow> (r_heap r ! a)\<lparr>ss_takerInbox := tl (ss_takerInbox (r_heap r ! a))\<rparr>
       | RoleMaker \<Rightarrow> (r_heap r ! a)\<lparr>ss_makerInbox := tl (ss_makerInbox (r_heap r ! a))\<rparr>) r"

inductive routing :: "router \<Rightarrow> bool" where
  routing_new: "routing (NewRouter d)"
| routing_start: "routing r \<Longrightarrow> routing (fst (StartLift now i req r))"
| routing_extend: "routing r \<Longrightarrow> routing (ExtendDeadline now i d r)"
| routing_send: "routing r \<Longrightarrow> routing (fst (Send now pick i sender c r))"
| routing_take: "routing r \<Longrightarrow> router_Get i r = Some a \<Longrightarrow> routing (take_msg a ro r)"
| routing_arm: "routing r \<Longrightarrow> routing (fst (ArmReorgReopen i tx oo n r w))"
| routing_close: "routing r \<Longrightarrow> routing (fst (closeReopen i b r))"
| routing_sweep: "routing r \<Longrightarrow> routing (fst (router_SweepExpired now r))"

lemma router_ok_extend: "router_ok r \<Longrightarrow> router_ok (ExtendDeadline now i d r)"
proof (cases "map_of (r_sessions r) i")
  case (Some a)
  assume ok: "router_ok r"
  note facts = router_okD [OF ok Some]
  show ?thesis using facts Some by (auto simp: ExtendDeadline_def intro!: router_ok_write [OF ok Some])
qed (simp add: ExtendDeadline_def)

lemma router_ok_arm: "router_ok r \<Longrightarrow> router_ok (fst (ArmReorgReopen i tx oo n r w))"
proof (cases "map_of (r_sessions r) i")
  case (Some a)
  assume ok: "router_ok r"
  note facts = router_okD [OF ok Some]
  show ?thesis using facts Some
    by (auto simp: ArmReorgReopen_def router_Get_def Let_def split: option.split intro!: router_ok_write [OF ok Some])
qed (simp add: ArmReorgReopen_def router_Get_def)

lemma router_ok_take: "router_ok r \<Longrightarrow> router_Get i r = Some a \<Longrightarrow> router_ok (take_msg a ro r)"
proof -
  assume ok: "router_ok r" and "router_Get i r = Some a"
  then have a: "map_of (r_sessions r) i = Some a" by (simp add: router_Get_def)
  note facts = router_okD [OF ok a]
  show ?thesis unfolding take_msg_def using facts by (cases ro) (auto intro!: router_ok_write [OF ok a])
qed

lemma router_ok_abort_all: "router_ok r \<Longrightarrow> router_ok (fst (abort_all is r))"
proof (induction "is" arbitrary: r)
  case (Cons i js)
  have "router_ok (fst (Abort i r))" unfolding Abort_def by (rule router_ok_close [OF Cons.prems])
  from Cons.IH [OF this] show ?case
    by (cases "Abort i r"; cases "abort_all js (fst (Abort i r))") simp
qed simp

lemma routing_ok: "routing r \<Longrightarrow> router_ok r"
proof (induction rule: routing.induct)
  case (routing_new d)
  show ?case by (simp add: router_ok_def NewRouter_def)
next
  case (routing_sweep r now)
  then show ?case using router_ok_abort_all by (auto simp: router_SweepExpired_def Let_def split: prod.split) (metis fst_conv)
qed (auto intro: router_ok_StartLift router_ok_extend router_ok_Send router_ok_take router_ok_arm router_ok_close)

text \<open>The router keeps sessions apart: in every state it reaches, live sessions have distinct objects that are open and within
  their inbox capacity, and a frame sent on a session is appended to the counterparty's inbox of that session while every other
  session, and the sender's own inbox, stays as it was.\<close>

lemma router_routes_exactly:
  assumes "routing r" "Send now pick i sender c r = (r', Some (Inr ()))" "router_Get i r = Some a"
  shows "router_ok r' \<and>
    (let dst = (case sender of RoleTaker \<Rightarrow> RoleMaker | RoleMaker \<Rightarrow> RoleTaker) in
     Inbox (r_heap r' ! a) dst = Inbox (r_heap r ! a) dst @ [\<lparr>sm_SessionId = i, sm_Ciphertext = c\<rparr>] \<and>
     Inbox (r_heap r' ! a) sender = Inbox (r_heap r ! a) sender) \<and>
    (\<forall>j b. router_Get j r = Some b \<and> j \<noteq> i \<longrightarrow> router_Get j r' = Some b \<and> r_heap r' ! b = r_heap r ! b)"
proof -
  have ok: "router_ok r" by (rule routing_ok [OF assms(1)])
  have "router_ok r'" using router_ok_Send [OF ok, of now pick i sender c] assms(2) by simp
  moreover have "a < length (r_heap r)" using router_okD(1) [OF ok] assms(3) by (simp add: router_Get_def)
  moreover have "map_of (r_sessions r) j \<noteq> Some a" if "j \<noteq> i" for j
    using live_addresses_distinct [OF ok, of j a i] that assms(3) by (auto simp: router_Get_def)
  ultimately show ?thesis
    using assms(2,3) by (cases sender) (auto simp: Send_def Let_def Inbox_def router_Get_def nth_list_update split: if_splits)
qed

definition sample_req :: open_req where
  "sample_req = \<lparr>rq_OfferID = ''a'', rq_MakerPubkey = ''020100'', rq_TakeAmount = 60, rq_TakerSessionPubkey = [], rq_MakerSessionPubkey = []\<rparr>"

definition sample_router :: router where
  "sample_router = fst (StartLift 0 ''sid'' sample_req (NewRouter Minute))"

lemma sample_router_routing: "routing sample_router"
  unfolding sample_router_def by (intro routing.intros)

section \<open>The chain watcher\<close>

text \<open>C8: a watcher pass makes the book agree with the node: whatever the node answers, after a completed pass every covenant order is
  what the classifier's verdict on its outpoint says: reconciled to its live size, re-rested on its remainder, held during an
  unconfirmed spend, removed when it was filled, and, when its outpoint is gone without a spend of it being seen, removed if it was never
  re-rested and held if it was. An order the node could not be asked about is unchanged, and so is every order without a covenant.\<close>

theorem watcher_pass_reconciles:
  assumes "reachable cr s" "ReconcileOnce cr chain (NewStoreBook clock) w s = (w', s', Some st)"
  shows "map_of (entries s') = reconciled cr chain (map_of (entries s))"
  by (rule store_cov.pass_reconciles [OF _ assms(2)]) (rule book_okD(1) [OF reachable_book_ok [OF assms(1)]])

definition spent_state :: cov_state where
  "spent_state =
     \<lparr>cs_Unspent = False, cs_Value = 0, cs_AssetDisplay = '''', cs_SPKHex = '''', cs_ConfirmedUTXO = False,
      cs_SpenderTxid = ''ff'', cs_SpenderConfirmed = True, cs_Remainder = \<lparr>ro_Present = True, ro_Vout = 1, ro_Value = 40\<rparr>\<rparr>"

definition spent_view :: chain_view where
  "spent_view = \<lparr>cv_Tip = Some (''tip'', 7), cv_Inspect = (\<lambda>_ _ _ _. Some spent_state)\<rparr>"

lemma spent_verdict: "\<exists>v. inspect demo_crypto spent_view ask_terms = Some v \<and> vd_State v = StatePartialFill \<and>
    vd_RemainderTxid v = ''ff'' \<and> vd_RemainderVout v = 1 \<and> vd_RemainderSize v = 40"
proof -
  obtain tap where "Derive demo_crypto ask_order = Inr tap" using ask_Derive by blast
  then obtain ex where "expectFromTerms demo_crypto ask_terms = Inr ex"
    by (simp add: expectFromTerms_def ask_orderFromTerms)
  then show ?thesis by (simp add: inspect_def spent_view_def spent_state_def Classify_def no_verdict_def)
qed

theorem watcher_pass_reconciles_witness:
  "\<exists>w' s' st. ReconcileOnce demo_crypto spent_view (NewStoreBook (\<lambda>k. 3 * Second)) NewWatcher sample_store = (w', s', Some st) \<and>
     map_of (entries s') (keyOf ask_offer) = Some (rerest_entry ''ff'' 1 40 ask_entry) \<and>
     map_of (entries s') (keyOf bid_offer) = Some bid_entry"
proof -
  have reach: "reachable demo_crypto sample_store"
    unfolding sample_store_def by (intro reachable.intros)
  obtain w' s' st where r: "ReconcileOnce demo_crypto spent_view (NewStoreBook (\<lambda>k. 3 * Second)) NewWatcher sample_store = (w', s', Some st)"
    by (simp add: ReconcileOnce_def spent_view_def Let_def case_prod_beta)
  note look = watcher_pass_reconciles [OF reach r]
  obtain v where "inspect demo_crypto spent_view ask_terms = Some v" "vd_State v = StatePartialFill"
      "vd_RemainderTxid v = ''ff''" "vd_RemainderVout v = 1" "vd_RemainderSize v = 40" using spent_verdict by blast
  then have "map_of (entries s') (keyOf ask_offer) = Some (rerest_entry ''ff'' 1 40 ask_entry)"
    using sample_Get(1) by (simp add: look reconciled_def Get_def sample_entry_fields sample_terms verdict_entry_def deep_amounts)
  moreover have "map_of (entries s') (keyOf bid_offer) = Some bid_entry"
    using sample_Get(2) by (simp add: look reconciled_def Get_def sample_entry_fields sample_terms)
  ultimately show ?thesis using r by blast
qed

section \<open>Undo of a settlement\<close>

lemma settle_ack_fills:
  assumes "wsSettleAck now roles sa rl = (rl', Inr ())" "router_Get (sa_SessionId sa) (rl_router rl) = Some a"
    "sess = r_heap (rl_router rl) ! a" "k = Key (ss_MakerPubkey sess) (ss_OfferID sess)" "Get k (rl_store rl) = Some e"
    "fill = (if e_ActiveAmount e < ss_TakeAmount sess then e_ActiveAmount e else ss_TakeAmount sess)" "0 < fill"
    "a < length (r_heap (rl_router rl))" "sa_SettleTxid sa \<noteq> ''''"
  shows "rl_store rl' = fst (ApplyPartialFill k fill (sa_SettleTxid sa) (sa_AnchorConfs sa)
        (RecordTradeTx now (Some (e_Offer e)) fill (sa_SettleTxid sa) (rl_store rl)))"
    "r_heap (rl_router rl') ! a = sess\<lparr>ss_settleTxid := sa_SettleTxid sa, ss_settledOffer := Some (e_Offer e),
       ss_settledFill := fill, ss_done := True\<rparr>"
    "rl_watches rl' = AList.update (sa_SessionId sa) \<lparr>wt_txid = sa_SettleTxid sa, wt_session = a, wt_seen = False\<rparr> (rl_watches rl)"
proof -
  let ?s1 = "ApplyPartialFill k fill (sa_SettleTxid sa) (sa_AnchorConfs sa)
        (RecordTradeTx now (Some (e_Offer e)) fill (sa_SettleTxid sa) (rl_store rl))"
  have e: "map_of (entries (rl_store rl)) k = Some e" using assms(5) by (simp add: Get_def)
  obtain s1 where s1: "?s1 = (s1, Inr ())" using e by (simp add: ApplyPartialFill_def Let_def)
  let ?s = "sess\<lparr>ss_settleTxid := sa_SettleTxid sa, ss_settledOffer := Some (e_Offer e), ss_settledFill := fill\<rparr>"
  have arm: "ArmReorgReopen (sa_SessionId sa) (sa_SettleTxid sa) (Some (e_Offer e)) fill (rl_router rl) (rl_watches rl) =
      (write_session a ?s (rl_router rl), WatchSettlement (sa_SessionId sa) (sa_SettleTxid sa) a (rl_watches rl), Inr ())"
    using assms(2,3) by (simp add: ArmReorgReopen_def)
  from assms(1) have guards: "sa_SessionId sa \<noteq> ''''" "map_of roles (sa_SessionId sa) = Some RoleMaker"
    by (auto simp: wsSettleAck_def Let_def split: if_splits)
  have rl': "rl' = rl\<lparr>rl_store := s1, rl_router := router_Close (sa_SessionId sa) (write_session a ?s (rl_router rl)),
      rl_watches := WatchSettlement (sa_SessionId sa) (sa_SettleTxid sa) a (rl_watches rl)\<rparr>"
    using assms(1) guards assms(2,7) s1 arm
    unfolding wsSettleAck_def Let_def assms(3) [symmetric] assms(4) [symmetric]
    by (simp add: assms(3) [symmetric] assms(4) [symmetric] assms(5) assms(6) [symmetric] cong: if_cong)
  show "rl_store rl' = fst ?s1" by (simp add: rl' s1)
  show "r_heap (rl_router rl') ! a = sess\<lparr>ss_settleTxid := sa_SettleTxid sa, ss_settledOffer := Some (e_Offer e),
       ss_settledFill := fill, ss_done := True\<rparr>"
    using assms(2,8) by (simp add: rl' router_Close_def closeReopen_def router_Get_def Let_def)
  show "rl_watches rl' = AList.update (sa_SessionId sa) \<lparr>wt_txid = sa_SettleTxid sa, wt_session = a, wt_seen = False\<rparr> (rl_watches rl)"
    using assms(9) by (simp add: rl' WatchSettlement_def)
qed

text \<open>A pass whose probe finds no other watched transaction missing fires at most the one watch.\<close>

definition others_kept :: "chain_probe \<Rightarrow> string \<Rightarrow> (string, watch) gomap \<Rightarrow> bool" where
  "others_kept probe sid w \<longleftrightarrow> (\<forall>i wt. map_of w i = Some wt \<longrightarrow> i \<noteq> sid \<longrightarrow> cp_TxPresent probe (wt_txid wt) \<noteq> Some False)"

lemma fired_watch:
  assumes "gomap_ok w" "map_of w sid = Some wt" "others_kept probe sid w"
  shows "map wt_session (filter (watch_fires probe) (map snd w)) = (if watch_fires probe wt then [wt_session wt] else [])"
proof -
  obtain xs ys where w: "w = xs @ (sid, wt) # ys" using map_of_SomeD [OF assms(2)] by (meson split_list)
  have "\<not> watch_fires probe v" if "v \<in> snd ` (set xs \<union> set ys)" for v
  proof -
    from that obtain i where i: "(i, v) \<in> set xs \<union> set ys" by force
    then have "map_of w i = Some v" using assms(1) by (intro map_of_is_SomeI) (auto simp: w gomap_ok_def)
    moreover have "i \<in> fst ` (set xs \<union> set ys)" using i by force
    then have "i \<noteq> sid" using assms(1) by (auto simp: w gomap_ok_def)
    ultimately show ?thesis using assms(3) by (auto simp: others_kept_def watch_fires_def)
  qed
  then have "filter (watch_fires probe) (map snd xs) = []" "filter (watch_fires probe) (map snd ys) = []"
    by (auto simp: filter_empty_conv)
  then show ?thesis by (simp add: w)
qed

lemma gomap_ok_reconcile: "gomap_ok w \<Longrightarrow> gomap_ok (fst (reorg_ReconcileOnce probe w))"
proof -
  have "gomap_ok (fst (fold (reconcile_watch probe) is st))" if "gomap_ok (fst st)" for "is" st
    using that
  proof (induction "is" arbitrary: st)
    case (Cons i js)
    have "gomap_ok (fst (reconcile_watch probe i st))"
      using Cons.prems by (auto simp: reconcile_watch_def Let_def Forget_def gomap_ok_def distinct_update distinct_delete split: prod.split option.split bool.split)
    then show ?case using Cons.IH by simp
  qed simp
  then show "gomap_ok w \<Longrightarrow> gomap_ok (fst (reorg_ReconcileOnce probe w))" by (simp add: reorg_ReconcileOnce_def)
qed

text \<open>A pass that sees the settling transaction on the chain marks the watch; a later one that misses it runs the hook and drops the watch.\<close>

lemma pass_sees:
  assumes "gomap_ok (rl_watches rl)" "map_of (rl_watches rl) sid = Some wt" "others_kept probe sid (rl_watches rl)"
    "cp_TxPresent probe (wt_txid wt) = Some True" "watch_after probe wt \<noteq> None"
  shows "rl_store (reorg_pass cr now probe rl) = rl_store rl" "rl_router (reorg_pass cr now probe rl) = rl_router rl"
    "gomap_ok (rl_watches (reorg_pass cr now probe rl))" "map_of (rl_watches (reorg_pass cr now probe rl)) sid = Some (wt\<lparr>wt_seen := True\<rparr>)"
    "map_of (rl_watches (reorg_pass cr now probe rl)) i = (case map_of (rl_watches rl) i of None \<Rightarrow> None | Some wt \<Rightarrow> watch_after probe wt)"
proof -
  obtain w fired where pass: "reorg_ReconcileOnce probe (rl_watches rl) = (w, fired)" by fastforce
  note spec = reorg_ReconcileOnce_spec [OF assms(1) pass]
  have "fired = []" unfolding spec(2) fired_watch [OF assms(1-3)] using assms(4) by (simp add: watch_fires_def)
  moreover have "watch_after probe wt = Some (wt\<lparr>wt_seen := True\<rparr>)" using assms(4,5) by (auto simp: watch_after_def split: option.splits if_splits)
  ultimately show "rl_store (reorg_pass cr now probe rl) = rl_store rl" "rl_router (reorg_pass cr now probe rl) = rl_router rl"
    "gomap_ok (rl_watches (reorg_pass cr now probe rl))" "map_of (rl_watches (reorg_pass cr now probe rl)) sid = Some (wt\<lparr>wt_seen := True\<rparr>)"
    "map_of (rl_watches (reorg_pass cr now probe rl)) i = (case map_of (rl_watches rl) i of None \<Rightarrow> None | Some wt \<Rightarrow> watch_after probe wt)"
    using spec(1) [of sid] spec(1) [of i] assms(2) gomap_ok_reconcile [OF assms(1), of probe] pass by (simp_all add: reorg_pass_def)
qed

lemma watch_after_txid: "watch_after probe wt = Some wt' \<Longrightarrow> wt_txid wt' = wt_txid wt"
  by (auto simp: watch_after_def split: option.splits bool.splits if_splits)

lemma pass_fires:
  assumes "gomap_ok (rl_watches rl)" "map_of (rl_watches rl) sid = Some wt" "others_kept probe sid (rl_watches rl)"
    "cp_TxPresent probe (wt_txid wt) = Some False" "wt_seen wt"
  shows "rl_store (reorg_pass cr now probe rl) = onReopen cr now (r_heap (rl_router rl) ! wt_session wt) (rl_store rl)"
    "map_of (rl_watches (reorg_pass cr now probe rl)) sid = None"
proof -
  obtain w fired where pass: "reorg_ReconcileOnce probe (rl_watches rl) = (w, fired)" by fastforce
  note spec = reorg_ReconcileOnce_spec [OF assms(1) pass]
  have "fired = [wt_session wt]" unfolding spec(2) fired_watch [OF assms(1-3)] using assms(4,5) by (simp add: watch_fires_def)
  then show "rl_store (reorg_pass cr now probe rl) = onReopen cr now (r_heap (rl_router rl) ! wt_session wt) (rl_store rl)"
    "map_of (rl_watches (reorg_pass cr now probe rl)) sid = None"
    using spec(1) [of sid] assms(2,4,5) pass by (simp_all add: reorg_pass_def watch_after_def)
qed


text \<open>C29: a settlement can be undone: a maker's acknowledgement with a transaction id arms the reorg watch of the session, and when
  a pass of the reorg watcher finds the transaction on the chain, not yet buried, and the next pass finds it gone, that pass
  restores the order to the amount it had open before, as a fresh entry of its original offer, takes the trade back, so that the
  feeds of all markets are what they were, and drops the watch. This holds when nothing else touches the book in between (the
  two passes follow the acknowledgement and miss no other watched transaction), the order was not cancelled, the market's
  trade ring was below its cap and held no other trade with that transaction id.\<close>

theorem settlement_undone:
  assumes "reachable cr (rl_store rl)" "router_ok (rl_router rl)" "gomap_ok (rl_watches rl)" "wsSettleAck now roles sa rl = (rl', Inr ())"
    "router_Get (sa_SessionId sa) (rl_router rl) = Some a"
    "k = Key (ss_MakerPubkey (r_heap (rl_router rl) ! a)) (ss_OfferID (r_heap (rl_router rl) ! a))"
    "Get k (rl_store rl) = Some e" "e_ActiveAmount e \<noteq> 0" "ss_TakeAmount (r_heap (rl_router rl) ! a) \<noteq> 0"
    "sa_SettleTxid sa \<noteq> []" "Pair (e_Offer e) \<noteq> None"
    "\<not> cancelledSince (gomap_get 0 (cancelNonce (rl_store rl)) k) (CreatedAtUnix (e_Offer e))"
    "length (ring (trades (rl_store rl)) (pairKey (Pair (e_Offer e)))) < maxTradesPerPair"
    "\<forall>t\<in>set (ring (trades (rl_store rl)) (pairKey (Pair (e_Offer e)))). tr_Txid t \<noteq> sa_SettleTxid sa"
    and sees: "cp_TxPresent probe (sa_SettleTxid sa) = Some True" "\<forall>confs n. cp_TxConfirmations probe = Some confs \<longrightarrow> confs (sa_SettleTxid sa) = Some n \<longrightarrow> n < ReorgForgetDepth"
      "others_kept probe (sa_SessionId sa) (rl_watches rl)"
    and misses: "cp_TxPresent probe' (sa_SettleTxid sa) = Some False" "others_kept probe' (sa_SessionId sa) (rl_watches rl)"
    and rl2: "rl2 = reorg_pass cr t2 probe' (reorg_pass cr t1 probe rl')"
  shows "map_of (rl_watches rl') (sa_SessionId sa) = Some \<lparr>wt_txid = sa_SettleTxid sa, wt_session = a, wt_seen = False\<rparr> \<and>
    map_of (entries (rl_store rl2)) k =
      Some (new_entry t2 (e_Offer e)
        (if e_ActiveAmount e < BaseAmount (e_Offer e) then OFFER_STATUS_PARTIAL else OFFER_STATUS_OPEN) (e_ActiveAmount e)) \<and>
    ring (trades (rl_store rl2)) = ring (trades (rl_store rl)) \<and> map_of (rl_watches rl2) (sa_SessionId sa) = None"
proof -
  define sess where "sess = r_heap (rl_router rl) ! a"
  define fill where "fill = (if e_ActiveAmount e < ss_TakeAmount sess then e_ActiveAmount e else ss_TakeAmount sess)"
  have a: "a < length (r_heap (rl_router rl))" using router_okD(1) [OF assms(2)] assms(5) by (simp add: router_Get_def)
  have k: "k = Key (ss_MakerPubkey sess) (ss_OfferID sess)" using assms(6) by (simp add: sess_def)
  have fill: "0 < fill" "fill \<le> e_ActiveAmount e" using assms(8,9) by (auto simp: fill_def sess_def word_gt_0)
  note ack = settle_ack_fills [OF assms(4,5) sess_def k assms(7) fill_def fill(1) a assms(10)]
  let ?wt = "\<lparr>wt_txid = sa_SettleTxid sa, wt_session = a, wt_seen = False\<rparr>"
  have watches: "gomap_ok (rl_watches rl')" "map_of (rl_watches rl') (sa_SessionId sa) = Some ?wt"
      "others_kept probe (sa_SessionId sa) (rl_watches rl')" "others_kept probe' (sa_SessionId sa) (rl_watches rl')"
    using assms(3) sees(3) misses(2) by (auto simp: ack(3) gomap_ok_def distinct_update map_of_update others_kept_def)
  have left: "watch_after probe ?wt \<noteq> None" using sees(1,2) by (auto simp: watch_after_def not_le split: option.split)
  have here: "cp_TxPresent probe (wt_txid ?wt) = Some True" using sees(1) by simp
  note first = pass_sees [OF watches(1-3) here left, of cr t1]
  have "others_kept probe' (sa_SessionId sa) (rl_watches (reorg_pass cr t1 probe rl'))"
    using watches(4) by (auto simp: others_kept_def first(5) dest!: watch_after_txid split: option.splits)
  note second = pass_fires [OF first(3,4) this, of cr t2]
  let ?ses = "r_heap (rl_router rl') ! a"
  have undo: "rl_store rl2 = onReopen cr t2 ?ses (rl_store rl')" "map_of (rl_watches rl2) (sa_SessionId sa) = None"
    using second misses(1) first(1,2) by (simp_all add: rl2)
  have book: "book_ok cr (rl_store rl)" by (rule reachable_book_ok [OF assms(1)])
  have e: "map_of (entries (rl_store rl)) k = Some e" using assms(7) by (simp add: Get_def)
  have key: "keyOf (e_Offer e) = k" using book_okD(3) [OF book e] by (simp add: entry_ok_def)
  have ses: "ss_settledOffer ?ses = Some (e_Offer e)" "ss_settledFill ?ses = fill" "ss_settleTxid ?ses = sa_SettleTxid sa"
      "keyOf (e_Offer e) = Key (ss_MakerPubkey ?ses) (ss_OfferID ?ses)"
    using key k by (simp_all add: ack(2))
  have "map_of (entries (onReopen cr t2 ?ses (rl_store rl'))) k =
      Some (new_entry t2 (e_Offer e)
        (if e_ActiveAmount e < BaseAmount (e_Offer e) then OFFER_STATUS_PARTIAL else OFFER_STATUS_OPEN) (e_ActiveAmount e))"
    using undo_entry [OF book, of e fill ?ses, OF _ _ _ fill(2) ses(1,2,4) ack(1) [folded key]] e key assms(12) fill(1) by auto
  moreover have "ring (trades (onReopen cr t2 ?ses (rl_store rl'))) = ring (trades (rl_store rl))"
    by (rule undo_trades [OF assms(11,10,13,14) ses(1,3) ack(1)])
  ultimately show ?thesis using watches(2) undo by simp
qed

definition sample_relay :: relay where
  "sample_relay = \<lparr>rl_store = sample_store, rl_router = sample_router, rl_watches = []\<rparr>"

definition sample_ack :: settle_ack where
  "sample_ack = \<lparr>sa_SessionId = ''sid'', sa_SettleTxid = ''tx'', sa_FillBase = 60, sa_AnchorConfs = 1\<rparr>"

definition sample_probe :: "bool \<Rightarrow> chain_probe" where
  "sample_probe present = \<lparr>cp_TxPresent = (\<lambda>_. Some present), cp_TxConfirmations = None\<rparr>"

theorem settlement_undone_witness:
  "\<exists>rl'. wsSettleAck (3 * Second) [(''sid'', RoleMaker)] sample_ack sample_relay = (rl', Inr ()) \<and>
     map_of (entries (rl_store (reorg_pass demo_crypto (5 * Second) (sample_probe False)
       (reorg_pass demo_crypto (4 * Second) (sample_probe True) rl')))) (keyOf ask_offer) =
       Some (new_entry (5 * Second) ask_offer OFFER_STATUS_OPEN 100)"
proof -
  have reach: "reachable demo_crypto (rl_store sample_relay)"
    unfolding sample_relay_def sample_store_def relay.simps by (intro reachable.intros)
  have router: "router_ok (rl_router sample_relay)" using routing_ok [OF sample_router_routing] by (simp add: sample_relay_def)
  have watches: "gomap_ok (rl_watches sample_relay)" by (simp add: sample_relay_def gomap_ok_def)
  have get: "router_Get (sa_SessionId sample_ack) (rl_router sample_relay) = Some 0"
    by (simp add: sample_relay_def sample_ack_def sample_router_def StartLift_def sample_req_def NewRouter_def router_Get_def Let_def)
  have sess: "ss_MakerPubkey (r_heap (rl_router sample_relay) ! 0) = ''020100''" "ss_OfferID (r_heap (rl_router sample_relay) ! 0) = ''a''"
      "ss_TakeAmount (r_heap (rl_router sample_relay) ! 0) = 60"
    by (simp_all add: sample_relay_def sample_router_def StartLift_def sample_req_def NewRouter_def Let_def)
  have e: "Get (keyOf ask_offer) (rl_store sample_relay) = Some ask_entry" by (simp add: sample_relay_def sample_Get)
  obtain rl' where ack: "wsSettleAck (3 * Second) [(''sid'', RoleMaker)] sample_ack sample_relay = (rl', Inr ())"
    using get sess e
    by (auto simp: wsSettleAck_def Let_def sample_ack_def sample_keys sample_entry_fields ApplyPartialFill_def ArmReorgReopen_def Get_def)
  have kept: "others_kept probe (sa_SessionId sample_ack) (rl_watches sample_relay)" for probe
    by (simp add: others_kept_def sample_relay_def)
  have "map_of (entries (rl_store (reorg_pass demo_crypto (5 * Second) (sample_probe False)
       (reorg_pass demo_crypto (4 * Second) (sample_probe True) rl')))) (keyOf ask_offer) =
      Some (new_entry (5 * Second) (e_Offer ask_entry)
        (if e_ActiveAmount ask_entry < BaseAmount (e_Offer ask_entry) then OFFER_STATUS_PARTIAL else OFFER_STATUS_OPEN)
        (e_ActiveAmount ask_entry))"
    using settlement_undone [OF reach router watches ack get _ e, of "sample_probe True" "sample_probe False"] sess sample_keys(1) kept
    by (simp add: sample_entry_fields sample_ack_def sample_relay_def sample_store_eq deep_keys ring_def gomap_get_def
        cancelledSince_def maxTradesPerPair_def sample_probe_def)
  with ack show ?thesis by (simp add: sample_entry_fields deep_amounts)
qed

end
