(* ===== verification/Sample_Codec.thy ===== *)
theory Sample_Codec
  imports Settler
begin

text \<open>
  A concrete transaction codec that satisfies the laws assumed of the go-elements library: a
  transaction is flattened to numbers with length prefixes, and the numbers are written in unary. It
  instantiates the library parameter wherever a theorem on the settler is evaluated.
\<close>

section \<open>Numbers\<close>

definition unary :: "nat list \<Rightarrow> string" where
  "unary ns = concat (map (\<lambda>n. replicate n CHR ''1'' @ ''0'') ns)"

fun read_unary :: "nat \<Rightarrow> string \<Rightarrow> nat list" where
  "read_unary n [] = []"
| "read_unary n (c # cs) = (if c = CHR ''1'' then read_unary (n + 1) cs else n # read_unary 0 cs)"

lemma read_unary_replicate: "read_unary k (replicate n CHR ''1'' @ cs) = read_unary (k + n) cs"
  by (induction n arbitrary: k) simp_all

lemma read_unary_unary: "read_unary 0 (unary ns) = ns"
  by (induction ns) (simp_all add: unary_def read_unary_replicate)

section \<open>Lists with a length prefix\<close>

fun read_many :: "(nat list \<Rightarrow> 'a \<times> nat list) \<Rightarrow> nat \<Rightarrow> nat list \<Rightarrow> 'a list \<times> nat list" where
  "read_many rd 0 ns = ([], ns)"
| "read_many rd (Suc n) ns = (let (x, ns) = rd ns; (xs, ns) = read_many rd n ns in (x # xs, ns))"

definition put_list :: "('a \<Rightarrow> nat list) \<Rightarrow> 'a list \<Rightarrow> nat list" where
  "put_list wr xs = length xs # concat (map wr xs)"

definition get_list :: "(nat list \<Rightarrow> 'a \<times> nat list) \<Rightarrow> nat list \<Rightarrow> 'a list \<times> nat list" where
  "get_list rd ns = read_many rd (hd ns) (tl ns)"

lemma get_put_list:
  assumes "\<And>x r. rd (wr x @ r) = (x, r)"
  shows "get_list rd (put_list wr xs @ r) = (xs, r)"
proof -
  have "read_many rd (length xs) (concat (map wr xs) @ r) = (xs, r)"
    by (induction xs) (simp_all add: assms)
  then show ?thesis by (simp add: get_list_def put_list_def)
qed

definition put_byte :: "byte \<Rightarrow> nat list" where "put_byte b = [unat b]"
definition get_byte :: "nat list \<Rightarrow> byte \<times> nat list" where "get_byte ns = (of_nat (hd ns), tl ns)"

lemma get_put_byte: "get_byte (put_byte b @ r) = (b, r)"
  by (simp add: put_byte_def get_byte_def)

abbreviation put_bytes :: "bytes \<Rightarrow> nat list" where "put_bytes \<equiv> put_list put_byte"
abbreviation get_bytes :: "nat list \<Rightarrow> bytes \<times> nat list" where "get_bytes \<equiv> get_list get_byte"

lemmas get_put_bytes = get_put_list [where rd = get_byte and wr = put_byte, OF get_put_byte]
lemmas get_put_stack = get_put_list [where rd = get_bytes and wr = put_bytes, OF get_put_bytes]

section \<open>Transactions\<close>

definition put_in :: "tx_in \<Rightarrow> nat list" where
  "put_in i = unat (ti_Index i) # put_bytes (ti_Hash i) @ put_list put_bytes (ti_Witness i)"

definition get_in :: "nat list \<Rightarrow> tx_in \<times> nat list" where
  "get_in ns =
     (let (h, r) = get_bytes (tl ns); (w, r) = get_list get_bytes r
      in (\<lparr>ti_Hash = h, ti_Index = of_nat (hd ns), ti_Witness = w\<rparr>, r))"

lemma get_put_in: "get_in (put_in i @ r) = (i, r)"
  by (simp add: get_in_def put_in_def get_put_bytes get_put_stack)

definition put_out :: "tx_out \<Rightarrow> nat list" where
  "put_out t = put_bytes (to_Asset t) @ put_bytes (to_Value t) @ put_bytes (to_Script t)"

definition get_out :: "nat list \<Rightarrow> tx_out \<times> nat list" where
  "get_out ns =
     (let (a, r) = get_bytes ns; (v, r) = get_bytes r; (s, r) = get_bytes r
      in (\<lparr>to_Asset = a, to_Value = v, to_Script = s\<rparr>, r))"

lemma get_put_out: "get_out (put_out t @ r) = (t, r)"
  by (simp add: get_out_def put_out_def get_put_bytes)

definition put_tx :: "tx \<Rightarrow> nat list" where
  "put_tx t =
     nat (tx_Version t) # nat (- tx_Version t) # put_list put_in (tx_Inputs t) @ put_list put_out (tx_Outputs t)"

definition get_tx :: "nat list \<Rightarrow> tx" where
  "get_tx ns =
     (let (ins, r) = get_list get_in (tl (tl ns)); (outs, r) = get_list get_out r
      in \<lparr>tx_Version = int (hd ns) - int (hd (tl ns)), tx_Inputs = ins, tx_Outputs = outs\<rparr>)"

lemma get_put_tx: "get_tx (put_tx t) = t"
  using get_put_list [where rd = get_out and wr = put_out and r = "[]", OF get_put_out]
  by (simp add: get_tx_def put_tx_def get_put_list [OF get_put_in])

definition demo_lib :: elements_lib where
  "demo_lib =
     \<lparr>el_ToHex = (\<lambda>t. Some (unary (put_tx t))), el_NewTxFromHex = (\<lambda>h. Some (get_tx (read_unary 0 h))),
      el_ValueToBytes = (\<lambda>v. Some (1 # rev (le8 v))), el_TxIDToBytes = hex_DecodeString\<rparr>"

lemma demo_value_law: "value_law demo_lib"
  by (simp add: value_law_def demo_lib_def)

lemma demo_codec_law: "codec_law demo_lib"
  by (auto simp: codec_law_def demo_lib_def read_unary_unary get_put_tx)

text \<open>A node whose wallet holds one coin and signs by returning the transaction as it is.\<close>

definition demo_rpc :: node_rpc where
  "demo_rpc =
     \<lparr>rpc_listunspent = Some [\<lparr>wu_Txid = ''aa'', wu_Vout = 0, wu_Amount = 1, wu_Asset = ''bitcoin'', wu_Spendable = True\<rparr>],
      rpc_signraw = Some, rpc_getaddressinfo = (\<lambda>a. Some ('''', ''51'')), rpc_gapaddress = Some ''gap'',
      rpc_changeaddress = Some ''change''\<rparr>"

lemma demo_sign_law: "sign_law demo_lib demo_rpc"
  by (auto simp: sign_law_def demo_rpc_def)

end
