(* ===== verification/Settler_Properties.thy ===== *)
theory Settler_Properties
  imports Sample_Codec Settlement_Properties
begin

text \<open>
  Properties of the settler: the transaction it broadcasts satisfies both covenants, the fills it
  chooses can be planned, its funding balances, and what its discovery loop finds.
\<close>

section \<open>The joint settlement transaction\<close>

text \<open>C2: a cross the settler broadcasts satisfies both covenants: under the library's encoding and round-trip laws and a wallet that
  only signs, the transaction sent spends the two covenant outpoints at inputs 0 and 1 with their FILL witnesses, and its outputs
  satisfy both FILL leaves, each maker credited at least the rounded-up price of what was taken and every remainder re-locked
  under the same covenant.\<close>

theorem settled_cross_accepted:
  assumes "value_law lib" "codec_law lib" "sign_law lib rpc" "na_Funder asm = Some (NodeFunder_fee_funder lib f rpc)"
    "mt_RestingCovenant m = Some ta" "mt_IncomingCovenant m = Some tb"
    "settler_orderFromTerms ta = Inr (oA, uA)" "settler_orderFromTerms tb = Inr (oB, uB)"
    "Handle cr lib asm bc m lA fA lB fB = Inr txid"
  shows "\<exists>raw t js. bc raw = Some txid \<and> el_NewTxFromHex lib raw = Some t \<and>
    PlanJointSettlement cr oA lA fA oB lB fB = Inr js \<and>
    fill_leaf_accepts oA (leg_OrderSPK (Leg0 js)) lA 0 (tx_Outputs t) \<and>
    fill_leaf_accepts oB (leg_OrderSPK (Leg1 js)) lB 1 (tx_Outputs t) \<and>
    ti_Witness (tx_Inputs t ! 0) = leg_Witness (Leg0 js) \<and> ti_Witness (tx_Inputs t ! 1) = leg_Witness (Leg1 js) \<and>
    el_TxIDToBytes lib (u_Txid uA) = Some (ti_Hash (tx_Inputs t ! 0)) \<and> ti_Index (tx_Inputs t ! 0) = u_Vout uA \<and>
    el_TxIDToBytes lib (u_Txid uB) = Some (ti_Hash (tx_Inputs t ! 1)) \<and> ti_Index (tx_Inputs t ! 1) = u_Vout uB"
proof -
  from assms(5-9) obtain js raw where js: "PlanJointSettlement cr oA lA fA oB lB fB = Inr js"
    and asm: "Assemble lib asm \<lparr>jp_JointSettlement = Some js, jp_In0 = uA, jp_In1 = uB\<rparr> = Inr raw" and bc: "bc raw = Some txid"
    by (auto simp: Handle_def settler_Plan_def split: sum.splits option.splits)
  have funder: "na_Funder asm = Some \<lparr>ff_GapSPK = freshUnconfSPK rpc (rpc_gapaddress rpc),
      ff_FundAndSign = (\<lambda>(lib, f, rpc). NodeFunder_FundAndSign lib f rpc) (lib, f, rpc)\<rparr>"
    using assms(4) by (simp add: NodeFunder_fee_funder_def)
  from node_funding.assembled_accepted [OF _ _ _ funder js _ , of "\<lparr>jp_JointSettlement = Some js, jp_In0 = uA, jp_In1 = uB\<rparr>" raw]
    asm assms(1-3) js bc show ?thesis by auto
qed

lemma update4:
  "replicate 4 x = [x, x, x, x]" "[a, b, c, d][2 := x] = [a, b, x, d]" "[a, b, c, d][3 := x] = [a, b, c, x]"
  by (simp_all add: numeral_eq_Suc)

text \<open>The outputs can always be placed when the fee asset is not one of the assets sold.\<close>

lemma buildCovenantOutputs_ok:
  assumes "PlanJointSettlement cr oA lA fA oB lB fB = Inr js" "value_law lib" "gap \<noteq> None \<or> GapSlots js = []"
    "na_Bitcoin a \<noteq> AssetA oA" "na_Bitcoin a \<noteq> AssetA oB"
  shows "\<exists>outs g. buildCovenantOutputs lib a js gap = Inr (outs, g)"
proof -
  from assms(1) obtain pA pB where plans: "PlanFill cr oA lA fA 0 = Inr pA" "PlanFill cr oB lB fB 1 = Inr pB"
    and js: "Leg0 js = mk_leg oA pA ([op1, 0x20] @ MakerProg oA) fB" "Leg1 js = mk_leg oB pB ([op1, 0x20] @ MakerProg oB) fA"
      "MinOutputs js = 4" "GapSlots js = (if fA = lA then [1] else []) @ (if fB = lB then [3] else [])"
    by (auto simp: PlanJointSettlement_Inr)
  note fields = PlanFill_fields [OF plans(1)] PlanFill_fields [OF plans(2)]
  have gap: "fA = lA \<or> fB = lB \<Longrightarrow> gap \<noteq> None" using assms(3) js(4) by auto
  have val: "value_bytes lib v = Inr (1 # rev (le8 v))" for v using assms(2) by (simp add: value_bytes_def value_law_def)
  have "\<exists>s0 g0. place_leg lib a gap (Leg0 js) (replicate 4 None, 0) =
      Inr ([Some (explicit_out (AssetB oA) fB ([op1, 0x20] @ MakerProg oA)), Some s0, None, None], g0)"
    using gap assms(4) by (auto simp: place_leg_def Let_def js(1) mk_leg_def fields val GapAsset_def explicit_out_def
        assetCommit_def update4)
  then obtain s0 g0 where first: "place_leg lib a gap (Leg0 js) (replicate 4 None, 0) =
      Inr ([Some (explicit_out (AssetB oA) fB ([op1, 0x20] @ MakerProg oA)), Some s0, None, None], g0)" by blast
  have "\<exists>s1 g1. place_leg lib a gap (Leg1 js) ([x, y, None, None], g0) =
      Inr ([x, y, Some (explicit_out (AssetB oB) fA ([op1, 0x20] @ MakerProg oB)), Some s1], g1)" for x y
    using gap assms(5) by (auto simp: place_leg_def Let_def js(2) mk_leg_def fields val GapAsset_def explicit_out_def
        assetCommit_def update4)
  then obtain s1 g1 where "place_leg lib a gap (Leg1 js)
      ([Some (explicit_out (AssetB oA) fB ([op1, 0x20] @ MakerProg oA)), Some s0, None, None], g0) =
      Inr ([Some (explicit_out (AssetB oA) fB ([op1, 0x20] @ MakerProg oA)), Some s0,
        Some (explicit_out (AssetB oB) fA ([op1, 0x20] @ MakerProg oB)), Some s1], g1)" by blast
  with first show ?thesis by (simp add: buildCovenantOutputs_def js(3))
qed

text \<open>Two covenant orders that cross: the sample ask, and one that sells the quote asset back at the same price.\<close>

definition counter_terms :: covenant_terms where
  "counter_terms =
     ask_terms\<lparr>ct_CovenantTxid := hex_EncodeToString (replicate 32 11), ct_AssetA := ct_AssetB ask_terms,
       ct_AssetB := ct_AssetA ask_terms, ct_RateNum := 1, ct_RateDen := 2\<rparr>"

definition counter_order :: order where
  "counter_order = ask_order\<lparr>AssetA := AssetB ask_order, AssetB := AssetA ask_order, RateNum := 1, RateDen := 2\<rparr>"

definition cross_cand :: candidate where
  "cross_cand = \<lparr>cand_key = outpointPairKey ask_terms counter_terms, cand_resting = ask_terms, cand_incoming = counter_terms\<rparr>"

definition demo_funder :: node_funder where
  "demo_funder = \<lparr>nf_bitcoin = ''btc'', nf_btcCommit = 1 # replicate 32 3, nf_feeAtoms = 500\<rparr>"

definition demo_asm :: node_assembler where
  "demo_asm =
     \<lparr>na_Bitcoin = replicate 32 3, na_GapValue = 1000, na_Funder = Some (NodeFunder_fee_funder demo_lib demo_funder demo_rpc)\<rparr>"

lemma cross_orders:
  "settler_orderFromTerms ask_terms = Inr (ask_order, \<lparr>u_Txid = ct_CovenantTxid ask_terms, u_Vout = 0\<rparr>)"
  "settler_orderFromTerms counter_terms = Inr (counter_order, \<lparr>u_Txid = ct_CovenantTxid counter_terms, u_Vout = 0\<rparr>)"
  by (simp_all add: settler_orderFromTerms_def ask_terms_def counter_terms_def ask_order_def counter_order_def hex32_def
      hex_Decode_Encode reject_if_def)

lemma counter_Derive: "\<exists>tap. Derive demo_crypto counter_order = Inr tap"
  by (rule demo_Derive) (simp_all add: counter_order_def ask_order_def NUMS_def)

lemma cross_arith: "CheckArithmetic ask_order 100 = Inr ()" "CheckArithmetic counter_order 200 = Inr ()"
  by (simp_all add: CheckArithmetic_iff ask_order_def counter_order_def)

lemma cross_prices: "CeilPrice 60 2 1 = 120" "CeilPrice 120 1 2 = 60"
  by (simp_all add: u64_eq CeilPrice_exact ceil_div_def)

lemma cross_valid: "valid_cross ask_terms counter_terms 100 200 60 120"
  by (simp add: valid_cross_def ask_terms_def counter_terms_def cross_prices)

lemma cross_plan: "\<exists>js. PlanJointSettlement demo_crypto ask_order 100 60 counter_order 200 120 = Inr js"
proof -
  obtain t1 t2 where "Derive demo_crypto ask_order = Inr t1" "Derive demo_crypto counter_order = Inr t2"
    using ask_Derive counter_Derive by blast
  moreover have "AssetA ask_order = AssetB counter_order" "AssetB ask_order = AssetA counter_order"
    by (simp_all add: counter_order_def)
  ultimately show ?thesis using valid_cross_plan [OF cross_orders _ _ _ _ cross_arith cross_valid] by blast
qed

lemma one_coin: "coinsToAtoms 1 = 100000000"
proof -
  have "nat_bits (100000000 * 2 ^ 128) = 155" by (simp add: nat_bits.simps)
  then have "f64_div 100000000 1 = 100000000" by (simp add: f64_div_def Let_def round_half_even_def)
  moreover have "\<lfloor>(200000001 :: rat) / 2\<rfloor> = 100000000" by (rule floor_unique) simp_all
  ultimately show ?thesis by (simp add: coinsToAtoms_def)
qed

lemma demo_funds:
  assumes "g + 500 \<le> 100000000"
  shows "\<exists>h'. NodeFunder_FundAndSign demo_lib demo_funder demo_rpc h g = Inr h'"
  using assms
  by (simp add: demo_funder_def NodeFunder_FundAndSign_def demo_lib_def demo_rpc_def selectBitcoin_def spendable_coins_def one_coin
      strings_ToLower_def char_lower_def fund_input_def change_fee_def fund_outputs_def freshUnconfSPK_def addrSPK_def
      value_bytes_def serialize_def unary_def put_tx_def Let_def from_hex_char_def)

lemma demo_lib_simps:
  "el_ToHex demo_lib t = Some (unary (put_tx t))" "el_NewTxFromHex demo_lib (unary (put_tx t)) = Some t"
  "el_TxIDToBytes demo_lib (hex_EncodeToString bs) = Some bs"
  by (simp_all add: demo_lib_def read_unary_unary get_put_tx hex_Decode_Encode)

lemma cross_handled: "\<exists>raw. Handle demo_crypto demo_lib demo_asm Some (cand_match cross_cand) 100 60 200 120 = Inr raw"
proof -
  obtain js where js: "PlanJointSettlement demo_crypto ask_order 100 60 counter_order 200 120 = Inr js" using cross_plan by blast
  then have gaps: "GapSlots js = []" by (auto simp: PlanJointSettlement_Inr)
  let ?p = "\<lparr>jp_JointSettlement = Some js, jp_In0 = \<lparr>u_Txid = ct_CovenantTxid ask_terms, u_Vout = 0\<rparr>,
     jp_In1 = \<lparr>u_Txid = ct_CovenantTxid counter_terms, u_Vout = 0\<rparr>\<rparr>"
  have plan: "settler_Plan demo_crypto (cand_match cross_cand) 100 60 200 120 = Inr ?p"
    by (simp add: settler_Plan_def cand_match_def cross_cand_def cross_orders js)
  obtain outs g where build: "buildCovenantOutputs demo_lib demo_asm js None = Inr (outs, g)"
    using buildCovenantOutputs_ok [OF js demo_value_law, of None demo_asm] gaps
    by (auto simp: demo_asm_def ask_order_def counter_order_def replicate_eq_replicate)
  have "unat g \<le> 2000" using buildCovenantOutputs_accepted(4) [OF js demo_value_law build] by (simp add: demo_asm_def)
  then have g: "g + 500 \<le> 100000000" by (simp add: u64_le u64_unat_add)
  obtain t0 where skel: "skeleton demo_lib ?p outs = Inr t0" and in0: "\<exists>i j. tx_Inputs t0 = [i, j]"
    by (simp add: skeleton_def covInput_def ask_terms_def counter_terms_def demo_lib_simps)
  obtain h' where fund: "NodeFunder_FundAndSign demo_lib demo_funder demo_rpc (unary (put_tx t0)) g = Inr h'"
    using demo_funds [OF g] by blast
  obtain ftx where ftx: "el_NewTxFromHex demo_lib h' = Some ftx" "extends t0 ftx"
    using NodeFunder_appends [OF demo_codec_law demo_sign_law demo_lib_simps(2) fund] by blast
  from ftx(2) in0 obtain i j rest where "tx_Inputs ftx = i # j # rest"
    by (cases "tx_Inputs ftx"; cases "tl (tx_Inputs ftx)") (auto simp: extends_def)
  then obtain t where inj: "inject_witnesses js ftx = Inr t" by (simp add: inject_witnesses_def)
  have "Assemble demo_lib demo_asm ?p = Inr (unary (put_tx t))"
    using build skel fund ftx(1) inj gaps
    by (simp add: Assemble_def serialize_def demo_lib_simps demo_asm_def NodeFunder_fee_funder_def)
  with plan show ?thesis by (simp add: Handle_def)
qed

theorem settled_cross_accepted_witness:
  "\<exists>raw t js. el_NewTxFromHex demo_lib raw = Some t \<and>
    PlanJointSettlement demo_crypto ask_order 100 60 counter_order 200 120 = Inr js \<and>
    fill_leaf_accepts ask_order (leg_OrderSPK (Leg0 js)) 100 0 (tx_Outputs t) \<and>
    fill_leaf_accepts counter_order (leg_OrderSPK (Leg1 js)) 200 1 (tx_Outputs t)"
proof -
  obtain raw where h: "Handle demo_crypto demo_lib demo_asm Some (cand_match cross_cand) 100 60 200 120 = Inr raw"
    using cross_handled by blast
  have f: "na_Funder demo_asm = Some (NodeFunder_fee_funder demo_lib demo_funder demo_rpc)" by (simp add: demo_asm_def)
  have m: "mt_RestingCovenant (cand_match cross_cand) = Some ask_terms"
      "mt_IncomingCovenant (cand_match cross_cand) = Some counter_terms" by (simp_all add: cand_match_def cross_cand_def)
  from settled_cross_accepted [OF demo_value_law demo_codec_law demo_sign_law f m cross_orders h] show ?thesis by blast
qed

section \<open>Choice of the fills\<close>

text \<open>The fills the settler computes can always be planned: when both covenants derive, trade against each other and pass the
  arithmetic guard on their locked amounts, every answer of the fill search gives a joint plan, and each maker receives at
  least the rounded-up price of what is taken from its order.\<close>

lemma computed_fills_plan:
  assumes "computeFills m lA lB = Inr (fA, fB)" "mt_RestingCovenant m = Some ta" "mt_IncomingCovenant m = Some tb"
    "settler_orderFromTerms ta = Inr (oA, uA)" "settler_orderFromTerms tb = Inr (oB, uB)"
    "AssetA oA = AssetB oB" "AssetB oA = AssetA oB" "Derive cr oA = Inr tapA" "Derive cr oB = Inr tapB"
    "CheckArithmetic oA lA = Inr ()" "CheckArithmetic oB lB = Inr ()"
  shows "(\<exists>jp. settler_Plan cr m lA fA lB fB = Inr jp) \<and>
    ceil_div (unat fA * unat (RateNum oA)) (unat (RateDen oA)) \<le> unat fB \<and>
    ceil_div (unat fB * unat (RateNum oB)) (unat (RateDen oB)) \<le> unat fA"
proof -
  have v: "valid_cross ta tb lA lB fA fB" by (rule computeFills_valid [OF assms(1-3)])
  from valid_cross_plan [OF assms(4-11) v] obtain js where js: "PlanJointSettlement cr oA lA fA oB lB fB = Inr js" by blast
  then have "\<exists>jp. settler_Plan cr m lA fA lB fB = Inr jp" using assms(2-5) by (simp add: settler_Plan_def)
  moreover from js obtain pA pB where "PlanFill cr oA lA fA 0 = Inr pA" "PlanFill cr oB lB fB 1 = Inr pB"
      "fp_RequiredB pA \<le> fB" "fp_RequiredB pB \<le> fA"
    by (auto simp: PlanJointSettlement_Inr)
  ultimately show ?thesis using PlanFill_floor by (metis u64_le)
qed

lemma cross_start: "start_of 100 200 ask_terms = 100"
  using largestFillCoveredBy_unwrapped [of 2 1 200 100] by (simp add: start_of_def ask_terms_def Let_def u64_eq)

lemma cross_prices_whole: "CeilPrice 100 2 1 = 200" "CeilPrice 200 1 2 = 100"
  by (simp_all add: u64_eq CeilPrice_exact ceil_div_def)

lemma cross_computed: "computeFills (cand_match cross_cand) 100 200 = Inr (100, 200)"
proof -
  have "valid_cross ask_terms counter_terms 100 200 100 200"
    by (simp add: valid_cross_def ask_terms_def counter_terms_def cross_prices_whole)
  then have "scan 256 (\<lambda>fa. [CeilPrice fa (ct_RateNum ask_terms) (ct_RateDen ask_terms), 200])
      (valid_cross ask_terms counter_terms 100 200) 100 = Some (100, 200)"
    using scan.simps(2) [of 255] by (simp add: ask_terms_def cross_prices_whole del: scan.simps)
  then show ?thesis
    by (simp add: computeFills_def cand_match_def cross_cand_def cross_start) (simp add: ask_terms_def counter_terms_def)
qed

text \<open>As long as budget times denominator fits 64 bits, the search starts at the largest fill its budget covers: the result never
  exceeds the available amount, its price is within the budget, and no larger fill within the available amount is affordable.\<close>

lemma largest_fill_exact:
  assumes "num \<noteq> 0" "den \<noteq> 0" "unat budget * unat den < 2 ^ 64" "unat budget < 2 ^ 64 - 1"
  shows "largestFillCoveredBy budget num den cur \<le> cur \<and> CeilPrice (largestFillCoveredBy budget num den cur) num den \<le> budget \<and>
    (\<forall>g. g \<le> cur \<and> CeilPrice g num den \<le> budget \<longrightarrow> g \<le> largestFillCoveredBy budget num den cur)"
proof -
  let ?f = "largestFillCoveredBy budget num den cur"
  have f: "unat ?f = min (unat cur) (unat budget * unat den div unat num)" by (rule largestFillCoveredBy_unwrapped [OF assms(1-3)])
  have pos: "0 < unat num" using assms(1) by (simp add: unat_u64_pos)
  have "unat ?f * unat num \<le> unat budget * unat den div unat num * unat num" using f by simp
  also have "\<dots> \<le> unat budget * unat den" by (rule div_times_less_eq_dividend)
  finally have "CeilPrice ?f num den \<le> budget" by (rule CeilPrice_covered [OF assms(2)])
  moreover have "g \<le> ?f" if g: "g \<le> cur" "CeilPrice g num den \<le> budget" for g
  proof -
    have "unat g * unat num \<le> unat budget * unat den"
      using CeilPrice_uncovered [OF assms(2) _ assms(4), of g num] g(2) by (meson leD linorder_le_less_linear)
    then have "unat g \<le> unat budget * unat den div unat num" using pos by (simp add: less_eq_div_iff_mult_less_eq)
    with g(1) f show ?thesis by (simp add: u64_le)
  qed
  ultimately show ?thesis using f by (simp add: u64_le)
qed

text \<open>Beyond 64 bits the product wraps and the search starts too low: with a budget of two to the 63 and a price of one half, an
  available amount of 5 costs 3 and is affordable, but the computed fill is 0.\<close>

lemma largest_fill_wraps:
  "largestFillCoveredBy 9223372036854775808 1 2 5 = 0 \<and> CeilPrice 5 1 2 = 3 \<and> CeilPrice 5 1 2 \<le> 9223372036854775808"
proof -
  have start: "(9223372036854775808 * 2 :: u64) div 1 = 0" by simp
  have stop: "back_off 9223372036854775808 1 2 0 = 0" by (subst back_off.simps) simp
  have "largestFillCoveredBy 9223372036854775808 1 2 5 = 0"
    unfolding largestFillCoveredBy_def Let_def start stop by simp
  moreover have "CeilPrice 5 1 2 = 3" by (simp add: u64_eq CeilPrice_exact ceil_div_def)
  ultimately show ?thesis by simp
qed

section \<open>Funding\<close>

text \<open>The wallet funds a settlement exactly: with a wallet worth less than two to the 64 atoms, coin selection fails just when
  the spendable coins are worth less than the gap outputs and the fee, and otherwise the selected coins cover gap, change and fee
  to the atom, pay at least the configured fee, and never create dust change.\<close>

lemma funding_balances:
  assumes "rpc_listunspent rpc = Some raw" "spendable_coins f raw \<noteq> []" "atoms_of (spendable_coins f raw) < 2 ^ 64"
    "unat g + unat (nf_feeAtoms f) < 2 ^ 64"
  shows "if atoms_of (spendable_coins f raw) < unat g + unat (nf_feeAtoms f)
    then selectBitcoin f rpc (g + nf_feeAtoms f) = Inl InsufficientFunds
    else \<exists>us s change fee. selectBitcoin f rpc (g + nf_feeAtoms f) = Inr (us, s) \<and> change_fee f s g = (change, fee) \<and>
      mset us \<subseteq># mset (spendable_coins f raw) \<and> atoms_of us = unat g + unat change + unat fee \<and>
      nf_feeAtoms f \<le> fee \<and> (change = 0 \<or> dustFold \<le> change)"
proof -
  have target: "unat (g + nf_feeAtoms f) = unat g + unat (nf_feeAtoms f)"
    using assms(4) by (intro u64_unat_add) simp
  show ?thesis
  proof (cases "atoms_of (spendable_coins f raw) < unat g + unat (nf_feeAtoms f)")
    case True
    then show ?thesis using selectBitcoin_short [OF assms(1), of f "g + nf_feeAtoms f"] target by simp
  next
    case False
    with selectBitcoin_enough [OF assms(1,3,2)] target obtain us s where
      sel: "selectBitcoin f rpc (g + nf_feeAtoms f) = Inr (us, s)" by (metis not_less)
    note ok = selectBitcoin_ok [OF assms(1,3) sel]
    obtain change fee where cf: "change_fee f s g = (change, fee)" by fastforce
    have "g + nf_feeAtoms f \<le> s" using ok by blast
    from change_fee_balance [OF assms(4) this cf] ok sel cf False show ?thesis by auto
  qed
qed

section \<open>Discovery\<close>

lemma cross_candidate_Some:
  "cross_candidate a b = Some c \<longleftrightarrow>
     (\<exists>ca cb. GetCovenant a = Some ca \<and> GetCovenant b = Some cb \<and> crossesOffers a b \<and>
        (TradeDir a = TRADE_DIR_BUY) \<noteq> (TradeDir b = TRADE_DIR_BUY) \<and> OfferAsset a = WantAsset b \<and> WantAsset a = OfferAsset b \<and>
        c = \<lparr>cand_key = outpointPairKey ca cb, cand_resting = ca, cand_incoming = cb\<rparr>)"
  by (auto simp: cross_candidate_def simp del: GetCovenant_Some split: option.splits)

lemma offer_pairs_filter: "(a, b) \<in> set (offer_pairs xs) \<Longrightarrow> P a \<Longrightarrow> P b \<Longrightarrow> (a, b) \<in> set (offer_pairs (filter P xs))"
  by (induction xs) auto

lemma map_filter_mem: "y \<in> set (List.map_filter f xs) \<longleftrightarrow> (\<exists>x\<in>set xs. f x = Some y)"
  by (force simp: List.map_filter_def)

lemma crossesForPair_mem: "c \<in> set (crossesForPair offers) \<Longrightarrow> \<exists>a\<in>set offers. \<exists>b\<in>set offers. cross_candidate a b = Some c"
  using keep_new_subset unfolding crossesForPair_def
  by (fastforce simp: map_filter_mem dest!: offer_pairs_mem)

text \<open>Discovery is exact: the candidates of a market are distinct outpoint pairs of covenant offers on opposite sides that trade
  against each other at crossing prices, and every such pair of listed offers is represented; a market whose offers all passed
  the validator has no candidates at all, because the validator accepts covenant offers on the sell side only.\<close>

lemma discovery_exact:
  "distinct (map cand_key (crossesForPair offers)) \<and>
   (\<forall>c\<in>set (crossesForPair offers). \<exists>a\<in>set offers. \<exists>b\<in>set offers.
      GetCovenant a = Some (cand_resting c) \<and> GetCovenant b = Some (cand_incoming c) \<and> crossesOffers a b \<and>
      (TradeDir a = TRADE_DIR_BUY) \<noteq> (TradeDir b = TRADE_DIR_BUY) \<and> OfferAsset a = WantAsset b \<and> WantAsset a = OfferAsset b) \<and>
   (\<forall>i j c. i < j \<and> j < length offers \<and> cross_candidate (offers ! i) (offers ! j) = Some c \<longrightarrow>
      cand_key c \<in> cand_key ` set (crossesForPair offers)) \<and>
   (list_all offer_wf offers \<longrightarrow> crossesForPair offers = [])"
proof (intro conjI ballI allI impI)
  show "distinct (map cand_key (crossesForPair offers))" unfolding crossesForPair_def by (rule keep_new_keys)
next
  fix c
  assume "c \<in> set (crossesForPair offers)"
  from crossesForPair_mem [OF this] show "\<exists>a\<in>set offers. \<exists>b\<in>set offers.
      GetCovenant a = Some (cand_resting c) \<and> GetCovenant b = Some (cand_incoming c) \<and> crossesOffers a b \<and>
      (TradeDir a = TRADE_DIR_BUY) \<noteq> (TradeDir b = TRADE_DIR_BUY) \<and> OfferAsset a = WantAsset b \<and> WantAsset a = OfferAsset b"
    unfolding cross_candidate_Some by fastforce
next
  fix i j c
  assume c: "i < j \<and> j < length offers \<and> cross_candidate (offers ! i) (offers ! j) = Some c"
  then have "(offers ! i, offers ! j) \<in> set (offer_pairs (filter (\<lambda>ofr. GetCovenant ofr \<noteq> None) offers))"
    by (intro offer_pairs_filter offer_pairs_nth) (auto simp: cross_candidate_Some simp del: GetCovenant_Some)
  with c have "c \<in> set (List.map_filter (\<lambda>(a, b). cross_candidate a b) (offer_pairs (filter (\<lambda>ofr. GetCovenant ofr \<noteq> None) offers)))"
    by (auto simp: map_filter_mem intro!: bexI [of _ "(offers ! i, offers ! j)"])
  then show "cand_key c \<in> cand_key ` set (crossesForPair offers)"
    unfolding crossesForPair_def by (rule keep_new_all) simp
next
  assume wf: "list_all offer_wf offers"
  have sell: "TradeDir a = TRADE_DIR_SELL" if "a \<in> set offers" "GetCovenant a = Some ct" for a ct
    using wf that unfolding list_all_iff offer_wf_def covenant_wf_def by blast
  have "c \<notin> set (crossesForPair offers)" for c
    using crossesForPair_mem [of c offers] sell unfolding cross_candidate_Some by (metis trade_dir.distinct(5))
  then show "crossesForPair offers = []" by (metis list.set_intros(1) neq_Nil_conv)
qed

text \<open>Two covenant offers that cross on the wire, as a relay without the validator would list them.\<close>

definition counter_offer :: offer where
  "counter_offer = bid_offer\<lparr>BaseAmount := 100, WantAmount := 100, OfferAmount := 200, Settlement := Covenant counter_terms\<rparr>"

end
