(* ===== verification/Relay_Rest.thy ===== *)
theory Relay_Rest
  imports Relay_Api
begin

text \<open>
  The REST side of the relay's API (\<open>api/server.go\<close>): the request router, the handlers, and the
  market-data endpoints with their OHLCV buckets. A request body is the message it decodes to, with
  \<open>None\<close> for one that does not decode or is too long; prices are the exact values of the doubles.
\<close>

section \<open>Strings of a request\<close>

fun strings_Split :: "char \<Rightarrow> string \<Rightarrow> string list" where
  "strings_Split sep [] = [[]]"
| "strings_Split sep (c # cs) =
     (if c = sep then [] # strings_Split sep cs
      else (case strings_Split sep cs of [] \<Rightarrow> [[c]] | p # ps \<Rightarrow> (c # p) # ps))"

definition strings_TrimPrefix :: "string \<Rightarrow> string \<Rightarrow> string" where
  "strings_TrimPrefix s p = (if HasPrefix s p then drop (length p) s else s)"

text \<open>White space at the end of a string, read backwards byte by byte.\<close>

fun trailing_space :: "nat list \<Rightarrow> nat" where
  "trailing_space [] = 0"
| "trailing_space (a # as) =
     (if a \<in> {9, 10, 11, 12, 13, 32} then 1
      else case as of
          [] \<Rightarrow> 0
        | b # bs \<Rightarrow>
            if b = 194 \<and> a \<in> {133, 160} then 2
            else (case bs of [] \<Rightarrow> 0 | c # _ \<Rightarrow> if leading_space [c, b, a] = 3 then 3 else 0))"

function trim_trailing :: "string \<Rightarrow> string" where
  "trim_trailing s =
     (if 0 < trailing_space (rev (char_codes s)) \<and> s \<noteq> []
      then trim_trailing (take (length s - trailing_space (rev (char_codes s))) s) else s)"
  by pat_completeness auto
termination
  by (relation "measure length") auto

declare trim_trailing.simps [simp del]

definition strings_TrimSpace :: "string \<Rightarrow> string" where
  "strings_TrimSpace s = trim_trailing (trim_leading s)"

definition isTruthy :: "string \<Rightarrow> bool" where
  "isTruthy v \<longleftrightarrow> strings_ToLower (strings_TrimSpace v) \<in> {''1'', ''true'', ''yes'', ''on''}"

definition parse_digits :: "string \<Rightarrow> int option" where
  "parse_digits ds =
     (if ds = [] \<or> \<not> list_all (\<lambda>d. (48 :: int) \<le> of_char d \<and> of_char d \<le> (57 :: int)) ds then None
      else Some (foldl (\<lambda>n d. 10 * n + (of_char d - 48)) 0 ds))"

text \<open>\<open>strconv.ParseInt\<close> in base 10 at 64 bits; \<open>strconv.Atoi\<close> is the same function.\<close>

definition ParseInt :: "string \<Rightarrow> int option" where
  "ParseInt s =
     (let (neg, ds) =
        (case s of [] \<Rightarrow> (False, s) | c # cs \<Rightarrow> if c = CHR ''-'' then (True, cs) else if c = CHR ''+'' then (False, cs) else (False, s))
      in case parse_digits ds of
           None \<Rightarrow> None
         | Some n \<Rightarrow>
             if neg then (if n \<le> 9223372036854775808 then Some (- n) else None)
             else (if n < 9223372036854775808 then Some n else None))"

record request =
  hr_Method :: string
  hr_Path :: string
  hr_Query :: "string \<Rightarrow> string"
  hr_ForwardedFor :: string
  hr_RemoteAddr :: string

definition clientIP :: "request \<Rightarrow> string" where
  "clientIP r =
     (if hr_ForwardedFor r \<noteq> ''''
      then strings_TrimSpace (takeWhile (\<lambda>c. c \<noteq> CHR '','') (hr_ForwardedFor r))
      else if CHR '':'' \<in> set (hr_RemoteAddr r)
      then rev (tl (dropWhile (\<lambda>c. c \<noteq> CHR '':'') (rev (hr_RemoteAddr r))))
      else hr_RemoteAddr r)"

section \<open>Trades and candles\<close>

record candle =
  cd_T :: int
  cd_O :: rat
  cd_H :: rat
  cd_L :: rat
  cd_C :: rat
  cd_V :: u64

definition time_unix :: "time \<Rightarrow> int" where
  "time_unix t = t div Second"

definition bucket_start :: "int \<Rightarrow> trade \<Rightarrow> int" where
  "bucket_start interval t = (time_unix (tr_TS t) sdiv interval) * interval"

definition add_trade ::
  "int \<Rightarrow> trade \<Rightarrow> (int, candle) gomap \<times> int list \<Rightarrow> (int, candle) gomap \<times> int list" where
  "add_trade interval t st =
     (case st of (buckets, order) \<Rightarrow>
        (let b = bucket_start interval t;
             p = tr_Price t;
             (cd, order) =
               (case map_of buckets b of
                  Some cd \<Rightarrow> (cd, order)
                | None \<Rightarrow> (\<lparr>cd_T = b, cd_O = p, cd_H = p, cd_L = p, cd_C = p, cd_V = 0\<rparr>, order @ [b]));
             cd = (if cd_H cd < p then cd\<lparr>cd_H := p\<rparr> else cd);
             cd = (if p < cd_L cd then cd\<lparr>cd_L := p\<rparr> else cd);
             cd = cd\<lparr>cd_C := p, cd_V := cd_V cd + tr_Size t\<rparr>
         in (AList.update b cd buckets, order)))"

definition candles :: "int \<Rightarrow> int \<Rightarrow> trade list \<Rightarrow> candle list" where
  "candles interval limit trds =
     (case fold (add_trade interval) trds ([], []) of (buckets, order) \<Rightarrow>
        (let out = map (\<lambda>b. the (map_of buckets b)) order in
         if limit < int (length out) then drop (length out - nat limit) out else out))"

definition query_limit :: "int \<Rightarrow> request \<Rightarrow> int" where
  "query_limit dflt r =
     (case ParseInt (hr_Query r ''limit'') of Some v \<Rightarrow> if 0 < v \<and> v \<le> 1000 then v else dflt | None \<Rightarrow> dflt)"

definition query_interval :: "request \<Rightarrow> int" where
  "query_interval r =
     (case ParseInt (hr_Query r ''interval'') of
        Some v \<Rightarrow> if 60 \<le> v \<and> v \<le> 86400 * 7 then v else 3600
      | None \<Rightarrow> 3600)"

section \<open>Handlers\<close>

record trade_json =
  tj_Ts :: int
  tj_Price :: rat
  tj_Size :: u64

datatype http_reply =
    HttpErr nat api_error | HttpStatus order_status | HttpBook "asset_pair option" "offer list"
  | HttpMarkets "market list" | HttpLift string bytes
  | HttpTrades asset_pair "trade_json list" | HttpCandles asset_pair int "candle list"

definition handleTrades :: "request \<Rightarrow> asset_pair \<Rightarrow> server \<Rightarrow> http_reply" where
  "handleTrades r p sv =
     HttpTrades p (map (\<lambda>t. \<lparr>tj_Ts = time_unix (tr_TS t), tj_Price = tr_Price t, tj_Size = tr_Size t\<rparr>)
       (TradesFor (Some p) (query_limit 100 r) (sv_store sv)))"

definition handleCandles :: "request \<Rightarrow> asset_pair \<Rightarrow> server \<Rightarrow> http_reply" where
  "handleCandles r p sv =
     HttpCandles p (query_interval r) (candles (query_interval r) (query_limit 168 r) (TradesFor (Some p) 0 (sv_store sv)))"

definition handleOrderbook :: "api_call \<Rightarrow> request \<Rightarrow> server \<Rightarrow> http_reply" where
  "handleOrderbook tk r sv =
     (if hr_Method r \<noteq> ''GET'' then HttpErr 405 ApiMethod
      else case strings_Split CHR ''/'' (strings_TrimPrefix (hr_Path r) ''/v1/market/'') of
          [base, quote, what] \<Rightarrow>
            if base = '''' \<or> quote = '''' then HttpErr 404 ApiPath
            else
              (let p = \<lparr>BaseAsset = base, QuoteAsset = quote, PairConfidential = False\<rparr> in
               if what = ''orderbook''
               then HttpBook (Some p)
                 (liftableOffers sv (tk_now tk) (SnapshotPair (Some p) (isTruthy (hr_Query r ''confidential'')) (sv_store sv)))
               else if what = ''trades'' then handleTrades r p sv
               else if what = ''candles'' then handleCandles r p sv
               else HttpErr 404 ApiPath)
        | _ \<Rightarrow> HttpErr 404 ApiPath)"

definition handleMarkets :: "api_call \<Rightarrow> request \<Rightarrow> server \<Rightarrow> http_reply outcome" where
  "handleMarkets tk r sv =
     (if hr_Method r \<noteq> ''GET'' then Done (HttpErr 405 ApiMethod)
      else case api_markets sv (tk_now tk) of None \<Rightarrow> Panics | Some ms \<Rightarrow> Done (HttpMarkets ms))"

definition handleOwnOffers :: "request \<Rightarrow> server \<Rightarrow> http_reply" where
  "handleOwnOffers r sv =
     (let maker = hr_Query r ''maker_pubkey'' in
      if maker = '''' then HttpErr 400 ApiMakerRequired
      else HttpBook None (map e_Offer (SnapshotMaker maker (sv_store sv))))"

definition handleOfferSubmit :: "crypto \<Rightarrow> api_call \<Rightarrow> request \<Rightarrow> offer option \<Rightarrow> server \<Rightarrow> (server \<times> http_reply) outcome" where
  "handleOfferSubmit cr tk r body sv =
     (case body of
        None \<Rightarrow> Done (sv, HttpErr 400 ApiDecode)
      | Some ofr \<Rightarrow>
          (case validate cr tk ofr (clientIP r) sv of
             (sv, Inl e) \<Rightarrow>
               if e = ErrReplay then Done (sv, HttpStatus (restingStatus ofr (sv_store sv)))
               else Done (sv, HttpErr 400 (ApiInvalidOffer e))
           | (sv, Inr _) \<Rightarrow>
               (case Submit cr (tk_now tk) ofr (sv_store sv) of
                  (s, Inl e) \<Rightarrow> Done (set_store s sv, HttpErr 409 (ApiSubmit e))
                | (s, Inr k) \<Rightarrow>
                    (case cross_resting tk None ofr (set_store s sv) of
                       Panics \<Rightarrow> Panics
                     | Blocks \<Rightarrow> Blocks
                     | Done (sv, retired) \<Rightarrow>
                         Done (sv, HttpStatus
                           (if retired then cancelledStatus ofr
                            else case OrderStatusOf k (sv_store sv) of
                                Some st \<Rightarrow> st
                              | None \<Rightarrow> plain_status ofr OFFER_STATUS_FILLED 0))))))"

definition handleCancel :: "crypto \<Rightarrow> request \<Rightarrow> offer_cancel option \<Rightarrow> server \<Rightarrow> server \<times> http_reply" where
  "handleCancel cr r body sv =
     (if hr_Method r \<noteq> ''POST'' then (sv, HttpErr 405 ApiMethod)
      else case body of
          None \<Rightarrow> (sv, HttpErr 400 ApiDecode)
        | Some can \<Rightarrow>
            (case ValidateCancel cr can of
               Inl e \<Rightarrow> (sv, HttpErr 400 (ApiInvalidCancel e))
             | Inr _ \<Rightarrow>
                 (case Cancel cr can (sv_store sv) of
                    (s, Inl e) \<Rightarrow> (set_store s sv, HttpErr 409 (ApiCancel e))
                  | (s, Inr _) \<Rightarrow> (set_store s sv, HttpStatus (cancel_status can)))))"

definition expireUnattachedLift :: "time \<Rightarrow> string \<Rightarrow> key \<Rightarrow> server \<Rightarrow> server" where
  "expireUnattachedLift now sid k sv =
     (case Get k (sv_store sv) of
        None \<Rightarrow> sv
      | Some e \<Rightarrow> if GetCovenant (e_Offer e) \<noteq> None then sv else after_grace now restLiftAttachGrace (ExpireLift sid) sv)"

definition handleLift :: "api_call \<Rightarrow> request \<Rightarrow> start_lift option \<Rightarrow> server \<Rightarrow> server \<times> http_reply" where
  "handleLift tk r body sv =
     (if hr_Method r \<noteq> ''POST'' then (sv, HttpErr 405 ApiMethod)
      else case body of
          None \<Rightarrow> (sv, HttpErr 400 ApiDecode)
        | Some sl \<Rightarrow>
            (case openLift tk sl sv of
               (sv, Inl e) \<Rightarrow> (sv, HttpErr 409 e)
             | (sv, Inr a) \<Rightarrow>
                 (let sid = ss_ID (r_heap (sv_router sv) ! a) in
                  (expireUnattachedLift (tk_now tk) sid (lift_key sl) sv,
                   HttpLift sid (makerPubkeyBytes (sl_MakerPubkey sl))))))"

text \<open>What a request body decodes to as each of the messages.\<close>

record rest_body =
  rb_Offer :: "offer option"
  rb_Cancel :: "offer_cancel option"
  rb_Lift :: "start_lift option"

definition handleOffers :: "crypto \<Rightarrow> api_call \<Rightarrow> request \<Rightarrow> rest_body \<Rightarrow> server \<Rightarrow> (server \<times> http_reply) outcome" where
  "handleOffers cr tk r b sv =
     (if hr_Method r = ''POST'' then handleOfferSubmit cr tk r (rb_Offer b) sv
      else if hr_Method r = ''GET'' then Done (sv, handleOwnOffers r sv)
      else Done (sv, HttpErr 405 ApiMethod))"

text \<open>The mux: exact paths, and the subtree of \<open>/v1/market/\<close>. A path of none of them is not found.\<close>

definition Handler :: "crypto \<Rightarrow> api_call \<Rightarrow> request \<Rightarrow> rest_body \<Rightarrow> server \<Rightarrow> (server \<times> http_reply) outcome" where
  "Handler cr tk r b sv =
     (if hr_Path r = ''/v1/offers'' then handleOffers cr tk r b sv
      else if hr_Path r = ''/v1/offers/cancel'' then Done (handleCancel cr r (rb_Cancel b) sv)
      else if hr_Path r = ''/v1/markets'' then
        (case handleMarkets tk r sv of Done h \<Rightarrow> Done (sv, h) | Blocks \<Rightarrow> Blocks | Panics \<Rightarrow> Panics)
      else if HasPrefix (hr_Path r) ''/v1/market/'' then Done (sv, handleOrderbook tk r sv)
      else if hr_Path r = ''/v1/lift'' then Done (handleLift tk r (rb_Lift b) sv)
      else Done (sv, HttpErr 404 ApiPath))"

end
