(* ===== verification/Api_Invariant.thy ===== *)
theory Api_Invariant
  imports Relay_Rest Settlement_Properties Chain_Watcher Book_Deltas
begin

text \<open>
  The invariant of the running relay. \<open>serve\<close> is one step of the server: a frame, a request, a closing
  connection, a timer, a turn of a background goroutine, or a pass of one of the sweepers and
  watchers. Every step is a sequence of primitive changes (\<open>sv_prim\<close>), each of which keeps the
  invariant.
\<close>

section \<open>Steps of the server\<close>

datatype server_op =
    SvAccept | SvFrame nat "to_msg option" string | SvRest request rest_body | SvClose nat
  | SvTimer nat | SvPumpForward nat bool | SvPumpExit nat | SvForward nat nat
  | SvExpirySweep | SvDeadlineSweep | SvReorgPass chain_probe | SvWatcherPass chain_view watcher "key \<Rightarrow> time"

definition serve :: "crypto \<Rightarrow> api_call \<Rightarrow> server_op \<Rightarrow> server \<Rightarrow> server outcome" where
  "serve cr tk op sv =
     (case op of
        SvAccept \<Rightarrow> Done (fst (ws_accept sv))
      | SvFrame c fr ip \<Rightarrow> handleWS cr tk c fr ip sv
      | SvRest r b \<Rightarrow> (case Handler cr tk r b sv of Done (sv, _) \<Rightarrow> Done sv | Blocks \<Rightarrow> Blocks | Panics \<Rightarrow> Panics)
      | SvClose c \<Rightarrow>
          Done (if length (sv_conns sv) \<le> c \<or> wc_closed (sv_conns sv ! c) then sv else closeConn (tk_now tk) c sv)
      | SvTimer i \<Rightarrow> Done (timer_fires cr (tk_now tk) i sv)
      | SvPumpForward i ok \<Rightarrow> Done (pump_forward i ok sv)
      | SvPumpExit i \<Rightarrow> Done (pump_exit i sv)
      | SvForward c i \<Rightarrow> Done (if length (sv_conns sv) \<le> c then sv else forward_turn c i sv)
      | SvExpirySweep \<Rightarrow> Done (set_store (fst (SweepExpired (tk_now tk) (sv_store sv))) sv)
      | SvDeadlineSweep \<Rightarrow> Done (sv\<lparr>sv_relay := deadline_sweep cr (tk_now tk) (sv_relay sv)\<rparr>)
      | SvReorgPass probe \<Rightarrow> Done (sv\<lparr>sv_relay := reorg_pass cr (tk_now tk) probe (sv_relay sv)\<rparr>)
      | SvWatcherPass chain w clock \<Rightarrow>
          Done (set_store (fst (snd (ReconcileOnce cr chain (NewStoreBook clock) w (sv_store sv)))) sv))"

inductive serving :: "crypto \<Rightarrow> server \<Rightarrow> bool" for cr where
  serving_new: "serving cr (SetCrossSessionDeadline x (NewServer NewStore v (NewRouter d)))"
| serving_step: "serving cr sv \<Longrightarrow> serve cr tk op sv = Done sv' \<Longrightarrow> serving cr sv'"

section \<open>Runs of the book\<close>

text \<open>Store operations that insert only well-formed offers and touch no subscription.\<close>

inductive book_run :: "crypto \<Rightarrow> store \<Rightarrow> store \<Rightarrow> bool" for cr where
  run_refl: "book_run cr s s"
| run_exec: "book_run cr s s' \<Longrightarrow> book_op op \<Longrightarrow> (\<And>ofr. inserts op = Some ofr \<Longrightarrow> offer_wf ofr) \<Longrightarrow>
    book_run cr s (exec cr now op s')"

definition relay_book :: "crypto \<Rightarrow> store \<Rightarrow> bool" where
  "relay_book cr s \<longleftrightarrow> book_ok cr s \<and> offers_sat offer_wf s"

lemma relay_bookD: "relay_book cr s \<Longrightarrow> map_of (entries s) k = Some e \<Longrightarrow> offer_wf (e_Offer e)"
  by (simp add: relay_book_def offers_sat_def)

lemma exec_book_ok: "book_ok cr s \<Longrightarrow> book_ok cr (exec cr now op s)"
  by (rule prims_book_ok [OF prims_exec [where strict = False]]) simp_all

lemma book_run_relay_book: "book_run cr s s' \<Longrightarrow> relay_book cr s \<Longrightarrow> relay_book cr s'"
  by (induction rule: book_run.induct) (auto simp: relay_book_def exec_book_ok intro: exec_offers_sat offer_wf_set_outpoint)

definition sub_ids :: "store \<Rightarrow> nat list" where
  "sub_ids s = map fst (subs s)"

lemma sub_ids_frame [simp]:
  "sub_ids (remove k s) = sub_ids s" "sub_ids (put k e s) = sub_ids s" "sub_ids (set_entry k e s) = sub_ids s"
  "sub_ids (RecordTradeTx now oo n tx s) = sub_ids s" "sub_ids (RecordTrade now oo n s) = sub_ids s"
  "sub_ids (append_log r s) = sub_ids s" "sub_ids (broadcast ev s) = sub_ids s" "sub_ids (remove_all ks s) = sub_ids s"
  "sub_ids (fst (remove_interactive_keys ks s)) = sub_ids s"
  by (simp_all add: sub_ids_def subs_broadcast case_prod_beta)

lemma sub_ids_broadcast_all [simp]: "sub_ids (broadcast_all evs s) = sub_ids s"
  by (induction evs arbitrary: s) (simp_all add: broadcast_all_def)

lemma sub_ids_fields [simp]:
  "sub_ids (s\<lparr>settledNonce := m\<rparr>) = sub_ids s" "sub_ids (s\<lparr>cancelNonce := m\<rparr>) = sub_ids s" "sub_ids (s\<lparr>trades := t\<rparr>) = sub_ids s"
  "sub_ids (s\<lparr>interactiveCap := n\<rparr>) = sub_ids s" "sub_ids (s\<lparr>subBuf := i\<rparr>) = sub_ids s"
  "sub_ids (s\<lparr>tradeLog := l\<rparr>) = sub_ids s"
  by (simp_all add: sub_ids_def)

lemma exec_sub_ids: "book_op op \<Longrightarrow> sub_ids (exec cr now op s) = sub_ids s \<and> nextSub (exec cr now op s) = nextSub s"
  by (cases op)
    (auto simp: book_op_def book_op_defs Cancel_def ApplyPartialFill_def RecordSettledFill_def on_covenant_def HoldCovenantGhost_def
      ReconcileCovenantActive_def RerestCovenantRemainder_def HoldCovenantForSpend_def RemoveCovenantFilled_def Let_def
      case_prod_beta split: sum.split option.split)

lemma book_run_sub_ids: "book_run cr s s' \<Longrightarrow> sub_ids s' = sub_ids s \<and> nextSub s' = nextSub s"
  by (induction rule: book_run.induct) (simp_all add: exec_sub_ids del: exec.simps)

section \<open>The invariant\<close>

definition settled_wf :: "router \<Rightarrow> bool" where
  "settled_wf r \<longleftrightarrow> (\<forall>a<length (r_heap r). \<forall>ofr. ss_settledOffer (r_heap r ! a) = Some ofr \<longrightarrow> offer_wf ofr)"

definition relay_ok :: "crypto \<Rightarrow> relay \<Rightarrow> bool" where
  "relay_ok cr rl \<longleftrightarrow>
     relay_book cr (rl_store rl) \<and> router_ok (rl_router rl) \<and> settled_wf (rl_router rl) \<and>
     (\<forall>i wt. map_of (rl_watches rl) i = Some wt \<longrightarrow> wt_session wt < length (r_heap (rl_router rl)))"

text \<open>The pump counts are exact, and a pump drains the session it was started for.\<close>

definition pumps_for :: "string \<Rightarrow> role \<Rightarrow> server \<Rightarrow> pump list" where
  "pumps_for sid ro sv = filter (\<lambda>p. pm_sid p = sid \<and> pm_role p = ro) (sv_pumps sv)"

definition pumps_ok :: "server \<Rightarrow> bool" where
  "pumps_ok sv \<longleftrightarrow>
     (\<forall>p\<in>set (sv_pumps sv). pm_sess p < length (r_heap (sv_router sv)) \<and> pm_sid p = ss_ID (r_heap (sv_router sv) ! pm_sess p)) \<and>
     (\<forall>sid ro. pumpCount sid ro sv = int (length (pumps_for sid ro sv)))"

text \<open>The store's subscriptions are those the connections hold, each once.\<close>

definition conn_sub_ids :: "ws_conn \<Rightarrow> nat multiset" where
  "conn_sub_ids wc = mset (map snd (wc_subs wc))"

definition subs_ok :: "server \<Rightarrow> bool" where
  "subs_ok sv \<longleftrightarrow>
     sum_list (map conn_sub_ids (sv_conns sv)) = mset (sub_ids (sv_store sv)) \<and> distinct (sub_ids (sv_store sv)) \<and>
     (\<forall>i\<in>set (sub_ids (sv_store sv)). i < nextSub (sv_store sv)) \<and>
     (\<forall>c<length (sv_conns sv). gomap_ok (wc_subs (sv_conns sv ! c)) \<and> length (wc_subs (sv_conns sv ! c)) \<le> maxSubsPerConn \<and>
        (wc_closed (sv_conns sv ! c) \<longrightarrow> wc_subs (sv_conns sv ! c) = []))"

definition server_ok :: "crypto \<Rightarrow> server \<Rightarrow> bool" where
  "server_ok cr sv \<longleftrightarrow> relay_ok cr (sv_relay sv) \<and> pumps_ok sv \<and> subs_ok sv"

lemma server_okD:
  assumes "server_ok cr sv"
  shows "relay_book cr (sv_store sv)" "router_ok (sv_router sv)" "settled_wf (sv_router sv)"
    "book_ok cr (sv_store sv)"
  using assms by (simp_all add: server_ok_def relay_ok_def relay_book_def)

lemma server_ok_new: "server_ok cr (SetCrossSessionDeadline x (NewServer NewStore v (NewRouter d)))"
  by (simp add: server_ok_def relay_ok_def relay_book_def pumps_ok_def subs_ok_def NewServer_def SetCrossSessionDeadline_def
      NewRouter_def router_ok_def settled_wf_def offers_sat_def NewStore_def [THEN arg_cong, of entries] NewStore_def [THEN arg_cong, of subs] book_ok_NewStore
      pumpCount_def pumps_for_def gomap_get_def sub_ids_def gomap_ok_def)

subsection \<open>Frames\<close>

lemma server_frame [simp]:
  "sv_relay (upd_conn c f sv) = sv_relay sv" "sv_pumps (upd_conn c f sv) = sv_pumps sv"
  "sv_pumped (upd_conn c f sv) = sv_pumped sv" "length (sv_conns (upd_conn c f sv)) = length (sv_conns sv)"
  "sv_conns (set_store s sv) = sv_conns sv" "sv_pumps (set_store s sv) = sv_pumps sv" "sv_pumped (set_store s sv) = sv_pumped sv"
  "sv_conns (set_router r sv) = sv_conns sv" "sv_pumps (set_router r sv) = sv_pumps sv" "sv_pumped (set_router r sv) = sv_pumped sv"
  "sv_store (set_store s sv) = s" "sv_router (set_store s sv) = sv_router sv"
  "sv_router (set_router r sv) = r" "sv_store (set_router r sv) = sv_store sv"
  "rl_watches (sv_relay (set_store s sv)) = rl_watches (sv_relay sv)"
  "rl_watches (sv_relay (set_router r sv)) = rl_watches (sv_relay sv)"
  by (simp_all add: upd_conn_def set_store_def set_router_def)

lemma server_ok_same:
  "server_ok cr sv \<Longrightarrow> sv_relay sv' = sv_relay sv \<Longrightarrow> sv_conns sv' = sv_conns sv \<Longrightarrow> sv_pumps sv' = sv_pumps sv \<Longrightarrow>
   sv_pumped sv' = sv_pumped sv \<Longrightarrow> server_ok cr sv'"
  by (simp add: server_ok_def pumps_ok_def subs_ok_def pumpCount_def pumps_for_def)

lemma server_ok_fields [simp]:
  "server_ok cr (sv\<lparr>sv_validator := v\<rparr>) = server_ok cr sv" "server_ok cr (sv\<lparr>sv_makerConns := m\<rparr>) = server_ok cr sv"
  "server_ok cr (sv\<lparr>sv_offerOwners := ow\<rparr>) = server_ok cr sv" "server_ok cr (sv\<lparr>sv_liftActive := la\<rparr>) = server_ok cr sv"
  "server_ok cr (sv\<lparr>sv_takerConns := tc\<rparr>) = server_ok cr sv" "server_ok cr (sv\<lparr>sv_timers := ts\<rparr>) = server_ok cr sv"
  by (auto simp: server_ok_def pumps_ok_def subs_ok_def pumpCount_def pumps_for_def)

lemma upd_conn_nth: "i < length (sv_conns sv) \<Longrightarrow> sv_conns (upd_conn c f sv) ! i = (if i = c then f (sv_conns sv ! i) else sv_conns sv ! i)"
  by (simp add: upd_conn_def)

lemma server_ok_upd_conn:
  assumes "server_ok cr sv" "\<And>wc. wc_subs (f wc) = wc_subs wc" "\<And>wc. wc_closed (f wc) = wc_closed wc"
  shows "server_ok cr (upd_conn c f sv)"
proof -
  have keep: "map conn_sub_ids (sv_conns (upd_conn c f sv)) = map conn_sub_ids (sv_conns sv)"
    by (rule nth_equalityI) (simp_all add: upd_conn_nth conn_sub_ids_def assms(2))
  with assms(1) show ?thesis
    unfolding server_ok_def subs_ok_def pumps_ok_def pumpCount_def pumps_for_def by (simp add: upd_conn_nth assms(2,3))
qed

lemma server_ok_send [simp]: "server_ok cr sv \<Longrightarrow> server_ok cr (send_frame c fr sv)" "server_ok cr sv \<Longrightarrow> server_ok cr (ws_send c m sv)"
  "server_ok cr sv \<Longrightarrow> server_ok cr (sendErr c code e sv)"
  by (simp_all add: send_frame_def ws_send_def sendErr_def server_ok_upd_conn)

lemma server_ok_store:
  assumes "server_ok cr sv" "book_run cr (sv_store sv) s"
  shows "server_ok cr (set_store s sv)"
  using assms book_run_relay_book [OF assms(2)] book_run_sub_ids [OF assms(2)]
  by (simp add: server_ok_def relay_ok_def pumps_ok_def subs_ok_def pumpCount_def pumps_for_def)


text \<open>What the router may do under the server: sessions keep their address and identifier.\<close>

definition router_step :: "router \<Rightarrow> router \<Rightarrow> bool" where
  "router_step r r' \<longleftrightarrow>
     (router_ok r \<longrightarrow> router_ok r') \<and> (router_ok r \<and> settled_wf r \<longrightarrow> settled_wf r') \<and>
     (router_ok r \<longrightarrow> length (r_heap r) \<le> length (r_heap r') \<and>
       (\<forall>a<length (r_heap r). ss_ID (r_heap r' ! a) = ss_ID (r_heap r ! a)))"

lemma router_step_refl [simp]: "router_step r r"
  by (simp add: router_step_def)

lemma router_step_trans: "router_step r r' \<Longrightarrow> router_step r' r'' \<Longrightarrow> router_step r r''"
  unfolding router_step_def by (metis order_less_le_trans order_trans)

lemma server_ok_router:
  assumes "server_ok cr sv" "router_step (sv_router sv) r"
  shows "server_ok cr (set_router r sv)"
  using assms
  by (simp add: server_ok_def relay_ok_def pumps_ok_def subs_ok_def pumpCount_def pumps_for_def router_step_def)
    (meson order_less_le_trans)

lemma write_session_beyond: "\<not> a < length (r_heap r) \<Longrightarrow> write_session a s r = r"
  by (simp add: write_session_def list_update_beyond)

lemma router_step_write:
  assumes "router_ok r \<Longrightarrow> router_ok (write_session a s r)" "ss_ID s = ss_ID (r_heap r ! a)"
    "\<And>ofr. ss_settledOffer s = Some ofr \<Longrightarrow> ss_settledOffer (r_heap r ! a) = Some ofr \<or> offer_wf ofr"
  shows "router_step r (write_session a s r)"
proof (cases "a < length (r_heap r)")
  case True
  have "settled_wf r \<Longrightarrow> settled_wf (write_session a s r)"
    using assms(3) True unfolding settled_wf_def by (auto simp: nth_list_update)
  with assms True show ?thesis by (simp add: router_step_def nth_list_update)
next
  case False
  then show ?thesis by (simp add: write_session_beyond)
qed

lemma router_step_StartLift: "router_step r (fst (StartLift now i req r))"
  using router_ok_StartLift [of r now i req]
  by (auto simp: router_step_def StartLift_def Let_def settled_wf_def nth_append)

lemma router_step_Send: "router_step r (fst (Send now pick i sender c r))"
proof (cases "router_Get i r")
  case (Some a)
  have "router_step r (write_session a s r)"
    if "router_ok (write_session a s r) = router_ok (fst (Send now pick i sender c r))" "ss_ID s = ss_ID (r_heap r ! a)"
      "ss_settledOffer s = ss_settledOffer (r_heap r ! a)" for s
    using that router_ok_Send [of r now pick i sender c] by (intro router_step_write) auto
  then show ?thesis
    using Some by (cases sender) (auto simp: Send_def Let_def)
qed (simp add: Send_def)

lemma router_ok_write_same:
  assumes "router_ok r" "a < length (r_heap r)" "ss_ID s = ss_ID (r_heap r ! a)" "ss_done s = ss_done (r_heap r ! a)"
    "ss_OfferID s = ss_OfferID (r_heap r ! a)" "ss_MakerPubkey s = ss_MakerPubkey (r_heap r ! a)"
    "length (ss_takerInbox s) \<le> length (ss_takerInbox (r_heap r ! a))"
    "length (ss_makerInbox s) \<le> length (ss_makerInbox (r_heap r ! a))"
  shows "router_ok (write_session a s r)"
proof -
  have box: "length (ss_takerInbox (r_heap r ! b)) \<le> r_inboxBuf r" "length (ss_makerInbox (r_heap r ! b)) \<le> r_inboxBuf r"
    if "b < length (r_heap r)" for b
    using assms(1) that by (simp_all add: router_ok_def list_all_length)
  with assms(2,7,8) have "length (ss_takerInbox s) \<le> r_inboxBuf r" "length (ss_makerInbox s) \<le> r_inboxBuf r"
    by (meson order_trans)+
  with assms box show ?thesis
    unfolding router_ok_def by (simp add: list_all_length nth_list_update)
qed

lemma router_step_same:
  assumes "ss_ID s = ss_ID (r_heap r ! a)" "ss_done s = ss_done (r_heap r ! a)"
    "ss_OfferID s = ss_OfferID (r_heap r ! a)" "ss_MakerPubkey s = ss_MakerPubkey (r_heap r ! a)"
    "length (ss_takerInbox s) \<le> length (ss_takerInbox (r_heap r ! a))"
    "length (ss_makerInbox s) \<le> length (ss_makerInbox (r_heap r ! a))"
    "\<And>ofr. ss_settledOffer s = Some ofr \<Longrightarrow> ss_settledOffer (r_heap r ! a) = Some ofr \<or> offer_wf ofr"
  shows "router_step r (write_session a s r)"
proof (cases "a < length (r_heap r)")
  case True
  with assms show ?thesis by (intro router_step_write router_ok_write_same)
qed (simp add: write_session_beyond)

lemma router_step_ExtendDeadline: "router_step r (ExtendDeadline now i d r)"
  by (auto simp: ExtendDeadline_def intro: router_step_same split: option.split)

lemma router_step_drop_inbox: "router_step r (write_session a (drop_inbox ro (r_heap r ! a)) r)"
  by (rule router_step_same) (simp_all add: drop_inbox_def split: role.splits)

lemma router_step_close: "router_step r (fst (closeReopen i b r))"
proof (cases "map_of (r_sessions r) i")
  case (Some a)
  have "settled_wf r \<Longrightarrow> settled_wf (fst (closeReopen i b r))" if "a < length (r_heap r)"
    using Some that unfolding settled_wf_def
    by (auto simp: closeReopen_def Let_def nth_list_update)
  moreover have "a < length (r_heap r)" if "router_ok r" using router_okD(1) [OF that Some] .
  moreover have "ss_ID (r_heap (fst (closeReopen i b r)) ! c) = ss_ID (r_heap r ! c)" if "c < length (r_heap r)" for c
    using Some that by (cases "c = a") (simp_all add: closeReopen_def Let_def)
  ultimately show ?thesis
    using router_ok_close [of r i b] Some by (auto simp: router_step_def closeReopen_def Let_def)
qed (simp add: closeReopen_def)

lemma router_step_Arm:
  assumes "\<And>ofr. oo = Some ofr \<Longrightarrow> offer_wf ofr"
  shows "router_step r (fst (ArmReorgReopen i tx oo n r w))"
proof (cases "router_Get i r")
  case (Some a)
  with assms show ?thesis
    by (auto simp: ArmReorgReopen_def Let_def intro!: router_step_same split: option.split)
qed (simp add: ArmReorgReopen_def)


subsection \<open>Pumps\<close>

lemma pumpAdd_count:
  assumes "n = gomap_get 0 (gomap_get [] pumped sid) ro" "0 \<le> n + d" "0 < n \<or> 0 < d"
  shows "gomap_get 0 (gomap_get [] (pumpAdd sid ro d pumped) sid') ro' =
    (if sid' = sid \<and> ro' = ro then n + d else gomap_get 0 (gomap_get [] pumped sid') ro')"
proof -
  have "\<not> (map_of pumped sid = None \<and> d \<le> 0)"
    using assms by (auto simp: gomap_get_def)
  then show ?thesis
    using assms(1,2)
    by (auto simp: pumpAdd_def Let_def gomap_get_def map_of_update map_of_delete split: option.splits if_splits)
      (metis delete_conv' fun_upd_apply map_of.simps(1) option.distinct(1))+
qed


lemma pumps_ok_start:
  assumes "pumps_ok sv" "a < length (r_heap (sv_router sv))" "sid = ss_ID (r_heap (sv_router sv) ! a)"
  shows "pumps_ok (sv\<lparr>sv_pumped := pumpAdd sid ro 1 (sv_pumped sv),
    sv_pumps := sv_pumps sv @ [\<lparr>pm_conn = c, pm_sess = a, pm_sid = sid, pm_role = ro\<rparr>]\<rparr>)"
proof -
  have cnt: "gomap_get 0 (gomap_get [] (sv_pumped sv) i) r = int (length (pumps_for i r sv))" for i r
    using assms(1) by (simp add: pumps_ok_def pumpCount_def)
  have "gomap_get 0 (gomap_get [] (pumpAdd sid ro 1 (sv_pumped sv)) i) r =
      (if i = sid \<and> r = ro then int (length (pumps_for sid ro sv)) + 1 else int (length (pumps_for i r sv)))" for i r
    using pumpAdd_count [OF refl, where d = 1] by (simp add: cnt)
  with assms show ?thesis by (auto simp: pumps_ok_def pumpCount_def pumps_for_def)
qed

lemma length_filter_nth:
  assumes "i < length xs"
  shows "length (filter P xs) = length (filter P (take i xs @ drop (Suc i) xs)) + (if P (xs ! i) then 1 else 0)"
proof -
  have "filter P xs = filter P (take i xs @ xs ! i # drop (Suc i) xs)" using id_take_nth_drop [OF assms] by metis
  then show ?thesis by simp
qed

lemma pumps_ok_leave:
  assumes "pumps_ok sv" "i < length (sv_pumps sv)"
  shows "pumps_ok (pump_leave i sv)"
proof -
  let ?p = "sv_pumps sv ! i"
  have cnt: "gomap_get 0 (gomap_get [] (sv_pumped sv) j) r = int (length (pumps_for j r sv))" for j r
    using assms(1) by (simp add: pumps_ok_def pumpCount_def)
  have len: "length (pumps_for j r sv) =
      length (filter (\<lambda>p. pm_sid p = j \<and> pm_role p = r) (take i (sv_pumps sv) @ drop (Suc i) (sv_pumps sv))) +
      (if pm_sid ?p = j \<and> pm_role ?p = r then 1 else 0)" for j r
    unfolding pumps_for_def by (rule length_filter_nth [OF assms(2)])
  have sub: "set (take i (sv_pumps sv) @ drop (Suc i) (sv_pumps sv)) \<subseteq> set (sv_pumps sv)"
    by (auto dest: in_set_takeD in_set_dropD)
  have "0 < int (length (pumps_for (pm_sid ?p) (pm_role ?p) sv))" by (simp add: len)
  then have "gomap_get 0 (gomap_get [] (pumpAdd (pm_sid ?p) (pm_role ?p) (- 1) (sv_pumped sv)) j) r =
      int (length (pumps_for j r sv)) - (if pm_sid ?p = j \<and> pm_role ?p = r then 1 else 0)" for j r
    using pumpAdd_count [OF refl, where d = "- 1"] by (auto simp: cnt)
  with assms sub len show ?thesis
    unfolding pumps_ok_def pump_leave_def pumpCount_def by (auto simp: Let_def pumps_for_def)
qed

lemma server_ok_leave: "server_ok cr sv \<Longrightarrow> i < length (sv_pumps sv) \<Longrightarrow> server_ok cr (pump_leave i sv)"
  using pumps_ok_leave by (auto simp: server_ok_def subs_ok_def pump_leave_def Let_def)

lemma server_ok_attach:
  assumes "server_ok cr sv" "a < length (r_heap (sv_router sv))"
  shows "server_ok cr (attach c a ro sv)"
proof -
  let ?sid = "ss_ID (r_heap (sv_router sv) ! a)"
  let ?sv = "upd_conn c (\<lambda>wc. wc\<lparr>wc_roles := AList.update ?sid ro (wc_roles wc)\<rparr>) sv"
  have sv: "server_ok cr ?sv" by (rule server_ok_upd_conn [OF assms(1)]) simp_all
  have start: "server_ok cr (sv'\<lparr>sv_pumped := pumpAdd ?sid ro 1 (sv_pumped sv'),
      sv_pumps := sv_pumps sv' @ [\<lparr>pm_conn = c, pm_sess = a, pm_sid = ?sid, pm_role = ro\<rparr>]\<rparr>)"
    if "server_ok cr sv'" "sv_router sv' = sv_router sv" for sv'
    using that pumps_ok_start [of sv' a ?sid] assms(2) by (auto simp: server_ok_def subs_ok_def)
  show ?thesis
    using start [of ?sv] start [of "?sv\<lparr>sv_takerConns := AList.update ?sid c (sv_takerConns ?sv)\<rparr>"] sv
    by (cases ro) (simp_all add: attach_def Let_def)
qed

subsection \<open>Subscriptions\<close>

lemma sum_list_nth_update:
  fixes f :: "'a \<Rightarrow> 'b multiset"
  assumes "c < length xs"
  shows "sum_list (map f (xs[c := x])) = sum_list (map f xs) - f (xs ! c) + f x"
    "f (xs ! c) \<subseteq># sum_list (map f xs)"
proof -
  have "sum_list (map f xs) = sum_list (map f (take c xs @ xs ! c # drop (Suc c) xs))"
    using id_take_nth_drop [OF assms] by metis
  then show "sum_list (map f (xs[c := x])) = sum_list (map f xs) - f (xs ! c) + f x"
      "f (xs ! c) \<subseteq># sum_list (map f xs)"
    using assms by (simp_all add: upd_conv_take_nth_drop)
qed


lemma sub_ids_removeAll [simp]: "sub_ids (Unsubscribe i s) = removeAll i (sub_ids s)"
  by (simp add: sub_ids_def Unsubscribe_def delete_keys)

lemma mset_removeAll: "distinct xs \<Longrightarrow> mset (removeAll x xs) = mset xs - {#x#}"
  by (simp flip: distinct_remove1_removeAll)

lemma Unsubscribe_frame [simp]: "entries (Unsubscribe i s) = entries s" "pairs (Unsubscribe i s) = pairs s"
  "nextSub (Unsubscribe i s) = nextSub s"
  by (simp_all add: Unsubscribe_def)

lemma update_append: "map_of m k = None \<Longrightarrow> AList.update k v m = m @ [(k, v)]"
  by (induction m) auto

lemma mset_update_snd:
  assumes "gomap_ok m"
  shows "mset (map snd (AList.update k v m)) =
    (case map_of m k of None \<Rightarrow> mset (map snd m) | Some w \<Rightarrow> mset (map snd m) - {#w#}) + {#v#}"
  using assms
proof (induction m)
  case (Cons p m)
  have mem: "w \<in> snd ` set m" if "map_of m k = Some w" for w using that by (force dest: map_of_SomeD)
  show ?case using Cons mem by (cases p) (auto simp: gomap_ok_def split: option.splits)
qed simp

lemma mset_delete_snd:
  assumes "gomap_ok m" "map_of m k = Some w"
  shows "mset (map snd (AList.delete k m)) = mset (map snd m) - {#w#}"
  using assms
proof (induction m)
  case (Cons p m)
  have mem: "w \<in> snd ` set m" if "map_of m k = Some w" using that by (force dest: map_of_SomeD)
  have gone: "AList.delete k m = m" if "k \<notin> fst ` set m" using that by (simp add: delete_id)
  show ?case using Cons mem gone by (cases p) (auto simp: gomap_ok_def split: option.splits)
qed simp

lemma length_update: "length (AList.update k v m) = length m + (if map_of m k = None then 1 else 0)"
  by (induction m) auto

lemma sub_ids_Subscribe:
  assumes "Subscribe pf c s = (s', snap, i)" "\<forall>j\<in>set (sub_ids s). j < nextSub s"
  shows "sub_ids s' = sub_ids s @ [i]" "i = nextSub s" "nextSub s' = Suc i"
proof -
  have "map_of (subs s) (nextSub s) = None" using assms(2) by (force simp: sub_ids_def map_of_eq_None_iff)
  then have "AList.update (nextSub s) v (subs s) = subs s @ [(nextSub s, v)]" for v
    by (rule update_append)
  with assms(1) show "sub_ids s' = sub_ids s @ [i]" "i = nextSub s" "nextSub s' = Suc i"
    by (auto simp: Subscribe_def Let_def sub_ids_def)
qed


lemma relay_book_frame: "relay_book cr s \<Longrightarrow> entries s' = entries s \<Longrightarrow> pairs s' = pairs s \<Longrightarrow> relay_book cr s'"
  by (simp add: relay_book_def book_ok_def offers_sat_def)

lemma server_ok_conn_subs:
  assumes "server_ok cr sv" "c < length (sv_conns sv)" "entries s = entries (sv_store sv)" "pairs s = pairs (sv_store sv)"
    "mset (sub_ids s) = mset (sub_ids (sv_store sv)) - conn_sub_ids (sv_conns sv ! c) + conn_sub_ids (f (sv_conns sv ! c))"
    "distinct (sub_ids s)" "\<forall>i\<in>set (sub_ids s). i < nextSub s"
    "gomap_ok (wc_subs (f (sv_conns sv ! c)))" "length (wc_subs (f (sv_conns sv ! c))) \<le> maxSubsPerConn"
    "wc_closed (f (sv_conns sv ! c)) \<Longrightarrow> wc_subs (f (sv_conns sv ! c)) = []"
  shows "server_ok cr (upd_conn c f (set_store s sv))"
proof -
  have "relay_book cr s" using relay_book_frame server_okD(1) [OF assms(1)] assms(3,4) by blast
  moreover have "sum_list (map conn_sub_ids (sv_conns (upd_conn c f (set_store s sv)))) = mset (sub_ids s)"
    using assms sum_list_nth_update [OF assms(2), of conn_sub_ids]
    by (simp add: upd_conn_def server_ok_def subs_ok_def)
  ultimately show ?thesis
    using assms
    by (simp add: server_ok_def relay_ok_def pumps_ok_def subs_ok_def pumpCount_def pumps_for_def upd_conn_nth)
qed

lemma conn_subs_subset:
  assumes "server_ok cr sv" "c < length (sv_conns sv)"
  shows "conn_sub_ids (sv_conns sv ! c) \<subseteq># mset (sub_ids (sv_store sv))"
  using assms sum_list_nth_update(2) [OF assms(2), of conn_sub_ids] by (simp add: server_ok_def subs_ok_def)

lemma conn_sub_mem:
  assumes "map_of (wc_subs wc) pk = Some i"
  shows "i \<in># conn_sub_ids wc"
  using assms by (force simp: conn_sub_ids_def dest: map_of_SomeD)

lemma server_ok_accept: "server_ok cr sv \<Longrightarrow> server_ok cr (fst (ws_accept sv))"
  by (auto simp: server_ok_def pumps_ok_def subs_ok_def ws_accept_def new_conn_def pumpCount_def pumps_for_def
      conn_sub_ids_def gomap_ok_def nth_append)

lemma diff_add_replace:
  assumes "A \<subseteq># B" "x \<in># A"
  shows "B - A + (A - {#x#} + D) = B - {#x#} + (D :: 'a multiset)"
proof -
  obtain C where "B = A + C" using assms(1) by (auto simp: mset_subset_eq_exists_conv)
  moreover obtain A' where "A = add_mset x A'" using assms(2) by (metis insert_DiffM)
  ultimately show ?thesis by simp
qed

lemma server_ok_Subscribe:
  assumes ok: "server_ok cr sv" "c < length (sv_conns sv)" "\<not> wc_closed (sv_conns sv ! c)"
    and room: "map_of (wc_subs (sv_conns sv ! c)) pk = None \<longrightarrow> length (wc_subs (sv_conns sv ! c)) < maxSubsPerConn"
    and sub: "Subscribe pf cf (sv_store sv) = (s, snap, i)"
    and s': "s' = (case map_of (wc_subs (sv_conns sv ! c)) pk of None \<Rightarrow> s | Some prev \<Rightarrow> Unsubscribe prev s)"
  shows "server_ok cr (upd_conn c (\<lambda>wc. wc\<lparr>wc_subs := AList.update pk i (wc_subs wc), wc_last := l wc\<rparr>) (set_store s' sv))"
proof -
  let ?wc = "sv_conns sv ! c"
  have inv: "distinct (sub_ids (sv_store sv))" "\<forall>j\<in>set (sub_ids (sv_store sv)). j < nextSub (sv_store sv)"
      "gomap_ok (wc_subs ?wc)" "length (wc_subs ?wc) \<le> maxSubsPerConn"
    using ok by (auto simp: server_ok_def subs_ok_def)
  note ids = sub_ids_Subscribe [OF sub inv(2)]
  have subset: "conn_sub_ids ?wc \<subseteq># mset (sub_ids (sv_store sv))" by (rule conn_subs_subset [OF ok(1,2)])
  have dist: "distinct (sub_ids s)" using ids inv(1,2) by auto
  have "entries s = entries (sv_store sv)" "pairs s = pairs (sv_store sv)"
    using sub by (auto simp: Subscribe_def Let_def)
  then have frame: "entries s' = entries (sv_store sv)" "pairs s' = pairs (sv_store sv)"
    using s' by (simp_all add: Unsubscribe_def split: option.split)
  have new: "distinct (sub_ids s')" "\<forall>j\<in>set (sub_ids s'). j < nextSub s'"
    using s' ids dist inv(2) by (auto simp: distinct_removeAll less_Suc_eq split: option.splits)
  have ms: "mset (sub_ids s') = mset (sub_ids (sv_store sv)) - conn_sub_ids ?wc + mset (map snd (AList.update pk i (wc_subs ?wc)))"
  proof (cases "map_of (wc_subs ?wc) pk")
    case None
    with s' ids subset mset_update_snd [OF inv(3), of pk i] show ?thesis
      by (simp add: conn_sub_ids_def subset_mset.diff_add_assoc2 subset_mset.diff_add)
  next
    case (Some prev)
    have mem: "prev \<in># conn_sub_ids ?wc" by (rule conn_sub_mem [OF Some])
    then have old: "prev \<in># mset (sub_ids (sv_store sv))" using subset by (rule mset_subset_eqD [rotated])
    have "mset (sub_ids s') = mset (sub_ids (sv_store sv)) + {#i#} - {#prev#}"
      using s' Some ids mset_removeAll [OF dist] by simp
    also have "\<dots> = mset (sub_ids (sv_store sv)) - {#prev#} + {#i#}" using old by simp
    also have "\<dots> = mset (sub_ids (sv_store sv)) - conn_sub_ids ?wc + (conn_sub_ids ?wc - {#prev#} + {#i#})"
      by (rule diff_add_replace [OF subset mem, symmetric])
    finally show ?thesis using mset_update_snd [OF inv(3), of pk i] Some by (simp add: conn_sub_ids_def)
  qed
  show ?thesis
    by (rule server_ok_conn_subs [OF ok(1,2) frame])
      (use ms new inv(3,4) room ok(3) in \<open>auto simp: conn_sub_ids_def length_update\<close>)
qed

lemma server_ok_wsSubscribe:
  assumes "server_ok cr sv" "c < length (sv_conns sv)" "\<not> wc_closed (sv_conns sv ! c)"
  shows "server_ok cr (wsSubscribe tk c po sv)"
proof (cases po)
  case (Some p)
  obtain s snap i where sub: "Subscribe (Some p) (PairConfidential p) (sv_store sv) = (s, snap, i)" by (metis prod_cases3)
  show ?thesis
    using Some assms server_ok_Subscribe [OF assms _ sub refl, of "subKey p"]
    by (auto simp: wsSubscribe_def sub Let_def not_le)
qed (use assms in \<open>simp add: wsSubscribe_def\<close>)

lemma server_ok_wsUnsubscribe:
  assumes "server_ok cr sv" "c < length (sv_conns sv)" "\<not> wc_closed (sv_conns sv ! c)"
  shows "server_ok cr (wsUnsubscribe c po sv)"
proof (cases "\<exists>p i. po = Some p \<and> map_of (wc_subs (sv_conns sv ! c)) (subKey p) = Some i")
  case True
  then obtain p i where p: "po = Some p" "map_of (wc_subs (sv_conns sv ! c)) (subKey p) = Some i" by auto
  let ?wc = "sv_conns sv ! c" and ?s = "sv_store sv"
  have inv: "distinct (sub_ids ?s)" "\<forall>j\<in>set (sub_ids ?s). j < nextSub ?s" "gomap_ok (wc_subs ?wc)"
      "length (wc_subs ?wc) \<le> maxSubsPerConn"
    using assms by (auto simp: server_ok_def subs_ok_def)
  have subset: "conn_sub_ids ?wc \<subseteq># mset (sub_ids ?s)" by (rule conn_subs_subset [OF assms(1,2)])
  have "mset (sub_ids (Unsubscribe i ?s)) = mset (sub_ids ?s) - conn_sub_ids ?wc + (conn_sub_ids ?wc - {#i#} + {#})"
    using diff_add_replace [OF subset conn_sub_mem [OF p(2)], of "{#}"] mset_removeAll [OF inv(1)] by simp
  then have ms: "mset (sub_ids (Unsubscribe i ?s)) =
      mset (sub_ids ?s) - conn_sub_ids ?wc + mset (map snd (AList.delete (subKey p) (wc_subs ?wc)))"
    using mset_delete_snd [OF inv(3) p(2)] by (simp add: conn_sub_ids_def)
  have "length (AList.delete (subKey p) (wc_subs ?wc)) \<le> maxSubsPerConn"
    using inv(4) by (meson length_delete_le order_trans)
  then have "server_ok cr (upd_conn c (\<lambda>wc. wc\<lparr>wc_subs := AList.delete (subKey p) (wc_subs wc)\<rparr>) (set_store (Unsubscribe i ?s) sv))"
    using assms inv ms
    by (intro server_ok_conn_subs [OF assms(1,2)]) (auto simp: conn_sub_ids_def distinct_removeAll)
  then show ?thesis using p by (simp add: wsUnsubscribe_def)
next
  case False
  then show ?thesis using assms(1) by (auto simp: wsUnsubscribe_def split: option.split)
qed

lemma fold_Unsubscribe:
  assumes "distinct (sub_ids s)"
  shows "mset (sub_ids (fold Unsubscribe is s)) = mset (sub_ids s) - mset is \<and>
    distinct (sub_ids (fold Unsubscribe is s)) \<and> nextSub (fold Unsubscribe is s) = nextSub s \<and>
    set (sub_ids (fold Unsubscribe is s)) \<subseteq> set (sub_ids s) \<and>
    entries (fold Unsubscribe is s) = entries s \<and> pairs (fold Unsubscribe is s) = pairs s"
  using assms
proof (induction "is" arbitrary: s)
  case (Cons i js)
  then have "distinct (sub_ids (Unsubscribe i s))" by (simp add: distinct_removeAll)
  note ih = Cons.IH [OF this]
  then show ?case using mset_removeAll [OF Cons.prems] by auto
qed simp

lemma server_ok_forward:
  assumes "server_ok cr sv"
  shows "server_ok cr (forward_turn c i sv)"
proof -
  have recv: "server_ok cr (set_store s sv)" if "Receive i (sv_store sv) = (s, ev)" for s ev
  proof -
    have "sub_ids s = sub_ids (sv_store sv)" "nextSub s = nextSub (sv_store sv)"
        "entries s = entries (sv_store sv)" "pairs s = pairs (sv_store sv)"
      using that by (auto simp: Receive_def sub_ids_def update_keys split: option.splits list.splits)
        (metis map_of_eq_None_iff option.distinct(1))
    with assms show ?thesis
      using relay_book_frame [OF server_okD(1) [OF assms]]
      by (simp add: server_ok_def relay_ok_def pumps_ok_def subs_ok_def pumpCount_def pumps_for_def)
  qed
  have sends: "server_ok cr (fold (send_frame c) frs sv')" if "server_ok cr sv'" for frs sv'
    using that by (induction frs arbitrary: sv') simp_all
  show ?thesis
    using assms recv
    by (auto simp: forward_turn_def intro!: server_ok_upd_conn sends split: prod.split option.split)
qed


subsection \<open>Handlers that write the book\<close>

lemma run_step: "book_op op \<Longrightarrow> (\<And>ofr. inserts op = Some ofr \<Longrightarrow> offer_wf ofr) \<Longrightarrow> book_run cr s (exec cr now op s)"
  using run_exec [OF run_refl] by blast

lemma book_run_trans: "book_run cr s' s'' \<Longrightarrow> book_run cr s s' \<Longrightarrow> book_run cr s s''"
  by (induction rule: book_run.induct) (auto intro: book_run.intros)

lemmas op_kinds = book_op_def inserts_def

lemma server_ok_Submit:
  "server_ok cr sv \<Longrightarrow> offer_wf ofr \<Longrightarrow> server_ok cr (set_store (fst (Submit cr now ofr (sv_store sv))) sv)"
  using run_step [of "OpSubmit ofr" cr "sv_store sv" now] by (simp add: server_ok_store op_kinds)

lemma server_ok_Edit:
  "server_ok cr sv \<Longrightarrow> offer_wf ofr \<Longrightarrow> server_ok cr (set_store (fst (Edit cr now ofr (sv_store sv))) sv)"
  using run_step [of "OpEdit ofr" cr "sv_store sv" now] by (simp add: server_ok_store op_kinds)

lemma server_ok_Cancel: "server_ok cr sv \<Longrightarrow> server_ok cr (set_store (fst (Cancel cr can (sv_store sv))) sv)"
  using run_step [of "OpCancel can" cr "sv_store sv"] by (simp add: server_ok_store op_kinds)

lemma server_ok_Retire: "server_ok cr sv \<Longrightarrow> server_ok cr (set_store (fst (RetireIncoming k st (sv_store sv))) sv)"
  using run_step [of "OpRetireIncoming k st" cr "sv_store sv"] by (simp add: server_ok_store op_kinds)

lemma set_store_self [simp]: "set_store (sv_store sv) sv = sv"
  by (simp add: set_store_def)

lemma server_ok_applyDisposition:
  "server_ok cr sv \<Longrightarrow> server_ok cr (set_store (fst (applyDisposition ofr res (sv_store sv))) sv)"
  by (simp add: applyDisposition_def server_ok_Retire split: disposition.split)

lemma server_ok_register [simp]:
  "server_ok cr sv \<Longrightarrow> server_ok cr (registerMaker c m sv)" "server_ok cr sv \<Longrightarrow> server_ok cr (ownOffer c ofr sv)"
  by (simp_all add: registerMaker_def ownOffer_def server_ok_upd_conn)

lemma server_ok_routeMatches: "server_ok cr sv \<Longrightarrow> server_ok cr (routeMatches tc ids mts sv)"
  by (induction tc ids mts sv rule: routeMatches.induct) (simp_all add: route_match_def Let_def split: option.split)

lemma send_relay [simp]: "sv_relay (send_frame c fr sv) = sv_relay sv" "sv_relay (ws_send c m sv) = sv_relay sv"
  "sv_relay (sendErr c code e sv) = sv_relay sv"
  by (simp_all add: send_frame_def ws_send_def sendErr_def)

lemma routeMatches_relay [simp]: "sv_relay (routeMatches tc ids mts sv) = sv_relay sv"
  by (induction tc ids mts sv rule: routeMatches.induct) (simp_all add: route_match_def Let_def split: option.split)

lemma server_ok_cross:
  assumes "server_ok cr sv" "cross_resting tk tc ofr sv = Done (sv', b)"
  shows "server_ok cr sv'"
  using assms server_ok_applyDisposition [OF server_ok_routeMatches [OF assms(1)]]
  by (auto simp: cross_resting_def Let_def split: option.splits prod.splits) (metis fst_conv)

text \<open>No panic: the matcher divides only by amounts of well-formed offers.\<close>

lemma quotePerBase_wf: "offer_wf ofr \<Longrightarrow> quotePerBase ofr \<noteq> None"
  by (auto simp: offer_wf_def quotePerBase_def SetFrac_def)

lemma snapshot_entries:
  assumes "e \<in> set (SnapshotPairEntries p c s)"
  obtains k where "map_of (entries s) k = Some e"
  using assms by (auto simp: SnapshotPairEntries_def List.map_filter_def split: option.splits if_splits)

lemma CrossOrder_total:
  assumes "relay_book cr s"
  shows "CrossOrder (store_book s) ofr \<noteq> None"
proof -
  have "quotePerBase (e_Offer e) \<noteq> None" if "e \<in> set (SnapshotPairEntries p c s)" for e p c
    using snapshot_entries [OF that] relay_bookD [OF assms] quotePerBase_wf by metis
  then have "candidates (store_book s) ofr \<noteq> None"
    by (auto simp: candidates_def store_book_def Let_def list_all_iff)
  then show ?thesis
    by (auto simp: CrossOrder_def walk_def Let_def split: option.split prod.split)
qed

lemma cross_resting_total:
  assumes "server_ok cr sv"
  shows "\<exists>sv' b. cross_resting tk tc ofr sv = Done (sv', b)"
  using CrossOrder_total [OF server_okD(1) [OF assms], of ofr]
  by (auto simp: cross_resting_def Let_def split: prod.split)


lemma validate_relay:
  assumes "validate cr tk ofr ip sv = (sv', res)"
  shows "sv_relay sv' = sv_relay sv" "sv_conns sv' = sv_conns sv" "server_ok cr sv \<Longrightarrow> server_ok cr sv'"
    "res = Inr u \<Longrightarrow> offer_wf ofr"
proof -
  obtain t1 t2 t3 where t: "tk_validator tk = (t1, t2, t3)" by (metis prod_cases3)
  show "sv_relay sv' = sv_relay sv" "sv_conns sv' = sv_conns sv" "server_ok cr sv \<Longrightarrow> server_ok cr sv'"
    using assms by (auto simp: validate_def split: prod.splits)
  show "offer_wf ofr" if "res = Inr u"
    using assms that by (auto simp: validate_def t split: prod.splits elim!: ValidateOffer_accepts dest: check_offer_ok(2))
qed

lemma wsOfferSubmit_ok:
  assumes "server_ok cr sv"
  shows "\<exists>sv'. wsOfferSubmit cr tk c ofr ip sv = Done sv' \<and> server_ok cr sv'"
proof -
  obtain sv1 res where val: "validate cr tk ofr ip sv = (sv1, res)" by fastforce
  note v = validate_relay [OF val]
  note ok = v(3) [OF assms]
  show ?thesis
  proof (cases res)
    case (Inl e)
    then show ?thesis using ok by (auto simp: wsOfferSubmit_def val)
  next
    case (Inr u)
    with v(4) have wf: "offer_wf ofr" by simp
    let ?s = "Submit cr (tk_now tk) ofr (sv_store sv1)" and ?t = "Edit cr (tk_now tk) ofr (sv_store sv1)"
    have sub: "server_ok cr (set_store (fst ?s) sv1)" "server_ok cr (set_store (fst ?t) sv1)"
      by (rule server_ok_Submit [OF ok wf], rule server_ok_Edit [OF ok wf])
    let ?sv = "ownOffer c ofr (registerMaker c (MakerPubkey ofr) (set_store (fst ?s) sv1))"
    have sv: "server_ok cr ?sv" using sub by simp
    obtain sv2 b where cross: "cross_resting tk (Some c) ofr ?sv = Done (sv2, b)"
      using cross_resting_total [OF sv] by blast
    have sv2: "server_ok cr sv2" by (rule server_ok_cross [OF sv cross])
    show ?thesis
      using sub sv2 cross
      by (auto simp: wsOfferSubmit_def val Inr Let_def split: prod.split sum.split)
  qed
qed

lemma server_ok_wsOfferEdit:
  assumes "server_ok cr sv"
  shows "server_ok cr (wsOfferEdit cr tk c ofr ip sv)"
proof -
  obtain sv1 res where val: "validate cr tk ofr ip sv = (sv1, res)" by fastforce
  note v = validate_relay [OF val]
  note ok = v(3) [OF assms]
  have "offer_wf ofr \<Longrightarrow> server_ok cr (set_store (fst (Edit cr (tk_now tk) ofr (sv_store sv1))) sv1)"
    by (rule server_ok_Edit [OF ok])
  with ok v(4) show ?thesis
    by (auto simp: wsOfferEdit_def val split: prod.split sum.split)
qed

lemma server_ok_wsOfferCancel: "server_ok cr sv \<Longrightarrow> server_ok cr (wsOfferCancel cr c can sv)"
  using server_ok_Cancel [of cr sv can]
  by (auto simp: wsOfferCancel_def split: prod.split sum.split)

subsection \<open>Lifts and courier\<close>

lemma attach_relay [simp]: "sv_relay (attach c a ro sv) = sv_relay sv"
  by (simp add: attach_def Let_def split: role.split)

lemma notifyMaker_relay [simp]: "sv_relay (notifyMaker a sv) = sv_relay sv"
  by (simp add: notifyMaker_def Let_def split: option.split)

lemma server_ok_notifyMaker:
  "server_ok cr sv \<Longrightarrow> a < length (r_heap (sv_router sv)) \<Longrightarrow> server_ok cr (notifyMaker a sv)"
  by (simp add: notifyMaker_def Let_def server_ok_attach split: option.split)

lemma lift_start_ok:
  assumes "server_ok cr sv" "lift_start tk sl sv = (sv', res)"
  shows "server_ok cr sv' \<and> (\<forall>a. res = Inr a \<longrightarrow> a < length (r_heap (sv_router sv')))"
proof -
  let ?req = "\<lparr>rq_OfferID = sl_OfferId sl, rq_MakerPubkey = sl_MakerPubkey sl, rq_TakeAmount = sl_TakeAmount sl,
              rq_TakerSessionPubkey = sl_TakerSessionPubkey sl, rq_MakerSessionPubkey = []\<rparr>"
  obtain r out where start: "StartLift (tk_now tk) (tk_newID tk) ?req (sv_router sv) = (r, out)" by fastforce
  have ok: "server_ok cr (set_router r sv)"
    using server_ok_router [OF assms(1) router_step_StartLift] start by (metis fst_conv)
  have "a < length (r_heap r)" if "out = Inr a" for a
    using start that by (auto simp: StartLift_def Let_def split: if_splits)
  then show ?thesis
    using assms(2) ok server_ok_notifyMaker [OF ok]
    by (auto simp: lift_start_def start split: sum.splits)
qed

lemma length_ExtendDeadline [simp]: "length (r_heap (ExtendDeadline now i d r)) = length (r_heap r)"
  by (simp add: ExtendDeadline_def split: option.split)

lemma openLift_ok:
  assumes "server_ok cr sv" "openLift tk sl sv = (sv', res)"
  shows "server_ok cr sv' \<and> (\<forall>a. res = Inr a \<longrightarrow> a < length (r_heap (sv_router sv')))"
proof -
  have slot: "server_ok cr sv1" if "lift_slot e sl sv = (sv1, b)" for e sv1 b
    using that assms(1) by (auto simp: lift_slot_def lift_reserve_def pruneDeadLifts_def split: option.splits if_splits)
  have fin: "server_ok cr (lift_extend tk e a sv2) \<and> a < length (r_heap (sv_router (lift_extend tk e a sv2)))"
    if "server_ok cr sv2" "a < length (r_heap (sv_router sv2))" for e a sv2
    using that by (simp add: lift_extend_def server_ok_router router_step_ExtendDeadline)
  have rec: "server_ok cr (lift_record k r sv2) = server_ok cr sv2" "sv_relay (lift_record k r sv2) = sv_relay sv2" for k r sv2
    by (simp_all add: lift_record_def split: sum.split)
  show ?thesis
  proof (cases "lift_check sl sv")
    case (Inl er)
    then show ?thesis using assms by (auto simp: openLift_def)
  next
    case (Inr e)
    obtain sv1 b where step: "lift_slot e sl sv = (sv1, b)" by fastforce
    have ok1: "server_ok cr sv1" by (rule slot [OF step])
    obtain sv2 r where start: "lift_start tk sl sv1 = (sv2, r)" by fastforce
    note ok2 = lift_start_ok [OF ok1 start]
    show ?thesis
      using assms(2) ok1 ok2 fin rec
      by (cases b; cases r) (auto simp: openLift_def lift_finish_def Let_def Inr step start split: if_splits)
  qed
qed


lemma server_ok_wsStartLift:
  assumes "server_ok cr sv"
  shows "server_ok cr (wsStartLift tk c sl sv)"
proof -
  obtain sv' res where lift: "openLift tk sl sv = (sv', res)" by fastforce
  from openLift_ok [OF assms this] assms show ?thesis
    by (auto simp: wsStartLift_def lift server_ok_attach split: sum.split)
qed

lemma server_ok_wsSessionReattach:
  assumes "server_ok cr sv"
  shows "server_ok cr (wsSessionReattach cr c ra sv)"
proof -
  have "a < length (r_heap (sv_router sv))" if "router_Get i (sv_router sv) = Some a" for i a
    using router_okD(1) [OF server_okD(2) [OF assms]] that by (simp add: router_Get_def)
  with assms show ?thesis
    by (auto simp: wsSessionReattach_def Let_def server_ok_attach split: option.split sum.split role.split)
qed

lemma wsSwapMsg_ok:
  assumes "server_ok cr sv" "wsSwapMsg tk c msg sv = Done sv'"
  shows "server_ok cr sv'"
proof -
  have "server_ok cr (set_router r sv)" if "Send now pick i ro ct (sv_router sv) = (r, x)" for now pick i ro ct r x
    using server_ok_router [OF assms(1) router_step_Send] that by (metis fst_conv)
  with assms show ?thesis
    by (auto simp: wsSwapMsg_def Let_def split: if_splits option.splits prod.splits sum.splits)
qed

lemma wsSwapMsg_no_panic: "wsSwapMsg tk c msg sv \<noteq> Panics"
  by (auto simp: wsSwapMsg_def Let_def split: option.split prod.split sum.split)

subsection \<open>Settlement reports and re-opening\<close>

text \<open>A change of the relay's core that keeps the invariant under any server around it.\<close>

definition relay_step :: "crypto \<Rightarrow> relay \<Rightarrow> relay \<Rightarrow> bool" where
  "relay_step cr rl rl' \<longleftrightarrow>
     (relay_ok cr rl \<longrightarrow> relay_ok cr rl' \<and>
        sub_ids (rl_store rl') = sub_ids (rl_store rl) \<and> nextSub (rl_store rl') = nextSub (rl_store rl) \<and>
        length (r_heap (rl_router rl)) \<le> length (r_heap (rl_router rl')) \<and>
        (\<forall>a<length (r_heap (rl_router rl)). ss_ID (r_heap (rl_router rl') ! a) = ss_ID (r_heap (rl_router rl) ! a)))"

lemma relay_step_refl [simp]: "relay_step cr rl rl"
  by (simp add: relay_step_def)

lemma relay_step_trans: "relay_step cr rl rl' \<Longrightarrow> relay_step cr rl' rl'' \<Longrightarrow> relay_step cr rl rl''"
  unfolding relay_step_def by (metis order_less_le_trans order_trans)

lemma server_ok_relay:
  assumes "server_ok cr sv" "relay_step cr (sv_relay sv) rl"
  shows "server_ok cr (sv\<lparr>sv_relay := rl\<rparr>)"
  using assms
  by (simp add: server_ok_def pumps_ok_def subs_ok_def pumpCount_def pumps_for_def relay_step_def) (meson order_less_le_trans)

lemma relay_step_store: "(relay_ok cr rl \<Longrightarrow> book_run cr (rl_store rl) s) \<Longrightarrow> relay_step cr rl (rl\<lparr>rl_store := s\<rparr>)"
  using book_run_relay_book book_run_sub_ids by (auto simp: relay_step_def relay_ok_def)

lemma relay_step_router: "router_step (rl_router rl) r \<Longrightarrow> relay_step cr rl (rl\<lparr>rl_router := r\<rparr>)"
  by (auto simp: relay_step_def relay_ok_def router_step_def) (meson order_less_le_trans)

lemma relay_step_watches:
  "(\<And>i wt. relay_ok cr rl \<Longrightarrow> map_of w i = Some wt \<Longrightarrow> wt_session wt < length (r_heap (rl_router rl))) \<Longrightarrow>
   relay_step cr rl (rl\<lparr>rl_watches := w\<rparr>)"
  by (auto simp: relay_step_def relay_ok_def)

lemma book_run_onReopen:
  assumes "\<And>ofr. ss_settledOffer ses = Some ofr \<Longrightarrow> offer_wf ofr"
  shows "book_run cr s (onReopen cr now ses s)"
proof -
  have "book_run cr s (fst (Reopen cr now ofr n s))" if "ss_settledOffer ses = Some ofr" for ofr n
    using run_step [of "OpReopen ofr n" cr s now] assms that by (simp add: op_kinds)
  moreover have "book_run cr s (fst (RetractTrade now p tx s'))" if "book_run cr s s'" for p tx s'
    using run_exec [OF that, of "OpRetractTrade p tx" now] by (simp add: op_kinds)
  ultimately show ?thesis
    by (auto simp: onReopen_def Let_def run_refl split: option.split)
qed

lemma book_run_onReopens:
  assumes "settled_wf r" "\<And>a. a \<in> set hooks \<Longrightarrow> a < length (r_heap r)"
  shows "book_run cr s (fold (\<lambda>a s. onReopen cr now (r_heap r ! a) s) hooks s)"
  using assms(2)
proof (induction hooks arbitrary: s)
  case (Cons a hooks)
  have "book_run cr s (onReopen cr now (r_heap r ! a) s)"
    using Cons.prems [of a] assms(1) by (intro book_run_onReopen) (simp add: settled_wf_def)
  with Cons show ?case by (auto intro: book_run_trans)
qed (simp add: run_refl)

lemma abort_all_step:
  assumes "router_ok r" "abort_all is r = (r', hooks)"
  shows "router_step r r' \<and> (\<forall>a\<in>set hooks. a < length (r_heap r'))"
  using assms
proof (induction "is" arbitrary: r r' hooks)
  case (Cons i js)
  obtain r1 h where a: "Abort i r = (r1, h)" by fastforce
  obtain r2 hs where b: "abort_all js r1 = (r2, hs)" by fastforce
  have s1: "router_step r r1" using router_step_close [of r i True] a by (metis Abort_def fst_conv)
  then have "router_ok r1" using Cons.prems(1) by (simp add: router_step_def)
  note ih = Cons.IH [OF this b]
  have s2: "router_step r r2" using s1 ih router_step_trans by blast
  have "x < length (r_heap r2)" if "h = Some x" for x
    using a that router_okD(1) [OF Cons.prems(1)] s2 Cons.prems(1)
    by (fastforce simp: Abort_def closeReopen_def Let_def router_step_def split: option.splits)
  with Cons.prems(2) a b ih s2 show ?case by (auto split: option.splits)
qed auto


lemma relay_step_deadline: "relay_step cr rl (deadline_sweep cr now rl)"
proof (cases "relay_ok cr rl")
  case True
  then have ok: "router_ok (rl_router rl)" "settled_wf (rl_router rl)" by (simp_all add: relay_ok_def)
  obtain r hooks n where sweep: "router_SweepExpired now (rl_router rl) = (r, hooks, n)" by (metis prod_cases3)
  then have "\<exists>is. abort_all is (rl_router rl) = (r, hooks)"
    by (auto simp: router_SweepExpired_def Let_def split: prod.splits)
  then have steps: "router_step (rl_router rl) r" "\<forall>a\<in>set hooks. a < length (r_heap r)"
    using abort_all_step [OF ok(1)] by blast+
  then have "settled_wf r" using ok by (simp add: router_step_def)
  then have "book_run cr (rl_store rl) (fold (\<lambda>a s. onReopen cr now (r_heap r ! a) s) hooks (rl_store rl))"
    using steps(2) by (intro book_run_onReopens) auto
  then have "relay_step cr (rl\<lparr>rl_router := r\<rparr>) (deadline_sweep cr now rl)"
    using relay_step_store [of cr "rl\<lparr>rl_router := r\<rparr>"] by (simp add: deadline_sweep_def sweep)
  with relay_step_router [OF steps(1)] show ?thesis using relay_step_trans by blast
qed (simp add: relay_step_def)

lemma reconcile_watch_bound:
  assumes "\<And>i wt. map_of w i = Some wt \<Longrightarrow> wt_session wt < n" "\<forall>a\<in>set fired. a < n"
    "reconcile_watch probe j (w, fired) = (w', fired')"
  shows "(\<forall>i wt. map_of w' i = Some wt \<longrightarrow> wt_session wt < n) \<and> (\<forall>a\<in>set fired'. a < n)"
  using assms(2,3) assms(1)
  by (auto simp: reconcile_watch_def Forget_def Let_def map_of_update map_of_delete
      split: option.splits bool.splits if_splits)

lemma fold_reconcile_bound:
  assumes "\<forall>i wt. map_of w i = Some wt \<longrightarrow> wt_session wt < n" "\<forall>a\<in>set fired. a < n"
    "fold (reconcile_watch probe) js (w, fired) = (w', fired')"
  shows "(\<forall>i wt. map_of w' i = Some wt \<longrightarrow> wt_session wt < n) \<and> (\<forall>a\<in>set fired'. a < n)"
  using assms
proof (induction js arbitrary: w fired)
  case (Cons j js)
  obtain w1 f1 where one: "reconcile_watch probe j (w, fired) = (w1, f1)" by fastforce
  have "(\<forall>i wt. map_of w1 i = Some wt \<longrightarrow> wt_session wt < n) \<and> (\<forall>a\<in>set f1. a < n)"
    by (rule reconcile_watch_bound [OF _ Cons.prems(2) one]) (use Cons.prems(1) in blast)
  moreover have "fold (reconcile_watch probe) js (w1, f1) = (w', fired')" using Cons.prems(3) one by simp
  ultimately show ?case using Cons.IH by blast
qed simp

lemma relay_step_reorg: "relay_step cr rl (reorg_pass cr now probe rl)"
proof (cases "relay_ok cr rl")
  case True
  obtain w fired where pass: "reorg_ReconcileOnce probe (rl_watches rl) = (w, fired)" by fastforce
  have bound: "(\<forall>i wt. map_of w i = Some wt \<longrightarrow> wt_session wt < length (r_heap (rl_router rl))) \<and>
      (\<forall>a\<in>set fired. a < length (r_heap (rl_router rl)))"
  proof (rule fold_reconcile_bound)
    show "fold (reconcile_watch probe) (map fst (rl_watches rl)) (rl_watches rl, []) = (w, fired)"
      using pass by (simp add: reorg_ReconcileOnce_def)
  qed (use True in \<open>simp_all add: relay_ok_def\<close>)
  then have "relay_step cr rl (rl\<lparr>rl_watches := w\<rparr>)" by (intro relay_step_watches) blast
  moreover have "book_run cr (rl_store rl) (fold (\<lambda>a s. onReopen cr now (r_heap (rl_router rl) ! a) s) fired (rl_store rl))"
    using bound True by (intro book_run_onReopens) (auto simp: relay_ok_def)
  then have "relay_step cr (rl\<lparr>rl_watches := w\<rparr>) (reorg_pass cr now probe rl)"
    using relay_step_store [of cr "rl\<lparr>rl_watches := w\<rparr>"] by (simp add: reorg_pass_def pass)
  ultimately show ?thesis using relay_step_trans by blast
qed (simp add: relay_step_def)

lemma relay_step_close: "relay_step cr rl (rl\<lparr>rl_router := router_Close sid (rl_router rl)\<rparr>)"
  using relay_step_router router_step_close by (simp add: router_Close_def)

text \<open>Arming the undo of a settlement and closing its session.\<close>

lemma relay_step_arm:
  assumes "\<And>ofr. oo = Some ofr \<Longrightarrow> offer_wf ofr" "ArmReorgReopen sid tx oo n (rl_router rl) (rl_watches rl) = (r, w, out)"
  shows "relay_step cr rl (rl\<lparr>rl_router := router_Close sid r, rl_watches := w\<rparr>)"
proof -
  have r: "router_step (rl_router rl) r" using router_step_Arm [OF assms(1)] assms(2) by (metis fst_conv)
  have s1: "relay_step cr rl (rl\<lparr>rl_router := r\<rparr>)" by (rule relay_step_router [OF r])
  have "wt_session wt < length (r_heap r)"
    if "relay_ok cr (rl\<lparr>rl_router := r\<rparr>)" "relay_ok cr rl" "map_of w i = Some wt" for i wt
    using that assms(2) router_okD(1) [of "rl_router rl" sid]
    by (fastforce simp: relay_ok_def ArmReorgReopen_def router_Get_def WatchSettlement_def Let_def map_of_update
        split: option.splits if_splits)
  then have "relay_ok cr rl \<Longrightarrow> relay_step cr (rl\<lparr>rl_router := r\<rparr>) (rl\<lparr>rl_router := r, rl_watches := w\<rparr>)"
    using relay_step_watches [of cr "rl\<lparr>rl_router := r\<rparr>" w] by simp
  with s1 have s2: "relay_step cr rl (rl\<lparr>rl_router := r, rl_watches := w\<rparr>)"
    using relay_step_trans by (metis relay_step_def)
  have "relay_step cr (rl\<lparr>rl_router := r, rl_watches := w\<rparr>) (rl\<lparr>rl_router := router_Close sid r, rl_watches := w\<rparr>)"
    using relay_step_close [of cr "rl\<lparr>rl_router := r, rl_watches := w\<rparr>" sid] by (cases rl) simp
  with s2 show ?thesis by (rule relay_step_trans)
qed

lemma relay_step_fill:
  assumes "ApplyPartialFill k n tx confs (RecordTradeTx now (Some ofr) n tx (rl_store rl)) = (s, out)"
  shows "relay_step cr rl (rl\<lparr>rl_store := s\<rparr>)"
proof -
  have "book_run cr (rl_store rl) (RecordTradeTx now (Some ofr) n tx (rl_store rl))"
    using run_step [of "OpRecordTradeTx ofr n tx" cr "rl_store rl" now] by (simp add: op_kinds)
  from run_exec [OF this, of "OpApplyPartialFill k n tx confs"] assms show ?thesis
    by (intro relay_step_store) (simp add: op_kinds)
qed

lemma relay_step_wsSettleAck: "relay_step cr rl (fst (wsSettleAck now roles sa rl))"
proof (cases "sa_SessionId sa = '''' \<or> map_of roles (sa_SessionId sa) \<noteq> Some RoleMaker \<or> router_Get (sa_SessionId sa) (rl_router rl) = None")
  case True
  then show ?thesis by (auto simp: wsSettleAck_def Let_def)
next
  case False
  then obtain a where a: "router_Get (sa_SessionId sa) (rl_router rl) = Some a" by auto
  let ?sid = "sa_SessionId sa" and ?ses = "r_heap (rl_router rl) ! a"
  let ?k = "Key (ss_MakerPubkey ?ses) (ss_OfferID ?ses)"
  obtain r w out where un: "SetSettleTxid ?sid (sa_SettleTxid sa) (rl_router rl) (rl_watches rl) = (r, w, out)"
    by (metis prod_cases3)
  have unfilled: "relay_step cr rl (rl\<lparr>rl_router := router_Close ?sid r, rl_watches := w\<rparr>)"
    using un by (intro relay_step_arm [where oo = None]) (simp_all add: SetSettleTxid_def)
  show ?thesis
  proof (cases "Get ?k (rl_store rl)")
    case None
    then show ?thesis using False a un unfilled by (simp add: wsSettleAck_def Let_def)
  next
    case (Some e)
    define fill where "fill = (if e_ActiveAmount e < ss_TakeAmount ?ses then e_ActiveAmount e else ss_TakeAmount ?ses)"
    obtain s res where fl: "ApplyPartialFill ?k fill (sa_SettleTxid sa) (sa_AnchorConfs sa)
        (RecordTradeTx now (Some (e_Offer e)) fill (sa_SettleTxid sa) (rl_store rl)) = (s, res)" by fastforce
    obtain r' w' out' where arm: "ArmReorgReopen ?sid (sa_SettleTxid sa) (Some (e_Offer e)) fill (rl_router rl) (rl_watches rl) =
        (r', w', out')" by (metis prod_cases3)
    have s1: "relay_step cr rl (rl\<lparr>rl_store := s\<rparr>)" by (rule relay_step_fill [OF fl])
    have "relay_ok cr rl \<Longrightarrow> offer_wf (e_Offer e)"
      using Some relay_bookD by (auto simp: relay_ok_def Get_def)
    then have "relay_ok cr rl \<Longrightarrow>
        relay_step cr (rl\<lparr>rl_store := s\<rparr>) (rl\<lparr>rl_store := s, rl_router := router_Close ?sid r', rl_watches := w'\<rparr>)"
      using relay_step_arm [of "Some (e_Offer e)" ?sid "sa_SettleTxid sa" fill "rl\<lparr>rl_store := s\<rparr>" r' w' out' cr] arm by simp
    with s1 have s2: "relay_step cr rl (rl\<lparr>rl_store := s, rl_router := router_Close ?sid r', rl_watches := w'\<rparr>)"
      using relay_step_trans by (metis relay_step_def)
    show ?thesis
      using False a un unfilled Some fl arm s1 s2
      by (simp add: wsSettleAck_def Let_def fill_def [symmetric] split: sum.split)
  qed
qed

lemma relay_step_wsSettledTrade: "relay_step cr rl (fst (wsSettledTrade cr now st rl))"
proof -
  have "relay_step cr rl (rl\<lparr>rl_store := s\<rparr>)"
    if "RecordSettledFill now k n tx confs nonce (rl_store rl) = (s, out)" for k n tx confs nonce s out
    using run_step [of "OpRecordSettledFill k n tx confs nonce" cr "rl_store rl" now] that
    by (intro relay_step_store) (simp add: op_kinds)
  then show ?thesis
    by (auto simp: wsSettledTrade_def split: sum.split prod.split)
qed

lemma server_ok_settlement:
  "server_ok cr sv \<Longrightarrow> relay_step cr (sv_relay sv) (fst out) \<Longrightarrow> server_ok cr (settlement_reply c out sv)"
  by (cases out) (auto simp: settlement_reply_def server_ok_relay split: sum.split)


subsection \<open>Closing and background work\<close>

lemma server_ok_grace [simp]: "server_ok cr (after_grace now d job sv) = server_ok cr sv"
  by (simp add: after_grace_def)

lemma server_ok_evict:
  "server_ok cr sv \<Longrightarrow> server_ok cr (evict_departed now m sv)"
  using run_step [of "OpRemoveByMaker m" cr "sv_store sv"] by (simp add: evict_departed_def server_ok_store op_kinds)

lemma server_ok_folds:
  "server_ok cr sv \<Longrightarrow> server_ok cr (fold (evict_departed now) ms sv)"
  "server_ok cr sv \<Longrightarrow> server_ok cr (fold (\<lambda>sid. after_grace now d (f sid)) sids sv)"
  by (induction ms arbitrary: sv) (simp_all add: server_ok_evict, induction sids arbitrary: sv, simp_all)

lemma server_ok_closeConn:
  assumes "server_ok cr sv" "c < length (sv_conns sv)"
  shows "server_ok cr (closeConn now c sv)"
proof -
  let ?s = "sv_store sv" and ?wc = "sv_conns sv ! c"
  let ?f = "\<lambda>wc. wc\<lparr>wc_closed := True, wc_subs := []\<rparr>"
  have inv: "distinct (sub_ids ?s)" "\<forall>i\<in>set (sub_ids ?s). i < nextSub ?s"
    using assms by (auto simp: server_ok_def subs_ok_def)
  note un = fold_Unsubscribe [OF inv(1), of "map snd (wc_subs ?wc)"]
  have ok: "server_ok cr (upd_conn c ?f (set_store (fold Unsubscribe (map snd (wc_subs ?wc)) ?s) sv))"
    by (rule server_ok_conn_subs [OF assms]) (use un inv(2) in \<open>auto simp: conn_sub_ids_def gomap_ok_def\<close>)
  show ?thesis
    unfolding closeConn_def releaseAbandonedLifts_def evictConnOffersAfterGrace_def Let_def
    by (auto simp: ok intro!: server_ok_folds split: prod.split)
qed

lemma server_ok_notifyGone [simp]: "server_ok cr sv \<Longrightarrow> server_ok cr (notifyMakerTakerGone sid sv)"
  by (simp add: notifyMakerTakerGone_def split: option.split prod.split)

lemma server_ok_abort:
  assumes "server_ok cr sv"
  shows "server_ok cr (abort_session cr now sid sv)"
proof -
  obtain r hook where ab: "Abort sid (sv_router sv) = (r, hook)" by fastforce
  have step: "router_step (sv_router sv) r" using router_step_close ab by (metis Abort_def fst_conv)
  have ok: "server_ok cr (set_router r sv)" by (rule server_ok_router [OF assms step])
  have "a < length (r_heap r)" if "hook = Some a" for a
    using ab that router_okD(1) [OF server_okD(2) [OF assms]]
    by (fastforce simp: Abort_def closeReopen_def Let_def split: option.splits)
  then have "book_run cr (sv_store sv) (onReopen cr now (r_heap r ! a) (sv_store sv))" if "hook = Some a" for a
    using that server_okD(3) [OF ok] by (intro book_run_onReopen) (simp add: settled_wf_def)
  then show ?thesis
    using ok server_ok_store [OF ok] by (simp add: abort_session_def ab Let_def split: option.split)
qed

lemma server_ok_release: "server_ok cr sv \<Longrightarrow> server_ok cr (release_session cr now sid sv)"
  by (simp add: release_session_def server_ok_abort)

lemma server_ok_timer:
  assumes "server_ok cr sv"
  shows "server_ok cr (timer_fires cr now i sv)"
proof -
  have job: "server_ok cr (run_timer cr now job sv')" if "server_ok cr sv'" for job sv'
  proof (cases job)
    case (EvictGhostOffers m)
    then show ?thesis
      using that run_step [of "OpRemoveInteractiveByMaker m" cr "sv_store sv'"]
      by (simp add: run_timer_def server_ok_store op_kinds)
  next
    case (EvictConnOffers c ks)
    let ?sv = "\<lambda>ow. sv'\<lparr>sv_offerOwners := ow\<rparr>"
    have "server_ok cr (set_store (fst (RemoveInteractiveByKeys stale (sv_store (?sv ow)))) (?sv ow))" for stale ow
      using that run_step [of "OpRemoveInteractiveByKeys stale" cr "sv_store (?sv ow)"]
      by (intro server_ok_store) (simp_all add: op_kinds)
    then show ?thesis using EvictConnOffers by (simp add: run_timer_def Let_def)
  qed (use that in \<open>simp_all add: run_timer_def server_ok_release\<close>)
  show ?thesis using assms by (simp add: timer_fires_def job)
qed

lemma server_ok_pumps:
  assumes "server_ok cr sv"
  shows "server_ok cr (pump_exit i sv)" "server_ok cr (pump_forward i ok sv)"
proof -
  show "server_ok cr (pump_exit i sv)"
    using assms by (simp add: pump_exit_def Let_def server_ok_leave)
  show "server_ok cr (pump_forward i ok sv)"
    using assms server_ok_router [OF assms router_step_drop_inbox]
    by (auto simp: pump_forward_def Let_def intro!: server_ok_leave split: list.split)
qed

lemma fold_reconcile_run:
  assumes "book_run cr s0 s"
  shows "book_run cr s0 (fst (fold (reconcile_one cr chain (NewStoreBook clock)) cs (s, st)))"
  using assms
proof (induction cs arbitrary: s st)
  case (Cons c cs)
  have "book_run cr s0 (fst (drive (NewStoreBook clock) c v s))" for v
    using Cons.prems run_exec [OF Cons.prems, of "OpReconcileCovenantActive (cw_Key c) (vd_LiveSize v)"]
      run_exec [OF Cons.prems, of "OpRerestCovenantRemainder (cw_Key c) (vd_RemainderTxid v) (vd_RemainderVout v) (vd_RemainderSize v)" "clock (cw_Key c)"]
      run_exec [OF Cons.prems, of "OpRemoveCovenantFilled (cw_Key c) (vd_SpenderTxid v)" "clock (cw_Key c)"]
      run_exec [OF Cons.prems, of "OpHoldCovenantForSpend (cw_Key c) (vd_SpenderTxid v)"]
      run_exec [OF Cons.prems, of "OpHoldCovenantGhost (cw_Key c)"] run_exec [OF Cons.prems, of "OpMarkInvalidated (cw_Key c)"]
    by (simp add: drive_def NewStoreBook_def Let_def op_kinds split: cov_verdict_state.split)
  moreover obtain s1 st1 where one: "reconcile_one cr chain (NewStoreBook clock) c (s, st) = (s1, st1)" by fastforce
  ultimately have "book_run cr s0 s1"
    using Cons.prems by (auto simp: reconcile_one_def apply_verdict_def Let_def split: option.splits prod.splits) (metis fst_conv)
  with Cons.IH one show ?case by simp
qed simp

lemma server_ok_watcher:
  assumes "server_ok cr sv"
  shows "server_ok cr (set_store (fst (snd (ReconcileOnce cr chain (NewStoreBook clock) w (sv_store sv)))) sv)"
proof -
  have "book_run cr (sv_store sv) (fst (snd (ReconcileOnce cr chain (NewStoreBook clock) w (sv_store sv))))"
    using fold_reconcile_run [OF run_refl, where cr = cr and chain = chain and clock = clock]
    by (auto simp: ReconcileOnce_def Let_def run_refl case_prod_beta split: option.split)
  then show ?thesis by (rule server_ok_store [OF assms])
qed


section \<open>Every step keeps the invariant\<close>

lemma agg_keys_total:
  "(\<And>k e. map_of (entries s) k = Some e \<Longrightarrow> Pair (e_Offer e) \<noteq> None) \<Longrightarrow> agg_keys keep s ks (a, b) \<noteq> None"
proof (induction ks arbitrary: a b)
  case (Cons k ks)
  have ih: "agg_keys keep s ks (a, b) \<noteq> None" for a b using Cons by blast
  show ?case
  proof (cases "map_of (entries s) k")
    case (Some e)
    have total: "agg_offer (e_Offer e) ao \<noteq> None" for ao
      using Cons.prems [OF Some] by (cases ao) (auto simp: agg_offer_def Let_def split: prod.split)
    obtain x y where "agg_offer (e_Offer e) a = Some x" "agg_offer (e_Offer e) b = Some y"
      using total [of a] total [of b] by blast
    with Some ih show ?thesis by simp
  qed (use ih in simp)
qed simp

lemma markets_total:
  assumes "server_ok cr sv"
  shows "api_markets sv now \<noteq> None"
proof -
  have pairs: "map_of (entries (sv_store sv)) k = Some e \<Longrightarrow> Pair (e_Offer e) \<noteq> None" for k e
    using relay_bookD [OF server_okD(1) [OF assms]] by (simp add: offer_wf_def)
  have "markets_of_pairs keep (sv_store sv) ps \<noteq> None" for keep ps
  proof (induction ps)
    case (Cons p ps)
    obtain pk ks where p: "p = (pk, ks)" by fastforce
    obtain ab where "agg_keys keep (sv_store sv) ks (None, None) = Some ab"
      using agg_keys_total [of "sv_store sv" keep ks None None] pairs by blast
    with Cons p show ?case by (auto simp: Let_def split: prod.split)
  qed simp
  then show ?thesis by (simp add: api_markets_def MarketsFiltered_def)
qed

definition harmless :: "crypto \<Rightarrow> server outcome \<Rightarrow> bool" where
  "harmless cr out \<longleftrightarrow> (case out of Done sv \<Rightarrow> server_ok cr sv | Blocks \<Rightarrow> True | Panics \<Rightarrow> False)"

lemma harmless_simps [simp]: "harmless cr (Done sv) = server_ok cr sv" "harmless cr Blocks" "\<not> harmless cr Panics"
  by (simp_all add: harmless_def)

lemma dispatch_ok:
  assumes "server_ok cr sv" "c < length (sv_conns sv)" "\<not> wc_closed (sv_conns sv ! c)"
  shows "harmless cr (dispatch cr tk c msg ip sv)"
proof (cases msg)
  case (ToOfferSubmit ofr)
  then show ?thesis using wsOfferSubmit_ok [OF assms(1), of tk c ofr ip] by (auto simp: dispatch_def)
next
  case (ToSwapMsg m)
  then show ?thesis
    using wsSwapMsg_ok [OF assms(1), of tk c m] wsSwapMsg_no_panic [of tk c m sv]
    by (cases "wsSwapMsg tk c m sv") (auto simp: dispatch_def)
next
  case ToListMarkets
  obtain ms where "api_markets sv (tk_now tk) = Some ms" using markets_total [OF assms(1)] by blast
  with ToListMarkets show ?thesis using assms(1) by (simp add: dispatch_def)
next
  case (ToSettleAck sa)
  then show ?thesis
    using server_ok_settlement [OF assms(1) relay_step_wsSettleAck] by (simp add: dispatch_def)
next
  case (ToSettledTrade st)
  then show ?thesis
    using server_ok_settlement [OF assms(1) relay_step_wsSettledTrade] by (simp add: dispatch_def)
qed (use assms in \<open>simp_all add: dispatch_def server_ok_wsSubscribe server_ok_wsUnsubscribe server_ok_wsOfferEdit
    server_ok_wsOfferCancel server_ok_wsStartLift server_ok_wsSessionReattach\<close>)

lemma handleOfferSubmit_ok:
  assumes "server_ok cr sv"
  shows "\<exists>sv' h. handleOfferSubmit cr tk r body sv = Done (sv', h) \<and> server_ok cr sv'"
proof (cases body)
  case (Some ofr)
  obtain sv1 res where val: "validate cr tk ofr (clientIP r) sv = (sv1, res)" by fastforce
  note v = validate_relay [OF val]
  note ok = v(3) [OF assms]
  show ?thesis
  proof (cases res)
    case (Inl e)
    then show ?thesis using ok by (auto simp: handleOfferSubmit_def val Some)
  next
    case (Inr u)
    with v(4) have wf: "offer_wf ofr" by simp
    let ?s = "Submit cr (tk_now tk) ofr (sv_store sv1)"
    have sub: "server_ok cr (set_store (fst ?s) sv1)" by (rule server_ok_Submit [OF ok wf])
    obtain sv2 b where cross: "cross_resting tk None ofr (set_store (fst ?s) sv1) = Done (sv2, b)"
      using cross_resting_total [OF sub] by blast
    have "server_ok cr sv2" by (rule server_ok_cross [OF sub cross])
    with sub cross show ?thesis
      by (auto simp: handleOfferSubmit_def val Inr Some split: prod.split sum.split)
  qed
qed (use assms in \<open>simp add: handleOfferSubmit_def\<close>)

lemma server_ok_handleCancel: "server_ok cr sv \<Longrightarrow> server_ok cr (fst (handleCancel cr r body sv))"
  using server_ok_Cancel [of cr sv]
  by (auto simp: handleCancel_def split: option.split sum.split prod.split) (metis fst_conv)+

lemma server_ok_handleLift:
  assumes "server_ok cr sv"
  shows "server_ok cr (fst (handleLift tk r body sv))"
proof (cases body)
  case (Some sl)
  obtain sv' res where "openLift tk sl sv = (sv', res)" by fastforce
  with openLift_ok [OF assms this] assms Some show ?thesis
    by (auto simp: handleLift_def expireUnattachedLift_def Let_def split: sum.split option.split)
qed (use assms in \<open>simp add: handleLift_def\<close>)

lemma Handler_ok:
  assumes "server_ok cr sv"
  shows "\<exists>sv' h. Handler cr tk r b sv = Done (sv', h) \<and> server_ok cr sv'"
proof -
  have "\<exists>ms. api_markets sv (tk_now tk) = Some ms" using markets_total [OF assms] by blast
  then show ?thesis
    using assms handleOfferSubmit_ok [OF assms, of tk r "rb_Offer b"] server_ok_handleCancel [OF assms, of r "rb_Cancel b"]
      server_ok_handleLift [OF assms, of tk r "rb_Lift b"]
    by (auto simp: Handler_def handleOffers_def handleMarkets_def) (metis prod.collapse)+
qed

lemma serve_ok:
  assumes "server_ok cr sv"
  shows "harmless cr (serve cr tk op sv)"
proof (cases op)
  case (SvFrame c fr ip)
  then show ?thesis
    using assms dispatch_ok [OF assms, of c] by (auto simp: serve_def handleWS_def split: option.split)
next
  case (SvRest r b)
  then show ?thesis using Handler_ok [OF assms, of tk r b] by (auto simp: serve_def)
next
  case SvExpirySweep
  then show ?thesis
    using server_ok_store [OF assms run_step [of OpSweepExpired cr "sv_store sv" "tk_now tk"]]
    by (simp add: serve_def op_kinds)
qed (use assms in \<open>simp_all add: serve_def server_ok_accept server_ok_closeConn server_ok_timer server_ok_pumps server_ok_forward
    server_ok_relay relay_step_deadline relay_step_reorg server_ok_watcher\<close>)

lemma serving_ok: "serving cr sv \<Longrightarrow> server_ok cr sv"
proof (induction rule: serving.induct)
  case (serving_step sv tk op sv')
  then show ?case using serve_ok [of cr sv tk op] by simp
qed (rule server_ok_new)


end
