(* ===== verification/Lift_Slots.thy ===== *)
theory Lift_Slots
  imports Api_Invariant
begin

text \<open>
  The lift slot of an offer under concurrency. \<open>openLift\<close> holds \<open>liftMu\<close> only around its critical
  sections: the session is started, and the maker notified, with the slot reserved by a sentinel and
  the lock released. The relation \<open>lifting\<close> interleaves the sections of any number of calls with
  everything else the server does, and records every session opened on an offer that needs a slot.
\<close>

section \<open>Interleaved lifts\<close>

text \<open>A call that has passed the slot check; \<open>pd_res\<close> is what \<open>StartLift\<close> returned, once it has.\<close>

record pending =
  pd_req :: start_lift
  pd_entry :: entry
  pd_res :: "(session_error, nat) result option"

definition holds_slot :: "key \<Rightarrow> pending \<Rightarrow> bool" where
  "holds_slot k p \<longleftrightarrow> GetCovenant (e_Offer (pd_entry p)) = None \<and> lift_key (pd_req p) = k"

definition live :: "string \<Rightarrow> server \<Rightarrow> bool" where
  "live sid sv \<longleftrightarrow> router_Get sid (sv_router sv) \<noteq> None"

definition fresh_id :: "string \<Rightarrow> server \<Rightarrow> bool" where
  "fresh_id sid sv \<longleftrightarrow> sid \<noteq> '''' \<and> sid \<noteq> liftReserving \<and> sid \<notin> ss_ID ` set (r_heap (sv_router sv))"

text \<open>The session a section of \<open>openLift\<close> opens, with the offer whose slot it must hold.\<close>

definition opened :: "string \<Rightarrow> pending \<Rightarrow> (session_error, nat) result \<Rightarrow> (string \<times> key) list" where
  "opened sid p res =
     (case res of Inl _ \<Rightarrow> [] | Inr _ \<Rightarrow> if GetCovenant (e_Offer (pd_entry p)) = None then [(sid, lift_key (pd_req p))] else [])"

inductive lifting :: "server \<Rightarrow> pending list \<Rightarrow> (string \<times> key) list \<Rightarrow> bool" where
  lift_init: "sv_liftActive sv = [] \<Longrightarrow> lifting sv [] []"
| lift_prune: "lifting sv ps h \<Longrightarrow> lifting (pruneDeadLifts sv) ps h"
| lift_exempt: "lifting sv ps h \<Longrightarrow> GetCovenant (e_Offer e) \<noteq> None \<Longrightarrow>
    lifting sv (ps @ [\<lparr>pd_req = sl, pd_entry = e, pd_res = None\<rparr>]) h"
| lift_reserved: "lifting sv ps h \<Longrightarrow> lift_reserve (lift_key sl) sv = (sv', True) \<Longrightarrow>
    lifting sv' (ps @ [\<lparr>pd_req = sl, pd_entry = e, pd_res = None\<rparr>]) h"
| lift_started: "lifting sv ps h \<Longrightarrow> i < length ps \<Longrightarrow> pd_res (ps ! i) = None \<Longrightarrow> fresh_id (tk_newID tk) sv \<Longrightarrow>
    lift_start tk (pd_req (ps ! i)) sv = (sv', res) \<Longrightarrow>
    lifting sv' (ps[i := (ps ! i)\<lparr>pd_res := Some res\<rparr>]) (h @ opened (tk_newID tk) (ps ! i) res)"
| lift_finished: "lifting sv ps h \<Longrightarrow> i < length ps \<Longrightarrow> pd_res (ps ! i) = Some res \<Longrightarrow>
    lift_finish tk (pd_entry (ps ! i)) (pd_req (ps ! i)) res sv = (sv', out) \<Longrightarrow> lifting sv' (take i ps @ drop (Suc i) ps) h"
| lift_other: "lifting sv ps h \<Longrightarrow> sv_liftActive sv' = sv_liftActive sv \<Longrightarrow> (\<And>sid. live sid sv' \<Longrightarrow> live sid sv) \<Longrightarrow>
    map ss_ID (r_heap (sv_router sv')) = map ss_ID (r_heap (sv_router sv)) \<Longrightarrow> lifting sv' ps h"

section \<open>Invariant\<close>

definition holders :: "key \<Rightarrow> pending list \<Rightarrow> pending list" where
  "holders k ps = filter (holds_slot k) ps"

text \<open>A pending call of the offer has started this session.\<close>

definition starting :: "server \<Rightarrow> pending list \<Rightarrow> string \<Rightarrow> key \<Rightarrow> bool" where
  "starting sv ps sid k \<longleftrightarrow>
     (\<exists>p\<in>set (holders k ps). \<exists>a<length (r_heap (sv_router sv)). pd_res p = Some (Inr a) \<and> ss_ID (r_heap (sv_router sv) ! a) = sid)"

definition slots_ok :: "server \<Rightarrow> pending list \<Rightarrow> (string \<times> key) list \<Rightarrow> bool" where
  "slots_ok sv ps h \<longleftrightarrow>
     gomap_ok (sv_liftActive sv) \<and>
     (\<forall>k. length (holders k ps) \<le> 1 \<and> (holders k ps \<noteq> [] \<longrightarrow> map_of (sv_liftActive sv) k = Some liftReserving)) \<and>
     (\<forall>sid k. (sid, k) \<in> set h \<longrightarrow> sid \<noteq> '''' \<and> sid \<noteq> liftReserving \<and> sid \<in> ss_ID ` set (r_heap (sv_router sv)) \<and>
        (live sid sv \<longrightarrow> map_of (sv_liftActive sv) k = Some sid \<or> starting sv ps sid k))"

lemma slots_okD:
  assumes "slots_ok sv ps h"
  shows "gomap_ok (sv_liftActive sv)" "length (holders k ps) \<le> 1"
    "holders k ps \<noteq> [] \<Longrightarrow> map_of (sv_liftActive sv) k = Some liftReserving"
    "(sid, k) \<in> set h \<Longrightarrow> sid \<noteq> '''' \<and> sid \<noteq> liftReserving \<and> sid \<in> ss_ID ` set (r_heap (sv_router sv))"
    "(sid, k) \<in> set h \<Longrightarrow> live sid sv \<Longrightarrow> map_of (sv_liftActive sv) k = Some sid \<or> starting sv ps sid k"
  using assms by (auto simp: slots_ok_def)

text \<open>Two live sessions of one offer are one session.\<close>

lemma slots_ok_unique:
  assumes "slots_ok sv ps h" "(s, k) \<in> set h" "(t, k) \<in> set h" "live s sv" "live t sv"
  shows "s = t"
proof -
  note D = slots_okD [OF assms(1)]
  have one: "p = q" if "p \<in> set (holders k ps)" "q \<in> set (holders k ps)" for p q
    using D(2) [of k] that by (cases "holders k ps") auto
  show ?thesis
    using D(5) [OF assms(2,4)] D(5) [OF assms(3,5)] D(4) [OF assms(2)] D(4) [OF assms(3)] D(3) [of k] one
    unfolding starting_def by (metis empty_iff list.set(1) option.inject sum.inject(2))
qed

lemma lift_fields [simp]:
  "sv_liftActive (send_frame c fr sv) = sv_liftActive sv" "sv_liftActive (ws_send c m sv) = sv_liftActive sv"
  "sv_liftActive (attach c a ro sv) = sv_liftActive sv" "sv_liftActive (set_router r sv) = sv_liftActive sv"
  "sv_liftActive (notifyMaker a sv) = sv_liftActive sv" "sv_liftActive (lift_extend tk e a sv) = sv_liftActive sv"
  by (simp_all add: send_frame_def ws_send_def upd_conn_def attach_def set_router_def notifyMaker_def lift_extend_def Let_def
      split: role.split option.split)

lemma holders_simps [simp]:
  "holders k (ps @ qs) = holders k ps @ holders k qs" "holders k [] = []"
  "holders k [p] = (if holds_slot k p then [p] else [])"
  by (simp_all add: holders_def)

lemma map_of_filter_gomap:
  assumes "gomap_ok m" "map_of m k = Some v" "P (k, v)"
  shows "map_of (filter P m) k = Some v"
proof -
  have "gomap_ok (filter P m)" using assms(1) by (simp add: gomap_ok_def distinct_map_filter)
  moreover have "(k, v) \<in> set (filter P m)" using assms gomap_mem by fastforce
  ultimately show ?thesis using gomap_mem [of "filter P m" k v] by blast
qed

lemma slots_ok_prune:
  assumes "slots_ok sv ps h"
  shows "slots_ok (pruneDeadLifts sv) ps h"
proof -
  let ?m = "sv_liftActive sv" and ?m' = "sv_liftActive (pruneDeadLifts sv)"
  note D = slots_okD [OF assms]
  have keep: "map_of ?m' k = Some v" if "map_of ?m k = Some v" "v = liftReserving \<or> live v sv" for k v
    using map_of_filter_gomap [OF D(1) that(1)] that(2) by (auto simp: pruneDeadLifts_def live_def)
  have "gomap_ok ?m'" using D(1) by (simp add: pruneDeadLifts_def gomap_ok_def distinct_map_filter)
  moreover have same: "live sid (pruneDeadLifts sv) = live sid sv" "sv_router (pruneDeadLifts sv) = sv_router sv"
      "starting (pruneDeadLifts sv) ps sid k = starting sv ps sid k" for sid k
    by (simp_all add: live_def pruneDeadLifts_def starting_def)
  ultimately show ?thesis
    unfolding slots_ok_def same using D keep by blast
qed

lemma slots_ok_reserve:
  assumes "slots_ok sv ps h" "lift_reserve (lift_key sl) sv = (sv', True)"
  shows "slots_ok sv' (ps @ [\<lparr>pd_req = sl, pd_entry = e, pd_res = None\<rparr>]) h"
proof -
  let ?k = "lift_key sl" and ?p = "\<lparr>pd_req = sl, pd_entry = e, pd_res = None\<rparr>"
  note D = slots_okD [OF assms(1)]
  have sv': "sv' = sv\<lparr>sv_liftActive := AList.update ?k liftReserving (sv_liftActive sv)\<rparr>"
    and free: "map_of (sv_liftActive sv) ?k = Some v \<Longrightarrow> v = '''' \<or> v \<noteq> liftReserving \<and> \<not> live v sv" for v
    using assms(2) by (auto simp: lift_reserve_def live_def split: option.splits if_splits)
  have none: "holders ?k ps = []"
    using D(3) [of ?k] free by (fastforce simp: liftReserving_def)
  have dead: "\<not> live sid sv" if "(sid, ?k) \<in> set h" for sid
    using D(4,5) [OF that] free none by (auto simp: starting_def)
  have same: "live sid sv' = live sid sv" "sv_router sv' = sv_router sv" for sid
    by (simp_all add: sv' live_def)
  have start: "starting sv' (ps @ [?p]) sid k = starting sv ps sid k" for sid k
    by (auto simp: starting_def sv' split: if_splits)
  have own: "holds_slot k ?p \<Longrightarrow> k = ?k" for k by (simp add: holds_slot_def)
  show ?thesis
    unfolding slots_ok_def same start
  proof (intro conjI allI impI)
    show "gomap_ok (sv_liftActive sv')" using D(1) by (simp add: sv')
    fix k
    show "length (holders k (ps @ [?p])) \<le> 1" using D(2) [of k] none own by auto
    show "map_of (sv_liftActive sv') k = Some liftReserving" if "holders k (ps @ [?p]) \<noteq> []"
      using that D(3) [of k] own by (auto simp: sv' map_of_update split: if_splits)
    fix sid
    assume h: "(sid, k) \<in> set h"
    show "sid \<noteq> ''''" "sid \<noteq> liftReserving" "sid \<in> ss_ID ` set (r_heap (sv_router sv))" using D(4) [OF h] by auto
    show "map_of (sv_liftActive sv') k = Some sid \<or> starting sv ps sid k" if "live sid sv"
      using D(5) [OF h that] dead h that by (auto simp: sv' map_of_update)
  qed
qed

lemma lift_start_cases:
  assumes "lift_start tk sl sv = (sv', res)"
  obtains e where "res = Inl e" "sv' = sv"
  | a where "res = Inr a" "sv_liftActive sv' = sv_liftActive sv" "a = length (r_heap (sv_router sv))"
      "map ss_ID (r_heap (sv_router sv')) = map ss_ID (r_heap (sv_router sv)) @ [tk_newID tk]"
      "\<And>sid. live sid sv' \<longleftrightarrow> sid = tk_newID tk \<or> live sid sv"
proof (cases "sl_OfferId sl = '''' \<or> sl_MakerPubkey sl = ''''")
  case True
  then have "res = Inl ErrLiftFields \<and> sv' = sv"
    using assms by (auto simp: lift_start_def StartLift_def set_router_def)
  then show ?thesis using that(1) by blast
next
  case False
  then show ?thesis
    using assms by (intro that(2) [of "length (r_heap (sv_router sv))"])
      (auto simp: lift_start_def StartLift_def Let_def live_def router_Get_def map_of_update)
qed

lemma holders_update:
  assumes "i < length ps" "pd_req p = pd_req (ps ! i)" "pd_entry p = pd_entry (ps ! i)"
  shows "length (holders k (ps[i := p])) = length (holders k ps)"
proof -
  have "holders k ps = holders k (take i ps @ ps ! i # drop (Suc i) ps)" using id_take_nth_drop [OF assms(1)] by metis
  moreover have "holds_slot k p = holds_slot k (ps ! i)" using assms by (simp only: holds_slot_def)
  ultimately show ?thesis using assms(1) by (simp add: upd_conv_take_nth_drop holders_def)
qed

lemma slots_ok_start:
  assumes "slots_ok sv ps h" "i < length ps" "pd_res (ps ! i) = None" "fresh_id (tk_newID tk) sv"
    "lift_start tk (pd_req (ps ! i)) sv = (sv', res)"
  shows "slots_ok sv' (ps[i := (ps ! i)\<lparr>pd_res := Some res\<rparr>]) (h @ opened (tk_newID tk) (ps ! i) res)"
proof -
  let ?p = "ps ! i" and ?q = "(ps ! i)\<lparr>pd_res := Some res\<rparr>" and ?id = "tk_newID tk"
  let ?ps = "ps[i := ?q]"
  note D = slots_okD [OF assms(1)]
  have len: "length (holders k ?ps) = length (holders k ps)" for k
    using holders_update [OF assms(2), of ?q] by simp
  then have nil: "holders k ?ps = [] \<longleftrightarrow> holders k ps = []" for k by (metis length_0_conv)
  have keep: "p \<in> set (holders k ?ps)" if "p \<in> set (holders k ps)" "pd_res p \<noteq> None" for p k
  proof -
    have "p \<in> set ps" "holds_slot k p" using that(1) by (simp_all add: holders_def)
    moreover from this obtain j where "j < length ps" "p = ps ! j" by (metis in_set_conv_nth)
    moreover from this that(2) assms(3) have "?ps ! j = p" by (cases "j = i") auto
    ultimately have "p \<in> set ?ps" by (metis length_list_update nth_mem)
    with \<open>holds_slot k p\<close> show ?thesis by (simp add: holders_def)
  qed
  from assms(5) show ?thesis
  proof (cases rule: lift_start_cases)
    case (1 e)
    have "starting sv ?ps sid k" if "starting sv ps sid k" for sid k
      using that keep unfolding starting_def by (metis option.distinct(1))
    then show ?thesis using assms(1) len nil 1 unfolding slots_ok_def by (simp add: opened_def) blast
  next
    case (2 a)
    have heap: "length (r_heap (sv_router sv')) = Suc (length (r_heap (sv_router sv)))"
      using arg_cong [OF 2(4), of length] by simp
    have nth: "ss_ID (r_heap (sv_router sv') ! b) = (map ss_ID (r_heap (sv_router sv)) @ [?id]) ! b"
      if "b < length (r_heap (sv_router sv'))" for b
      using that by (simp flip: 2(4))
    have old: "ss_ID (r_heap (sv_router sv') ! b) = ss_ID (r_heap (sv_router sv) ! b)" "b < length (r_heap (sv_router sv'))"
      if "b < length (r_heap (sv_router sv))" for b
      using nth [of b] heap that by (simp_all add: nth_append)
    have new: "ss_ID (r_heap (sv_router sv') ! a) = ?id" "a < length (r_heap (sv_router sv'))"
      using nth [of a] heap 2(3) by (simp_all add: nth_append)
    have ids: "ss_ID ` set (r_heap (sv_router sv')) = insert ?id (ss_ID ` set (r_heap (sv_router sv)))"
      using arg_cong [OF 2(4), of set] by simp
    have start: "starting sv' ?ps sid k" if "starting sv ps sid k" for sid k
      using that keep old unfolding starting_def by (metis option.distinct(1))
    have mine: "starting sv' ?ps ?id (lift_key (pd_req ?p))" if "GetCovenant (e_Offer (pd_entry ?p)) = None"
    proof -
      have "?q \<in> set (holders (lift_key (pd_req ?p)) ?ps)"
        using assms(2) that by (auto simp: holders_def holds_slot_def set_update_memI)
      moreover have "pd_res ?q = Some (Inr a)" using 2(1) by simp
      ultimately show ?thesis unfolding starting_def using new by blast
    qed
    have other: "live sid sv" if "(sid, k) \<in> set h" "live sid sv'" for sid k
    proof -
      have "sid \<noteq> ?id" using D(4) [OF that(1)] assms(4) by (metis fresh_id_def)
      with that(2) show ?thesis by (simp add: 2(5))
    qed
    have fresh: "?id \<noteq> ''''" "?id \<noteq> liftReserving" using assms(4) by (simp_all add: fresh_id_def)
    have cases: "(sid, k) \<in> set h \<or> sid = ?id \<and> k = lift_key (pd_req ?p) \<and> GetCovenant (e_Offer (pd_entry ?p)) = None"
      if "(sid, k) \<in> set (h @ opened ?id ?p res)" for sid k
      using that by (auto simp: opened_def simp del: GetCovenant_Some split: sum.splits if_splits)
    show ?thesis
      unfolding slots_ok_def 2(2) len nil ids
      using D start mine other fresh cases by (metis insert_iff)
  qed
qed


lemma holders_remove:
  assumes "i < length ps"
  shows "length (holders k ps) = length (holders k (take i ps @ drop (Suc i) ps)) + (if holds_slot k (ps ! i) then 1 else 0)"
  using length_filter_nth [OF assms, of "holds_slot k"] by (simp add: holders_def)

lemma lift_extend_sessions:
  "live sid (lift_extend tk e a sv) = live sid sv"
  "map ss_ID (r_heap (sv_router (lift_extend tk e a sv))) = map ss_ID (r_heap (sv_router sv))"
proof -
  let ?r = "sv_router sv"
  have "map ss_ID (r_heap (ExtendDeadline now i d ?r)) = map ss_ID (r_heap ?r)" for now i d
    by (simp add: ExtendDeadline_def map_update list_update_same_conv split: option.split)
      (metis length_map list_update_beyond list_update_id not_less nth_map)
  then show "map ss_ID (r_heap (sv_router (lift_extend tk e a sv))) = map ss_ID (r_heap (sv_router sv))"
    by (simp add: lift_extend_def)
  show "live sid (lift_extend tk e a sv) = live sid sv"
    by (simp add: lift_extend_def live_def router_Get_def ExtendDeadline_def split: option.split)
qed

lemma slots_ok_ids:
  assumes "slots_ok sv ps h" "sv_liftActive sv' = sv_liftActive sv" "\<And>sid. live sid sv' \<Longrightarrow> live sid sv"
    "map ss_ID (r_heap (sv_router sv')) = map ss_ID (r_heap (sv_router sv))"
  shows "slots_ok sv' ps h"
proof -
  have ids: "ss_ID ` set (r_heap (sv_router sv')) = ss_ID ` set (r_heap (sv_router sv))"
    using arg_cong [OF assms(4), of set] by simp
  have len: "length (r_heap (sv_router sv')) = length (r_heap (sv_router sv))" using assms(4) by (metis length_map)
  have nth: "ss_ID (r_heap (sv_router sv') ! a) = ss_ID (r_heap (sv_router sv) ! a)" if "a < length (r_heap (sv_router sv))" for a
    using assms(4) len that by (metis nth_map)
  have "starting sv' ps sid k = starting sv ps sid k" for sid k
    unfolding starting_def len using nth by metis
  with assms ids show ?thesis unfolding slots_ok_def by auto
qed

text \<open>Ending a call: the slot gets the session, or is freed.\<close>

lemma slots_ok_record:
  assumes "slots_ok sv ps h" "i < length ps" "pd_res (ps ! i) = Some res" "GetCovenant (e_Offer (pd_entry (ps ! i))) = None"
  shows "slots_ok (lift_record (lift_key (pd_req (ps ! i))) res sv) (take i ps @ drop (Suc i) ps) h"
proof -
  let ?p = "ps ! i" and ?k = "lift_key (pd_req (ps ! i))" and ?ps = "take i ps @ drop (Suc i) ps"
  let ?sv = "lift_record ?k res sv"
  note D = slots_okD [OF assms(1)]
  have mine: "holds_slot k ?p \<longleftrightarrow> k = ?k" for k using assms(4) by (auto simp: holds_slot_def simp del: GetCovenant_Some)
  have len: "length (holders k ps) = length (holders k ?ps) + (if k = ?k then 1 else 0)" for k
    using holders_remove [OF assms(2), of k] by (simp add: mine)
  have only: "holders ?k ps = [?p]"
  proof -
    have "?p \<in> set (holders ?k ps)" using assms(2) mine by (simp add: holders_def)
    with D(2) [of ?k] show ?thesis by (cases "holders ?k ps") auto
  qed
  have none: "holders ?k ?ps = []" using len [of ?k] only by simp
  have slot: "map_of (sv_liftActive sv) ?k = Some liftReserving" using D(3) [of ?k] only by simp
  have rt: "sv_router ?sv = sv_router sv" "live sid ?sv = live sid sv" for sid
    by (simp_all add: lift_record_def live_def split: sum.split)
  have slots: "map_of (sv_liftActive ?sv) k = map_of (sv_liftActive sv) k" if "k \<noteq> ?k" for k
    using that by (simp add: lift_record_def map_of_update map_of_delete split: sum.split)
  have started: "\<exists>a. res = Inr a \<and> ss_ID (r_heap (sv_router sv) ! a) = sid" if "(sid, ?k) \<in> set h" "live sid sv" for sid
    using D(5) [OF that] D(4) [OF that(1)] slot only assms(3) by (auto simp: starting_def)
  have others: "starting ?sv ?ps sid k = starting sv ps sid k" if "k \<noteq> ?k" for sid k
  proof -
    have "filter (holds_slot k) ps = filter (holds_slot k) (take i ps @ ps ! i # drop (Suc i) ps)"
      using id_take_nth_drop [OF assms(2)] by metis
    then have "holders k ?ps = holders k ps" using mine [of k] that by (simp add: holders_def)
    then show ?thesis by (simp add: starting_def rt)
  qed
  show ?thesis
    unfolding slots_ok_def rt
  proof (intro conjI allI impI)
    show "gomap_ok (sv_liftActive ?sv)" using D(1) by (simp add: lift_record_def split: sum.split)
    fix k
    show "length (holders k ?ps) \<le> 1" using D(2) [of k] len [of k] by simp
    show "map_of (sv_liftActive ?sv) k = Some liftReserving" if "holders k ?ps \<noteq> []"
    proof (cases "k = ?k")
      case False
      with that len [of k] D(3) [of k] slots show ?thesis by (metis add.right_neutral length_0_conv)
    qed (use that none in simp)
    fix sid
    assume h: "(sid, k) \<in> set h"
    show "sid \<noteq> ''''" "sid \<noteq> liftReserving" "sid \<in> ss_ID ` set (r_heap (sv_router sv))" using D(4) [OF h] by auto
    show "map_of (sv_liftActive ?sv) k = Some sid \<or> starting ?sv ?ps sid k" if "live sid sv"
    proof (cases "k = ?k")
      case True
      then show ?thesis using started [of sid] h that by (auto simp: lift_record_def map_of_update)
    qed (use D(5) [OF h that] slots others in simp)
  qed
qed

lemma slots_ok_finish:
  assumes "slots_ok sv ps h" "i < length ps" "pd_res (ps ! i) = Some res"
    "lift_finish tk (pd_entry (ps ! i)) (pd_req (ps ! i)) res sv = (sv', out)"
  shows "slots_ok sv' (take i ps @ drop (Suc i) ps) h"
proof -
  let ?ps = "take i ps @ drop (Suc i) ps"
  let ?sv = "if GetCovenant (e_Offer (pd_entry (ps ! i))) \<noteq> None then sv else lift_record (lift_key (pd_req (ps ! i))) res sv"
  have "slots_ok ?sv ?ps h"
  proof (cases "GetCovenant (e_Offer (pd_entry (ps ! i))) = None")
    case True
    then show ?thesis using slots_ok_record [OF assms(1-3) True] by (simp del: GetCovenant_Some)
  next
    case False
    have "filter (holds_slot k) ps = filter (holds_slot k) (take i ps @ ps ! i # drop (Suc i) ps)" for k
      using id_take_nth_drop [OF assms(2)] by metis
    with False have "holders k ?ps = holders k ps" for k
      by (simp add: holders_def holds_slot_def [of k "ps ! i"] del: GetCovenant_Some)
    with assms(1) False show ?thesis by (simp add: slots_ok_def starting_def del: GetCovenant_Some)
  qed
  moreover have "sv' = ?sv \<or> (\<exists>a. sv' = lift_extend tk (pd_entry (ps ! i)) a ?sv)"
    using assms(4) by (auto simp: lift_finish_def Let_def split: sum.splits)
  moreover have "slots_ok (lift_extend tk e a sv0) ?ps h" if "slots_ok sv0 ?ps h" for e a sv0
    by (rule slots_ok_ids [OF that]) (simp_all add: lift_extend_sessions)
  ultimately show ?thesis by auto
qed

lemma lifting_slots_ok: "lifting sv ps h \<Longrightarrow> slots_ok sv ps h"
proof (induction rule: lifting.induct)
  case (lift_exempt sv ps h e sl)
  then have "holders k (ps @ [\<lparr>pd_req = sl, pd_entry = e, pd_res = None\<rparr>]) = holders k ps" for k
    by (simp add: holds_slot_def del: GetCovenant_Some)
  with lift_exempt show ?case by (simp add: slots_ok_def starting_def del: holders_simps)
next
  case (lift_other sv ps h sv')
  then show ?case using slots_ok_ids by blast
qed (simp_all add: slots_ok_prune slots_ok_reserve slots_ok_start slots_ok_finish, simp add: slots_ok_def)


end
