(* ===== verification/Api_Properties.thy ===== *)
theory Api_Properties
  imports Lift_Slots Gate_Properties
begin

text \<open>
  Properties of the relay's API: the server as a whole, the lift slots, submissions and the maker's
  endpoint, abandoned lifts, and the market data it serves.
\<close>

section \<open>Concrete servers\<close>

text \<open>The server after start-up with one client connected, and the same server over the sample book.\<close>

definition one_client :: server where
  "one_client = fst (ws_accept (SetCrossSessionDeadline 0 (NewServer NewStore (NewValidator DefaultConfig None) (NewRouter 0))))"

definition book_server :: server where
  "book_server = set_store sample_store one_client"

definition call_at :: "time \<Rightarrow> api_call" where
  "call_at t = \<lparr>tk_validator = (t, t, t), tk_now = t, tk_newID = ''s1'', tk_matchID = (\<lambda>n. ''m''), tk_pick = False\<rparr>"

lemma one_client_serving: "serving cr one_client"
proof -
  have "serve cr (call_at 0) SvAccept (SetCrossSessionDeadline 0 (NewServer NewStore (NewValidator DefaultConfig None) (NewRouter 0))) =
      Done one_client"
    by (simp add: serve_def one_client_def)
  with serving_new show ?thesis by (rule serving_step)
qed

lemma one_client_fields [simp]:
  "sv_conns one_client = [new_conn]" "sv_store one_client = NewStore" "sv_liftActive one_client = []" "sv_pumps one_client = []"
  "sv_makerConns one_client = []" "sv_router one_client = NewRouter 0" "sv_crossDeadline one_client = 0"
  "sv_validator one_client = NewValidator DefaultConfig None" "sv_takerConns one_client = []" "sv_offerOwners one_client = []"
  "sv_timers one_client = []"
  by (simp_all add: one_client_def ws_accept_def SetCrossSessionDeadline_def NewServer_def)

section \<open>The server\<close>

lemma wsOfferSubmit_answers: "wsOfferSubmit cr tk c ofr ip sv \<noteq> Blocks"
  by (auto simp: wsOfferSubmit_def cross_resting_def Let_def split: prod.split sum.split option.split)

lemma Handler_answers: "Handler cr tk r b sv \<noteq> Blocks"
  by (auto simp: Handler_def handleOffers_def handleMarkets_def handleOfferSubmit_def cross_resting_def Let_def
      split: prod.split sum.split option.split)

text \<open>C9: the relay never crashes: in no state it can reach, whatever requests, frames, timers, sweeps and watcher passes came before,
  does a step panic; and every step runs to its end except the delivery of a swap message, which may wait for room in the
  counterparty's inbox.\<close>

theorem relay_never_panics:
  assumes "serving cr sv"
  shows "(\<exists>sv'. serve cr tk op sv = Done sv') \<or>
    (\<exists>c m ip. op = SvFrame c (Some (ToSwapMsg m)) ip \<and> serve cr tk op sv = Blocks)"
proof -
  have ok: "harmless cr (serve cr tk op sv)" using serve_ok [OF serving_ok [OF assms]] .
  have waits: "\<exists>c m ip. op = SvFrame c (Some (ToSwapMsg m)) ip" if "serve cr tk op sv = Blocks"
    using that wsOfferSubmit_answers [of cr tk] Handler_answers [of cr tk]
    by (auto simp: serve_def handleWS_def dispatch_def split: server_op.splits outcome.splits option.splits to_msg.splits if_splits)
  show ?thesis using ok waits by (cases "serve cr tk op sv") auto
qed

theorem relay_never_panics_witness:
  "\<exists>sv'. serve demo_crypto (call_at Second) (SvFrame 0 (Some (ToOfferSubmit ask_offer)) ''ip'') one_client = Done sv'"
  using relay_never_panics [OF one_client_serving, of demo_crypto "call_at Second" "SvFrame 0 (Some (ToOfferSubmit ask_offer)) ''ip''"]
  by blast

lemma conn_subs_bound:
  "\<forall>wc\<in>set wcs. length (wc_subs wc) \<le> n \<and> (wc_closed wc \<longrightarrow> wc_subs wc = []) \<Longrightarrow>
   size (sum_list (map conn_sub_ids wcs)) \<le> n * length (filter (\<lambda>wc. \<not> wc_closed wc) wcs)"
  by (induction wcs) (auto simp: conn_sub_ids_def)

text \<open>C12: in every state the relay reaches, its parts agree: the book satisfies its invariant and every resting offer is well formed, the
  router's sessions are consistent, the pump count that decides whether a peer is attached is the number of pumps that run, and
  the book serves at most 64 subscriptions per open connection.\<close>

theorem relay_invariant:
  assumes "serving cr sv"
  shows "book_ok cr (sv_store sv) \<and> (\<forall>k e. map_of (entries (sv_store sv)) k = Some e \<longrightarrow> offer_wf (e_Offer e)) \<and>
    router_ok (sv_router sv) \<and>
    (\<forall>sid ro. pumpCount sid ro sv = int (length (filter (\<lambda>p. pm_sid p = sid \<and> pm_role p = ro) (sv_pumps sv)))) \<and>
    length (subs (sv_store sv)) \<le> maxSubsPerConn * length (filter (\<lambda>wc. \<not> wc_closed wc) (sv_conns sv))"
proof -
  note ok = serving_ok [OF assms]
  note D = server_okD [OF ok]
  have so: "subs_ok sv" using ok by (simp add: server_ok_def)
  then have "\<forall>wc\<in>set (sv_conns sv). length (wc_subs wc) \<le> maxSubsPerConn \<and> (wc_closed wc \<longrightarrow> wc_subs wc = [])"
    by (auto simp: subs_ok_def in_set_conv_nth)
  from conn_subs_bound [OF this] so
  have "length (subs (sv_store sv)) \<le> maxSubsPerConn * length (filter (\<lambda>wc. \<not> wc_closed wc) (sv_conns sv))"
    by (simp add: subs_ok_def sub_ids_def)
  then show ?thesis
    using D ok relay_bookD [OF D(1)] by (auto simp: server_ok_def pumps_ok_def pumps_for_def)
qed

theorem relay_invariant_witness: "length (subs (sv_store one_client)) \<le> 64 \<and> pumpCount ''s'' RoleTaker one_client = 0"
  using relay_invariant [OF one_client_serving] by (simp add: maxSubsPerConn_def new_conn_def)

section \<open>Lifts\<close>

text \<open>C10: however the critical sections of concurrent lifts interleave with each other and with the rest of the server, at most one
  session opened on an interactive offer is live at any moment.\<close>

theorem one_live_lift_per_offer:
  assumes "lifting sv ps h"
  shows "card {sid. (sid, k) \<in> set h \<and> live sid sv} \<le> 1"
proof -
  have "s = t" if "s \<in> {sid. (sid, k) \<in> set h \<and> live sid sv}" "t \<in> {sid. (sid, k) \<in> set h \<and> live sid sv}" for s t
    using slots_ok_unique [OF lifting_slots_ok [OF assms]] that by blast
  moreover have "finite {sid. (sid, k) \<in> set h \<and> live sid sv}"
    by (rule finite_subset [of _ "fst ` set h"]) (auto simp: rev_image_eqI)
  ultimately have "card {sid. (sid, k) \<in> set h \<and> live sid sv} \<le> Suc 0" by (simp only: card_le_Suc0_iff_eq) blast
  then show ?thesis by simp
qed

definition bid_lift :: start_lift where
  "bid_lift = \<lparr>sl_OfferId = ''b'', sl_MakerPubkey = ''02010100'', sl_TakeAmount = 10, sl_TakerSessionPubkey = [2, 1, 1, 1, 0],
     sl_TimeInForce = TIME_IN_FORCE_UNSPECIFIED\<rparr>"

definition bid_pending :: pending where
  "bid_pending = \<lparr>pd_req = bid_lift, pd_entry = bid_entry, pd_res = None\<rparr>"

definition lifted_server :: server where
  "lifted_server = fst (lift_start (call_at (3 * Second)) bid_lift (fst (lift_reserve (lift_key bid_lift) book_server)))"

lemma book_server_fields [simp]:
  "sv_conns book_server = [new_conn]" "sv_store book_server = sample_store" "sv_liftActive book_server = []" "sv_pumps book_server = []"
  "sv_makerConns book_server = []" "sv_router book_server = NewRouter 0" "sv_takerConns book_server = []"
  by (simp_all add: book_server_def set_store_def)

lemma bid_lift_key: "lift_key bid_lift = keyOf bid_offer"
  by (simp add: lift_key_def bid_lift_def sample_keys)

lemma lifted_server_lifting:
  "lifting lifted_server [bid_pending\<lparr>pd_res := Some (Inr 0)\<rparr>] [(''s1'', keyOf bid_offer)] \<and> live ''s1'' lifted_server"
proof -
  let ?sv = "fst (lift_reserve (lift_key bid_lift) book_server)"
  have r: "lift_reserve (lift_key bid_lift) book_server = (?sv, True)" by (simp add: lift_reserve_def)
  have rt: "sv_router (fst (lift_reserve k book_server)) = NewRouter 0" "sv_makerConns (fst (lift_reserve k book_server)) = []" for k
    by (simp_all add: lift_reserve_def)
  have l0: "lifting ?sv [bid_pending] []"
    using lift_reserved [OF lift_init r, of bid_entry] by (simp add: bid_pending_def)
  have start: "lift_start (call_at (3 * Second)) (pd_req ([bid_pending] ! 0)) ?sv = (lifted_server, Inr 0)"
    by (simp add: lifted_server_def bid_pending_def lift_start_def StartLift_def rt NewRouter_def call_at_def bid_lift_def
        Let_def notifyMaker_def)
  have interactive: "GetCovenant (e_Offer bid_entry) = None"
    by (simp add: bid_entry_def new_entry_def bid_offer_def GetCovenant_def)
  have "fresh_id (tk_newID (call_at (3 * Second))) ?sv" by (simp add: fresh_id_def rt NewRouter_def call_at_def liftReserving_def)
  from lift_started [OF l0 _ _ this start]
  have "lifting lifted_server [bid_pending\<lparr>pd_res := Some (Inr 0)\<rparr>] (opened ''s1'' bid_pending (Inr 0))"
    by (simp add: bid_pending_def call_at_def)
  moreover have "opened ''s1'' bid_pending (Inr 0) = [(''s1'', keyOf bid_offer)]"
    using interactive by (simp add: opened_def bid_pending_def bid_lift_key)
  moreover have "live ''s1'' lifted_server"
    using lift_start_cases [OF start] by (auto simp: call_at_def)
  ultimately show ?thesis by simp
qed

theorem one_live_lift_per_offer_witness:
  "live ''s1'' lifted_server \<and> card {sid. (sid, keyOf bid_offer) \<in> set [(''s1'', keyOf bid_offer)] \<and> live sid lifted_server} \<le> 1"
  using one_live_lift_per_offer [OF conjunct1 [OF lifted_server_lifting], of "keyOf bid_offer"] lifted_server_lifting by blast

section \<open>Abandoned lifts\<close>

lemma Abort_sessions: "router_Get i (fst (Abort sid r)) = (if i = sid then None else router_Get i r)"
  by (auto simp: Abort_def closeReopen_def router_Get_def Let_def map_of_delete split: option.split)

lemma release_session_sessions:
  "router_Get i (sv_router (release_session cr now sid sv)) = (if i = sid then None else router_Get i (sv_router sv))"
proof -
  have gone: "sv_router (notifyMakerTakerGone sid sv') = sv_router sv'" for sv'
    by (auto simp: notifyMakerTakerGone_def sendErr_def split: option.split)
  have "sv_router (abort_session cr now sid sv) = fst (Abort sid (sv_router sv))"
    by (auto simp: abort_session_def Let_def split: prod.split option.split)
  then show ?thesis by (auto simp: release_session_def gone Abort_sessions)
qed

lemma release_session_slots [simp]: "sv_liftActive (release_session cr now sid sv) = sv_liftActive sv"
proof -
  have "sv_liftActive (notifyMakerTakerGone sid sv') = sv_liftActive sv'" for sv'
    by (auto simp: notifyMakerTakerGone_def sendErr_def split: option.split)
  moreover have "sv_liftActive (set_store s sv') = sv_liftActive sv'" for s sv' by (simp add: set_store_def)
  ultimately show ?thesis by (auto simp: release_session_def abort_session_def Let_def split: prod.split option.split)
qed

section \<open>The maker's endpoint\<close>

lemma makerConns_frame [simp]:
  "sv_makerConns (upd_conn c f sv) = sv_makerConns sv" "sv_makerConns (set_store s sv) = sv_makerConns sv"
  "sv_makerConns (set_router r sv) = sv_makerConns sv" "sv_makerConns (send_frame c fr sv) = sv_makerConns sv"
  "sv_makerConns (ws_send c m sv) = sv_makerConns sv" "sv_makerConns (sendErr c code e sv) = sv_makerConns sv"
  "sv_makerConns (ownOffer c ofr sv) = sv_makerConns sv" "sv_makerConns (attach c a ro sv) = sv_makerConns sv"
  "sv_makerConns (pump_leave i sv) = sv_makerConns sv" "sv_makerConns (after_grace now d job sv) = sv_makerConns sv"
  "sv_makerConns (registerMaker c pk sv) = AList.update pk c (sv_makerConns sv)"
  by (simp_all add: upd_conn_def set_store_def set_router_def send_frame_def ws_send_def sendErr_def ownOffer_def attach_def
      pump_leave_def after_grace_def registerMaker_def Let_def split: role.split)

lemma makerConns_handlers [simp]:
  "sv_makerConns (wsSubscribe tk c p sv) = sv_makerConns sv" "sv_makerConns (wsUnsubscribe c p sv) = sv_makerConns sv"
  "sv_makerConns (wsOfferEdit cr tk c ofr ip sv) = sv_makerConns sv" "sv_makerConns (wsOfferCancel cr c can sv) = sv_makerConns sv"
  "sv_makerConns (pump_forward i ok sv) = sv_makerConns sv" "sv_makerConns (pump_exit i sv) = sv_makerConns sv"
  by (auto simp: wsSubscribe_def wsUnsubscribe_def wsOfferEdit_def wsOfferCancel_def pump_forward_def pump_exit_def validate_def Let_def
      split: option.split prod.split sum.split list.split)

lemma makerConns_routeMatches [simp]: "sv_makerConns (routeMatches tc ids mts sv) = sv_makerConns sv"
  by (induction mts arbitrary: ids sv) (simp_all add: route_match_def Let_def split: option.split)

lemma makerConns_cross: "cross_resting tk tc ofr sv = Done (sv', b) \<Longrightarrow> sv_makerConns sv' = sv_makerConns sv"
  by (auto simp: cross_resting_def Let_def split: option.splits prod.splits)

lemma makerConns_lift [simp]:
  "sv_makerConns (pruneDeadLifts sv) = sv_makerConns sv" "sv_makerConns (fst (lift_reserve k sv)) = sv_makerConns sv"
  "sv_makerConns (notifyMaker a sv) = sv_makerConns sv" "sv_makerConns (fst (lift_start tk sl sv)) = sv_makerConns sv"
  "sv_makerConns (lift_record k res sv) = sv_makerConns sv" "sv_makerConns (lift_extend tk e a sv) = sv_makerConns sv"
  by (auto simp: pruneDeadLifts_def lift_reserve_def notifyMaker_def lift_start_def lift_record_def lift_extend_def Let_def
      split: option.split prod.split sum.split)

lemma makerConns_lift_ends [simp]:
  "sv_makerConns (fst (lift_slot e sl sv)) = sv_makerConns sv" "sv_makerConns (fst (lift_finish tk e sl res sv)) = sv_makerConns sv"
  by (simp_all add: lift_slot_def lift_finish_def Let_def split: sum.split)

lemma makerConns_openLift [simp]: "sv_makerConns (fst (openLift tk sl sv)) = sv_makerConns sv"
proof (cases "lift_check sl sv")
  case (Inr e)
  obtain sv1 b where slot: "lift_slot e sl sv = (sv1, b)" by fastforce
  obtain sv2 res where start: "lift_start tk sl sv1 = (sv2, res)" by fastforce
  have "sv_makerConns sv1 = sv_makerConns sv" "sv_makerConns sv2 = sv_makerConns sv1"
    using makerConns_lift_ends(1) [of e sl sv] makerConns_lift(4) [of tk sl sv1] by (simp_all add: slot start)
  then show ?thesis by (cases b) (simp_all add: openLift_def Inr slot start)
qed (simp add: openLift_def)

lemma makerConns_opened: "openLift tk sl sv = (sv', res) \<Longrightarrow> sv_makerConns sv' = sv_makerConns sv"
  by (metis fst_conv makerConns_openLift)

lemma makerConns_fold_send [simp]: "sv_makerConns (fold (send_frame c) frs sv) = sv_makerConns sv"
  by (induction frs arbitrary: sv) simp_all

lemma makerConns_sessions [simp]:
  "sv_makerConns (wsStartLift tk c sl sv) = sv_makerConns sv" "sv_makerConns (settlement_reply c out sv) = sv_makerConns sv"
  "sv_makerConns (release_session cr now sid sv) = sv_makerConns sv" "sv_makerConns (forward_turn c i sv) = sv_makerConns sv"
  "sv_makerConns (timer_fires cr now n sv) = sv_makerConns sv"
proof -
  show "sv_makerConns (wsStartLift tk c sl sv) = sv_makerConns sv"
    by (auto simp: wsStartLift_def makerConns_opened split: prod.split sum.split)
  show "sv_makerConns (settlement_reply c out sv) = sv_makerConns sv" "sv_makerConns (forward_turn c i sv) = sv_makerConns sv"
    by (simp_all add: settlement_reply_def forward_turn_def split: prod.split sum.split option.split)
  have gone: "sv_makerConns (release_session cr now sid sv) = sv_makerConns sv" for sid sv
    by (auto simp: release_session_def notifyMakerTakerGone_def abort_session_def Let_def split: prod.split option.split)
  then show "sv_makerConns (release_session cr now sid sv) = sv_makerConns sv" .
  show "sv_makerConns (timer_fires cr now n sv) = sv_makerConns sv"
    using gone by (auto simp: timer_fires_def run_timer_def Let_def split: timer_job.split)
qed

lemma makerConns_close: "sv_makerConns (closeConn now c sv) = filter (\<lambda>(k, v). v \<noteq> c) (sv_makerConns sv)"
proof -
  have evict: "sv_makerConns (fold (evict_departed now) ks sv) = sv_makerConns sv" for ks sv
    by (induction ks arbitrary: sv) (simp_all add: evict_departed_def)
  have release: "sv_makerConns (releaseAbandonedLifts now c sv) = sv_makerConns sv" for sv
    unfolding releaseAbandonedLifts_def by (rule fold_invariant [where P = "\<lambda>s. sv_makerConns s = sv_makerConns sv" and Q = "\<lambda>_. True"]) simp_all
  show ?thesis
    by (simp add: closeConn_def connRegistry_drop_def Let_def release evictConnOffersAfterGrace_def evict)
qed

lemma makerConns_Handler: "Handler cr tk r b sv = Done (sv', h) \<Longrightarrow> sv_makerConns sv' = sv_makerConns sv"
  by (auto dest: makerConns_cross simp: makerConns_opened Handler_def handleOffers_def handleMarkets_def handleOfferSubmit_def handleCancel_def handleLift_def
      expireUnattachedLift_def validate_def Let_def split: prod.splits sum.splits option.splits if_splits outcome.splits)

text \<open>A submission that makes its connection the maker's endpoint.\<close>

definition signed_submission :: "crypto \<Rightarrow> offer \<Rightarrow> server \<Rightarrow> bool" where
  "signed_submission cr ofr sv \<longleftrightarrow>
     VerifyOffer cr (Some ofr) = Inr () \<and>
     (case Get (keyOf ofr) (sv_store sv) of None \<Rightarrow> True | Some e \<Rightarrow> CreatedAtUnix (e_Offer e) < CreatedAtUnix ofr)"

lemma makerConns_submit:
  assumes "wsOfferSubmit cr tk c ofr ip sv = Done sv'"
  shows "sv_makerConns sv' = sv_makerConns sv \<or>
    signed_submission cr ofr sv \<and> sv_makerConns sv' = AList.update (MakerPubkey ofr) c (sv_makerConns sv)"
proof -
  obtain sv1 res where val: "validate cr tk ofr ip sv = (sv1, res)" by fastforce
  have same: "sv_makerConns sv1 = sv_makerConns sv" "sv_store sv1 = sv_store sv"
    using val by (auto simp: validate_def split: prod.splits)
  show ?thesis
  proof (cases res)
    case (Inl e)
    then show ?thesis using assms same by (auto simp: wsOfferSubmit_def val split: if_splits)
  next
    case (Inr u)
    obtain s r where sub: "Submit cr (tk_now tk) ofr (sv_store sv) = (s, r)" by fastforce
    obtain t q where edit: "Edit cr (tk_now tk) ofr (sv_store sv) = (t, q)" by fastforce
    have fresh: "signed_submission cr ofr sv" if "r = Inr x" for x
      using sub that by (auto simp: Submit_def signed_submission_def Get_def Let_def split: sum.splits if_splits option.splits)
    have newer: "VerifyOffer cr (Some ofr) = Inr ()" if "q = Inr x" for x
      using edit that by (auto simp: Edit_def Let_def split: sum.splits)
    show ?thesis
    proof (cases r)
      case (Inl e)
      then show ?thesis
        using assms same newer \<open>res = Inr u\<close>
        by (auto simp: wsOfferSubmit_def val sub edit signed_submission_def Let_def split: if_splits sum.splits option.splits)
    next
      case (Inr x)
      then show ?thesis
        using assms same fresh \<open>res = Inr u\<close>
        by (auto simp: wsOfferSubmit_def val sub dest: makerConns_cross split: outcome.splits)
    qed
  qed
qed

text \<open>A re-attachment as the maker of a session, signed with the key the session was opened for.\<close>

definition signed_reattach :: "crypto \<Rightarrow> session_reattach \<Rightarrow> string \<Rightarrow> server \<Rightarrow> bool" where
  "signed_reattach cr ra m sv \<longleftrightarrow>
     (\<exists>a. router_Get (ra_SessionId ra) (sv_router sv) = Some a \<and> ss_MakerPubkey (r_heap (sv_router sv) ! a) = m \<and>
       VerifyReattach cr (ra_SessionId ra) ''maker'' (makerPubkeyBytes m) (ra_Sig ra) = Inr ())"

lemma makerConns_reattach:
  "sv_makerConns (wsSessionReattach cr c ra sv) = sv_makerConns sv \<or>
   (\<exists>m. signed_reattach cr ra m sv \<and> sv_makerConns (wsSessionReattach cr c ra sv) = AList.update m c (sv_makerConns sv))"
  by (auto simp: wsSessionReattach_def signed_reattach_def Let_def split: option.split sum.split role.split)

lemma makerConns_serve:
  assumes "serve cr tk op sv = Done sv'"
  shows "sv_makerConns sv' = sv_makerConns sv \<or> (\<exists>c. sv_makerConns sv' = filter (\<lambda>(k, v). v \<noteq> c) (sv_makerConns sv)) \<or>
    (\<exists>c m. sv_makerConns sv' = AList.update m c (sv_makerConns sv) \<and>
      ((\<exists>ofr ip. op = SvFrame c (Some (ToOfferSubmit ofr)) ip \<and> MakerPubkey ofr = m \<and> signed_submission cr ofr sv) \<or>
       (\<exists>ra ip. op = SvFrame c (Some (ToSessionReattach ra)) ip \<and> signed_reattach cr ra m sv)))"
proof (cases op)
  case (SvFrame c fr ip)
  show ?thesis
  proof (cases "wc_closed (sv_conns sv ! c) \<or> length (sv_conns sv) \<le> c \<or> fr = None")
    case True
    then show ?thesis using assms SvFrame by (auto simp: serve_def handleWS_def split: if_splits)
  next
    case False
    then obtain msg where fr: "fr = Some msg" and d: "dispatch cr tk c msg ip sv = Done sv'"
      using assms SvFrame by (auto simp: serve_def handleWS_def)
    show ?thesis
    proof (cases msg)
      case (ToOfferSubmit ofr)
      then show ?thesis using makerConns_submit [of cr tk c ofr ip sv sv'] d SvFrame fr by (auto simp: dispatch_def)
    next
      case (ToSessionReattach ra)
      then show ?thesis using makerConns_reattach [of cr c ra sv] d SvFrame fr by (auto simp: dispatch_def)
    next
      case (ToSwapMsg m)
      then show ?thesis using d by (auto simp: dispatch_def wsSwapMsg_def Let_def split: if_splits option.splits prod.splits sum.splits)
    next
      case ToListMarkets
      then show ?thesis using d by (auto simp: dispatch_def split: option.splits)
    qed (use d in \<open>auto simp: dispatch_def\<close>)
  qed
next
  case (SvRest r b)
  then show ?thesis using assms by (auto simp: serve_def dest: makerConns_Handler split: outcome.splits)
qed (use assms in \<open>auto simp: serve_def ws_accept_def makerConns_close split: if_splits\<close>)

lemma makerConns_gomap: "serving cr sv \<Longrightarrow> gomap_ok (sv_makerConns sv)"
proof (induction rule: serving.induct)
  case (serving_step sv tk op sv')
  then show ?case
    using makerConns_serve [OF serving_step(2)] by (auto simp: gomap_ok_def distinct_map_filter distinct_update)
qed (simp add: gomap_ok_def NewServer_def SetCrossSessionDeadline_def)

section \<open>Market data\<close>

text \<open>The candle of a bucket, computed from the trades that fall into it.\<close>

definition candle_spec :: "int \<Rightarrow> trade list \<Rightarrow> int \<Rightarrow> candle" where
  "candle_spec interval trds b =
     (let ts = filter (\<lambda>t. bucket_start interval t = b) trds; ps = map tr_Price ts in
      \<lparr>cd_T = b, cd_O = hd ps, cd_H = Max (set ps), cd_L = Min (set ps), cd_C = last ps, cd_V = sum_list (map tr_Size ts)\<rparr>)"

lemma candle_spec_first:
  "b \<notin> bucket_start iv ` set trds \<Longrightarrow> bucket_start iv t = b \<Longrightarrow>
   candle_spec iv (trds @ [t]) b =
     \<lparr>cd_T = b, cd_O = tr_Price t, cd_H = tr_Price t, cd_L = tr_Price t, cd_C = tr_Price t, cd_V = tr_Size t\<rparr>"
proof -
  assume "b \<notin> bucket_start iv ` set trds" "bucket_start iv t = b"
  then have "filter (\<lambda>t. bucket_start iv t = b) trds = []" unfolding filter_empty_conv by (metis imageI)
  with \<open>bucket_start iv t = b\<close> show ?thesis by (simp add: candle_spec_def Let_def)
qed

lemma candle_spec_next:
  assumes "bucket_start iv t = b" "b \<in> bucket_start iv ` set trds" "cd = candle_spec iv trds b"
  shows "candle_spec iv (trds @ [t]) b =
    cd\<lparr>cd_H := max (cd_H cd) (tr_Price t), cd_L := min (cd_L cd) (tr_Price t), cd_C := tr_Price t, cd_V := cd_V cd + tr_Size t\<rparr>"
proof -
  let ?ts = "filter (\<lambda>t. bucket_start iv t = b) trds"
  have "?ts \<noteq> []" using assms(2) by (auto simp: filter_empty_conv)
  then have "map tr_Price ?ts \<noteq> []" by simp
  then have "Max (insert (tr_Price t) (set (map tr_Price ?ts))) = max (tr_Price t) (Max (set (map tr_Price ?ts)))"
    "Min (insert (tr_Price t) (set (map tr_Price ?ts))) = min (tr_Price t) (Min (set (map tr_Price ?ts)))"
    by (intro Max_insert Min_insert; simp only: finite_set set_empty; simp)+
  with \<open>?ts \<noteq> []\<close> show ?thesis
    using assms(1,3) by (simp add: candle_spec_def Let_def hd_append max.commute min.commute hd_map)
qed

lemma candle_spec_other: "bucket_start iv t \<noteq> b \<Longrightarrow> candle_spec iv (trds @ [t]) b = candle_spec iv trds b"
  by (simp add: candle_spec_def)

text \<open>The buckets of a list of trades, in the order in which they first occur.\<close>

definition bucket_order :: "int \<Rightarrow> trade list \<Rightarrow> int list" where
  "bucket_order interval trds = rev (remdups (rev (map (bucket_start interval) trds)))"

lemma bucket_order_snoc:
  "bucket_order iv (trds @ [t]) =
     bucket_order iv trds @ (if bucket_start iv t \<in> bucket_start iv ` set trds then [] else [bucket_start iv t])"
  by (simp add: bucket_order_def)

lemma set_bucket_order [simp]: "set (bucket_order iv trds) = bucket_start iv ` set trds"
  by (simp add: bucket_order_def)

lemma sorted_bucket_order: "sorted (map (bucket_start iv) trds) \<Longrightarrow> sorted (bucket_order iv trds)"
  by (induction trds rule: rev_induct) (auto simp: bucket_order_snoc sorted_append, simp add: bucket_order_def)

lemma fold_add_trade:
  "fold (add_trade iv) trds ([], []) = (buckets, order) \<Longrightarrow>
   order = bucket_order iv trds \<and> (\<forall>b. map_of buckets b = (if b \<in> bucket_start iv ` set trds then Some (candle_spec iv trds b) else None))"
proof (induction trds arbitrary: buckets order rule: rev_induct)
  case (snoc t trds)
  obtain bs od where prev: "fold (add_trade iv) trds ([], []) = (bs, od)" by fastforce
  note ih = snoc.IH [OF prev]
  let ?b = "bucket_start iv t"
  have step: "add_trade iv t (bs, od) = (buckets, order)" using snoc.prems prev by simp
  show ?case
  proof (cases "?b \<in> bucket_start iv ` set trds")
    case True
    then have "map_of bs ?b = Some (candle_spec iv trds ?b)" using ih by simp
    then have "order = od" "map_of buckets = (map_of bs)(?b \<mapsto> candle_spec iv (trds @ [t]) ?b)"
      using step candle_spec_next [OF refl True refl]
      by (auto simp: add_trade_def Let_def update_conv' max_def min_def split: if_splits)
    then show ?thesis
      using ih True candle_spec_other [of iv t] by (auto simp: bucket_order_snoc)
  next
    case False
    then have none: "map_of bs ?b = None" using ih by simp
    have "order = od @ [?b]" "map_of buckets = (map_of bs)(?b \<mapsto> candle_spec iv (trds @ [t]) ?b)"
      using step none candle_spec_first [OF False refl] by (auto simp: add_trade_def Let_def update_conv')
    then show ?thesis
      using ih False candle_spec_other [of iv t] by (auto simp: bucket_order_snoc)
  qed
qed (simp add: bucket_order_def)

lemma bucket_mono:
  assumes "0 < iv" "0 \<le> tr_TS t" "tr_TS t \<le> tr_TS u"
  shows "bucket_start iv t \<le> bucket_start iv u"
proof -
  have "0 \<le> time_unix (tr_TS t)" "time_unix (tr_TS t) \<le> time_unix (tr_TS u)"
    using assms by (simp_all add: time_unix_def Second_def zdiv_mono1)
  then show ?thesis
    using assms(1) by (simp add: bucket_start_def signed_divide_int_def sgn_if zdiv_mono1 pos_imp_zdiv_nonneg_iff)
qed

lemma candles_spec:
  "candles interval limit trds =
    (let bs = bucket_order interval trds in map (candle_spec interval trds) (drop (length bs - nat limit) bs))"
proof -
  obtain buckets order where f: "fold (add_trade interval) trds ([], []) = (buckets, order)" by fastforce
  then have order: "order = bucket_order interval trds" by (simp add: fold_add_trade)
  have same: "map (\<lambda>b. the (map_of buckets b)) order = map (candle_spec interval trds) order"
    using fold_add_trade [OF f] by (intro map_cong) auto
  have "drop (length order - nat limit) order = order" if "\<not> limit < int (length order)" using that by simp
  then show ?thesis by (simp add: candles_def f same drop_map Let_def del: map_eq_conv) (simp add: order)
qed

text \<open>C34: the candle endpoint serves, for every bucket that holds a trade of the market's ring, the first and the last recorded, the highest and the
  lowest price and the summed volume (which wraps at 64 bits) of exactly the trades of that bucket; the candles come in the order in which
  their buckets first occur in the ring, cut to the last \<open>limit\<close> of them. That order is ascending when the ring is in the order of its
  times, which are then not before 1970.\<close>

theorem candles_exact:
  assumes "trds = TradesFor (Some p) 0 (sv_store sv)" "bs = bucket_order (query_interval r) trds"
  shows "handleCandles r p sv = HttpCandles p (query_interval r)
      (map (candle_spec (query_interval r) trds) (drop (length bs - nat (query_limit 168 r)) bs)) \<and>
    set bs = bucket_start (query_interval r) ` set trds \<and> distinct bs \<and>
    (sorted (map tr_TS trds) \<longrightarrow> (\<forall>t\<in>set trds. 0 \<le> tr_TS t) \<longrightarrow> sorted bs)"
proof (intro conjI impI)
  let ?iv = "query_interval r"
  show "handleCandles r p sv = HttpCandles p ?iv (map (candle_spec ?iv trds) (drop (length bs - nat (query_limit 168 r)) bs))"
    by (simp add: handleCandles_def candles_spec assms Let_def)
  show "set bs = bucket_start ?iv ` set trds" "distinct bs" by (simp_all add: assms(2)) (simp add: bucket_order_def)
  assume times: "sorted (map tr_TS trds)" "\<forall>t\<in>set trds. 0 \<le> tr_TS t"
  have pos: "0 < ?iv" by (auto simp: query_interval_def split: option.split)
  have mono: "bucket_start ?iv t \<le> bucket_start ?iv u" if "t \<in> set trds" "tr_TS t \<le> tr_TS u" for t u
    using bucket_mono [OF pos] times(2) that by blast
  have "sorted (map (bucket_start ?iv) trds)"
    using times(1) mono by (simp add: sorted_wrt_map) (metis (mono_tags, lifting) sorted_wrt_mono_rel)
  then show "sorted bs" unfolding assms(2) by (rule sorted_bucket_order)
qed

definition sample_trades :: "trade list" where
  "sample_trades =
     [\<lparr>tr_TS = 5 * Second, tr_Price = 3, tr_Size = 10, tr_Txid = ''''\<rparr>, \<lparr>tr_TS = 59 * Second, tr_Price = 2, tr_Size = 1, tr_Txid = ''''\<rparr>,
      \<lparr>tr_TS = 61 * Second, tr_Price = 4, tr_Size = 7, tr_Txid = ''''\<rparr>]"

definition minute_request :: request where
  "minute_request = \<lparr>hr_Method = ''GET'', hr_Path = [], hr_Query = (\<lambda>k. if k = ''interval'' then ''60'' else []), hr_ForwardedFor = [],
     hr_RemoteAddr = []\<rparr>"

theorem candles_exact_witness:
  "handleCandles minute_request gold_usdx (set_store (NewStore\<lparr>trades := [(pairKey (Some gold_usdx), sample_trades)]\<rparr>) one_client) =
     HttpCandles gold_usdx 60 (map (candle_spec 60 sample_trades) [0, 60])"
proof -
  let ?sv = "set_store (NewStore\<lparr>trades := [(pairKey (Some gold_usdx), sample_trades)]\<rparr>) one_client"
  have q: "query_interval minute_request = 60" "query_limit 168 minute_request = 168"
    by code_simp+
  have t: "TradesFor (Some gold_usdx) 0 (sv_store ?sv) = sample_trades" by (simp add: TradesFor_def gomap_get_def)
  have b: "bucket_order 60 sample_trades = [0, 60]"
    by (simp add: bucket_order_def sample_trades_def bucket_start_def time_unix_def Second_def)
  from candles_exact [OF t [symmetric] b [folded q(1), symmetric]] show ?thesis by (simp add: q)
qed

end
