(* ===== verification/Order_Entry.thy ===== *)
theory Order_Entry
  imports Api_Properties Match_Properties Book_Properties
begin

text \<open>
  What a submission over the WebSocket does, from the validator to the reply: the order rests, is
  crossed with the book, and stays or is retired under its time in force.
\<close>

section \<open>A submission, step by step\<close>

text \<open>What \<open>offer.proto\<close> documents of the four times in force: a good-till-cancel order rests, a post-only order rests if it would
  take nothing, and the two immediate kinds never rest.\<close>

definition documented_rests :: "offer \<Rightarrow> match list \<Rightarrow> bool" where
  "documented_rests ofr ms =
     (case TimeInForce ofr of
        TIME_IN_FORCE_POST_ONLY \<Rightarrow> ms = []
      | TIME_IN_FORCE_FOK \<Rightarrow> False
      | TIME_IN_FORCE_IOC \<Rightarrow> False
      | _ \<Rightarrow> True)"

text \<open>The immediate orders that \<open>applyDisposition\<close> nevertheless leaves in the book: those that were matched completely, which \<open>offer.proto\<close>
  does not provide for, and covenants that were matched in part, which the comment of \<open>applyDisposition\<close> explains.\<close>

definition immediate_kept :: "offer \<Rightarrow> u64 \<Rightarrow> bool" where
  "immediate_kept ofr rem \<longleftrightarrow>
     TimeInForce ofr \<in> {TIME_IN_FORCE_IOC, TIME_IN_FORCE_FOK} \<and> rem = 0 \<or>
     TimeInForce ofr = TIME_IN_FORCE_IOC \<and> GetCovenant ofr \<noteq> None \<and> rem \<noteq> BaseAmount ofr"

definition order_rests :: "offer \<Rightarrow> match list \<Rightarrow> u64 \<Rightarrow> bool" where
  "order_rests ofr ms rem \<longleftrightarrow> documented_rests ofr ms \<or> immediate_kept ofr rem"

text \<open>The matches the taker is told of.\<close>

definition announced :: "offer \<Rightarrow> match list \<Rightarrow> u64 \<Rightarrow> match list" where
  "announced ofr ms rem =
     (case TimeInForce ofr of
        TIME_IN_FORCE_POST_ONLY \<Rightarrow> []
      | TIME_IN_FORCE_IOC \<Rightarrow> ms
      | TIME_IN_FORCE_FOK \<Rightarrow> if rem = 0 then ms else []
      | _ \<Rightarrow> if AllowPartial ofr \<or> rem = 0 then ms else [])"

definition taker_frames :: "(nat \<Rightarrow> string) \<Rightarrow> match list \<Rightarrow> from_frame list" where
  "taker_frames ids ms = map (\<lambda>(i, mt). frame (FromMatched (matchedProto mt ''taker'' (ids i)))) (enumerate 0 ms)"

lemma taker_frames_Cons:
  "taker_frames ids (mt # mts) = frame (FromMatched (matchedProto mt ''taker'' (ids 0))) # taker_frames (\<lambda>n. ids (Suc n)) mts"
  by (simp add: taker_frames_def enumerate_Suc_eq comp_def case_prod_beta)

lemma nth_update_any: "xs[i := v] ! j = (if j = i \<and> i < length xs then v else xs ! j)"
  by (cases "i < length xs") (simp_all add: nth_list_update list_update_beyond)

lemma conns_frame [simp]:
  "sv_conns (ownOffer c ofr sv) = sv_conns sv"
  "wc_sent (sv_conns (registerMaker d m sv) ! c) = wc_sent (sv_conns sv ! c)"
  "wc_closed (sv_conns (registerMaker d m sv) ! c) = wc_closed (sv_conns sv ! c)"
  "length (sv_conns (registerMaker d m sv)) = length (sv_conns sv)"
  by (auto simp: ownOffer_def registerMaker_def upd_conn_def nth_update_any)

lemma ws_send_conn:
  assumes "c < length (sv_conns sv)" "\<not> wc_closed (sv_conns sv ! c)"
  shows "wc_sent (sv_conns (ws_send d m sv) ! c) = wc_sent (sv_conns sv ! c) @ (if d = c then [frame m] else [])"
    "\<not> wc_closed (sv_conns (ws_send d m sv) ! c)" "length (sv_conns (ws_send d m sv)) = length (sv_conns sv)"
  using assms by (auto simp: ws_send_def send_frame_def upd_conn_def nth_update_any)

lemma route_match_conn:
  assumes "c < length (sv_conns sv)" "\<not> wc_closed (sv_conns sv ! c)"
  shows "wc_sent (sv_conns (route_match (Some c) i mt sv) ! c) =
      wc_sent (sv_conns sv ! c) @ [frame (FromMatched (matchedProto mt ''taker'' i))]"
    "\<not> wc_closed (sv_conns (route_match (Some c) i mt sv) ! c)"
    "length (sv_conns (route_match (Some c) i mt sv)) = length (sv_conns sv)"
  using assms by (auto simp: route_match_def Let_def ws_send_conn split: option.split)

lemma routeMatches_conn:
  assumes "c < length (sv_conns sv)" "\<not> wc_closed (sv_conns sv ! c)"
  shows "wc_sent (sv_conns (routeMatches (Some c) ids mts sv) ! c) = wc_sent (sv_conns sv ! c) @ taker_frames ids mts \<and>
    \<not> wc_closed (sv_conns (routeMatches (Some c) ids mts sv) ! c) \<and>
    length (sv_conns (routeMatches (Some c) ids mts sv)) = length (sv_conns sv)"
  using assms
proof (induction mts arbitrary: ids sv)
  case (Cons mt mts)
  then show ?case using route_match_conn [OF Cons.prems] by (simp add: taker_frames_Cons)
qed (simp add: taker_frames_def)

lemma Submit_entries:
  assumes "Submit cr now ofr s = (s', Inr k)"
  shows "k = keyOf ofr" "Get (keyOf ofr) s = None"
    "\<exists>d. map_of (entries s') = (map_of (entries s))(keyOf ofr \<mapsto> (new_entry now ofr OFFER_STATUS_OPEN (BaseAmount ofr))\<lparr>e_demoted := d\<rparr>)"
  using assms
  by (auto simp: Submit_def Get_def Let_def set_entry_def update_conv' new_entry_def split: sum.splits if_splits option.splits)

lemma applyDisposition_entries:
  assumes "applyDisposition ofr res s = (s', retired)" "gomap_ok (entries s)"
  shows "map_of (entries s') = (if retired then (map_of (entries s))(keyOf ofr := None) else map_of (entries s))"
  using assms
  by (auto simp: applyDisposition_def RetireIncoming_def dropWithStatus_def Let_def delete_conv' map_of_eq_None_iff fun_upd_idem_iff
      split: disposition.splits option.splits if_splits)

lemma applyDisposition_rests:
  assumes "CrossOrder bk ofr = Some res" "walk bk ofr = Some (ms, rem)" "bk_Get bk (keyOf ofr) = Some e"
    "e_ActiveAmount e = BaseAmount ofr" "applyDisposition ofr res s = (s', retired)"
  shows "retired \<longleftrightarrow> \<not> order_rests ofr ms rem" "cr_Matches res = announced ofr ms rem"
proof -
  define filled where "filled = foldl (\<lambda>acc mt. acc + mt_FillBase mt) 0 ms"
  have "filled + rem = BaseAmount ofr" using walk_filled(2) [OF assms(2,3)] assms(4) by (simp add: filled_def)
  then have none: "filled = 0 \<longleftrightarrow> rem = BaseAmount ofr" by (metis add.commute add.right_neutral add_left_imp_eq)
  show "retired \<longleftrightarrow> \<not> order_rests ofr ms rem"
    using assms(1,2,5) none unfolding filled_def
    by (auto simp: CrossOrder_def applyDisposition_def order_rests_def documented_rests_def immediate_kept_def Let_def word_neq_0_conv simp del: GetCovenant_Some
        split: time_in_force.splits if_splits disposition.splits)
  show "cr_Matches res = announced ofr ms rem"
    using assms(1,2) by (auto simp: CrossOrder_def announced_def Let_def split: time_in_force.splits if_splits)
qed

lemma wsOfferSubmit_fresh:
  assumes ok: "server_ok cr sv" and val: "validate cr tk ofr ip sv = (sv1, Inr u)" and new: "Get (keyOf ofr) (sv_store sv) = None"
  obtains s res s' retired st where "Submit cr (tk_now tk) ofr (sv_store sv) = (s, Inr (keyOf ofr))"
    "relay_book cr s" "CrossOrder (store_book s) ofr = Some res" "applyDisposition ofr res s = (s', retired)"
    "st = (if retired then cancelledStatus ofr else restingStatus ofr s')"
    "wsOfferSubmit cr tk c ofr ip sv = Done (ws_send c (FromOrderStatus (Some st)) (set_store s'
       (routeMatches (Some c) (tk_matchID tk) (cr_Matches res) (ownOffer c ofr (registerMaker c (MakerPubkey ofr) (set_store s sv1))))))"
proof -
  note v = validate_relay [OF val]
  have signed: "VerifyOffer cr (Some ofr) = Inr ()" "Pair ofr \<noteq> None"
  proof -
    obtain t1 t2 t3 where t: "tk_validator tk = (t1, t2, t3)" by (metis prod_cases3)
    show "VerifyOffer cr (Some ofr) = Inr ()"
      using val by (auto simp: validate_def t split: prod.splits elim!: ValidateOffer_accepts dest: check_offer_ok(1))
    show "Pair ofr \<noteq> None" using v(4) [of u] by (auto simp: offer_wf_def)
  qed
  obtain s where sub: "Submit cr (tk_now tk) ofr (sv_store sv) = (s, Inr (keyOf ofr))"
    using signed new that by (simp add: Submit_def Get_def Let_def)
  have "server_ok cr (set_store s sv1)"
    using server_ok_Submit [OF v(3) [OF ok] v(4) [OF refl], of "tk_now tk"] v(1) by (simp add: sub)
  then have book: "relay_book cr s" using server_okD(1) by fastforce
  obtain res where cross: "CrossOrder (store_book s) ofr = Some res" using CrossOrder_total [OF book] by blast
  obtain s' retired where disp: "applyDisposition ofr res s = (s', retired)" by fastforce
  have rl: "sv_store (ownOffer c ofr (registerMaker c (MakerPubkey ofr) (set_store s sv1))) = s"
    by (simp add: ownOffer_def registerMaker_def)
  show ?thesis
    by (rule that [OF sub book cross disp refl]) (simp add: wsOfferSubmit_def val v(1) sub cross_resting_def rl cross disp Let_def)
qed

section \<open>Time in force\<close>

text \<open>C11: a submitted order that the validator accepts and that does not rest yet is entered at its full size and crossed with the book. It then
  stays where \<open>offer.proto\<close> says that its time in force rests (a good-till-cancel order always, a post-only order if nothing matches), and in
  two cases more, in which the code departs from "an IOC never rests": an immediate-or-cancel or fill-or-kill order that was matched completely, and an
  immediate-or-cancel covenant that was matched in part, keep their entry at the full size. In every other case it is retired. Every other
  entry of the book is left as it was, and the submitting connection is sent one match notification for each announced match, in order, and
  then the order's status.\<close>

theorem submission_follows_time_in_force:
  assumes "serving cr sv" "validate cr tk ofr ip sv = (sv1, Inr u)" "Get (keyOf ofr) (sv_store sv) = None"
    "c < length (sv_conns sv)" "\<not> wc_closed (sv_conns sv ! c)"
  shows "\<exists>sv' ms rem d. wsOfferSubmit cr tk c ofr ip sv = Done sv' \<and>
    walk (store_book (fst (Submit cr (tk_now tk) ofr (sv_store sv)))) ofr = Some (ms, rem) \<and>
    map_of (entries (sv_store sv')) = (map_of (entries (sv_store sv)))
      (keyOf ofr := (if documented_rests ofr ms \<or> immediate_kept ofr rem
         then Some ((new_entry (tk_now tk) ofr OFFER_STATUS_OPEN (BaseAmount ofr))\<lparr>e_demoted := d\<rparr>) else None)) \<and>
    wc_sent (sv_conns sv' ! c) = wc_sent (sv_conns sv ! c) @ taker_frames (tk_matchID tk) (announced ofr ms rem) @
      [frame (FromOrderStatus (Some
         (if documented_rests ofr ms \<or> immediate_kept ofr rem then restingStatus ofr (sv_store sv') else cancelledStatus ofr)))]"
proof -
  obtain s res s' retired st where sub: "Submit cr (tk_now tk) ofr (sv_store sv) = (s, Inr (keyOf ofr))"
    and book: "relay_book cr s" and cross: "CrossOrder (store_book s) ofr = Some res"
    and disp: "applyDisposition ofr res s = (s', retired)"
    and st: "st = (if retired then cancelledStatus ofr else restingStatus ofr s')"
    and run: "wsOfferSubmit cr tk c ofr ip sv = Done (ws_send c (FromOrderStatus (Some st)) (set_store s'
       (routeMatches (Some c) (tk_matchID tk) (cr_Matches res) (ownOffer c ofr (registerMaker c (MakerPubkey ofr) (set_store s sv1))))))"
    by (rule wsOfferSubmit_fresh [OF serving_ok [OF assms(1)] assms(2,3)])
  obtain ms rem where w: "walk (store_book s) ofr = Some (ms, rem)" using cross by (auto simp: CrossOrder_def)
  obtain d where e: "map_of (entries s) = (map_of (entries (sv_store sv)))
      (keyOf ofr \<mapsto> (new_entry (tk_now tk) ofr OFFER_STATUS_OPEN (BaseAmount ofr))\<lparr>e_demoted := d\<rparr>)"
    using Submit_entries(3) [OF sub] by blast
  have get: "bk_Get (store_book s) (keyOf ofr) = Some ((new_entry (tk_now tk) ofr OFFER_STATUS_OPEN (BaseAmount ofr))\<lparr>e_demoted := d\<rparr>)"
    by (simp add: store_book_def Get_def e)
  have rests: "retired \<longleftrightarrow> \<not> order_rests ofr ms rem" "cr_Matches res = announced ofr ms rem"
    using applyDisposition_rests [OF cross w get _ disp] by (simp_all add: new_entry_def)
  have "gomap_ok (entries s)" using book by (simp add: relay_book_def book_ok_def)
  from applyDisposition_entries [OF disp this] have book': "map_of (entries s') = (map_of (entries (sv_store sv)))
      (keyOf ofr := (if order_rests ofr ms rem
         then Some ((new_entry (tk_now tk) ofr OFFER_STATUS_OPEN (BaseAmount ofr))\<lparr>e_demoted := d\<rparr>) else None))"
    using rests e by simp
  let ?sv = "ownOffer c ofr (registerMaker c (MakerPubkey ofr) (set_store s sv1))"
  have "c < length (sv_conns ?sv)" "\<not> wc_closed (sv_conns ?sv ! c)"
    using assms(4,5) validate_relay(2) [OF assms(2)] by simp_all
  note conn = routeMatches_conn [OF this, of "tk_matchID tk" "cr_Matches res"]
  have "wc_sent (sv_conns ?sv ! c) = wc_sent (sv_conns sv ! c)" using validate_relay(2) [OF assms(2)] by simp
  with conn ws_send_conn(1) [of c "set_store s' (routeMatches (Some c) (tk_matchID tk) (cr_Matches res) ?sv)" c "FromOrderStatus (Some st)"]
  have "wc_sent (sv_conns (ws_send c (FromOrderStatus (Some st)) (set_store s' (routeMatches (Some c) (tk_matchID tk) (cr_Matches res) ?sv))) ! c) =
      wc_sent (sv_conns sv ! c) @ taker_frames (tk_matchID tk) (announced ofr ms rem) @ [frame (FromOrderStatus (Some st))]"
    using assms(4) validate_relay(2) [OF assms(2)] rests(2) by simp
  with run w book' sub st rests(1) show ?thesis unfolding order_rests_def by auto
qed

text \<open>The sample ask is accepted whenever nothing rests under its key.\<close>

lemma ask_validated:
  assumes "entries s = []" "sv_validator sv = NewValidator DefaultConfig None" "sv_store sv = s"
  shows "\<exists>sv1. validate demo_crypto (call_at Second) ask_offer '''' sv = (sv1, Inr ())"
proof -
  have "(\<lambda>m i. RestingMakerSig m i s) = (\<lambda>m i. RestingMakerSig m i NewStore)"
    using assms(1) by (simp add: RestingMakerSig_def NewStore_def)
  with ask_accepted assms(2,3) show ?thesis by (auto simp: validate_def call_at_def)
qed

theorem submission_follows_time_in_force_witness:
  "\<exists>sv'. wsOfferSubmit demo_crypto (call_at Second) 0 ask_offer '''' one_client = Done sv' \<and> Get (keyOf ask_offer) (sv_store sv') \<noteq> None"
proof -
  obtain sv1 where v: "validate demo_crypto (call_at Second) ask_offer '''' one_client = (sv1, Inr ())"
    using ask_validated [of NewStore one_client] by (auto simp: NewStore_def)
  have tif: "documented_rests ask_offer ms" for ms by (simp add: documented_rests_def ask_offer_def)
  show ?thesis
    using submission_follows_time_in_force [OF one_client_serving v, of 0]
    by (auto simp: Get_def NewStore_def new_conn_def tif)
qed

section \<open>Who becomes the endpoint\<close>

text \<open>C30: a connection becomes the endpoint that a maker's lifts are routed to only by a frame on that connection which carries the
  maker's signature: an offer of the maker that does not rest or is strictly newer than the version that rests, or
  a re-attachment to a session of the maker.\<close>

theorem maker_endpoint_authenticated:
  assumes "serving cr sv" "serve cr tk op sv = Done sv'"
    "map_of (sv_makerConns sv') m = Some c" "map_of (sv_makerConns sv) m \<noteq> Some c"
  shows "(\<exists>ofr ip. op = SvFrame c (Some (ToOfferSubmit ofr)) ip \<and> MakerPubkey ofr = m \<and> signed_submission cr ofr sv) \<or>
    (\<exists>ra ip. op = SvFrame c (Some (ToSessionReattach ra)) ip \<and> signed_reattach cr ra m sv)"
proof -
  have ok: "gomap_ok (sv_makerConns sv)" using makerConns_gomap [OF assms(1)] .
  have "\<not> (\<exists>d. sv_makerConns sv' = filter (\<lambda>(k, v). v \<noteq> d) (sv_makerConns sv))"
  proof
    assume "\<exists>d. sv_makerConns sv' = filter (\<lambda>(k, v). v \<noteq> d) (sv_makerConns sv)"
    then have "(m, c) \<in> set (sv_makerConns sv)" using map_of_SomeD [OF assms(3)] by auto
    with ok assms(4) show False by (simp add: gomap_mem)
  qed
  then show ?thesis
    using makerConns_serve [OF assms(2)] assms(3,4) by (auto simp: map_of_update split: if_splits)
qed

theorem maker_endpoint_authenticated_witness:
  "\<exists>sv'. serve demo_crypto (call_at Second) (SvFrame 0 (Some (ToOfferSubmit ask_offer)) '''') one_client = Done sv' \<and>
     map_of (sv_makerConns sv') ''020100'' = Some 0 \<and> signed_submission demo_crypto ask_offer one_client"
proof -
  obtain sv1 where v: "validate demo_crypto (call_at Second) ask_offer '''' one_client = (sv1, Inr ())"
    using ask_validated [of NewStore one_client] by (auto simp: NewStore_def)
  have m: "MakerPubkey ask_offer = ''020100''" by (simp add: ask_offer_def)
  obtain sv' where run: "wsOfferSubmit demo_crypto (call_at Second) 0 ask_offer '''' one_client = Done sv'"
    and mc: "map_of (sv_makerConns sv') ''020100'' = Some 0"
    by (rule wsOfferSubmit_fresh [OF serving_ok [OF one_client_serving] v, where c = 0])
      (auto simp: Get_def NewStore_def map_of_update m)
  have "serve demo_crypto (call_at Second) (SvFrame 0 (Some (ToOfferSubmit ask_offer)) '''') one_client = Done sv'"
    by (simp add: serve_def handleWS_def dispatch_def run new_conn_def)
  with maker_endpoint_authenticated [OF one_client_serving this mc] mc show ?thesis by auto
qed

section \<open>A cancelled offer comes back\<close>

text \<open>C38: a cancel does not stop the signed offer from being submitted again: the book keeps the cancel's nonce only against later cancels, so
  when any connection replays an offer that the maker has cancelled, the validator accepts it (the offer is still well formed, unexpired and within the
  rate limits) and its time in force is good-till-cancel, it rests again at its full size and that connection becomes the
  endpoint the maker's lifts are routed to.\<close>

theorem cancelled_offer_resubmitted:
  assumes "server_ok cr sv" "Cancel cr can (sv_store sv) = (s, Inr ())" "keyOf ofr = Key (c_MakerPubkey can) (c_OfferId can)"
    "validate cr tk ofr ip (set_store s sv) = (sv1, Inr u)"
    "TimeInForce ofr \<notin> {TIME_IN_FORCE_POST_ONLY, TIME_IN_FORCE_FOK, TIME_IN_FORCE_IOC}"
  shows "\<exists>sv' e. wsOfferSubmit cr tk c ofr ip (set_store s sv) = Done sv' \<and>
    Get (keyOf ofr) (sv_store sv') = Some e \<and> e_Offer e = ofr \<and> e_ActiveAmount e = BaseAmount ofr \<and>
    map_of (sv_makerConns sv') (MakerPubkey ofr) = Some c"
proof -
  have gone: "Get (keyOf ofr) s = None"
    using assms(2,3) by (auto simp: Cancel_def Get_def Let_def map_of_delete split: sum.splits if_splits option.splits)
  have ok: "server_ok cr (set_store s sv)" using server_ok_Cancel [OF assms(1), of can] assms(2) by simp
  obtain s1 res s' retired st where sub: "Submit cr (tk_now tk) ofr s = (s1, Inr (keyOf ofr))"
    and cross: "CrossOrder (store_book s1) ofr = Some res" and disp: "applyDisposition ofr res s1 = (s', retired)"
    and run: "wsOfferSubmit cr tk c ofr ip (set_store s sv) = Done (ws_send c (FromOrderStatus (Some st)) (set_store s'
       (routeMatches (Some c) (tk_matchID tk) (cr_Matches res) (ownOffer c ofr (registerMaker c (MakerPubkey ofr) (set_store s1 sv1))))))"
    by (rule wsOfferSubmit_fresh [OF ok assms(4), where c = c]) (simp_all add: gone)
  have "s' = s1"
  proof -
    have "cr_Disposition res = DispRest"
      using cross assms(5) by (cases "TimeInForce ofr") (auto simp: CrossOrder_def Let_def split: if_splits)
    with disp show ?thesis by (simp add: applyDisposition_def)
  qed
  then show ?thesis
    using run Submit_entries(3) [OF sub] by (auto simp: Get_def map_of_update new_entry_def)
qed

definition ask_only :: server where
  "ask_only = set_store (exec demo_crypto Second (OpSubmit ask_offer) NewStore) one_client"

lemma ask_only_ok: "server_ok demo_crypto ask_only"
  unfolding ask_only_def
  using server_ok_store [OF serving_ok [OF one_client_serving] run_step, of "OpSubmit ask_offer" demo_crypto Second]
    checkTerms_wf [OF ask_checkTerms]
  by (simp add: op_kinds)

theorem cancelled_offer_resubmitted_witness:
  "\<exists>s sv' e. Cancel demo_crypto ask_cancel (sv_store ask_only) = (s, Inr ()) \<and>
     wsOfferSubmit demo_crypto (call_at Second) 0 ask_offer '''' (set_store s ask_only) = Done sv' \<and>
     Get (keyOf ask_offer) (sv_store sv') = Some e \<and> map_of (sv_makerConns sv') ''020100'' = Some 0"
proof -
  have store: "entries (sv_store ask_only) = [(keyOf ask_offer, ask_entry)]" "cancelNonce (sv_store ask_only) = []"
    by (simp_all add: ask_only_def Submit_def sample_verified NewStore_def Let_def ask_entry_def put_def broadcast_def)
      (simp_all add: ask_offer_def)
  then obtain s where c: "Cancel demo_crypto ask_cancel (sv_store ask_only) = (s, Inr ())" and s: "entries s = []"
    by (simp add: Cancel_def ask_cancel_verified Let_def)
      (simp add: ask_cancel_def sample_keys gomap_get_def nonceBefore_def ask_entry_def new_entry_def)
  obtain sv1 where v: "validate demo_crypto (call_at Second) ask_offer '''' (set_store s ask_only) = (sv1, Inr ())"
    using ask_validated [OF s, of "set_store s ask_only"] by (auto simp: ask_only_def set_store_def)
  have "keyOf ask_offer = Key (c_MakerPubkey ask_cancel) (c_OfferId ask_cancel)" by (simp add: sample_keys ask_cancel_def)
  from cancelled_offer_resubmitted [OF ask_only_ok c this v, of 0] c show ?thesis by (auto simp: ask_offer_def)
qed

section \<open>A maker disconnects\<close>

lemma evict_fold:
  "sv_store (fold (evict_departed now) ms sv) = fold (\<lambda>m s. fst (RemoveByMaker m s)) ms (sv_store sv)"
  "sv_timers (fold (evict_departed now) ms sv) = sv_timers sv @ map (\<lambda>m. (now + makerReconnectGrace, EvictGhostOffers m)) ms"
  by (induction ms arbitrary: sv) (simp_all add: evict_departed_def after_grace_def set_store_def)

lemma after_grace_fold:
  "sv_store (fold (\<lambda>i. after_grace now d (f i)) js sv) = sv_store sv"
  "sv_timers (fold (\<lambda>i. after_grace now d (f i)) js sv) = sv_timers sv @ map (\<lambda>i. (now + d, f i)) js"
  by (induction js arbitrary: sv) (simp_all add: after_grace_def)

lemma evictConnOffers_fields:
  "sv_store (evictConnOffersAfterGrace now c ks sv) = sv_store sv"
  "sv_timers (evictConnOffersAfterGrace now c ks sv) = sv_timers sv @ (if ks = [] then [] else [(now + makerReconnectGrace, EvictConnOffers c ks)])"
  by (simp_all add: evictConnOffersAfterGrace_def after_grace_def)

lemma timers_frame: "sv_timers (upd_conn d f sv) = sv_timers sv" "sv_timers (set_store s sv) = sv_timers sv"
  by (simp_all add: upd_conn_def set_store_def)

lemmas closeConn_unfold = closeConn_def connRegistry_drop_def releaseAbandonedLifts_def Let_def after_grace_fold evictConnOffers_fields
  evict_fold timers_frame

abbreviation makers_at :: "nat \<Rightarrow> server \<Rightarrow> string list" where
  "makers_at c sv \<equiv> map fst (filter (\<lambda>(m, d). d = c) (sv_makerConns sv))"

lemma closeConn_store:
  "sv_store (closeConn now c sv) =
     fold (\<lambda>m s. fst (RemoveByMaker m s)) (makers_at c sv) (fold Unsubscribe (map snd (wc_subs (sv_conns sv ! c))) (sv_store sv))"
  by (simp add: closeConn_unfold)

lemma closeConn_timers: "m \<in> set (makers_at c sv) \<Longrightarrow> (now + makerReconnectGrace, EvictGhostOffers m) \<in> set (sv_timers (closeConn now c sv))"
  by (auto simp: closeConn_unfold)

lemma gomap_ok_deletes: "gomap_ok m \<Longrightarrow> gomap_ok (fold AList.delete ks m)"
  by (induction ks arbitrary: m) simp_all

lemma RemoveByMakers_entries:
  "gomap_ok (entries s) \<Longrightarrow>
   Get k (fold (\<lambda>m s. fst (RemoveByMaker m s)) ms s) =
     (case Get k s of None \<Rightarrow> None | Some e \<Rightarrow> if k_MakerPubkey k \<in> set ms \<and> GetSameChain (e_Offer e) \<noteq> None then None else Some e)"
proof (induction ms arbitrary: s)
  case (Cons m ms)
  have "gomap_ok (entries (fst (RemoveByMaker m s)))" using Cons.prems by (simp add: RemoveByMaker_def Let_def gomap_ok_deletes)
  from Cons.IH [OF this] eviction_exact [OF Cons.prems, of k m] show ?case by (auto split: option.split)
qed (simp split: option.split)

text \<open>When a connection closes, the relay forgets exactly the maker keys it was the endpoint of and takes at once exactly the same-chain
  offers of those makers off the book; each of those makers has a minute to come back, after which its remaining interactive
  offers are evicted unless it is connected again, and covenant offers stay in every case.\<close>

lemma maker_disconnect:
  assumes "serving cr sv"
  shows "map_of (sv_makerConns (closeConn now c sv)) m = (if map_of (sv_makerConns sv) m = Some c then None else map_of (sv_makerConns sv) m) \<and>
    Get k (sv_store (closeConn now c sv)) =
      (case Get k (sv_store sv) of None \<Rightarrow> None | Some e \<Rightarrow>
         if map_of (sv_makerConns sv) (k_MakerPubkey k) = Some c \<and> GetSameChain (e_Offer e) \<noteq> None then None else Some e) \<and>
    (map_of (sv_makerConns sv) m = Some c \<longrightarrow>
      (now + makerReconnectGrace, EvictGhostOffers m) \<in> set (sv_timers (closeConn now c sv))) \<and>
    Get k (sv_store (run_timer cr later (EvictGhostOffers m) sv)) =
      (case Get k (sv_store sv) of None \<Rightarrow> None | Some e \<Rightarrow>
         if map_of (sv_makerConns sv) m = None \<and> k_MakerPubkey k = m \<and> GetCovenant (e_Offer e) = None then None else Some e)"
proof (intro conjI impI)
  note ok = serving_ok [OF assms]
  have conns: "gomap_ok (sv_makerConns sv)" by (rule makerConns_gomap [OF assms])
  have at_c: "m \<in> set (makers_at c sv) \<longleftrightarrow> map_of (sv_makerConns sv) m = Some c" for m
    using gomap_mem [OF conns, of m c] by force
  have book: "gomap_ok (entries (sv_store sv))" using server_okD(4) [OF ok] by (simp add: book_ok_def)
  have un: "entries (fold Unsubscribe js s) = entries s" for js s by (induction js arbitrary: s) simp_all
  show "map_of (sv_makerConns (closeConn now c sv)) m = (if map_of (sv_makerConns sv) m = Some c then None else map_of (sv_makerConns sv) m)"
  proof (cases "map_of (filter (\<lambda>(k, v). v \<noteq> c) (sv_makerConns sv)) m")
    case None
    then show ?thesis
      using map_of_filter_gomap [OF conns, of m _ "\<lambda>(k, v). v \<noteq> c"] unfolding makerConns_close
      by (cases "map_of (sv_makerConns sv) m") fastforce+
  next
    case (Some d)
    then have "(m, d) \<in> set (sv_makerConns sv)" "d \<noteq> c" using map_of_SomeD [OF Some] by auto
    then show ?thesis using Some gomap_mem [OF conns, of m d] by (simp add: makerConns_close)
  qed
  show "Get k (sv_store (closeConn now c sv)) =
      (case Get k (sv_store sv) of None \<Rightarrow> None | Some e \<Rightarrow>
         if map_of (sv_makerConns sv) (k_MakerPubkey k) = Some c \<and> GetSameChain (e_Offer e) \<noteq> None then None else Some e)"
    unfolding closeConn_store
    using RemoveByMakers_entries [of "fold Unsubscribe (map snd (wc_subs (sv_conns sv ! c))) (sv_store sv)" k "makers_at c sv"] book
    by (simp only: un at_c Get_def)
  show "(now + makerReconnectGrace, EvictGhostOffers m) \<in> set (sv_timers (closeConn now c sv))" if "map_of (sv_makerConns sv) m = Some c"
    using that at_c closeConn_timers by blast
  show "Get k (sv_store (run_timer cr later (EvictGhostOffers m) sv)) =
      (case Get k (sv_store sv) of None \<Rightarrow> None | Some e \<Rightarrow>
         if map_of (sv_makerConns sv) m = None \<and> k_MakerPubkey k = m \<and> GetCovenant (e_Offer e) = None then None else Some e)"
    using eviction_exact [OF book, of k m] by (auto simp: run_timer_def split: option.split)
qed

end
