(* ===== verification/Lift_Release.thy ===== *)
theory Lift_Release
  imports Order_Entry
begin

text \<open>
  What becomes of a lift whose taker goes away: closing the connection schedules the release (\<open>closeConn\<close> and
  \<open>releaseAbandonedLifts\<close> of \<open>api/ws.go\<close>), no other step of the server loses the timer, and when it fires the slot is free again.
\<close>

section \<open>Timers\<close>

lemma timers_state [simp]:
  "sv_timers (upd_conn c f sv) = sv_timers sv" "sv_timers (set_store s sv) = sv_timers sv"
  "sv_timers (set_router r sv) = sv_timers sv" "sv_timers (send_frame c fr sv) = sv_timers sv"
  "sv_timers (ws_send c m sv) = sv_timers sv" "sv_timers (sendErr c code e sv) = sv_timers sv"
  "sv_timers (ownOffer c ofr sv) = sv_timers sv" "sv_timers (attach c a ro sv) = sv_timers sv"
  "sv_timers (pump_leave i sv) = sv_timers sv" "sv_timers (after_grace now d job sv) = sv_timers sv @ [(now + d, job)]"
  "sv_timers (registerMaker c pk sv) = sv_timers sv"
  by (simp_all add: upd_conn_def set_store_def set_router_def send_frame_def ws_send_def sendErr_def ownOffer_def attach_def
      pump_leave_def after_grace_def registerMaker_def Let_def split: role.split)

lemma timers_handlers [simp]:
  "sv_timers (wsSubscribe tk c p sv) = sv_timers sv" "sv_timers (wsUnsubscribe c p sv) = sv_timers sv"
  "sv_timers (wsOfferEdit cr tk c ofr ip sv) = sv_timers sv" "sv_timers (wsOfferCancel cr c can sv) = sv_timers sv"
  "sv_timers (pump_forward i ok sv) = sv_timers sv" "sv_timers (pump_exit i sv) = sv_timers sv"
  by (auto simp: wsSubscribe_def wsUnsubscribe_def wsOfferEdit_def wsOfferCancel_def pump_forward_def pump_exit_def validate_def Let_def
      split: option.split prod.split sum.split list.split)

lemma timers_routeMatches [simp]: "sv_timers (routeMatches tc ids mts sv) = sv_timers sv"
  by (induction mts arbitrary: ids sv) (simp_all add: route_match_def Let_def split: option.split)

lemma timers_cross: "cross_resting tk tc ofr sv = Done (sv', b) \<Longrightarrow> sv_timers sv' = sv_timers sv"
  by (auto simp: cross_resting_def Let_def split: option.splits prod.splits)

lemma timers_lift [simp]:
  "sv_timers (pruneDeadLifts sv) = sv_timers sv" "sv_timers (fst (lift_reserve k sv)) = sv_timers sv"
  "sv_timers (notifyMaker a sv) = sv_timers sv" "sv_timers (fst (lift_start tk sl sv)) = sv_timers sv"
  "sv_timers (lift_record k res sv) = sv_timers sv" "sv_timers (lift_extend tk e a sv) = sv_timers sv"
  by (auto simp: pruneDeadLifts_def lift_reserve_def notifyMaker_def lift_start_def lift_record_def lift_extend_def Let_def
      split: option.split prod.split sum.split)

lemma timers_lift_ends [simp]:
  "sv_timers (fst (lift_slot e sl sv)) = sv_timers sv" "sv_timers (fst (lift_finish tk e sl res sv)) = sv_timers sv"
  by (simp_all add: lift_slot_def lift_finish_def Let_def split: sum.split)

lemma timers_openLift [simp]: "sv_timers (fst (openLift tk sl sv)) = sv_timers sv"
proof (cases "lift_check sl sv")
  case (Inr e)
  obtain sv1 b where slot: "lift_slot e sl sv = (sv1, b)" by fastforce
  obtain sv2 res where start: "lift_start tk sl sv1 = (sv2, res)" by fastforce
  have "sv_timers sv1 = sv_timers sv" "sv_timers sv2 = sv_timers sv1"
    using timers_lift_ends(1) [of e sl sv] timers_lift(4) [of tk sl sv1] by (simp_all add: slot start)
  then show ?thesis by (cases b) (simp_all add: openLift_def Inr slot start)
qed (simp add: openLift_def)

lemma timers_opened: "openLift tk sl sv = (sv', res) \<Longrightarrow> sv_timers sv' = sv_timers sv"
  by (metis fst_conv timers_openLift)

lemma timers_fold_send [simp]: "sv_timers (fold (send_frame c) frs sv) = sv_timers sv"
  by (induction frs arbitrary: sv) simp_all

lemma timers_sessions [simp]:
  "sv_timers (wsStartLift tk c sl sv) = sv_timers sv" "sv_timers (settlement_reply c out sv) = sv_timers sv"
  "sv_timers (release_session cr now sid sv) = sv_timers sv" "sv_timers (forward_turn c i sv) = sv_timers sv"
proof -
  show "sv_timers (wsStartLift tk c sl sv) = sv_timers sv"
    by (auto simp: wsStartLift_def timers_opened split: prod.split sum.split)
  show "sv_timers (settlement_reply c out sv) = sv_timers sv" "sv_timers (forward_turn c i sv) = sv_timers sv"
    by (simp_all add: settlement_reply_def forward_turn_def split: prod.split sum.split option.split)
  have gone: "sv_timers (release_session cr now sid sv) = sv_timers sv" for sid sv
    by (auto simp: release_session_def notifyMakerTakerGone_def abort_session_def Let_def split: prod.split option.split)
  then show "sv_timers (release_session cr now sid sv) = sv_timers sv" .
qed

lemma timers_run: "sv_timers (run_timer cr now job sv) = sv_timers sv"
  by (auto simp: run_timer_def Let_def split: timer_job.split)

lemma timers_Handler: "Handler cr tk r b sv = Done (sv', h) \<Longrightarrow> set (sv_timers sv) \<subseteq> set (sv_timers sv')"
  by (auto dest: timers_cross simp: timers_opened Handler_def handleOffers_def handleMarkets_def handleOfferSubmit_def handleCancel_def handleLift_def
      expireUnattachedLift_def validate_def Let_def split: prod.splits sum.splits option.splits if_splits outcome.splits)

lemma timers_submit: "wsOfferSubmit cr tk c ofr ip sv = Done sv' \<Longrightarrow> sv_timers sv' = sv_timers sv"
  by (auto dest: timers_cross simp: wsOfferSubmit_def validate_def Let_def split: if_splits sum.splits option.splits prod.splits outcome.splits)

lemma timers_reattach [simp]: "sv_timers (wsSessionReattach cr c ra sv) = sv_timers sv"
  by (auto simp: wsSessionReattach_def Let_def split: option.split sum.split role.split)

lemma timers_close: "set (sv_timers sv) \<subseteq> set (sv_timers (closeConn now c sv))"
  by (auto simp: closeConn_unfold)

text \<open>The step in which a timer fires.\<close>

definition fires :: "api_call \<Rightarrow> server_op \<Rightarrow> time \<times> timer_job \<Rightarrow> server \<Rightarrow> bool" where
  "fires tk op t sv \<longleftrightarrow> (\<exists>i. op = SvTimer i \<and> i < length (sv_timers sv) \<and> sv_timers sv ! i = t \<and> fst t \<le> tk_now tk)"

lemma timers_fire: "t \<in> set (sv_timers sv) \<Longrightarrow> \<not> fires tk (SvTimer i) t sv \<Longrightarrow> t \<in> set (sv_timers (timer_fires cr (tk_now tk) i sv))"
proof (cases "length (sv_timers sv) \<le> i \<or> tk_now tk < fst (sv_timers sv ! i)")
  case False
  assume t: "t \<in> set (sv_timers sv)" and "\<not> fires tk (SvTimer i) t sv"
  with False have "sv_timers sv ! i \<noteq> t" by (auto simp: fires_def)
  moreover have "sv_timers sv = take i (sv_timers sv) @ sv_timers sv ! i # drop (Suc i) (sv_timers sv)"
    using False by (intro id_take_nth_drop) simp
  ultimately have "t \<in> set (take i (sv_timers sv)) \<union> set (drop (Suc i) (sv_timers sv))"
    using t by (metis Un_iff set_append set_ConsD)
  with False show ?thesis by (auto simp: timer_fires_def timers_run)
qed (simp add: timer_fires_def)

lemma timers_serve:
  assumes "serve cr tk op sv = Done sv'" "t \<in> set (sv_timers sv)" "\<not> fires tk op t sv"
  shows "t \<in> set (sv_timers sv')"
proof (cases op)
  case (SvFrame c fr ip)
  show ?thesis
  proof (cases "wc_closed (sv_conns sv ! c) \<or> length (sv_conns sv) \<le> c \<or> fr = None")
    case True
    then show ?thesis using assms SvFrame timers_close by (auto simp: serve_def handleWS_def split: if_splits)
  next
    case False
    then obtain msg where d: "dispatch cr tk c msg ip sv = Done sv'"
      using assms SvFrame by (auto simp: serve_def handleWS_def)
    have "sv_timers sv' = sv_timers sv"
    proof (cases msg)
      case (ToOfferSubmit ofr)
      then show ?thesis using timers_submit [of cr tk c ofr ip sv sv'] d by (simp add: dispatch_def)
    next
      case (ToSwapMsg m)
      then show ?thesis using d by (auto simp: dispatch_def wsSwapMsg_def Let_def split: if_splits option.splits prod.splits sum.splits)
    next
      case ToListMarkets
      then show ?thesis using d by (auto simp: dispatch_def split: option.splits)
    qed (use d in \<open>auto simp: dispatch_def\<close>)
    with assms(2) show ?thesis by simp
  qed
next
  case (SvRest r b)
  then show ?thesis using assms by (auto simp: serve_def dest: timers_Handler split: outcome.splits)
next
  case (SvTimer i)
  then show ?thesis using assms(1,3) timers_fire [OF assms(2), of tk i cr] by (simp add: serve_def)
next
  case (SvClose c)
  then show ?thesis using assms timers_close by (auto simp: serve_def split: if_splits)
qed (use assms in \<open>auto simp: serve_def ws_accept_def split: if_splits\<close>)

text \<open>The states between two points in which a timer has not fired.\<close>

inductive scheduled_still :: "crypto \<Rightarrow> time \<times> timer_job \<Rightarrow> server \<Rightarrow> server \<Rightarrow> bool" for cr t sv where
  scheduled_refl: "scheduled_still cr t sv sv"
| scheduled_step: "scheduled_still cr t sv sv' \<Longrightarrow> serve cr tk op sv' = Done sv'' \<Longrightarrow> \<not> fires tk op t sv' \<Longrightarrow> scheduled_still cr t sv sv''"

lemma scheduled_kept: "scheduled_still cr t sv sv' \<Longrightarrow> t \<in> set (sv_timers sv) \<Longrightarrow> t \<in> set (sv_timers sv')"
  by (induction rule: scheduled_still.induct) (auto intro: timers_serve)

section \<open>Release\<close>

lemma evict_departed_conns: "sv_conns (fold (evict_departed now) ks sv) = sv_conns sv"
  by (induction ks arbitrary: sv) (simp_all add: evict_departed_def after_grace_def set_store_def)

lemma closeConn_releases:
  assumes "c < length (sv_conns sv)" "(sid, RoleTaker) \<in> set (wc_roles (sv_conns sv ! c))"
  shows "(now + takerReattachGrace, ReleaseLift c sid) \<in> set (sv_timers (closeConn now c sv))"
  using assms by (force simp: closeConn_unfold evict_departed_conns evictConnOffersAfterGrace_def after_grace_def upd_conn_def set_store_def)

text \<open>C32: a taker that disconnects does not lock the offer: closing its connection schedules the release of every session in which it was the taker, after the
  grace period; whatever the server does in the meantime, the release stays scheduled until it runs; and when it runs, then, if the taker has not
  re-attached over another connection, the session is ended and the next lift of the offer gets the slot, while
  if it has, its session stays; in either case every other session stays as it was.\<close>

theorem abandoned_lift_released:
  assumes "c < length (sv_conns sv)" "(sid, RoleTaker) \<in> set (wc_roles (sv_conns sv ! c))"
    "t = (gone + takerReattachGrace, ReleaseLift c sid)" "scheduled_still cr t (closeConn gone c sv) sv2"
  shows "\<exists>i < length (sv_timers sv2). sv_timers sv2 ! i = t \<and>
    (\<forall>tk sv3. gone + takerReattachGrace \<le> tk_now tk \<longrightarrow> serve cr tk (SvTimer i) sv2 = Done sv3 \<longrightarrow>
      (\<forall>j. router_Get j (sv_router sv3) =
         (if j = sid \<and> map_of (sv_takerConns sv2) sid = Some c then None else router_Get j (sv_router sv2))) \<and>
      (\<forall>k. map_of (sv_liftActive sv2) k = Some sid \<longrightarrow> sid \<noteq> liftReserving \<longrightarrow> map_of (sv_takerConns sv2) sid = Some c \<longrightarrow>
         snd (lift_reserve k sv3)))"
proof -
  have "t \<in> set (sv_timers sv2)" using scheduled_kept [OF assms(4)] closeConn_releases [OF assms(1,2), of gone] assms(3) by simp
  then obtain i where i: "i < length (sv_timers sv2)" "sv_timers sv2 ! i = t" by (auto simp: in_set_conv_nth)
  let ?sv = "sv2\<lparr>sv_timers := take i (sv_timers sv2) @ drop (Suc i) (sv_timers sv2)\<rparr>"
  have fires: "timer_fires cr (tk_now tk) i sv2 =
      (if map_of (sv_takerConns sv2) sid = Some c
       then release_session cr (tk_now tk) sid (?sv\<lparr>sv_takerConns := AList.delete sid (sv_takerConns sv2)\<rparr>) else ?sv)"
    if "gone + takerReattachGrace \<le> tk_now tk" for tk
    using i assms(3) that by (simp add: timer_fires_def run_timer_def)
  have slot: "snd (lift_reserve k sv')" if "map_of (sv_liftActive sv') k = Some sid" "router_Get sid (sv_router sv') = None" "sid \<noteq> liftReserving" for k sv'
    using that by (simp add: lift_reserve_def)
  show ?thesis
    using i by (intro exI [of _ i]) (auto simp: serve_def fires release_session_sessions intro!: slot)
qed

lemma takerConns_close: "sv_takerConns (closeConn now c sv) = sv_takerConns sv"
proof -
  have evict: "sv_takerConns (fold (evict_departed now) ks sv) = sv_takerConns sv" for ks sv
    by (induction ks arbitrary: sv) (simp_all add: evict_departed_def after_grace_def set_store_def)
  have grace: "sv_takerConns (fold (\<lambda>i. after_grace now d (f i)) js sv) = sv_takerConns sv" for d f js sv
    by (induction js arbitrary: sv) (simp_all add: after_grace_def)
  show ?thesis
    by (simp add: closeConn_def connRegistry_drop_def releaseAbandonedLifts_def Let_def grace evictConnOffersAfterGrace_def after_grace_def evict
        upd_conn_def set_store_def)
qed

text \<open>The taker of the sample lift goes away, and its grace period runs out.\<close>

definition taking_server :: server where
  "taking_server = lifted_server
     \<lparr>sv_liftActive := [(keyOf bid_offer, ''s1'')], sv_takerConns := [(''s1'', 0)],
      sv_conns := [(new_conn)\<lparr>wc_roles := [(''s1'', RoleTaker)]\<rparr>]\<rparr>"

theorem abandoned_lift_released_witness:
  "router_Get ''s1'' (sv_router taking_server) \<noteq> None \<and> (\<exists>i sv3. serve demo_crypto (call_at (takerReattachGrace + 3 * Second)) (SvTimer i) (closeConn (2 * Second) 0 taking_server) = Done sv3 \<and>
     router_Get ''s1'' (sv_router sv3) = None)"
proof -
  let ?sv = "closeConn (2 * Second) 0 taking_server"
  let ?tk = "call_at (takerReattachGrace + 3 * Second)"
  have was: "router_Get ''s1'' (sv_router taking_server) \<noteq> None"
    using lifted_server_lifting by (simp add: live_def taking_server_def)
  have taker: "map_of (sv_takerConns ?sv) ''s1'' = Some 0" by (simp add: takerConns_close taking_server_def)
  have c: "0 < length (sv_conns taking_server)" "(''s1'', RoleTaker) \<in> set (wc_roles (sv_conns taking_server ! 0))"
    by (simp_all add: taking_server_def)
  have due: "2 * Second + takerReattachGrace \<le> tk_now ?tk" by (simp add: call_at_def Second_def)
  from abandoned_lift_released [OF c refl scheduled_refl, where cr = demo_crypto and gone = "2 * Second"] obtain i where
    ended: "\<And>tk sv3 j. 2 * Second + takerReattachGrace \<le> tk_now tk \<Longrightarrow> serve demo_crypto tk (SvTimer i) ?sv = Done sv3 \<Longrightarrow>
      router_Get j (sv_router sv3) = (if j = ''s1'' \<and> map_of (sv_takerConns ?sv) ''s1'' = Some 0 then None else router_Get j (sv_router ?sv))"
    by blast
  have run: "serve demo_crypto ?tk (SvTimer i) ?sv = Done (timer_fires demo_crypto (tk_now ?tk) i ?sv)" by (simp add: serve_def)
  have "router_Get ''s1'' (sv_router (timer_fires demo_crypto (tk_now ?tk) i ?sv)) = None"
    using ended [OF due run] taker by metis
  with was run show ?thesis by blast
qed

end
