(* ===== verification/Bridge.thy ===== *)
theory Bridge
  imports Settlement_Properties
begin

text \<open>
  The cross-rail bridge (\<open>bridge/bridge.go\<close>, \<open>bridge/terms.go\<close>): it settles a match between a covenant
  order and a Lightning order by filling the covenant on chain and delivering the bought asset over
  Lightning, and decides whether the Lightning leg may be released before the fill is buried.
\<close>

section \<open>Plans\<close>

definition FeeScale :: u64 where
  "FeeScale = 100000000"

record ln_side =
  lns_OfferY :: u64
  lns_WantX :: u64
  lns_Max0Conf :: u64

text \<open>The audit reasons of the fronting decision.\<close>

datatype front_reason = NoZeroConfCap | ExceedsZeroConfCap | FeeBelowPolicyFee | WithinCapAndCovered

record bridge_settlement =
  bs_Fill :: fill_plan
  bs_PayY :: u64
  bs_RecvX :: u64
  bs_LNDeliverX :: u64
  bs_LNRecvY :: u64
  bs_FeeY :: u64
  bs_MinFeeY :: u64
  bs_FrontAmount :: u64
  bs_Max0Conf :: u64
  bs_ZeroConfFront :: bool
  bs_RequireConfs :: bool
  bs_FrontReason :: front_reason

datatype bridge_error =
    ZeroWantX | OnchainLeg cov_error | CrossUnderpays u64 u64 | NotCrossRail | BadCovenantTerms watch_error

text \<open>The two terms of the ceiling are added and scaled in 64 bits.\<close>

definition SizePolicyFee :: "u64 \<Rightarrow> u64 \<Rightarrow> u64" where
  "SizePolicyFee policyFeeSats rateY =
     (if rateY = 0 then policyFeeSats
      else (let f = (policyFeeSats * FeeScale + rateY - 1) div rateY in if f = 0 then 1 else f))"

definition mulDiv :: "u64 \<Rightarrow> u64 \<Rightarrow> u64 \<Rightarrow> u64" where
  "mulDiv a b c =
     (if c = 0 then 0
      else (let hi = (a div c) * b; lo = ((a mod c) * b) div c in hi + lo))"

definition bridge_Plan ::
  "crypto \<Rightarrow> order \<Rightarrow> u64 \<Rightarrow> u64 \<Rightarrow> ln_side \<Rightarrow> u64 \<Rightarrow> u64 \<Rightarrow> (bridge_error, bridge_settlement) result" where
  "bridge_Plan cr covOrder locked fillX lside policyFeeSats rateY =
     (if lns_WantX lside = 0 then Inl ZeroWantX
      else case PlanFill cr covOrder locked fillX 0 of
          Inl e \<Rightarrow> Inl (OnchainLeg e)
        | Inr fp \<Rightarrow>
            (let payY = fp_RequiredB fp; recvY = mulDiv fillX (lns_OfferY lside) (lns_WantX lside) in
             if recvY < payY then Inl (CrossUnderpays recvY payY)
             else
               (let feeY = recvY - payY;
                    minFeeY = SizePolicyFee policyFeeSats rateY;
                    (front, why) =
                      (if lns_Max0Conf lside = 0 then (False, NoZeroConfCap)
                       else if lns_Max0Conf lside < fp_Filled fp then (False, ExceedsZeroConfCap)
                       else if feeY < minFeeY then (False, FeeBelowPolicyFee)
                       else (True, WithinCapAndCovered))
                in Inr \<lparr>bs_Fill = fp, bs_PayY = payY, bs_RecvX = fp_Filled fp, bs_LNDeliverX = fp_Filled fp, bs_LNRecvY = recvY,
                        bs_FeeY = feeY, bs_MinFeeY = minFeeY, bs_FrontAmount = fp_Filled fp, bs_Max0Conf = lns_Max0Conf lside,
                        bs_ZeroConfFront = front, bs_RequireConfs = (\<not> front), bs_FrontReason = why\<rparr>)))"

text \<open>The adapter from the wire terms repeats the watcher's, field by field.\<close>

definition OrderFromTerms :: "covenant_terms \<Rightarrow> (watch_error, order) result" where
  "OrderFromTerms t =
     rbind (hex32 (ct_AssetA t)) (\<lambda>a.
     rbind (hex32 (ct_AssetB t)) (\<lambda>b.
     if length (ct_MakerProg t) \<noteq> 32 then Inl BadMakerProg
     else if length (ct_MakerX t) \<noteq> 32 then Inl BadMakerX
     else Inr \<lparr>AssetA = a, AssetB = b, RateNum = ct_RateNum t, RateDen = ct_RateDen t, MakerProg = ct_MakerProg t,
               MakerVer = uint (ct_MakerProgVer t), MinLot = ct_MinLot t, ExpiryLocktime = uint (ct_ExpiryLocktime t),
               MakerX = ct_MakerX t,
               InternalKey = (if length (ct_InternalKey t) = 32 then ct_InternalKey t else NUMS)\<rparr>))"

definition OutpointFromTerms :: "covenant_terms \<Rightarrow> string \<times> u32" where
  "OutpointFromTerms t = (ct_CovenantTxid t, ct_CovenantVout t)"

definition PlanFromMatch :: "crypto \<Rightarrow> match \<Rightarrow> ln_side \<Rightarrow> u64 \<Rightarrow> u64 \<Rightarrow> (bridge_error, bridge_settlement) result" where
  "PlanFromMatch cr m lside policyFeeSats rateY =
     (case BridgeCovenant m of
        (None, _) \<Rightarrow> Inl NotCrossRail
      | (Some terms, resting) \<Rightarrow>
          (case OrderFromTerms terms of
             Inl e \<Rightarrow> Inl (BadCovenantTerms e)
           | Inr ord \<Rightarrow>
               (let locked = (if resting then mt_RestingLocked m else mt_FillBase m) in
                bridge_Plan cr ord locked (mt_FillBase m) lside policyFeeSats rateY)))"

section \<open>Lemmas\<close>

lemma OrderFromTerms_watcher: "OrderFromTerms t = orderFromTerms t"
  by (simp add: OrderFromTerms_def orderFromTerms_def reject_if_def)

lemma unat_mulDiv_lo: "unat (((a mod c) * b) div c) = ((unat a mod unat c) * unat b) mod 2 ^ 64 div unat c" for a b c :: u64
  by (simp add: unat_div unat_mod unat_word_ariths)

lemma floor_split: "0 < c \<Longrightarrow> a * b div c = a div c * b + (a mod c) * b div c" for a b c :: nat
proof -
  assume "0 < c"
  have "a * b = (a div c * b) * c + (a mod c) * b" by (metis div_mult_mod_eq add_mult_distrib mult.assoc mult.commute)
  with \<open>0 < c\<close> show ?thesis by simp
qed

text \<open>\<open>mulDiv\<close> is the floor when its second product does not wrap, and at most the floor in any case.\<close>

lemma mulDiv_le:
  assumes "c \<noteq> 0" "unat a * unat b div unat c < 2 ^ 64"
  shows "unat (mulDiv a b c) \<le> unat a * unat b div unat c"
    "(unat a mod unat c) * unat b < 2 ^ 64 \<Longrightarrow> unat (mulDiv a b c) = unat a * unat b div unat c"
proof -
  have pos: "0 < unat c" using assms(1) by (simp add: unat_u64_pos)
  let ?hi = "unat a div unat c * unat b" and ?lo = "(unat a mod unat c) * unat b"
  have sum: "unat a * unat b div unat c = ?hi + ?lo div unat c" by (rule floor_split [OF pos])
  have hi: "unat ((a div c) * b) = ?hi"
    using sum assms(2) unat_mult_lem [of "a div c" b] by (simp add: unat_div)
  have lo: "unat (((a mod c) * b) div c) \<le> ?lo div unat c"
    unfolding unat_mulDiv_lo by (rule div_le_mono) simp
  have add: "unat (mulDiv a b c) = ?hi + unat (((a mod c) * b) div c)"
    using assms lo sum hi unat_add_lem [of "(a div c) * b" "((a mod c) * b) div c"] by (simp add: mulDiv_def)
  show "unat (mulDiv a b c) \<le> unat a * unat b div unat c" using add lo sum by simp
  show "unat (mulDiv a b c) = unat a * unat b div unat c" if "?lo < 2 ^ 64"
    using add sum that by (simp add: unat_mulDiv_lo)
qed

lemma floor_ceil_gap:
  assumes "0 < d" "0 < d'" "n * d' \<le> n' * d"
  shows "ceil_div (f * n) d \<le> f * n' div d' + 1"
proof (rule ceil_div_least [OF assms(1)])
  have "f * n' < (f * n' div d' + 1) * d'" using assms(2) by (metis add.commute dividend_less_div_times mult.commute mult_Suc plus_1_eq_Suc)
  then have "(f * n') * d \<le> ((f * n' div d' + 1) * d') * d" by (intro mult_le_mono1) simp
  moreover have "(f * n) * d' \<le> (f * n') * d" using assms(3) by (metis mult.assoc mult_le_mono2)
  ultimately have "(f * n) * d' \<le> ((f * n' div d' + 1) * d') * d" by (rule order_trans [rotated])
  also have "\<dots> = ((f * n' div d' + 1) * d) * d'" by (simp only: ac_simps)
  finally show "f * n \<le> (f * n' div d' + 1) * d" using assms(2) by (simp only: mult_le_cancel2)
qed

lemma SizePolicyFee_exact:
  assumes "rateY \<noteq> 0" "unat policyFeeSats * 100000000 + unat rateY < 2 ^ 64"
  shows "unat (SizePolicyFee policyFeeSats rateY) = max 1 (ceil_div (unat policyFeeSats * 100000000) (unat rateY))"
proof -
  have pos: "0 < unat rateY" using assms(1) by (simp add: unat_u64_pos)
  have p: "unat (policyFeeSats * FeeScale) = unat policyFeeSats * 100000000"
    using assms(2) by (simp add: FeeScale_def unat_word_ariths)
  have s: "unat (policyFeeSats * FeeScale + rateY) = unat policyFeeSats * 100000000 + unat rateY"
    using assms(2) p unat_add_lem [of "policyFeeSats * FeeScale" rateY] by simp
  have "1 \<le> policyFeeSats * FeeScale + rateY" using s pos by (simp add: word_le_nat_alt)
  then have "unat (policyFeeSats * FeeScale + rateY - 1) = unat policyFeeSats * 100000000 + (unat rateY - 1)"
    using s pos by (simp add: unat_sub)
  then have f: "unat ((policyFeeSats * FeeScale + rateY - 1) div rateY) = ceil_div (unat policyFeeSats * 100000000) (unat rateY)"
    by (simp add: unat_div ceil_div_def)
  then show ?thesis
    using assms(1) by (auto simp: SizePolicyFee_def Let_def max_def unat_eq_zero [symmetric])
qed

section \<open>Every cross-rail match\<close>

lemma bridge_Plan_exact:
  assumes "PlanFill cr ord locked fillX 0 = Inr fp" "lns_WantX lside \<noteq> 0"
    "unat fillX * unat (lns_OfferY lside) < 2 ^ 64" "r = unat fillX * unat (lns_OfferY lside) div unat (lns_WantX lside)"
  shows "bridge_Plan cr ord locked fillX lside fee rate =
    (if r < unat (fp_RequiredB fp) then Inl (CrossUnderpays (of_nat r) (fp_RequiredB fp))
     else Inr \<lparr>bs_Fill = fp, bs_PayY = fp_RequiredB fp, bs_RecvX = fillX, bs_LNDeliverX = fillX, bs_LNRecvY = of_nat r,
               bs_FeeY = of_nat (r - unat (fp_RequiredB fp)), bs_MinFeeY = SizePolicyFee fee rate, bs_FrontAmount = fillX,
               bs_Max0Conf = lns_Max0Conf lside,
               bs_ZeroConfFront = (lns_Max0Conf lside \<noteq> 0 \<and> fillX \<le> lns_Max0Conf lside \<and>
                  SizePolicyFee fee rate \<le> of_nat (r - unat (fp_RequiredB fp))),
               bs_RequireConfs = (\<not> (lns_Max0Conf lside \<noteq> 0 \<and> fillX \<le> lns_Max0Conf lside \<and>
                  SizePolicyFee fee rate \<le> of_nat (r - unat (fp_RequiredB fp)))),
               bs_FrontReason =
                 (if lns_Max0Conf lside = 0 then NoZeroConfCap
                  else if lns_Max0Conf lside < fillX then ExceedsZeroConfCap
                  else if of_nat (r - unat (fp_RequiredB fp)) < SizePolicyFee fee rate then FeeBelowPolicyFee
                  else WithinCapAndCovered)\<rparr>)"
proof -
  let ?a = "unat fillX" and ?b = "unat (lns_OfferY lside)" and ?c = "unat (lns_WantX lside)"
  have small: "?a * ?b div ?c < 2 ^ 64" using assms(3) by (rule le_less_trans [OF div_le_dividend])
  have "(?a mod ?c) * ?b \<le> ?a * ?b" by (intro mult_le_mono1) simp
  then have "(?a mod ?c) * ?b < 2 ^ 64" using assms(3) by (rule le_less_trans)
  then have u: "unat (mulDiv fillX (lns_OfferY lside) (lns_WantX lside)) = r"
    unfolding assms(4) by (rule mulDiv_le(2) [OF assms(2) small])
  then have recv: "mulDiv fillX (lns_OfferY lside) (lns_WantX lside) = of_nat r" by (simp flip: u)
  have less: "(of_nat r :: u64) < fp_RequiredB fp \<longleftrightarrow> r < unat (fp_RequiredB fp)"
    using u recv by (simp add: word_less_nat_alt)
  have "(of_nat r :: u64) - fp_RequiredB fp = of_nat (r - unat (fp_RequiredB fp))" if "\<not> r < unat (fp_RequiredB fp)"
    using that by (simp add: of_nat_diff)
  note ok = this
  have filled: "fp_Filled fp = fillX" by (rule PlanFill_fields(4) [OF assms(1)])
  show ?thesis
  proof (cases "r < unat (fp_RequiredB fp)")
    case True
    then show ?thesis by (simp add: bridge_Plan_def assms(1,2) recv less Let_def)
  next
    case False
    show ?thesis
      unfolding bridge_Plan_def assms(1) recv less filled ok [OF False] sum.case Let_def
      using False assms(2) by (simp add: linorder_not_less [symmetric])
  qed
qed

text \<open>C21: a match of the relay in which a Lightning order meets a resting covenant is settled by the bridge or refused for one atom: of
  validated offers, in a book reached without a reopen over an order of another pair or namespace, when the covenant's terms derive and
  the fill times the Lightning order's offer is below two to the 64 (the bridge's product wraps from there on), the
  bridge pays the covenant's maker exactly the announced quote, delivers exactly the matched amount over Lightning and collects the
  Lightning order's own price rounded down; it refuses only if that is below the quote, which is then a difference of a single atom;
  and it releases the Lightning leg early just when the amount is within the offer's cap and the fee covers the policy fee. (A covenant that
  is the incoming side is planned at the size of the match, which is outside this statement.)\<close>

theorem bridge_settles_cross_rail:
  assumes "reachable_fresh cr s" "offers_sat offer_wf s" "walk (store_book s) inc = Some (ms, rem)" "m \<in> set ms" "offer_wf inc"
    "CrossRail m" "mt_RestingCovenant m = Some ct" "OrderFromTerms ct = Inr ord" "Derive cr ord = Inr tap"
    "unat (mt_FillBase m) * unat (OfferAmount inc) < 2 ^ 64"
  shows "let lside = \<lparr>lns_OfferY = OfferAmount inc, lns_WantX = WantAmount inc, lns_Max0Conf = cap\<rparr>;
             r = unat (mt_FillBase m) * unat (OfferAmount inc) div unat (WantAmount inc) in
    if unat (mt_FillQuote m) \<le> r
    then (\<exists>st. PlanFromMatch cr m lside fee rate = Inr st \<and>
      bs_PayY st = mt_FillQuote m \<and> bs_RecvX st = mt_FillBase m \<and> bs_LNDeliverX st = mt_FillBase m \<and>
      unat (bs_LNRecvY st) = r \<and> unat (bs_FeeY st) = r - unat (mt_FillQuote m) \<and> fp_OrderSPK (bs_Fill st) = tt_ScriptPubKey tap \<and>
      (bs_ZeroConfFront st \<longleftrightarrow> cap \<noteq> 0 \<and> mt_FillBase m \<le> cap \<and> SizePolicyFee fee rate \<le> bs_FeeY st) \<and>
      (bs_RequireConfs st \<longleftrightarrow> \<not> bs_ZeroConfFront st))
    else unat (mt_FillQuote m) = r + 1 \<and>
      PlanFromMatch cr m lside fee rate = Inl (CrossUnderpays (of_nat r) (mt_FillQuote m))"
proof -
  have ord: "orderFromTerms ct = Inr ord" using assms(8) by (simp add: OrderFromTerms_watcher)
  obtain fp where fp: "PlanFill cr ord (mt_RestingLocked m) (mt_FillBase m) 0 = Inr fp" "fp_RequiredB fp = mt_FillQuote m"
    using wf_match_plan [OF assms(1-4,7) ord assms(9)] by blast
  have inv: "book_ok cr s \<and> index_exact s" by (rule reachable_fresh_ok [OF assms(1)])
  have rest: "offer_wf (mt_Resting m)"
    using store.match_is_live [OF inv assms(3,4)] offers_satD [OF assms(2)] by (auto simp: Get_def store_book_def)
  note terms = wf_match_terms [OF assms(3,4) rest assms(5)]
  define r where "r = unat (mt_FillBase m) * unat (OfferAmount inc) div unat (WantAmount inc)"
  have small: "r < 2 ^ 64" using assms(10) unfolding r_def by (rule le_less_trans [OF div_le_dividend])
  have gap: "unat (mt_FillQuote m) \<le> r + 1"
    using floor_ceil_gap [OF terms(3-5), of "unat (mt_FillBase m)"] terms(6) by (simp add: r_def)
  have "BridgeCovenant m = (Some ct, True)" using assms(6,7) by (simp add: BridgeCovenant_def)
  then have plan: "PlanFromMatch cr m lside fee rate = bridge_Plan cr ord (mt_RestingLocked m) (mt_FillBase m) lside fee rate" for lside
    by (simp add: PlanFromMatch_def assms(8) Let_def)
  have spk: "fp_OrderSPK fp = tt_ScriptPubKey tap" using fp(1) assms(9) by (auto simp: PlanFill_Inr)
  have fee: "unat (of_nat (r - unat (mt_FillQuote m)) :: u64) = r - unat (mt_FillQuote m)" "unat (of_nat r :: u64) = r"
    using small by (simp_all add: unat_of_nat)
  have want: "WantAmount inc \<noteq> 0" using terms(4) by (auto simp: unat_eq_zero)
  show ?thesis
    unfolding Let_def r_def [symmetric] plan
    using bridge_Plan_exact [OF fp(1), of "\<lparr>lns_OfferY = OfferAmount inc, lns_WantX = WantAmount inc, lns_Max0Conf = cap\<rparr>" r fee rate]
      want assms(10) gap spk fee fp(2) by (auto simp: r_def)
qed

definition ln_bid :: offer where
  "ln_bid = bid_offer\<lparr>Settlement := Lightning \<lparr>ln_LnDirection = 0, ln_MakerClaimPub = [], ln_MakerRefundPub = [], ln_OnchainCltv = 0,
     ln_MakerIssuesHoldInvoice = False, ln_Max0confAmount = 80\<rparr>\<rparr>"

definition ln_store :: store where
  "ln_store = exec demo_crypto (2 * Second) (OpSubmit ln_bid) (exec demo_crypto Second (OpSubmit ask_offer) NewStore)"

definition ln_entry :: entry where
  "ln_entry = new_entry (2 * Second) ln_bid OFFER_STATUS_OPEN 60"

lemma ln_verified: "VerifyOffer demo_crypto (Some ln_bid) = Inr ()"
  by (rule demo_verified [where n = 2], use parse_sample_keys(2) in \<open>simp_all add: bid_offer_def ln_bid_def\<close>)

lemma ln_keys:
  "keyOf ln_bid = Key ''02010100'' ''b''" "Pair ln_bid = Some gold_usdx" "BaseAmount ln_bid = 60"
  "e_Offer ln_entry = ln_bid" "e_ActiveAmount ln_entry = 60" "GetCovenant ln_bid = None" "GetLightning ln_bid \<noteq> None"
  "GetLightning ask_offer = None" "OfferAmount ln_bid = 150" "WantAmount ln_bid = 60"
  by (simp_all add: keyOf_def ln_bid_def bid_offer_def ln_entry_def new_entry_def GetCovenant_def GetLightning_def ask_offer_def)

lemma ln_store_eq:
  "ln_store =
     \<lparr>entries = [(keyOf ask_offer, ask_entry), (keyOf ln_bid, ln_entry)],
      pairs = [(''gold/usdx'', [keyOf ln_bid, keyOf ask_offer])], subs = [], nextSub = 0, cancelNonce = [],
      settledNonce = [], subBuf = 256, trades = [], tradeLog = None, interactiveCap = 0\<rparr>"
proof -
  note submit = Submit_def sample_verified ln_verified sample_keys deep_keys ln_keys deep_amounts NewStore_def Let_def
    put_def new_entry_def broadcast_def gomap_get_def
  have first: "exec demo_crypto Second (OpSubmit ask_offer) NewStore =
      NewStore\<lparr>entries := [(keyOf ask_offer, ask_entry)], pairs := [(''gold/usdx'', [keyOf ask_offer])]\<rparr>"
    by (simp add: submit ask_entry_def)
  show ?thesis unfolding ln_store_def first by (simp add: submit ln_entry_def)
qed

lemma ln_walk: "walk (store_book ln_store) ln_bid = Some ([match_of ln_bid (ask_entry, 60, 120)], 0)"
proof -
  have fields: "Confidential ln_bid = False" "TradeDir ln_bid = TRADE_DIR_BUY" by (simp_all add: ln_bid_def bid_offer_def)
  have snap: "SnapshotPairEntries (Some gold_usdx) False ln_store = [ln_entry, ask_entry]"
    by (simp add: SnapshotPairEntries_def ln_store_eq gomap_get_def List.map_filter_simps deep_keys sample_keys
        sample_entry_fields ln_keys) (simp add: ask_offer_def bid_offer_def ln_bid_def)
  have el: "eligible ln_bid ask_entry" "\<not> eligible ln_bid ln_entry"
    by (simp_all add: eligible_def sample_entry_fields ln_keys sample_keys hasSettlementOwner_def sample_terms
        isSubAssetOffer_def crosses_def del: GetCovenant_Some)
      (simp_all add: GetLightning_def ask_offer_def bid_offer_def ln_bid_def IsSubAsset_def LnAssetLNForBTC_def LnBTCForAssetLN_def)
  have "candidates (store_book ln_store) ln_bid = Some [ask_entry]"
    by (simp add: candidates_def store_book_def snap el ln_keys fields)
  moreover have "Get (keyOf ln_bid) ln_store = Some ln_entry" by (simp add: Get_def ln_store_eq ln_keys sample_keys)
  ultimately show ?thesis using sample_fill by (simp add: walk_def) (simp add: store_book_def ln_keys)
qed

theorem bridge_settles_cross_rail_witness:
  "\<exists>st. PlanFromMatch demo_crypto (match_of ln_bid (ask_entry, 60, 120)) \<lparr>lns_OfferY = 150, lns_WantX = 60, lns_Max0Conf = 80\<rparr> 30 100000000 = Inr st \<and>
     bs_PayY st = 120 \<and> bs_LNDeliverX st = 60 \<and> unat (bs_LNRecvY st) = 150 \<and> unat (bs_FeeY st) = 30 \<and> bs_ZeroConfFront st"
proof -
  let ?m = "match_of ln_bid (ask_entry, 60, 120)"
  have reach: "reachable_fresh demo_crypto ln_store"
    unfolding ln_store_def by (intro reachable_fresh.intros) (simp_all add: reopen_fresh_def)
  have wf: "offer_wf ln_bid"
    by (simp add: offer_wf_def ln_keys del: GetCovenant_Some)
      (simp add: ln_bid_def bid_offer_def gold_usdx_def GetBaseAsset_def GetQuoteAsset_def)
  then have all: "offers_sat offer_wf ln_store"
    using sample_wf(1) by (simp add: offers_sat_def ln_store_eq ln_keys sample_entry_fields)
  obtain tap where tap: "Derive demo_crypto ask_order = Inr tap" using ask_Derive by blast
  have cov: "CrossRail ?m" "mt_RestingCovenant ?m = Some ask_terms"
    by (simp_all add: CrossRail_def match_of_def Let_def sample_entry_fields sample_terms ln_keys del: GetCovenant_Some)
  have ord: "OrderFromTerms ask_terms = Inr ask_order" by (simp add: OrderFromTerms_watcher ask_orderFromTerms)
  have amounts: "mt_FillBase ?m = 60" "mt_FillQuote ?m = 120" by (simp_all add: match_of_def)
  have fee: "SizePolicyFee 30 100000000 = 30" by (simp add: SizePolicyFee_def FeeScale_def)
  have "?m \<in> set [?m]" by simp
  from bridge_settles_cross_rail [OF reach all ln_walk this wf cov ord tap, of 80 30 100000000]
  obtain st where st: "PlanFromMatch demo_crypto ?m \<lparr>lns_OfferY = 150, lns_WantX = 60, lns_Max0Conf = 80\<rparr> 30 100000000 = Inr st"
    "bs_PayY st = 120" "bs_LNDeliverX st = 60" "unat (bs_LNRecvY st) = 150" "unat (bs_FeeY st) = 30"
    "bs_ZeroConfFront st \<longleftrightarrow> SizePolicyFee 30 100000000 \<le> bs_FeeY st"
    by (auto simp: amounts ln_keys Let_def)
  then show ?thesis by (auto simp: fee word_le_nat_alt)
qed

section \<open>Where the bridge is narrower than announced\<close>

text \<open>
  An incoming covenant that is matched for less than it holds is planned as if the match took all of it: the plan has no
  remainder output, so the \<open>FILL\<close> leaf rejects the transaction.
\<close>

lemma incoming_covenant_planned_whole:
  assumes "PlanFromMatch cr m lside fee rate = Inr st" "mt_RestingCovenant m = None"
  shows "\<not> fp_Partial (bs_Fill st) \<and> fp_Remainder (bs_Fill st) = 0 \<and> bs_RecvX st = mt_FillBase m"
proof -
  obtain ord where "bridge_Plan cr ord (mt_FillBase m) (mt_FillBase m) lside fee rate = Inr st"
    using assms by (auto simp: PlanFromMatch_def BridgeCovenant_def Let_def split: option.splits sum.splits if_splits)
  then obtain fp where "PlanFill cr ord (mt_FillBase m) (mt_FillBase m) 0 = Inr fp" "bs_Fill st = fp" "bs_RecvX st = fp_Filled fp"
    by (auto simp: bridge_Plan_def Let_def split: sum.splits if_splits)
  with PlanFill_fields [OF this(1)] show ?thesis by simp
qed

text \<open>
  The split product of \<open>mulDiv\<close> wraps once both factors pass \<open>2 ^ 32\<close>: a Lightning bid at a price of one for ten billion atoms,
  filled by half, is read as offering 1310651185 atoms for the five billion taken, and the fill is refused as underpaying.
\<close>

lemma bridge_mulDiv_wraps: "mulDiv 5000000000 10000000000 10000000000 = 1310651185"
  by (simp add: mulDiv_def)

lemma bridge_refuses_large_fill:
  assumes "PlanFill cr ord locked 5000000000 0 = Inr fp" "fp_RequiredB fp = 5000000000"
  shows "bridge_Plan cr ord locked 5000000000 \<lparr>lns_OfferY = 10000000000, lns_WantX = 10000000000, lns_Max0Conf = cap\<rparr> fee rate =
    Inl (CrossUnderpays 1310651185 5000000000)"
  by (simp add: bridge_Plan_def assms bridge_mulDiv_wraps Let_def)

end
