(* ===== verification/Crosser.thy ===== *)
theory Crosser
  imports Offer_Model "HOL-Library.Product_Lexorder" "HOL-Library.List_Lexorder" "HOL-Library.Char_ord"
begin

text \<open>
  The crossing agent's planner (\<open>cmd/seqob-crosser\<close>: \<open>norm.go\<close>, \<open>book.go\<close>, \<open>detect.go\<close>, \<open>legorder.go\<close> and the
  capability check of \<open>exec.go\<close>): signed offers of several relays normalised onto one pair, joined into a
  union book, the best executable bid and ask compared, the overlap sized to what both legs can settle, and the
  plan gated on its profit. A log line is dropped; a reason string is a value of a reason type.
\<close>

section \<open>Normalised orders\<close>

datatype family = FamUnknown | FamSameChain | FamCovenant | FamCross | FamSubmarine | FamPureLN | FamSubAsset

datatype side = SideBid | SideAsk

record norm_order =
  no_Relay :: string
  no_Offer :: offer
  no_Family :: family
  no_Side :: side
  no_Base :: string
  no_Quote :: string
  no_Flipped :: bool
  no_BaseSize :: u64
  no_QuoteNum :: u64
  no_BaseDen :: u64
  no_AllowPartial :: bool
  no_MinFill :: u64
  no_Sliceable :: bool
  no_MinLot :: u64
  no_ExpiresAt :: u64
  no_CreatedAt :: u64

definition norm_ID :: "norm_order \<Rightarrow> string" where
  "norm_ID n = MakerPubkey (no_Offer n) @ '':'' @ OfferId (no_Offer n)"

text \<open>\<open>big.Int\<close> products and quotients; a result beyond 64 bits saturates.\<close>

definition saturate :: "nat \<Rightarrow> u64" where
  "saturate q = (if q < 18446744073709551616 then of_nat q else MaxUint64)"

definition ceilMulDiv :: "u64 \<Rightarrow> u64 \<Rightarrow> u64 \<Rightarrow> u64" where
  "ceilMulDiv a num den =
     (if den = 0 then 0
      else (let p = unat a * unat num; d = unat den; q = p div d; r = p mod d in
            saturate (if r \<noteq> 0 then q + 1 else q)))"

definition floorMulDiv :: "u64 \<Rightarrow> u64 \<Rightarrow> u64 \<Rightarrow> u64" where
  "floorMulDiv a num den = (if den = 0 then 0 else saturate (unat a * unat num div unat den))"

definition CostFor :: "norm_order \<Rightarrow> u64 \<Rightarrow> u64" where
  "CostFor n tk = ceilMulDiv tk (no_QuoteNum n) (no_BaseDen n)"

definition RevenueFor :: "norm_order \<Rightarrow> u64 \<Rightarrow> u64" where
  "RevenueFor n tk = floorMulDiv tk (no_QuoteNum n) (no_BaseDen n)"

definition PriceGE :: "norm_order \<Rightarrow> norm_order \<Rightarrow> bool" where
  "PriceGE a b \<longleftrightarrow> unat (no_QuoteNum b) * unat (no_BaseDen a) \<le> unat (no_QuoteNum a) * unat (no_BaseDen b)"

definition classifyFamily :: "offer \<Rightarrow> family" where
  "classifyFamily ofr =
     (if GetSameChain ofr \<noteq> None then FamSameChain
      else if GetCovenant ofr \<noteq> None then FamCovenant
      else if GetCrossChain ofr \<noteq> None then FamCross
      else case GetLightning ofr of
          Some lt \<Rightarrow>
            (if IsPureLN (ln_LnDirection lt) then FamPureLN
             else if IsSubAsset (ln_LnDirection lt) then FamSubAsset
             else FamSubmarine)
        | None \<Rightarrow> FamUnknown)"

datatype norm_error =
    NotThisPair | ZeroSizedOffer | UnknownSettlementFamily | NotRequestedBase | TradeDirContradicts | BaseAmountDiffers u64 u64

definition makerSells :: "offer \<Rightarrow> string \<Rightarrow> (norm_error, bool) result" where
  "makerSells ofr base =
     (if OfferAsset ofr = base then Inr True
      else if WantAsset ofr = base then Inr False
      else Inl NotRequestedBase)"

text \<open>The order built from an offer that passed the checks.\<close>

definition norm_of :: "offer \<Rightarrow> string \<Rightarrow> string \<Rightarrow> string \<Rightarrow> bool \<Rightarrow> bool \<Rightarrow> u64 \<Rightarrow> u64 \<Rightarrow> norm_order" where
  "norm_of ofr relay base quote isAsk flipped baseSize quoteNum =
     (let fam = classifyFamily ofr in
      \<lparr>no_Relay = relay, no_Offer = ofr, no_Family = fam, no_Side = (if isAsk then SideAsk else SideBid),
       no_Base = base, no_Quote = quote, no_Flipped = flipped,
       no_BaseSize = baseSize, no_QuoteNum = quoteNum, no_BaseDen = baseSize,
       no_AllowPartial = AllowPartial ofr,
       no_MinFill = (if flipped \<and> 0 < MinFill ofr then ceilMulDiv (MinFill ofr) baseSize quoteNum else MinFill ofr),
       no_Sliceable = (fam \<in> {FamCross, FamSubAsset, FamPureLN, FamSameChain, FamCovenant}),
       no_MinLot = (if fam = FamCovenant then (case GetCovenant ofr of Some ct \<Rightarrow> ct_MinLot ct | None \<Rightarrow> 0) else 0),
       no_ExpiresAt = ExpiresAtUnix ofr, no_CreatedAt = CreatedAtUnix ofr\<rparr>)"

definition Normalize :: "offer \<Rightarrow> string \<Rightarrow> string \<Rightarrow> string \<Rightarrow> (norm_error, norm_order) result" where
  "Normalize ofr relay base quote =
     (let oa = OfferAsset ofr; wa = WantAsset ofr in
      if \<not> (oa = base \<and> wa = quote \<or> oa = quote \<and> wa = base) then Inl NotThisPair
      else if OfferAmount ofr = 0 \<or> WantAmount ofr = 0 then Inl ZeroSizedOffer
      else if classifyFamily ofr = FamUnknown then Inl UnknownSettlementFamily
      else rbind (makerSells ofr base) (\<lambda>isAsk.
        (let flipped = (GetBaseAsset (Pair ofr) = quote); td = TradeDir ofr in
         if td \<noteq> TRADE_DIR_UNSPECIFIED \<and> (((td = TRADE_DIR_SELL) \<noteq> flipped) \<noteq> isAsk) then Inl TradeDirContradicts
         else
           (let (baseSize, quoteNum) =
                  (if isAsk then (OfferAmount ofr, WantAmount ofr) else (WantAmount ofr, OfferAmount ofr)) in
            if \<not> flipped \<and> BaseAmount ofr \<noteq> baseSize then Inl (BaseAmountDiffers (BaseAmount ofr) baseSize)
            else Inr (norm_of ofr relay base quote isAsk flipped baseSize quoteNum)))))"

section \<open>The union book\<close>

text \<open>One offer of one relay against the orders already kept: \<open>seen\<close> holds the keys of \<open>out\<close>.\<close>

definition union_step ::
  "crypto \<Rightarrow> string \<Rightarrow> string \<Rightarrow> time \<Rightarrow> duration \<Rightarrow> string \<times> offer \<Rightarrow> string set \<times> norm_order list \<Rightarrow> string set \<times> norm_order list" where
  "union_step cr base quote now minTTL = (\<lambda>(relay, ofr) (seen, out).
     (let key = MakerPubkey ofr @ '':'' @ OfferId ofr in
      if key \<in> seen then (seen, out)
      else if VerifyOffer cr (Some ofr) \<noteq> Inr () then (seen, out)
      else if 0 < ExpiresAtUnix ofr \<and> time_Unix (ExpiresAtUnix ofr) < now + minTTL then (seen, out)
      else (case Normalize ofr relay base quote of
          Inl _ \<Rightarrow> (seen, out)
        | Inr n \<Rightarrow> (insert key seen, out @ [n]))))"

definition BuildUnion ::
  "crypto \<Rightarrow> (string, offer list) gomap \<Rightarrow> string \<Rightarrow> string \<Rightarrow> time \<Rightarrow> duration \<Rightarrow> norm_order list" where
  "BuildUnion cr offersByRelay base quote now minTTL =
     (let rows = concat (map (\<lambda>relay. map (\<lambda>ofr. (relay, ofr)) (gomap_get [] offersByRelay relay)) (sort (map fst offersByRelay))) in
      snd (fold (union_step cr base quote now minTTL) rows ({}, [])))"

text \<open>
  The markets the relays list, one list per relay, \<open>None\<close> for one that cannot be read. Two assets listed in both
  orientations are one market, in the first orientation seen unless a later one is quoted in BTC.
\<close>

definition minStr :: "string \<Rightarrow> string \<Rightarrow> string" where
  "minStr a b = (if a < b then a else b)"

definition maxStr :: "string \<Rightarrow> string \<Rightarrow> string" where
  "maxStr a b = (if a < b then b else a)"

definition discover_step ::
  "string \<times> string \<Rightarrow> (string \<times> string, string \<times> string) gomap \<times> (string \<times> string) list \<Rightarrow>
   (string \<times> string, string \<times> string) gomap \<times> (string \<times> string) list" where
  "discover_step = (\<lambda>(b, q) (seen, order).
     if b = '''' \<or> q = '''' \<or> b = q then (seen, order)
     else (let key = (minStr b q, maxStr b q) in
       case map_of seen key of
         None \<Rightarrow> (AList.update key (b, q) seen, order @ [key])
       | Some cur \<Rightarrow>
           if snd cur \<noteq> BTCSentinel \<and> q = BTCSentinel then (AList.update key (b, q) seen, order) else (seen, order)))"

definition DiscoverPairs :: "(string \<times> string) list option list \<Rightarrow> (string \<times> string) list" where
  "DiscoverPairs listings =
     (let (seen, order) = fold discover_step (concat (List.map_filter id listings)) ([], []) in
      map (gomap_get ('''', '''') seen) order)"

section \<open>What can be executed\<close>

record caps =
  cap_SeqRPC :: string
  cap_SeqWallet :: string
  cap_BtcRPC :: string
  cap_BtcWallet :: string
  cap_BtcChain :: string
  cap_AssetLNSocket :: string
  cap_BtcLNSocket :: string
  cap_Esplora :: string
  cap_TakerPriv :: string
  cap_TakerBlinding :: string
  cap_SeqobCli :: string
  cap_StateDir :: string
  cap_SpendFee :: u64
  cap_BtcFeeRate :: rat
  cap_MinBTCConf :: int
  cap_LegTimeout :: duration

definition Executable :: "caps \<Rightarrow> norm_order \<Rightarrow> bool" where
  "Executable c n =
     (if no_Flipped n then False
      else case no_Family n of
          FamPureLN \<Rightarrow> cap_AssetLNSocket c \<noteq> '''' \<and> cap_BtcLNSocket c \<noteq> ''''
        | FamCross \<Rightarrow>
            (if no_Quote n \<noteq> BTCSentinel then False
             else cap_BtcRPC c \<noteq> '''' \<and> cap_BtcWallet c \<noteq> '''' \<and> cap_SeqRPC c \<noteq> '''' \<and> cap_SeqWallet c \<noteq> '''')
        | FamSubmarine \<Rightarrow>
            (if no_Quote n \<noteq> BTCSentinel then False
             else cap_SeqRPC c \<noteq> '''' \<and> cap_SeqWallet c \<noteq> '''' \<and> cap_BtcLNSocket c \<noteq> '''')
        | FamSubAsset \<Rightarrow>
            (if cap_AssetLNSocket c = '''' then False
             else if no_Quote n = BTCSentinel then cap_BtcRPC c \<noteq> '''' \<and> cap_BtcWallet c \<noteq> ''''
             else cap_SeqRPC c \<noteq> '''' \<and> cap_SeqWallet c \<noteq> '''')
        | FamSameChain \<Rightarrow> cap_Esplora c \<noteq> '''' \<and> cap_TakerPriv c \<noteq> '''' \<and> cap_TakerBlinding c \<noteq> ''''
        | FamCovenant \<Rightarrow> cap_SeqRPC c \<noteq> '''' \<and> cap_SeqWallet c \<noteq> ''''
        | FamUnknown \<Rightarrow> False)"

definition takeArg :: "norm_order \<Rightarrow> u64 \<Rightarrow> u64" where
  "takeArg n tk = (if tk = no_BaseSize n then 0 else tk)"

section \<open>The driver of a leg\<close>

text \<open>
  An argument of a shelled command; \<open>fmt.Sprint\<close> of a number is kept as the number. The state file name is minted
  from the clock, so it is a parameter.
\<close>

datatype arg = Str string | Num u64 | IntArg int | Float rat

definition appendSubAssetChain :: "caps \<Rightarrow> norm_order \<Rightarrow> arg list" where
  "appendSubAssetChain c n =
     (if no_Quote n = BTCSentinel
      then [Str ''-btc-rpc'', Str (cap_BtcRPC c), Str ''-btc-wallet'', Str (cap_BtcWallet c), Str ''-btc-chain'', Str (cap_BtcChain c)]
      else [Str ''-quote-asset'', Str (no_Quote n), Str ''-xseq-rpc'', Str (cap_SeqRPC c), Str ''-xseq-wallet'', Str (cap_SeqWallet c)])"

record leg_command =
  lc_args :: "arg list"
  lc_stateFile :: string
  lc_resume :: string

definition cross_args :: "caps \<Rightarrow> norm_order \<Rightarrow> u64 \<Rightarrow> string \<Rightarrow> string \<Rightarrow> arg list" where
  "cross_args c n amt cmd state =
     [Str cmd, Str ''-asset'', Str (no_Base n), Str ''-btc-rpc'', Str (cap_BtcRPC c), Str ''-btc-wallet'', Str (cap_BtcWallet c),
      Str ''-btc-chain'', Str (cap_BtcChain c), Str ''-seq-rpc'', Str (cap_SeqRPC c), Str ''-seq-wallet'', Str (cap_SeqWallet c),
      Str ''-min-btc-conf'', IntArg (cap_MinBTCConf c), Str ''-amount'', Num amt, Str ''-spend-fee'', Num (cap_SpendFee c),
      Str ''-btc-fee-rate'', Float (cap_BtcFeeRate c), Str ''-state-file'', Str state]"

definition submarine_args :: "caps \<Rightarrow> norm_order \<Rightarrow> string \<Rightarrow> string \<Rightarrow> arg list" where
  "submarine_args c n cmd state =
     [Str cmd, Str ''-asset'', Str (no_Base n), Str ''-seq-rpc'', Str (cap_SeqRPC c), Str ''-seq-wallet'', Str (cap_SeqWallet c),
      Str ''-ln-socket'', Str (cap_BtcLNSocket c), Str ''-spend-fee'', Num (cap_SpendFee c), Str ''-state-file'', Str state]"

definition subasset_args :: "caps \<Rightarrow> norm_order \<Rightarrow> u64 \<Rightarrow> string \<Rightarrow> string \<Rightarrow> arg list" where
  "subasset_args c n amt cmd state =
     [Str cmd, Str ''-asset'', Str (no_Base n), Str ''-asset-ln-socket'', Str (cap_AssetLNSocket c),
      Str ''-min-btc-conf'', IntArg (cap_MinBTCConf c), Str ''-amount'', Num amt, Str ''-spend-fee'', Num (cap_SpendFee c),
      Str ''-state-file'', Str state]"

definition legCommand :: "caps \<Rightarrow> (string \<Rightarrow> string) \<Rightarrow> norm_order \<Rightarrow> u64 \<Rightarrow> leg_command option" where
  "legCommand c mint n tk =
     (let amt = takeArg n tk; ofr = no_Offer n;
          common = [Str ''-relay'', Str (no_Relay n), Str ''-offer-id'', Str (OfferId ofr), Str ''-maker-pubkey'', Str (MakerPubkey ofr)] in
      case (no_Family n, no_Side n) of
        (FamCross, SideAsk) \<Rightarrow>
          (let state = mint ''xlift'' in Some
            \<lparr>lc_args = cross_args c n amt ''xlift'' state @ common, lc_stateFile = state,
             lc_resume = cap_SeqobCli c @ '' xrefund -state-file '' @ state @ '' -btc-rpc <url> -btc-wallet '' @ cap_BtcWallet c @
               '' -btc-chain '' @ cap_BtcChain c @ '' -wait''\<rparr>)
      | (FamCross, SideBid) \<Rightarrow>
          (let state = mint ''xsell'' in Some
            \<lparr>lc_args = cross_args c n amt ''xsell'' state @ common, lc_stateFile = state,
             lc_resume = cap_SeqobCli c @ '' xrefund-seq -state-file '' @ state @ '' -seq-rpc <url> -seq-wallet '' @ cap_SeqWallet c @ '' -wait''\<rparr>)
      | (FamSubmarine, SideBid) \<Rightarrow>
          (let state = mint ''xsublift'' in Some
            \<lparr>lc_args = submarine_args c n ''xsublift'' state @ common, lc_stateFile = state,
             lc_resume = ''asset refund path persists in '' @ state @ '' (xsublift re-run refunds after T_seq)''\<rparr>)
      | (FamSubmarine, SideAsk) \<Rightarrow>
          (let state = mint ''xsubbuy'' in Some
            \<lparr>lc_args = submarine_args c n ''xsubbuy'' state @ common, lc_stateFile = state,
             lc_resume = ''preimage persists in '' @ state @ '' (re-run xsubbuy to retry the asset claim)''\<rparr>)
      | (FamSubAsset, SideAsk) \<Rightarrow>
          (let state = mint ''xsubas'' in Some
            \<lparr>lc_args = (subasset_args c n amt ''xsubas'' state @ common) @ appendSubAssetChain c n, lc_stateFile = state,
             lc_resume = cap_SeqobCli c @ '' xsubas-refund -state-file '' @ state @ '' (after T_btc)''\<rparr>)
      | (FamSubAsset, SideBid) \<Rightarrow>
          (let state = mint ''xsubas-sell'' in Some
            \<lparr>lc_args = (subasset_args c n amt ''xsubas-sell'' state @ common) @ appendSubAssetChain c n, lc_stateFile = state,
             lc_resume = ''claim material persists in '' @ state @ '' (seqob-cli xsubas-claim-btc)''\<rparr>)
      | (FamCovenant, sd) \<Rightarrow>
          (let covAmt = (if sd = SideBid \<and> takeArg n tk \<noteq> 0 then floorMulDiv tk (no_QuoteNum n) (no_BaseDen n) else takeArg n tk);
               maxPay = (if sd = SideBid then tk else CostFor n tk) in Some
            \<lparr>lc_args = [Str ''covfill'', Str ''-base'', Str (GetBaseAsset (Pair ofr)), Str ''-quote'', Str (GetQuoteAsset (Pair ofr)),
               Str ''-seq-rpc'', Str (cap_SeqRPC c), Str ''-seq-wallet'', Str (cap_SeqWallet c), Str ''-spend-fee'', Num (cap_SpendFee c),
               Str ''-max-pay'', Num maxPay, Str ''-amount'', Num covAmt] @ common, lc_stateFile = '''',
             lc_resume = ''covenant fill is one atomic FILL tx: nothing to refund on failure''\<rparr>)
      | (FamSameChain, _) \<Rightarrow> Some
            \<lparr>lc_args = [Str ''lift'', Str ''-relay'', Str (no_Relay n), Str ''-base'', Str (GetBaseAsset (Pair ofr)),
               Str ''-quote'', Str (GetQuoteAsset (Pair ofr)), Str ''-offer-id'', Str (OfferId ofr), Str ''-maker-pubkey'', Str (MakerPubkey ofr),
               Str ''-amount'', Num tk, Str ''-esplora'', Str (cap_Esplora c), Str ''-taker-priv'', Str (cap_TakerPriv c),
               Str ''-taker-blinding'', Str (cap_TakerBlinding c)], lc_stateFile = '''',
             lc_resume = ''same-chain lift is a single co-signed tx: nothing to refund on failure''\<rparr>
      | _ \<Rightarrow> None)"

section \<open>Order of the legs\<close>

definition famScore :: "family \<Rightarrow> int" where
  "famScore f =
     (case f of FamCovenant \<Rightarrow> 5 | FamPureLN \<Rightarrow> 4 | FamSameChain \<Rightarrow> 3 | FamSubAsset \<Rightarrow> 2 | FamSubmarine \<Rightarrow> 2
      | FamCross \<Rightarrow> 1 | FamUnknown \<Rightarrow> 0)"

definition OrderLegs :: "norm_order \<Rightarrow> norm_order \<Rightarrow> norm_order \<times> norm_order" where
  "OrderLegs bid ask =
     (let bs = famScore (no_Family bid); as' = famScore (no_Family ask) in
      if as' < bs then (ask, bid) else if bs < as' then (bid, ask) else (ask, bid))"

section \<open>Sizing\<close>

datatype clamp_error =
    TakeExceedsLeg | WholeTakeOnly | ForbidsPartial | BelowMinFill | BelowMinLot | NoValidRemainder | NotConverged

text \<open>One leg of one pass: the size and whether this pass has reduced it.\<close>

definition clamp_leg :: "norm_order \<Rightarrow> u64 \<times> bool \<Rightarrow> (clamp_error, u64 \<times> bool) result" where
  "clamp_leg leg = (\<lambda>(tk, reduced).
     if tk = no_BaseSize leg then Inr (tk, reduced)
     else if no_BaseSize leg < tk then Inl TakeExceedsLeg
     else if \<not> no_Sliceable leg then Inl WholeTakeOnly
     else if \<not> no_AllowPartial leg then Inl ForbidsPartial
     else if 0 < no_MinFill leg \<and> tk < no_MinFill leg then Inl BelowMinFill
     else if no_Family leg = FamCovenant \<and> 0 < no_MinLot leg then
       (if tk < no_MinLot leg then Inl BelowMinLot
        else (let rem = no_BaseSize leg - tk in
          if 0 < rem \<and> rem < no_MinLot leg then
            (if no_BaseSize leg \<le> no_MinLot leg then Inl NoValidRemainder
             else Inr (no_BaseSize leg - no_MinLot leg, True))
          else Inr (tk, reduced)))
     else Inr (tk, reduced))"

definition clamp_pass :: "norm_order \<Rightarrow> norm_order \<Rightarrow> u64 \<Rightarrow> (clamp_error, u64 \<times> bool) result" where
  "clamp_pass bid ask tk = rbind (clamp_leg bid (tk, False)) (clamp_leg ask)"

fun clamp_passes :: "nat \<Rightarrow> norm_order \<Rightarrow> norm_order \<Rightarrow> u64 \<Rightarrow> (clamp_error, u64) result" where
  "clamp_passes 0 bid ask tk = Inl NotConverged"
| "clamp_passes (Suc n) bid ask tk =
     rbind (clamp_pass bid ask tk) (\<lambda>(tk', reduced). if reduced then clamp_passes n bid ask tk' else Inr tk')"

definition ClampOverlap :: "norm_order \<Rightarrow> norm_order \<Rightarrow> u64 \<times> clamp_error option" where
  "ClampOverlap bid ask =
     (let tk = (if no_BaseSize ask < no_BaseSize bid then no_BaseSize ask else no_BaseSize bid) in
      case clamp_passes 4 bid ask tk of Inl e \<Rightarrow> (0, Some e) | Inr t \<Rightarrow> (t, None))"

section \<open>The gate\<close>

record gate_config =
  gc_MinProfitBps :: u64
  gc_SpendFeeAtoms :: u64

record cross_plan =
  cp_Bid :: norm_order
  cp_Ask :: norm_order
  cp_Take :: u64
  cp_Cost :: u64
  cp_Revenue :: u64
  cp_Gross :: u64
  cp_EstCost :: u64
  cp_MinBps :: u64
  cp_First :: norm_order
  cp_Second :: norm_order

definition onchainSpends :: "family \<Rightarrow> u64" where
  "onchainSpends f =
     (case f of FamPureLN \<Rightarrow> 0 | FamSameChain \<Rightarrow> 1 | FamCovenant \<Rightarrow> 1 | FamSubmarine \<Rightarrow> 1 | FamSubAsset \<Rightarrow> 2
      | FamCross \<Rightarrow> 2 | FamUnknown \<Rightarrow> 2)"

definition EstimateCosts :: "norm_order \<Rightarrow> norm_order \<Rightarrow> gate_config \<Rightarrow> u64" where
  "EstimateCosts bid ask cfg = (onchainSpends (no_Family bid) + onchainSpends (no_Family ask)) * gc_SpendFeeAtoms cfg"

datatype gate_error = RevenueBelowCost | GrossBelowCosts | NetBelowBps

text \<open>\<open>Profitable\<close> writes the gross spread, the estimate and the floor into the plan it accepts.\<close>

definition Profitable :: "cross_plan \<Rightarrow> gate_config \<Rightarrow> (gate_error, cross_plan) result" where
  "Profitable p cfg =
     (if cp_Revenue p \<le> cp_Cost p then Inl RevenueBelowCost
      else (let p' = p\<lparr>cp_Gross := cp_Revenue p - cp_Cost p, cp_EstCost := EstimateCosts (cp_Bid p) (cp_Ask p) cfg,
                       cp_MinBps := gc_MinProfitBps cfg\<rparr> in
        if cp_Gross p' \<le> cp_EstCost p' then Inl GrossBelowCosts
        else (let net = cp_Gross p' - cp_EstCost p'; lhs = ceilMulDiv net 10000 1; rhs = ceilMulDiv (cp_Cost p) (gc_MinProfitBps cfg) 1 in
          if lhs < rhs then Inl NetBelowBps else Inr p')))"

section \<open>Detection\<close>

text \<open>The comparison of the stable sort; both orders are on the same side.\<close>

definition book_less :: "norm_order \<Rightarrow> norm_order \<Rightarrow> bool" where
  "book_less a b =
     (let aGE = PriceGE a b; bGE = PriceGE b a in
      if aGE \<noteq> bGE then (if no_Side a = SideBid then aGE else bGE)
      else no_CreatedAt a < no_CreatedAt b)"

definition price :: "norm_order \<Rightarrow> rat" where
  "price n = of_nat (unat (no_QuoteNum n)) / of_nat (unat (no_BaseDen n))"

definition book_rank :: "norm_order \<Rightarrow> rat \<times> u64" where
  "book_rank n = ((if no_Side n = SideBid then - price n else price n), no_CreatedAt n)"

text \<open>The stable sort by \<open>book_less\<close>, which compares the ranks of orders of one side (\<open>book_less_rank\<close> below).\<close>

definition SortBook :: "norm_order list \<Rightarrow> norm_order list" where
  "SortBook orders = sort_key book_rank orders"

datatype skip = NoExecutableSide | NoCross | SameMaker | Unsizeable "clamp_error option" | Unprofitable gate_error

record detection =
  dt_Plan :: "cross_plan option"
  dt_Skip :: "skip option"
  dt_BestBid :: "norm_order option"
  dt_BestAsk :: "norm_order option"

definition first_of :: "'a list \<Rightarrow> 'a option" where
  "first_of xs = (case xs of [] \<Rightarrow> None | x # _ \<Rightarrow> Some x)"

definition Detect :: "norm_order list \<Rightarrow> (norm_order \<Rightarrow> bool) \<Rightarrow> gate_config \<Rightarrow> detection" where
  "Detect orders canExec cfg =
     (let bids = SortBook (filter (\<lambda>n. canExec n \<and> no_Side n = SideBid) orders);
          asks = SortBook (filter (\<lambda>n. canExec n \<and> no_Side n \<noteq> SideBid) orders);
          skipped = (\<lambda>why. \<lparr>dt_Plan = None, dt_Skip = Some why, dt_BestBid = first_of bids, dt_BestAsk = first_of asks\<rparr>) in
      case (first_of bids, first_of asks) of
        (Some bid, Some ask) \<Rightarrow>
          (if \<not> PriceGE bid ask then skipped NoCross
           else if MakerPubkey (no_Offer bid) = MakerPubkey (no_Offer ask) then skipped SameMaker
           else (let (tk, why) = ClampOverlap bid ask in
             if tk = 0 then skipped (Unsizeable why)
             else
               (let plan = \<lparr>cp_Bid = bid, cp_Ask = ask, cp_Take = tk, cp_Cost = CostFor ask tk, cp_Revenue = RevenueFor bid tk,
                            cp_Gross = 0, cp_EstCost = 0, cp_MinBps = 0,
                            cp_First = fst (OrderLegs bid ask), cp_Second = snd (OrderLegs bid ask)\<rparr> in
                case Profitable plan cfg of
                  Inl e \<Rightarrow> skipped (Unprofitable e)
                | Inr plan' \<Rightarrow> \<lparr>dt_Plan = Some plan', dt_Skip = None, dt_BestBid = Some bid, dt_BestAsk = Some ask\<rparr>)))
      | _ \<Rightarrow> skipped NoExecutableSide)"

end
