(* ===== verification/Crosser_Properties.thy ===== *)
theory Crosser_Properties
  imports Crosser Sample_Book
begin

text \<open>
  The planner of the crossing agent: the size it chooses is the largest both legs can settle, its sort is the
  price-time order of the book, its plans never lose, and the offers it plans on are genuine.
\<close>

section \<open>Sizes a leg can settle\<close>

text \<open>What a leg can settle, in atoms of the base asset. A covenant's minimum lot is in atoms of its locked asset, which is the base asset for an
  ask; for a covenant that bids it is the quote asset, and comparing it with base atoms means nothing (the validator refuses such
  offers). So \<open>leg_legal\<close> is what can be settled only of asks and of bids that are not covenants, and the theorems assume that.\<close>

definition leg_legal :: "norm_order \<Rightarrow> u64 \<Rightarrow> bool" where
  "leg_legal leg t \<longleftrightarrow>
     t = no_BaseSize leg \<or>
     t < no_BaseSize leg \<and> no_Sliceable leg \<and> no_AllowPartial leg \<and> no_MinFill leg \<le> t \<and>
     (no_Family leg = FamCovenant \<longrightarrow> no_MinLot leg \<le> t \<and> no_MinLot leg \<le> no_BaseSize leg - t)"

text \<open>A size that leaves a covenant its minimum lot: such a leg is never reduced again.\<close>

definition slack :: "norm_order \<Rightarrow> u64 \<Rightarrow> bool" where
  "slack leg t \<longleftrightarrow> unat t + unat (no_MinLot leg) \<le> unat (no_BaseSize leg)"

definition to_reduce :: "norm_order \<Rightarrow> norm_order \<Rightarrow> u64 \<Rightarrow> nat" where
  "to_reduce bid ask t = (if slack bid t then 0 else 1) + (if slack ask t then 0 else 1)"

lemma slack_mono: "slack leg t \<Longrightarrow> u \<le> t \<Longrightarrow> slack leg u"
  by (simp add: slack_def u64_simps)

text \<open>
  What one leg does to a size within it: it keeps a legal size, replaces it by the largest smaller one, or
  refuses where no smaller size is legal.
\<close>

lemma clamp_leg_Inr:
  assumes "clamp_leg leg (t, r) = Inr (t', r')" "t \<le> no_BaseSize leg"
  shows "t' \<le> t" "leg_legal leg u \<Longrightarrow> u \<le> t \<Longrightarrow> u \<le> t'"
    "t' = t \<and> r' = r \<and> leg_legal leg t \<or> r' \<and> t' < t \<and> slack leg t' \<and> \<not> slack leg t"
  using assms
  by (auto simp: clamp_leg_def leg_legal_def slack_def Let_def u64_simps u64_unat_diff split: if_splits)

lemma clamp_leg_Inl:
  assumes "clamp_leg leg (t, r) = Inl e" "t \<le> no_BaseSize leg"
  shows "leg_legal leg u \<Longrightarrow> \<not> u \<le> t" "e \<notin> {TakeExceedsLeg, NoValidRemainder, NotConverged}"
  using assms
  by (auto simp: clamp_leg_def leg_legal_def Let_def u64_simps u64_unat_diff split: if_splits)

text \<open>One pass over both legs.\<close>

lemma clamp_pass_cases:
  assumes "t \<le> no_BaseSize bid" "t \<le> no_BaseSize ask"
  obtains (refused) e where "clamp_pass bid ask t = Inl e" "e \<notin> {TakeExceedsLeg, NoValidRemainder, NotConverged}"
      "\<And>u. leg_legal bid u \<Longrightarrow> leg_legal ask u \<Longrightarrow> \<not> u \<le> t"
  | (kept) "clamp_pass bid ask t = Inr (t, False)" "leg_legal bid t" "leg_legal ask t"
  | (reduced) t' where "clamp_pass bid ask t = Inr (t', True)" "t' < t" "to_reduce bid ask t' < to_reduce bid ask t"
      "\<And>u. leg_legal bid u \<Longrightarrow> leg_legal ask u \<Longrightarrow> u \<le> t \<Longrightarrow> u \<le> t'"
proof (cases "clamp_leg bid (t, False)")
  case (Inl e)
  with clamp_leg_Inl [OF Inl assms(1)] show ?thesis by (intro refused [of e]) (auto simp: clamp_pass_def)
next
  case (Inr st)
  obtain t1 r1 where st: "st = (t1, r1)" by force
  note one = clamp_leg_Inr [OF Inr [unfolded st] assms(1)]
  have t1: "t1 \<le> no_BaseSize ask" using one(1) assms(2) by order
  show ?thesis
  proof (cases "clamp_leg ask (t1, r1)")
    case Inl2: (Inl e)
    show ?thesis
      by (rule refused [of e], use Inr st Inl2 clamp_leg_Inl [OF Inl2 t1] one(2) in \<open>auto simp: clamp_pass_def\<close>)
  next
    case Inr2: (Inr st')
    obtain t2 r2 where st': "st' = (t2, r2)" by force
    note two = clamp_leg_Inr [OF Inr2 [unfolded st'] t1]
    have step: "clamp_pass bid ask t = Inr (t2, r2)"
      using Inr Inr2 by (simp add: clamp_pass_def st st')
    show ?thesis
    proof (cases r2)
      case False
      then have "r1 = False" "t2 = t1" "leg_legal ask t1" using two(3) by auto
      with one(3) have "t1 = t" "leg_legal bid t" by auto
      with \<open>t2 = t1\<close> \<open>leg_legal ask t1\<close> False step show ?thesis by (intro kept) auto
    next
      case True
      have le: "t2 \<le> t" using one(1) two(1) by order
      have changed: "slack bid t1 \<and> \<not> slack bid t \<and> t1 < t \<or> slack ask t2 \<and> \<not> slack ask t1 \<and> t2 < t1"
        using True one(3) two(3) by auto
      then have "t2 < t" using one(1) two(1) by auto
      moreover have "to_reduce bid ask t2 < to_reduce bid ask t"
        using changed slack_mono [OF _ le, of bid] slack_mono [OF _ le, of ask] slack_mono [OF _ two(1), of bid]
          slack_mono [OF _ one(1), of ask] by (auto simp: to_reduce_def)
      moreover have "u \<le> t2" if "leg_legal bid u" "leg_legal ask u" "u \<le> t" for u
        using one(2) [OF that(1,3)] two(2) [OF that(2)] by blast
      ultimately show ?thesis using step True by (intro reduced [of t2]) auto
    qed
  qed
qed

lemma clamp_passes_spec:
  assumes "t \<le> no_BaseSize bid" "t \<le> no_BaseSize ask" "to_reduce bid ask t < n"
  shows "case clamp_passes n bid ask t of
      Inr t' \<Rightarrow> t' \<le> t \<and> leg_legal bid t' \<and> leg_legal ask t' \<and> (\<forall>u. leg_legal bid u \<longrightarrow> leg_legal ask u \<longrightarrow> u \<le> t \<longrightarrow> u \<le> t')
    | Inl e \<Rightarrow> e \<notin> {TakeExceedsLeg, NoValidRemainder, NotConverged} \<and> (\<forall>u. leg_legal bid u \<longrightarrow> leg_legal ask u \<longrightarrow> \<not> u \<le> t)"
  using assms
proof (induction n arbitrary: t)
  case (Suc n)
  from Suc.prems(1,2) show ?case
  proof (cases rule: clamp_pass_cases)
    case (refused e)
    then show ?thesis by simp
  next
    case kept
    then show ?thesis by simp
  next
    case (reduced t')
    have "t' \<le> no_BaseSize bid" "t' \<le> no_BaseSize ask" "to_reduce bid ask t' < n"
      using reduced(2,3) Suc.prems by auto
    from Suc.IH [OF this] reduced(2,4) show ?thesis
      by (force simp: reduced(1) split: sum.splits)
  qed
qed simp

lemma clamp_pass_unchanged: "clamp_pass bid ask t = Inr (t', False) \<Longrightarrow> t' = t"
  by (auto simp: clamp_pass_def clamp_leg_def rbind_def Let_def split: sum.splits if_splits)

lemma clamp_passes_fixed: "clamp_passes n bid ask t = Inr t' \<Longrightarrow> clamp_pass bid ask t' = Inr (t', False)"
proof (induction n arbitrary: t)
  case (Suc n)
  from Suc.prems obtain u reduced where pass: "clamp_pass bid ask t = Inr (u, reduced)"
    by (auto simp: rbind_def split: sum.splits)
  show ?case
  proof (cases reduced)
    case True
    then show ?thesis using Suc pass by (simp add: rbind_def)
  next
    case False
    then show ?thesis using Suc.prems pass clamp_pass_unchanged [of bid ask t u] by (auto simp: rbind_def)
  qed
qed simp

lemma to_reduce_le_2: "to_reduce bid ask t \<le> 2"
  by (simp add: to_reduce_def)

lemma leg_legal_le: "leg_legal leg t \<Longrightarrow> t \<le> no_BaseSize leg"
  by (auto simp: leg_legal_def)

lemma ClampOverlap_spec:
  "let (t, why) = ClampOverlap bid ask in
   (t \<noteq> 0 \<longrightarrow> leg_legal bid t \<and> leg_legal ask t) \<and> (\<forall>u. leg_legal bid u \<longrightarrow> leg_legal ask u \<longrightarrow> u \<le> t) \<and>
   why \<notin> {Some TakeExceedsLeg, Some NoValidRemainder, Some NotConverged}"
proof -
  let ?t = "if no_BaseSize ask < no_BaseSize bid then no_BaseSize ask else no_BaseSize bid"
  have le: "?t \<le> no_BaseSize bid" "?t \<le> no_BaseSize ask" by auto
  have top: "u \<le> ?t" if "leg_legal bid u" "leg_legal ask u" for u
    using leg_legal_le [OF that(1)] leg_legal_le [OF that(2)] by auto
  have "to_reduce bid ask ?t < 4" using to_reduce_le_2 [of bid ask ?t] by simp
  from clamp_passes_spec [OF le this] top show ?thesis
    unfolding ClampOverlap_def Let_def by (auto split: sum.splits)
qed

text \<open>C20: the crossing agent sizes every overlap exactly: for a bid that is not a covenant (the validator refuses covenants that buy),
  \<open>ClampOverlap\<close> returns the largest amount that both legs can settle, whole or in part and with a valid covenant remainder of the ask, and zero
  only if there is no such positive amount; its three defensive refusals, the bound on its passes among them, are never reached.\<close>

theorem clamp_overlap_largest:
  assumes "no_Family bid \<noteq> FamCovenant"
  shows "let (t, why) = ClampOverlap bid ask in
   (t \<noteq> 0 \<longrightarrow> leg_legal bid t \<and> leg_legal ask t) \<and> (\<forall>u. leg_legal bid u \<longrightarrow> leg_legal ask u \<longrightarrow> u \<le> t) \<and>
   why \<notin> {Some TakeExceedsLeg, Some NoValidRemainder, Some NotConverged}"
  by (rule ClampOverlap_spec)

text \<open>C39: the sizing loop of the crossing agent ends by itself: from any size within both legs, with a budget of three passes or more, it
  never runs out of passes, but either returns a size that a whole pass has left unchanged or is refused by one of the legs, and the answer is the same for
  every such budget.\<close>

theorem clamp_overlap_terminates:
  assumes "t \<le> no_BaseSize bid" "t \<le> no_BaseSize ask" "3 \<le> n"
  shows "clamp_passes n bid ask t = clamp_passes 3 bid ask t \<and> clamp_passes n bid ask t \<noteq> Inl NotConverged \<and>
    (\<forall>t'. clamp_passes n bid ask t = Inr t' \<longrightarrow> t' \<le> t \<and> clamp_pass bid ask t' = Inr (t', False))"
proof -
  have "clamp_passes (m + k) bid ask t = clamp_passes m bid ask t"
    if "to_reduce bid ask t < m" "t \<le> no_BaseSize bid" "t \<le> no_BaseSize ask" for m k t
    using that
  proof (induction m arbitrary: t)
    case (Suc m)
    from Suc.prems(2,3) show ?case
    proof (cases rule: clamp_pass_cases)
      case (reduced t')
      then have "t' \<le> no_BaseSize bid" "t' \<le> no_BaseSize ask" "to_reduce bid ask t' < m" using Suc.prems by auto
      with Suc.IH reduced(1) show ?thesis by simp
    qed simp_all
  qed simp
  from this [of t 3 "n - 3"] assms to_reduce_le_2 [of bid ask t] have same: "clamp_passes n bid ask t = clamp_passes 3 bid ask t" by simp
  have "to_reduce bid ask t < n" using assms(3) to_reduce_le_2 [of bid ask t] by simp
  from clamp_passes_spec [OF assms(1,2) this] have
    "clamp_passes n bid ask t \<noteq> Inl NotConverged" "\<forall>t'. clamp_passes n bid ask t = Inr t' \<longrightarrow> t' \<le> t"
    by (auto split: sum.splits)
  with same clamp_passes_fixed [of n bid ask t] show ?thesis by blast
qed

section \<open>Amounts\<close>

lemma unat_saturate: "unat (saturate q) = min q 18446744073709551615"
  by (auto simp: saturate_def u64_unat_of_nat unat_MaxUint64)

lemma ceil_div_mod: "0 < d \<Longrightarrow> ceil_div a d = (if a mod d \<noteq> 0 then a div d + 1 else a div d)"
proof -
  assume d: "0 < d"
  have "a + (d - 1) = (a mod d + (d - 1)) + a div d * d" using div_mult_mod_eq [of a d] by linarith
  then have "ceil_div a d = a div d + (a mod d + (d - 1)) div d"
    unfolding ceil_div_def using d by (simp only: div_mult_self1)
  moreover have "(a mod d + (d - 1)) div d = (if a mod d \<noteq> 0 then 1 else 0)"
    using d mod_less_divisor [OF d, of a] by (auto intro!: div_nat_eqI)
  ultimately show ?thesis by simp
qed

lemma ceilMulDiv_saturates: "den \<noteq> 0 \<Longrightarrow> ceilMulDiv a num den = saturate (ceil_div (unat a * unat num) (unat den))"
  by (simp add: ceilMulDiv_def Let_def ceil_div_mod unat_u64_pos)

lemma ceilMulDiv_1: "unat (ceilMulDiv a num 1) = min (unat a * unat num) 18446744073709551615"
  by (simp add: ceilMulDiv_saturates unat_saturate ceil_div_def)

lemma onchainSpends_le: "unat (onchainSpends f) \<le> 2"
  by (cases f) (simp_all add: onchainSpends_def)

lemma EstimateCosts_exact:
  assumes "unat (gc_SpendFeeAtoms cfg) < 2 ^ 62"
  shows "unat (EstimateCosts bid ask cfg) =
    (unat (onchainSpends (no_Family bid)) + unat (onchainSpends (no_Family ask))) * unat (gc_SpendFeeAtoms cfg)"
proof -
  let ?b = "onchainSpends (no_Family bid)" and ?a = "onchainSpends (no_Family ask)"
  have bounds: "unat ?b \<le> 2" "unat ?a \<le> 2" by (rule onchainSpends_le)+
  then have sum: "unat (?b + ?a) = unat ?b + unat ?a" by (intro u64_unat_add) simp
  have "(unat ?b + unat ?a) * unat (gc_SpendFeeAtoms cfg) \<le> 4 * unat (gc_SpendFeeAtoms cfg)"
    using bounds by (intro mult_le_mono1) simp
  also have "\<dots> < 2 ^ 64" using assms by simp
  finally show ?thesis using sum unat_mult_lem [of "?b + ?a" "gc_SpendFeeAtoms cfg"] by (simp add: EstimateCosts_def)
qed

section \<open>The book\<close>

lemma Normalize_Inr:
  assumes "Normalize ofr relay base quote = Inr n"
  shows "no_Offer n = ofr" "no_Relay n = relay" "no_BaseDen n = no_BaseSize n" "no_BaseSize n \<noteq> 0" "no_QuoteNum n \<noteq> 0"
    "no_Base n = base" "no_Quote n = quote"
    "no_Side n = SideAsk \<Longrightarrow> OfferAsset ofr = base \<and> WantAsset ofr = quote \<and> no_BaseSize n = OfferAmount ofr \<and> no_QuoteNum n = WantAmount ofr"
    "no_Side n = SideBid \<Longrightarrow> OfferAsset ofr = quote \<and> WantAsset ofr = base \<and> no_BaseSize n = WantAmount ofr \<and> no_QuoteNum n = OfferAmount ofr"
    "\<not> no_Flipped n \<Longrightarrow> BaseAmount ofr = no_BaseSize n"
proof -
  obtain isAsk flipped bs qn where n: "n = norm_of ofr relay base quote isAsk flipped bs qn" "isAsk \<longleftrightarrow> OfferAsset ofr = base"
    "OfferAsset ofr = base \<and> WantAsset ofr = quote \<or> OfferAsset ofr = quote \<and> WantAsset ofr = base"
    "OfferAmount ofr \<noteq> 0" "WantAmount ofr \<noteq> 0" "(bs, qn) = (if isAsk then (OfferAmount ofr, WantAmount ofr) else (WantAmount ofr, OfferAmount ofr))"
    "flipped \<or> BaseAmount ofr = bs"
    using assms by (auto simp: Normalize_def makerSells_def Let_def split: if_splits)
  show "no_Offer n = ofr" "no_Relay n = relay" "no_BaseDen n = no_BaseSize n" "no_BaseSize n \<noteq> 0" "no_QuoteNum n \<noteq> 0"
    "no_Base n = base" "no_Quote n = quote" "\<not> no_Flipped n \<Longrightarrow> BaseAmount ofr = no_BaseSize n"
    "no_Side n = SideAsk \<Longrightarrow> OfferAsset ofr = base \<and> WantAsset ofr = quote \<and> no_BaseSize n = OfferAmount ofr \<and> no_QuoteNum n = WantAmount ofr"
    "no_Side n = SideBid \<Longrightarrow> OfferAsset ofr = quote \<and> WantAsset ofr = base \<and> no_BaseSize n = WantAmount ofr \<and> no_QuoteNum n = OfferAmount ofr"
    using n(2-) by (auto simp: n(1) norm_of_def Let_def split: if_splits)
qed

lemma Normalize_family:
  assumes "Normalize ofr relay base quote = Inr n"
  shows "no_Family n \<noteq> FamUnknown" "no_Sliceable n \<longrightarrow> no_Family n \<noteq> FamSubmarine"
proof -
  obtain isAsk flipped bs qn where "n = norm_of ofr relay base quote isAsk flipped bs qn" "classifyFamily ofr \<noteq> FamUnknown"
    using assms by (auto simp: Normalize_def makerSells_def Let_def split: if_splits)
  then show "no_Family n \<noteq> FamUnknown" "no_Sliceable n \<longrightarrow> no_Family n \<noteq> FamSubmarine"
    by (simp_all add: norm_of_def Let_def)
qed

text \<open>An order of the union: served by a relay, signed by its maker, not about to expire, normalised onto the pair.\<close>

definition genuine :: "crypto \<Rightarrow> (string, offer list) gomap \<Rightarrow> string \<Rightarrow> string \<Rightarrow> time \<Rightarrow> norm_order \<Rightarrow> bool" where
  "genuine cr offersByRelay base quote horizon n \<longleftrightarrow>
     no_Offer n \<in> set (gomap_get [] offersByRelay (no_Relay n)) \<and> VerifyOffer cr (Some (no_Offer n)) = Inr () \<and>
     (ExpiresAtUnix (no_Offer n) = 0 \<or> horizon \<le> time_Unix (ExpiresAtUnix (no_Offer n))) \<and>
     Normalize (no_Offer n) (no_Relay n) base quote = Inr n"

lemma union_step_genuine:
  assumes "\<forall>n\<in>set out. genuine cr obr base quote (now + ttl) n" "seen = set (map norm_ID out)" "distinct (map norm_ID out)"
    "ofr \<in> set (gomap_get [] obr relay)" "union_step cr base quote now ttl (relay, ofr) (seen, out) = (seen', out')"
  shows "(\<forall>n\<in>set out'. genuine cr obr base quote (now + ttl) n) \<and> seen' = set (map norm_ID out') \<and> distinct (map norm_ID out')"
proof (cases "(seen', out') = (seen, out)")
  case True
  then show ?thesis using assms(1-3) by simp
next
  case False
  let ?key = "MakerPubkey ofr @ '':'' @ OfferId ofr"
  obtain n where n: "?key \<notin> seen" "VerifyOffer cr (Some ofr) = Inr ()" "Normalize ofr relay base quote = Inr n"
    "\<not> (0 < ExpiresAtUnix ofr \<and> time_Unix (ExpiresAtUnix ofr) < now + ttl)" "seen' = insert ?key seen" "out' = out @ [n]"
    using assms(5) False by (auto simp: union_step_def Let_def split: if_splits sum.splits)
  have "norm_ID n = ?key" by (simp add: norm_ID_def Normalize_Inr(1) [OF n(3)])
  moreover have "genuine cr obr base quote (now + ttl) n"
    using n(2-4) assms(4) by (auto simp: genuine_def Normalize_Inr(1,2) [OF n(3)] word_gt_0)
  ultimately show ?thesis using n(1,5,6) assms(1-3) by auto
qed

lemma BuildUnion_genuine:
  "(\<forall>n\<in>set (BuildUnion cr obr base quote now ttl). genuine cr obr base quote (now + ttl) n) \<and>
   distinct (map norm_ID (BuildUnion cr obr base quote now ttl))"
proof -
  let ?ok = "\<lambda>(seen, out). (\<forall>n\<in>set out. genuine cr obr base quote (now + ttl) n) \<and> seen = set (map norm_ID out) \<and> distinct (map norm_ID out)"
  have "?ok (fold (union_step cr base quote now ttl) rows st)"
    if "?ok st" "\<forall>(relay, ofr)\<in>set rows. ofr \<in> set (gomap_get [] obr relay)" for rows st
    using that
  proof (induction rows arbitrary: st)
    case (Cons row rows)
    obtain relay ofr seen out where eq: "row = (relay, ofr)" "st = (seen, out)" by fastforce
    obtain seen' out' where step: "union_step cr base quote now ttl (relay, ofr) (seen, out) = (seen', out')" by fastforce
    have "?ok (seen', out')"
      using union_step_genuine [OF _ _ _ _ step, of obr] Cons.prems by (auto simp: eq)
    then show ?case using Cons.IH [of "(seen', out')"] Cons.prems(2) by (simp add: eq step)
  qed simp
  from this [of "({}, [])" "concat (map (\<lambda>relay. map (\<lambda>ofr. (relay, ofr)) (gomap_get [] obr relay)) (sort (map fst obr)))"]
  show ?thesis by (auto simp: BuildUnion_def Let_def split: prod.splits)
qed

section \<open>Discovered markets\<close>

definition asset_key :: "string \<times> string \<Rightarrow> string \<times> string" where
  "asset_key p = (minStr (fst p) (snd p), maxStr (fst p) (snd p))"

definition discovered :: "(string \<times> string, string \<times> string) gomap \<times> (string \<times> string) list \<Rightarrow> bool" where
  "discovered = (\<lambda>(seen, order). distinct order \<and> set order = dom (map_of seen) \<and>
     (\<forall>k p. map_of seen k = Some p \<longrightarrow> asset_key p = k \<and> fst p \<noteq> snd p))"

lemma discover_step_inv:
  assumes "discovered st"
  shows "discovered (discover_step bq st)"
proof -
  obtain b q seen order where eq: "bq = (b, q)" "st = (seen, order)" by fastforce
  show ?thesis
  proof (cases "b = [] \<or> q = [] \<or> b = q")
    case True
    then show ?thesis using assms by (auto simp: eq discover_step_def)
  next
    case False
    then show ?thesis
      using assms by (cases "map_of seen (minStr b q, maxStr b q)")
        (auto simp: eq discover_step_def discovered_def gomap_simps asset_key_def Let_def dom_def simp del: split_paired_All split_paired_Ex)
  qed
qed

lemma DiscoverPairs_distinct:
  "distinct (map asset_key (DiscoverPairs listings)) \<and> (\<forall>p\<in>set (DiscoverPairs listings). fst p \<noteq> snd p)"
proof -
  have "discovered (fold discover_step ms st)" if "discovered st" for ms st
    using that by (induction ms arbitrary: st) (simp_all add: discover_step_inv)
  moreover have "discovered ([], [])" by (simp add: discovered_def)
  ultimately have inv: "discovered (fold discover_step (concat (List.map_filter id listings)) ([], []))" by blast
  obtain seen order where st: "fold discover_step (concat (List.map_filter id listings)) ([], []) = (seen, order)" by fastforce
  let ?get = "gomap_get ([], []) seen"
  have key: "asset_key (?get k) = k \<and> fst (?get k) \<noteq> snd (?get k)" if "k \<in> set order" for k
  proof -
    have "k \<in> dom (map_of seen)" using inv that by (simp add: st discovered_def)
    then obtain p where "map_of seen k = Some p" by (blast dest: domD)
    with inv show ?thesis by (simp add: st discovered_def gomap_get_def del: split_paired_All)
  qed
  then have "map asset_key (map ?get order) = order" by (simp add: map_idI)
  moreover have "distinct order" using inv by (simp add: st discovered_def)
  moreover have "DiscoverPairs listings = map ?get order" by (simp add: DiscoverPairs_def st)
  ultimately show ?thesis using key by simp
qed

section \<open>Priority\<close>

lemma fraction_le:
  fixes n d n' d' :: nat
  assumes "0 < d" "0 < d'"
  shows "(of_nat n / of_nat d :: rat) \<le> of_nat n' / of_nat d' \<longleftrightarrow> n * d' \<le> n' * d"
proof -
  have "(of_nat n / of_nat d :: rat) \<le> of_nat n' / of_nat d' \<longleftrightarrow> (of_nat (n * d') :: rat) \<le> of_nat (n' * d)"
    using assms by (simp add: pos_divide_le_eq pos_le_divide_eq)
  then show ?thesis by (simp only: of_nat_le_iff)
qed

lemma PriceGE_price:
  assumes "no_BaseDen a \<noteq> 0" "no_BaseDen b \<noteq> 0"
  shows "PriceGE a b \<longleftrightarrow> price b \<le> price a"
  unfolding PriceGE_def price_def by (rule fraction_le [symmetric]) (use assms unat_u64_pos in auto)

text \<open>The source's comparison is the order of the ranks.\<close>

lemma book_less_rank:
  assumes "no_BaseDen a \<noteq> 0" "no_BaseDen b \<noteq> 0" "no_Side a = no_Side b"
  shows "book_less a b \<longleftrightarrow> book_rank a < book_rank b"
  using assms by (cases "no_Side b") (auto simp: book_less_def book_rank_def PriceGE_price Let_def less_prod_def)

lemma first_of_SortBook:
  assumes "first_of (SortBook xs) = Some n"
  shows "n \<in> set xs" "m \<in> set xs \<Longrightarrow> book_rank n \<le> book_rank m"
proof -
  obtain ys where ys: "SortBook xs = n # ys" using assms by (auto simp: first_of_def split: list.splits)
  have set: "set xs = set (n # ys)" using ys set_sort [of book_rank xs] by (simp add: SortBook_def)
  then show "n \<in> set xs" by simp
  have "sorted (map book_rank (n # ys))" using sorted_sort_key [of book_rank xs] by (simp only: SortBook_def [symmetric] ys)
  with set show "book_rank n \<le> book_rank m" if "m \<in> set xs" using that by auto
qed

section \<open>Plans\<close>

lemma Profitable_Inr:
  "Profitable p cfg = Inr p' \<longleftrightarrow>
     p' = p\<lparr>cp_Gross := cp_Revenue p - cp_Cost p, cp_EstCost := EstimateCosts (cp_Bid p) (cp_Ask p) cfg, cp_MinBps := gc_MinProfitBps cfg\<rparr> \<and>
     cp_Cost p < cp_Revenue p \<and> EstimateCosts (cp_Bid p) (cp_Ask p) cfg < cp_Revenue p - cp_Cost p \<and>
     ceilMulDiv (cp_Cost p) (gc_MinProfitBps cfg) 1
       \<le> ceilMulDiv (cp_Revenue p - cp_Cost p - EstimateCosts (cp_Bid p) (cp_Ask p) cfg) 10000 1"
  by (auto simp: Profitable_def Let_def not_le not_less)

lemma Detect_Plan:
  assumes "dt_Plan (Detect orders canExec cfg) = Some p"
  shows "first_of (SortBook (filter (\<lambda>n. canExec n \<and> no_Side n = SideBid) orders)) = Some (cp_Bid p)"
    "first_of (SortBook (filter (\<lambda>n. canExec n \<and> no_Side n \<noteq> SideBid) orders)) = Some (cp_Ask p)"
    "PriceGE (cp_Bid p) (cp_Ask p)" "MakerPubkey (no_Offer (cp_Bid p)) \<noteq> MakerPubkey (no_Offer (cp_Ask p))"
    "ClampOverlap (cp_Bid p) (cp_Ask p) = (cp_Take p, None)" "cp_Take p \<noteq> 0"
    "cp_Cost p = CostFor (cp_Ask p) (cp_Take p)" "cp_Revenue p = RevenueFor (cp_Bid p) (cp_Take p)"
    "(cp_First p, cp_Second p) = OrderLegs (cp_Bid p) (cp_Ask p)"
    "cp_EstCost p = EstimateCosts (cp_Bid p) (cp_Ask p) cfg"
    "cp_Cost p < cp_Revenue p" "cp_EstCost p < cp_Revenue p - cp_Cost p"
    "ceilMulDiv (cp_Cost p) (gc_MinProfitBps cfg) 1 \<le> ceilMulDiv (cp_Revenue p - cp_Cost p - cp_EstCost p) 10000 1"
proof -
  have none: "why = None" if "ClampOverlap bid ask = (t, why)" "t \<noteq> 0" for bid ask t why
    using that by (auto simp: ClampOverlap_def Let_def split: sum.splits)
  obtain bid ask t why plan where d: "first_of (SortBook (filter (\<lambda>n. canExec n \<and> no_Side n = SideBid) orders)) = Some bid"
    "first_of (SortBook (filter (\<lambda>n. canExec n \<and> no_Side n \<noteq> SideBid) orders)) = Some ask"
    "PriceGE bid ask" "MakerPubkey (no_Offer bid) \<noteq> MakerPubkey (no_Offer ask)" "ClampOverlap bid ask = (t, why)" "t \<noteq> 0"
    "plan = \<lparr>cp_Bid = bid, cp_Ask = ask, cp_Take = t, cp_Cost = CostFor ask t, cp_Revenue = RevenueFor bid t,
             cp_Gross = 0, cp_EstCost = 0, cp_MinBps = 0, cp_First = fst (OrderLegs bid ask), cp_Second = snd (OrderLegs bid ask)\<rparr>"
    "Profitable plan cfg = Inr p"
    using assms unfolding Detect_def Let_def by (auto split: option.splits if_splits sum.splits prod.splits)
  note facts = d(1-6) none [OF d(5,6)] d(8) [unfolded Profitable_Inr d(7)]
  show "first_of (SortBook (filter (\<lambda>n. canExec n \<and> no_Side n = SideBid) orders)) = Some (cp_Bid p)"
    "first_of (SortBook (filter (\<lambda>n. canExec n \<and> no_Side n \<noteq> SideBid) orders)) = Some (cp_Ask p)"
    "PriceGE (cp_Bid p) (cp_Ask p)" "MakerPubkey (no_Offer (cp_Bid p)) \<noteq> MakerPubkey (no_Offer (cp_Ask p))"
    "ClampOverlap (cp_Bid p) (cp_Ask p) = (cp_Take p, None)" "cp_Take p \<noteq> 0"
    "cp_Cost p = CostFor (cp_Ask p) (cp_Take p)" "cp_Revenue p = RevenueFor (cp_Bid p) (cp_Take p)"
    "(cp_First p, cp_Second p) = OrderLegs (cp_Bid p) (cp_Ask p)"
    "cp_EstCost p = EstimateCosts (cp_Bid p) (cp_Ask p) cfg"
    "cp_Cost p < cp_Revenue p" "cp_EstCost p < cp_Revenue p - cp_Cost p"
    "ceilMulDiv (cp_Cost p) (gc_MinProfitBps cfg) 1 \<le> ceilMulDiv (cp_Revenue p - cp_Cost p - cp_EstCost p) 10000 1"
    using facts by simp_all
qed

lemma OrderLegs_cases:
  "OrderLegs bid ask = (f, s) \<Longrightarrow> famScore (no_Family f) \<le> famScore (no_Family s) \<and> (f = ask \<and> s = bid \<or> f = bid \<and> s = ask \<and> famScore (no_Family bid) < famScore (no_Family ask))"
  by (auto simp: OrderLegs_def Let_def split: if_splits)

lemma plan_in_union:
  assumes "dt_Plan (Detect (BuildUnion cr obr base quote now ttl) canExec cfg) = Some p"
  shows "genuine cr obr base quote (now + ttl) (cp_Bid p)" "genuine cr obr base quote (now + ttl) (cp_Ask p)"
    "no_Side (cp_Bid p) = SideBid" "no_Side (cp_Ask p) = SideAsk" "canExec (cp_Bid p)" "canExec (cp_Ask p)"
  using first_of_SortBook(1) [OF Detect_Plan(1) [OF assms]] first_of_SortBook(1) [OF Detect_Plan(2) [OF assms]]
    BuildUnion_genuine [of cr obr base quote now ttl] side.exhaust [of "no_Side (cp_Ask p)"] by auto

text \<open>The crossing agent trades on genuine offers at the best prices: a plan joins two distinct makers' offers that some relay served,
  each signed by its maker and not expiring within the settlement window, one buying the base and one selling it; no executable
  offer of the union has a better price, or the same price and an earlier date, on either side; the two prices cross; and the slower
  settlement family goes first.\<close>

lemma crosser_plans_best_genuine:
  assumes "book = BuildUnion cr obr base quote now ttl" "dt_Plan (Detect book (Executable caps) cfg) = Some p"
  shows "genuine cr obr base quote (now + ttl) (cp_Bid p) \<and> genuine cr obr base quote (now + ttl) (cp_Ask p) \<and>
    OfferAsset (no_Offer (cp_Ask p)) = base \<and> WantAsset (no_Offer (cp_Ask p)) = quote \<and>
    OfferAsset (no_Offer (cp_Bid p)) = quote \<and> WantAsset (no_Offer (cp_Bid p)) = base \<and>
    MakerPubkey (no_Offer (cp_Bid p)) \<noteq> MakerPubkey (no_Offer (cp_Ask p)) \<and>
    (\<forall>n\<in>set book. Executable caps n \<and> no_Side n = SideBid \<longrightarrow> \<not> book_less n (cp_Bid p)) \<and>
    (\<forall>n\<in>set book. Executable caps n \<and> no_Side n = SideAsk \<longrightarrow> \<not> book_less n (cp_Ask p)) \<and>
    price (cp_Ask p) \<le> price (cp_Bid p) \<and> famScore (no_Family (cp_First p)) \<le> famScore (no_Family (cp_Second p)) \<and>
    {cp_First p, cp_Second p} = {cp_Bid p, cp_Ask p}"
proof -
  note plan = assms(2) [unfolded assms(1)]
  note d = Detect_Plan [OF plan] and g = plan_in_union [OF plan]
  have den: "no_BaseDen n \<noteq> 0" if "n \<in> set book" for n
    using that BuildUnion_genuine [of cr obr base quote now ttl] Normalize_Inr(3,4) by (force simp: assms(1) genuine_def)
  have mem: "cp_Bid p \<in> set book" "cp_Ask p \<in> set book"
    using first_of_SortBook(1) [OF d(1)] first_of_SortBook(1) [OF d(2)] by (auto simp: assms(1))
  have "\<not> book_less n (cp_Bid p)" if "n \<in> set book" "Executable caps n" "no_Side n = SideBid" for n
    using first_of_SortBook(2) [OF d(1), of n] that book_less_rank [OF den [OF that(1)] den [OF mem(1)]] g(3)
    by (auto simp: assms(1) not_less)
  moreover have "\<not> book_less n (cp_Ask p)" if "n \<in> set book" "Executable caps n" "no_Side n = SideAsk" for n
    using first_of_SortBook(2) [OF d(2), of n] that book_less_rank [OF den [OF that(1)] den [OF mem(2)]] g(4)
    by (auto simp: assms(1) not_less)
  moreover have "price (cp_Ask p) \<le> price (cp_Bid p)" using d(3) PriceGE_price den mem by auto
  moreover have "{cp_First p, cp_Second p} = {cp_Bid p, cp_Ask p}" "famScore (no_Family (cp_First p)) \<le> famScore (no_Family (cp_Second p))"
    using OrderLegs_cases [OF d(9) [symmetric]] by auto
  ultimately show ?thesis
    using g d(4) Normalize_Inr(8) [OF _ g(4)] Normalize_Inr(9) [OF _ g(3)] by (auto simp: genuine_def)
qed

text \<open>C19: the crossing agent never plans a loss, as long as the configured fee of a spend is below two to the 62 atoms (the cost
  estimate wraps from there on) and the capital times the floor in basis points is below two to the 64 (from there on the product
  saturates and the floor is not enforced): for every plan, what the ask's maker is owed for the planned size, rounded up,
  plus the estimated costs is strictly below what the bid's maker pays for it, rounded down, and the net clears the configured floor in
  basis points on the capital deployed; and the ask can settle the planned size, and so can the bid unless it is a covenant, which the
  validator refuses on that side.\<close>

theorem crosser_never_plans_a_loss:
  assumes "dt_Plan (Detect (BuildUnion cr obr base quote now ttl) (Executable caps) cfg) = Some p"
    "unat (gc_SpendFeeAtoms cfg) < 2 ^ 62" "unat (cp_Cost p) * unat (gc_MinProfitBps cfg) < 2 ^ 64"
    "ask = no_Offer (cp_Ask p)" "bid = no_Offer (cp_Bid p)" "t = unat (cp_Take p)"
    "owed = ceil_div (t * unat (WantAmount ask)) (unat (OfferAmount ask))" "paid = t * unat (OfferAmount bid) div unat (WantAmount bid)"
    "costs = (unat (onchainSpends (no_Family (cp_Bid p))) + unat (onchainSpends (no_Family (cp_Ask p)))) * unat (gc_SpendFeeAtoms cfg)"
  shows "(no_Family (cp_Bid p) \<noteq> FamCovenant \<longrightarrow> leg_legal (cp_Bid p) (cp_Take p)) \<and> leg_legal (cp_Ask p) (cp_Take p) \<and> 0 < t \<and>
    unat (cp_Cost p) = owed \<and> unat (cp_Revenue p) \<le> paid \<and> owed + costs < paid \<and>
    owed * unat (gc_MinProfitBps cfg) \<le> (paid - owed - costs) * 10000"
proof -
  note d = Detect_Plan [OF assms(1)] and g = plan_in_union [OF assms(1)]
  have na: "Normalize ask (no_Relay (cp_Ask p)) base quote = Inr (cp_Ask p)" and nb: "Normalize bid (no_Relay (cp_Bid p)) base quote = Inr (cp_Bid p)"
    using g(1,2) by (auto simp: genuine_def assms(4,5))
  note a = Normalize_Inr(3,4,5) [OF na] Normalize_Inr(8) [OF na g(4)] and b = Normalize_Inr(3,4,5) [OF nb] Normalize_Inr(9) [OF nb g(3)]
  have legal: "leg_legal (cp_Bid p) (cp_Take p) \<and> leg_legal (cp_Ask p) (cp_Take p)"
    using ClampOverlap_spec [of "cp_Bid p" "cp_Ask p"] d(5,6) by simp
  have cost: "unat (cp_Cost p) = min owed 18446744073709551615"
    using a by (simp add: d(7) CostFor_def ceilMulDiv_saturates unat_saturate assms(6,7))
  have rev: "unat (cp_Revenue p) = min paid 18446744073709551615"
    using b by (simp add: d(8) RevenueFor_def floorMulDiv_def unat_saturate assms(6,8))
  have less: "unat (cp_Cost p) < unat (cp_Revenue p)" using d(11) by (simp add: u64_simps)
  then have exact: "unat (cp_Cost p) = owed" using cost rev by linarith
  have diff: "unat (cp_Revenue p - cp_Cost p) = unat (cp_Revenue p) - owed" using d(11) exact by (simp add: u64_unat_diff)
  have est: "unat (cp_EstCost p) = costs" using EstimateCosts_exact [OF assms(2)] by (simp add: d(10) assms(9))
  have gap: "costs < unat (cp_Revenue p) - owed" using d(12) est diff by (simp add: u64_simps)
  have net: "unat (cp_Revenue p - cp_Cost p - cp_EstCost p) = unat (cp_Revenue p) - owed - costs"
    using d(12) est diff by (simp add: u64_unat_diff)
  have "min (owed * unat (gc_MinProfitBps cfg)) 18446744073709551615 \<le> (unat (cp_Revenue p) - owed - costs) * 10000"
    using d(13) exact net by (simp add: u64_simps ceilMulDiv_1)
  then have bps: "owed * unat (gc_MinProfitBps cfg) \<le> (unat (cp_Revenue p) - owed - costs) * 10000"
    using assms(3) exact by simp
  have le: "unat (cp_Revenue p) \<le> paid" using rev by simp
  then have "(unat (cp_Revenue p) - owed - costs) * 10000 \<le> (paid - owed - costs) * 10000" by simp
  with bps have "owed * unat (gc_MinProfitBps cfg) \<le> (paid - owed - costs) * 10000" by (rule order_trans)
  moreover have "0 < t" using d(6) by (simp add: assms(6) unat_u64_pos)
  ultimately show ?thesis using legal exact le gap by simp
qed


section \<open>The legs of a plan\<close>

text \<open>The value of a flag of a command line, read in pairs after the command's name, and the size a driver takes: no amount or zero
  is the whole offer.\<close>

fun flag_value :: "string \<Rightarrow> arg list \<Rightarrow> arg option" where
  "flag_value f (k # v # rest) = (if k = Str f then Some v else flag_value f rest)"
| "flag_value f _ = None"

definition driver_size :: "norm_order \<Rightarrow> leg_command \<Rightarrow> u64" where
  "driver_size n cmd =
     (case flag_value ''-amount'' (tl (lc_args cmd)) of Some (Num a) \<Rightarrow> if a = 0 then no_BaseSize n else a | _ \<Rightarrow> no_BaseSize n)"

lemma leg_command_size:
  assumes "leg_legal n t" "t \<noteq> 0" "no_Family n \<notin> {FamUnknown, FamPureLN}" "no_Sliceable n \<longrightarrow> no_Family n \<noteq> FamSubmarine"
  obtains cmd where "legCommand c mint n t = Some cmd"
    "\<not> (no_Family n = FamCovenant \<and> no_Side n = SideBid) \<Longrightarrow> driver_size n cmd = t"
    "no_Family n = FamCovenant \<Longrightarrow> flag_value ''-max-pay'' (tl (lc_args cmd)) = Some (Num (if no_Side n = SideBid then t else CostFor n t))"
proof -
  have whole: "t = no_BaseSize n" if "no_Family n = FamSubmarine" using assms(1,4) that by (auto simp: leg_legal_def)
  show thesis
    by (cases "no_Family n"; cases "no_Side n")
      (use assms(2,3) whole in \<open>auto intro!: that simp: legCommand_def driver_size_def takeArg_def cross_args_def submarine_args_def
        subasset_args_def appendSubAssetChain_def Let_def split: if_splits\<close>)
qed

text \<open>The legs a plan runs do what it priced: each leg that is not pure Lightning has a driver command; the driver takes exactly the
  planned size, in full where it has no partial take, and a covenant fill may pay at most the planned cost, or the planned base on a
  bid.\<close>

lemma drivers_follow_plan:
  assumes "dt_Plan (Detect (BuildUnion cr obr base quote now ttl) (Executable caps) cfg) = Some p"
    "n \<in> {cp_First p, cp_Second p}" "no_Family n \<noteq> FamPureLN"
  shows "\<exists>cmd. legCommand caps mint n (cp_Take p) = Some cmd \<and>
    (\<not> (no_Family n = FamCovenant \<and> no_Side n = SideBid) \<longrightarrow> driver_size n cmd = cp_Take p) \<and>
    (no_Family n = FamCovenant \<longrightarrow> flag_value ''-max-pay'' (tl (lc_args cmd)) = Some (Num (if no_Side n = SideBid then cp_Take p else cp_Cost p)))"
proof -
  note d = Detect_Plan [OF assms(1)] and g = plan_in_union [OF assms(1)]
  have n: "n = cp_Bid p \<or> n = cp_Ask p" using assms(2) OrderLegs_cases [OF d(9) [symmetric]] by auto
  have legal: "leg_legal n (cp_Take p)" using n ClampOverlap_spec [of "cp_Bid p" "cp_Ask p"] d(5,6) by auto
  have gen: "genuine cr obr base quote (now + ttl) n" using n g(1,2) by auto
  have fam: "no_Family n \<noteq> FamUnknown" "no_Sliceable n \<longrightarrow> no_Family n \<noteq> FamSubmarine"
    using Normalize_family gen by (auto simp: genuine_def)
  have cost: "no_Side n \<noteq> SideBid \<longrightarrow> CostFor n (cp_Take p) = cp_Cost p" using n g(3) d(7) by auto
  from fam assms(3) have "no_Family n \<notin> {FamUnknown, FamPureLN}" by simp
  then show ?thesis
    by (rule leg_command_size [OF legal d(6) _ fam(2), where c = caps and mint = mint]) (use cost in auto)
qed

section \<open>A sample plan\<close>

text \<open>One relay serves the covenant ask of 100 at 2 and the same-chain bid of 60 at 2.5.\<close>

definition sample_relays :: "(string, offer list) gomap" where
  "sample_relays = [(''r'', [ask_offer, bid_offer])]"

definition sample_caps :: caps where
  "sample_caps = \<lparr>cap_SeqRPC = ''u'', cap_SeqWallet = ''w'', cap_BtcRPC = '''', cap_BtcWallet = '''', cap_BtcChain = ''regtest'', cap_AssetLNSocket = '''',
     cap_BtcLNSocket = '''', cap_Esplora = ''e'', cap_TakerPriv = ''k'', cap_TakerBlinding = ''b'',
     cap_SeqobCli = ''cli'', cap_StateDir = ''d'', cap_SpendFee = 1000, cap_BtcFeeRate = 2, cap_MinBTCConf = 1, cap_LegTimeout = 2 * Hour\<rparr>"

definition sample_gate :: gate_config where
  "sample_gate = \<lparr>gc_MinProfitBps = 10, gc_SpendFeeAtoms = 5\<rparr>"

definition norm_ask :: norm_order where
  "norm_ask = norm_of ask_offer ''r'' ''gold'' ''usdx'' True False 100 200"

definition norm_bid :: norm_order where
  "norm_bid = norm_of bid_offer ''r'' ''gold'' ''usdx'' False False 60 150"

definition sample_plan :: cross_plan where
  "sample_plan = \<lparr>cp_Bid = norm_bid, cp_Ask = norm_ask, cp_Take = 60, cp_Cost = 120, cp_Revenue = 150, cp_Gross = 30, cp_EstCost = 10,
     cp_MinBps = 10, cp_First = norm_bid, cp_Second = norm_ask\<rparr>"

lemma norm_sample_fields:
  "no_Side norm_ask = SideAsk" "no_Side norm_bid = SideBid" "no_Family norm_ask = FamCovenant" "no_Family norm_bid = FamSameChain"
  "no_Flipped norm_ask = False" "no_Flipped norm_bid = False" "no_Offer norm_ask = ask_offer" "no_Offer norm_bid = bid_offer"
  "no_BaseSize norm_ask = 100" "no_BaseSize norm_bid = 60" "no_QuoteNum norm_ask = 200" "no_QuoteNum norm_bid = 150"
  "no_BaseDen norm_ask = 100" "no_BaseDen norm_bid = 60" "no_AllowPartial norm_ask" "no_Sliceable norm_ask" "no_MinFill norm_ask = 0"
  "no_MinLot norm_ask = 10" "no_Base norm_bid = ''gold''" "no_Quote norm_bid = ''usdx''"
  by (simp_all add: norm_ask_def norm_bid_def norm_of_def Let_def classifyFamily_def)
    (simp_all add: ask_offer_def bid_offer_def GetSameChain_def GetCovenant_def ask_terms_def)

lemma sample_Normalize:
  "Normalize ask_offer ''r'' ''gold'' ''usdx'' = Inr norm_ask" "Normalize bid_offer ''r'' ''gold'' ''usdx'' = Inr norm_bid"
  using norm_sample_fields(3,4)
  by (simp_all add: Normalize_def makerSells_def Let_def norm_ask_def norm_bid_def norm_of_def)
    (simp_all add: ask_offer_def bid_offer_def gold_usdx_def GetBaseAsset_def)

lemma sample_union: "BuildUnion demo_crypto sample_relays ''gold'' ''usdx'' (2 * Second) Minute = [norm_ask, norm_bid]"
proof -
  have live: "\<not> time_Unix 5000 < 2 * Second + Minute" by (simp add: time_Unix_def Minute_def Second_def)
  have fields: "ExpiresAtUnix ask_offer = 5000" "ExpiresAtUnix bid_offer = 5000" "MakerPubkey ask_offer = ''020100''"
    "MakerPubkey bid_offer = ''02010100''" by (simp_all add: ask_offer_def bid_offer_def)
  show ?thesis
    by (simp add: BuildUnion_def sample_relays_def gomap_get_def union_step_def Let_def sample_verified sample_Normalize live fields)
qed

lemma sample_clamp: "ClampOverlap norm_bid norm_ask = (60, None)"
proof -
  have "clamp_pass norm_bid norm_ask 60 = Inr (60, False)"
    by (simp add: clamp_pass_def clamp_leg_def norm_sample_fields Let_def)
  then have "clamp_passes (Suc 3) norm_bid norm_ask 60 = Inr 60"
    unfolding clamp_passes.simps(2) by simp
  then show ?thesis by (simp add: ClampOverlap_def norm_sample_fields)
qed

lemma sample_Detect: "dt_Plan (Detect [norm_ask, norm_bid] (Executable sample_caps) sample_gate) = Some sample_plan"
proof -
  have exec: "Executable sample_caps norm_ask" "Executable sample_caps norm_bid"
    by (simp_all add: Executable_def norm_sample_fields sample_caps_def)
  have ge: "PriceGE norm_bid norm_ask" by (simp add: PriceGE_def norm_sample_fields)
  have makers: "MakerPubkey ask_offer \<noteq> MakerPubkey bid_offer" by (simp add: ask_offer_def bid_offer_def)
  have amounts: "CostFor norm_ask 60 = 120" "RevenueFor norm_bid 60 = 150" "OrderLegs norm_bid norm_ask = (norm_bid, norm_ask)"
    "EstimateCosts norm_bid norm_ask sample_gate = 10"
    by (simp_all add: CostFor_def RevenueFor_def ceilMulDiv_def floorMulDiv_def saturate_def norm_sample_fields OrderLegs_def
        famScore_def EstimateCosts_def onchainSpends_def sample_gate_def)
  show ?thesis
    by (simp add: Detect_def Let_def exec norm_sample_fields SortBook_def first_of_def ge sample_clamp amounts Profitable_def
        makers [symmetric] ceilMulDiv_def saturate_def sample_plan_def) (simp add: sample_gate_def)
qed

theorem clamp_overlap_largest_witness: "leg_legal norm_bid 60 \<and> leg_legal norm_ask 60"
  using clamp_overlap_largest [of norm_bid norm_ask] by (simp add: sample_clamp norm_sample_fields)

theorem clamp_overlap_terminates_witness:
  "clamp_passes 7 norm_bid norm_ask 60 = clamp_passes 3 norm_bid norm_ask 60 \<and> clamp_passes 7 norm_bid norm_ask 60 \<noteq> Inl NotConverged"
proof -
  have "60 \<le> no_BaseSize norm_bid" "60 \<le> no_BaseSize norm_ask" "3 \<le> (7 :: nat)" by (simp_all add: norm_sample_fields)
  from clamp_overlap_terminates [OF this] show ?thesis by blast
qed

theorem crosser_never_plans_a_loss_witness:
  "ceil_div (60 * 200) 100 + 10 < 60 * 150 div (60 :: nat)"
proof -
  note fields = sample_plan_def norm_sample_fields sample_gate_def onchainSpends_def
  have fee: "unat (gc_SpendFeeAtoms sample_gate) < 2 ^ 62" "unat (cp_Cost sample_plan) * unat (gc_MinProfitBps sample_gate) < 2 ^ 64"
    by (simp_all add: fields)
  have "WantAmount ask_offer = 200" "OfferAmount ask_offer = 100" "WantAmount bid_offer = 60" "OfferAmount bid_offer = 150"
    by (simp_all add: ask_offer_def bid_offer_def)
  with crosser_never_plans_a_loss [OF sample_Detect [folded sample_union] fee refl refl refl refl refl refl]
  show ?thesis by (simp add: fields)
qed

end
