(* ===== verification/Crosser_Ledger.thy ===== *)
theory Crosser_Ledger
  imports Crosser
begin

text \<open>
  The crossing agent's accounts and its loop (\<open>cmd/seqob-crosser\<close>: \<open>exposure.go\<close>, \<open>journal.go\<close> and the
  polling loop and \<open>executeCrossing\<close> of \<open>main.go\<close>). A signed 64-bit amount is a 64-bit word read with \<open>sint\<close>.
  A goroutine that executes a crossing is the list of the operations it still has to do, so that crossings of
  several pairs interleave and the process may die between any two operations. Whether a journal write
  succeeds and what a leg's driver reports are inputs of a step.
\<close>

section \<open>The drift ledger\<close>

record ledger =
  lg_drift :: "(string, u64) gomap"
  lg_reserved :: "(string, u64) gomap"
  lg_maxAbs :: u64

definition gomap_add :: "string \<Rightarrow> u64 \<Rightarrow> (string, u64) gomap \<Rightarrow> (string, u64) gomap" where
  "gomap_add k v m = AList.update k (gomap_get 0 m k + v) m"

definition NewLedger :: "u64 \<Rightarrow> (string, u64) gomap \<Rightarrow> ledger" where
  "NewLedger maxAbs seed = \<lparr>lg_drift = seed, lg_reserved = [], lg_maxAbs = maxAbs\<rparr>"

definition worstCase :: "cross_plan \<Rightarrow> u64 \<times> u64" where
  "worstCase p =
     (if cp_First p = cp_Ask p then (cp_Take p, - cp_Cost p) else (- cp_Take p, cp_Revenue p))"

definition abs64 :: "u64 \<Rightarrow> u64" where
  "abs64 v = (if v <s 0 then - v else v)"

datatype exposure_error = ExposureCap string

definition over_cap :: "ledger \<Rightarrow> string \<Rightarrow> u64 \<Rightarrow> bool" where
  "over_cap l asset d \<longleftrightarrow>
     0 <s lg_maxAbs l \<and> lg_maxAbs l <s abs64 (gomap_get 0 (lg_drift l) asset + gomap_get 0 (lg_reserved l) asset + d)"

definition plan_base :: "cross_plan \<Rightarrow> string" where
  "plan_base p = no_Base (cp_Bid p)"

definition plan_quote :: "cross_plan \<Rightarrow> string" where
  "plan_quote p = no_Quote (cp_Bid p)"

definition Reserve :: "cross_plan \<Rightarrow> ledger \<Rightarrow> (exposure_error, ledger) result" where
  "Reserve p l =
     (let (bd, qd) = worstCase p in
      if over_cap l (plan_base p) bd then Inl (ExposureCap (plan_base p))
      else if over_cap l (plan_quote p) qd then Inl (ExposureCap (plan_quote p))
      else Inr (l\<lparr>lg_reserved := gomap_add (plan_quote p) qd (gomap_add (plan_base p) bd (lg_reserved l))\<rparr>))"

definition Release :: "cross_plan \<Rightarrow> ledger \<Rightarrow> ledger" where
  "Release p l =
     (let (bd, qd) = worstCase p in
      l\<lparr>lg_reserved := gomap_add (plan_quote p) (- qd) (gomap_add (plan_base p) (- bd) (lg_reserved l))\<rparr>)"

definition RecordResidue :: "cross_plan \<Rightarrow> ledger \<Rightarrow> ledger" where
  "RecordResidue p l =
     (let (bd, qd) = worstCase p in
      l\<lparr>lg_drift := gomap_add (plan_quote p) qd (gomap_add (plan_base p) bd (lg_drift l))\<rparr>)"

section \<open>The crash journal\<close>

definition family_String :: "family \<Rightarrow> string" where
  "family_String f =
     (case f of FamSameChain \<Rightarrow> ''samechain'' | FamCovenant \<Rightarrow> ''covenant'' | FamCross \<Rightarrow> ''cross'' | FamSubmarine \<Rightarrow> ''submarine''
      | FamPureLN \<Rightarrow> ''pureln'' | FamSubAsset \<Rightarrow> ''subasset'' | FamUnknown \<Rightarrow> ''unknown'')"

definition side_String :: "side \<Rightarrow> string" where
  "side_String s = (if s = SideAsk then ''ask'' else ''bid'')"

record leg_record =
  lr_Family :: string
  lr_Side :: string
  lr_OfferID :: string
  lr_Maker :: string
  lr_Relay :: string
  lr_StateFile :: string
  lr_Resume :: string
  lr_Status :: string

record exec_record =
  er_Pair :: string
  er_StartedAt :: time
  er_Take :: u64
  er_Cost :: u64
  er_Revenue :: u64
  er_First :: leg_record
  er_Second :: leg_record

record journal_state =
  js_Drift :: "(string, u64) gomap"
  js_InFlight :: "(string, exec_record) gomap"
  js_Stranded :: "exec_record list"

text \<open>The journal in memory and what the file at its path holds; the rename makes a write all or nothing.\<close>

datatype journal_file = NoFile | CorruptFile | JournalFile journal_state

record journal =
  jn_st :: journal_state
  jn_disk :: journal_file

definition flushLocked :: "bool \<Rightarrow> journal \<Rightarrow> journal" where
  "flushLocked ok j = (if ok then j\<lparr>jn_disk := JournalFile (jn_st j)\<rparr> else j)"

datatype journal_error = JournalCorrupt | JournalUnwritable

definition OpenJournal :: "bool \<Rightarrow> journal_file \<Rightarrow> (journal_error, journal) result" where
  "OpenJournal ok disk =
     (case disk of
        CorruptFile \<Rightarrow> Inl JournalCorrupt
      | _ \<Rightarrow>
          (let st = (case disk of JournalFile st \<Rightarrow> st | _ \<Rightarrow> \<lparr>js_Drift = [], js_InFlight = [], js_Stranded = []\<rparr>);
               st' = st\<lparr>js_Stranded := js_Stranded st @ map snd (js_InFlight st), js_InFlight := []\<rparr> in
           if ok then Inr (flushLocked True \<lparr>jn_st = st', jn_disk = disk\<rparr>) else Inl JournalUnwritable))"

definition SeedDrift :: "journal \<Rightarrow> (string, u64) gomap" where
  "SeedDrift j = js_Drift (jn_st j)"

definition StrandedFor :: "string \<Rightarrow> journal \<Rightarrow> bool" where
  "StrandedFor pair j \<longleftrightarrow> list_ex (\<lambda>r. er_Pair r = pair) (js_Stranded (jn_st j))"

definition ClearStranded :: "bool \<Rightarrow> journal \<Rightarrow> nat \<times> journal" where
  "ClearStranded ok j =
     (length (js_Stranded (jn_st j)), flushLocked ok (j\<lparr>jn_st := (jn_st j)\<lparr>js_Stranded := []\<rparr>\<rparr>))"

definition journal_Begin :: "bool \<Rightarrow> string \<Rightarrow> exec_record \<Rightarrow> journal \<Rightarrow> journal" where
  "journal_Begin ok pair rec j =
     flushLocked ok (j\<lparr>jn_st := (jn_st j)\<lparr>js_InFlight := AList.update pair rec (js_InFlight (jn_st j))\<rparr>\<rparr>)"

definition set_status :: "string \<Rightarrow> string \<Rightarrow> string \<Rightarrow> leg_record \<Rightarrow> leg_record" where
  "set_status status stateFile resume leg =
     leg\<lparr>lr_Status := status, lr_StateFile := (if stateFile \<noteq> '''' then stateFile else lr_StateFile leg),
         lr_Resume := (if resume \<noteq> '''' then resume else lr_Resume leg)\<rparr>"

definition SetLeg :: "bool \<Rightarrow> string \<Rightarrow> bool \<Rightarrow> string \<Rightarrow> string \<Rightarrow> string \<Rightarrow> journal \<Rightarrow> journal" where
  "SetLeg ok pair second status stateFile resume j =
     (case map_of (js_InFlight (jn_st j)) pair of
        None \<Rightarrow> j
      | Some rec \<Rightarrow>
          (let rec' = (if second then rec\<lparr>er_Second := set_status status stateFile resume (er_Second rec)\<rparr>
                       else rec\<lparr>er_First := set_status status stateFile resume (er_First rec)\<rparr>) in
           flushLocked ok (j\<lparr>jn_st := (jn_st j)\<lparr>js_InFlight := AList.update pair rec' (js_InFlight (jn_st j))\<rparr>\<rparr>)))"

definition journal_End :: "bool \<Rightarrow> string \<Rightarrow> (string, u64) gomap \<Rightarrow> journal \<Rightarrow> journal" where
  "journal_End ok pair drift j =
     flushLocked ok (j\<lparr>jn_st := (jn_st j)
       \<lparr>js_InFlight := AList.delete pair (js_InFlight (jn_st j)),
        js_Drift := fold (\<lambda>(k, v). gomap_add k v) drift (js_Drift (jn_st j))\<rparr>\<rparr>)"

section \<open>Executing a crossing\<close>

record leg_result =
  res_Settled :: bool
  res_StateFile :: string
  res_Resume :: string

definition mk_legRecord :: "norm_order \<Rightarrow> string \<Rightarrow> leg_record" where
  "mk_legRecord n status =
     \<lparr>lr_Family = family_String (no_Family n), lr_Side = side_String (no_Side n), lr_OfferID = OfferId (no_Offer n),
      lr_Maker = MakerPubkey (no_Offer n), lr_Relay = no_Relay n, lr_StateFile = '''', lr_Resume = '''', lr_Status = status\<rparr>"

definition mk_execRecord :: "string \<Rightarrow> time \<Rightarrow> cross_plan \<Rightarrow> exec_record" where
  "mk_execRecord pair now p =
     \<lparr>er_Pair = pair, er_StartedAt = now, er_Take = cp_Take p, er_Cost = cp_Cost p, er_Revenue = cp_Revenue p,
      er_First = mk_legRecord (cp_First p) ''pending'', er_Second = mk_legRecord (cp_Second p) ''pending''\<rparr>"

text \<open>The operations of \<open>executeCrossing\<close> in order; the deferred \<open>Release\<close> and the goroutine's bookkeeping end every run.\<close>

datatype xop =
    XBegin exec_record | XSetLeg bool string string string | XRunFirst | XRunSecond | XRecordResidue
  | XEnd "(string, u64) gomap" | XRelease | XFinish bool

definition crossing_start :: "exec_record \<Rightarrow> xop list" where
  "crossing_start rec = [XBegin rec, XSetLeg False ''running'' '''' '''', XRunFirst]"

definition crossing_abort :: "xop list" where
  "crossing_abort = [XRelease, XFinish False]"

definition after_first :: "leg_result \<Rightarrow> xop list" where
  "after_first r1 =
     (if \<not> res_Settled r1 then
        [XSetLeg False ''failed'' (res_StateFile r1) (res_Resume r1), XEnd [], XRelease, XFinish False]
      else
        [XSetLeg False ''settled'' (res_StateFile r1) (res_Resume r1), XSetLeg True ''running'' '''' '''', XRunSecond])"

definition after_second :: "cross_plan \<Rightarrow> leg_result \<Rightarrow> xop list" where
  "after_second p r2 =
     (if \<not> res_Settled r2 then
        (let (bd, qd) = worstCase p in
         [XSetLeg True ''failed'' (res_StateFile r2) (res_Resume r2), XRecordResidue,
          XEnd (AList.update (plan_quote p) qd [(plan_base p, bd)]), XRelease, XFinish False])
      else
        [XSetLeg True ''settled'' (res_StateFile r2) (res_Resume r2), XEnd [], XRelease, XFinish True])"

section \<open>The loop\<close>

record pair_state =
  ps_inFlight :: bool
  ps_failStreak :: nat
  ps_backoffUntil :: time

definition new_pair_state :: pair_state where
  "new_pair_state = \<lparr>ps_inFlight = False, ps_failStreak = 0, ps_backoffUntil = - 62135596800 * Second\<rparr>"

definition backoff :: "duration \<Rightarrow> nat \<Rightarrow> duration" where
  "backoff maxBackoff failStreak =
     (let back = 2 ^ min failStreak 10 * 30 * Second in if maxBackoff < back then maxBackoff else back)"

definition finish_pair :: "duration \<Rightarrow> time \<Rightarrow> bool \<Rightarrow> pair_state \<Rightarrow> pair_state" where
  "finish_pair maxBackoff now ok st =
     (if ok then st\<lparr>ps_inFlight := False, ps_failStreak := 0\<rparr>
      else st\<lparr>ps_inFlight := False, ps_failStreak := ps_failStreak st + 1,
              ps_backoffUntil := now + backoff maxBackoff (ps_failStreak st + 1)\<rparr>)"

record crosser =
  cx_ledger :: ledger
  cx_journal :: journal
  cx_states :: "(string, pair_state) gomap"
  cx_runs :: "(string, cross_plan \<times> xop list) gomap"

definition pair_key :: "string \<Rightarrow> string \<Rightarrow> string" where
  "pair_key base quote = base @ ''/'' @ quote"

definition busy :: "time \<Rightarrow> string \<Rightarrow> crosser \<Rightarrow> bool" where
  "busy now pair c \<longleftrightarrow>
     (let st = gomap_get new_pair_state (cx_states c) pair in
      ps_inFlight st \<or> now < ps_backoffUntil st \<or> StrandedFor pair (cx_journal c))"

text \<open>One pair of one poll: detect on the fetched offers, reserve, start the goroutine.\<close>

definition poll_pair ::
  "crypto \<Rightarrow> caps \<Rightarrow> gate_config \<Rightarrow> duration \<Rightarrow> time \<Rightarrow> string \<Rightarrow> string \<Rightarrow> (string, offer list) gomap \<Rightarrow> crosser \<Rightarrow> crosser" where
  "poll_pair cr caps cfg minTTL now base quote raw c =
     (let pair = pair_key base quote in
      if busy now pair c then c
      else (let union = BuildUnion cr raw base quote now minTTL in
        if union = [] then c
        else case dt_Plan (Detect union (Executable caps) cfg) of
            None \<Rightarrow> c
          | Some plan \<Rightarrow>
              (case Reserve plan (cx_ledger c) of
                 Inl _ \<Rightarrow> c
               | Inr l \<Rightarrow>
                   c\<lparr>cx_ledger := l,
                     cx_states := AList.update pair ((gomap_get new_pair_state (cx_states c) pair)\<lparr>ps_inFlight := True\<rparr>) (cx_states c),
                     cx_runs := AList.update pair (plan, crossing_start (mk_execRecord pair now plan)) (cx_runs c)\<rparr>)))"

text \<open>One operation of a goroutine.\<close>

definition run_op :: "duration \<Rightarrow> time \<Rightarrow> bool \<Rightarrow> leg_result \<Rightarrow> string \<Rightarrow> cross_plan \<Rightarrow> xop \<Rightarrow> xop list \<Rightarrow> crosser \<Rightarrow> crosser" where
  "run_op maxBackoff now ok res pair plan op rest c =
     (let continue = (\<lambda>todo. c\<lparr>cx_runs := AList.update pair (plan, todo) (cx_runs c)\<rparr>) in
      case op of
        XBegin rec \<Rightarrow>
          (continue (if ok then rest else crossing_abort))\<lparr>cx_journal := journal_Begin ok pair rec (cx_journal c)\<rparr>
      | XSetLeg second status stateFile resume \<Rightarrow>
          (continue rest)\<lparr>cx_journal := SetLeg ok pair second status stateFile resume (cx_journal c)\<rparr>
      | XRunFirst \<Rightarrow> continue (after_first res)
      | XRunSecond \<Rightarrow> continue (after_second plan res)
      | XRecordResidue \<Rightarrow> (continue rest)\<lparr>cx_ledger := RecordResidue plan (cx_ledger c)\<rparr>
      | XEnd drift \<Rightarrow> (continue rest)\<lparr>cx_journal := journal_End ok pair drift (cx_journal c)\<rparr>
      | XRelease \<Rightarrow> (continue rest)\<lparr>cx_ledger := Release plan (cx_ledger c)\<rparr>
      | XFinish good \<Rightarrow>
          c\<lparr>cx_states := AList.update pair (finish_pair maxBackoff now good (gomap_get new_pair_state (cx_states c) pair)) (cx_states c),
            cx_runs := AList.delete pair (cx_runs c)\<rparr>)"

definition run_step :: "duration \<Rightarrow> time \<Rightarrow> bool \<Rightarrow> leg_result \<Rightarrow> string \<Rightarrow> crosser \<Rightarrow> crosser" where
  "run_step maxBackoff now ok res pair c =
     (case map_of (cx_runs c) pair of
        Some (plan, op # rest) \<Rightarrow> run_op maxBackoff now ok res pair plan op rest c
      | _ \<Rightarrow> c)"

text \<open>A new process over the journal file of the last one, whose own first write of the journal succeeded: when \<open>OpenJournal\<close> cannot write, \<open>main\<close> exits and
  no process runs. \<open>-clear-stranded\<close> opens the journal, drops the stranded records and exits.\<close>

definition boot :: "u64 \<Rightarrow> journal_file \<Rightarrow> (journal_error, crosser) result" where
  "boot maxAbs disk =
     rbind (OpenJournal True disk) (\<lambda>j. Inr \<lparr>cx_ledger = NewLedger maxAbs (SeedDrift j), cx_journal = j, cx_states = [], cx_runs = []\<rparr>)"

definition boot_clear :: "u64 \<Rightarrow> journal_file \<Rightarrow> (journal_error, crosser) result" where
  "boot_clear maxAbs disk = rbind (OpenJournal True disk) (\<lambda>j. boot maxAbs (jn_disk (snd (ClearStranded True j))))"

record crosser_config =
  xc_crypto :: crypto
  xc_caps :: caps
  xc_gate :: gate_config
  xc_minTTL :: duration
  xc_maxBackoff :: duration
  xc_maxAbs :: u64
  xc_pairs :: "(string \<times> string) list"

text \<open>
  What the agent does by itself: polls of its pairs, operations of its goroutines, and restarts after a crash at
  any point. The operator may clear the stranded records in between.
\<close>

inductive crosser_step :: "crosser_config \<Rightarrow> crosser \<Rightarrow> crosser \<Rightarrow> bool" for x where
  poll: "(base, quote) \<in> set (xc_pairs x) \<Longrightarrow>
    crosser_step x c (poll_pair (xc_crypto x) (xc_caps x) (xc_gate x) (xc_minTTL x) now base quote raw c)"
| run: "crosser_step x c (run_step (xc_maxBackoff x) now ok res pair c)"
| crash: "boot (xc_maxAbs x) (jn_disk (cx_journal c)) = Inr c' \<Longrightarrow> crosser_step x c c'"

inductive crosser_reach :: "crosser_config \<Rightarrow> crosser \<Rightarrow> bool" for x where
  fresh: "boot (xc_maxAbs x) NoFile = Inr c \<Longrightarrow> crosser_reach x c"
| step: "crosser_reach x c \<Longrightarrow> crosser_step x c c' \<Longrightarrow> crosser_reach x c'"
| clear: "crosser_reach x c \<Longrightarrow> boot_clear (xc_maxAbs x) (jn_disk (cx_journal c)) = Inr c' \<Longrightarrow> crosser_reach x c'"

end
