(* ===== verification/Crosser_Safety.thy ===== *)
theory Crosser_Safety
  imports Crosser_Properties Crosser_Ledger "HOL-Library.Sublist"
begin

text \<open>
  The crossing agent over any interleaving of its goroutines and any crash: a crossing under way is on disk, an
  interrupted one blocks its pair until the operator clears it, and the recorded drift of every asset stays within
  the cap as long as the watched pairs share no asset.
\<close>

section \<open>The goroutines\<close>

definition residue :: "cross_plan \<Rightarrow> (string, u64) gomap" where
  "residue p = (let (bd, qd) = worstCase p in AList.update (plan_quote p) qd [(plan_base p, bd)])"

text \<open>The programs a goroutine is somewhere in.\<close>

definition run_at :: "string \<Rightarrow> cross_plan \<Rightarrow> xop list \<Rightarrow> bool" where
  "run_at pair p todo \<longleftrightarrow> todo \<noteq> [] \<and>
     (\<exists>rec r. er_Pair rec = pair \<and>
        (suffix todo (crossing_start rec) \<or> suffix todo crossing_abort \<or> suffix todo (after_first r) \<or> suffix todo (after_second p r)))"

lemma run_at_programs:
  "er_Pair rec = pair \<Longrightarrow> run_at pair p (crossing_start rec)" "run_at pair p crossing_abort" "run_at pair p (after_first r)"
  "run_at pair p (after_second p r)"
proof -
  obtain rec0 :: exec_record where "er_Pair rec0 = pair" by (metis exec_record.select_convs(1))
  then show "run_at pair p crossing_abort" "run_at pair p (after_first r)" "run_at pair p (after_second p r)"
    by (auto simp: run_at_def crossing_abort_def after_first_def after_second_def split: prod.splits intro: exI [of _ rec0])
  show "run_at pair p (crossing_start rec)" if "er_Pair rec = pair"
    using that by (auto simp: run_at_def crossing_start_def)
qed

lemma suffix_tail: "suffix (a # xs) ys \<Longrightarrow> suffix xs ys"
  by (metis append.assoc append_Cons append_Nil suffix_def)

lemma run_at_rest: "run_at pair p (op # rest) \<Longrightarrow> rest \<noteq> [] \<Longrightarrow> run_at pair p rest"
  unfolding run_at_def by (elim conjE exE disjE) (drule suffix_tail, blast)+

text \<open>What follows each operation.\<close>

lemma run_at_next:
  assumes "run_at pair p (op # rest)"
  shows "op = XBegin rec \<Longrightarrow> er_Pair rec = pair \<and> (\<exists>s f r. rest = [XSetLeg False s f r, XRunFirst])"
    "op = XSetLeg b s f h \<Longrightarrow> rest \<noteq> [] \<and> (\<forall>rec. XBegin rec \<notin> set rest)"
    "op = XRunFirst \<Longrightarrow> rest = []" "op = XRunSecond \<Longrightarrow> rest = []"
    "op = XRecordResidue \<Longrightarrow> rest = [XEnd (residue p), XRelease, XFinish False]"
    "op = XEnd d \<Longrightarrow> (d = [] \<or> d = residue p) \<and> (\<exists>g. rest = [XRelease, XFinish g])"
    "op = XRelease \<Longrightarrow> \<exists>g. rest = [XFinish g]" "op = XFinish g \<Longrightarrow> rest = []"
  using assms
  by (auto simp: run_at_def crossing_start_def crossing_abort_def after_first_def after_second_def suffix_Cons residue_def Let_def
      split: if_splits prod.splits)

section \<open>The journal\<close>

text \<open>A run between its \<open>Begin\<close> and its \<open>End\<close>.\<close>

definition open_run :: "xop list \<Rightarrow> bool" where
  "open_run todo \<longleftrightarrow>
     (\<forall>rec. XBegin rec \<notin> set todo) \<and> (XRunFirst \<in> set todo \<or> XRunSecond \<in> set todo \<or> (\<exists>d. XEnd d \<in> set todo))"

definition keyed :: "journal_state \<Rightarrow> bool" where
  "keyed st \<longleftrightarrow> (\<forall>k rec. map_of (js_InFlight st) k = Some rec \<longrightarrow> er_Pair rec = k)"

definition listed :: "string \<Rightarrow> journal_state \<Rightarrow> bool" where
  "listed k st \<longleftrightarrow> map_of (js_InFlight st) k \<noteq> None"

definition journal_inv :: "crosser \<Rightarrow> bool" where
  "journal_inv c \<longleftrightarrow>
     (let j = cx_journal c in
      keyed (jn_st j) \<and> (\<exists>st. jn_disk j = JournalFile st \<and> keyed st \<and>
        (\<forall>pair p todo. map_of (cx_runs c) pair = Some (p, todo) \<longrightarrow>
           run_at pair p todo \<and> (open_run todo \<longrightarrow> listed pair (jn_st j) \<and> listed pair st))))"

lemma flushLocked_fields [simp]:
  "jn_st (flushLocked ok j) = jn_st j" "jn_disk (flushLocked ok j) = (if ok then JournalFile (jn_st j) else jn_disk j)"
  by (simp_all add: flushLocked_def)

lemma journal_ops_fields:
  "js_Stranded (jn_st (journal_Begin ok pair rec j)) = js_Stranded (jn_st j)"
  "js_Stranded (jn_st (SetLeg ok pair b s f r j)) = js_Stranded (jn_st j)"
  "js_Stranded (jn_st (journal_End ok pair d j)) = js_Stranded (jn_st j)"
  "js_Drift (jn_st (journal_Begin ok pair rec j)) = js_Drift (jn_st j)"
  "js_Drift (jn_st (SetLeg ok pair b s f r j)) = js_Drift (jn_st j)"
  "js_Drift (jn_st (journal_End ok pair d j)) = fold (\<lambda>(k, v). gomap_add k v) d (js_Drift (jn_st j))"
  by (simp_all add: journal_Begin_def SetLeg_def journal_End_def Let_def split: option.splits)

lemma journal_ops_disk:
  "jn_disk (journal_Begin ok pair rec j) = (if ok then JournalFile (jn_st (journal_Begin ok pair rec j)) else jn_disk j)"
  "jn_disk (SetLeg ok pair b s f r j) = jn_disk j \<or> jn_disk (SetLeg ok pair b s f r j) = JournalFile (jn_st (SetLeg ok pair b s f r j))"
  "jn_disk (journal_End ok pair d j) = (if ok then JournalFile (jn_st (journal_End ok pair d j)) else jn_disk j)"
  by (simp_all add: journal_Begin_def SetLeg_def journal_End_def Let_def split: option.splits)

lemma listed_ops:
  "listed k (jn_st (journal_Begin ok pair rec j)) \<longleftrightarrow> k = pair \<or> listed k (jn_st j)"
  "listed k (jn_st (SetLeg ok pair b s f r j)) \<longleftrightarrow> listed k (jn_st j)"
  "listed k (jn_st (journal_End ok pair d j)) \<longleftrightarrow> k \<noteq> pair \<and> listed k (jn_st j)"
  by (auto simp: listed_def journal_Begin_def SetLeg_def journal_End_def Let_def gomap_simps split: option.splits)

lemma keyed_ops:
  "keyed (jn_st j) \<Longrightarrow> er_Pair rec = pair \<Longrightarrow> keyed (jn_st (journal_Begin ok pair rec j))"
  "keyed (jn_st j) \<Longrightarrow> keyed (jn_st (SetLeg ok pair b s f r j))"
  "keyed (jn_st j) \<Longrightarrow> keyed (jn_st (journal_End ok pair d j))"
  by (auto simp: keyed_def journal_Begin_def SetLeg_def journal_End_def Let_def gomap_simps split: option.splits if_splits)

lemma boot_fields:
  assumes "boot M disk = Inr c"
  obtains st where "jn_st (cx_journal c) = st" "jn_disk (cx_journal c) = JournalFile st" "js_InFlight st = []" "cx_runs c = []" "cx_states c = []"
    "cx_ledger c = NewLedger M (js_Drift st)"
    "disk = JournalFile old \<Longrightarrow> js_Drift st = js_Drift old \<and> js_Stranded st = js_Stranded old @ map snd (js_InFlight old)"
    "disk = NoFile \<Longrightarrow> js_Drift st = [] \<and> js_Stranded st = []"
  using assms by (auto simp: boot_def OpenJournal_def SeedDrift_def Let_def split: journal_file.splits)

lemma boot_JournalFile: "\<exists>c. boot M (JournalFile st) = Inr c"
  by (simp add: boot_def OpenJournal_def Let_def)

lemma journal_inv_boot: "boot M disk = Inr c \<Longrightarrow> journal_inv c"
  by (erule boot_fields) (auto simp: journal_inv_def keyed_def)

text \<open>An operation of one run keeps the invariant if it lists the run as long as the run is open and leaves the others alone.\<close>

lemma journal_inv_update:
  assumes "journal_inv c" "cx_runs c' = AList.update pair (p, todo) (cx_runs c)" "run_at pair p todo"
    "keyed (jn_st (cx_journal c'))"
    "jn_disk (cx_journal c') = jn_disk (cx_journal c) \<or> jn_disk (cx_journal c') = JournalFile (jn_st (cx_journal c'))"
    "\<And>k. k \<noteq> pair \<Longrightarrow> listed k (jn_st (cx_journal c)) \<Longrightarrow> listed k (jn_st (cx_journal c'))"
    "open_run todo \<Longrightarrow> listed pair (jn_st (cx_journal c')) \<and>
       (\<forall>st. jn_disk (cx_journal c') = JournalFile st \<longrightarrow> listed pair st)"
  shows "journal_inv c'"
proof -
  obtain st where st: "jn_disk (cx_journal c) = JournalFile st" "keyed st"
    using assms(1) by (auto simp: journal_inv_def Let_def)
  then obtain st' where st': "jn_disk (cx_journal c') = JournalFile st'" "keyed st'" "st' = st \<or> st' = jn_st (cx_journal c')"
    using assms(4,5) by auto
  have "run_at k q rest \<and> (open_run rest \<longrightarrow> listed k (jn_st (cx_journal c')) \<and> listed k st')"
    if "map_of (cx_runs c') k = Some (q, rest)" for k q rest
  proof (cases "k = pair")
    case True
    then show ?thesis using that assms(2,3,7) st'(1) by (auto simp: gomap_simps)
  next
    case False
    then have "map_of (cx_runs c) k = Some (q, rest)" using that assms(2) by (simp add: gomap_simps)
    with assms(1) st(1) have "run_at k q rest" "open_run rest \<longrightarrow> listed k (jn_st (cx_journal c)) \<and> listed k st"
      by (auto simp: journal_inv_def Let_def)
    then show ?thesis using assms(6) [OF False] st'(3) by auto
  qed
  then show ?thesis using assms(4) st' by (auto simp: journal_inv_def Let_def)
qed

lemma open_run_programs:
  "\<not> open_run (crossing_start rec)" "\<not> open_run crossing_abort" "run_at pair p [XRelease, XFinish g] \<Longrightarrow> \<not> open_run [XRelease, XFinish g]"
  by (auto simp: open_run_def crossing_start_def crossing_abort_def)

lemma open_run_tail: "open_run rest \<Longrightarrow> \<forall>rec. op \<noteq> XBegin rec \<Longrightarrow> open_run (op # rest)"
  by (auto simp: open_run_def)

lemma run_op_fields:
  "cx_runs (run_op mb now ok res pair p op rest c) =
     (case op of XBegin rec \<Rightarrow> AList.update pair (p, if ok then rest else crossing_abort) (cx_runs c)
      | XRunFirst \<Rightarrow> AList.update pair (p, after_first res) (cx_runs c)
      | XRunSecond \<Rightarrow> AList.update pair (p, after_second p res) (cx_runs c)
      | XFinish g \<Rightarrow> AList.delete pair (cx_runs c)
      | _ \<Rightarrow> AList.update pair (p, rest) (cx_runs c))"
  "cx_journal (run_op mb now ok res pair p op rest c) =
     (case op of XBegin rec \<Rightarrow> journal_Begin ok pair rec (cx_journal c)
      | XSetLeg b s f r \<Rightarrow> SetLeg ok pair b s f r (cx_journal c)
      | XEnd d \<Rightarrow> journal_End ok pair d (cx_journal c)
      | _ \<Rightarrow> cx_journal c)"
  "cx_ledger (run_op mb now ok res pair p op rest c) =
     (case op of XRecordResidue \<Rightarrow> RecordResidue p (cx_ledger c) | XRelease \<Rightarrow> Release p (cx_ledger c) | _ \<Rightarrow> cx_ledger c)"
  by (simp_all add: run_op_def Let_def split: xop.splits)

lemma run_op_journal:
  "js_Stranded (jn_st (cx_journal (run_op mb now ok res pair p op rest c))) = js_Stranded (jn_st (cx_journal c))"
  "jn_disk (cx_journal (run_op mb now ok res pair p op rest c)) = jn_disk (cx_journal c) \<or>
   jn_disk (cx_journal (run_op mb now ok res pair p op rest c)) = JournalFile (jn_st (cx_journal (run_op mb now ok res pair p op rest c)))"
  by (cases op; simp add: run_op_fields journal_ops_fields journal_ops_disk)+

lemma journal_inv_open:
  assumes "journal_inv c" "map_of (cx_runs c) pair = Some (p, todo)" "open_run todo"
  shows "listed pair (jn_st (cx_journal c)) \<and> (\<forall>st. jn_disk (cx_journal c) = JournalFile st \<longrightarrow> listed pair st)"
  using assms by (auto simp: journal_inv_def Let_def)

lemma journal_inv_run_op:
  assumes "journal_inv c" "map_of (cx_runs c) pair = Some (p, op # rest)"
  shows "journal_inv (run_op mb now ok res pair p op rest c)"
proof -
  let ?c = "run_op mb now ok res pair p op rest c"
  have "run_at pair p (op # rest)" using assms by (auto simp: journal_inv_def Let_def)
  note at = this and nxt = run_at_next [OF this] and tl = run_at_rest [OF this]
  have keyed: "keyed (jn_st (cx_journal c))" using assms(1) by (simp add: journal_inv_def Let_def)
  have wasopen: "listed pair (jn_st (cx_journal c)) \<and> (\<forall>st. jn_disk (cx_journal c) = JournalFile st \<longrightarrow> listed pair st)"
    if "open_run rest" "\<forall>rec. op \<noteq> XBegin rec"
    using journal_inv_open [OF assms] open_run_tail that by blast
  show ?thesis
  proof (cases op)
    case (XBegin rec)
    let ?todo = "if ok then rest else crossing_abort"
    have "run_at pair p ?todo" using tl nxt(1) [OF XBegin] run_at_programs(2) by auto
    then show ?thesis
      using nxt(1) [OF XBegin] keyed open_run_programs(2)
      by (intro journal_inv_update [OF assms(1), of _ pair p ?todo])
        (auto simp: run_op_fields XBegin journal_ops_disk listed_ops keyed_ops split: if_splits)
  next
    case (XSetLeg b s f r)
    have "run_at pair p rest" using tl nxt(2) [OF XSetLeg] by simp
    then show ?thesis
      using keyed wasopen journal_ops_disk(2) [of ok pair b s f r "cx_journal c"]
      by (intro journal_inv_update [OF assms(1), of _ pair p rest])
        (auto simp: run_op_fields XSetLeg listed_ops keyed_ops)
  next
    case XRunFirst
    then have "open_run (op # rest)" using nxt(3) by (simp add: open_run_def)
    from journal_inv_open [OF assms this] show ?thesis
      using keyed run_at_programs(3)
      by (intro journal_inv_update [OF assms(1), of _ pair p "after_first res"]) (auto simp: run_op_fields XRunFirst)
  next
    case XRunSecond
    then have "open_run (op # rest)" using nxt(4) by (simp add: open_run_def)
    from journal_inv_open [OF assms this] show ?thesis
      using keyed run_at_programs(4)
      by (intro journal_inv_update [OF assms(1), of _ pair p "after_second p res"]) (auto simp: run_op_fields XRunSecond)
  next
    case XRecordResidue
    have "run_at pair p rest" using tl nxt(5) [OF XRecordResidue] by simp
    then show ?thesis
      using keyed wasopen
      by (intro journal_inv_update [OF assms(1), of _ pair p rest]) (auto simp: run_op_fields XRecordResidue)
  next
    case (XEnd d)
    obtain g where rest: "rest = [XRelease, XFinish g]" using nxt(6) [OF XEnd] by blast
    then have "run_at pair p rest" "\<not> open_run rest" using tl by (auto simp: open_run_def)
    then show ?thesis
      using keyed by (intro journal_inv_update [OF assms(1), of _ pair p rest])
        (auto simp: run_op_fields XEnd journal_ops_disk listed_ops keyed_ops)
  next
    case XRelease
    obtain g where rest: "rest = [XFinish g]" using nxt(7) [OF XRelease] by blast
    then have "run_at pair p rest" "\<not> open_run rest" using tl by (auto simp: open_run_def)
    then show ?thesis
      using keyed by (intro journal_inv_update [OF assms(1), of _ pair p rest]) (auto simp: run_op_fields XRelease)
  next
    case (XFinish g)
    then show ?thesis
      using assms(1) by (auto simp: journal_inv_def run_op_fields Let_def gomap_simps split: if_splits)
  qed
qed

lemma run_step_cases:
  obtains (idle) "run_step mb now ok res pair c = c"
  | (op) p op rest where "map_of (cx_runs c) pair = Some (p, op # rest)" "run_step mb now ok res pair c = run_op mb now ok res pair p op rest c"
proof (cases "map_of (cx_runs c) pair")
  case None
  then show ?thesis by (intro idle) (simp add: run_step_def)
next
  case (Some a)
  then obtain p todo where todo: "map_of (cx_runs c) pair = Some (p, todo)" by (cases a) auto
  show ?thesis
  proof (cases todo)
    case Nil
    then show ?thesis by (intro idle) (simp add: run_step_def todo)
  next
    case (Cons opr rest)
    then show ?thesis by (intro op [of p opr rest]) (simp_all add: run_step_def todo)
  qed
qed

text \<open>A poll does nothing or starts one planned crossing of a pair that was not busy.\<close>

lemma poll_pair_cases:
  obtains (idle) "poll_pair cr caps cfg ttl now base quote raw c = c"
  | (start) plan l where "\<not> busy now (pair_key base quote) c"
      "dt_Plan (Detect (BuildUnion cr raw base quote now ttl) (Executable caps) cfg) = Some plan" "Reserve plan (cx_ledger c) = Inr l"
      "cx_ledger (poll_pair cr caps cfg ttl now base quote raw c) = l"
      "cx_journal (poll_pair cr caps cfg ttl now base quote raw c) = cx_journal c"
      "cx_runs (poll_pair cr caps cfg ttl now base quote raw c) =
         AList.update (pair_key base quote) (plan, crossing_start (mk_execRecord (pair_key base quote) now plan)) (cx_runs c)"
      "cx_states (poll_pair cr caps cfg ttl now base quote raw c) =
         AList.update (pair_key base quote) ((gomap_get new_pair_state (cx_states c) (pair_key base quote))\<lparr>ps_inFlight := True\<rparr>) (cx_states c)"
proof (cases "poll_pair cr caps cfg ttl now base quote raw c = c")
  case True
  then show ?thesis by (rule idle)
next
  case False
  then obtain plan l where nb: "\<not> busy now (pair_key base quote) c" "BuildUnion cr raw base quote now ttl \<noteq> []"
    "dt_Plan (Detect (BuildUnion cr raw base quote now ttl) (Executable caps) cfg) = Some plan" "Reserve plan (cx_ledger c) = Inr l"
    unfolding poll_pair_def Let_def by (auto split: if_splits option.splits sum.splits)
  show ?thesis by (rule start [of plan l]) (use nb in \<open>simp_all add: poll_pair_def Let_def\<close>)
qed

lemma journal_inv_step: "crosser_step x c c' \<Longrightarrow> journal_inv c \<Longrightarrow> journal_inv c'"
proof (induction rule: crosser_step.induct)
  case (poll base quote c now raw)
  show ?case
  proof (cases rule: poll_pair_cases [of "xc_crypto x" "xc_caps x" "xc_gate x" "xc_minTTL x" now base quote raw c])
    case idle
    then show ?thesis using poll by simp
  next
    case (start plan l)
    have "keyed (jn_st (cx_journal c))" using poll by (simp add: journal_inv_def Let_def)
    then show ?thesis
      using open_run_programs(1) start
      by (intro journal_inv_update [OF poll(2), of _ "pair_key base quote" plan]) (auto intro!: run_at_programs(1) simp: mk_execRecord_def)
  qed
next
  case (run c now ok res pair)
  then show ?case
    by (cases rule: run_step_cases [of "xc_maxBackoff x" now ok res pair c]) (auto intro: journal_inv_run_op)
next
  case (crash c c')
  then show ?case using journal_inv_boot by blast
qed

lemma reach_journal_inv: "crosser_reach x c \<Longrightarrow> journal_inv c"
proof (induction rule: crosser_reach.induct)
  case (clear c c')
  then show ?case using journal_inv_boot by (auto simp: boot_clear_def)
qed (auto intro: journal_inv_boot journal_inv_step)

section \<open>Stranded pairs\<close>

definition blocked :: "string \<Rightarrow> crosser \<Rightarrow> bool" where
  "blocked pair c \<longleftrightarrow> map_of (cx_runs c) pair = None \<and> StrandedFor pair (cx_journal c) \<and>
     (\<forall>st. jn_disk (cx_journal c) = JournalFile st \<longrightarrow> list_ex (\<lambda>r. er_Pair r = pair) (js_Stranded st))"

lemma blocked_boot:
  assumes "boot M (JournalFile st) = Inr c" "keyed st" "listed pair st \<or> list_ex (\<lambda>r. er_Pair r = pair) (js_Stranded st)"
  shows "blocked pair c"
  using assms(1)
proof (rule boot_fields [where old = st])
  fix st'
  assume c: "jn_st (cx_journal c) = st'" "jn_disk (cx_journal c) = JournalFile st'" "cx_runs c = []"
    "JournalFile st = JournalFile st \<Longrightarrow> js_Drift st' = js_Drift st \<and> js_Stranded st' = js_Stranded st @ map snd (js_InFlight st)"
  have "\<exists>rec\<in>snd ` set (js_InFlight st). er_Pair rec = pair" if "listed pair st"
    using that assms(2) by (force simp: listed_def keyed_def dest: map_of_SomeD)
  with c assms(3) show ?thesis by (auto simp: blocked_def StrandedFor_def list_ex_iff)
qed

lemma blocked_step:
  assumes "crosser_step x c c'" "journal_inv c" "blocked pair c"
  shows "blocked pair c'"
  using assms
proof (induction rule: crosser_step.induct)
  case (poll base quote c now raw)
  show ?case
  proof (cases rule: poll_pair_cases [of "xc_crypto x" "xc_caps x" "xc_gate x" "xc_minTTL x" now base quote raw c])
    case idle
    then show ?thesis using poll by simp
  next
    case (start plan l)
    then have "pair_key base quote \<noteq> pair" using poll(3) by (auto simp: busy_def blocked_def Let_def)
    then show ?thesis using poll(3) start by (simp add: blocked_def gomap_simps)
  qed
next
  case (run c now ok res k)
  show ?case
  proof (cases rule: run_step_cases [of "xc_maxBackoff x" now ok res k c])
    case idle
    then show ?thesis using run by simp
  next
    case (op p opr rest)
    then have "k \<noteq> pair" using run(2) by (auto simp: blocked_def)
    then have "map_of (cx_runs (run_op (xc_maxBackoff x) now ok res k p opr rest c)) pair = None"
      using run(2) by (auto simp: blocked_def run_op_fields gomap_simps split: xop.splits)
    then show ?thesis
      using run(2) op(2) run_op_journal [of "xc_maxBackoff x" now ok res k p opr rest c] by (auto simp: blocked_def StrandedFor_def)
  qed
next
  case (crash c c')
  obtain st where st: "jn_disk (cx_journal c) = JournalFile st" "keyed st" using crash(2) by (auto simp: journal_inv_def Let_def)
  with crash show ?case by (intro blocked_boot [of "xc_maxAbs x" st]) (auto simp: blocked_def)
qed

text \<open>C17: a crossing interrupted by a crash is never forgotten or restarted: whenever the process dies between a crossing's first journal
  write and its last, with a leg running or not, the next process starts, lists the crossing as stranded, and from then on neither it
  nor any later process starts a crossing of that pair until the operator clears the stranded records.\<close>

theorem interrupted_crossing_blocks_pair:
  assumes "crosser_reach x c" "map_of (cx_runs c) pair = Some (p, todo)" "open_run todo"
  shows "\<exists>c'. boot (xc_maxAbs x) (jn_disk (cx_journal c)) = Inr c' \<and>
    (\<forall>c''. (crosser_step x)\<^sup>*\<^sup>* c' c'' \<longrightarrow> StrandedFor pair (cx_journal c'') \<and> map_of (cx_runs c'') pair = None)"
proof -
  have inv: "journal_inv c" by (rule reach_journal_inv [OF assms(1)])
  obtain st where st: "jn_disk (cx_journal c) = JournalFile st" "keyed st" "listed pair st"
    using inv assms(2,3) by (auto simp: journal_inv_def Let_def)
  obtain c' where c': "boot (xc_maxAbs x) (JournalFile st) = Inr c'" using boot_JournalFile by blast
  have "blocked pair c'' \<and> journal_inv c''" if "(crosser_step x)\<^sup>*\<^sup>* c' c''" for c''
    using that
    by (induction rule: rtranclp_induct)
      (use blocked_boot [OF c' st(2)] st(3) journal_inv_boot [OF c'] blocked_step journal_inv_step in blast)+
  with c' st(1) show ?thesis by (auto simp: blocked_def)
qed

section \<open>The exposure cap\<close>

definition wc :: "cross_plan \<Rightarrow> string \<Rightarrow> u64" where
  "wc p a = (let (bd, qd) = worstCase p in if a = plan_base p then bd else if a = plan_quote p then qd else 0)"

definition uses :: "cross_plan \<Rightarrow> string \<Rightarrow> bool" where
  "uses p a \<longleftrightarrow> a = plan_base p \<or> a = plan_quote p"

abbreviation drift_of :: "crosser \<Rightarrow> string \<Rightarrow> u64" where
  "drift_of c a \<equiv> gomap_get 0 (lg_drift (cx_ledger c)) a"

abbreviation reserved_of :: "crosser \<Rightarrow> string \<Rightarrow> u64" where
  "reserved_of c a \<equiv> gomap_get 0 (lg_reserved (cx_ledger c)) a"

abbreviation journaled :: "crosser \<Rightarrow> string \<Rightarrow> u64" where
  "journaled c a \<equiv> gomap_get 0 (js_Drift (jn_st (cx_journal c))) a"

definition capped :: "u64 \<Rightarrow> u64 \<Rightarrow> bool" where
  "capped M v \<longleftrightarrow> \<not> M <s abs64 v"

text \<open>The phases of a run: it may still book its residue, has booked it in the ledger but not in the journal, holds its reservation.\<close>

definition owing :: "xop list \<Rightarrow> bool" where
  "owing todo \<longleftrightarrow> XRunFirst \<in> set todo \<or> XRunSecond \<in> set todo \<or> XRecordResidue \<in> set todo"

definition booked :: "xop list \<Rightarrow> bool" where
  "booked todo \<longleftrightarrow> \<not> owing todo \<and> (\<exists>d. d \<noteq> [] \<and> XEnd d \<in> set todo)"

definition holding :: "xop list \<Rightarrow> bool" where
  "holding todo \<longleftrightarrow> XRelease \<in> set todo \<or> XRunFirst \<in> set todo \<or> XRunSecond \<in> set todo"

lemma gomap_add_get: "gomap_get 0 (gomap_add k v m) a = gomap_get 0 m a + (if a = k then v else 0)"
  by (simp add: gomap_add_def gomap_simps)

lemma ledger_ops:
  assumes "plan_base p \<noteq> plan_quote p"
  shows "Reserve p l = Inr l' \<Longrightarrow> lg_drift l' = lg_drift l \<and> lg_maxAbs l' = lg_maxAbs l \<and>
      gomap_get 0 (lg_reserved l') a = gomap_get 0 (lg_reserved l) a + wc p a \<and>
      (0 <s lg_maxAbs l \<longrightarrow> uses p a \<longrightarrow> capped (lg_maxAbs l) (gomap_get 0 (lg_drift l) a + gomap_get 0 (lg_reserved l) a + wc p a))"
    "gomap_get 0 (lg_reserved (Release p l)) a = gomap_get 0 (lg_reserved l) a - wc p a"
    "gomap_get 0 (lg_drift (RecordResidue p l)) a = gomap_get 0 (lg_drift l) a + wc p a"
    "gomap_get 0 (fold (\<lambda>(k, v). gomap_add k v) (residue p) m) a = gomap_get 0 m a + wc p a" "residue p \<noteq> []"
  using assms
  by (auto simp: Reserve_def Release_def RecordResidue_def residue_def wc_def uses_def over_cap_def capped_def Let_def gomap_add_get
      split: prod.splits if_splits)

lemma ledger_ops_fields [simp]:
  "lg_drift (Release p l) = lg_drift l" "lg_maxAbs (Release p l) = lg_maxAbs l"
  "lg_reserved (RecordResidue p l) = lg_reserved l" "lg_maxAbs (RecordResidue p l) = lg_maxAbs l"
  by (simp_all add: Release_def RecordResidue_def split: prod.splits)

text \<open>Watched pairs that share no asset.\<close>

definition separate :: "(string \<times> string) list \<Rightarrow> bool" where
  "separate ps \<longleftrightarrow> (\<forall>(b, q)\<in>set ps. b \<noteq> q \<and>
     (\<forall>(b', q')\<in>set ps. (b', q') = (b, q) \<or> {b, q} \<inter> {b', q'} = {} \<and> pair_key b q \<noteq> pair_key b' q'))"

definition runs_inv :: "crosser_config \<Rightarrow> crosser \<Rightarrow> bool" where
  "runs_inv x c \<longleftrightarrow>
     (\<forall>pair p todo. map_of (cx_runs c) pair = Some (p, todo) \<longrightarrow>
        ps_inFlight (gomap_get new_pair_state (cx_states c) pair) \<and>
        (plan_base p, plan_quote p) \<in> set (xc_pairs x) \<and> pair = pair_key (plan_base p) (plan_quote p))"

text \<open>The runs that touch an asset, and what they mean for its drift, its journaled drift and its reservation.\<close>

definition users :: "crosser \<Rightarrow> string \<Rightarrow> (cross_plan \<times> xop list) set" where
  "users c a = {(p, todo). uses p a \<and> (\<exists>pair. map_of (cx_runs c) pair = Some (p, todo))}"

definition balanced :: "u64 \<Rightarrow> string \<Rightarrow> u64 \<Rightarrow> u64 \<Rightarrow> u64 \<Rightarrow> (cross_plan \<times> xop list) set \<Rightarrow> bool" where
  "balanced M a drift jdrift resv us \<longleftrightarrow> capped M drift \<and> capped M jdrift \<and> (us = {} \<longrightarrow> drift = jdrift \<and> resv = 0) \<and>
     (\<forall>(p, todo)\<in>us. drift = jdrift + (if booked todo then wc p a else 0) \<and> resv = (if holding todo then wc p a else 0) \<and>
        (owing todo \<longrightarrow> capped M (drift + wc p a)))"

definition cap_inv :: "u64 \<Rightarrow> crosser \<Rightarrow> bool" where
  "cap_inv M c \<longleftrightarrow> lg_maxAbs (cx_ledger c) = M \<and>
     (\<forall>a. balanced M a (drift_of c a) (journaled c a) (reserved_of c a) (users c a)) \<and>
     (\<forall>st a. jn_disk (cx_journal c) = JournalFile st \<longrightarrow> capped M (gomap_get 0 (js_Drift st) a))"

lemma separate_user:
  assumes "separate (xc_pairs x)" "(plan_base p, plan_quote p) \<in> set (xc_pairs x)" "(plan_base q, plan_quote q) \<in> set (xc_pairs x)"
    "uses p a" "uses q a"
  shows "pair_key (plan_base p) (plan_quote p) = pair_key (plan_base q) (plan_quote q)"
proof -
  have "(plan_base q, plan_quote q) = (plan_base p, plan_quote p) \<or> {plan_base p, plan_quote p} \<inter> {plan_base q, plan_quote q} = {}"
    using assms(1-3) unfolding separate_def by fast
  then show ?thesis using assms(4,5) by (auto simp: uses_def)
qed

text \<open>A step of one run that keeps the balances of the other assets and settles those of its own.\<close>

lemma cap_inv_update:
  assumes "separate (xc_pairs x)" "runs_inv x c'" "cap_inv M c" "cx_runs c' = AList.update pair (p, todo) (cx_runs c)"
    "lg_maxAbs (cx_ledger c') = M"
    "jn_disk (cx_journal c') = jn_disk (cx_journal c) \<or> jn_disk (cx_journal c') = JournalFile (jn_st (cx_journal c'))"
    "\<And>a. \<not> uses p a \<Longrightarrow> drift_of c' a = drift_of c a \<and> journaled c' a = journaled c a \<and> reserved_of c' a = reserved_of c a"
    "\<And>q t. map_of (cx_runs c) pair = Some (q, t) \<Longrightarrow> q = p"
    "\<And>a. uses p a \<Longrightarrow> balanced M a (drift_of c' a) (journaled c' a) (reserved_of c' a) {(p, todo)}"
  shows "cap_inv M c'"
proof -
  have mine: "map_of (cx_runs c') pair = Some (p, todo)" using assms(4) by (simp add: gomap_simps)
  have key: "pair = pair_key (plan_base p) (plan_quote p)" "(plan_base p, plan_quote p) \<in> set (xc_pairs x)"
    using assms(2) mine by (auto simp: runs_inv_def)
  have only: "k = pair" if "map_of (cx_runs c') k = Some (q, t)" "uses q a" "uses p a" for k q t a
  proof -
    have "k = pair_key (plan_base q) (plan_quote q)" "(plan_base q, plan_quote q) \<in> set (xc_pairs x)"
      using assms(2) that(1) by (auto simp: runs_inv_def)
    then show ?thesis using separate_user [OF assms(1) key(2) _ that(3,2)] key(1) by simp
  qed
  have bal: "balanced M a (drift_of c' a) (journaled c' a) (reserved_of c' a) (users c' a)" for a
  proof (cases "uses p a")
    case True
    have "users c' a = {(p, todo)}"
      unfolding users_def using only [OF _ _ True] mine True by fastforce
    with assms(9) [OF True] show ?thesis by simp
  next
    case False
    have "map_of (cx_runs c') k = Some (q, t) \<longleftrightarrow> map_of (cx_runs c) k = Some (q, t)" if "uses q a" for k q t
      using that False assms(4,8) by (auto simp: gomap_simps)
    then have "users c' a = users c a" by (auto simp: users_def)
    with assms(3) assms(7) [OF False] show ?thesis by (simp add: cap_inv_def)
  qed
  then have "capped M (gomap_get 0 (js_Drift st) a)" if "jn_disk (cx_journal c') = JournalFile st" for st a
    using assms(3,6) that by (auto simp: cap_inv_def balanced_def)
  with bal assms(5) show ?thesis by (simp add: cap_inv_def)
qed

lemma run_op_states:
  "cx_states (run_op mb now ok res pair p op rest c) =
     (case op of XFinish g \<Rightarrow> AList.update pair (finish_pair mb now g (gomap_get new_pair_state (cx_states c) pair)) (cx_states c)
      | _ \<Rightarrow> cx_states c)"
  by (simp add: run_op_def Let_def split: xop.splits)

lemma runs_inv_step: "crosser_step x c c' \<Longrightarrow> runs_inv x c \<Longrightarrow> runs_inv x c'"
proof (induction rule: crosser_step.induct)
  case (poll base quote c now raw)
  show ?case
  proof (cases rule: poll_pair_cases [of "xc_crypto x" "xc_caps x" "xc_gate x" "xc_minTTL x" now base quote raw c])
    case idle
    then show ?thesis using poll by simp
  next
    case (start plan l)
    have "plan_base plan = base" "plan_quote plan = quote"
      using plan_in_union(1) [OF start(2)] Normalize_Inr(6,7) by (auto simp: genuine_def plan_base_def plan_quote_def)
    then show ?thesis using poll start(6,7) by (auto simp: runs_inv_def gomap_simps)
  qed
next
  case (run c now ok res pair)
  show ?case
  proof (cases rule: run_step_cases [of "xc_maxBackoff x" now ok res pair c])
    case idle
    then show ?thesis using run by simp
  next
    case (op p opr rest)
    then show ?thesis
      using run by (auto simp: runs_inv_def run_op_fields run_op_states gomap_simps split: xop.splits if_splits)
  qed
next
  case (crash c c')
  then show ?case by (auto elim!: boot_fields simp: runs_inv_def)
qed

lemma wc_unused: "\<not> uses p a \<Longrightarrow> wc p a = 0"
  by (auto simp: wc_def uses_def Let_def split: prod.splits)

lemma balanced_subset:
  assumes "us' \<subseteq> us" "balanced M a drift jdrift resv us" "us' \<noteq> {}"
  shows "balanced M a drift jdrift resv us'"
proof -
  have "\<forall>(p, todo)\<in>us'. drift = jdrift + (if booked todo then wc p a else 0) \<and> resv = (if holding todo then wc p a else 0) \<and>
      (owing todo \<longrightarrow> capped M (drift + wc p a))"
    using assms(1,2) unfolding balanced_def by (meson subsetD)
  then show ?thesis using assms(2,3) by (simp add: balanced_def)
qed

lemma balanced_phase:
  "balanced M a drift jdrift resv {(p, todo)} \<Longrightarrow> booked todo' = booked todo \<Longrightarrow> holding todo' = holding todo \<Longrightarrow>
   (owing todo' \<Longrightarrow> owing todo) \<Longrightarrow> balanced M a drift jdrift resv {(p, todo')}"
  unfolding balanced_def by auto

lemma cap_inv_delete:
  assumes "separate (xc_pairs x)" "runs_inv x c" "cap_inv M c" "map_of (cx_runs c) pair = Some (p, todo)"
    "cx_runs c' = AList.delete pair (cx_runs c)" "cx_ledger c' = cx_ledger c" "cx_journal c' = cx_journal c"
    "\<And>a. uses p a \<Longrightarrow> drift_of c a = journaled c a \<and> reserved_of c a = 0"
  shows "cap_inv M c'"
proof -
  have key: "pair = pair_key (plan_base p) (plan_quote p)" "(plan_base p, plan_quote p) \<in> set (xc_pairs x)"
    using assms(2,4) by (auto simp: runs_inv_def)
  have only: "k = pair" if "map_of (cx_runs c) k = Some (q, t)" "uses q a" "uses p a" for k q t a
  proof -
    have "k = pair_key (plan_base q) (plan_quote q)" "(plan_base q, plan_quote q) \<in> set (xc_pairs x)"
      using assms(2) that(1) by (auto simp: runs_inv_def)
    then show ?thesis using separate_user [OF assms(1) key(2) _ that(3,2)] key(1) by simp
  qed
  have "balanced M a (drift_of c a) (journaled c a) (reserved_of c a) (users c' a)" for a
  proof (cases "uses p a")
    case True
    then have "users c' a = {}" using only by (auto simp: users_def assms(5) gomap_simps split: if_splits)
    with assms(3) assms(8) [OF True] show ?thesis by (auto simp: cap_inv_def balanced_def)
  next
    case False
    then have "map_of (cx_runs c') k = Some (q, t) \<longleftrightarrow> map_of (cx_runs c) k = Some (q, t)" if "uses q a" for k q t
      using that assms(4) by (auto simp: assms(5) gomap_simps)
    then have "users c' a = users c a" by (auto simp: users_def)
    with assms(3) show ?thesis by (simp add: cap_inv_def)
  qed
  with assms(3) show ?thesis by (simp add: cap_inv_def assms(6,7))
qed

lemma cap_inv_run_op:
  assumes "separate (xc_pairs x)" "journal_inv c" "runs_inv x c" "cap_inv M c" "map_of (cx_runs c) pair = Some (p, op # rest)"
    "c' = run_op mb now ok res pair p op rest c" "runs_inv x c'"
  shows "cap_inv M c'"
proof -
  have "run_at pair p (op # rest)" using assms(2,5) by (auto simp: journal_inv_def Let_def)
  note nxt = run_at_next [OF this]
  have sep: "plan_base p \<noteq> plan_quote p" using assms(1,3,5) by (auto simp: separate_def runs_inv_def)
  note ops = ledger_ops [OF sep]
  have bal: "balanced M a (drift_of c a) (journaled c a) (reserved_of c a) {(p, op # rest)}" if "uses p a" for a
  proof -
    have "(p, op # rest) \<in> users c a" using that assms(5) by (auto simp: users_def)
    then have "{(p, op # rest)} \<subseteq> users c a" by simp
    moreover have "balanced M a (drift_of c a) (journaled c a) (reserved_of c a) (users c a)" using assms(4) by (simp add: cap_inv_def)
    ultimately show ?thesis by (rule balanced_subset) simp
  qed
  have max: "lg_maxAbs (cx_ledger c') = M"
    using assms(4) by (simp add: assms(6) run_op_fields cap_inv_def split: xop.splits)
  note upd = cap_inv_update [OF assms(1,7,4) _ max run_op_journal(2) [of mb now ok res pair p op rest c, folded assms(6)]]
  have quiet: "cap_inv M c'" if "cx_runs c' = AList.update pair (p, todo) (cx_runs c)" "cx_ledger c' = cx_ledger c"
    "js_Drift (jn_st (cx_journal c')) = js_Drift (jn_st (cx_journal c))" "booked todo = booked (op # rest)"
    "holding todo = holding (op # rest)" "owing todo \<Longrightarrow> owing (op # rest)" for todo
    by (rule upd [of pair p todo]) (use that assms(5) balanced_phase [OF bal that(4-6)] in auto)
  note phases = booked_def owing_def holding_def and zero = wc_unused
  show ?thesis
  proof (cases op)
    case (XFinish g)
    have rest: "rest = []" by (rule nxt(8) [OF XFinish])
    show ?thesis
      by (rule cap_inv_delete [OF assms(1,3,4), of pair p "op # rest"])
        (use bal assms(5) rest max in \<open>auto simp: XFinish assms(6) run_op_fields balanced_def booked_def owing_def holding_def\<close>)
  next
    case XRecordResidue
    note rest = nxt(5) [OF this]
    have after: "capped M (journaled c a + wc p a)" if "uses p a" for a
      using bal [OF that] by (auto simp: XRecordResidue balanced_def booked_def owing_def)
    show ?thesis
      by (rule upd [of pair p rest])
        (use bal after assms(5) rest ops in \<open>auto simp: XRecordResidue assms(6) run_op_fields zero balanced_def booked_def owing_def holding_def\<close>)
  next
    case (XEnd d)
    obtain g where rest: "rest = [XRelease, XFinish g]" "d = [] \<or> d = residue p" using nxt(6) [OF XEnd] by blast
    have after: "capped M (journaled c a + wc p a)" if "uses p a" "d = residue p" for a
      using bal [OF that(1)] rest that(2) ops(5) by (auto simp: XEnd balanced_def booked_def owing_def)
    show ?thesis
      by (rule upd [of pair p rest])
        (use bal after assms(5) rest ops in \<open>auto simp: XEnd assms(6) run_op_fields journal_ops_fields zero balanced_def booked_def owing_def holding_def\<close>)
  next
    case XRelease
    obtain g where rest: "rest = [XFinish g]" using nxt(7) [OF XRelease] by blast
    show ?thesis
      by (rule upd [of pair p rest])
        (use bal assms(5) rest ops in \<open>auto simp: XRelease assms(6) run_op_fields zero balanced_def booked_def owing_def holding_def\<close>)
  next
    case (XBegin rec)
    then obtain s f r where rest: "rest = [XSetLeg False s f r, XRunFirst]" using nxt(1) by blast
    show ?thesis
      by (rule quiet [of "if ok then rest else crossing_abort"])
        (use rest in \<open>auto simp: XBegin assms(6) run_op_fields journal_ops_fields phases crossing_abort_def\<close>)
  next
    case (XSetLeg b s f r)
    show ?thesis
      by (rule quiet [of rest]) (auto simp: XSetLeg assms(6) run_op_fields journal_ops_fields phases)
  next
    case XRunFirst
    note rest = nxt(3) [OF this]
    show ?thesis
      by (rule quiet [of "after_first res"]) (use rest in \<open>auto simp: XRunFirst assms(6) run_op_fields phases after_first_def\<close>)
  next
    case XRunSecond
    note rest = nxt(4) [OF this]
    show ?thesis
      by (rule quiet [of "after_second p res"])
        (use rest in \<open>auto simp: XRunSecond assms(6) run_op_fields phases after_second_def case_prod_unfold Let_def\<close>)
  qed
qed

lemma capped_0: "0 <s M \<Longrightarrow> capped M 0"
  by (simp add: capped_def abs64_def word_sless_alt)

lemma cap_inv_boot:
  assumes "boot M disk = Inr c" "0 <s M" "\<And>st a. disk = JournalFile st \<Longrightarrow> capped M (gomap_get 0 (js_Drift st) a)"
  shows "cap_inv M c"
proof (cases disk)
  case NoFile
  with assms(1) show ?thesis
    by (rule_tac boot_fields [OF assms(1), of undefined])
      (auto simp: cap_inv_def balanced_def users_def NewLedger_def gomap_get_def capped_0 [OF assms(2)])
next
  case CorruptFile
  with assms(1) show ?thesis by (simp add: boot_def OpenJournal_def)
next
  case (JournalFile old)
  with assms(3) show ?thesis
    by (rule_tac boot_fields [OF assms(1), of old]) (auto simp: cap_inv_def balanced_def users_def NewLedger_def gomap_get_def [of 0 "[]"])
qed

lemma cap_inv_step:
  assumes "crosser_step x c c'" "separate (xc_pairs x)" "0 <s xc_maxAbs x" "journal_inv c" "runs_inv x c" "cap_inv (xc_maxAbs x) c"
  shows "cap_inv (xc_maxAbs x) c'"
  using assms(1)
proof (cases rule: crosser_step.cases)
  case (poll base quote now raw)
  note inv = runs_inv_step [OF assms(1,5)]
  show ?thesis
  proof (cases rule: poll_pair_cases [of "xc_crypto x" "xc_caps x" "xc_gate x" "xc_minTTL x" now base quote raw c])
    case idle
    then show ?thesis using poll assms(6) by simp
  next
    case (start plan l)
    let ?pair = "pair_key base quote"
    have c': "cx_ledger c' = l" "cx_journal c' = cx_journal c" "cx_runs c' = AList.update ?pair (plan, crossing_start (mk_execRecord ?pair now plan)) (cx_runs c)"
      using start poll(1) by simp_all
    then have mine: "map_of (cx_runs c') ?pair = Some (plan, crossing_start (mk_execRecord ?pair now plan))" by (simp add: gomap_simps)
    then have pq: "(plan_base plan, plan_quote plan) \<in> set (xc_pairs x)" "?pair = pair_key (plan_base plan) (plan_quote plan)"
      using inv by (auto simp: runs_inv_def)
    then have sep: "plan_base plan \<noteq> plan_quote plan" using assms(2) by (auto simp: separate_def)
    have idle: "map_of (cx_runs c) ?pair = None"
      using start(1) assms(5) by (cases "map_of (cx_runs c) ?pair") (auto simp: busy_def runs_inv_def Let_def)
    have unused: "users c a = {}" if "uses plan a" for a
    proof -
      have "k = ?pair" if "map_of (cx_runs c) k = Some (q, t)" "uses q a" for k q t
      proof -
        have "k = pair_key (plan_base q) (plan_quote q)" "(plan_base q, plan_quote q) \<in> set (xc_pairs x)"
          using assms(5) that(1) by (auto simp: runs_inv_def)
        then show ?thesis using separate_user [OF assms(2) pq(1) _ \<open>uses plan a\<close> that(2)] pq(2) by simp
      qed
      with idle show ?thesis by (fastforce simp: users_def)
    qed
    have zero: "drift_of c a = journaled c a \<and> reserved_of c a = 0 \<and> capped (xc_maxAbs x) (drift_of c a)" if "uses plan a" for a
      using assms(6) unused [OF that] by (auto simp: cap_inv_def balanced_def)
    have max: "lg_maxAbs (cx_ledger c) = xc_maxAbs x" using assms(6) by (simp add: cap_inv_def)
    note res = ledger_ops(1) [OF sep start(3)]
    show ?thesis
    proof (rule cap_inv_update [OF assms(2) inv assms(6) c'(3)])
      show "lg_maxAbs (cx_ledger c') = xc_maxAbs x" using res max by (simp add: c'(1))
      show "jn_disk (cx_journal c') = jn_disk (cx_journal c) \<or> jn_disk (cx_journal c') = JournalFile (jn_st (cx_journal c'))"
        by (simp add: c'(2))
      show "drift_of c' a = drift_of c a \<and> journaled c' a = journaled c a \<and> reserved_of c' a = reserved_of c a" if "\<not> uses plan a" for a
        using res [of a] wc_unused [OF that] by (simp add: c'(1,2))
      show "q = plan" if "map_of (cx_runs c) ?pair = Some (q, t)" for q t using that idle by simp
      show "balanced (xc_maxAbs x) a (drift_of c' a) (journaled c' a) (reserved_of c' a)
          {(plan, crossing_start (mk_execRecord ?pair now plan))}" if "uses plan a" for a
        using res [of a] zero [OF that] max assms(3) that
        by (auto simp: c'(1,2) balanced_def booked_def owing_def holding_def crossing_start_def)
    qed
  qed
next
  case (run now ok res pair)
  show ?thesis
  proof (cases rule: run_step_cases [of "xc_maxBackoff x" now ok res pair c])
    case idle
    then show ?thesis using run assms(6) by simp
  next
    case (op p opr rest)
    have "c' = run_op (xc_maxBackoff x) now ok res pair p opr rest c" using run op(2) by simp
    from cap_inv_run_op [OF assms(2,4,5,6) op(1) this runs_inv_step [OF assms(1,5)]] show ?thesis .
  qed
next
  case crash
  then show ?thesis using assms(3,6) by (intro cap_inv_boot) (auto simp: cap_inv_def)
qed

lemma reach_cap_inv:
  assumes "crosser_reach x c" "separate (xc_pairs x)" "0 <s xc_maxAbs x"
  shows "runs_inv x c \<and> cap_inv (xc_maxAbs x) c"
  using assms(1)
proof (induction rule: crosser_reach.induct)
  case (fresh c)
  then show ?case using cap_inv_boot [OF fresh assms(3)] by (auto elim!: boot_fields simp: runs_inv_def)
next
  case (step c c')
  then show ?case using cap_inv_step [OF step(2) assms(2,3) reach_journal_inv [OF step(1)]] runs_inv_step by blast
next
  case (clear c c')
  obtain j where j: "OpenJournal True (jn_disk (cx_journal c)) = Inr j"
    "boot (xc_maxAbs x) (jn_disk (snd (ClearStranded True j))) = Inr c'"
    using clear(2) by (auto simp: boot_clear_def rbind_eq_Inr)
  obtain st where st: "jn_disk (cx_journal c) = JournalFile st"
    using reach_journal_inv [OF clear(1)] by (auto simp: journal_inv_def Let_def)
  then have "jn_disk (snd (ClearStranded True j)) = JournalFile st' \<Longrightarrow> js_Drift st' = js_Drift st" for st'
    using j(1) by (auto simp: OpenJournal_def ClearStranded_def Let_def)
  then have "cap_inv (xc_maxAbs x) c'"
    using clear(3) st by (intro cap_inv_boot [OF j(2) assms(3)]) (auto simp: cap_inv_def)
  then show ?case using j(2) by (auto elim!: boot_fields simp: runs_inv_def)
qed

text \<open>C18: the exposure cap holds when the watched pairs share no asset: through any interleaving of polls, legs, failed journal writes,
  crashes and clearings, the drift of every asset, in the ledger, in the journal and in the journal file, read by the code's own
  absolute value, never exceeds the configured maximum.\<close>

theorem exposure_capped:
  assumes "crosser_reach x c" "separate (xc_pairs x)" "0 < sint (xc_maxAbs x)"
  shows "sint (abs64 (gomap_get 0 (lg_drift (cx_ledger c)) a)) \<le> sint (xc_maxAbs x) \<and>
    sint (abs64 (gomap_get 0 (js_Drift (jn_st (cx_journal c))) a)) \<le> sint (xc_maxAbs x) \<and>
    (\<forall>st. jn_disk (cx_journal c) = JournalFile st \<longrightarrow> sint (abs64 (gomap_get 0 (js_Drift st) a)) \<le> sint (xc_maxAbs x))"
  using reach_cap_inv [OF assms(1,2)] assms(3) by (auto simp: cap_inv_def balanced_def capped_def word_sless_alt not_less)

section \<open>Sample runs\<close>

definition sample_config :: crosser_config where
  "sample_config = \<lparr>xc_crypto = demo_crypto, xc_caps = sample_caps, xc_gate = sample_gate, xc_minTTL = Minute, xc_maxBackoff = Hour,
     xc_maxAbs = 1000, xc_pairs = [(''gold'', ''usdx'')]\<rparr>"

definition idle_crosser :: crosser where
  "idle_crosser = \<lparr>cx_ledger = NewLedger 1000 [],
     cx_journal = (let st = \<lparr>js_Drift = [], js_InFlight = [], js_Stranded = []\<rparr> in \<lparr>jn_st = st, jn_disk = JournalFile st\<rparr>),
     cx_states = [], cx_runs = []\<rparr>"

text \<open>A poll finds the sample plan and its first journal write succeeds.\<close>

definition started_crosser :: crosser where
  "started_crosser = run_step Hour 0 True \<lparr>res_Settled = False, res_StateFile = '''', res_Resume = ''''\<rparr> ''gold/usdx''
     (poll_pair demo_crypto sample_caps sample_gate Minute (2 * Second) ''gold'' ''usdx'' sample_relays idle_crosser)"

lemma sample_boot: "boot 1000 NoFile = Inr idle_crosser"
  by (simp add: boot_def OpenJournal_def SeedDrift_def idle_crosser_def Let_def flushLocked_def)

lemma started_reach: "crosser_reach sample_config started_crosser"
proof -
  have "crosser_reach sample_config idle_crosser"
    by (rule crosser_reach.fresh) (simp add: sample_config_def sample_boot)
  then have "crosser_reach sample_config (poll_pair demo_crypto sample_caps sample_gate Minute (2 * Second) ''gold'' ''usdx'' sample_relays idle_crosser)"
    by (rule crosser_reach.step)
      (use crosser_step.poll [of "''gold''" "''usdx''" sample_config idle_crosser] in \<open>simp add: sample_config_def\<close>)
  then show ?thesis
    unfolding started_crosser_def
    by (rule crosser_reach.step) (use crosser_step.run [of sample_config] in \<open>simp add: sample_config_def\<close>)
qed

lemma sample_worstCase: "worstCase sample_plan = (- 60, 150)"
proof -
  have "norm_bid \<noteq> norm_ask" using norm_sample_fields(1,2) by (metis side.distinct(1))
  then show ?thesis by (simp add: worstCase_def sample_plan_def)
qed

lemma sample_Reserve: "\<exists>l. Reserve sample_plan (NewLedger 1000 []) = Inr l"
  by (simp add: Reserve_def sample_worstCase over_cap_def NewLedger_def gomap_get_def abs64_def word_sless_alt)

lemma started_run: "\<exists>todo. map_of (cx_runs started_crosser) ''gold/usdx'' = Some (sample_plan, todo) \<and> open_run todo"
proof -
  have idle: "\<not> busy (2 * Second) ''gold/usdx'' idle_crosser"
    by (simp add: busy_def idle_crosser_def new_pair_state_def gomap_get_def StrandedFor_def Second_def Let_def)
  obtain l where l: "Reserve sample_plan (cx_ledger idle_crosser) = Inr l" using sample_Reserve by (auto simp: idle_crosser_def)
  have "poll_pair demo_crypto sample_caps sample_gate Minute (2 * Second) ''gold'' ''usdx'' sample_relays idle_crosser =
      idle_crosser\<lparr>cx_ledger := l, cx_states := [(''gold/usdx'', new_pair_state\<lparr>ps_inFlight := True\<rparr>)],
        cx_runs := [(''gold/usdx'', (sample_plan, crossing_start (mk_execRecord ''gold/usdx'' (2 * Second) sample_plan)))]\<rparr>"
    using idle by (simp add: poll_pair_def pair_key_def sample_union sample_Detect l Let_def) (simp add: idle_crosser_def gomap_get_def)
  then show ?thesis
    by (simp add: started_crosser_def run_step_def crossing_start_def run_op_fields) (simp add: idle_crosser_def open_run_def)
qed

theorem interrupted_crossing_blocks_pair_witness:
  "\<exists>c'. boot 1000 (jn_disk (cx_journal started_crosser)) = Inr c' \<and> StrandedFor ''gold/usdx'' (cx_journal c')"
proof -
  obtain todo where "map_of (cx_runs started_crosser) ''gold/usdx'' = Some (sample_plan, todo)" "open_run todo"
    using started_run by blast
  from interrupted_crossing_blocks_pair [OF started_reach this] show ?thesis by (auto simp: sample_config_def)
qed

theorem exposure_capped_witness:
  "sint (abs64 (gomap_get 0 (lg_drift (cx_ledger started_crosser)) ''gold'')) \<le> 1000"
proof -
  have "separate (xc_pairs sample_config)" "0 < sint (xc_maxAbs sample_config)" by (simp_all add: separate_def sample_config_def)
  from exposure_capped [OF started_reach this, of "''gold''"] show ?thesis by (simp add: sample_config_def)
qed

section \<open>Where the cap does not hold\<close>

text \<open>A crossing that buys first and one that sells first, of 100 atoms of the same base against another quote.\<close>

definition buy_first :: "string \<Rightarrow> cross_plan" where
  "buy_first quote = sample_plan\<lparr>cp_Bid := norm_bid\<lparr>no_Base := ''gold'', no_Quote := quote\<rparr>, cp_Take := 100, cp_Cost := 50, cp_Revenue := 60,
     cp_First := norm_ask, cp_Second := norm_bid\<lparr>no_Base := ''gold'', no_Quote := quote\<rparr>\<rparr>"

definition sell_first :: "string \<Rightarrow> cross_plan" where
  "sell_first quote = sample_plan\<lparr>cp_Bid := norm_bid\<lparr>no_Base := ''gold'', no_Quote := quote\<rparr>, cp_Take := 100, cp_Cost := 50, cp_Revenue := 60,
     cp_First := norm_bid\<lparr>no_Base := ''gold'', no_Quote := quote\<rparr>, cp_Second := norm_ask\<rparr>"

lemma first_worstCase: "worstCase (buy_first q) = (100, - 50)" "worstCase (sell_first q) = (- 100, 60)"
  "plan_base (buy_first q) = ''gold''" "plan_base (sell_first q) = ''gold''" "plan_quote (buy_first q) = q" "plan_quote (sell_first q) = q"
proof -
  have "no_Side (norm_bid\<lparr>no_Base := ''gold'', no_Quote := q\<rparr>) \<noteq> no_Side norm_ask" by (simp add: norm_sample_fields)
  then have "norm_bid\<lparr>no_Base := ''gold'', no_Quote := q\<rparr> \<noteq> norm_ask" by metis
  then show "worstCase (buy_first q) = (100, - 50)" "worstCase (sell_first q) = (- 100, 60)"
    by (simp_all add: worstCase_def buy_first_def sell_first_def sample_plan_def)
qed (simp_all add: plan_base_def plan_quote_def buy_first_def sell_first_def)

text \<open>The exposure cap does not bound pairs that share an asset: opposite reservations cancel, so with a cap of 100 two purchases of
  100 are both admitted while a sale of 100 is in flight; the sale settles, both purchases fail their second leg, and the drift is 200.\<close>

lemma shared_asset_exceeds_cap:
  "\<exists>l1 l2 l3. Reserve (buy_first ''usdx'') (NewLedger 100 []) = Inr l1 \<and> Reserve (sell_first ''euro'') l1 = Inr l2 \<and>
     Reserve (buy_first ''silver'') l2 = Inr l3 \<and>
     gomap_get 0 (lg_drift (Release (buy_first ''silver'') (RecordResidue (buy_first ''silver'')
       (Release (buy_first ''usdx'') (RecordResidue (buy_first ''usdx'') (Release (sell_first ''euro'') l3)))))) ''gold'' = 200"
  by (simp add: Reserve_def Release_def RecordResidue_def first_worstCase over_cap_def NewLedger_def gomap_add_def gomap_get_def abs64_def
      word_sless_alt)

text \<open>
  A first leg that ends unsettled leaves no trace in the journal, whatever state file and resume command its driver
  reported: the record is deleted and nothing is kept as stranded.
\<close>

lemma failed_first_leg_forgotten:
  assumes "\<not> res_Settled r1"
  shows "after_first r1 = [XSetLeg False ''failed'' (res_StateFile r1) (res_Resume r1), XEnd [], XRelease, XFinish False]"
    "jn_disk (journal_End True pair [] (SetLeg True pair False ''failed'' (res_StateFile r1) (res_Resume r1) j)) = JournalFile st \<Longrightarrow>
     \<not> listed pair st \<and> js_Stranded st = js_Stranded (jn_st j) \<and> js_Drift st = js_Drift (jn_st j)"
  using assms by (auto simp: after_first_def journal_ops_disk journal_ops_fields listed_ops)

end
