(* ===== verification/Covfill.thy ===== *)
theory Covfill
  imports Settler "HOL-Library.List_Lexorder" "HOL-Library.Char_ord"
begin

text \<open>
  The taker's covenant fill (\<open>internal/seqob/covfill/covfill.go\<close>): one resting covenant verified on chain, sized,
  funded from the node's wallet, assembled, signed, checked against the mempool and broadcast. The go-elements
  library and the node's replies are parameters; the calls that change the node's state are recorded in order.
\<close>

section \<open>Parameters and results\<close>

definition DefaultDustFold :: u64 where
  "DefaultDustFold = 1000"

record txout_reply =
  tr_Value :: rat
  tr_Asset :: string
  tr_SPKHex :: string

text \<open>
  The replies of the node in the order of the calls; \<open>None\<close> is an RPC error. The wallet side is \<open>node_rpc\<close>, its two
  fresh addresses the receipt's and the change's; \<open>cn_gettxout\<close> is the state before the fill, \<open>cn_stillunspent\<close> after a
  failed broadcast.
\<close>

record cov_node =
  cn_gettxout :: "string \<Rightarrow> u32 \<Rightarrow> txout_reply option option"
  cn_wallet :: node_rpc
  cn_lockunspent :: "bool \<Rightarrow> (string \<times> u32) list \<Rightarrow> bool"
  cn_testmempoolaccept :: "string \<Rightarrow> bool list option"
  cn_sendrawtransaction :: "string \<Rightarrow> string option"
  cn_stillunspent :: "string \<Rightarrow> u32 \<Rightarrow> bool option"
  cn_decoderawtransaction :: "string \<Rightarrow> string option"
  cn_getrawtransaction :: "string \<Rightarrow> bool"

record fill_params =
  pa_Order :: order
  pa_Txid :: string
  pa_Vout :: u32
  pa_TakeAtoms :: u64
  pa_FeeAtoms :: u64
  pa_FeeAssetDisplay :: string
  pa_Node :: "cov_node option"
  pa_DustFoldAtoms :: u64
  pa_AllowMakerCancellable :: bool
  pa_MaxPayB :: u64

record fill_result =
  fr_Txid :: string
  fr_RawHex :: string
  fr_Locked :: u64
  fr_Filled :: u64
  fr_Remainder :: u64
  fr_PaidB :: u64
  fr_Partial :: bool

datatype covfill_error =
    CFNoNode | CFDegenerate | CFBadFeeAsset | CFFeeIsSold | CFZeroFee
  | CFGettxout | CFNotUnspent | CFBlinded | CFOtherAsset | CFBadSpk | CFZeroLocked
  | CFVerify cov_error | CFPlan cov_error | CFAboveCeiling
  | CFListunspent | CFShort string u64 u64 | CFLock
  | CFMakerPayout | CFReceiptSpk | CFChangeSpk | CFAssetHash | CFValue | CFTxid string | CFSerialize
  | CFSign | CFParse | CFNoInputs | CFMempool | CFRejected | CFSend

text \<open>The calls that change the node: coins locked (\<open>False\<close>) or released (\<open>True\<close>), and a broadcast.\<close>

datatype node_call = LockUnspent bool "(string \<times> u32) list" | SendRaw string

definition ShrinkTake :: "u64 \<Rightarrow> u64 \<Rightarrow> u64 \<Rightarrow> u64" where
  "ShrinkTake locked tk minLot =
     (if tk = 0 \<or> locked < tk then locked
      else (let rem = locked - tk in if 0 < rem \<and> rem < minLot then locked - minLot else tk))"

definition displayHex :: "bytes \<Rightarrow> string" where
  "displayHex internal = hex_EncodeToString (rev internal)"

section \<open>Reads\<close>

text \<open>\<open>coinsToAtoms\<close> is the settler's function, repeated.\<close>

definition verifyCovenantUTXO :: "cov_node \<Rightarrow> fill_params \<Rightarrow> string \<Rightarrow> (covfill_error, u64 \<times> bytes) result" where
  "verifyCovenantUTXO n p assetADisplay =
     (case cn_gettxout n (pa_Txid p) (pa_Vout p) of
        None \<Rightarrow> Inl CFGettxout
      | Some None \<Rightarrow> Inl CFNotUnspent
      | Some (Some u) \<Rightarrow>
          (if tr_Asset u = '''' then Inl CFBlinded
           else if \<not> strings_EqualFold (tr_Asset u) assetADisplay then Inl CFOtherAsset
           else case hex_DecodeString (tr_SPKHex u) of
               None \<Rightarrow> Inl CFBadSpk
             | Some spk \<Rightarrow>
                 (let locked = coinsToAtoms (tr_Value u) in if locked = 0 then Inl CFZeroLocked else Inr (locked, spk))))"

definition covfill_freshUnconfSPK :: "node_rpc \<Rightarrow> string option \<Rightarrow> bytes option" where
  "covfill_freshUnconfSPK rpc reply =
     (case reply of
        None \<Rightarrow> None
      | Some addr \<Rightarrow>
          (case rpc_getaddressinfo rpc addr of
             None \<Rightarrow> None
           | Some (unconf, spk) \<Rightarrow>
               (let spkHex =
                      (if unconf \<noteq> '''' \<and> unconf \<noteq> addr then
                         (case rpc_getaddressinfo rpc unconf of Some (_, uspk) \<Rightarrow> if uspk \<noteq> '''' then uspk else spk | None \<Rightarrow> spk)
                       else spk) in
                if spkHex = '''' then None else hex_DecodeString spkHex)))"

definition alreadyLanded :: "cov_node \<Rightarrow> string \<Rightarrow> u32 \<Rightarrow> string \<Rightarrow> string option" where
  "alreadyLanded n covTxid covVout rawHex =
     (if cn_stillunspent n covTxid covVout \<noteq> Some False then None
      else case cn_decoderawtransaction n rawHex of
          None \<Rightarrow> None
        | Some txid \<Rightarrow> if txid = '''' then None else if cn_getrawtransaction n txid then Some txid else None)"

section \<open>Funding\<close>

record fund_utxo =
  fu_txid :: string
  fu_vout :: u32
  fu_atoms :: u64
  fu_asset :: string

record funding =
  fd_inputs :: "fund_utxo list"
  fd_total :: "(string, u64) gomap"

fun pick_smallest :: "u64 \<Rightarrow> fund_utxo list \<Rightarrow> fund_utxo list \<Rightarrow> u64 \<Rightarrow> fund_utxo list \<times> u64" where
  "pick_smallest target [] picked tally = (picked, tally)"
| "pick_smallest target (u # us) picked tally =
     (let picked = picked @ [u]; tally = tally + fu_atoms u in
      if target \<le> tally then (picked, tally) else pick_smallest target us picked tally)"

definition pickCoins :: "fund_utxo list \<Rightarrow> u64 \<Rightarrow> fund_utxo list \<times> u64" where
  "pickCoins cands target =
     (case find (\<lambda>u. target \<le> fu_atoms u) cands of
        Some u \<Rightarrow> ([u], fu_atoms u)
      | None \<Rightarrow> pick_smallest target cands [] 0)"

definition fund_candidates :: "wallet_utxo list \<Rightarrow> string \<Rightarrow> u32 \<Rightarrow> string \<Rightarrow> string \<Rightarrow> fund_utxo list" where
  "fund_candidates raw covTxid covVout assetADisplay asset =
     map (\<lambda>u. \<lparr>fu_txid = wu_Txid u, fu_vout = wu_Vout u, fu_atoms = coinsToAtoms (wu_Amount u), fu_asset = strings_ToLower (wu_Asset u)\<rparr>)
       (filter (\<lambda>u. wu_Spendable u \<and> strings_ToLower (wu_Asset u) \<noteq> assetADisplay \<and>
          \<not> (wu_Txid u = covTxid \<and> wu_Vout u = covVout) \<and> strings_ToLower (wu_Asset u) = asset) raw)"

text \<open>The loop over the needed assets in their order; equal amounts keep the order of the wallet's list.\<close>

fun select_assets :: "(string \<Rightarrow> fund_utxo list) \<Rightarrow> (string, u64) gomap \<Rightarrow> string list \<Rightarrow> funding \<Rightarrow> (covfill_error, funding) result" where
  "select_assets byAsset need [] sel = Inr sel"
| "select_assets byAsset need (asset # assets) sel =
     (let target = gomap_get 0 need asset in
      if target = 0 then select_assets byAsset need assets sel
      else (let (picked, tally) = pickCoins (sort_key fu_atoms (byAsset asset)) target in
        if tally < target then Inl (CFShort asset tally target)
        else select_assets byAsset need assets
          \<lparr>fd_inputs = fd_inputs sel @ picked,
           fd_total = AList.update asset (gomap_get 0 (fd_total sel) asset + tally) (fd_total sel)\<rparr>))"

definition coin_refs :: "fund_utxo list \<Rightarrow> (string \<times> u32) list" where
  "coin_refs coins = map (\<lambda>c. (fu_txid c, fu_vout c)) coins"

text \<open>The calls made and whether they succeeded.\<close>

definition lockCoins :: "cov_node \<Rightarrow> fund_utxo list \<Rightarrow> bool \<Rightarrow> node_call list \<times> bool" where
  "lockCoins n coins unlock =
     (if coins = [] then ([], True) else ([LockUnspent unlock (coin_refs coins)], cn_lockunspent n unlock (coin_refs coins)))"

definition selectFunding ::
  "cov_node \<Rightarrow> (string, u64) gomap \<Rightarrow> string \<Rightarrow> u32 \<Rightarrow> string \<Rightarrow> node_call list \<times> (covfill_error, funding) result" where
  "selectFunding n need covTxid covVout assetADisplay =
     (case rpc_listunspent (cn_wallet n) of
        None \<Rightarrow> ([], Inl CFListunspent)
      | Some raw \<Rightarrow>
          (case select_assets (fund_candidates raw covTxid covVout assetADisplay) need (sort (map fst need)) \<lparr>fd_inputs = [], fd_total = []\<rparr> of
             Inl e \<Rightarrow> ([], Inl e)
           | Inr sel \<Rightarrow>
               (let (calls, ok) = lockCoins n (fd_inputs sel) False in
                if ok then (calls, Inr sel) else (calls, Inl CFLock))))"

text \<open>Change per asset, dust folded into the credit or into the fee: credit, fee, change of B, change of the fee asset.\<close>

definition fold_dust :: "u64 \<Rightarrow> funding \<Rightarrow> string \<Rightarrow> string \<Rightarrow> u64 \<Rightarrow> u64 \<Rightarrow> u64 \<times> u64 \<times> u64 \<times> u64" where
  "fold_dust dust sel assetB feeAsset requiredB feeAtoms =
     (if assetB = feeAsset then
        (let change = gomap_get 0 (fd_total sel) assetB - requiredB - feeAtoms in
         if 0 < change \<and> change < dust then (requiredB, feeAtoms + change, 0, 0) else (requiredB, feeAtoms, change, 0))
      else
        (let changeB = gomap_get 0 (fd_total sel) assetB - requiredB; changeF = gomap_get 0 (fd_total sel) feeAsset - feeAtoms;
             (credit, bChange) = (if 0 < changeB \<and> changeB < dust then (requiredB + changeB, 0) else (requiredB, changeB));
             (fee, feeChange) = (if 0 < changeF \<and> changeF < dust then (feeAtoms + changeF, 0) else (feeAtoms, changeF)) in
         (credit, fee, bChange, feeChange)))"

section \<open>Assembly\<close>

definition covfill_out :: "elements_lib \<Rightarrow> bytes \<Rightarrow> u64 \<Rightarrow> bytes \<Rightarrow> (covfill_error, tx_out) result" where
  "covfill_out lib commit atoms spk =
     (case el_ValueToBytes lib atoms of
        None \<Rightarrow> Inl CFValue | Some v \<Rightarrow> Inr \<lparr>to_Asset = commit, to_Value = v, to_Script = spk\<rparr>)"

definition optional_out :: "elements_lib \<Rightarrow> bytes \<Rightarrow> u64 \<Rightarrow> bytes \<Rightarrow> (covfill_error, tx_out list) result" where
  "optional_out lib commit atoms spk = (if 0 < atoms then rbind (covfill_out lib commit atoms spk) (\<lambda>t. Inr [t]) else Inr [])"

definition txid_input :: "elements_lib \<Rightarrow> string \<Rightarrow> u32 \<Rightarrow> (covfill_error, tx_in) result" where
  "txid_input lib txid vout =
     (case el_TxIDToBytes lib txid of
        None \<Rightarrow> Inl (CFTxid txid) | Some h \<Rightarrow> Inr \<lparr>ti_Hash = h, ti_Index = vout, ti_Witness = []\<rparr>)"

fun coin_inputs :: "elements_lib \<Rightarrow> fund_utxo list \<Rightarrow> (covfill_error, tx_in list) result" where
  "coin_inputs lib [] = Inr []"
| "coin_inputs lib (u # us) =
     rbind (txid_input lib (fu_txid u) (fu_vout u)) (\<lambda>i. rbind (coin_inputs lib us) (\<lambda>is. Inr (i # is)))"

text \<open>The output order: the slot after the credit is the remainder of a partial fill, otherwise an output of another asset.\<close>

definition order_outputs ::
  "bool \<Rightarrow> tx_out \<Rightarrow> tx_out \<Rightarrow> tx_out \<Rightarrow> tx_out \<Rightarrow> tx_out list \<Rightarrow> tx_out list \<Rightarrow> tx_out list" where
  "order_outputs partial credit remOut receipt fee bChange feeChange =
     (if partial then [credit, remOut, receipt] @ bChange @ feeChange @ [fee]
      else case bChange of
          b # _ \<Rightarrow> [credit, b, receipt] @ feeChange @ [fee]
        | [] \<Rightarrow> (case feeChange of f # _ \<Rightarrow> [credit, f, receipt, fee] | [] \<Rightarrow> [credit, fee, receipt]))"

definition assembleFill ::
  "elements_lib \<Rightarrow> (string \<Rightarrow> bytes option) \<Rightarrow> cov_node \<Rightarrow> fill_params \<Rightarrow> fill_plan \<Rightarrow> funding \<Rightarrow>
   u64 \<Rightarrow> u64 \<Rightarrow> u64 \<Rightarrow> u64 \<Rightarrow> string \<Rightarrow> string \<Rightarrow> string \<Rightarrow> (covfill_error, string) result" where
  "assembleFill lib assetHashToBytes n p plan sel creditValue feeValue bChange feeChange assetADisplay assetBDisplay feeDisplay =
     (if length (MakerProg (pa_Order p)) \<noteq> 32 \<or> MakerVer (pa_Order p) \<noteq> 1 then Inl CFMakerPayout
      else
        rbind (case covfill_freshUnconfSPK (cn_wallet n) (rpc_gapaddress (cn_wallet n)) of None \<Rightarrow> Inl CFReceiptSpk | Some s \<Rightarrow> Inr s) (\<lambda>receiptSPK.
        rbind (if 0 < bChange \<or> 0 < feeChange then
                 (case covfill_freshUnconfSPK (cn_wallet n) (rpc_changeaddress (cn_wallet n)) of None \<Rightarrow> Inl CFChangeSpk | Some s \<Rightarrow> Inr s)
               else Inr []) (\<lambda>changeSPK.
        case (assetHashToBytes assetADisplay, assetHashToBytes assetBDisplay, assetHashToBytes feeDisplay) of
          (Some commitA, Some commitB, Some commitFee) \<Rightarrow>
            rbind (covfill_out lib commitB creditValue ([0x51, 0x20] @ MakerProg (pa_Order p))) (\<lambda>creditOut.
            rbind (covfill_out lib commitA (fp_Filled plan) receiptSPK) (\<lambda>receiptOut.
            rbind (covfill_out lib commitFee feeValue []) (\<lambda>feeOut.
            rbind (optional_out lib commitB bChange changeSPK) (\<lambda>bOut.
            rbind (optional_out lib commitFee feeChange changeSPK) (\<lambda>fOut.
            rbind (if fp_Partial plan then covfill_out lib commitA (fp_Remainder plan) (fp_OrderSPK plan) else Inr feeOut) (\<lambda>remOut.
            rbind (txid_input lib (pa_Txid p) (pa_Vout p)) (\<lambda>covIn.
            rbind (coin_inputs lib (fd_inputs sel)) (\<lambda>ins.
            (case el_ToHex lib \<lparr>tx_Version = 2, tx_Inputs = covIn # ins,
                     tx_Outputs = order_outputs (fp_Partial plan) creditOut remOut receiptOut feeOut bOut fOut\<rparr> of
               None \<Rightarrow> Inl CFSerialize | Some h \<Rightarrow> Inr h)))))))))
        | _ \<Rightarrow> Inl CFAssetHash)))"

section \<open>The fill\<close>

text \<open>Checks before anything is spent: the locked amount and the plan.\<close>

definition prepare_fill :: "crypto \<Rightarrow> cov_node \<Rightarrow> fill_params \<Rightarrow> (covfill_error, u64 \<times> fill_plan) result" where
  "prepare_fill cr n p =
     (let ord = pa_Order p; assetA = displayHex (AssetA ord); fee = strings_ToLower (pa_FeeAssetDisplay p) in
      if AssetA ord = AssetB ord then Inl CFDegenerate
      else if (case hex_DecodeString fee of None \<Rightarrow> True | Some b \<Rightarrow> length b \<noteq> 32) then Inl CFBadFeeAsset
      else if fee = assetA then Inl CFFeeIsSold
      else if pa_FeeAtoms p = 0 then Inl CFZeroFee
      else rbind (verifyCovenantUTXO n p assetA) (\<lambda>(locked, spk).
        case VerifyAgainstSPK cr ord spk (pa_AllowMakerCancellable p) of
          Inl e \<Rightarrow> Inl (CFVerify e)
        | Inr _ \<Rightarrow>
            (case PlanFill cr ord locked (ShrinkTake locked (pa_TakeAtoms p) (MinLot ord)) 0 of
               Inl e \<Rightarrow> Inl (CFPlan e)
             | Inr plan \<Rightarrow>
                 if 0 < pa_MaxPayB p \<and> pa_MaxPayB p < fp_RequiredB plan then Inl CFAboveCeiling else Inr (locked, plan))))"

text \<open>Signing by the wallet, then the covenant's witness goes into input 0.\<close>

definition sign_fill :: "elements_lib \<Rightarrow> cov_node \<Rightarrow> fill_plan \<Rightarrow> string \<Rightarrow> (covfill_error, string) result" where
  "sign_fill lib n plan rawHex =
     (case rpc_signraw (cn_wallet n) rawHex of
        None \<Rightarrow> Inl CFSign
      | Some signedHex \<Rightarrow>
          if signedHex = '''' then Inl CFSign
          else case el_NewTxFromHex lib signedHex of
              None \<Rightarrow> Inl CFParse
            | Some ftx \<Rightarrow>
                (case tx_Inputs ftx of
                   [] \<Rightarrow> Inl CFNoInputs
                 | i # ins \<Rightarrow>
                     (case el_ToHex lib (ftx\<lparr>tx_Inputs := i\<lparr>ti_Witness := fp_Witness plan\<rparr> # ins\<rparr>) of
                        None \<Rightarrow> Inl CFSerialize | Some h \<Rightarrow> Inr h)))"

text \<open>The mempool gate and the broadcast; a lost reply is looked up. The transaction id is the result.\<close>

definition gate_and_send :: "cov_node \<Rightarrow> fill_params \<Rightarrow> string \<Rightarrow> node_call list \<times> (covfill_error, string) result" where
  "gate_and_send n p finalHex =
     (case cn_testmempoolaccept n finalHex of
        None \<Rightarrow> ([], Inl CFMempool)
      | Some accept \<Rightarrow>
          if accept = [] \<or> \<not> hd accept then ([], Inl CFRejected)
          else
            ([SendRaw finalHex],
             case cn_sendrawtransaction n finalHex of
               Some txid \<Rightarrow> Inr txid
             | None \<Rightarrow> (case alreadyLanded n (pa_Txid p) (pa_Vout p) finalHex of Some txid \<Rightarrow> Inr txid | None \<Rightarrow> Inl CFSend)))"

text \<open>The needs by asset: the maker's credit plus the fee, in one entry when both are of one asset.\<close>

definition fill_need :: "fill_params \<Rightarrow> fill_plan \<Rightarrow> (string, u64) gomap" where
  "fill_need p plan =
     (let assetB = displayHex (AssetB (pa_Order p)); feeAsset = strings_ToLower (pa_FeeAssetDisplay p);
          need = AList.update assetB (fp_RequiredB plan) [] in
      AList.update feeAsset (gomap_get 0 need feeAsset + pa_FeeAtoms p) need)"

definition fill_dust :: "fill_params \<Rightarrow> u64" where
  "fill_dust p = (if pa_DustFoldAtoms p = 0 then DefaultDustFold else pa_DustFoldAtoms p)"

definition FillCovenant ::
  "crypto \<Rightarrow> elements_lib \<Rightarrow> (string \<Rightarrow> bytes option) \<Rightarrow> fill_params \<Rightarrow> node_call list \<times> (covfill_error, fill_result) result" where
  "FillCovenant cr lib assetHashToBytes p =
     (case pa_Node p of
        None \<Rightarrow> ([], Inl CFNoNode)
      | Some n \<Rightarrow>
          (case prepare_fill cr n p of
             Inl e \<Rightarrow> ([], Inl e)
           | Inr (locked, plan) \<Rightarrow>
               (let assetA = displayHex (AssetA (pa_Order p)); assetB = displayHex (AssetB (pa_Order p));
                    feeAsset = strings_ToLower (pa_FeeAssetDisplay p) in
                case selectFunding n (fill_need p plan) (pa_Txid p) (pa_Vout p) assetA of
                  (calls, Inl e) \<Rightarrow> (calls, Inl e)
                | (calls, Inr sel) \<Rightarrow>
                    (let (creditValue, feeValue, bChange, feeChange) = fold_dust (fill_dust p) sel assetB feeAsset (fp_RequiredB plan) (pa_FeeAtoms p);
                         release = fst (lockCoins n (fd_inputs sel) True) in
                     case rbind (assembleFill lib assetHashToBytes n p plan sel creditValue feeValue bChange feeChange assetA assetB feeAsset)
                            (sign_fill lib n plan) of
                       Inl e \<Rightarrow> (calls @ release, Inl e)
                     | Inr finalHex \<Rightarrow>
                         (case gate_and_send n p finalHex of
                            (sent, Inl e) \<Rightarrow> (calls @ sent @ release, Inl e)
                          | (sent, Inr txid) \<Rightarrow>
                              (calls @ sent,
                               Inr \<lparr>fr_Txid = txid, fr_RawHex = finalHex, fr_Locked = locked, fr_Filled = fp_Filled plan,
                                    fr_Remainder = fp_Remainder plan, fr_PaidB = creditValue, fr_Partial = fp_Partial plan\<rparr>))))))"

end
