(* ===== verification/Covfill_Properties.thy ===== *)
theory Covfill_Properties
  imports Covfill Settler_Properties
begin

text \<open>
  Properties of the taker's covenant fill: what a broadcast fill pays and spends, that it balances in every asset, and
  which calls reach the node on success and on every failure.
\<close>

section \<open>Asset identifiers\<close>

text \<open>\<open>elementsutil.AssetHashToBytes\<close> on a 32-byte display hash: the explicit prefix, then the bytes reversed.\<close>

definition asset_law :: "(string \<Rightarrow> bytes option) \<Rightarrow> bool" where
  "asset_law ahb \<longleftrightarrow> (\<forall>s b. hex_DecodeString s = Some b \<and> length b = 32 \<longrightarrow> ahb s = Some (1 # rev b))"

lemma hex_digit_from: "from_hex_char c = Some n \<Longrightarrow> n < 16 \<and> hex_digit n = char_lower c"
proof -
  assume c: "from_hex_char c = Some n"
  have "c = char_of (of_char c :: nat)" by simp
  then show ?thesis using c
    by (auto simp: from_hex_char_def hex_digit_def char_lower_def Let_def split: if_splits)
qed

lemma hex_byte: "hi < 16 \<Longrightarrow> lo < 16 \<Longrightarrow> unat (of_nat (16 * hi + lo) :: byte) = 16 * hi + lo"
  by (simp add: unsigned_of_nat take_bit_eq_mod del: of_nat_add of_nat_mult)

lemma hex_Encode_Decode: "hex_DecodeString s = Some b \<Longrightarrow> hex_EncodeToString b = strings_ToLower s"
proof (induction s arbitrary: b rule: hex_DecodeString.induct)
  case (3 c d cs)
  then obtain hi lo b' where h: "from_hex_char c = Some hi" "from_hex_char d = Some lo" "hex_DecodeString cs = Some b'"
      "b = of_nat (16 * hi + lo) # b'"
    by (auto split: option.splits)
  note digits = hex_digit_from [OF h(1)] hex_digit_from [OF h(2)]
  show ?case
    using "3.IH" [OF refl h(1,2,3)] h digits hex_byte [of hi lo] by (simp add: strings_ToLower_def del: of_nat_add of_nat_mult of_nat_numeral)
qed (simp_all add: strings_ToLower_def)

lemma displayHex_inject: "displayHex a = displayHex b \<longleftrightarrow> a = b"
  by (simp add: displayHex_def hex_EncodeToString_inject)

lemma asset_law_display: "asset_law ahb \<Longrightarrow> length a = 32 \<Longrightarrow> ahb (displayHex a) = Some (1 # a)"
  using hex_Decode_Encode [of "rev a"] unfolding asset_law_def displayHex_def by (metis length_rev rev_rev_ident)

text \<open>The fee asset's bytes, of which the lower-case text is the display form.\<close>

lemma fee_asset_bytes:
  assumes "hex_DecodeString (strings_ToLower s) = Some b"
  shows "strings_ToLower s = displayHex (rev b)"
  using hex_Encode_Decode [of s b] assms by (simp add: hex_DecodeString_lower displayHex_def)

section \<open>Assembly\<close>

lemma covfill_out_law: "value_law lib \<Longrightarrow> covfill_out lib (1 # a) v spk = Inr (explicit_out a v spk)"
  by (simp add: covfill_out_def value_law_def explicit_out_def)

lemma optional_out_law:
  "value_law lib \<Longrightarrow> optional_out lib (1 # a) v spk = Inr (if 0 < v then [explicit_out a v spk] else [])"
  by (simp add: optional_out_def covfill_out_law)

definition spends :: "elements_lib \<Rightarrow> string \<Rightarrow> u32 \<Rightarrow> tx_in \<Rightarrow> bool" where
  "spends lib txid vout i \<longleftrightarrow> el_TxIDToBytes lib txid = Some (ti_Hash i) \<and> ti_Index i = vout"

lemma txid_input_Inr: "txid_input lib txid vout = Inr i \<Longrightarrow> spends lib txid vout i"
  by (auto simp: txid_input_def spends_def split: option.splits)

lemma coin_inputs_Inr: "coin_inputs lib us = Inr ins \<Longrightarrow> list_all2 (\<lambda>u. spends lib (fu_txid u) (fu_vout u)) us ins"
  by (induction us arbitrary: ins) (auto dest!: txid_input_Inr)

lemma assembleFill_Inr:
  assumes "assembleFill lib ahb n p plan sel credit fee bch fch (displayHex a) (displayHex b) (displayHex f) = Inr raw"
    "value_law lib" "asset_law ahb" "length a = 32" "length b = 32" "length f = 32"
  shows "\<exists>rcv chg rm i ins. spends lib (pa_Txid p) (pa_Vout p) i \<and>
    list_all2 (\<lambda>u. spends lib (fu_txid u) (fu_vout u)) (fd_inputs sel) ins \<and>
    (fp_Partial plan \<longrightarrow> rm = explicit_out a (fp_Remainder plan) (fp_OrderSPK plan)) \<and>
    el_ToHex lib \<lparr>tx_Version = 2, tx_Inputs = i # ins,
      tx_Outputs = order_outputs (fp_Partial plan) (explicit_out b credit ([0x51, 0x20] @ MakerProg (pa_Order p))) rm
        (explicit_out a (fp_Filled plan) rcv) (explicit_out f fee [])
        (if 0 < bch then [explicit_out b bch chg] else []) (if 0 < fch then [explicit_out f fch chg] else [])\<rparr> = Some raw"
  using assms(1)
  by (simp add: assembleFill_def asset_law_display [OF assms(3)] assms(4-6) covfill_out_law [OF assms(2)]
      optional_out_law [OF assms(2)] rbind_eq_Inr split: if_split_asm option.split_asm)
    (blast dest: txid_input_Inr coin_inputs_Inr)+

lemma sign_fill_Inr:
  assumes "sign_fill lib n plan raw = Inr h" "codec_law lib" "sign_law lib (cn_wallet n)" "el_ToHex lib t = Some raw"
    "tx_Inputs t = i # ins"
  shows "\<exists>t' i' ins'. el_NewTxFromHex lib h = Some t' \<and> tx_Outputs t' = tx_Outputs t \<and> tx_Inputs t' = i' # ins' \<and>
    outpoint i' = outpoint i \<and> map outpoint ins' = map outpoint ins \<and> ti_Witness i' = fp_Witness plan"
proof -
  have "el_NewTxFromHex lib raw = Some t" using assms(2,4) by (simp add: codec_law_def)
  moreover from assms(1) obtain s t1 j js where sg: "rpc_signraw (cn_wallet n) raw = Some s" "s \<noteq> ''''" "el_NewTxFromHex lib s = Some t1"
      "tx_Inputs t1 = j # js" "el_ToHex lib (t1\<lparr>tx_Inputs := j\<lparr>ti_Witness := fp_Witness plan\<rparr> # js\<rparr>) = Some h"
    by (auto simp: sign_fill_def split: option.splits if_splits list.splits)
  ultimately have "tx_Outputs t1 = tx_Outputs t" "map outpoint (tx_Inputs t1) = map outpoint (tx_Inputs t)"
    using assms(3) by (fastforce simp: sign_law_def)+
  then show ?thesis using assms(2,5) sg(4,5)
    by (intro exI [of _ "t1\<lparr>tx_Inputs := j\<lparr>ti_Witness := fp_Witness plan\<rparr> # js\<rparr>"]) (auto simp: codec_law_def outpoint_def)
qed

lemma spends_outpoint: "outpoint i = outpoint j \<Longrightarrow> spends lib txid vout i \<longleftrightarrow> spends lib txid vout j"
  by (simp add: outpoint_def spends_def)

lemma all_spend_outpoints:
  assumes "map outpoint ins' = map outpoint ins" "list_all2 (\<lambda>u. spends lib (fu_txid u) (fu_vout u)) us ins"
  shows "list_all2 (\<lambda>u. spends lib (fu_txid u) (fu_vout u)) us ins'"
proof (rule list_all2_all_nthI)
  show len: "length us = length ins'" using assms by (metis length_map list_all2_lengthD)
  show "spends lib (fu_txid (us ! k)) (fu_vout (us ! k)) (ins' ! k)" if "k < length us" for k
  proof -
    have "outpoint (ins' ! k) = outpoint (ins ! k)" using assms(1) that len by (metis length_map nth_map)
    then show ?thesis using list_all2_nthD [OF assms(2) that] spends_outpoint by blast
  qed
qed

section \<open>The outputs\<close>

lemma order_outputs_slots:
  "2 \<le> length (order_outputs partial c r rcv f bs fs)"
  "order_outputs partial c r rcv f bs fs ! 0 = c"
  "order_outputs True c r rcv f bs fs ! Suc 0 = r"
  "order_outputs False c r rcv f bs fs ! Suc 0 = (case bs of b # _ \<Rightarrow> b | [] \<Rightarrow> (case fs of x # _ \<Rightarrow> x | [] \<Rightarrow> f))"
  by (auto simp: order_outputs_def split: list.split)

lemma order_outputs_receipt: "rcv \<in> set (order_outputs partial c r rcv f bs fs)"
  by (auto simp: order_outputs_def split: list.split)

lemma order_outputs_fee: "f \<in> set (order_outputs partial c r rcv f bs fs)"
  by (auto simp: order_outputs_def split: list.split)

lemma fold_dust_credit:
  assumes "fold_dust dust sel b f required fee = (credit, feev, bch, fch)"
    "b \<noteq> f \<Longrightarrow> required \<le> gomap_get 0 (fd_total sel) b"
  shows "required \<le> credit" "credit = required \<or> credit - required < dust"
  using assms by (auto simp: fold_dust_def Let_def split: if_splits)

section \<open>The checks before the fill\<close>

lemma prepare_fill_Inr:
  assumes "prepare_fill cr n p = Inr (locked, plan)"
  shows "AssetA (pa_Order p) \<noteq> AssetB (pa_Order p)"
    "\<exists>b. hex_DecodeString (strings_ToLower (pa_FeeAssetDisplay p)) = Some b \<and> length b = 32"
    "strings_ToLower (pa_FeeAssetDisplay p) \<noteq> displayHex (AssetA (pa_Order p))" "pa_FeeAtoms p \<noteq> 0"
    "\<exists>u. cn_gettxout n (pa_Txid p) (pa_Vout p) = Some (Some u) \<and> strings_EqualFold (tr_Asset u) (displayHex (AssetA (pa_Order p))) \<and>
       locked = coinsToAtoms (tr_Value u) \<and> locked \<noteq> 0 \<and> hex_DecodeString (tr_SPKHex u) = Some (fp_OrderSPK plan)"
    "PlanFill cr (pa_Order p) locked (ShrinkTake locked (pa_TakeAtoms p) (MinLot (pa_Order p))) 0 = Inr plan"
    "pa_AllowMakerCancellable p \<or> InternalKey (pa_Order p) = NUMS"
    "pa_MaxPayB p = 0 \<or> fp_RequiredB plan \<le> pa_MaxPayB p"
proof -
  from assms obtain spk where p: "AssetA (pa_Order p) \<noteq> AssetB (pa_Order p)"
    "\<exists>b. hex_DecodeString (strings_ToLower (pa_FeeAssetDisplay p)) = Some b \<and> length b = 32"
    "strings_ToLower (pa_FeeAssetDisplay p) \<noteq> displayHex (AssetA (pa_Order p))" "pa_FeeAtoms p \<noteq> 0"
    "verifyCovenantUTXO n p (displayHex (AssetA (pa_Order p))) = Inr (locked, spk)"
    "\<exists>tt. VerifyAgainstSPK cr (pa_Order p) spk (pa_AllowMakerCancellable p) = Inr tt"
    "PlanFill cr (pa_Order p) locked (ShrinkTake locked (pa_TakeAtoms p) (MinLot (pa_Order p))) 0 = Inr plan"
    "pa_MaxPayB p = 0 \<or> fp_RequiredB plan \<le> pa_MaxPayB p"
    by (auto simp: prepare_fill_def Let_def not_less word_gt_0 split: if_splits option.splits sum.splits)
  from p(6,7) have spk: "fp_OrderSPK plan = spk" by (auto simp: VerifyAgainstSPK_def PlanFill_Inr split: if_splits)
  show "AssetA (pa_Order p) \<noteq> AssetB (pa_Order p)"
    "\<exists>b. hex_DecodeString (strings_ToLower (pa_FeeAssetDisplay p)) = Some b \<and> length b = 32"
    "strings_ToLower (pa_FeeAssetDisplay p) \<noteq> displayHex (AssetA (pa_Order p))" "pa_FeeAtoms p \<noteq> 0"
    "PlanFill cr (pa_Order p) locked (ShrinkTake locked (pa_TakeAtoms p) (MinLot (pa_Order p))) 0 = Inr plan"
    "pa_MaxPayB p = 0 \<or> fp_RequiredB plan \<le> pa_MaxPayB p"
    by (fact p)+
  show "\<exists>u. cn_gettxout n (pa_Txid p) (pa_Vout p) = Some (Some u) \<and> strings_EqualFold (tr_Asset u) (displayHex (AssetA (pa_Order p))) \<and>
       locked = coinsToAtoms (tr_Value u) \<and> locked \<noteq> 0 \<and> hex_DecodeString (tr_SPKHex u) = Some (fp_OrderSPK plan)"
    using p(5) spk by (auto simp: verifyCovenantUTXO_def Let_def split: option.splits if_splits)
  show "pa_AllowMakerCancellable p \<or> InternalKey (pa_Order p) = NUMS"
    using p(6) by (auto simp: VerifyAgainstSPK_def split: if_splits)
qed

section \<open>Coin selection\<close>

text \<open>The single cover or the accumulation is the settler's selection.\<close>

definition as_btc :: "fund_utxo \<Rightarrow> btcUTXO" where
  "as_btc u = \<lparr>bu_txid = fu_txid u, bu_vout = fu_vout u, bu_atoms = fu_atoms u\<rparr>"

lemma as_btc_atoms [simp]: "bu_atoms (as_btc u) = fu_atoms u"
  by (simp add: as_btc_def)

lemma pick_smallest_settler:
  assumes "tally < target"
  shows "accumulate target (map as_btc us) (map as_btc picked) tally =
    (case pick_smallest target us picked tally of (ps, s) \<Rightarrow> if target \<le> s then Some (map as_btc ps, s) else None)"
  using assms
proof (induction us arbitrary: picked tally)
  case (Cons u us)
  show ?case
  proof (cases "target \<le> tally + fu_atoms u")
    case False
    then have "tally + fu_atoms u < target" by simp
    from Cons.IH [OF this, of "picked @ [u]"] False show ?thesis by (simp add: Let_def)
  qed (simp add: Let_def)
qed simp

definition coin_value :: "fund_utxo list \<Rightarrow> nat" where
  "coin_value us = sum_list (map (\<lambda>u. unat (fu_atoms u)) us)"

lemma coin_value_btc: "atoms_of (map as_btc us) = coin_value us"
  by (simp add: atoms_of_def coin_value_def comp_def)

lemma coin_value_simps [simp]:
  "coin_value [] = 0" "coin_value (u # us) = unat (fu_atoms u) + coin_value us" "coin_value (us @ vs) = coin_value us + coin_value vs"
  by (simp_all add: coin_value_def)

text \<open>The picked coins are candidates and the amount returned is their sum.\<close>

definition coin_sum :: "fund_utxo list \<Rightarrow> u64" where
  "coin_sum us = sum_list (map fu_atoms us)"

lemma coin_sum_simps [simp]:
  "coin_sum [] = 0" "coin_sum (u # us) = fu_atoms u + coin_sum us" "coin_sum (us @ vs) = coin_sum us + coin_sum vs"
  by (simp_all add: coin_sum_def)

lemma coin_sum_value: "coin_value us < 2 ^ 64 \<Longrightarrow> unat (coin_sum us) = coin_value us"
  by (induction us) (auto simp: u64_unat_add)

lemma pick_smallest_prefix:
  "pick_smallest target us picked tally = (ps, s) \<Longrightarrow> \<exists>vs ws. us = vs @ ws \<and> ps = picked @ vs \<and> s = tally + coin_sum vs"
proof (induction us arbitrary: picked tally)
  case (Cons u us)
  show ?case
  proof (cases "target \<le> tally + fu_atoms u")
    case True
    with Cons.prems show ?thesis by (intro exI [of _ "[u]"] exI [of _ us]) (simp add: Let_def)
  next
    case False
    with Cons.prems Cons.IH [of "picked @ [u]" "tally + fu_atoms u"] obtain vs ws where
      "us = vs @ ws" "ps = (picked @ [u]) @ vs" "s = (tally + fu_atoms u) + coin_sum vs" by (auto simp: Let_def)
    then show ?thesis by (intro exI [of _ "u # vs"] exI [of _ ws]) (simp add: add.assoc)
  qed
qed simp

lemma pickCoins_ok:
  assumes "pickCoins cands target = (ps, s)"
  shows "mset ps \<subseteq># mset cands" "s = coin_sum ps"
proof -
  have "mset ps \<subseteq># mset cands \<and> s = coin_sum ps"
  proof (cases "find (\<lambda>u. target \<le> fu_atoms u) cands")
    case None
    with assms pick_smallest_prefix [of target cands "[]" 0 ps s] show ?thesis by (auto simp: pickCoins_def)
  next
    case (Some u)
    with assms have "ps = [u]" "s = fu_atoms u" by (auto simp: pickCoins_def)
    with mset_pick [OF Some] show ?thesis by simp
  qed
  then show "mset ps \<subseteq># mset cands" "s = coin_sum ps" by simp_all
qed

definition picks :: "(string \<Rightarrow> fund_utxo list) \<Rightarrow> (string, u64) gomap \<Rightarrow> string \<Rightarrow> fund_utxo list" where
  "picks byAsset need a =
     (if gomap_get 0 need a = 0 then [] else fst (pickCoins (sort_key fu_atoms (byAsset a)) (gomap_get 0 need a)))"

lemma picks_subset: "mset (picks byAsset need a) \<subseteq># mset (byAsset a)"
  using pickCoins_ok(1) [of "sort_key fu_atoms (byAsset a)" "gomap_get 0 need a"]
  by (simp add: picks_def) (metis mset_sort prod.collapse)

lemma select_assets_Inr:
  assumes "select_assets byAsset need assets sel = Inr sel'" "distinct assets"
  shows "fd_inputs sel' = fd_inputs sel @ concat (map (picks byAsset need) assets)"
    "gomap_get 0 (fd_total sel') a = gomap_get 0 (fd_total sel) a + (if a \<in> set assets then coin_sum (picks byAsset need a) else 0)"
    "a \<in> set assets \<Longrightarrow> gomap_get 0 need a \<le> coin_sum (picks byAsset need a)"
  using assms
proof (induction assets arbitrary: sel)
  case (Cons b assets)
  {
    case 1
    with Cons.IH(1) show ?case by (auto simp: picks_def Let_def split: if_splits prod.splits)
  next
    case 2
    with Cons.IH(2) show ?case
      by (auto simp: picks_def Let_def gomap_simps dest: pickCoins_ok(2) split: if_splits prod.splits)
  next
    case 3
    with Cons.IH(3) show ?case
      by (auto simp: picks_def Let_def not_less dest: pickCoins_ok(2) split: if_splits prod.splits)
  }
qed simp_all

lemma filter_concat_own:
  assumes "\<And>a u. u \<in> set (g a) \<Longrightarrow> key u = a" "distinct as"
  shows "filter (\<lambda>u. key u = a) (concat (map g as)) = (if a \<in> set as then g a else [])"
  using assms(2)
proof (induction as)
  case (Cons b bs)
  have "filter (\<lambda>u. key u = a) (g b) = (if a = b then g b else [])"
    using assms(1) by (auto simp: filter_id_conv filter_empty_conv)
  with Cons show ?case by auto
qed simp

definition coins_of :: "funding \<Rightarrow> string \<Rightarrow> fund_utxo list" where
  "coins_of sel a = filter (\<lambda>u. fu_asset u = a) (fd_inputs sel)"

lemma selectFunding_Inr:
  assumes "selectFunding n need txid vout assetA = (calls, Inr sel)" "gomap_ok need"
  shows "calls = fst (lockCoins n (fd_inputs sel) False)" "snd (lockCoins n (fd_inputs sel) False)"
    "\<exists>raw. rpc_listunspent (cn_wallet n) = Some raw \<and>
       (\<forall>a. mset (coins_of sel a) \<subseteq># mset (fund_candidates raw txid vout assetA a))"
    "gomap_get 0 (fd_total sel) a = coin_sum (coins_of sel a)" "gomap_get 0 need a \<le> coin_sum (coins_of sel a)"
    "u \<in> set (fd_inputs sel) \<Longrightarrow> fu_asset u \<in> fst ` set need \<and> fu_asset u \<noteq> assetA"
proof -
  from assms(1) obtain raw where raw: "rpc_listunspent (cn_wallet n) = Some raw"
    and sel: "select_assets (fund_candidates raw txid vout assetA) need (sort (map fst need)) \<lparr>fd_inputs = [], fd_total = []\<rparr> = Inr sel"
    and lk: "calls = fst (lockCoins n (fd_inputs sel) False)" "snd (lockCoins n (fd_inputs sel) False)"
    by (auto simp: selectFunding_def split: option.splits sum.splits prod.splits if_splits)
  let ?by = "fund_candidates raw txid vout assetA"
  have d: "distinct (sort (map fst need))" using assms(2) by (simp add: gomap_ok_def)
  note sa = select_assets_Inr [OF sel d]
  have own: "u \<in> set (picks ?by need a) \<Longrightarrow> fu_asset u = a \<and> a \<noteq> assetA" for a u
    using set_mset_mono [OF picks_subset [of ?by need a]] by (auto simp: fund_candidates_def)
  have coins: "coins_of sel a = (if a \<in> fst ` set need then picks ?by need a else [])" for a
    using filter_concat_own [of "picks ?by need" fu_asset, OF _ d] own sa(1) by (simp add: coins_of_def)
  have none: "gomap_get 0 need a = 0" if "a \<notin> fst ` set need" for a
    using that by (simp add: gomap_get_def map_of_eq_None_iff [symmetric])
  show "calls = fst (lockCoins n (fd_inputs sel) False)" "snd (lockCoins n (fd_inputs sel) False)" by (fact lk)+
  show "\<exists>raw. rpc_listunspent (cn_wallet n) = Some raw \<and> (\<forall>a. mset (coins_of sel a) \<subseteq># mset (fund_candidates raw txid vout assetA a))"
    using raw picks_subset coins by simp
  show "gomap_get 0 (fd_total sel) a = coin_sum (coins_of sel a)" using sa(2) [of a] by (simp add: coins gomap_get_def)
  show "gomap_get 0 need a \<le> coin_sum (coins_of sel a)" using sa(3) [of a] none [of a] by (simp add: coins)
  show "u \<in> set (fd_inputs sel) \<Longrightarrow> fu_asset u \<in> fst ` set need \<and> fu_asset u \<noteq> assetA"
    using sa(1) own by fastforce
qed

lemma coin_value_mono: "mset us \<subseteq># mset vs \<Longrightarrow> coin_value us \<le> coin_value vs"
  unfolding coin_value_def
  by (metis (no_types, lifting) image_mset_subseteq_mono mset_map subset_mset.le_iff_add sum_mset_sum_list sum_mset.union le_add1)

lemma candidates_value: "coin_value (fund_candidates raw txid vout a b) \<le> sum_list (map (\<lambda>u. unat (coinsToAtoms (wu_Amount u))) raw)"
  by (induction raw) (auto simp: fund_candidates_def)

lemma coins_bound:
  assumes "mset us \<subseteq># mset (fund_candidates raw txid vout a b)" "sum_list (map (\<lambda>u. unat (coinsToAtoms (wu_Amount u))) raw) < 2 ^ 64"
  shows "coin_value us < 2 ^ 64"
  using coin_value_mono [OF assms(1)] candidates_value [of raw txid vout a b] assms(2) by linarith

section \<open>The broadcast transaction\<close>

lemma FillCovenant_Inr:
  assumes "FillCovenant cr lib ahb p = (calls, Inr r)" "pa_Node p = Some n"
  shows "\<exists>plan sel lk fee bch fch raw. prepare_fill cr n p = Inr (fr_Locked r, plan) \<and>
    selectFunding n (fill_need p plan) (pa_Txid p) (pa_Vout p) (displayHex (AssetA (pa_Order p))) = (lk, Inr sel) \<and>
    fold_dust (fill_dust p) sel (displayHex (AssetB (pa_Order p))) (strings_ToLower (pa_FeeAssetDisplay p)) (fp_RequiredB plan)
      (pa_FeeAtoms p) = (fr_PaidB r, fee, bch, fch) \<and>
    assembleFill lib ahb n p plan sel (fr_PaidB r) fee bch fch (displayHex (AssetA (pa_Order p))) (displayHex (AssetB (pa_Order p)))
      (strings_ToLower (pa_FeeAssetDisplay p)) = Inr raw \<and>
    sign_fill lib n plan raw = Inr (fr_RawHex r) \<and> gate_and_send n p (fr_RawHex r) = ([SendRaw (fr_RawHex r)], Inr (fr_Txid r)) \<and>
    calls = lk @ [SendRaw (fr_RawHex r)] \<and> fr_Filled r = fp_Filled plan \<and> fr_Remainder r = fp_Remainder plan \<and>
    fr_Partial r = fp_Partial plan"
proof -
  from assms obtain locked plan where prep: "prepare_fill cr n p = Inr (locked, plan)"
    by (auto simp: FillCovenant_def split: sum.splits)
  with assms obtain sel lk where sel:
    "selectFunding n (fill_need p plan) (pa_Txid p) (pa_Vout p) (displayHex (AssetA (pa_Order p))) = (lk, Inr sel)"
    by (auto simp: FillCovenant_def Let_def split: sum.splits prod.splits)
  obtain credit fee bch fch where fold: "fold_dust (fill_dust p) sel (displayHex (AssetB (pa_Order p)))
      (strings_ToLower (pa_FeeAssetDisplay p)) (fp_RequiredB plan) (pa_FeeAtoms p) = (credit, fee, bch, fch)"
    by (metis prod.exhaust)
  from assms prep sel fold obtain raw h where raw: "assembleFill lib ahb n p plan sel credit fee bch fch (displayHex (AssetA (pa_Order p)))
      (displayHex (AssetB (pa_Order p))) (strings_ToLower (pa_FeeAssetDisplay p)) = Inr raw" "sign_fill lib n plan raw = Inr h"
    by (auto simp: FillCovenant_def Let_def split: sum.splits prod.splits)
  with assms prep sel fold obtain sent txid where sent: "gate_and_send n p h = (sent, Inr txid)" "calls = lk @ sent"
      "r = \<lparr>fr_Txid = txid, fr_RawHex = h, fr_Locked = locked, fr_Filled = fp_Filled plan, fr_Remainder = fp_Remainder plan,
         fr_PaidB = credit, fr_Partial = fp_Partial plan\<rparr>"
    by (auto simp: FillCovenant_def Let_def split: sum.splits prod.splits)
  then have "sent = [SendRaw h]" by (auto simp: gate_and_send_def split: option.splits if_splits)
  with prep sel fold raw sent show ?thesis by auto
qed

lemma fill_need_props:
  "gomap_ok (fill_need p plan)"
  "fst ` set (fill_need p plan) = {displayHex (AssetB (pa_Order p)), strings_ToLower (pa_FeeAssetDisplay p)}"
  "gomap_get 0 (fill_need p plan) (strings_ToLower (pa_FeeAssetDisplay p)) =
     (if strings_ToLower (pa_FeeAssetDisplay p) = displayHex (AssetB (pa_Order p)) then fp_RequiredB plan else 0) + pa_FeeAtoms p"
  "strings_ToLower (pa_FeeAssetDisplay p) \<noteq> displayHex (AssetB (pa_Order p)) \<Longrightarrow>
     gomap_get 0 (fill_need p plan) (displayHex (AssetB (pa_Order p))) = fp_RequiredB plan"
  by (auto simp: fill_need_def Let_def gomap_simps gomap_get_def gomap_ok_def)

lemma RequiredB_bound:
  assumes "PlanFill cr ord locked filled k = Inr p"
  shows "unat (fp_RequiredB p) < 2 ^ 63"
proof -
  from assms have "CheckArithmetic ord locked = Inr ()" "filled \<le> locked" by (auto simp: PlanFill_Inr)
  from CheckArithmetic_leaf_price(2) [OF this]
  have "unat filled * unat (RateNum ord) + (unat (RateDen ord) - 1) < 2 ^ 63" .
  then show ?thesis
    unfolding PlanFill_floor [OF assms] ceil_div_def by (meson div_le_dividend le_less_trans)
qed

text \<open>The size of the fill: never above the requested amount, and no larger amount within it leaves a valid remainder.\<close>

lemma ShrinkTake_largest:
  assumes "minLot \<le> locked"
  shows "tk = 0 \<or> ShrinkTake locked tk minLot \<le> tk"
    "f \<le> locked \<Longrightarrow> tk = 0 \<or> f \<le> tk \<Longrightarrow> locked - f = 0 \<or> minLot \<le> locked - f \<Longrightarrow> f \<le> ShrinkTake locked tk minLot"
  using assms by (auto simp: ShrinkTake_def Let_def u64_simps u64_unat_diff not_less split: if_splits)

lemma PlanFill_lot: "PlanFill cr ord locked f k = Inr p \<Longrightarrow> MinLot ord \<le> locked"
  by (auto simp: PlanFill_Inr)

definition fill_tx ::
  "elements_lib \<Rightarrow> fill_params \<Rightarrow> fill_plan \<Rightarrow> funding \<Rightarrow> u64 \<times> u64 \<times> u64 \<times> u64 \<Rightarrow> bytes \<Rightarrow> tx \<Rightarrow> bool" where
  "fill_tx lib p plan sel amounts feeAsset t \<longleftrightarrow>
     (case amounts of (credit, fee, bch, fch) \<Rightarrow>
        \<exists>rcv chg rm i ins. tx_Inputs t = i # ins \<and> spends lib (pa_Txid p) (pa_Vout p) i \<and> ti_Witness i = fp_Witness plan \<and>
          list_all2 (\<lambda>u. spends lib (fu_txid u) (fu_vout u)) (fd_inputs sel) ins \<and>
          (fp_Partial plan \<longrightarrow> rm = explicit_out (AssetA (pa_Order p)) (fp_Remainder plan) (fp_OrderSPK plan)) \<and>
          tx_Outputs t = order_outputs (fp_Partial plan)
            (explicit_out (AssetB (pa_Order p)) credit ([0x51, 0x20] @ MakerProg (pa_Order p))) rm
            (explicit_out (AssetA (pa_Order p)) (fp_Filled plan) rcv) (explicit_out feeAsset fee [])
            (if 0 < bch then [explicit_out (AssetB (pa_Order p)) bch chg] else [])
            (if 0 < fch then [explicit_out feeAsset fch chg] else []))"

text \<open>What a successful fill went through: its plan, its coins, its amounts and the transaction it sent.\<close>

lemma broadcast_fill:
  assumes "value_law lib" "codec_law lib" "sign_law lib (cn_wallet n)" "asset_law ahb" "pa_Node p = Some n"
    "length (AssetA (pa_Order p)) = 32" "length (AssetB (pa_Order p)) = 32" "FillCovenant cr lib ahb p = (calls, Inr r)"
  shows "\<exists>plan sel lk fee bch fch f t. prepare_fill cr n p = Inr (fr_Locked r, plan) \<and>
    strings_ToLower (pa_FeeAssetDisplay p) = displayHex f \<and> f \<noteq> AssetA (pa_Order p) \<and>
    selectFunding n (fill_need p plan) (pa_Txid p) (pa_Vout p) (displayHex (AssetA (pa_Order p))) = (lk, Inr sel) \<and>
    fold_dust (fill_dust p) sel (displayHex (AssetB (pa_Order p))) (displayHex f) (fp_RequiredB plan) (pa_FeeAtoms p) =
      (fr_PaidB r, fee, bch, fch) \<and>
    el_NewTxFromHex lib (fr_RawHex r) = Some t \<and> fill_tx lib p plan sel (fr_PaidB r, fee, bch, fch) f t \<and>
    calls = lk @ [SendRaw (fr_RawHex r)] \<and> fr_Filled r = fp_Filled plan \<and> fr_Remainder r = fp_Remainder plan"
proof -
  let ?o = "pa_Order p" and ?f = "strings_ToLower (pa_FeeAssetDisplay p)"
  from FillCovenant_Inr [OF assms(8,5)] obtain plan sel lk fee bch fch raw where
    prep: "prepare_fill cr n p = Inr (fr_Locked r, plan)"
    and sel: "selectFunding n (fill_need p plan) (pa_Txid p) (pa_Vout p) (displayHex (AssetA ?o)) = (lk, Inr sel)"
    and fold: "fold_dust (fill_dust p) sel (displayHex (AssetB ?o)) ?f (fp_RequiredB plan) (pa_FeeAtoms p) = (fr_PaidB r, fee, bch, fch)"
    and asm: "assembleFill lib ahb n p plan sel (fr_PaidB r) fee bch fch (displayHex (AssetA ?o)) (displayHex (AssetB ?o)) ?f = Inr raw"
    and sign: "sign_fill lib n plan raw = Inr (fr_RawHex r)" and calls: "calls = lk @ [SendRaw (fr_RawHex r)]"
    and r: "fr_Filled r = fp_Filled plan" "fr_Remainder r = fp_Remainder plan" by blast
  from prepare_fill_Inr(2) [OF prep] obtain f where f: "?f = displayHex f" "length f = 32" using fee_asset_bytes by fastforce
  with prepare_fill_Inr(3) [OF prep] have feeA: "f \<noteq> AssetA ?o" by metis
  from assembleFill_Inr [OF asm [unfolded f(1)] assms(1,4,6,7) f(2)] obtain rcv chg rm i ins t0 where
    i: "spends lib (pa_Txid p) (pa_Vout p) i" "list_all2 (\<lambda>u. spends lib (fu_txid u) (fu_vout u)) (fd_inputs sel) ins"
    and ser: "el_ToHex lib t0 = Some raw" and ins: "tx_Inputs t0 = i # ins"
    and rm: "fp_Partial plan \<Longrightarrow> rm = explicit_out (AssetA ?o) (fp_Remainder plan) (fp_OrderSPK plan)"
    and outs: "tx_Outputs t0 = order_outputs (fp_Partial plan) (explicit_out (AssetB ?o) (fr_PaidB r) ([0x51, 0x20] @ MakerProg ?o)) rm
      (explicit_out (AssetA ?o) (fp_Filled plan) rcv) (explicit_out f fee [])
      (if 0 < bch then [explicit_out (AssetB ?o) bch chg] else []) (if 0 < fch then [explicit_out f fch chg] else [])"
    by fastforce
  from sign_fill_Inr [OF sign assms(2,3) ser ins] obtain t i' ins' where t: "el_NewTxFromHex lib (fr_RawHex r) = Some t"
      "tx_Outputs t = tx_Outputs t0" "tx_Inputs t = i' # ins'" "outpoint i' = outpoint i" "map outpoint ins' = map outpoint ins"
      "ti_Witness i' = fp_Witness plan" by blast
  have "spends lib (pa_Txid p) (pa_Vout p) i'" using i(1) t(4) spends_outpoint by blast
  with t(2,3,6) outs rm all_spend_outpoints [OF t(5) i(2)] have "fill_tx lib p plan sel (fr_PaidB r, fee, bch, fch) f t"
    by (auto simp: fill_tx_def)
  with prep sel fold f(1) feeA t(1) calls r show ?thesis by metis
qed

lemma fill_tx_accepted:
  assumes "PlanFill cr (pa_Order p) locked filled 0 = Inr plan" "fp_RequiredB plan \<le> credit"
    "fill_tx lib p plan sel (credit, fee, bch, fch) f t" "f \<noteq> AssetA (pa_Order p)" "AssetA (pa_Order p) \<noteq> AssetB (pa_Order p)"
  shows "fill_leaf_accepts (pa_Order p) (fp_OrderSPK plan) locked 0 (tx_Outputs t)"
proof -
  let ?o = "pa_Order p"
  from assms(3) obtain rcv chg rm where
    rm: "fp_Partial plan \<Longrightarrow> rm = explicit_out (AssetA ?o) (fp_Remainder plan) (fp_OrderSPK plan)"
    and outs: "tx_Outputs t = order_outputs (fp_Partial plan) (explicit_out (AssetB ?o) credit ([0x51, 0x20] @ MakerProg ?o)) rm
      (explicit_out (AssetA ?o) (fp_Filled plan) rcv) (explicit_out f fee [])
      (if 0 < bch then [explicit_out (AssetB ?o) bch chg] else []) (if 0 < fch then [explicit_out f fch chg] else [])"
    unfolding fill_tx_def by auto
  have "\<exists>g. fp_Partial plan \<or> g \<noteq> AssetA ?o \<and> to_Asset (tx_Outputs t ! Suc 0) = 1 # g"
    using assms(4,5) by (cases "fp_Partial plan") (auto simp: outs order_outputs_slots explicit_out_def)
  then obtain g where g: "fp_Partial plan \<or> g \<noteq> AssetA ?o \<and> to_Asset (tx_Outputs t ! Suc 0) = 1 # g" by blast
  have len: "Suc 0 < length (tx_Outputs t)"
    unfolding outs by (rule less_le_trans [OF _ order_outputs_slots(1)]) simp
  have slot0: "tx_Outputs t ! 0 = explicit_out (AssetB ?o) credit ([op1, 0x20] @ MakerProg ?o)"
    unfolding outs order_outputs_slots op1_def by (rule refl)
  have slot1: "if fp_Partial plan then tx_Outputs t ! Suc 0 = explicit_out (AssetA ?o) (fp_Remainder plan) (fp_OrderSPK plan)
      else g \<noteq> AssetA ?o \<and> to_Asset (tx_Outputs t ! Suc 0) = 1 # g"
    using g rm by (cases "fp_Partial plan") (simp_all add: outs order_outputs_slots)
  show ?thesis
    using fill_leaf_accepts_planned [OF assms(1) _ assms(2), of "tx_Outputs t" g] len slot0 slot1 by simp
qed

text \<open>C3: a covenant fill that reports success has sent a transaction that the covenant accepts: under the library's encoding and round-trip
  laws and a wallet that only signs, its input 0 spends the outpoint that was read unspent on chain, with the order's FILL leaf and
  control block as witness, its outputs satisfy the FILL leaf for the script and the amount read there, the taker receives what was
  taken, which is at most what was asked for, and the maker is paid at least the rounded-up price, at most dust more, and never a
  price above the taker's ceiling.\<close>

theorem covenant_fill_accepted:
  assumes "value_law lib" "codec_law lib" "sign_law lib (cn_wallet n)" "asset_law ahb" "pa_Node p = Some n"
    "length (AssetA (pa_Order p)) = 32" "length (AssetB (pa_Order p)) = 32" "FillCovenant cr lib ahb p = (calls, Inr r)"
  shows "\<exists>t u spk tap rcv. last calls = SendRaw (fr_RawHex r) \<and> el_NewTxFromHex lib (fr_RawHex r) = Some t \<and>
    cn_gettxout n (pa_Txid p) (pa_Vout p) = Some (Some u) \<and> fr_Locked r = coinsToAtoms (tr_Value u) \<and>
    hex_DecodeString (tr_SPKHex u) = Some spk \<and> Derive cr (pa_Order p) = Inr tap \<and>
    spends lib (pa_Txid p) (pa_Vout p) (tx_Inputs t ! 0) \<and>
    ti_Witness (tx_Inputs t ! 0) = [tt_FillLeaf tap, ControlBlock tap (InternalKey (pa_Order p))] \<and>
    fill_leaf_accepts (pa_Order p) spk (fr_Locked r) 0 (tx_Outputs t) \<and>
    explicit_out (AssetA (pa_Order p)) (fr_Filled r) rcv \<in> set (tx_Outputs t) \<and>
    (pa_TakeAtoms p = 0 \<or> fr_Filled r \<le> pa_TakeAtoms p) \<and> unat (fr_Filled r) + unat (fr_Remainder r) = unat (fr_Locked r) \<and>
    (let price = CeilPrice (fr_Filled r) (RateNum (pa_Order p)) (RateDen (pa_Order p)) in
       price \<le> fr_PaidB r \<and> (fr_PaidB r = price \<or> fr_PaidB r - price < fill_dust p) \<and> (pa_MaxPayB p = 0 \<or> price \<le> pa_MaxPayB p))"
proof -
  let ?o = "pa_Order p"
  from broadcast_fill [OF assms] obtain plan sel lk fee bch fch f t where
    prep: "prepare_fill cr n p = Inr (fr_Locked r, plan)"
    and f: "strings_ToLower (pa_FeeAssetDisplay p) = displayHex f" "f \<noteq> AssetA ?o"
    and sel: "selectFunding n (fill_need p plan) (pa_Txid p) (pa_Vout p) (displayHex (AssetA ?o)) = (lk, Inr sel)"
    and fold: "fold_dust (fill_dust p) sel (displayHex (AssetB ?o)) (displayHex f) (fp_RequiredB plan) (pa_FeeAtoms p) = (fr_PaidB r, fee, bch, fch)"
    and t: "el_NewTxFromHex lib (fr_RawHex r) = Some t" "fill_tx lib p plan sel (fr_PaidB r, fee, bch, fch) f t"
    and calls: "calls = lk @ [SendRaw (fr_RawHex r)]"
    and r: "fr_Filled r = fp_Filled plan" "fr_Remainder r = fp_Remainder plan" by blast
  note pr = prepare_fill_Inr [OF prep]
  obtain tap where tap: "Derive cr ?o = Inr tap" "fp_Witness plan = [tt_FillLeaf tap, ControlBlock tap (InternalKey ?o)]"
      "fp_RequiredB plan = CeilPrice (fp_Filled plan) (RateNum ?o) (RateDen ?o)"
    using pr(6) by (auto simp: PlanFill_Inr fp_Witness_def)
  have need: "fp_RequiredB plan \<le> gomap_get 0 (fd_total sel) (displayHex (AssetB ?o))" if "displayHex (AssetB ?o) \<noteq> displayHex f"
    using selectFunding_Inr(4,5) [OF sel fill_need_props(1), of "displayHex (AssetB ?o)"] fill_need_props(4) [of p plan] that f(1) by simp
  note credit = fold_dust_credit [OF fold need]
  have "fill_leaf_accepts ?o (fp_OrderSPK plan) (fr_Locked r) 0 (tx_Outputs t)"
    by (rule fill_tx_accepted [OF pr(6) credit(1) t(2) f(2) pr(1)])
  moreover have "pa_TakeAtoms p = 0 \<or> fr_Filled r \<le> pa_TakeAtoms p"
    using ShrinkTake_largest(1) [OF PlanFill_lot [OF pr(6)]] PlanFill_fields(4) [OF pr(6)] r(1) by simp
  moreover obtain rcv where "explicit_out (AssetA ?o) (fr_Filled r) rcv \<in> set (tx_Outputs t)"
    using t(2) order_outputs_receipt r(1) by (fastforce simp: fill_tx_def)
  moreover have "spends lib (pa_Txid p) (pa_Vout p) (tx_Inputs t ! 0)" "ti_Witness (tx_Inputs t ! 0) = fp_Witness plan"
    using t(2) by (auto simp: fill_tx_def)
  moreover obtain u where "cn_gettxout n (pa_Txid p) (pa_Vout p) = Some (Some u)" "fr_Locked r = coinsToAtoms (tr_Value u)"
      "hex_DecodeString (tr_SPKHex u) = Some (fp_OrderSPK plan)" using pr(5) by blast
  ultimately show ?thesis
    using calls t(1) tap credit pr(8) PlanFill_total [OF pr(6)] r
    by (intro exI [of _ t] exI [of _ u] exI [of _ "fp_OrderSPK plan"] exI [of _ tap] exI [of _ rcv]) (simp add: Let_def)
qed

text \<open>A fill of 60 atoms of the sample order from a wallet that holds one coin of the payment asset, which also pays the fee.\<close>

definition demo_ahb :: "string \<Rightarrow> bytes option" where
  "demo_ahb s = map_option (\<lambda>b. 1 # rev b) (hex_DecodeString s)"

definition ask_spk :: bytes where
  "ask_spk = (case Derive demo_crypto ask_order of Inr tap \<Rightarrow> tt_ScriptPubKey tap | Inl _ \<Rightarrow> [])"

definition demo_node :: cov_node where
  "demo_node =
     \<lparr>cn_gettxout = (\<lambda>_ _. Some (Some \<lparr>tr_Value = 1, tr_Asset = displayHex (AssetA ask_order), tr_SPKHex = hex_EncodeToString ask_spk\<rparr>)),
      cn_wallet = demo_rpc\<lparr>rpc_listunspent := Some [\<lparr>wu_Txid = ''aa'', wu_Vout = 0, wu_Amount = 1,
        wu_Asset = displayHex (AssetB ask_order), wu_Spendable = True\<rparr>]\<rparr>,
      cn_lockunspent = (\<lambda>_ _. True), cn_testmempoolaccept = (\<lambda>_. Some [True]), cn_sendrawtransaction = (\<lambda>_. Some ''t''),
      cn_stillunspent = (\<lambda>_ _. Some True), cn_decoderawtransaction = (\<lambda>_. None), cn_getrawtransaction = (\<lambda>_. False)\<rparr>"

definition demo_fill :: fill_params where
  "demo_fill =
     \<lparr>pa_Order = ask_order, pa_Txid = hex_EncodeToString (replicate 32 11), pa_Vout = 0, pa_TakeAtoms = 60, pa_FeeAtoms = 500,
      pa_FeeAssetDisplay = displayHex (AssetB ask_order), pa_Node = Some demo_node, pa_DustFoldAtoms = 0,
      pa_AllowMakerCancellable = False, pa_MaxPayB = 120\<rparr>"

lemma demo_asset_law: "asset_law demo_ahb"
  by (simp add: asset_law_def demo_ahb_def)

lemma demo_fill_sign_law: "sign_law demo_lib (cn_wallet demo_node)"
  by (auto simp: sign_law_def demo_node_def demo_rpc_def)

lemma displayHex_lower: "strings_ToLower (displayHex a) = displayHex a"
  using hex_Encode_Decode [OF hex_Decode_Encode] by (simp add: displayHex_def)

lemma displayHex_decode: "hex_DecodeString (displayHex a) = Some (rev a)"
  by (simp add: displayHex_def hex_Decode_Encode)

lemma displayHex_empty: "displayHex a = [] \<longleftrightarrow> a = []"
  by (metis displayHex_decode hex_DecodeString.simps(1) option.inject rev_is_Nil_conv displayHex_def hex_EncodeToString.simps(1) rev.simps(1))

lemma demo_prepared: "\<exists>plan. prepare_fill demo_crypto demo_node demo_fill = Inr (100000000, plan) \<and> fp_RequiredB plan = 120 \<and>
  fp_Filled plan = 60 \<and> fp_Partial plan"
proof -
  obtain tap where tap: "Derive demo_crypto ask_order = Inr tap" using ask_Derive by blast
  have "CheckArithmetic ask_order 100000000 = Inr ()" by (simp add: CheckArithmetic_iff ask_order_def)
  then have plan: "\<exists>plan. PlanFill demo_crypto ask_order 100000000 60 0 = Inr plan \<and> fp_RequiredB plan = 120 \<and> fp_Filled plan = 60 \<and> fp_Partial plan"
    using tap cross_prices by (simp add: PlanFill_def ask_order_def)
  have shrink: "ShrinkTake 100000000 60 (MinLot ask_order) = 60" by (simp add: ShrinkTake_def ask_order_def)
  have nums: "InternalKey ask_order = NUMS" "AssetA ask_order \<noteq> AssetB ask_order" by (simp_all add: ask_order_def replicate_eq_replicate)
  have fee: "length (AssetA ask_order) = 32" "length (AssetB ask_order) = 32" by (simp_all add: ask_order_def)
  have "displayHex (AssetA ask_order) \<noteq> []" using fee(1) by (simp add: displayHex_empty) force
  then have "verifyCovenantUTXO demo_node demo_fill (displayHex (AssetA ask_order)) = Inr (100000000, ask_spk)"
    by (simp add: verifyCovenantUTXO_def demo_node_def hex_Decode_Encode one_coin)
  then show ?thesis
    using plan nums fee by (auto simp: prepare_fill_def Let_def demo_fill_def displayHex_lower displayHex_inject displayHex_decode
        VerifyAgainstSPK_def tap ask_spk_def shrink)
qed

lemma demo_lower: "strings_ToLower (pa_FeeAssetDisplay demo_fill) = displayHex (AssetB ask_order)"
  by (simp add: demo_fill_def displayHex_lower)

lemma demo_selected:
  assumes "fp_RequiredB plan = 120"
  shows "\<exists>lk sel. selectFunding demo_node (fill_need demo_fill plan) (pa_Txid demo_fill) (pa_Vout demo_fill) (displayHex (AssetA ask_order)) = (lk, Inr sel) \<and>
    fd_inputs sel = [\<lparr>fu_txid = ''aa'', fu_vout = 0, fu_atoms = 100000000, fu_asset = displayHex (AssetB ask_order)\<rparr>] \<and>
    gomap_get 0 (fd_total sel) (displayHex (AssetB ask_order)) = 100000000"
proof -
  have need: "fill_need demo_fill plan = [(displayHex (AssetB ask_order), 620)]"
    unfolding fill_need_def demo_lower by (simp add: demo_fill_def assms Let_def gomap_get_def)
  have out: "''aa'' \<noteq> pa_Txid demo_fill"
  proof
    assume "''aa'' = pa_Txid demo_fill"
    then have "length ''aa'' = length (pa_Txid demo_fill)" by simp
    then show False by (simp add: demo_fill_def)
  qed
  have ne: "displayHex (AssetB ask_order) \<noteq> displayHex (AssetA ask_order)"
    by (simp add: displayHex_inject) (simp add: ask_order_def replicate_eq_replicate)
  show ?thesis
    using out ne unfolding need
    by (simp add: selectFunding_def demo_node_def fund_candidates_def displayHex_lower one_coin gomap_get_def pickCoins_def
        lockCoins_def Let_def)
qed

lemma demo_filled: "\<exists>calls r. FillCovenant demo_crypto demo_lib demo_ahb demo_fill = (calls, Inr r) \<and> fr_Filled r = 60 \<and> fr_PaidB r = 120"
proof -
  obtain plan where plan: "prepare_fill demo_crypto demo_node demo_fill = Inr (100000000, plan)" "fp_RequiredB plan = 120"
      "fp_Filled plan = 60" "fp_Partial plan"
    using demo_prepared by blast
  obtain lk sel where sel: "selectFunding demo_node (fill_need demo_fill plan) (pa_Txid demo_fill) (pa_Vout demo_fill)
      (displayHex (AssetA ask_order)) = (lk, Inr sel)"
    "fd_inputs sel = [\<lparr>fu_txid = ''aa'', fu_vout = 0, fu_atoms = 100000000, fu_asset = displayHex (AssetB ask_order)\<rparr>]"
    "gomap_get 0 (fd_total sel) (displayHex (AssetB ask_order)) = 100000000"
    using demo_selected [OF plan(2)] by blast
  have fold: "fold_dust (fill_dust demo_fill) sel (displayHex (AssetB ask_order)) (displayHex (AssetB ask_order)) 120 500 = (120, 500, 99999380, 0)"
    by (simp add: fold_dust_def sel(3) fill_dust_def demo_fill_def DefaultDustFold_def)
  have len: "length (AssetA ask_order) = 32" "length (AssetB ask_order) = 32" "length (MakerProg ask_order) = 32" "MakerVer ask_order = 1"
    by (simp_all add: ask_order_def)
  have aa: "hex_DecodeString ''aa'' = Some [0xaa]" "hex_DecodeString ''51'' = Some [0x51]" by (simp_all add: from_hex_char_def)
  have wallet: "rpc_gapaddress (cn_wallet demo_node) = Some ''gap''" "rpc_changeaddress (cn_wallet demo_node) = Some ''change''"
      "rpc_getaddressinfo (cn_wallet demo_node) = (\<lambda>a. Some ([], ''51''))" "rpc_signraw (cn_wallet demo_node) = Some"
    by (simp_all add: demo_node_def demo_rpc_def)
  have lib: "el_TxIDToBytes demo_lib = hex_DecodeString" by (simp add: demo_lib_def)
  have pa: "pa_Order demo_fill = ask_order" "pa_Node demo_fill = Some demo_node" "pa_FeeAtoms demo_fill = 500"
      "pa_Txid demo_fill = hex_EncodeToString (replicate 32 11)" by (simp_all add: demo_fill_def)
  have "\<exists>t i ins. assembleFill demo_lib demo_ahb demo_node demo_fill plan sel 120 500 99999380 0 (displayHex (AssetA ask_order))
      (displayHex (AssetB ask_order)) (displayHex (AssetB ask_order)) = Inr (unary (put_tx t)) \<and> tx_Inputs t = i # ins"
    unfolding assembleFill_def
    by (simp add: pa len covfill_freshUnconfSPK_def wallet aa asset_law_display [OF demo_asset_law] covfill_out_law [OF demo_value_law]
        optional_out_law [OF demo_value_law] plan(4) txid_input_def lib hex_Decode_Encode sel(2) demo_lib_simps
        del: replicate.simps hex_DecodeString.simps) (intro exI conjI, rule refl, simp)
  then obtain t i ins where t: "assembleFill demo_lib demo_ahb demo_node demo_fill plan sel 120 500 99999380 0 (displayHex (AssetA ask_order))
      (displayHex (AssetB ask_order)) (displayHex (AssetB ask_order)) = Inr (unary (put_tx t))" "tx_Inputs t = i # ins" by blast
  have "unary (put_tx t) \<noteq> []" by (simp add: unary_def put_tx_def)
  then obtain h where h: "sign_fill demo_lib demo_node plan (unary (put_tx t)) = Inr h"
    by (simp add: sign_fill_def wallet demo_lib_simps t(2))
  have send: "gate_and_send demo_node demo_fill h = ([SendRaw h], Inr ''t'')" by (simp add: gate_and_send_def demo_node_def)
  show ?thesis
    by (simp add: FillCovenant_def pa(1,2,3) plan sel(1) demo_lower Let_def fold t(1) h send)
qed

theorem covenant_fill_accepted_witness:
  "\<exists>calls r t. FillCovenant demo_crypto demo_lib demo_ahb demo_fill = (calls, Inr r) \<and>
    el_NewTxFromHex demo_lib (fr_RawHex r) = Some t \<and> fill_leaf_accepts ask_order ask_spk (fr_Locked r) 0 (tx_Outputs t) \<and>
    fr_Filled r = 60 \<and> fr_PaidB r = 120"
proof -
  obtain calls r where fill: "FillCovenant demo_crypto demo_lib demo_ahb demo_fill = (calls, Inr r)" "fr_Filled r = 60" "fr_PaidB r = 120"
    using demo_filled by blast
  have node: "pa_Node demo_fill = Some demo_node" "pa_Order demo_fill = ask_order" by (simp_all add: demo_fill_def)
  have len: "length (AssetA (pa_Order demo_fill)) = 32" "length (AssetB (pa_Order demo_fill)) = 32"
    by (simp_all add: node) (simp_all add: ask_order_def)
  have spk: "cn_gettxout demo_node x y = Some (Some u) \<Longrightarrow> hex_DecodeString (tr_SPKHex u) = Some ask_spk" for x y u
    by (auto simp: demo_node_def hex_Decode_Encode)
  from covenant_fill_accepted [OF demo_value_law demo_codec_law demo_fill_sign_law demo_asset_law node(1) len fill(1)] spk fill
  show ?thesis unfolding node(2) by (metis option.inject)
qed

section \<open>Balance\<close>

text \<open>The value of an explicit output, read from its eight big-endian bytes, and what a list of outputs holds of an asset.\<close>

definition be_value :: "bytes \<Rightarrow> nat" where
  "be_value bs = foldl (\<lambda>n b. 256 * n + unat b) 0 bs"

definition out_atoms :: "tx_out list \<Rightarrow> bytes \<Rightarrow> nat" where
  "out_atoms outs a = sum_list (map (\<lambda>x. be_value (tl (to_Value x))) (filter (\<lambda>x. to_Asset x = 1 # a) outs))"

lemma unat_byte: "unat (ucast (drop_bit k (v :: u64)) :: byte) = unat v div 2 ^ k mod 256"
  using unat_u64_less [of v]
  by (simp add: unsigned_ucast_eq take_bit_eq_mod unsigned_drop_bit_eq) (simp add: drop_bit_eq_div)

lemma horner:
  "foldl (\<lambda>n b. 256 * n + unat b) a (rev (map (\<lambda>i. ucast (drop_bit (8 * i) (v :: u64)) :: byte) [0..<k])) =
     256 ^ k * a + unat v mod 256 ^ k"
proof (induction k arbitrary: a)
  case (Suc k)
  have "unat v mod 256 ^ Suc k = 256 ^ k * (unat v div 256 ^ k mod 256) + unat v mod 256 ^ k"
    using mod_mult2_eq [of "unat v" "256 ^ k" 256] by (simp add: mult.commute)
  moreover have "(2 :: nat) ^ (8 * k) = 256 ^ k" by (simp add: power_mult)
  ultimately show ?case by (simp add: Suc.IH unat_byte distrib_left)
qed simp

lemma be_value_le8: "be_value (rev (le8 v)) = unat v"
proof -
  have "le8 v = map (\<lambda>i. ucast (drop_bit (8 * i) v)) [0..<8]" by (simp add: le8_def upt_rec)
  then show ?thesis using horner [of 0 v 8] unat_u64_less [of v] by (simp add: be_value_def)
qed

lemma out_atoms_simps [simp]:
  "out_atoms [] a = 0" "out_atoms (explicit_out b v spk # outs) a = (if a = b then unat v else 0) + out_atoms outs a"
  "out_atoms (xs @ ys) a = out_atoms xs a + out_atoms ys a"
  by (auto simp: out_atoms_def explicit_out_def be_value_le8)

lemma out_atoms_optional: "out_atoms (if 0 < v then [explicit_out b v spk] else []) a = (if a = b then unat v else 0)"
  by (auto simp: word_gt_0)

lemma order_outputs_atoms:
  assumes "length bs \<le> 1" "length fs \<le> 1"
  shows "out_atoms (order_outputs partial c r rcv f bs fs) a =
    out_atoms [c] a + (if partial then out_atoms [r] a else 0) + out_atoms [rcv] a + out_atoms [f] a + out_atoms bs a + out_atoms fs a"
proof -
  have one: "out_atoms (x # xs) a = out_atoms [x] a + out_atoms xs a" for x xs
    using out_atoms_simps(3) [of "[x]" xs a] by simp
  show ?thesis
    using assms by (cases bs; cases fs) (simp_all add: order_outputs_def one [of _ "_ # _"] out_atoms_simps(3) del: out_atoms_simps(2))
qed

lemma fill_tx_atoms:
  assumes "fill_tx lib p plan sel (credit, fee, bch, fch) f t"
  shows "out_atoms (tx_Outputs t) a =
    (if a = AssetA (pa_Order p) then unat (fp_Filled plan) + (if fp_Partial plan then unat (fp_Remainder plan) else 0) else 0) +
    (if a = AssetB (pa_Order p) then unat credit + unat bch else 0) + (if a = f then unat fee + unat fch else 0)"
proof -
  let ?o = "pa_Order p"
  from assms obtain rcv chg rm where
    rm: "fp_Partial plan \<Longrightarrow> rm = explicit_out (AssetA ?o) (fp_Remainder plan) (fp_OrderSPK plan)"
    and outs: "tx_Outputs t = order_outputs (fp_Partial plan) (explicit_out (AssetB ?o) credit ([0x51, 0x20] @ MakerProg ?o)) rm
      (explicit_out (AssetA ?o) (fp_Filled plan) rcv) (explicit_out f fee [])
      (if 0 < bch then [explicit_out (AssetB ?o) bch chg] else []) (if 0 < fch then [explicit_out f fch chg] else [])"
    unfolding fill_tx_def by auto
  have one: "length (if c then [x] else []) \<le> 1" for c and x :: tx_out by simp
  show ?thesis
    unfolding outs order_outputs_atoms [OF one one] out_atoms_optional
    by (cases "fp_Partial plan") (simp_all add: rm)
qed

lemma fold_dust_balance:
  assumes "fold_dust dust sel b f required fee0 = (credit, fee, bch, fch)"
    "if b = f then unat required + unat fee0 \<le> unat (gomap_get 0 (fd_total sel) f)
     else required \<le> gomap_get 0 (fd_total sel) b \<and> fee0 \<le> gomap_get 0 (fd_total sel) f"
  shows "if b = f then unat credit + unat bch + unat fee + unat fch = unat (gomap_get 0 (fd_total sel) f)
     else unat credit + unat bch = unat (gomap_get 0 (fd_total sel) b) \<and> unat fee + unat fch = unat (gomap_get 0 (fd_total sel) f)"
    "fee0 \<le> fee"
proof -
  let ?tb = "gomap_get 0 (fd_total sel) b" and ?tf = "gomap_get 0 (fd_total sel) f"
  have same: "unat (?tf - required - fee0) = unat ?tf - unat required - unat fee0" "unat (fee0 + (?tf - required - fee0)) = unat ?tf - unat required"
    if "unat required + unat fee0 \<le> unat ?tf"
  proof -
    show *: "unat (?tf - required - fee0) = unat ?tf - unat required - unat fee0" using that by (simp add: u64_unat_diff u64_le)
    then show "unat (fee0 + (?tf - required - fee0)) = unat ?tf - unat required"
      using that unat_u64_less [of ?tf] by (subst u64_unat_add) simp_all
  qed
  show "if b = f then unat credit + unat bch + unat fee + unat fch = unat ?tf
     else unat credit + unat bch = unat ?tb \<and> unat fee + unat fch = unat ?tf" "fee0 \<le> fee"
    using assms same by (auto simp: fold_dust_def Let_def u64_unat_diff u64_le split: if_splits)
qed

text \<open>C22: a broadcast fill balances in every asset: when the wallet holds less than two to the 64 atoms and the fee is below two to the 63,
  the transaction spends the covenant and wallet coins that were spendable, of the payment asset or the fee asset only, and for every asset
  its outputs, the explicit fee included, are worth exactly what its inputs are worth, the covenant's whole locked amount for the sold
  asset; the fee paid is at least the fee asked for.\<close>

theorem covenant_fill_balances:
  assumes "value_law lib" "codec_law lib" "sign_law lib (cn_wallet n)" "asset_law ahb" "pa_Node p = Some n"
    "length (AssetA (pa_Order p)) = 32" "length (AssetB (pa_Order p)) = 32" "FillCovenant cr lib ahb p = (calls, Inr r)"
    "rpc_listunspent (cn_wallet n) = Some raw" "sum_list (map (\<lambda>u. unat (coinsToAtoms (wu_Amount u))) raw) < 2 ^ 64"
    "unat (pa_FeeAtoms p) < 2 ^ 63"
  shows "\<exists>t coins i ins fee f. el_NewTxFromHex lib (fr_RawHex r) = Some t \<and> tx_Inputs t = i # ins \<and>
    spends lib (pa_Txid p) (pa_Vout p) i \<and> list_all2 (\<lambda>u. spends lib (fu_txid u) (fu_vout u)) coins ins \<and>
    (\<forall>a. mset (filter (\<lambda>u. fu_asset u = a) coins) \<subseteq># mset (fund_candidates raw (pa_Txid p) (pa_Vout p) (displayHex (AssetA (pa_Order p))) a)) \<and>
    (\<forall>u\<in>set coins. fu_asset u \<in> {displayHex (AssetB (pa_Order p)), displayHex f}) \<and>
    (\<forall>a. out_atoms (tx_Outputs t) a =
       (if a = AssetA (pa_Order p) then unat (fr_Locked r) else 0) + coin_value (filter (\<lambda>u. fu_asset u = displayHex a) coins)) \<and>
    strings_ToLower (pa_FeeAssetDisplay p) = displayHex f \<and> explicit_out f fee [] \<in> set (tx_Outputs t) \<and> pa_FeeAtoms p \<le> fee"
proof -
  let ?o = "pa_Order p"
  from broadcast_fill [OF assms(1-8)] obtain plan sel lk fee bch fch f t where
    prep: "prepare_fill cr n p = Inr (fr_Locked r, plan)"
    and f: "strings_ToLower (pa_FeeAssetDisplay p) = displayHex f" "f \<noteq> AssetA ?o"
    and sel: "selectFunding n (fill_need p plan) (pa_Txid p) (pa_Vout p) (displayHex (AssetA ?o)) = (lk, Inr sel)"
    and fold: "fold_dust (fill_dust p) sel (displayHex (AssetB ?o)) (displayHex f) (fp_RequiredB plan) (pa_FeeAtoms p) = (fr_PaidB r, fee, bch, fch)"
    and t: "el_NewTxFromHex lib (fr_RawHex r) = Some t" "fill_tx lib p plan sel (fr_PaidB r, fee, bch, fch) f t" by blast
  note pr = prepare_fill_Inr [OF prep] and sf = selectFunding_Inr [OF sel fill_need_props(1)]
  have cands: "mset (coins_of sel a) \<subseteq># mset (fund_candidates raw (pa_Txid p) (pa_Vout p) (displayHex (AssetA ?o)) a)" for a
    using sf(3) assms(9) by auto
  have worth: "unat (gomap_get 0 (fd_total sel) a) = coin_value (coins_of sel a)" for a
    using coin_sum_value [OF coins_bound [OF cands assms(10)]] sf(4) by simp
  have req: "unat (fp_RequiredB plan + pa_FeeAtoms p) = unat (fp_RequiredB plan) + unat (pa_FeeAtoms p)"
    using RequiredB_bound [OF pr(6)] assms(11) by (intro u64_unat_add) simp
  note need = fill_need_props(3,4) [of p plan, unfolded f(1)]
  have "if displayHex (AssetB ?o) = displayHex f then unat (fp_RequiredB plan) + unat (pa_FeeAtoms p) \<le> unat (gomap_get 0 (fd_total sel) (displayHex f))
     else fp_RequiredB plan \<le> gomap_get 0 (fd_total sel) (displayHex (AssetB ?o)) \<and> pa_FeeAtoms p \<le> gomap_get 0 (fd_total sel) (displayHex f)"
    using sf(4,5) [of "displayHex f"] sf(4,5) [of "displayHex (AssetB ?o)"] need req by (auto simp: u64_le split: if_splits)
  note balance = fold_dust_balance [OF fold this]
  have none: "coins_of sel (displayHex a) = []" if "a \<noteq> AssetB ?o" "a \<noteq> f \<or> a = AssetA ?o" for a
    using that sf(6) f fill_need_props(2) [of p plan] by (fastforce simp: coins_of_def filter_empty_conv displayHex_inject)
  have atoms: "out_atoms (tx_Outputs t) a = (if a = AssetA ?o then unat (fr_Locked r) else 0) + coin_value (coins_of sel (displayHex a))" for a
    using balance(1) none [of a] pr(1) f(2) PlanFill_total [OF pr(6)] PlanFill_fields(5,6) [OF pr(6)] worth
    by (auto simp: fill_tx_atoms [OF t(2)] displayHex_inject split: if_splits)
  from t(2) obtain i ins where "tx_Inputs t = i # ins" "spends lib (pa_Txid p) (pa_Vout p) i"
      "list_all2 (\<lambda>u. spends lib (fu_txid u) (fu_vout u)) (fd_inputs sel) ins" by (auto simp: fill_tx_def)
  moreover have "explicit_out f fee [] \<in> set (tx_Outputs t)"
    using t(2) order_outputs_fee by (fastforce simp: fill_tx_def)
  moreover have "\<forall>u\<in>set (fd_inputs sel). fu_asset u \<in> {displayHex (AssetB ?o), displayHex f}"
    using sf(6) fill_need_props(2) [of p plan] f(1) by auto
  ultimately show ?thesis
    using t(1) cands atoms f(1) balance(2) unfolding coins_of_def by blast
qed

theorem covenant_fill_balances_witness:
  "\<exists>calls r t coins. FillCovenant demo_crypto demo_lib demo_ahb demo_fill = (calls, Inr r) \<and> el_NewTxFromHex demo_lib (fr_RawHex r) = Some t \<and>
    out_atoms (tx_Outputs t) (AssetA ask_order) = unat (fr_Locked r) + coin_value (filter (\<lambda>u. fu_asset u = displayHex (AssetA ask_order)) coins) \<and>
    out_atoms (tx_Outputs t) (AssetB ask_order) = coin_value (filter (\<lambda>u. fu_asset u = displayHex (AssetB ask_order)) coins)"
proof -
  obtain calls r where fill: "FillCovenant demo_crypto demo_lib demo_ahb demo_fill = (calls, Inr r)" using demo_filled by blast
  have node: "pa_Node demo_fill = Some demo_node" "pa_Order demo_fill = ask_order" by (simp_all add: demo_fill_def)
  have len: "length (AssetA (pa_Order demo_fill)) = 32" "length (AssetB (pa_Order demo_fill)) = 32"
    by (simp_all add: node) (simp_all add: ask_order_def)
  have ne: "AssetB ask_order \<noteq> AssetA ask_order" by (simp add: ask_order_def replicate_eq_replicate)
  obtain raw where raw: "rpc_listunspent (cn_wallet demo_node) = Some raw" "sum_list (map (\<lambda>u. unat (coinsToAtoms (wu_Amount u))) raw) < 2 ^ 64"
    by (simp add: demo_node_def one_coin)
  have "unat (pa_FeeAtoms demo_fill) < 2 ^ 63" by (simp add: demo_fill_def)
  from covenant_fill_balances [OF demo_value_law demo_codec_law demo_fill_sign_law demo_asset_law node(1) len fill raw this, unfolded node(2)]
  obtain t coins where "el_NewTxFromHex demo_lib (fr_RawHex r) = Some t" "\<forall>a. out_atoms (tx_Outputs t) a =
       (if a = AssetA ask_order then unat (fr_Locked r) else 0) + coin_value (filter (\<lambda>u. fu_asset u = displayHex a) coins)"
    by blast
  with fill ne show ?thesis by (intro exI [of _ calls] exI [of _ r] exI [of _ t] exI [of _ coins]) simp
qed

section \<open>What reaches the node\<close>

definition locking :: "bool \<Rightarrow> (string \<times> u32) list \<Rightarrow> node_call list" where
  "locking unlock refs = (if refs = [] then [] else [LockUnspent unlock refs])"

lemma lockCoins_calls: "fst (lockCoins n coins unlock) = locking unlock (coin_refs coins)"
  by (simp add: lockCoins_def locking_def coin_refs_def)

lemma selectFunding_calls:
  "selectFunding n need txid vout a = (calls, Inr sel) \<Longrightarrow> calls = locking False (coin_refs (fd_inputs sel))"
  "selectFunding n need txid vout a = (calls, Inl e) \<Longrightarrow>
     calls = [] \<or> e = CFLock \<and> (\<exists>refs. calls = [LockUnspent False refs] \<and> \<not> cn_lockunspent n False refs)"
  unfolding selectFunding_def
  by (auto simp: lockCoins_def locking_def coin_refs_def split: option.splits sum.splits prod.splits if_splits)

lemma gate_and_send_calls:
  "gate_and_send n p h = (sent, Inl e) \<Longrightarrow> sent = [] \<or> sent = [SendRaw h] \<and> e = CFSend"
  "gate_and_send n p h = (sent, Inr txid) \<Longrightarrow> sent = [SendRaw h] \<and> (\<exists>rest. cn_testmempoolaccept n h = Some (True # rest)) \<and>
     (cn_sendrawtransaction n h = Some txid \<or>
      cn_stillunspent n (pa_Txid p) (pa_Vout p) = Some False \<and> cn_decoderawtransaction n h = Some txid \<and> cn_getrawtransaction n txid)"
  unfolding gate_and_send_def
  by (auto simp: alreadyLanded_def neq_Nil_conv split: option.splits if_splits)

text \<open>Every selection holds a coin, since a fee is due.\<close>

lemma selected_coins:
  assumes "prepare_fill cr n p = Inr (locked, plan)" "unat (pa_FeeAtoms p) < 2 ^ 63"
    "selectFunding n (fill_need p plan) (pa_Txid p) (pa_Vout p) (displayHex (AssetA (pa_Order p))) = (lk, Inr sel)"
  shows "lk = [LockUnspent False (coin_refs (fd_inputs sel))]" "cn_lockunspent n False (coin_refs (fd_inputs sel))" "coin_refs (fd_inputs sel) \<noteq> []"
proof -
  let ?fee = "strings_ToLower (pa_FeeAssetDisplay p)"
  note sf = selectFunding_Inr [OF assms(3) fill_need_props(1)]
  have "unat (fp_RequiredB plan + pa_FeeAtoms p) = unat (fp_RequiredB plan) + unat (pa_FeeAtoms p)"
    using RequiredB_bound [OF prepare_fill_Inr(6) [OF assms(1)]] assms(2) by (intro u64_unat_add) simp
  then have "fp_RequiredB plan + pa_FeeAtoms p \<noteq> 0" using prepare_fill_Inr(4) [OF assms(1)] by (auto simp: u64_eq)
  then have "gomap_get 0 (fill_need p plan) ?fee \<noteq> 0" using fill_need_props(3) [of p plan] prepare_fill_Inr(4) [OF assms(1)] by simp
  then have "coin_sum (coins_of sel ?fee) \<noteq> 0" using sf(5) [of ?fee] by (auto simp: u64_le u64_eq)
  then have ne: "fd_inputs sel \<noteq> []" by (auto simp: coins_of_def coin_sum_def)
  with sf(1,2) show "lk = [LockUnspent False (coin_refs (fd_inputs sel))]" "cn_lockunspent n False (coin_refs (fd_inputs sel))"
    "coin_refs (fd_inputs sel) \<noteq> []" by (simp_all add: lockCoins_def coin_refs_def)
qed

lemma FillCovenant_Inl:
  assumes "FillCovenant cr lib ahb p = (calls, Inl e)" "pa_Node p = Some n" "unat (pa_FeeAtoms p) < 2 ^ 63"
  shows "calls = [] \<or> e = CFLock \<and> (\<exists>refs. calls = [LockUnspent False refs] \<and> \<not> cn_lockunspent n False refs) \<or>
    (\<exists>refs sent. refs \<noteq> [] \<and> calls = [LockUnspent False refs] @ sent @ [LockUnspent True refs] \<and>
       (sent = [] \<or> e = CFSend \<and> (\<exists>h. sent = [SendRaw h])))"
proof (cases "\<exists>locked plan lk sel. prepare_fill cr n p = Inr (locked, plan) \<and>
    selectFunding n (fill_need p plan) (pa_Txid p) (pa_Vout p) (displayHex (AssetA (pa_Order p))) = (lk, Inr sel)")
  case True
  then obtain locked plan lk sel where n: "prepare_fill cr n p = Inr (locked, plan)"
    and sel: "selectFunding n (fill_need p plan) (pa_Txid p) (pa_Vout p) (displayHex (AssetA (pa_Order p))) = (lk, Inr sel)" by blast
  note coins = selected_coins [OF n assms(3) sel]
  let ?refs = "coin_refs (fd_inputs sel)"
  have "fst (lockCoins n (fd_inputs sel) True) = [LockUnspent True ?refs]" using coins(3) by (simp add: lockCoins_calls locking_def)
  then have "\<exists>sent. calls = [LockUnspent False ?refs] @ sent @ [LockUnspent True ?refs] \<and> (sent = [] \<or> e = CFSend \<and> (\<exists>h. sent = [SendRaw h]))"
    using assms(1,2) n sel coins(1)
    by (auto simp: FillCovenant_def Let_def split: sum.splits prod.splits dest!: gate_and_send_calls(1))
  with coins(3) show ?thesis by blast
next
  case False
  with assms(1,2) show ?thesis
    by (auto simp: FillCovenant_def Let_def split: option.splits sum.splits prod.splits dest!: selectFunding_calls(2))
qed

text \<open>C23: what a fill does to the node, on every path, when the fee is below two to the 63: a success has locked the coins that the transaction
  spends beside the covenant, all of them and no other, at least one, with the node's consent, and then sent one transaction, the one reported, which the
  node's mempool check allowed and which the node accepted, or, when the reply was lost, one the node knows while the covenant outpoint
  is spent; a failure has sent nothing unless the send itself failed, and the coins it locked are released, unless the lock itself was
  refused.\<close>

theorem covenant_fill_calls:
  assumes "value_law lib" "codec_law lib" "sign_law lib (cn_wallet n)" "asset_law ahb" "pa_Node p = Some n"
    "length (AssetA (pa_Order p)) = 32" "length (AssetB (pa_Order p)) = 32" "unat (pa_FeeAtoms p) < 2 ^ 63"
  shows "case FillCovenant cr lib ahb p of
     (calls, Inr r) \<Rightarrow>
       (\<exists>t i ins refs rest. el_NewTxFromHex lib (fr_RawHex r) = Some t \<and> tx_Inputs t = i # ins \<and> spends lib (pa_Txid p) (pa_Vout p) i \<and>
          refs \<noteq> [] \<and> list_all2 (\<lambda>(txid, vout). spends lib txid vout) refs ins \<and>
          calls = [LockUnspent False refs, SendRaw (fr_RawHex r)] \<and> cn_lockunspent n False refs \<and>
          cn_testmempoolaccept n (fr_RawHex r) = Some (True # rest) \<and>
          (cn_sendrawtransaction n (fr_RawHex r) = Some (fr_Txid r) \<or>
           cn_stillunspent n (pa_Txid p) (pa_Vout p) = Some False \<and> cn_decoderawtransaction n (fr_RawHex r) = Some (fr_Txid r) \<and>
           cn_getrawtransaction n (fr_Txid r)))
   | (calls, Inl e) \<Rightarrow>
       calls = [] \<or> e = CFLock \<and> (\<exists>refs. calls = [LockUnspent False refs] \<and> \<not> cn_lockunspent n False refs) \<or>
       (\<exists>refs sent. refs \<noteq> [] \<and> calls = [LockUnspent False refs] @ sent @ [LockUnspent True refs] \<and>
          (sent = [] \<or> e = CFSend \<and> (\<exists>h. sent = [SendRaw h])))"
proof -
  obtain calls res where run: "FillCovenant cr lib ahb p = (calls, res)" by fastforce
  show ?thesis
  proof (cases res)
    case (Inr r)
    from FillCovenant_Inr [OF run [unfolded Inr] assms(5)]
    have send: "gate_and_send n p (fr_RawHex r) = ([SendRaw (fr_RawHex r)], Inr (fr_Txid r))" by blast
    from broadcast_fill [OF assms(1-7) run [unfolded Inr]] obtain plan sel lk amounts f t where
      prep: "prepare_fill cr n p = Inr (fr_Locked r, plan)"
      and sel: "selectFunding n (fill_need p plan) (pa_Txid p) (pa_Vout p) (displayHex (AssetA (pa_Order p))) = (lk, Inr sel)"
      and t: "el_NewTxFromHex lib (fr_RawHex r) = Some t" "fill_tx lib p plan sel amounts f t"
      and calls: "calls = lk @ [SendRaw (fr_RawHex r)]" by blast
    from t(2) obtain i ins where ins: "tx_Inputs t = i # ins" "spends lib (pa_Txid p) (pa_Vout p) i"
      "list_all2 (\<lambda>(txid, vout). spends lib txid vout) (coin_refs (fd_inputs sel)) ins"
      by (auto simp: fill_tx_def coin_refs_def list_all2_map1)
    from gate_and_send_calls(2) [OF send] t(1) ins calls selected_coins [OF prep assms(8) sel] show ?thesis
      unfolding run Inr prod.case sum.case by simp
  next
    case (Inl e)
    from FillCovenant_Inl [OF run [unfolded Inl] assms(5,8)] show ?thesis unfolding run Inl prod.case sum.case .
  qed
qed

theorem covenant_fill_calls_witness:
  "\<exists>r refs. FillCovenant demo_crypto demo_lib demo_ahb demo_fill = ([LockUnspent False refs, SendRaw (fr_RawHex r)], Inr r) \<and> refs \<noteq> []"
proof -
  obtain calls r where fill: "FillCovenant demo_crypto demo_lib demo_ahb demo_fill = (calls, Inr r)" using demo_filled by blast
  have node: "pa_Node demo_fill = Some demo_node" "pa_Order demo_fill = ask_order" by (simp_all add: demo_fill_def)
  have len: "length (AssetA (pa_Order demo_fill)) = 32" "length (AssetB (pa_Order demo_fill)) = 32"
    by (simp_all add: node) (simp_all add: ask_order_def)
  have "unat (pa_FeeAtoms demo_fill) < 2 ^ 63" by (simp add: demo_fill_def)
  from covenant_fill_calls [OF demo_value_law demo_codec_law demo_fill_sign_law demo_asset_law node(1) len this, of demo_crypto] fill
  show ?thesis by auto
qed

end
