(* ===== verification/Swap_Terms.thy ===== *)
theory Swap_Terms
  imports Settler
begin

text \<open>
  The arithmetic of the swap drivers (\<open>internal/seqob/client\<close>: \<open>stubwallet.go\<close>, \<open>xdriver_subasset.go\<close>, \<open>xdriver.go\<close>,
  \<open>xminslice.go\<close>, \<open>offerbind.go\<close>) and of the cross-chain engine (\<open>pkg/xchain\<close>: \<open>cltv.go\<close>, fee sizing of \<open>orchestrator.go\<close>):
  prices of slices, minimum slices, fees in the leg's own asset, and deadlines across chains.
\<close>

section \<open>Slices of an offer\<close>

text \<open>\<open>bits.Div64\<close> panics when the divisor is zero or the quotient needs more than 64 bits; \<open>None\<close> is the panic.\<close>

definition mulDiv64 :: "u64 \<Rightarrow> u64 \<Rightarrow> u64 \<Rightarrow> (u64 \<times> u64) option" where
  "mulDiv64 a b d = (let (hi, lo) = bits_Mul64 a b in if d \<le> hi then None else Some (bits_Div64 hi lo d))"

definition ProportionalBtc :: "u64 \<Rightarrow> u64 \<Rightarrow> u64 \<Rightarrow> u64 option" where
  "ProportionalBtc wholeBtc takeAsset wholeAsset =
     (if wholeAsset = 0 \<or> wholeAsset \<le> takeAsset then Some wholeBtc
      else map_option (\<lambda>(q, rem). if rem \<noteq> 0 then q + 1 else q) (mulDiv64 wholeBtc takeAsset wholeAsset))"

definition ProportionalBtcFloor :: "u64 \<Rightarrow> u64 \<Rightarrow> u64 \<Rightarrow> u64 option" where
  "ProportionalBtcFloor wholeBtc takeAsset wholeAsset =
     (if wholeAsset = 0 \<or> wholeAsset \<le> takeAsset then Some wholeBtc
      else map_option fst (mulDiv64 wholeBtc takeAsset wholeAsset))"

datatype prorata_error = InvalidTake | TakeTooSmall

definition proRata :: "offer \<Rightarrow> u64 \<Rightarrow> (prorata_error, u64 \<times> u64) result option" where
  "proRata ofr takeBase =
     (let base = BaseAmount ofr in
      if base = 0 \<or> takeBase = 0 \<or> base < takeBase then Some (Inl InvalidTake)
      else case (mulDiv64 (OfferAmount ofr) takeBase base, mulDiv64 (WantAmount ofr) takeBase base) of
          (Some (recv, _), Some (q, rem)) \<Rightarrow>
            (let pay = (if rem \<noteq> 0 then q + 1 else q) in
             Some (if recv = 0 \<or> pay = 0 then Inl TakeTooSmall else Inr (recv, pay)))
        | _ \<Rightarrow> None)"

section \<open>Fees and minimum slices\<close>

definition xcSafeFee :: "u64 \<Rightarrow> u64 \<Rightarrow> u64" where
  "xcSafeFee spendFee legAmount = (let mx = legAmount div 2 in if mx < spendFee then mx else spendFee)"

text \<open>The published rate of the leg's asset, if there is one. The product is taken in 64 bits.\<close>

definition xcSeqLegFee :: "u64 option \<Rightarrow> u64 \<Rightarrow> u64 \<Rightarrow> u64" where
  "xcSeqLegFee rate spendFee legAmount =
     (let fee =
        (case rate of
           Some r \<Rightarrow> if 0 < r then (let f = (spendFee * 100000000 + r - 1) div r in if f = 0 then 1 else f) else spendFee
         | None \<Rightarrow> spendFee)
      in xcSafeFee fee legAmount)"

datatype fee_error = RateUnknown | RateUnlisted | FeeOverflow

text \<open>\<open>sizeSeqSpendFee\<close>: the reply of the node is an error (\<open>None\<close>), unlisted (\<open>Some None\<close>) or a rate. A swap without a
  Sequentia chain (\<open>chain = False\<close>) takes the target as it is. A listed rate of zero divides by zero: \<open>None\<close>.\<close>

definition sizeSeqSpendFee :: "bool \<Rightarrow> u64 option option \<Rightarrow> u64 \<Rightarrow> u64 \<Rightarrow> (fee_error, u64) result option" where
  "sizeSeqSpendFee chain reply legAmount targetNativeFee =
     (let clamp = (\<lambda>fee. if legAmount div 2 < fee then legAmount div 2 else fee) in
      if \<not> chain then Some (Inr (clamp targetNativeFee))
      else case reply of
          None \<Rightarrow> Some (Inl RateUnknown)
        | Some None \<Rightarrow> Some (Inl RateUnlisted)
        | Some (Some rate) \<Rightarrow>
            (let (hi, lo) = bits_Mul64 targetNativeFee 100000000 in
             if hi \<noteq> 0 then Some (Inl FeeOverflow)
             else if rate = 0 then None
             else (let fee = (lo + rate - 1) div rate in Some (Inr (clamp (if fee = 0 then 1 else fee))))))"

definition btcDustLimit :: u64 where "btcDustLimit = 546"
definition legSpendFeeFloor :: u64 where "legSpendFeeFloor = 1000"

definition MinSafeBtcLegSats :: "u64 \<Rightarrow> u64" where
  "MinSafeBtcLegSats spendFeeSats =
     (let fee = (if spendFeeSats < legSpendFeeFloor then legSpendFeeFloor else spendFeeSats) in btcDustLimit + 2 * fee)"

definition minSafeAssetLeg :: "u64 option \<Rightarrow> u64 \<Rightarrow> u64" where
  "minSafeAssetLeg rate spendFeeSats =
     (let fee = (if spendFeeSats < legSpendFeeFloor then legSpendFeeFloor else spendFeeSats);
          fee = (case rate of
                   Some r \<Rightarrow> if 0 < r then (let f = (fee * 100000000 + r - 1) div r in if f = 0 then 1 else f) else fee
                 | None \<Rightarrow> fee)
      in 1 + 2 * fee)"

definition MinFillBase :: "u64 \<Rightarrow> u64 \<Rightarrow> u64 \<Rightarrow> u64 option" where
  "MinFillBase wholeBtc wholeAsset spendFeeSats =
     (if wholeAsset = 0 then Some 0
      else (let minB = MinSafeBtcLegSats spendFeeSats in
        if wholeBtc \<le> minB then Some wholeAsset
        else map_option (\<lambda>(q, rem).
               let q = (if rem \<noteq> 0 then q + 1 else q); q = (if q = 0 then 1 else q) in if wholeAsset < q then wholeAsset else q)
             (mulDiv64 minB wholeAsset wholeBtc)))"

text \<open>The guards of a partial take: \<open>False\<close> is the error.\<close>

definition minSafeBtcErr :: "u64 \<Rightarrow> u64 \<Rightarrow> u64 \<Rightarrow> u64 \<Rightarrow> bool" where
  "minSafeBtcErr takeSeq whole btcLeg spendFeeSats \<longleftrightarrow> whole \<le> takeSeq \<or> MinSafeBtcLegSats spendFeeSats \<le> btcLeg"

definition minSafeAssetErr :: "u64 option \<Rightarrow> u64 \<Rightarrow> u64 \<Rightarrow> u64 \<Rightarrow> u64 \<Rightarrow> bool" where
  "minSafeAssetErr rate takeSeq whole assetLeg spendFeeSats \<longleftrightarrow> whole \<le> takeSeq \<or> minSafeAssetLeg rate spendFeeSats \<le> assetLeg"

section \<open>The maker's check of a request\<close>

record swap_request =
  sr_AssetP :: string
  sr_AmountP :: u64
  sr_AssetR :: string
  sr_AmountR :: u64

datatype bind_error = WrongAssetP | WrongAssetR | ZeroAmount | AboveOffer | Underpays

definition ValidateRequestAgainstOffer :: "swap_request \<Rightarrow> offer \<Rightarrow> (bind_error, unit) result" where
  "ValidateRequestAgainstOffer req ofr =
     (if sr_AssetP req \<noteq> WantAsset ofr then Inl WrongAssetP
      else if sr_AssetR req \<noteq> OfferAsset ofr then Inl WrongAssetR
      else if sr_AmountP req = 0 \<or> sr_AmountR req = 0 then Inl ZeroAmount
      else if OfferAmount ofr < sr_AmountR req then Inl AboveOffer
      else if unat (sr_AmountP req) * unat (OfferAmount ofr) < unat (WantAmount ofr) * unat (sr_AmountR req) then Inl Underpays
      else Inr ())"

section \<open>Amounts as decimal text\<close>

definition pad8 :: "string \<Rightarrow> string" where
  "pad8 s = replicate (8 - length s) CHR ''0'' @ s"

definition atomsToCoins :: "u64 \<Rightarrow> string" where
  "atomsToCoins a = decimal (unat a div 100000000) @ ''.'' @ pad8 (decimal (unat a mod 100000000))"

section \<open>Deadlines across chains\<close>

record chain_timing =
  tm_Nominal :: u32
  tm_Fast :: u32
  tm_Slow :: u32

definition BTCTiming :: chain_timing where
  "BTCTiming = \<lparr>tm_Nominal = 600, tm_Fast = 150, tm_Slow = 900\<rparr>"

definition SeqTiming :: chain_timing where
  "SeqTiming = \<lparr>tm_Nominal = 60, tm_Fast = 60, tm_Slow = 90\<rparr>"

text \<open>Seconds are 64-bit words, the result is cut to 32 bits.\<close>

definition CoverDelay :: "u32 \<Rightarrow> chain_timing \<Rightarrow> chain_timing \<Rightarrow> u32 \<Rightarrow> u32" where
  "CoverDelay outDelay ot it marginSecs =
     (let secs = (ucast outDelay * ucast (tm_Slow ot) + ucast marginSecs :: u64) in
      ucast ((secs + ucast (tm_Fast it) - 1) div ucast (tm_Fast it)))"

definition CapDelay :: "u32 \<Rightarrow> chain_timing \<Rightarrow> chain_timing \<Rightarrow> u32 \<Rightarrow> u32" where
  "CapDelay inRemaining it ot marginSecs =
     (let secs = (ucast inRemaining * ucast (tm_Fast it) :: u64) in
      if secs \<le> ucast marginSecs then 0 else ucast ((secs - ucast marginSecs) div ucast (tm_Slow ot)))"

definition RouteAllowance :: "chain_timing \<Rightarrow> u32" where
  "RouteAllowance t = (if 600 \<le> tm_Nominal t then 24 else 120)"

end
