(* ===== verification/Chain_Rpc.thy ===== *)
theory Chain_Rpc
  imports Chain_Watcher Relay_Rest Swap_Terms
begin

text \<open>
  The node behind the chain watcher (\<open>watcher/chainview_rpc.go\<close>): the lookup of a covenant outpoint and of its spender by
  JSON-RPC, and the exact reading of decimal amounts. The replies of the node are a parameter, the same for all calls of one
  inspection; \<open>None\<close> is a failed call.
\<close>

section \<open>Amounts\<close>

text \<open>\<open>strconv.ParseUint\<close> in base 10 at 64 bits, and \<open>strings.Cut\<close> at the first dot.\<close>

definition ParseUint :: "string \<Rightarrow> u64 option" where
  "ParseUint s = (case parse_digits s of Some n \<Rightarrow> if n < 18446744073709551616 then Some (of_int n) else None | None \<Rightarrow> None)"

definition cut_dot :: "string \<Rightarrow> string \<times> string" where
  "cut_dot s = (takeWhile (\<lambda>c. c \<noteq> CHR ''.'') s, drop 1 (dropWhile (\<lambda>c. c \<noteq> CHR ''.'') s))"

definition number_atoms :: "string \<Rightarrow> u64" where
  "number_atoms v =
     (let s = strings_TrimSpace v in
      if s = '''' \<or> HasPrefix s ''-'' \<or> list_ex (\<lambda>c. c = CHR ''e'' \<or> c = CHR ''E'') s then 0
      else
        (let (whole, frac) = cut_dot s;
             frac = (if 8 < length frac then take 8 frac else frac);
             frac = frac @ replicate (8 - length frac) CHR ''0'';
             whole = (if whole = '''' then ''0'' else whole) in
         case ParseUint whole of
           None \<Rightarrow> 0
         | Some w \<Rightarrow>
             if 18446744073709551615 div 100000000 < w then 0
             else (case ParseUint frac of None \<Rightarrow> 0 | Some f \<Rightarrow> w * 100000000 + f)))"

section \<open>The node\<close>

record rpc_txout =
  rt_Confirmations :: int
  rt_Value :: string
  rt_Asset :: string
  rt_SPKHex :: string

record rpc_vout =
  rv_N :: u32
  rv_Value :: string
  rv_Asset :: string
  rv_SPKHex :: string

record rawtx =
  rx_Confirmations :: int
  rx_Vin :: "(string \<times> u32) list"
  rx_Vout :: "rpc_vout list"

record chain_rpc =
  rn_getbestblockhash :: "string option"
  rn_getblockcount :: "int option"
  rn_gettxout :: "string \<Rightarrow> u32 \<Rightarrow> rpc_txout option option"
  rn_getrawtransaction :: "string \<Rightarrow> rawtx option"
  rn_getrawmempool :: "string list option"
  rn_getblockhash :: "int \<Rightarrow> string option"
  rn_getblock :: "string \<Rightarrow> string list option"

definition scanWindow :: int where
  "scanWindow = 100"

definition rpc_Tip :: "chain_rpc \<Rightarrow> (string \<times> int) option" where
  "rpc_Tip n =
     (case rn_getbestblockhash n of
        None \<Rightarrow> None
      | Some h \<Rightarrow> (case rn_getblockcount n of None \<Rightarrow> None | Some height \<Rightarrow> Some (h, height)))"

section \<open>The spender\<close>

definition tx_spends :: "string \<Rightarrow> u32 \<Rightarrow> rawtx \<Rightarrow> bool" where
  "tx_spends txid vout t \<longleftrightarrow> list_ex (\<lambda>(i, v). strings_EqualFold i txid \<and> v = vout) (rx_Vin t)"

definition spends_cand :: "chain_rpc \<Rightarrow> string \<Rightarrow> u32 \<Rightarrow> string \<Rightarrow> rawtx option" where
  "spends_cand n txid vout cand =
     (case rn_getrawtransaction n cand of None \<Rightarrow> None | Some t \<Rightarrow> if tx_spends txid vout t then Some t else None)"

fun first_spender :: "chain_rpc \<Rightarrow> string \<Rightarrow> u32 \<Rightarrow> string list \<Rightarrow> (string \<times> rawtx) option" where
  "first_spender n txid vout [] = None"
| "first_spender n txid vout (c # cs) =
     (case spends_cand n txid vout c of Some t \<Rightarrow> Some (c, t) | None \<Rightarrow> first_spender n txid vout cs)"

text \<open>Blocks from the tip down; a missing hash stops the walk, a missing block is passed over. The count is what is left of
  the window.\<close>

fun scan_blocks :: "chain_rpc \<Rightarrow> string \<Rightarrow> u32 \<Rightarrow> int \<Rightarrow> nat \<Rightarrow> (string \<times> rawtx) option" where
  "scan_blocks n txid vout h 0 = None"
| "scan_blocks n txid vout h (Suc k) =
     (if h < 0 then None
      else case rn_getblockhash n h of
          None \<Rightarrow> None
        | Some bh \<Rightarrow>
            (case rn_getblock n bh of
               None \<Rightarrow> scan_blocks n txid vout (h - 1) k
             | Some txs \<Rightarrow>
                 (case first_spender n txid vout txs of Some r \<Rightarrow> Some r | None \<Rightarrow> scan_blocks n txid vout (h - 1) k)))"

definition findSpender :: "chain_rpc \<Rightarrow> string \<Rightarrow> u32 \<Rightarrow> (string \<times> rawtx) option option" where
  "findSpender n txid vout =
     (case (case rn_getrawmempool n of None \<Rightarrow> None | Some mempool \<Rightarrow> first_spender n txid vout mempool) of
        Some r \<Rightarrow> Some (Some r)
      | None \<Rightarrow>
          (case rn_getblockcount n of
             None \<Rightarrow> None | Some height \<Rightarrow> Some (scan_blocks n txid vout height (nat scanWindow))))"

fun spentInputIndex :: "(string \<times> u32) list \<Rightarrow> string \<Rightarrow> u32 \<Rightarrow> u32 \<Rightarrow> u32 option" where
  "spentInputIndex [] txid vout i = None"
| "spentInputIndex ((t, v) # ins) txid vout i =
     (if strings_EqualFold t txid \<and> v = vout then Some i else spentInputIndex ins txid vout (i + 1))"

definition remainder_at :: "rawtx \<Rightarrow> u32 \<Rightarrow> string \<Rightarrow> string \<Rightarrow> remainder_out" where
  "remainder_at t ri orderSPKHex assetADisplay =
     (case find (\<lambda>o'. rv_N o' = ri \<and> strings_EqualFold (rv_SPKHex o') orderSPKHex \<and> strings_EqualFold (rv_Asset o') assetADisplay) (rx_Vout t) of
        Some o' \<Rightarrow> \<lparr>ro_Present = True, ro_Vout = rv_N o', ro_Value = number_atoms (rv_Value o')\<rparr>
      | None \<Rightarrow> \<lparr>ro_Present = False, ro_Vout = 0, ro_Value = 0\<rparr>)"

definition zero_state :: cov_state where
  "zero_state =
     \<lparr>cs_Unspent = False, cs_Value = 0, cs_AssetDisplay = '''', cs_SPKHex = '''', cs_ConfirmedUTXO = False, cs_SpenderTxid = '''',
      cs_SpenderConfirmed = False, cs_Remainder = \<lparr>ro_Present = False, ro_Vout = 0, ro_Value = 0\<rparr>\<rparr>"

text \<open>A spender whose id is the empty string counts as none.\<close>

definition rpc_Inspect :: "chain_rpc \<Rightarrow> string \<Rightarrow> u32 \<Rightarrow> string \<Rightarrow> string \<Rightarrow> cov_state option" where
  "rpc_Inspect n txid vout orderSPKHex assetADisplay =
     (case rn_gettxout n txid vout of
        None \<Rightarrow> None
      | Some (Some u) \<Rightarrow>
          Some (zero_state\<lparr>cs_Unspent := True, cs_Value := number_atoms (rt_Value u), cs_AssetDisplay := rt_Asset u,
            cs_SPKHex := rt_SPKHex u, cs_ConfirmedUTXO := (1 \<le> rt_Confirmations u)\<rparr>)
      | Some None \<Rightarrow>
          (case findSpender n txid vout of
             None \<Rightarrow> None
           | Some None \<Rightarrow> Some zero_state
           | Some (Some (s, t)) \<Rightarrow>
               if s = '''' then Some zero_state
               else Some (zero_state\<lparr>cs_SpenderTxid := s, cs_SpenderConfirmed := (1 \<le> rx_Confirmations t),
                 cs_Remainder := (case spentInputIndex (rx_Vin t) txid vout 0 of
                    Some k \<Rightarrow> remainder_at t (2 * k + 1) orderSPKHex assetADisplay | None \<Rightarrow> cs_Remainder zero_state)\<rparr>)))"

definition NewRPCChain :: "chain_rpc \<Rightarrow> chain_view" where
  "NewRPCChain n = \<lparr>cv_Tip = rpc_Tip n, cv_Inspect = rpc_Inspect n\<rparr>"

end
