(* ===== verification/Chain_Rpc_Properties.thy ===== *)
theory Chain_Rpc_Properties
  imports Chain_Rpc
begin

text \<open>
  Properties of the node view: amounts survive the way through decimal text, and an inspection followed by the classifier says what
  the node's mempool and recent blocks hold.
\<close>

section \<open>Decimal text\<close>

definition digits_value :: "int \<Rightarrow> string \<Rightarrow> int" where
  "digits_value n ds = foldl (\<lambda>n d. 10 * n + (of_char d - 48)) n ds"

definition all_digits :: "string \<Rightarrow> bool" where
  "all_digits = list_all (\<lambda>d. (48 :: int) \<le> of_char d \<and> of_char d \<le> (57 :: int))"

lemma parse_digits_iff: "parse_digits ds = (if ds = [] \<or> \<not> all_digits ds then None else Some (digits_value 0 ds))"
  by (simp add: parse_digits_def all_digits_def digits_value_def)

lemma digits_simps [simp]:
  "digits_value n [] = n" "digits_value n (xs @ ys) = digits_value (digits_value n xs) ys" "digits_value n [d] = 10 * n + (of_char d - 48)"
  "all_digits []" "all_digits (xs @ ys) \<longleftrightarrow> all_digits xs \<and> all_digits ys"
  by (simp_all add: digits_value_def all_digits_def)

lemma of_char_digit: "n < 10 \<Longrightarrow> (of_char (char_of (48 + n)) :: int) = 48 + int n"
proof -
  assume "n < 10"
  have "(of_char (char_of (48 + n)) :: int) = int (of_char (char_of (48 + n)))" by (simp only: of_nat_of_char)
  also have "\<dots> = int ((48 + n) mod 256)" by (simp only: of_char_of)
  finally show ?thesis using \<open>n < 10\<close> by simp
qed

lemma decimal_digits: "decimal n \<noteq> [] \<and> all_digits (decimal n) \<and> digits_value 0 (decimal n) = int n"
proof (induction n rule: decimal.induct)
  case (1 n)
  show ?case
  proof (cases "n < 10")
    case True
    then show ?thesis by (simp add: decimal.simps [of n] all_digits_def of_char_digit)
  next
    case False
    have "int n = 10 * int (n div 10) + int (n mod 10)" by presburger
    with 1 False show ?thesis by (simp add: decimal.simps [of n] all_digits_def of_char_digit)
  qed
qed

lemma decimal_length: "n < 10 ^ k \<Longrightarrow> 0 < k \<Longrightarrow> length (decimal n) \<le> k"
proof (induction k arbitrary: n)
  case (Suc k)
  show ?case
  proof (cases "n < 10")
    case False
    then have "0 < k" using Suc.prems(1) by (cases k) auto
    moreover have "n div 10 < 10 ^ k" using Suc.prems(1) by (simp add: less_mult_imp_div_less mult.commute)
    ultimately have "length (decimal (n div 10)) \<le> k" by (rule Suc.IH [rotated])
    with False show ?thesis by (simp add: decimal.simps [of n])
  qed (simp add: decimal.simps [of n])
qed simp

lemma zeros_digits: "all_digits (replicate k CHR ''0'')" "digits_value 0 (replicate k CHR ''0'') = 0"
proof -
  show "all_digits (replicate k CHR ''0'')" by (induction k) (auto simp: all_digits_def)
  show "digits_value 0 (replicate k CHR ''0'') = 0" by (induction k) (simp_all add: digits_value_def)
qed

lemma pad8_decimal:
  assumes "n < 100000000"
  shows "length (pad8 (decimal n)) = 8" "ParseUint (pad8 (decimal n)) = Some (of_nat n)"
proof -
  have "length (decimal n) \<le> 8" using decimal_length [of n 8] assms by simp
  then show "length (pad8 (decimal n)) = 8" by (simp add: pad8_def)
  show "ParseUint (pad8 (decimal n)) = Some (of_nat n)"
    using decimal_digits [of n] assms by (simp add: ParseUint_def parse_digits_iff pad8_def zeros_digits)
qed

lemma ParseUint_decimal: "n < 2 ^ 64 \<Longrightarrow> ParseUint (decimal n) = Some (of_nat n)"
  using decimal_digits [of n] by (simp add: ParseUint_def parse_digits_iff)

section \<open>Amounts\<close>

lemma digit_code: "all_digits [c] \<longleftrightarrow> 48 \<le> (of_char c :: nat) \<and> of_char c \<le> (57 :: nat)"
proof -
  have "(of_char c :: int) = int (of_char c)" by (simp only: of_nat_of_char)
  then show ?thesis by (simp add: all_digits_def)
qed

lemma TrimSpace_digits:
  assumes "all_digits [c]" "all_digits [d]"
  shows "strings_TrimSpace ((c # xs) @ [d]) = (c # xs) @ [d]"
proof -
  have c: "48 \<le> (of_char c :: nat)" "of_char c \<le> (57 :: nat)" and d: "48 \<le> (of_char d :: nat)" "of_char d \<le> (57 :: nat)"
    using assms by (simp_all add: digit_code)
  have "leading_space (char_codes ((c # xs) @ [d])) = 0"
    using c by (cases xs; cases "tl xs") (auto simp: char_codes_def)
  then have lead: "trim_leading ((c # xs) @ [d]) = (c # xs) @ [d]" by (subst trim_leading.simps) simp
  have "leading_space [x, y, of_char d] \<noteq> 3" for x y using d by auto
  then have "trailing_space (rev (char_codes ((c # xs) @ [d]))) = 0"
    using d by (auto simp: char_codes_def split: list.splits)
  then have "trim_trailing ((c # xs) @ [d]) = (c # xs) @ [d]" by (subst trim_trailing.simps) simp
  with lead show ?thesis by (simp add: strings_TrimSpace_def)
qed

lemma digits_no_letters:
  assumes "all_digits s"
  shows "\<not> list_ex (\<lambda>c. c = CHR ''e'' \<or> c = CHR ''E'') s" "takeWhile (\<lambda>c. c \<noteq> CHR ''.'') (s @ ''.'' @ t) = s"
    "dropWhile (\<lambda>c. c \<noteq> CHR ''.'') (s @ ''.'' @ t) = ''.'' @ t"
  using assms by (induction s) (auto simp: all_digits_def)

lemma number_back: "number_atoms (atomsToCoins a) = a"
proof -
  let ?w = "unat a div 100000000" and ?f = "unat a mod 100000000"
  have w: "decimal ?w \<noteq> []" "all_digits (decimal ?w)" and p: "all_digits (pad8 (decimal ?f))" "length (pad8 (decimal ?f)) = 8"
    using decimal_digits [of ?w] decimal_digits [of ?f] pad8_decimal(1) [of ?f] by (simp_all add: pad8_def zeros_digits)
  obtain c cs where c: "decimal ?w = c # cs" using w(1) by (cases "decimal ?w") auto
  obtain ds d where d: "pad8 (decimal ?f) = ds @ [d]" using p(2) by (cases "pad8 (decimal ?f)" rule: rev_cases) auto
  have cd: "all_digits [c]" "all_digits [d]" using w(2) p(1) c d by (simp_all add: all_digits_def)
  have trim: "strings_TrimSpace (atomsToCoins a) = decimal ?w @ ''.'' @ pad8 (decimal ?f)"
    using TrimSpace_digits [OF cd, of "cs @ ''.'' @ ds"] by (simp add: atomsToCoins_def c d)
  have minus: "\<not> HasPrefix (decimal ?w @ ''.'' @ pad8 (decimal ?f)) ''-''"
    using cd(1) by (auto simp: c HasPrefix_def all_digits_def)
  have letters: "\<not> list_ex (\<lambda>c. c = CHR ''e'' \<or> c = CHR ''E'') (decimal ?w @ ''.'' @ pad8 (decimal ?f))"
    using digits_no_letters(1) w(2) p(1) by simp
  have cut: "cut_dot (decimal ?w @ ''.'' @ pad8 (decimal ?f)) = (decimal ?w, pad8 (decimal ?f))"
    using digits_no_letters(2,3) [OF w(2)] by (simp add: cut_dot_def)
  have wb: "?w \<le> 184467440737" using unat_u64_less [of a] by simp
  then have pw: "ParseUint (decimal ?w) = Some (of_nat ?w)" by (intro ParseUint_decimal) simp
  have pf: "ParseUint (pad8 (decimal ?f)) = Some (of_nat ?f)" by (intro pad8_decimal(2)) simp
  have big: "\<not> (184467440737 :: u64) < of_nat ?w" using wb by (simp add: u64_less u64_unat_of_nat)
  have "of_nat ?w * 100000000 + of_nat ?f = (of_nat (?w * 100000000 + ?f) :: u64)" by (simp only: of_nat_add of_nat_mult of_nat_numeral)
  also have "\<dots> = a" by simp
  finally show ?thesis
    using w(1) pw pf big p(2) minus letters cut unfolding number_atoms_def Let_def trim by simp
qed

text \<open>C40: amounts survive the way through decimal text: the exact reader of the node's decimal values inverts the printer of the swap
  drivers for every 64-bit amount of atoms.\<close>

theorem decimal_amount_roundtrip:
  "number_atoms (atomsToCoins a) = a"
  by (rule number_back)

section \<open>Inspections\<close>

text \<open>What an inspection looks through when every call succeeds: the mempool, then the last hundred blocks from the tip down.\<close>

fun recent_blocks :: "chain_rpc \<Rightarrow> int \<Rightarrow> nat \<Rightarrow> string list" where
  "recent_blocks n h 0 = []"
| "recent_blocks n h (Suc k) = (if h < 0 then [] else the (rn_getblock n (the (rn_getblockhash n h))) @ recent_blocks n (h - 1) k)"

definition block_known :: "chain_rpc \<Rightarrow> int \<Rightarrow> bool" where
  "block_known n h \<longleftrightarrow> (\<exists>bh txs. rn_getblockhash n h = Some bh \<and> rn_getblock n bh = Some txs)"

lemma first_spender_append:
  "first_spender n txid vout (xs @ ys) =
     (case first_spender n txid vout xs of Some r \<Rightarrow> Some r | None \<Rightarrow> first_spender n txid vout ys)"
  by (induction xs) (auto split: option.splits)

lemma scan_blocks_recent:
  assumes "\<And>i. 0 \<le> i \<Longrightarrow> i \<le> h \<Longrightarrow> block_known n i"
  shows "scan_blocks n txid vout h k = first_spender n txid vout (recent_blocks n h k)"
  using assms
proof (induction k arbitrary: h)
  case (Suc k)
  show ?case
  proof (cases "h < 0")
    case False
    then obtain bh txs where "rn_getblockhash n h = Some bh" "rn_getblock n bh = Some txs"
      using Suc.prems [of h] by (auto simp: block_known_def)
    with False Suc.IH [of "h - 1"] Suc.prems show ?thesis by (simp add: first_spender_append split: option.split)
  qed simp
qed simp

lemma first_spender_find:
  "first_spender n txid vout xs =
     (case find (\<lambda>c. spends_cand n txid vout c \<noteq> None) xs of Some c \<Rightarrow> Some (c, the (spends_cand n txid vout c)) | None \<Rightarrow> None)"
  by (induction xs) (auto split: option.splits)

lemma find_mem: "find P xs = Some x \<Longrightarrow> x \<in> set xs \<and> P x"
  by (induction xs) (auto split: if_splits)

lemma spentInputIndex_first:
  "spentInputIndex ins txid vout i = Some k \<Longrightarrow>
     \<exists>j. k = i + of_nat j \<and> j < length ins \<and> strings_EqualFold (fst (ins ! j)) txid \<and> snd (ins ! j) = vout"
proof (induction ins arbitrary: i)
  case (Cons a ins)
  obtain t v where a: "a = (t, v)" by fastforce
  show ?case
  proof (cases "strings_EqualFold t txid \<and> v = vout")
    case True
    with Cons.prems a show ?thesis by (intro exI [of _ 0]) auto
  next
    case False
    with Cons.prems a have "spentInputIndex ins txid vout (i + 1) = Some k" by auto
    from Cons.IH [OF this] obtain j where "k = i + 1 + of_nat j" "j < length ins" "strings_EqualFold (fst (ins ! j)) txid" "snd (ins ! j) = vout" by blast
    then show ?thesis by (intro exI [of _ "Suc j"]) simp
  qed
qed simp

lemma spends_has_index: "list_ex (\<lambda>(i, v). strings_EqualFold i txid \<and> v = vout) ins \<Longrightarrow> \<exists>k. spentInputIndex ins txid vout i = Some k"
  by (induction ins arbitrary: i) auto

text \<open>C28: what the node view and the classifier say of a covenant outpoint that is gone: when the node answers every call, the first transaction
  of the mempool or of the last hundred blocks, from the tip down, that spends the outpoint decides: unconfirmed, it holds the order;
  confirmed, with the order's script and asset at twice the index of the spending input plus one, it is a partial fill of the exact size
  of that output; confirmed without such an output, it is a full fill; and only when there is no such transaction is the order a ghost.\<close>

theorem inspection_verdict:
  assumes "rn_gettxout n txid vout = Some None" "rn_getrawmempool n = Some mp" "rn_getblockcount n = Some h"
    "\<And>i. 0 \<le> i \<Longrightarrow> i \<le> h \<Longrightarrow> block_known n i" "[] \<notin> set (mp @ recent_blocks n h 100)"
  shows "\<exists>st. rpc_Inspect n txid vout (ex_OrderSPKHex ex) (ex_AssetADisplay ex) = Some st \<and>
    (case find (\<lambda>c. spends_cand n txid vout c \<noteq> None) (mp @ recent_blocks n h 100) of
       None \<Rightarrow> Classify st ex = no_verdict StateGhost
     | Some s \<Rightarrow>
         \<exists>t k. rn_getrawtransaction n s = Some t \<and> k < length (rx_Vin t) \<and> strings_EqualFold (fst (rx_Vin t ! k)) txid \<and> snd (rx_Vin t ! k) = vout \<and>
           Classify st ex =
             (if rx_Confirmations t < 1 then (no_verdict StateUnconfirmedSpend)\<lparr>vd_SpenderTxid := s\<rparr>
              else case find (\<lambda>x. rv_N x = 2 * of_nat k + 1 \<and> strings_EqualFold (rv_SPKHex x) (ex_OrderSPKHex ex) \<and>
                     strings_EqualFold (rv_Asset x) (ex_AssetADisplay ex)) (rx_Vout t) of
                  Some x \<Rightarrow> (no_verdict StatePartialFill)\<lparr>vd_RemainderTxid := s, vd_RemainderVout := rv_N x, vd_RemainderSize := number_atoms (rv_Value x)\<rparr>
                | None \<Rightarrow> (no_verdict StateFilled)\<lparr>vd_SpenderTxid := s\<rparr>))"
proof -
  let ?all = "mp @ recent_blocks n h 100"
  have find: "findSpender n txid vout = Some (first_spender n txid vout ?all)"
    using assms(2,3) scan_blocks_recent [OF assms(4)]
    by (auto simp: findSpender_def first_spender_append scanWindow_def split: option.splits)
  show ?thesis
  proof (cases "find (\<lambda>c. spends_cand n txid vout c \<noteq> None) ?all")
    case None
    then have "first_spender n txid vout ?all = None" by (simp add: first_spender_find)
    then show ?thesis using find assms(1) None by (simp add: rpc_Inspect_def Classify_def zero_state_def)
  next
    case (Some s)
    from find_mem [OF Some] have mem: "s \<in> set ?all" and "spends_cand n txid vout s \<noteq> None" by blast+
    then obtain t where t: "rn_getrawtransaction n s = Some t" "spends_cand n txid vout s = Some t" "tx_spends txid vout t"
      by (auto simp: spends_cand_def split: option.splits if_splits)
    from mem assms(5) have ne: "s \<noteq> []" by metis
    obtain k where "spentInputIndex (rx_Vin t) txid vout 0 = Some k" using spends_has_index [OF t(3) [unfolded tx_spends_def]] by blast
    then obtain j where j: "spentInputIndex (rx_Vin t) txid vout 0 = Some (of_nat j)" "j < length (rx_Vin t)"
        "strings_EqualFold (fst (rx_Vin t ! j)) txid" "snd (rx_Vin t ! j) = vout"
      using spentInputIndex_first [of "rx_Vin t" txid vout 0] by fastforce
    have "first_spender n txid vout ?all = Some (s, t)" using Some t(2) by (simp add: first_spender_find)
    then have st: "rpc_Inspect n txid vout (ex_OrderSPKHex ex) (ex_AssetADisplay ex) = Some (zero_state\<lparr>cs_SpenderTxid := s,
        cs_SpenderConfirmed := (1 \<le> rx_Confirmations t),
        cs_Remainder := remainder_at t (2 * of_nat j + 1) (ex_OrderSPKHex ex) (ex_AssetADisplay ex)\<rparr>)"
      using find assms(1) ne j(1) by (simp add: rpc_Inspect_def)
    have "Classify (zero_state\<lparr>cs_SpenderTxid := s, cs_SpenderConfirmed := (1 \<le> rx_Confirmations t),
        cs_Remainder := remainder_at t (2 * of_nat j + 1) (ex_OrderSPKHex ex) (ex_AssetADisplay ex)\<rparr>) ex =
      (if rx_Confirmations t < 1 then (no_verdict StateUnconfirmedSpend)\<lparr>vd_SpenderTxid := s\<rparr>
       else case find (\<lambda>x. rv_N x = 2 * of_nat j + 1 \<and> strings_EqualFold (rv_SPKHex x) (ex_OrderSPKHex ex) \<and>
              strings_EqualFold (rv_Asset x) (ex_AssetADisplay ex)) (rx_Vout t) of
           Some x \<Rightarrow> (no_verdict StatePartialFill)\<lparr>vd_RemainderTxid := s, vd_RemainderVout := rv_N x, vd_RemainderSize := number_atoms (rv_Value x)\<rparr>
         | None \<Rightarrow> (no_verdict StateFilled)\<lparr>vd_SpenderTxid := s\<rparr>)"
      using ne by (auto simp: Classify_def zero_state_def remainder_at_def split: option.splits)
    with t(1) j(2-4) show ?thesis unfolding st Some option.case by blast
  qed
qed

text \<open>A chain of one block that holds a confirmed fill of the sample outpoint, which leaves a remainder of 2.5 coins.\<close>

definition fill_rawtx :: rawtx where
  "fill_rawtx =
     \<lparr>rx_Confirmations = 1, rx_Vin = [(''aa'', 0)],
      rx_Vout = [\<lparr>rv_N = 0, rv_Value = ''1.0'', rv_Asset = ''b0'', rv_SPKHex = ''52''\<rparr>,
                 \<lparr>rv_N = 1, rv_Value = atomsToCoins 250000000, rv_Asset = ''a0'', rv_SPKHex = ''51''\<rparr>]\<rparr>"

definition one_block :: chain_rpc where
  "one_block =
     \<lparr>rn_getbestblockhash = Some ''h0'', rn_getblockcount = Some 0, rn_gettxout = (\<lambda>_ _. Some None),
      rn_getrawtransaction = (\<lambda>t. if t = ''ff'' then Some fill_rawtx else None), rn_getrawmempool = Some [],
      rn_getblockhash = (\<lambda>_. Some ''h0''), rn_getblock = (\<lambda>_. Some [''ff''])\<rparr>"

theorem inspection_verdict_witness:
  "\<exists>st. rpc_Inspect one_block ''aa'' 0 ''51'' ''a0'' = Some st \<and>
    Classify st \<lparr>ex_OrderSPKHex = ''51'', ex_AssetADisplay = ''a0'', ex_MinLot = 1\<rparr> =
      (no_verdict StatePartialFill)\<lparr>vd_RemainderTxid := ''ff'', vd_RemainderVout := 1, vd_RemainderSize := 250000000\<rparr>"
proof -
  let ?ex = "\<lparr>ex_OrderSPKHex = ''51'', ex_AssetADisplay = ''a0'', ex_MinLot = 1\<rparr> :: expect"
  have rec: "recent_blocks one_block 0 100 = [''ff'']" using recent_blocks.simps(2) [of one_block 0 99]
    by (simp add: one_block_def numeral_eq_Suc)
  have known: "block_known one_block i" for i by (simp add: block_known_def one_block_def)
  have "[] \<notin> set ([] @ recent_blocks one_block 0 100)" by (simp add: rec)
  from inspection_verdict [OF _ _ _ known this, of "''aa''" 0 ?ex]
  obtain st where st: "rpc_Inspect one_block ''aa'' 0 ''51'' ''a0'' = Some st"
    and v: "case find (\<lambda>c. spends_cand one_block ''aa'' 0 c \<noteq> None) [''ff''] of
       None \<Rightarrow> Classify st ?ex = no_verdict StateGhost
     | Some s \<Rightarrow>
         \<exists>t k. rn_getrawtransaction one_block s = Some t \<and> k < length (rx_Vin t) \<and> strings_EqualFold (fst (rx_Vin t ! k)) ''aa'' \<and> snd (rx_Vin t ! k) = 0 \<and>
           Classify st ?ex =
             (if rx_Confirmations t < 1 then (no_verdict StateUnconfirmedSpend)\<lparr>vd_SpenderTxid := s\<rparr>
              else case find (\<lambda>x. rv_N x = 2 * of_nat k + 1 \<and> strings_EqualFold (rv_SPKHex x) (ex_OrderSPKHex ?ex) \<and>
                     strings_EqualFold (rv_Asset x) (ex_AssetADisplay ?ex)) (rx_Vout t) of
                  Some x \<Rightarrow> (no_verdict StatePartialFill)\<lparr>vd_RemainderTxid := s, vd_RemainderVout := rv_N x, vd_RemainderSize := number_atoms (rv_Value x)\<rparr>
                | None \<Rightarrow> (no_verdict StateFilled)\<lparr>vd_SpenderTxid := s\<rparr>)"
    unfolding rec by (auto simp: one_block_def)
  have "spends_cand one_block ''aa'' 0 ''ff'' = Some fill_rawtx"
    by (simp add: spends_cand_def one_block_def tx_spends_def fill_rawtx_def)
  with v have "Classify st ?ex = (no_verdict StatePartialFill)\<lparr>vd_RemainderTxid := ''ff'', vd_RemainderVout := 1,
      vd_RemainderSize := number_atoms (atomsToCoins 250000000)\<rparr>"
    by (auto simp: one_block_def fill_rawtx_def)
  with st show ?thesis by (simp add: number_back)
qed

text \<open>A call that fails while the blocks are searched is taken for the end of the chain: with the hash of the tip missing, an order whose fill is
  confirmed in the tip is classified as a ghost.\<close>

lemma failed_scan_is_ghost:
  assumes "rn_gettxout n txid vout = Some None" "rn_getrawmempool n = None" "rn_getblockcount n = Some h" "rn_getblockhash n h = None"
  shows "\<exists>st. rpc_Inspect n txid vout (ex_OrderSPKHex ex) (ex_AssetADisplay ex) = Some st \<and> Classify st ex = no_verdict StateGhost"
proof -
  have "scan_blocks n txid vout h 100 = None" using assms(4) scan_blocks.simps(2) [of n txid vout h 99] by (simp add: numeral_eq_Suc)
  then show ?thesis using assms by (simp add: rpc_Inspect_def findSpender_def scanWindow_def Classify_def zero_state_def)
qed

end
