(* ===== verification/Swap_Run.thy ===== *)
theory Swap_Run
  imports Swap_Terms
begin

text \<open>
  The seams of the swap drivers (\<open>internal/seqob/client\<close>): the courier messages (\<open>xcourier.go\<close>), the settlement interface
  \<open>XcOps\<close> of \<open>xdriver.go\<close>, and the runs of a driver. The world outside a driver (nodes, wallet, courier, clock, user) is
  the record \<open>xc_env\<close>; each of its replies may depend on everything that has happened so far, so it can act as an adversary.
  A run is an action on a state that holds the events so far and the driver's result record. A loop that waits takes a bound
  on its turns; \<open>Running\<close> is a run that has used it up, so the events of a run with a bound are those of a prefix of the
  driver's life. Texts of log lines, errors and failure messages are not modelled.
\<close>

section \<open>Courier messages\<close>

record xc_leg =
  xl_Txid :: string
  xl_Vout :: u32
  xl_Amount :: u64
  xl_Asset :: string
  xl_RedeemScript :: string
  xl_Locktime :: u32
  xl_Height :: int
  xl_BlockHash :: string
  xl_AnchorHeight :: int

record xc_msg =
  xm_Type :: string
  xm_MakerBtcClaimPub :: string
  xm_MakerSeqClaimPub :: string
  xm_MakerRefundPub :: string
  xm_BtcLocktime :: u32
  xm_SeqLocktime :: u32
  xm_BtcAmount :: u64
  xm_SeqAmount :: u64
  xm_FeeBtc :: u64
  xm_HashH :: string
  xm_TakerSeqClaimPub :: string
  xm_TakerBtcRefundPub :: string
  xm_TakerSeqRefundPub :: string
  xm_TakerBtcClaimPub :: string
  xm_Leg :: "xc_leg option"
  xm_Bolt11 :: string
  xm_MinAnchorDepth :: u32
  xm_SettleTxid :: string
  xm_MakerLNNodeID :: string
  xm_HoldCltv :: u32
  xm_TakerLNNodeID :: string
  xm_Preimage :: string
  xm_Code :: string

definition XcTermsRequest :: string where "XcTermsRequest = ''terms_request''"
definition XcTerms :: string where "XcTerms = ''terms''"
definition XcBtcLegFunded :: string where "XcBtcLegFunded = ''btc_leg_funded''"
definition XcSeqLegLocked :: string where "XcSeqLegLocked = ''seq_leg_locked''"
definition XcBtcLegLocked :: string where "XcBtcLegLocked = ''btc_leg_locked''"
definition XcSeqLegFunded :: string where "XcSeqLegFunded = ''seq_leg_funded''"
definition XcSecretRevealed :: string where "XcSecretRevealed = ''secret_revealed''"
definition XcFail :: string where "XcFail = ''fail''"

definition zero_msg :: xc_msg where
  "zero_msg =
     \<lparr>xm_Type = [], xm_MakerBtcClaimPub = [], xm_MakerSeqClaimPub = [], xm_MakerRefundPub = [], xm_BtcLocktime = 0,
      xm_SeqLocktime = 0, xm_BtcAmount = 0, xm_SeqAmount = 0, xm_FeeBtc = 0, xm_HashH = [], xm_TakerSeqClaimPub = [],
      xm_TakerBtcRefundPub = [], xm_TakerSeqRefundPub = [], xm_TakerBtcClaimPub = [], xm_Leg = None, xm_Bolt11 = [],
      xm_MinAnchorDepth = 0, xm_SettleTxid = [], xm_MakerLNNodeID = [], xm_HoldCltv = 0, xm_TakerLNNodeID = [],
      xm_Preimage = [], xm_Code = []\<rparr>"

definition failMsg :: "string \<Rightarrow> xc_msg" where
  "failMsg code = zero_msg\<lparr>xm_Type := XcFail, xm_Code := code\<rparr>"

section \<open>Legs\<close>

record xkey =
  k_Bytes :: bytes
  k_PubKey :: bytes

record funded_htlc =
  fh_TxID :: string
  fh_Vout :: u32
  fh_Amount :: u64
  fh_AssetID :: string

record leg_lock =
  ll_Script :: bytes
  ll_Funded :: funded_htlc
  ll_Locktime :: u32

text \<open>The arguments of a leg verification.\<close>

record leg_terms =
  lt_HashH :: bytes
  lt_ClaimPub :: bytes
  lt_RefundPub :: bytes
  lt_Script :: bytes
  lt_Locktime :: u32
  lt_Txid :: string
  lt_Vout :: u32
  lt_Amount :: u64
  lt_Asset :: string
  lt_MinConf :: int

record verified_leg =
  vl_Leg :: leg_lock
  vl_Height :: int
  vl_Confirmations :: int
  vl_BlockHash :: string
  vl_ExpectedScript :: bytes

datatype leg_error = LegInvalid | LegUnconfirmed | LegNotSeen | LegReadError

text \<open>\<open>LockSEQLeg\<close> returns no leg, a funded leg without a block, or a leg with the block that confirmed it.\<close>

datatype seq_lock = SeqLockFailed | SeqLockPending leg_lock | SeqLockConfirmed leg_lock string

datatype courier_frame = RecvError | Unreadable | Frame xc_msg

section \<open>Events and the environment\<close>

text \<open>One constructor per call that leaves the driver, with its arguments and the reply. \<open>None\<close> is a failed call.\<close>

datatype 'r xc_event =
    EvNow int
  | EvSleep int
  | EvSelect int bool
  | EvCancelled bool
  | EvSend xc_msg bool
  | EvRecv int courier_frame
  | EvPersist 'r
  | EvNewKey "xkey option"
  | EvNewOps bytes bool
  | EvBtcTip "int option"
  | EvBtcConfirmations string "int option"
  | EvLockBTC bytes bytes string u32 "(leg_lock \<times> int) option"
  | EvVerifyBTC leg_terms "(leg_error, verified_leg) result"
  | EvClaimBTC leg_lock xkey u64 "string option"
  | EvRefundBTC leg_lock xkey u32 u64 "string option"
  | EvSeqTip "int option"
  | EvAnchorStatus "(int \<times> string) option"
  | EvBlockOnActiveChain string "bool option"
  | EvBlockAnchorHeight string "int option"
  | EvBlockCertification string "(bool \<times> bool) option"
  | EvBlockHashOfTx string "string option"
  | EvFeeRate string "u64 option"
  | EvLockSEQ bytes bytes string string u32 seq_lock
  | EvVerifySEQ leg_terms "(leg_error, verified_leg) result"
  | EvClaimSEQ leg_lock xkey u64 "string option"
  | EvWatchSEQ leg_lock "(string \<times> bytes) option"
  | EvRefundSEQ leg_lock xkey u32 u64 "string option"
  | EvSeqBroadcast string "string option"

record 'r xc_env =
  xe_sha256 :: "bytes \<Rightarrow> bytes"
  xe_Now :: "'r xc_event list \<Rightarrow> int"
  xe_Select :: "'r xc_event list \<Rightarrow> int \<Rightarrow> bool"
  xe_Cancelled :: "'r xc_event list \<Rightarrow> bool"
  xe_Send :: "'r xc_event list \<Rightarrow> xc_msg \<Rightarrow> bool"
  xe_Recv :: "'r xc_event list \<Rightarrow> int \<Rightarrow> courier_frame"
  xe_NewKey :: "'r xc_event list \<Rightarrow> xkey option"
  xe_NewOps :: "'r xc_event list \<Rightarrow> bytes \<Rightarrow> bool"
  xe_BtcTip :: "'r xc_event list \<Rightarrow> int option"
  xe_BtcConfirmations :: "'r xc_event list \<Rightarrow> string \<Rightarrow> int option"
  xe_LockBTCLeg :: "'r xc_event list \<Rightarrow> bytes \<Rightarrow> bytes \<Rightarrow> string \<Rightarrow> u32 \<Rightarrow> (leg_lock \<times> int) option"
  xe_VerifyBTCLeg :: "'r xc_event list \<Rightarrow> leg_terms \<Rightarrow> (leg_error, verified_leg) result"
  xe_ClaimBTCLeg :: "'r xc_event list \<Rightarrow> leg_lock \<Rightarrow> xkey \<Rightarrow> u64 \<Rightarrow> string option"
  xe_RefundBTCLeg :: "'r xc_event list \<Rightarrow> leg_lock \<Rightarrow> xkey \<Rightarrow> u32 \<Rightarrow> u64 \<Rightarrow> string option"
  xe_SeqTip :: "'r xc_event list \<Rightarrow> int option"
  xe_AnchorStatus :: "'r xc_event list \<Rightarrow> (int \<times> string) option"
  xe_BlockOnActiveChain :: "'r xc_event list \<Rightarrow> string \<Rightarrow> bool option"
  xe_BlockAnchorHeight :: "'r xc_event list \<Rightarrow> string \<Rightarrow> int option"
  xe_BlockCertification :: "'r xc_event list \<Rightarrow> string \<Rightarrow> (bool \<times> bool) option"
  xe_BlockHashOfTx :: "'r xc_event list \<Rightarrow> string \<Rightarrow> string option"
  xe_FeeRate :: "'r xc_event list \<Rightarrow> string \<Rightarrow> u64 option"
  xe_LockSEQLeg :: "'r xc_event list \<Rightarrow> bytes \<Rightarrow> bytes \<Rightarrow> string \<Rightarrow> string \<Rightarrow> u32 \<Rightarrow> seq_lock"
  xe_VerifySEQLeg :: "'r xc_event list \<Rightarrow> leg_terms \<Rightarrow> (leg_error, verified_leg) result"
  xe_ClaimSEQLeg :: "'r xc_event list \<Rightarrow> leg_lock \<Rightarrow> xkey \<Rightarrow> u64 \<Rightarrow> string option"
  xe_WatchSEQClaim :: "'r xc_event list \<Rightarrow> leg_lock \<Rightarrow> (string \<times> bytes) option"
  xe_RefundSEQLeg :: "'r xc_event list \<Rightarrow> leg_lock \<Rightarrow> xkey \<Rightarrow> u32 \<Rightarrow> u64 \<Rightarrow> string option"
  xe_SeqBroadcast :: "'r xc_event list \<Rightarrow> string \<Rightarrow> string option"

section \<open>Runs\<close>

datatype xc_error =
    IncompleteParams | ExpectationsRequired | GoPanic | SendFailed | RecvFailed | WindowElapsed | PeerFailed string
  | XcCanceled | XcBadTerms | AmountTooSmall | NodeError | TooFewConfirmations | HeightUnstable | BtcLockFailed | BtcConfTimeout
  | ClaimWindowClosed | FundWindowClosed | NoLeg | SeqLegMismatch | BadHex | SeqLegInvalid | SeqAnchorBehindBTC
  | AnchorOrdering | AnchorOrderingTerminal | ClaimFailed | RefundNotDue | RefundFailed | BadHash | BadPubkey | AmountTooLarge
  | BtcLegMismatch | OpsFailed | BtcLegInvalid | BtcLegUnverified | BtcLegChanged | SeqLockError | SeqLockUnconfirmed
  | SecretRejected | BtcClaimFailing | XcRefunded

datatype 'a xc_outcome = Ret 'a | Fail xc_error | Running

record 'r run_state =
  st_trace :: "'r xc_event list"
  st_res :: 'r

type_synonym ('r, 'a) act = "'r run_state \<Rightarrow> 'r run_state \<times> 'a xc_outcome"

definition ret :: "'a \<Rightarrow> ('r, 'a) act" where
  "ret x = (\<lambda>s. (s, Ret x))"

definition stop :: "xc_error \<Rightarrow> ('r, 'a) act" where
  "stop er = (\<lambda>s. (s, Fail er))"

definition running :: "('r, 'a) act" where
  "running = (\<lambda>s. (s, Running))"

definition act_bind :: "('r, 'a) act \<Rightarrow> ('a \<Rightarrow> ('r, 'b) act) \<Rightarrow> ('r, 'b) act" where
  "act_bind m f = (\<lambda>s. case m s of (s', Ret x) \<Rightarrow> f x s' | (s', Fail er) \<Rightarrow> (s', Fail er) | (s', Running) \<Rightarrow> (s', Running))"

definition attempt :: "('r, 'a) act \<Rightarrow> ('r, (xc_error, 'a) result) act" where
  "attempt m = (\<lambda>s. case m s of (s', Ret x) \<Rightarrow> (s', Ret (Inr x)) | (s', Fail er) \<Rightarrow> (s', Ret (Inl er)) | (s', Running) \<Rightarrow> (s', Running))"

definition ask :: "('r xc_event list \<Rightarrow> 'a) \<Rightarrow> ('a \<Rightarrow> 'r xc_event) \<Rightarrow> ('r, 'a) act" where
  "ask f ev = (\<lambda>s. let x = f (st_trace s) in (s\<lparr>st_trace := st_trace s @ [ev x]\<rparr>, Ret x))"

definition put_res :: "('r \<Rightarrow> 'r) \<Rightarrow> ('r, unit) act" where
  "put_res f = (\<lambda>s. (s\<lparr>st_res := f (st_res s)\<rparr>, Ret ()))"

text \<open>The caller's persistence callback, called with a snapshot of the result where one is set.\<close>

definition persist :: "bool \<Rightarrow> ('r, unit) act" where
  "persist on = (\<lambda>s. if on then (s\<lparr>st_trace := st_trace s @ [EvPersist (st_res s)]\<rparr>, Ret ()) else (s, Ret ()))"

definition guard :: "xc_error \<Rightarrow> bool \<Rightarrow> ('r, unit) act" where
  "guard er b = (if b then ret () else stop er)"

definition need :: "xc_error \<Rightarrow> 'a option \<Rightarrow> ('r, 'a) act" where
  "need er x = (case x of Some y \<Rightarrow> ret y | None \<Rightarrow> stop er)"

section \<open>The calls\<close>

definition xc_Now :: "'r xc_env \<Rightarrow> ('r, int) act" where "xc_Now e = ask (xe_Now e) EvNow"
definition xc_Sleep :: "int \<Rightarrow> ('r, unit) act" where "xc_Sleep d = ask (\<lambda>_. ()) (\<lambda>_. EvSleep d)"
definition xc_Select :: "'r xc_env \<Rightarrow> int \<Rightarrow> ('r, bool) act" where "xc_Select e d = ask (\<lambda>t. xe_Select e t d) (EvSelect d)"
definition xc_Cancelled :: "'r xc_env \<Rightarrow> ('r, bool) act" where "xc_Cancelled e = ask (xe_Cancelled e) EvCancelled"
definition xc_Send :: "'r xc_env \<Rightarrow> xc_msg \<Rightarrow> ('r, bool) act" where "xc_Send e m = ask (\<lambda>t. xe_Send e t m) (EvSend m)"
definition xc_Recv :: "'r xc_env \<Rightarrow> int \<Rightarrow> ('r, courier_frame) act" where "xc_Recv e d = ask (\<lambda>t. xe_Recv e t d) (EvRecv d)"
definition NewKey :: "'r xc_env \<Rightarrow> ('r, xkey option) act" where "NewKey e = ask (xe_NewKey e) EvNewKey"
definition NewOps :: "'r xc_env \<Rightarrow> bytes \<Rightarrow> ('r, bool) act" where "NewOps e h = ask (\<lambda>t. xe_NewOps e t h) (EvNewOps h)"
definition BtcTip :: "'r xc_env \<Rightarrow> ('r, int option) act" where "BtcTip e = ask (xe_BtcTip e) EvBtcTip"
definition BtcConfirmations :: "'r xc_env \<Rightarrow> string \<Rightarrow> ('r, int option) act" where
  "BtcConfirmations e txid = ask (\<lambda>t. xe_BtcConfirmations e t txid) (EvBtcConfirmations txid)"
definition LockBTCLeg :: "'r xc_env \<Rightarrow> bytes \<Rightarrow> bytes \<Rightarrow> string \<Rightarrow> u32 \<Rightarrow> ('r, (leg_lock \<times> int) option) act" where
  "LockBTCLeg e c r a l = ask (\<lambda>t. xe_LockBTCLeg e t c r a l) (EvLockBTC c r a l)"
definition VerifyBTCLeg :: "'r xc_env \<Rightarrow> leg_terms \<Rightarrow> ('r, (leg_error, verified_leg) result) act" where
  "VerifyBTCLeg e lt = ask (\<lambda>t. xe_VerifyBTCLeg e t lt) (EvVerifyBTC lt)"
definition ClaimBTCLeg :: "'r xc_env \<Rightarrow> leg_lock \<Rightarrow> xkey \<Rightarrow> u64 \<Rightarrow> ('r, string option) act" where
  "ClaimBTCLeg e l k fee = ask (\<lambda>t. xe_ClaimBTCLeg e t l k fee) (EvClaimBTC l k fee)"
definition RefundBTCLeg :: "'r xc_env \<Rightarrow> leg_lock \<Rightarrow> xkey \<Rightarrow> u32 \<Rightarrow> u64 \<Rightarrow> ('r, string option) act" where
  "RefundBTCLeg e l k lt fee = ask (\<lambda>t. xe_RefundBTCLeg e t l k lt fee) (EvRefundBTC l k lt fee)"
definition SeqTip :: "'r xc_env \<Rightarrow> ('r, int option) act" where "SeqTip e = ask (xe_SeqTip e) EvSeqTip"
definition AnchorStatus :: "'r xc_env \<Rightarrow> ('r, (int \<times> string) option) act" where
  "AnchorStatus e = ask (xe_AnchorStatus e) EvAnchorStatus"
definition BlockOnActiveChain :: "'r xc_env \<Rightarrow> string \<Rightarrow> ('r, bool option) act" where
  "BlockOnActiveChain e h = ask (\<lambda>t. xe_BlockOnActiveChain e t h) (EvBlockOnActiveChain h)"
definition BlockAnchorHeight :: "'r xc_env \<Rightarrow> string \<Rightarrow> ('r, int option) act" where
  "BlockAnchorHeight e h = ask (\<lambda>t. xe_BlockAnchorHeight e t h) (EvBlockAnchorHeight h)"
definition BlockCertification :: "'r xc_env \<Rightarrow> string \<Rightarrow> ('r, (bool \<times> bool) option) act" where
  "BlockCertification e h = ask (\<lambda>t. xe_BlockCertification e t h) (EvBlockCertification h)"
definition BlockHashOfTx :: "'r xc_env \<Rightarrow> string \<Rightarrow> ('r, string option) act" where
  "BlockHashOfTx e txid = ask (\<lambda>t. xe_BlockHashOfTx e t txid) (EvBlockHashOfTx txid)"
definition FeeRate :: "'r xc_env \<Rightarrow> string \<Rightarrow> ('r, u64 option) act" where
  "FeeRate e asset = ask (\<lambda>t. xe_FeeRate e t asset) (EvFeeRate asset)"
definition LockSEQLeg :: "'r xc_env \<Rightarrow> bytes \<Rightarrow> bytes \<Rightarrow> string \<Rightarrow> string \<Rightarrow> u32 \<Rightarrow> ('r, seq_lock) act" where
  "LockSEQLeg e c r a asset l = ask (\<lambda>t. xe_LockSEQLeg e t c r a asset l) (EvLockSEQ c r a asset l)"
definition VerifySEQLeg :: "'r xc_env \<Rightarrow> leg_terms \<Rightarrow> ('r, (leg_error, verified_leg) result) act" where
  "VerifySEQLeg e lt = ask (\<lambda>t. xe_VerifySEQLeg e t lt) (EvVerifySEQ lt)"
definition ClaimSEQLeg :: "'r xc_env \<Rightarrow> leg_lock \<Rightarrow> xkey \<Rightarrow> u64 \<Rightarrow> ('r, string option) act" where
  "ClaimSEQLeg e l k fee = ask (\<lambda>t. xe_ClaimSEQLeg e t l k fee) (EvClaimSEQ l k fee)"
definition WatchSEQClaim :: "'r xc_env \<Rightarrow> leg_lock \<Rightarrow> ('r, (string \<times> bytes) option) act" where
  "WatchSEQClaim e l = ask (\<lambda>t. xe_WatchSEQClaim e t l) (EvWatchSEQ l)"
definition RefundSEQLeg :: "'r xc_env \<Rightarrow> leg_lock \<Rightarrow> xkey \<Rightarrow> u32 \<Rightarrow> u64 \<Rightarrow> ('r, string option) act" where
  "RefundSEQLeg e l k lt fee = ask (\<lambda>t. xe_RefundSEQLeg e t l k lt fee) (EvRefundSEQ l k lt fee)"
definition SeqBroadcast :: "'r xc_env \<Rightarrow> string \<Rightarrow> ('r, string option) act" where
  "SeqBroadcast e raw = ask (\<lambda>t. xe_SeqBroadcast e t raw) (EvSeqBroadcast raw)"

end
