(* ===== verification/Swap_Driver.thy ===== *)
theory Swap_Driver
  imports Swap_Run
begin

text \<open>
  The forward cross-chain swap (\<open>client/xdriver.go\<close>): the taker pays bitcoin and holds the secret, the maker delivers the
  asset. Waiting helpers, anchor gates and protocol deadlines, the taker's driver and its refund. \<open>VerifySeqLegSafe\<close> is from
  \<open>pkg/xchain/orchestrator.go\<close>. The argument \<open>n\<close> bounds the turns of each waiting loop.
\<close>

section \<open>Timing\<close>

record xc_timing =
  xt_Poll :: int
  xt_TermsWait :: int
  xt_BtcConfWait :: int
  xt_SeqLockWait :: int
  xt_AnchorWait :: int
  xt_TermsReqWait :: int
  xt_BtcFundWait :: int

definition setDefaults :: "xc_timing \<Rightarrow> xc_timing" where
  "setDefaults t =
     \<lparr>xt_Poll = (if xt_Poll t \<le> 0 then 5 * Second else xt_Poll t),
      xt_TermsWait = (if xt_TermsWait t \<le> 0 then 2 * Minute else xt_TermsWait t),
      xt_BtcConfWait = (if xt_BtcConfWait t \<le> 0 then 90 * Minute else xt_BtcConfWait t),
      xt_SeqLockWait = (if xt_SeqLockWait t \<le> 0 then 15 * Minute else xt_SeqLockWait t),
      xt_AnchorWait = (if xt_AnchorWait t \<le> 0 then 20 * Minute else xt_AnchorWait t),
      xt_TermsReqWait = (if xt_TermsReqWait t \<le> 0 then 25 * Second else xt_TermsReqWait t),
      xt_BtcFundWait = (if xt_BtcFundWait t \<le> 0 then 2 * Hour else xt_BtcFundWait t)\<rparr>"

section \<open>Courier\<close>

definition sendXc :: "'r xc_env \<Rightarrow> xc_msg \<Rightarrow> ('r, unit) act" where
  "sendXc e m = act_bind (xc_Send e m) (guard SendFailed)"

definition sendXcFail :: "'r xc_env \<Rightarrow> string \<Rightarrow> ('r, unit) act" where
  "sendXcFail e code = act_bind (xc_Send e (failMsg code)) (\<lambda>_. ret ())"

text \<open>A failure message to the peer, then the error.\<close>

definition refuse :: "'r xc_env \<Rightarrow> string \<Rightarrow> xc_error \<Rightarrow> ('r, 'a) act" where
  "refuse e code er = act_bind (sendXcFail e code) (\<lambda>_. stop er)"

definition check :: "'r xc_env \<Rightarrow> string \<Rightarrow> xc_error \<Rightarrow> bool \<Rightarrow> ('r, unit) act" where
  "check e code er ok = (if ok then ret () else refuse e code er)"

fun recv_until :: "nat \<Rightarrow> 'r xc_env \<Rightarrow> string \<Rightarrow> int \<Rightarrow> ('r, xc_msg) act" where
  "recv_until 0 e want deadline = running"
| "recv_until (Suc n) e want deadline =
     act_bind (xc_Now e) (\<lambda>now.
       if deadline - now \<le> 0 then stop WindowElapsed
       else act_bind (xc_Recv e (deadline - now)) (\<lambda>fr.
         case fr of
           RecvError \<Rightarrow> stop RecvFailed
         | Unreadable \<Rightarrow> recv_until n e want deadline
         | Frame m \<Rightarrow>
             if xm_Type m = want then ret m
             else if xm_Type m = XcFail then stop (PeerFailed (xm_Code m))
             else recv_until n e want deadline))"

definition recvXcType :: "nat \<Rightarrow> 'r xc_env \<Rightarrow> string \<Rightarrow> int \<Rightarrow> ('r, xc_msg) act" where
  "recvXcType n e want wait = act_bind (xc_Now e) (\<lambda>now. recv_until n e want (now + wait))"

text \<open>\<open>step * 3 / 4\<close> is a quotient of durations, which are positive here.\<close>

fun recv_windows :: "nat \<Rightarrow> nat \<Rightarrow> 'r xc_env \<Rightarrow> string \<Rightarrow> int \<Rightarrow> ('r, unit) act \<Rightarrow> ('r, xc_msg) act" where
  "recv_windows 0 n e want step stillWorthWaiting = running"
| "recv_windows (Suc k) n e want step stillWorthWaiting =
     act_bind stillWorthWaiting (\<lambda>_.
     act_bind (xc_Now e) (\<lambda>started.
     act_bind (attempt (recvXcType n e want step)) (\<lambda>r.
       case r of
         Inr m \<Rightarrow> ret m
       | Inl (PeerFailed code) \<Rightarrow> stop (PeerFailed code)
       | Inl er \<Rightarrow>
           act_bind (if er = WindowElapsed then ret True else act_bind (xc_Now e) (\<lambda>now. ret (step * 3 div 4 \<le> now - started))) (\<lambda>idled.
             if idled then recv_windows k n e want step stillWorthWaiting else stop er))))"

definition recvXcTypeWhile :: "nat \<Rightarrow> 'r xc_env \<Rightarrow> string \<Rightarrow> int \<Rightarrow> ('r, unit) act \<Rightarrow> ('r, xc_msg) act" where
  "recvXcTypeWhile n e want step stillWorthWaiting =
     recv_windows n n e want (if step \<le> 0 then Minute else step) stillWorthWaiting"

section \<open>Protocol deadlines\<close>

text \<open>Whether a tip is within a margin of a lock time, in 32-bit arithmetic; a failed read is not a verdict.\<close>

definition near :: "int option \<Rightarrow> u32 \<Rightarrow> u32 \<Rightarrow> bool" where
  "near tip margin locktime = (case tip of Some h \<Rightarrow> locktime \<le> of_int h + margin | None \<Rightarrow> False)"

record fund_window =
  fw_SeqLocktime :: u32
  fw_MinSeqClaimWindow :: u32
  fw_BtcLocktime :: u32
  fw_MinBtcClaimWindow :: u32

definition fundWindow_check :: "'r xc_env \<Rightarrow> fund_window \<Rightarrow> ('r, xc_error option) act" where
  "fundWindow_check e w =
     act_bind (if 0 < fw_SeqLocktime w \<and> 0 < fw_MinSeqClaimWindow w then SeqTip e else ret None) (\<lambda>seqTip.
       if near seqTip (fw_MinSeqClaimWindow w) (fw_SeqLocktime w) then ret (Some FundWindowClosed)
       else act_bind (if 0 < fw_BtcLocktime w \<and> 0 < fw_MinBtcClaimWindow w then BtcTip e else ret None) (\<lambda>btcTip.
         ret (if near btcTip (fw_MinBtcClaimWindow w) (fw_BtcLocktime w) then Some FundWindowClosed else None)))"

record claim_window =
  cw_SeqLocktime :: u32
  cw_Margin :: u32

definition claimWindow_closed :: "'r xc_env \<Rightarrow> claim_window \<Rightarrow> ('r, xc_error option) act" where
  "claimWindow_closed e w =
     (if cw_SeqLocktime w = 0 \<or> cw_Margin w = 0 then ret (Some XcBadTerms)
      else act_bind (SeqTip e) (\<lambda>seqTip. ret (if near seqTip (cw_Margin w) (cw_SeqLocktime w) then Some FundWindowClosed else None)))"

definition maxFundWaitReadFailures :: nat where "maxFundWaitReadFailures = 60"
definition maxCounterpartyHeightSlack :: int where "maxCounterpartyHeightSlack = 6"

definition anchored :: "(int \<times> string) option \<Rightarrow> int \<Rightarrow> bool" where
  "anchored st target = (case st of Some (h, status) \<Rightarrow> status = ''ok'' \<and> target \<le> h | None \<Rightarrow> False)"

fun anchor_wait :: "nat \<Rightarrow> nat \<Rightarrow> 'r xc_env \<Rightarrow> int \<Rightarrow> fund_window \<Rightarrow> xc_timing \<Rightarrow> ('r, unit) act" where
  "anchor_wait 0 readFails e target w tm = running"
| "anchor_wait (Suc n) readFails e target w tm =
     act_bind (xc_Cancelled e) (\<lambda>cancelled.
       if cancelled then stop XcCanceled
       else act_bind (AnchorStatus e) (\<lambda>st.
         let fails = (if st = None then readFails + 1 else 0) in
         if maxFundWaitReadFailures \<le> fails then stop SeqAnchorBehindBTC
         else if anchored st target then ret ()
         else act_bind (fundWindow_check e w) (\<lambda>closed.
           case closed of
             Some er \<Rightarrow> stop er
           | None \<Rightarrow> act_bind (xc_Select e (xt_Poll tm)) (\<lambda>cancel. if cancel then stop XcCanceled else anchor_wait n fails e target w tm))))"

definition waitSeqAnchorReachesBTCLeg :: "nat \<Rightarrow> 'r xc_env \<Rightarrow> int \<Rightarrow> fund_window \<Rightarrow> xc_timing \<Rightarrow> ('r, unit) act" where
  "waitSeqAnchorReachesBTCLeg n e target w tm = anchor_wait n 0 e target w tm"

definition claimantBtcLegHeight :: "int \<Rightarrow> int \<Rightarrow> int" where
  "claimantBtcLegHeight ours theirs =
     (let limit = ours + maxCounterpartyHeightSlack in
      if limit < theirs then limit else if ours < theirs then theirs else ours)"

fun confirmed_height :: "nat \<Rightarrow> 'r xc_env \<Rightarrow> string \<Rightarrow> int \<Rightarrow> ('r, int) act" where
  "confirmed_height 0 e txid minConf = stop HeightUnstable"
| "confirmed_height (Suc k) e txid minConf =
     act_bind (BtcConfirmations e txid) (\<lambda>r1. act_bind (need NodeError r1) (\<lambda>before.
       if before < minConf then stop TooFewConfirmations
       else act_bind (BtcTip e) (\<lambda>r2. act_bind (need NodeError r2) (\<lambda>tip.
         act_bind (BtcConfirmations e txid) (\<lambda>r3. act_bind (need NodeError r3) (\<lambda>after.
           if after = before then ret (tip - before + 1) else confirmed_height k e txid minConf))))))"

definition btcLegConfirmedHeight :: "'r xc_env \<Rightarrow> string \<Rightarrow> int \<Rightarrow> ('r, int) act" where
  "btcLegConfirmedHeight e txid minConf = confirmed_height 5 e txid minConf"

section \<open>The anchor gate\<close>

record anchor_evidence =
  ae_BTCLegHeight :: int
  ae_SeqBlockHash :: string
  ae_SeqBlockAnchor :: int
  ae_AnchorStatus :: string
  ae_NodeAnchorHeight :: int
  ae_Certified :: bool
  ae_CertPresent :: bool
  ae_OK :: bool

definition VerifySeqLegSafe :: "'r xc_env \<Rightarrow> string \<Rightarrow> int \<Rightarrow> ('r, anchor_evidence) act" where
  "VerifySeqLegSafe e seqBlockHash btcLegHeight =
     act_bind (BlockOnActiveChain e seqBlockHash) (\<lambda>r. act_bind (need NodeError r) (\<lambda>active.
     if \<not> active then stop AnchorOrdering
     else act_bind (BlockAnchorHeight e seqBlockHash) (\<lambda>r. act_bind (need NodeError r) (\<lambda>anchor.
     act_bind (AnchorStatus e) (\<lambda>r. act_bind (need NodeError r) (\<lambda>(nodeHeight, status).
     act_bind (BlockCertification e seqBlockHash) (\<lambda>r. act_bind (need NodeError r) (\<lambda>(certified, certPresent).
       let ok = (btcLegHeight \<le> anchor \<and> status = ''ok'' \<and> (\<not> certPresent \<or> certified)) in
       if ok then ret \<lparr>ae_BTCLegHeight = btcLegHeight, ae_SeqBlockHash = seqBlockHash, ae_SeqBlockAnchor = anchor,
           ae_AnchorStatus = status, ae_NodeAnchorHeight = nodeHeight, ae_Certified = certified, ae_CertPresent = certPresent,
           ae_OK = ok\<rparr>
       else stop (if anchor < btcLegHeight then AnchorOrderingTerminal else AnchorOrdering)))))))))"

text \<open>One reading of the gate: the evidence, or nothing yet. The terminal verdict stops the run.\<close>

definition gate_pass :: "'r xc_env \<Rightarrow> string \<Rightarrow> int \<Rightarrow> ('r, anchor_evidence option) act" where
  "gate_pass e legTxid btcLegHeight =
     act_bind (BlockHashOfTx e legTxid) (\<lambda>bh.
       case bh of
         None \<Rightarrow> ret None
       | Some blockHash \<Rightarrow>
           if blockHash = '''' then ret None
           else act_bind (BlockOnActiveChain e blockHash) (\<lambda>onChain.
             if onChain \<noteq> Some True then ret None
             else act_bind (attempt (VerifySeqLegSafe e blockHash btcLegHeight)) (\<lambda>r.
               case r of
                 Inr ev \<Rightarrow> ret (Some ev)
               | Inl er \<Rightarrow> if er = AnchorOrderingTerminal then stop AnchorOrderingTerminal else ret None)))"

fun gateSeqLeg :: "nat \<Rightarrow> 'r xc_env \<Rightarrow> string \<Rightarrow> int \<Rightarrow> claim_window \<Rightarrow> xc_timing \<Rightarrow> ('r, anchor_evidence) act" where
  "gateSeqLeg 0 e legTxid btcLegHeight w tm = running"
| "gateSeqLeg (Suc n) e legTxid btcLegHeight w tm =
     act_bind (xc_Cancelled e) (\<lambda>cancelled.
       if cancelled then stop XcCanceled
       else act_bind (gate_pass e legTxid btcLegHeight) (\<lambda>r.
         case r of
           Some ev \<Rightarrow> ret ev
         | None \<Rightarrow>
             act_bind (claimWindow_closed e w) (\<lambda>closed.
               case closed of
                 Some er \<Rightarrow> stop er
               | None \<Rightarrow> act_bind (xc_Sleep (xt_Poll tm)) (\<lambda>_. gateSeqLeg n e legTxid btcLegHeight w tm))))"

section \<open>The forward taker\<close>

record taker_params =
  tf_Secret :: bytes
  tf_BtcRefundKey :: "xkey option"
  tf_SeqClaimKey :: "xkey option"
  tf_ExpectAsset :: string
  tf_ExpectSeqAmount :: u64
  tf_ExpectBtcAmount :: u64
  tf_MaxFeeBtc :: u64
  tf_TakeSeqAmount :: u64
  tf_MaxBtcLockDelta :: u32
  tf_MinSeqClaimWindow :: u32
  tf_SeqClaimMargin :: u32
  tf_MinBTCConf :: int
  tf_SpendFeeSats :: u64
  tf_Timing :: xc_timing
  tf_OnBtcLegFunded :: bool

record taker_result =
  tr_Terms :: "xc_msg option"
  tr_BtcLeg :: "leg_lock option"
  tr_BtcLegHeight :: int
  tr_BtcLocktime :: u32
  tr_SeqLeg :: "leg_lock option"
  tr_SeqClaimTxid :: string
  tr_Evidence :: "anchor_evidence option"
  tr_FilledSeq :: u64
  tr_FilledBtc :: u64

definition no_taker_result :: taker_result where
  "no_taker_result = \<lparr>tr_Terms = None, tr_BtcLeg = None, tr_BtcLegHeight = 0, tr_BtcLocktime = 0, tr_SeqLeg = None,
     tr_SeqClaimTxid = [], tr_Evidence = None, tr_FilledSeq = 0, tr_FilledBtc = 0\<rparr>"

definition taker_defaults :: "taker_params \<Rightarrow> taker_params" where
  "taker_defaults p =
     p\<lparr>tf_MaxBtcLockDelta := (if tf_MaxBtcLockDelta p = 0 then 400 else tf_MaxBtcLockDelta p),
       tf_MinSeqClaimWindow := (if tf_MinSeqClaimWindow p = 0 then 120 else tf_MinSeqClaimWindow p),
       tf_SeqClaimMargin := (if tf_SeqClaimMargin p = 0 then 10 else tf_SeqClaimMargin p),
       tf_MinBTCConf := (if tf_MinBTCConf p < 0 then 0 else tf_MinBTCConf p),
       tf_SpendFeeSats := (if tf_SpendFeeSats p = 0 then 1000 else tf_SpendFeeSats p),
       tf_Timing := setDefaults (tf_Timing p)\<rparr>"

definition hex_key :: "string \<Rightarrow> bytes option" where
  "hex_key s = (case hex_DecodeString s of Some b \<Rightarrow> if length b = 33 then Some b else None | None \<Rightarrow> None)"

text \<open>Step 1: the terms.\<close>

definition taker_terms :: "nat \<Rightarrow> taker_result xc_env \<Rightarrow> taker_params \<Rightarrow> (taker_result, xc_msg) act" where
  "taker_terms n e p =
     act_bind (sendXc e (zero_msg\<lparr>xm_Type := XcTermsRequest\<rparr>)) (\<lambda>_.
     act_bind (recvXcType n e XcTerms (xt_TermsWait (tf_Timing p))) (\<lambda>terms.
     act_bind (put_res (\<lambda>r. r\<lparr>tr_Terms := Some terms, tr_BtcLocktime := xm_BtcLocktime terms\<rparr>)) (\<lambda>_. ret terms)))"

text \<open>Step 2: the slice and its price, the two keys, and the lock times.\<close>

definition taker_bind :: "taker_result xc_env \<Rightarrow> taker_params \<Rightarrow> xc_msg \<Rightarrow> (taker_result, u64 \<times> u64) act" where
  "taker_bind e p terms =
     (let takeSeq = (if tf_TakeSeqAmount p = 0 then tf_ExpectSeqAmount p else tf_TakeSeqAmount p) in
      act_bind (check e ''terms_mismatch'' XcBadTerms (takeSeq \<le> tf_ExpectSeqAmount p)) (\<lambda>_.
      act_bind (need GoPanic (ProportionalBtc (tf_ExpectBtcAmount p) takeSeq (tf_ExpectSeqAmount p))) (\<lambda>fundBtc.
      act_bind (check e ''terms_mismatch'' XcBadTerms (xm_SeqAmount terms = takeSeq)) (\<lambda>_.
      act_bind (check e ''terms_mismatch'' XcBadTerms (xm_BtcAmount terms = fundBtc)) (\<lambda>_.
      act_bind (guard XcBadTerms (fundBtc \<noteq> 0)) (\<lambda>_.
      act_bind (check e ''amount_too_small'' AmountTooSmall (minSafeBtcErr takeSeq (tf_ExpectSeqAmount p) fundBtc (tf_SpendFeeSats p))) (\<lambda>_.
      act_bind (if tf_ExpectSeqAmount p \<le> takeSeq then ret None else FeeRate e (tf_ExpectAsset p)) (\<lambda>rate.
      act_bind (check e ''amount_too_small'' AmountTooSmall
        (minSafeAssetErr rate takeSeq (tf_ExpectSeqAmount p) takeSeq (tf_SpendFeeSats p))) (\<lambda>_.
      act_bind (put_res (\<lambda>r. r\<lparr>tr_FilledSeq := takeSeq, tr_FilledBtc := fundBtc\<rparr>)) (\<lambda>_.
      act_bind (check e ''terms_mismatch'' XcBadTerms (xm_FeeBtc terms \<le> tf_MaxFeeBtc p)) (\<lambda>_.
      ret (takeSeq, fundBtc))))))))))))"

definition taker_locktimes :: "taker_result xc_env \<Rightarrow> taker_params \<Rightarrow> xc_msg \<Rightarrow> (taker_result, unit) act" where
  "taker_locktimes e p terms =
     act_bind (BtcTip e) (\<lambda>r. act_bind (need NodeError r) (\<lambda>btcTip.
     act_bind (SeqTip e) (\<lambda>r. act_bind (need NodeError r) (\<lambda>seqTip.
     act_bind (check e ''terms_mismatch'' XcBadTerms
       (of_int btcTip < xm_BtcLocktime terms \<and> xm_BtcLocktime terms \<le> of_int btcTip + tf_MaxBtcLockDelta p)) (\<lambda>_.
     check e ''terms_mismatch'' XcBadTerms (of_int seqTip + tf_MinSeqClaimWindow p \<le> xm_SeqLocktime terms))))))"

text \<open>Step 3: the bitcoin leg and the wait for its confirmation.\<close>

fun conf_wait :: "nat \<Rightarrow> taker_result xc_env \<Rightarrow> taker_params \<Rightarrow> string \<Rightarrow> int \<Rightarrow> (taker_result, int) act" where
  "conf_wait 0 e p txid confDeadline = running"
| "conf_wait (Suc n) e p txid confDeadline =
     act_bind (attempt (btcLegConfirmedHeight e txid (tf_MinBTCConf p))) (\<lambda>r.
       case r of
         Inr h \<Rightarrow> ret h
       | Inl _ \<Rightarrow>
           act_bind (xc_Now e) (\<lambda>now.
             if confDeadline < now then refuse e ''btc_conf_timeout'' BtcConfTimeout
             else act_bind (xc_Sleep (xt_Poll (tf_Timing p))) (\<lambda>_. conf_wait n e p txid confDeadline)))"

definition taker_fund ::
  "nat \<Rightarrow> taker_result xc_env \<Rightarrow> taker_params \<Rightarrow> xc_msg \<Rightarrow> bytes \<Rightarrow> xkey \<Rightarrow> u64 \<Rightarrow> (taker_result, leg_lock \<times> int) act" where
  "taker_fund n e p terms makerBtcClaimPub refundKey fundBtc =
     act_bind (LockBTCLeg e makerBtcClaimPub (k_PubKey refundKey) (atomsToCoins fundBtc) (xm_BtcLocktime terms)) (\<lambda>r.
       case r of
         None \<Rightarrow> refuse e ''btc_lock_failed'' BtcLockFailed
       | Some (btcLeg, hp) \<Rightarrow>
           act_bind (put_res (\<lambda>r. r\<lparr>tr_BtcLeg := Some btcLeg\<rparr>)) (\<lambda>_.
           act_bind (persist (tf_OnBtcLegFunded p)) (\<lambda>_.
           act_bind (if hp \<le> 0
             then act_bind (xc_Now e) (\<lambda>now. conf_wait n e p (fh_TxID (ll_Funded btcLeg)) (now + xt_BtcConfWait (tf_Timing p)))
             else ret hp) (\<lambda>hp.
           act_bind (put_res (\<lambda>r. r\<lparr>tr_BtcLegHeight := hp\<rparr>)) (\<lambda>_. ret (btcLeg, hp))))))"

text \<open>Step 4: the announcement.\<close>

definition taker_announce :: "bytes \<Rightarrow> xkey \<Rightarrow> xkey \<Rightarrow> u64 \<Rightarrow> u64 \<Rightarrow> leg_lock \<Rightarrow> u32 \<Rightarrow> int \<Rightarrow> xc_msg" where
  "taker_announce hashH claimKey refundKey takeSeq fundBtc btcLeg btcLocktime hp =
     zero_msg\<lparr>xm_Type := XcBtcLegFunded, xm_HashH := hex_EncodeToString hashH,
       xm_TakerSeqClaimPub := hex_EncodeToString (k_PubKey claimKey),
       xm_TakerBtcRefundPub := hex_EncodeToString (k_PubKey refundKey),
       xm_SeqAmount := takeSeq, xm_BtcAmount := fundBtc,
       xm_Leg := Some \<lparr>xl_Txid = fh_TxID (ll_Funded btcLeg), xl_Vout = fh_Vout (ll_Funded btcLeg),
         xl_Amount = fh_Amount (ll_Funded btcLeg), xl_Asset = [], xl_RedeemScript = hex_EncodeToString (ll_Script btcLeg),
         xl_Locktime = btcLocktime, xl_Height = hp, xl_BlockHash = [], xl_AnchorHeight = 0\<rparr>\<rparr>"

text \<open>Step 5: the maker's leg.\<close>

definition claim_open :: "taker_result xc_env \<Rightarrow> taker_params \<Rightarrow> xc_msg \<Rightarrow> (taker_result, unit) act" where
  "claim_open e p terms =
     act_bind (xc_Cancelled e) (\<lambda>cancelled.
       if cancelled then stop XcCanceled
       else act_bind (SeqTip e) (\<lambda>seqNow. guard ClaimWindowClosed (\<not> near seqNow (tf_SeqClaimMargin p) (xm_SeqLocktime terms))))"

definition taker_await :: "nat \<Rightarrow> taker_result xc_env \<Rightarrow> taker_params \<Rightarrow> xc_msg \<Rightarrow> u64 \<Rightarrow> (taker_result, xc_leg \<times> bytes) act" where
  "taker_await n e p terms takeSeq =
     act_bind (recvXcTypeWhile n e XcSeqLegLocked (xt_SeqLockWait (tf_Timing p)) (claim_open e p terms)) (\<lambda>locked.
     act_bind (need NoLeg (xm_Leg locked)) (\<lambda>leg.
     act_bind (check e ''seq_leg_mismatch'' SeqLegMismatch (xl_Amount leg = takeSeq \<and> xl_Asset leg = tf_ExpectAsset p)) (\<lambda>_.
     act_bind (check e ''seq_leg_mismatch'' SeqLegMismatch (xl_Locktime leg = xm_SeqLocktime terms)) (\<lambda>_.
     act_bind (need BadHex (hex_DecodeString (xl_RedeemScript leg))) (\<lambda>script. ret (leg, script))))))"

definition taker_verify ::
  "taker_result xc_env \<Rightarrow> bytes \<Rightarrow> xkey \<Rightarrow> bytes \<Rightarrow> xc_msg \<Rightarrow> xc_leg \<Rightarrow> bytes \<Rightarrow> (taker_result, leg_lock) act" where
  "taker_verify e hashH claimKey makerSeqRefundPub terms leg script =
     act_bind (VerifySEQLeg e \<lparr>lt_HashH = hashH, lt_ClaimPub = k_PubKey claimKey, lt_RefundPub = makerSeqRefundPub,
       lt_Script = script, lt_Locktime = xm_SeqLocktime terms, lt_Txid = xl_Txid leg, lt_Vout = xl_Vout leg,
       lt_Amount = xl_Amount leg, lt_Asset = xl_Asset leg, lt_MinConf = 1\<rparr>) (\<lambda>r.
       case r of
         Inl _ \<Rightarrow> refuse e ''seq_leg_invalid'' SeqLegInvalid
       | Inr v \<Rightarrow> act_bind (put_res (\<lambda>r. r\<lparr>tr_SeqLeg := Some (vl_Leg v)\<rparr>)) (\<lambda>_. ret (vl_Leg v)))"

text \<open>Steps 6 to 8: the anchor gate, the last look at the claim window, and the claim.\<close>

definition taker_claim ::
  "nat \<Rightarrow> taker_result xc_env \<Rightarrow> taker_params \<Rightarrow> xkey \<Rightarrow> xc_msg \<Rightarrow> u64 \<Rightarrow> leg_lock \<Rightarrow> int \<Rightarrow> (taker_result, unit) act" where
  "taker_claim n e p claimKey terms legAmount seqLeg hp =
     act_bind (gateSeqLeg n e (fh_TxID (ll_Funded seqLeg)) hp
       \<lparr>cw_SeqLocktime = xm_SeqLocktime terms, cw_Margin = tf_SeqClaimMargin p\<rparr> (tf_Timing p)) (\<lambda>ev.
     act_bind (put_res (\<lambda>r. r\<lparr>tr_Evidence := Some ev\<rparr>)) (\<lambda>_.
     act_bind (SeqTip e) (\<lambda>r. act_bind (need NodeError r) (\<lambda>seqTip2.
     act_bind (guard XcBadTerms (\<not> near (Some seqTip2) (tf_SeqClaimMargin p) (xm_SeqLocktime terms))) (\<lambda>_.
     act_bind (FeeRate e (tf_ExpectAsset p)) (\<lambda>rate.
     act_bind (ClaimSEQLeg e seqLeg claimKey (xcSeqLegFee rate (tf_SpendFeeSats p) legAmount)) (\<lambda>r.
     act_bind (need ClaimFailed r) (\<lambda>claimTxid.
     put_res (\<lambda>r. r\<lparr>tr_SeqClaimTxid := claimTxid\<rparr>)))))))))"

definition RunTakerForward :: "nat \<Rightarrow> taker_result xc_env \<Rightarrow> taker_params \<Rightarrow> (taker_result, unit) act" where
  "RunTakerForward n e q =
     (let p = taker_defaults q; hashH = xe_sha256 e (tf_Secret p) in
      case (tf_BtcRefundKey p, tf_SeqClaimKey p) of
        (Some refundKey, Some claimKey) \<Rightarrow>
          act_bind (guard IncompleteParams (length (tf_Secret p) = 32)) (\<lambda>_.
          act_bind (guard ExpectationsRequired (tf_ExpectAsset p \<noteq> [] \<and> tf_ExpectSeqAmount p \<noteq> 0 \<and> tf_ExpectBtcAmount p \<noteq> 0)) (\<lambda>_.
          act_bind (taker_terms n e p) (\<lambda>terms.
          act_bind (taker_bind e p terms) (\<lambda>(takeSeq, fundBtc).
          act_bind (need XcBadTerms (hex_key (xm_MakerBtcClaimPub terms))) (\<lambda>makerBtcClaimPub.
          act_bind (need XcBadTerms (hex_key (xm_MakerRefundPub terms))) (\<lambda>makerSeqRefundPub.
          act_bind (taker_locktimes e p terms) (\<lambda>_.
          act_bind (taker_fund n e p terms makerBtcClaimPub refundKey fundBtc) (\<lambda>(btcLeg, hp).
          act_bind (sendXc e (taker_announce hashH claimKey refundKey takeSeq fundBtc btcLeg (xm_BtcLocktime terms) hp)) (\<lambda>_.
          act_bind (taker_await n e p terms takeSeq) (\<lambda>(leg, script).
          act_bind (taker_verify e hashH claimKey makerSeqRefundPub terms leg script) (\<lambda>seqLeg.
          taker_claim n e p claimKey terms (xl_Amount leg) seqLeg hp)))))))))))
      | _ \<Rightarrow> stop IncompleteParams)"

text \<open>The refund of the taker's leg.\<close>

fun refund_wait :: "nat \<Rightarrow> 'r xc_env \<Rightarrow> u32 \<Rightarrow> bool \<Rightarrow> int \<Rightarrow> ('r, unit) act" where
  "refund_wait 0 e locktime wait poll = running"
| "refund_wait (Suc n) e locktime wait poll =
     act_bind (BtcTip e) (\<lambda>r. act_bind (need NodeError r) (\<lambda>tip.
       if locktime \<le> of_int tip then ret ()
       else if \<not> wait then stop RefundNotDue
       else act_bind (xc_Sleep poll) (\<lambda>_. refund_wait n e locktime wait poll)))"

definition RefundTakerOnchainLeg :: "nat \<Rightarrow> 'r xc_env \<Rightarrow> leg_lock \<Rightarrow> xkey \<Rightarrow> u32 \<Rightarrow> u64 \<Rightarrow> bool \<Rightarrow> int \<Rightarrow> ('r, string) act" where
  "RefundTakerOnchainLeg n e leg key locktime spendFeeSats wait poll =
     act_bind (refund_wait n e locktime wait (if poll \<le> 0 then 15 * Second else poll)) (\<lambda>_.
     act_bind (RefundBTCLeg e leg key locktime
       (xcSafeFee (if spendFeeSats = 0 then 1000 else spendFeeSats) (fh_Amount (ll_Funded leg)))) (need RefundFailed))"

end
