(* ===== verification/Swap_Maker.thy ===== *)
theory Swap_Maker
  imports Swap_Driver
begin

text \<open>
  The maker of the forward swap (\<open>client/xdriver.go\<close>): fresh keys and terms, verification of the taker's bitcoin leg, the
  anchor precondition with its repeated verification, the asset leg, and the settlement loop that ends in a claim or a refund.
\<close>

record maker_params =
  mf_AssetHex :: string
  mf_SeqAmount :: u64
  mf_BtcAmount :: u64
  mf_FeeBtc :: u64
  mf_BtcLocktimeDelta :: u32
  mf_SeqLocktimeDelta :: u32
  mf_MinBTCConf :: int
  mf_SpendFeeSats :: u64
  mf_MinSeqClaimWindow :: u32
  mf_MinBtcClaimWindow :: u32
  mf_Timing :: xc_timing
  mf_OnUpdate :: bool

record maker_result =
  mr_HashH :: bytes
  mr_BtcClaimKey :: "xkey option"
  mr_SeqRefundKey :: "xkey option"
  mr_BtcLocktime :: u32
  mr_SeqLocktime :: u32
  mr_BtcLeg :: "leg_lock option"
  mr_SeqLeg :: "leg_lock option"
  mr_SeqBlockHash :: string
  mr_Secret :: bytes
  mr_BtcClaimTxid :: string
  mr_SeqRefundTx :: string
  mr_Settled :: bool
  mr_FilledSeq :: u64
  mr_FilledBtc :: u64

definition no_maker_result :: maker_result where
  "no_maker_result = \<lparr>mr_HashH = [], mr_BtcClaimKey = None, mr_SeqRefundKey = None, mr_BtcLocktime = 0, mr_SeqLocktime = 0,
     mr_BtcLeg = None, mr_SeqLeg = None, mr_SeqBlockHash = [], mr_Secret = [], mr_BtcClaimTxid = [], mr_SeqRefundTx = [],
     mr_Settled = False, mr_FilledSeq = 0, mr_FilledBtc = 0\<rparr>"

definition maker_defaults :: "maker_params \<Rightarrow> maker_params" where
  "maker_defaults p =
     p\<lparr>mf_BtcLocktimeDelta := (if mf_BtcLocktimeDelta p = 0 then 180 else mf_BtcLocktimeDelta p),
       mf_SeqLocktimeDelta := (if mf_SeqLocktimeDelta p = 0 then 240 else mf_SeqLocktimeDelta p),
       mf_MinBTCConf := (if mf_MinBTCConf p < 0 then 0 else mf_MinBTCConf p),
       mf_SpendFeeSats := (if mf_SpendFeeSats p = 0 then 1000 else mf_SpendFeeSats p),
       mf_MinSeqClaimWindow := (if mf_MinSeqClaimWindow p = 0 then 120 else mf_MinSeqClaimWindow p),
       mf_MinBtcClaimWindow := (if mf_MinBtcClaimWindow p = 0 then 12 else mf_MinBtcClaimWindow p),
       mf_Timing := setDefaults (mf_Timing p)\<rparr>"

section \<open>Terms\<close>

definition maker_keys :: "maker_result xc_env \<Rightarrow> maker_params \<Rightarrow> (maker_result, xkey \<times> xkey \<times> u32 \<times> u32) act" where
  "maker_keys e p =
     act_bind (NewKey e) (\<lambda>r. act_bind (need NodeError r) (\<lambda>btcClaim.
     act_bind (NewKey e) (\<lambda>r. act_bind (need NodeError r) (\<lambda>seqRefund.
     act_bind (BtcTip e) (\<lambda>r. act_bind (need NodeError r) (\<lambda>btcTip.
     act_bind (SeqTip e) (\<lambda>r. act_bind (need NodeError r) (\<lambda>seqTip.
       let btcLocktime = of_int btcTip + mf_BtcLocktimeDelta p; seqLocktime = of_int seqTip + mf_SeqLocktimeDelta p in
     act_bind (put_res (\<lambda>r. r\<lparr>mr_BtcClaimKey := Some btcClaim, mr_SeqRefundKey := Some seqRefund,
       mr_BtcLocktime := btcLocktime, mr_SeqLocktime := seqLocktime\<rparr>)) (\<lambda>_.
     act_bind (persist (mf_OnUpdate p)) (\<lambda>_. ret (btcClaim, seqRefund, btcLocktime, seqLocktime)))))))))))"

definition maker_terms :: "maker_params \<Rightarrow> xkey \<Rightarrow> xkey \<Rightarrow> u32 \<Rightarrow> u32 \<Rightarrow> xc_msg" where
  "maker_terms p btcClaim seqRefund btcLocktime seqLocktime =
     zero_msg\<lparr>xm_Type := XcTerms, xm_MakerBtcClaimPub := hex_EncodeToString (k_PubKey btcClaim),
       xm_MakerRefundPub := hex_EncodeToString (k_PubKey seqRefund), xm_BtcLocktime := btcLocktime,
       xm_SeqLocktime := seqLocktime, xm_BtcAmount := mf_BtcAmount p, xm_SeqAmount := mf_SeqAmount p, xm_FeeBtc := mf_FeeBtc p\<rparr>"

section \<open>The taker's leg\<close>

text \<open>The checks of the announcement: the hash, the taker's keys, the slice with its price, and the leg.\<close>

definition maker_announced ::
  "maker_result xc_env \<Rightarrow> maker_params \<Rightarrow> xc_msg \<Rightarrow> (maker_result, bytes \<times> bytes \<times> bytes \<times> u64 \<times> u64 \<times> xc_leg) act" where
  "maker_announced e p funded =
     act_bind (need NoLeg (xm_Leg funded)) (\<lambda>leg.
     case hex_DecodeString (xm_HashH funded) of
       None \<Rightarrow> refuse e ''bad_hash'' BadHash
     | Some hashH \<Rightarrow>
     act_bind (check e ''bad_hash'' BadHash (length hashH = 32)) (\<lambda>_.
     case hex_key (xm_TakerSeqClaimPub funded) of
       None \<Rightarrow> refuse e ''bad_pubkey'' BadPubkey
     | Some claimPub \<Rightarrow>
     (case hex_key (xm_TakerBtcRefundPub funded) of
       None \<Rightarrow> refuse e ''bad_pubkey'' BadPubkey
     | Some refundPub \<Rightarrow>
     (let takeSeq = (if xm_SeqAmount funded = 0 then mf_SeqAmount p else xm_SeqAmount funded) in
     act_bind (check e ''amount_too_large'' AmountTooLarge (takeSeq \<le> mf_SeqAmount p)) (\<lambda>_.
     act_bind (need GoPanic (ProportionalBtc (mf_BtcAmount p) takeSeq (mf_SeqAmount p))) (\<lambda>wantBtc.
     act_bind (check e ''btc_leg_mismatch'' BtcLegMismatch (xl_Amount leg = wantBtc)) (\<lambda>_.
     ret (hashH, claimPub, refundPub, takeSeq, wantBtc, leg))))))))"

definition maker_slice :: "maker_result xc_env \<Rightarrow> maker_params \<Rightarrow> bytes \<Rightarrow> u64 \<Rightarrow> u64 \<Rightarrow> xc_leg \<Rightarrow> (maker_result, bytes) act" where
  "maker_slice e p hashH takeSeq wantBtc leg =
     act_bind (NewOps e hashH) (\<lambda>ok. act_bind (guard OpsFailed ok) (\<lambda>_.
     act_bind (put_res (\<lambda>r. r\<lparr>mr_HashH := hashH\<rparr>)) (\<lambda>_.
     act_bind (check e ''amount_too_small'' AmountTooSmall (minSafeBtcErr takeSeq (mf_SeqAmount p) wantBtc (mf_SpendFeeSats p))) (\<lambda>_.
     act_bind (if mf_SeqAmount p \<le> takeSeq then ret None else FeeRate e (mf_AssetHex p)) (\<lambda>rate.
     act_bind (check e ''amount_too_small'' AmountTooSmall
       (minSafeAssetErr rate takeSeq (mf_SeqAmount p) takeSeq (mf_SpendFeeSats p))) (\<lambda>_.
     need BadHex (hex_DecodeString (xl_RedeemScript leg))))))))"

fun verify_wait :: "nat \<Rightarrow> maker_result xc_env \<Rightarrow> maker_params \<Rightarrow> leg_terms \<Rightarrow> int \<Rightarrow> (maker_result, verified_leg) act" where
  "verify_wait 0 e p lt deadline = running"
| "verify_wait (Suc n) e p lt deadline =
     act_bind (VerifyBTCLeg e lt) (\<lambda>r.
       case r of
         Inr v \<Rightarrow> ret v
       | Inl er \<Rightarrow>
           act_bind (if er = LegInvalid then ret True else act_bind (xc_Now e) (\<lambda>now. ret (deadline < now))) (\<lambda>final.
             if final then refuse e ''btc_leg_invalid'' (if er = LegInvalid then BtcLegInvalid else BtcLegUnverified)
             else act_bind (xc_Sleep (xt_Poll (mf_Timing p))) (\<lambda>_. verify_wait n e p lt deadline)))"

section \<open>The anchor precondition\<close>

text \<open>The wait for the anchor and the full verification, repeated while the leg moves between blocks: at most eleven rounds.\<close>

fun remine :: "nat \<Rightarrow> nat \<Rightarrow> maker_result xc_env \<Rightarrow> maker_params \<Rightarrow> fund_window \<Rightarrow> leg_terms \<Rightarrow> int \<Rightarrow> verified_leg \<Rightarrow>
    (maker_result, verified_leg \<times> int) act" where
  "remine 0 n e p w lt theirs v = running"
| "remine (Suc k) n e p w lt theirs v =
     (let btcLegH = claimantBtcLegHeight (vl_Height v) theirs in
      act_bind (attempt (waitSeqAnchorReachesBTCLeg n e (btcLegH + 1) w (mf_Timing p))) (\<lambda>r.
        case r of
          Inl er \<Rightarrow> refuse e ''anchor_not_caught_up'' er
        | Inr _ \<Rightarrow>
            act_bind (VerifyBTCLeg e lt) (\<lambda>r.
              case r of
                Inl _ \<Rightarrow> refuse e ''btc_leg_gone'' BtcLegChanged
              | Inr v' \<Rightarrow>
                  if vl_Height v' = vl_Height v then ret (v, btcLegH)
                  else if k = 0 then refuse e ''btc_leg_gone'' BtcLegChanged
                  else remine k n e p w lt theirs v')))"

definition maker_ready :: "nat \<Rightarrow> maker_result xc_env \<Rightarrow> maker_params \<Rightarrow> fund_window \<Rightarrow> leg_terms \<Rightarrow> int \<Rightarrow> verified_leg \<Rightarrow>
    (maker_result, verified_leg \<times> int) act" where
  "maker_ready n e p w lt theirs v =
     act_bind (remine 11 n e p w lt theirs v) (\<lambda>ready.
     act_bind (fundWindow_check e w) (\<lambda>closed.
       case closed of Some er \<Rightarrow> refuse e ''seq_window_closed'' er | None \<Rightarrow> ret ready))"

text \<open>Step 2 of the driver: the leg verifies, and verifies again once the anchor has passed it.\<close>

definition maker_verified :: "nat \<Rightarrow> maker_result xc_env \<Rightarrow> maker_params \<Rightarrow> fund_window \<Rightarrow> leg_terms \<Rightarrow> int \<Rightarrow> (maker_result, verified_leg \<times> int) act" where
  "maker_verified n e p w lt theirs =
     act_bind (xc_Now e) (\<lambda>now.
     act_bind (verify_wait n e p lt (now + xt_SeqLockWait (mf_Timing p))) (\<lambda>v.
     act_bind (put_res (\<lambda>r. r\<lparr>mr_BtcLeg := Some (vl_Leg v)\<rparr>)) (\<lambda>_. act_bind (persist (mf_OnUpdate p)) (\<lambda>_.
     maker_ready n e p w lt theirs v))))"

section \<open>The asset leg\<close>

fun lock_wait :: "nat \<Rightarrow> maker_result xc_env \<Rightarrow> maker_params \<Rightarrow> string \<Rightarrow> int \<Rightarrow> (maker_result, string) act" where
  "lock_wait 0 e p txid deadline = running"
| "lock_wait (Suc n) e p txid deadline =
     act_bind (BlockHashOfTx e txid) (\<lambda>bh.
       if bh \<noteq> None \<and> bh \<noteq> Some [] then ret (the bh)
       else act_bind (xc_Now e) (\<lambda>now.
         if deadline < now then refuse e ''seq_lock_failed'' SeqLockUnconfirmed
         else act_bind (xc_Sleep (xt_Poll (mf_Timing p))) (\<lambda>_. lock_wait n e p txid deadline)))"

definition maker_lock :: "nat \<Rightarrow> maker_result xc_env \<Rightarrow> maker_params \<Rightarrow> bytes \<Rightarrow> xkey \<Rightarrow> u64 \<Rightarrow> u32 \<Rightarrow> (maker_result, leg_lock \<times> string) act" where
  "maker_lock n e p takerSeqClaimPub seqRefund takeSeq seqLocktime =
     act_bind (LockSEQLeg e takerSeqClaimPub (k_PubKey seqRefund) (atomsToCoins takeSeq) (mf_AssetHex p) seqLocktime) (\<lambda>lk.
       case lk of
         SeqLockFailed \<Rightarrow> refuse e ''seq_lock_failed'' SeqLockError
       | SeqLockPending leg \<Rightarrow>
           act_bind (put_res (\<lambda>r. r\<lparr>mr_SeqLeg := Some leg\<rparr>)) (\<lambda>_. act_bind (persist (mf_OnUpdate p)) (\<lambda>_.
           act_bind (xc_Now e) (\<lambda>now.
           act_bind (lock_wait n e p (fh_TxID (ll_Funded leg)) (now + xt_SeqLockWait (mf_Timing p))) (\<lambda>bh. ret (leg, bh)))))
       | SeqLockConfirmed leg bh \<Rightarrow>
           act_bind (put_res (\<lambda>r. r\<lparr>mr_SeqLeg := Some leg\<rparr>)) (\<lambda>_. act_bind (persist (mf_OnUpdate p)) (\<lambda>_. ret (leg, bh))))"

text \<open>The block of the leg and its anchor, read up to six times.\<close>

fun read_anchor :: "nat \<Rightarrow> maker_result xc_env \<Rightarrow> maker_params \<Rightarrow> string \<Rightarrow> string \<Rightarrow> (maker_result, string \<times> int option) act" where
  "read_anchor 0 e p txid bh = ret (bh, None)"
| "read_anchor (Suc k) e p txid bh =
     act_bind (BlockHashOfTx e txid) (\<lambda>r.
       let bh = (case r of Some h \<Rightarrow> if h = [] then bh else h | None \<Rightarrow> bh) in
       act_bind (BlockOnActiveChain e bh) (\<lambda>onChain.
         if onChain \<noteq> Some True then act_bind (xc_Sleep (xt_Poll (mf_Timing p))) (\<lambda>_. read_anchor k e p txid bh)
         else act_bind (BlockAnchorHeight e bh) (\<lambda>a.
           case a of
             Some h \<Rightarrow> ret (bh, Some h)
           | None \<Rightarrow> act_bind (xc_Sleep (xt_Poll (mf_Timing p))) (\<lambda>_. read_anchor k e p txid bh))))"

definition maker_locked :: "leg_lock \<Rightarrow> u32 \<Rightarrow> string \<Rightarrow> int \<Rightarrow> xc_msg" where
  "maker_locked leg seqLocktime bh anchorH =
     zero_msg\<lparr>xm_Type := XcSeqLegLocked,
       xm_Leg := Some \<lparr>xl_Txid = fh_TxID (ll_Funded leg), xl_Vout = fh_Vout (ll_Funded leg), xl_Amount = fh_Amount (ll_Funded leg),
         xl_Asset = fh_AssetID (ll_Funded leg), xl_RedeemScript = hex_EncodeToString (ll_Script leg), xl_Locktime = seqLocktime,
         xl_Height = 0, xl_BlockHash = bh, xl_AnchorHeight = anchorH\<rparr>\<rparr>"

text \<open>A failed announcement is logged and the settlement goes on.\<close>

definition maker_announce :: "maker_result xc_env \<Rightarrow> maker_params \<Rightarrow> leg_lock \<Rightarrow> u32 \<Rightarrow> string \<Rightarrow> int \<Rightarrow> (maker_result, unit) act" where
  "maker_announce e p leg seqLocktime bh btcLegH =
     act_bind (put_res (\<lambda>r. r\<lparr>mr_SeqBlockHash := bh\<rparr>)) (\<lambda>_. act_bind (persist (mf_OnUpdate p)) (\<lambda>_.
     act_bind (read_anchor 6 e p (fh_TxID (ll_Funded leg)) bh) (\<lambda>(bh, anchorH).
     act_bind (put_res (\<lambda>r. r\<lparr>mr_SeqBlockHash := bh\<rparr>)) (\<lambda>_.
       case anchorH of
         Some h \<Rightarrow>
           if btcLegH \<le> h then act_bind (xc_Send e (maker_locked leg seqLocktime bh h)) (\<lambda>_. ret ())
           else sendXcFail e ''seq_leg_underanchored''
       | None \<Rightarrow> sendXcFail e ''seq_leg_underanchored''))))"

section \<open>Settlement\<close>

definition InjectSecret :: "(bytes \<Rightarrow> bytes) \<Rightarrow> bytes \<Rightarrow> bytes \<Rightarrow> bool" where
  "InjectSecret sha256 hash secret \<longleftrightarrow> length secret = 32 \<and> sha256 secret = hash"

text \<open>What one leg pair is settled with. \<open>sp_Note\<close> is set while a session is attached, \<open>sp_OnUpdate\<close> while a callback is.\<close>

record settle_params =
  sp_Hash :: bytes
  sp_BtcLeg :: leg_lock
  sp_SeqLeg :: leg_lock
  sp_BtcClaimKey :: xkey
  sp_SeqRefundKey :: xkey
  sp_BtcLocktime :: u32
  sp_SeqLocktime :: u32
  sp_AssetHex :: string
  sp_BtcAmount :: u64
  sp_SeqAmount :: u64
  sp_SpendFeeSats :: u64
  sp_Poll :: int
  sp_Note :: bool
  sp_OnUpdate :: bool

text \<open>The claim of the bitcoin leg with a secret: \<open>True\<close> when it is done, \<open>False\<close> to try again.\<close>

definition settle_claim :: "maker_result xc_env \<Rightarrow> settle_params \<Rightarrow> bytes \<Rightarrow> (maker_result, bool) act" where
  "settle_claim e sp secret =
     act_bind (guard SecretRejected (InjectSecret (xe_sha256 e) (sp_Hash sp) secret)) (\<lambda>_.
     act_bind (put_res (\<lambda>r. r\<lparr>mr_Secret := secret\<rparr>)) (\<lambda>_. act_bind (persist (sp_OnUpdate sp)) (\<lambda>_.
     act_bind (ClaimBTCLeg e (sp_BtcLeg sp) (sp_BtcClaimKey sp) (xcSafeFee (sp_SpendFeeSats sp) (sp_BtcAmount sp))) (\<lambda>r.
       case r of
         None \<Rightarrow>
           act_bind (BtcTip e) (\<lambda>tip.
             if (case tip of Some h \<Rightarrow> sp_BtcLocktime sp - 6 \<le> of_int h | None \<Rightarrow> False) then stop BtcClaimFailing else ret False)
       | Some txid \<Rightarrow>
           act_bind (put_res (\<lambda>r. r\<lparr>mr_BtcClaimTxid := txid, mr_Settled := True\<rparr>)) (\<lambda>_.
           act_bind (persist (sp_OnUpdate sp)) (\<lambda>_. ret True))))))"

text \<open>The refund of the asset leg once its lock time has passed; a failure is tried again.\<close>

definition settle_refund :: "maker_result xc_env \<Rightarrow> settle_params \<Rightarrow> (maker_result, unit) act" where
  "settle_refund e sp =
     act_bind (SeqTip e) (\<lambda>tip.
       if \<not> near tip 0 (sp_SeqLocktime sp) then ret ()
       else act_bind (FeeRate e (sp_AssetHex sp)) (\<lambda>rate.
       act_bind (RefundSEQLeg e (sp_SeqLeg sp) (sp_SeqRefundKey sp) (sp_SeqLocktime sp)
         (xcSeqLegFee rate (sp_SpendFeeSats sp) (sp_SeqAmount sp))) (\<lambda>raw.
         case raw of
           None \<Rightarrow> ret ()
         | Some tx \<Rightarrow>
             act_bind (SeqBroadcast e tx) (\<lambda>r.
               case r of
                 None \<Rightarrow> ret ()
               | Some txid \<Rightarrow>
                   act_bind (put_res (\<lambda>r. r\<lparr>mr_SeqRefundTx := txid\<rparr>)) (\<lambda>_. act_bind (persist (sp_OnUpdate sp)) (\<lambda>_.
                   act_bind (if sp_Note sp then sendXcFail e ''refunded'' else ret ()) (\<lambda>_. stop XcRefunded)))))))"

fun settle_loop :: "nat \<Rightarrow> maker_result xc_env \<Rightarrow> settle_params \<Rightarrow> (maker_result, unit) act" where
  "settle_loop 0 e sp = running"
| "settle_loop (Suc n) e sp =
     act_bind (WatchSEQClaim e (sp_SeqLeg sp)) (\<lambda>r.
     act_bind (case r of
         Some (_, secret) \<Rightarrow> if secret \<noteq> [] then settle_claim e sp secret else act_bind (settle_refund e sp) (\<lambda>_. ret False)
       | None \<Rightarrow> act_bind (settle_refund e sp) (\<lambda>_. ret False)) (\<lambda>finished.
       if finished then ret () else act_bind (xc_Sleep (sp_Poll sp)) (\<lambda>_. settle_loop n e sp)))"

definition settleMakerForward :: "nat \<Rightarrow> maker_result xc_env \<Rightarrow> settle_params \<Rightarrow> (maker_result, unit) act" where
  "settleMakerForward n e sp = settle_loop n e (sp\<lparr>sp_Poll := (if sp_Poll sp \<le> 0 then 5 * Second else sp_Poll sp)\<rparr>)"

definition RunMakerForward :: "nat \<Rightarrow> maker_result xc_env \<Rightarrow> maker_params \<Rightarrow> (maker_result, unit) act" where
  "RunMakerForward n e q =
     (let p = maker_defaults q in
      act_bind (guard ExpectationsRequired (mf_AssetHex p \<noteq> [] \<and> mf_SeqAmount p \<noteq> 0 \<and> mf_BtcAmount p \<noteq> 0)) (\<lambda>_.
      act_bind (recvXcType n e XcTermsRequest (xt_TermsReqWait (mf_Timing p))) (\<lambda>_.
      act_bind (maker_keys e p) (\<lambda>(btcClaim, seqRefund, btcLocktime, seqLocktime).
      act_bind (sendXc e (maker_terms p btcClaim seqRefund btcLocktime seqLocktime)) (\<lambda>_.
      act_bind (recvXcType n e XcBtcLegFunded (xt_BtcFundWait (mf_Timing p))) (\<lambda>funded.
      act_bind (maker_announced e p funded) (\<lambda>(hashH, claimPub, refundPub, takeSeq, wantBtc, leg).
      act_bind (maker_slice e p hashH takeSeq wantBtc leg) (\<lambda>script.
        let lt = \<lparr>lt_HashH = hashH, lt_ClaimPub = k_PubKey btcClaim, lt_RefundPub = refundPub, lt_Script = script,
                  lt_Locktime = btcLocktime, lt_Txid = xl_Txid leg, lt_Vout = xl_Vout leg, lt_Amount = xl_Amount leg,
                  lt_Asset = [], lt_MinConf = mf_MinBTCConf p\<rparr>;
            w = \<lparr>fw_SeqLocktime = seqLocktime, fw_MinSeqClaimWindow = mf_MinSeqClaimWindow p, fw_BtcLocktime = btcLocktime,
                 fw_MinBtcClaimWindow = mf_MinBtcClaimWindow p\<rparr> in
      act_bind (maker_verified n e p w lt (xl_Height leg)) (\<lambda>(v, btcLegH).
      act_bind (maker_lock n e p claimPub seqRefund takeSeq seqLocktime) (\<lambda>(seqLeg, bh).
      act_bind (maker_announce e p seqLeg seqLocktime bh btcLegH) (\<lambda>_.
      act_bind (put_res (\<lambda>r. r\<lparr>mr_FilledSeq := takeSeq, mr_FilledBtc := wantBtc\<rparr>)) (\<lambda>_.
      settleMakerForward n e \<lparr>sp_Hash = hashH, sp_BtcLeg = vl_Leg v, sp_SeqLeg = seqLeg, sp_BtcClaimKey = btcClaim,
        sp_SeqRefundKey = seqRefund, sp_BtcLocktime = btcLocktime, sp_SeqLocktime = seqLocktime, sp_AssetHex = mf_AssetHex p,
        sp_BtcAmount = wantBtc, sp_SeqAmount = takeSeq, sp_SpendFeeSats = mf_SpendFeeSats p, sp_Poll = xt_Poll (mf_Timing p),
        sp_Note = True, sp_OnUpdate = mf_OnUpdate p\<rparr>))))))))))))"

text \<open>The restart of a maker: everything comes from the persisted record, which holds both legs and both keys.\<close>

definition resume_result :: "settle_params \<Rightarrow> maker_result" where
  "resume_result sp = no_maker_result\<lparr>mr_HashH := sp_Hash sp, mr_BtcClaimKey := Some (sp_BtcClaimKey sp),
     mr_SeqRefundKey := Some (sp_SeqRefundKey sp), mr_BtcLocktime := sp_BtcLocktime sp, mr_SeqLocktime := sp_SeqLocktime sp,
     mr_BtcLeg := Some (sp_BtcLeg sp), mr_SeqLeg := Some (sp_SeqLeg sp)\<rparr>"

definition ResumeMakerForward :: "nat \<Rightarrow> maker_result xc_env \<Rightarrow> settle_params \<Rightarrow> (maker_result, unit) act" where
  "ResumeMakerForward n e sp = act_bind (put_res (\<lambda>_. resume_result sp)) (\<lambda>_. settleMakerForward n e (sp\<lparr>sp_Note := False\<rparr>))"

end
