(* ===== verification/Swap_Logic.thy ===== *)
theory Swap_Logic
  imports Swap_Maker
begin

text \<open>
  A program logic for runs of the swap drivers. \<open>keeps I m T s\<close>: started in \<open>s\<close>, the action \<open>m\<close> ends with \<open>I\<close> however it ends,
  and with \<open>T\<close> if it returns. \<open>does P m\<close>: the action only appends events that satisfy \<open>P\<close>. \<open>justified J t\<close>: every event of the
  history \<open>t\<close> satisfies \<open>J\<close> together with what came before it; a safety rule of a driver is such a \<open>J\<close>.
\<close>

section \<open>Actions\<close>

definition keeps :: "('r run_state \<Rightarrow> bool) \<Rightarrow> ('r, 'a) act \<Rightarrow> ('a \<Rightarrow> 'r run_state \<Rightarrow> bool) \<Rightarrow> 'r run_state \<Rightarrow> bool" where
  "keeps I m T s \<longleftrightarrow> (case m s of (s', r) \<Rightarrow> I s' \<and> (\<forall>x. r = Ret x \<longrightarrow> T x s'))"

named_theorems keeps_rules "introduction rules of the program logic"

lemma keeps_ret [keeps_rules]: "I s \<Longrightarrow> T x s \<Longrightarrow> keeps I (ret x) T s"
  by (simp add: keeps_def ret_def)

lemma keeps_stop [keeps_rules]: "I s \<Longrightarrow> keeps I (stop er) T s"
  by (simp add: keeps_def stop_def)

lemma keeps_running [keeps_rules]: "I s \<Longrightarrow> keeps I running T s"
  by (simp add: keeps_def running_def)

lemma keeps_bind [keeps_rules]:
  assumes "keeps I m R s" and "\<And>x s'. I s' \<Longrightarrow> R x s' \<Longrightarrow> keeps I (f x) T s'"
  shows "keeps I (act_bind m f) T s"
proof -
  obtain s' r where run: "m s = (s', r)" by fastforce
  show ?thesis using assms by (cases r) (simp_all add: keeps_def act_bind_def run)
qed

lemma bind_run: "m s = (s', Ret x) \<Longrightarrow> act_bind m f s = f x s'"
  by (simp add: act_bind_def)

lemma keeps_attempt:
  assumes "keeps I m (\<lambda>x. T (Inr x)) s" and "\<And>er s'. I s' \<Longrightarrow> T (Inl er) s'"
  shows "keeps I (attempt m) T s"
  using assms by (auto simp: keeps_def attempt_def split: prod.splits xc_outcome.splits)

lemma keeps_ask [keeps_rules]:
  "(\<And>x. x = f (st_trace s) \<Longrightarrow> I (s\<lparr>st_trace := st_trace s @ [ev x]\<rparr>) \<and> T x (s\<lparr>st_trace := st_trace s @ [ev x]\<rparr>)) \<Longrightarrow> keeps I (ask f ev) T s"
  by (simp add: keeps_def ask_def Let_def)

lemma keeps_put_res [keeps_rules]: "I (s\<lparr>st_res := f (st_res s)\<rparr>) \<Longrightarrow> T () (s\<lparr>st_res := f (st_res s)\<rparr>) \<Longrightarrow> keeps I (put_res f) T s"
  by (simp add: keeps_def put_res_def)

lemma keeps_persist [keeps_rules]:
  assumes "on \<Longrightarrow> I (s\<lparr>st_trace := st_trace s @ [EvPersist (st_res s)]\<rparr>) \<and> T () (s\<lparr>st_trace := st_trace s @ [EvPersist (st_res s)]\<rparr>)"
    and "\<not> on \<Longrightarrow> I s \<and> T () s"
  shows "keeps I (persist on) T s"
  using assms by (simp add: keeps_def persist_def)

lemma keeps_guard [keeps_rules]: "I s \<Longrightarrow> (b \<Longrightarrow> T () s) \<Longrightarrow> keeps I (guard er b) T s"
  by (simp add: keeps_def guard_def ret_def stop_def)

lemma keeps_need [keeps_rules]: "I s \<Longrightarrow> (\<And>y. x = Some y \<Longrightarrow> T y s) \<Longrightarrow> keeps I (need er x) T s"
  by (simp add: keeps_def need_def ret_def stop_def split: option.split)

lemma keeps_if [keeps_rules]: "(b \<Longrightarrow> keeps I m T s) \<Longrightarrow> (\<not> b \<Longrightarrow> keeps I m' T s) \<Longrightarrow> keeps I (if b then m else m') T s"
  by simp

lemma keeps_bind_ask:
  assumes "\<And>x. I (s\<lparr>st_trace := st_trace s @ [ev x]\<rparr>) \<and> keeps I (f x) T (s\<lparr>st_trace := st_trace s @ [ev x]\<rparr>)"
  shows "keeps I (act_bind (ask g ev) f) T s"
  using assms by (simp add: keeps_def act_bind_def ask_def Let_def)

lemma run_state_order: "s\<lparr>st_res := r, st_trace := t\<rparr> = s\<lparr>st_trace := t, st_res := r\<rparr>"
  by (cases s) simp

lemma keeps_weaken: "keeps I m R s \<Longrightarrow> (\<And>x s'. I s' \<Longrightarrow> R x s' \<Longrightarrow> T x s') \<Longrightarrow> keeps I m T s"
  by (auto simp: keeps_def split: prod.splits)

lemma keeps_run: "keeps I m T s \<Longrightarrow> m s = (s', r) \<Longrightarrow> I s' \<and> (\<forall>x. r = Ret x \<longrightarrow> T x s')"
  by (simp add: keeps_def)

section \<open>Events of an action\<close>

definition does :: "('r xc_event \<Rightarrow> bool) \<Rightarrow> ('r, 'a) act \<Rightarrow> bool" where
  "does P m \<longleftrightarrow> (\<forall>s. \<exists>es. st_trace (fst (m s)) = st_trace s @ es \<and> list_all P es)"

named_theorems does_rules "introduction rules for the events of an action"

lemma does_ret [does_rules]: "does P (ret x)"
  and does_stop [does_rules]: "does P (stop er)"
  and does_running [does_rules]: "does P running"
  and does_put_res [does_rules]: "does P (put_res f)"
  by (simp_all add: does_def ret_def stop_def running_def put_res_def)

lemma does_guard [does_rules]: "does P (guard er b)"
  by (simp add: guard_def does_rules)

lemma does_need [does_rules]: "does P (need er x)"
  by (simp add: need_def does_rules split: option.split)

lemma does_ask [does_rules]: "(\<And>x. P (ev x)) \<Longrightarrow> does P (ask f ev)"
  by (simp add: does_def ask_def Let_def)

lemma does_persist [does_rules]: "(\<And>r. P (EvPersist r)) \<Longrightarrow> does P (persist on)"
  by (simp add: does_def persist_def)

lemma does_attempt [does_rules]: "does P m \<Longrightarrow> does P (attempt m)"
  unfolding does_def attempt_def
  by (rule allI) (drule_tac x = s in spec, auto split: prod.splits xc_outcome.splits)

lemma does_bind [does_rules]:
  assumes m: "does P m" and f: "\<And>x. does P (f x)"
  shows "does P (act_bind m f)"
  unfolding does_def
proof
  fix s
  obtain s' r where run: "m s = (s', r)" by fastforce
  obtain es where es: "st_trace s' = st_trace s @ es" "list_all P es" using m run unfolding does_def by (metis fst_conv)
  show "\<exists>es. st_trace (fst (act_bind m f s)) = st_trace s @ es \<and> list_all P es"
  proof (cases r)
    case (Ret x)
    obtain es' where "st_trace (fst (f x s')) = st_trace s' @ es'" "list_all P es'" using f unfolding does_def by metis
    then show ?thesis using es run Ret by (intro exI [of _ "es @ es'"]) (simp add: act_bind_def)
  qed (use es run in \<open>auto simp: act_bind_def\<close>)
qed

lemma does_if [does_rules]: "(b \<Longrightarrow> does P m) \<Longrightarrow> (\<not> b \<Longrightarrow> does P m') \<Longrightarrow> does P (if b then m else m')"
  by simp

lemma does_option [does_rules]: "(x = None \<Longrightarrow> does P m) \<Longrightarrow> (\<And>y. x = Some y \<Longrightarrow> does P (f y)) \<Longrightarrow> does P (case x of None \<Rightarrow> m | Some y \<Rightarrow> f y)"
  by (cases x) auto

lemma does_sum [does_rules]: "(\<And>y. x = Inl y \<Longrightarrow> does P (f y)) \<Longrightarrow> (\<And>y. x = Inr y \<Longrightarrow> does P (g y)) \<Longrightarrow> does P (case x of Inl y \<Rightarrow> f y | Inr y \<Rightarrow> g y)"
  by (cases x) auto

lemma does_prod [does_rules]: "(\<And>a b. does P (f a b)) \<Longrightarrow> does P (case x of (a, b) \<Rightarrow> f a b)"
  by (cases x) auto

lemma does_Let [does_rules]: "(\<And>x. does P (f x)) \<Longrightarrow> does P (Let y f)"
  by (simp add: Let_def)

lemma does_mono: "does P m \<Longrightarrow> (\<And>ev. P ev \<Longrightarrow> Q ev) \<Longrightarrow> does Q m"
  unfolding does_def by (meson list.pred_mono_strong)

lemma does_run:
  assumes "does P m" and "m s = (s', r)"
  obtains es where "st_trace s' = st_trace s @ es" "list_all P es"
  using assms unfolding does_def by (metis fst_conv)

lemma keeps_does:
  assumes "does P m"
    and "\<And>s' es. st_trace s' = st_trace s @ es \<Longrightarrow> list_all P es \<Longrightarrow> I s'"
    and "\<And>x s' es. m s = (s', Ret x) \<Longrightarrow> st_trace s' = st_trace s @ es \<Longrightarrow> list_all P es \<Longrightarrow> T x s'"
  shows "keeps I m T s"
proof -
  obtain s' r where run: "m s = (s', r)" by fastforce
  obtain es where "st_trace s' = st_trace s @ es" "list_all P es" by (rule does_run [OF assms(1) run])
  then show ?thesis using run assms(2,3) by (auto simp: keeps_def)
qed

section \<open>Justified histories\<close>

definition justified :: "('e list \<Rightarrow> 'e \<Rightarrow> bool) \<Rightarrow> 'e list \<Rightarrow> bool" where
  "justified J t \<longleftrightarrow> (\<forall>i < length t. J (take i t) (t ! i))"

lemma justified_Nil [simp]: "justified J []"
  by (simp add: justified_def)

lemma justified_snoc [simp]: "justified J (t @ [ev]) \<longleftrightarrow> justified J t \<and> J t ev"
  by (auto simp: justified_def less_Suc_eq nth_append)

lemma justified_pair [simp]: "justified J (t @ [a, b]) \<longleftrightarrow> justified J t \<and> J t a \<and> J (t @ [a]) b"
  using justified_snoc [of J "t @ [a]" b] by simp

lemma justified_split: "justified J (pre @ ev # post) \<Longrightarrow> J pre ev"
  unfolding justified_def by (drule spec [of _ "length pre"]) simp

lemma justified_append:
  "justified J t \<Longrightarrow> list_all P es \<Longrightarrow> (\<And>ev pre. P ev \<Longrightarrow> J (t @ pre) ev) \<Longrightarrow> justified J (t @ es)"
proof (induction es rule: rev_induct)
  case (snoc ev es)
  then show ?case by (simp add: append_assoc [symmetric] del: append_assoc)
qed simp

section \<open>Calm events\<close>

text \<open>Events that neither move value nor announce a leg.\<close>

fun calm :: "'r xc_event \<Rightarrow> bool" where
  "calm (EvSend m ok) \<longleftrightarrow> xm_Type m \<noteq> XcBtcLegFunded \<and> xm_Type m \<noteq> XcSeqLegLocked \<and> xm_Type m \<noteq> XcTerms"
| "calm (EvLockBTC c r a l x) \<longleftrightarrow> False"
| "calm (EvClaimBTC l k fee x) \<longleftrightarrow> False"
| "calm (EvRefundBTC l k t fee x) \<longleftrightarrow> False"
| "calm (EvLockSEQ c r a asset l x) \<longleftrightarrow> False"
| "calm (EvClaimSEQ l k fee x) \<longleftrightarrow> False"
| "calm (EvRefundSEQ l k t fee x) \<longleftrightarrow> False"
| "calm (EvSeqBroadcast raw x) \<longleftrightarrow> False"
| "calm ev \<longleftrightarrow> True"

lemmas call_defs = xc_Now_def xc_Sleep_def xc_Select_def xc_Cancelled_def xc_Send_def xc_Recv_def NewKey_def NewOps_def BtcTip_def
  BtcConfirmations_def LockBTCLeg_def VerifyBTCLeg_def ClaimBTCLeg_def RefundBTCLeg_def SeqTip_def AnchorStatus_def
  BlockOnActiveChain_def BlockAnchorHeight_def BlockCertification_def BlockHashOfTx_def FeeRate_def LockSEQLeg_def VerifySEQLeg_def
  ClaimSEQLeg_def WatchSEQClaim_def RefundSEQLeg_def SeqBroadcast_def

lemmas msg_types = XcTermsRequest_def XcTerms_def XcBtcLegFunded_def XcSeqLegLocked_def XcBtcLegLocked_def XcSeqLegFunded_def
  XcSecretRevealed_def XcFail_def

lemma msg_types_distinct:
  "distinct [XcTermsRequest, XcTerms, XcBtcLegFunded, XcSeqLegLocked, XcBtcLegLocked, XcSeqLegFunded, XcSecretRevealed, XcFail]"
  by (simp add: msg_types)

lemma fail_is_no_leg [simp]: "XcFail \<noteq> XcBtcLegFunded" "XcFail \<noteq> XcSeqLegLocked" "XcFail \<noteq> XcTerms" "XcTerms \<noteq> XcFail"
  "XcBtcLegFunded \<noteq> XcFail" "XcSeqLegLocked \<noteq> XcFail" "XcTermsRequest \<noteq> XcBtcLegFunded" "XcTermsRequest \<noteq> XcSeqLegLocked" "XcTermsRequest \<noteq> XcTerms"
  "XcBtcLegFunded \<noteq> XcTerms" "XcTerms \<noteq> XcBtcLegFunded" "XcSeqLegLocked \<noteq> XcBtcLegFunded" "XcBtcLegFunded \<noteq> XcSeqLegLocked"
  "XcSeqLegLocked \<noteq> XcTerms" "XcTerms \<noteq> XcSeqLegLocked"
  using msg_types_distinct by auto

lemma failMsg_type [simp]: "xm_Type (failMsg code) = XcFail"
  by (simp add: failMsg_def)

lemma fail_calm [simp]: "calm (EvSend (failMsg code) ok)"
  by simp

lemma request_calm [simp]: "calm (EvSend (zero_msg\<lparr>xm_Type := XcTermsRequest\<rparr>) ok)"
  by simp

lemma read_calm [does_rules]:
  "does calm (xc_Now e)" "does calm (xc_Sleep d)" "does calm (xc_Select e d)" "does calm (xc_Cancelled e)" "does calm (xc_Recv e d)"
  "does calm (NewKey e)" "does calm (NewOps e h)" "does calm (BtcTip e)" "does calm (BtcConfirmations e txid)"
  "does calm (VerifyBTCLeg e lt)" "does calm (SeqTip e)" "does calm (AnchorStatus e)" "does calm (BlockOnActiveChain e bh)"
  "does calm (BlockAnchorHeight e bh)" "does calm (BlockCertification e bh)" "does calm (BlockHashOfTx e txid)"
  "does calm (FeeRate e asset)" "does calm (VerifySEQLeg e lt)" "does calm (WatchSEQClaim e leg)"
  by (simp_all add: call_defs does_ask)

lemma sendXcFail_calm [does_rules]: "does calm (sendXcFail e code)"
  by (auto simp: sendXcFail_def call_defs intro!: does_rules)

lemma refuse_calm [does_rules]: "does calm (refuse e code er)"
  by (auto simp: refuse_def intro!: does_rules)

lemma check_calm [does_rules]: "does calm (check e code er ok)"
  by (auto simp: check_def intro!: does_rules)

lemma recv_until_calm [does_rules]: "does calm (recv_until n e want deadline)"
proof (induction n)
  case (Suc n)
  then show ?case by (auto intro!: does_rules split: courier_frame.split)
qed (simp add: does_rules)

lemma recvXcType_calm [does_rules]: "does calm (recvXcType n e want wait)"
  by (auto simp: recvXcType_def intro!: does_rules)

lemma recv_windows_calm [does_rules]: "does calm worth \<Longrightarrow> does calm (recv_windows k n e want step worth)"
proof (induction k)
  case (Suc k)
  then show ?case by (auto intro!: does_rules split: xc_error.split)
qed (simp add: does_rules)

lemma fundWindow_check_calm [does_rules]: "does calm (fundWindow_check e w)"
  by (auto simp: fundWindow_check_def intro!: does_rules)

lemma claimWindow_closed_calm [does_rules]: "does calm (claimWindow_closed e w)"
  by (auto simp: claimWindow_closed_def intro!: does_rules)

lemma anchor_wait_calm [does_rules]: "does calm (anchor_wait n k e target w tm)"
proof (induction n arbitrary: k)
  case (Suc n)
  then show ?case by (auto simp: Let_def intro!: does_rules)
qed (simp add: does_rules)

lemma confirmed_height_calm [does_rules]: "does calm (confirmed_height k e txid minConf)"
proof (induction k)
  case (Suc k)
  then show ?case by (auto intro!: does_rules)
qed (simp add: does_rules)

lemma VerifySeqLegSafe_calm [does_rules]: "does calm (VerifySeqLegSafe e bh h)"
  by (auto simp: VerifySeqLegSafe_def Let_def intro!: does_rules)

lemma gate_pass_calm [does_rules]: "does calm (gate_pass e txid h)"
  by (auto simp: gate_pass_def intro!: does_rules)

lemma gateSeqLeg_calm [does_rules]: "does calm (gateSeqLeg n e txid h w tm)"
proof (induction n)
  case (Suc n)
  then show ?case by (auto intro!: does_rules)
qed (simp add: does_rules)

section \<open>Invariants of a driver\<close>

text \<open>An invariant that calm events cannot break, and the rules for the driver's own steps under it.\<close>

locale driver_invariant =
  fixes I :: "'r run_state \<Rightarrow> bool"
  assumes calm_ext: "I s \<Longrightarrow> st_trace s' = st_trace s @ es \<Longrightarrow> list_all calm es \<Longrightarrow> I s'"
begin

lemma keeps_calm:
  assumes "does calm m" and "I s" and "\<And>x s' es. m s = (s', Ret x) \<Longrightarrow> st_trace s' = st_trace s @ es \<Longrightarrow> list_all calm es \<Longrightarrow> T x s'"
  shows "keeps I m T s"
  using assms by (intro keeps_does [of calm]) (auto intro: calm_ext)

lemma bind_calm:
  assumes "does calm m" and "I s"
    and "\<And>x s' es. m s = (s', Ret x) \<Longrightarrow> I s' \<Longrightarrow> st_trace s' = st_trace s @ es \<Longrightarrow> list_all calm es \<Longrightarrow> keeps I (f x) T s'"
  shows "keeps I (act_bind m f) T s"
proof (rule keeps_bind [where R = "\<lambda>x s'. \<exists>es. m s = (s', Ret x) \<and> st_trace s' = st_trace s @ es \<and> list_all calm es"])
  show "keeps I m (\<lambda>x s'. \<exists>es. m s = (s', Ret x) \<and> st_trace s' = st_trace s @ es \<and> list_all calm es) s"
    by (rule keeps_calm [OF assms(1,2)]) blast
qed (use assms(3) in blast)

lemma refuse_never: "refuse e code er s \<noteq> (s', Ret x)"
  by (simp add: refuse_def sendXcFail_def act_bind_def stop_def ret_def xc_Send_def ask_def Let_def)

lemma refuse_keeps: "I s \<Longrightarrow> keeps I (refuse e code er) T s"
  by (rule keeps_calm [OF refuse_calm]) (auto simp: refuse_never)

lemma bind_refuse: "I s \<Longrightarrow> keeps I (act_bind (refuse e code er) f) T s"
  by (rule keeps_bind [where R = "\<lambda>_ _. False"]) (auto intro: refuse_keeps)

lemma bind_check: "I s \<Longrightarrow> (ok \<Longrightarrow> keeps I (f ()) T s) \<Longrightarrow> keeps I (act_bind (check e code er ok) f) T s"
  by (cases ok) (simp_all add: check_def bind_refuse, simp add: act_bind_def ret_def keeps_def)

lemma keeps_check: "I s \<Longrightarrow> (ok \<Longrightarrow> T () s) \<Longrightarrow> keeps I (check e code er ok) T s"
  by (cases ok) (simp_all add: check_def refuse_keeps keeps_ret)

lemma bind_guard: "I s \<Longrightarrow> (ok \<Longrightarrow> keeps I (f ()) T s) \<Longrightarrow> keeps I (act_bind (guard er ok) f) T s"
  by (cases ok) (auto simp: guard_def act_bind_def ret_def stop_def keeps_def)

lemma bind_need: "I s \<Longrightarrow> (\<And>y. x = Some y \<Longrightarrow> keeps I (f y) T s) \<Longrightarrow> keeps I (act_bind (need er x) f) T s"
  by (cases x) (auto simp: need_def act_bind_def ret_def stop_def keeps_def)

lemma bind_ask:
  assumes "I s" and "\<And>x. calm (ev x)"
    and "\<And>x. I (s\<lparr>st_trace := st_trace s @ [ev x]\<rparr>) \<Longrightarrow> keeps I (f x) T (s\<lparr>st_trace := st_trace s @ [ev x]\<rparr>)"
  shows "keeps I (act_bind (ask g ev) f) T s"
proof -
  have "I (s\<lparr>st_trace := st_trace s @ [ev x]\<rparr>)" for x by (rule calm_ext [OF assms(1), of _ "[ev x]"]) (simp_all add: assms(2))
  then show ?thesis using assms(3) by (simp add: keeps_def act_bind_def ask_def Let_def)
qed

lemma bind_put_res:
  assumes "I s" and "I (s\<lparr>st_res := g (st_res s)\<rparr>) \<Longrightarrow> keeps I (f ()) T (s\<lparr>st_res := g (st_res s)\<rparr>)"
  shows "keeps I (act_bind (put_res g) f) T s"
proof -
  have "I (s\<lparr>st_res := g (st_res s)\<rparr>)" by (rule calm_ext [OF assms(1), of _ "[]"]) simp_all
  then show ?thesis using assms(2) by (simp add: keeps_def act_bind_def put_res_def)
qed

lemmas bind_rules = bind_check bind_guard bind_need bind_put_res bind_refuse refuse_keeps

end

section \<open>Rules of a driver\<close>

text \<open>The history follows \<open>rule\<close>; an event that is \<open>pending\<close> is saved by the very next one, and none is left unsaved.\<close>

definition run_inv :: "('r xc_event list \<Rightarrow> 'r xc_event \<Rightarrow> bool) \<Rightarrow> ('r xc_event \<Rightarrow> bool) \<Rightarrow> ('r xc_event \<Rightarrow> 'r xc_event \<Rightarrow> bool) \<Rightarrow> 'r run_state \<Rightarrow> bool" where
  "run_inv rule pending saves s \<longleftrightarrow>
     justified (\<lambda>pre ev. rule pre ev \<and> (pre \<noteq> [] \<longrightarrow> pending (last pre) \<longrightarrow> saves (last pre) ev)) (st_trace s) \<and>
     (st_trace s \<noteq> [] \<longrightarrow> \<not> pending (last (st_trace s)))"

lemma run_inv_res [simp]: "run_inv rule pending saves (s\<lparr>st_res := r\<rparr>) \<longleftrightarrow> run_inv rule pending saves s"
  by (simp add: run_inv_def)

locale ruled_run =
  fixes rule :: "'r xc_event list \<Rightarrow> 'r xc_event \<Rightarrow> bool" and pending :: "'r xc_event \<Rightarrow> bool" and saves :: "'r xc_event \<Rightarrow> 'r xc_event \<Rightarrow> bool"
  assumes calm_rule: "calm ev \<Longrightarrow> rule pre ev"
    and calm_settled: "calm ev \<Longrightarrow> \<not> pending ev"
begin

lemma inv_step:
  "run_inv rule pending saves s \<Longrightarrow> rule (st_trace s) ev \<Longrightarrow> \<not> pending ev \<Longrightarrow> st_trace s' = st_trace s @ [ev] \<Longrightarrow> run_inv rule pending saves s'"
  by (simp add: run_inv_def)

lemma inv_saved:
  "run_inv rule pending saves s \<Longrightarrow> rule (st_trace s) ev \<Longrightarrow> calm ev' \<Longrightarrow> saves ev ev' \<Longrightarrow> st_trace s' = st_trace s @ [ev, ev'] \<Longrightarrow> run_inv rule pending saves s'"
  by (simp add: run_inv_def calm_rule calm_settled)

lemma inv_calm:
  assumes "run_inv rule pending saves s" and "st_trace s' = st_trace s @ es" and "list_all calm es"
  shows "run_inv rule pending saves s'"
  using assms(2,3)
proof (induction es arbitrary: s' rule: rev_induct)
  case Nil
  then show ?case using assms(1) by (simp add: run_inv_def)
next
  case (snoc ev es)
  have "run_inv rule pending saves (s\<lparr>st_trace := st_trace s @ es\<rparr>)" using snoc by simp
  then show ?case by (rule inv_step [of _ ev]) (use snoc.prems in \<open>auto simp: calm_rule calm_settled\<close>)
qed

end

sublocale ruled_run \<subseteq> driver_invariant "run_inv rule pending saves"
  by unfold_locales (rule inv_calm)

end
