(* ===== verification/Swap_Arithmetic.thy ===== *)
theory Swap_Arithmetic
  imports Swap_Terms Sample_Book
begin

text \<open>
  Exactness of the swap drivers' arithmetic: no slice price panics or wraps, minimum slices are exact, and the deadlines of
  two chains are compared on the safe side.
\<close>

section \<open>Slices\<close>

lemma unat_bits_Div64:
  assumes "unat hi * 2 ^ 64 + unat lo = n" "hi < d"
  shows "unat (fst (bits_Div64 hi lo d)) = n div unat d" "unat (snd (bits_Div64 hi lo d)) = n mod unat d"
proof -
  have "n < unat d * 2 ^ 64"
  proof -
    have "n < unat hi * 2 ^ 64 + 2 ^ 64" using assms(1) unat_u64_less [of lo] by simp
    also have "\<dots> = (unat hi + 1) * 2 ^ 64" by (simp add: distrib_right)
    also have "\<dots> \<le> unat d * 2 ^ 64" using assms(2) by (intro mult_le_mono1) (simp add: u64_less Suc_le_eq)
    finally show ?thesis .
  qed
  then have "n div unat d < 2 ^ 64" by (simp add: less_mult_imp_div_less mult.commute)
  moreover have "n mod unat d < 2 ^ 64"
  proof -
    have "n mod unat d < unat d" using assms(2) by (intro mod_less_divisor) (simp add: u64_less)
    from less_trans [OF this unat_u64_less] show ?thesis by simp
  qed
  ultimately show "unat (fst (bits_Div64 hi lo d)) = n div unat d" "unat (snd (bits_Div64 hi lo d)) = n mod unat d"
    using assms(1) by (simp_all add: bits_Div64_def Let_def u64_unat_of_nat)
qed

lemma mulDiv64_exact:
  assumes "d \<noteq> 0" "unat a * unat b < unat d * 2 ^ 64"
  shows "\<exists>q r. mulDiv64 a b d = Some (q, r) \<and> unat q = unat a * unat b div unat d \<and> unat r = unat a * unat b mod unat d"
proof -
  obtain hi lo where m: "bits_Mul64 a b = (hi, lo)" by fastforce
  note p = unat_bits_Mul64 [OF m]
  have "unat hi < unat d"
  proof (rule ccontr)
    assume "\<not> unat hi < unat d"
    then have "unat d * 2 ^ 64 \<le> unat hi * 2 ^ 64" by (intro mult_le_mono1) simp
    with p(1) assms(2) show False by linarith
  qed
  then have hi: "hi < d" by (simp add: u64_less)
  obtain q r where qr: "bits_Div64 hi lo d = (q, r)" by fastforce
  with unat_bits_Div64 [OF p(1) hi] m hi show ?thesis by (simp add: mulDiv64_def)
qed

lemma slice_bound: "(b :: u64) \<le> (d :: u64) \<Longrightarrow> d \<noteq> 0 \<Longrightarrow> unat (a :: u64) * unat b < unat d * 2 ^ 64"
proof -
  assume "b \<le> d" "d \<noteq> 0"
  then have le: "unat a * unat b \<le> unat a * unat d" and pos: "0 < unat d" by (simp_all add: u64_le unat_u64_pos)
  have "unat a * unat d < 2 ^ 64 * unat d" using pos unat_u64_less [of a] by simp
  with le have "unat a * unat b < 2 ^ 64 * unat d" by (rule le_less_trans)
  then show ?thesis by (simp only: mult.commute)
qed

lemma ceil_div_rem: "0 < d \<Longrightarrow> ceil_div n d = (if n mod d = 0 then n div d else n div d + 1)"
proof (cases "n mod d = 0")
  assume d: "0 < d"
  {
    case True
    then obtain k where "n = d * k" by (auto simp: mod_eq_0_iff_dvd)
    moreover have "(d - 1 + d * k) div d = k + (d - 1) div d" using d by (intro div_mult_self2) simp
    ultimately show ?thesis using d True by (simp add: ceil_div_def add.commute)
  next
    case False
    have "n + (d - 1) = (n mod d - 1) + (n div d + 1) * d"
      using False d mod_mult_div_eq [of n d] by (simp add: distrib_right)
    moreover have "(n mod d - 1) div d = 0" using d by (meson diff_le_self div_less le_less_trans mod_less_divisor)
    ultimately have "(n + (d - 1)) div d = n div d + 1 + 0" using d by (simp only: div_mult_self1)
    then show ?thesis using False unfolding ceil_div_def by (simp only: if_False add_0_right)
  }
qed

lemma ceil_div_le_iff: "0 < d \<Longrightarrow> ceil_div a d \<le> q \<longleftrightarrow> a \<le> q * d"
  using ceil_div_ge [of d a] ceil_div_least [of d a q] by (meson le_trans mult_le_mono1)

lemma mulDiv64_slice:
  assumes "d \<noteq> 0" "b \<le> d"
  shows "\<exists>q r. mulDiv64 a b d = Some (q, r) \<and> unat q = unat a * unat b div unat d \<and>
    unat (if r \<noteq> 0 then q + 1 else q) = ceil_div (unat a * unat b) (unat d)"
proof -
  have pos: "0 < unat d" using assms(1) by (simp add: unat_u64_pos)
  obtain q r where qr: "mulDiv64 a b d = Some (q, r)" "unat q = unat a * unat b div unat d" "unat r = unat a * unat b mod unat d"
    using mulDiv64_exact [OF assms(1) slice_bound [OF assms(2,1)]] by blast
  have up: "unat (q + 1) = unat q + 1" if r: "unat r \<noteq> 0"
  proof -
    have "unat a * unat b \<noteq> 0" using qr(3) r by (metis mod_0)
    moreover have "unat b \<noteq> unat d" using qr(3) r by (metis mod_mult_self2_is_0)
    ultimately have "unat a * unat b < unat a * unat d" using assms(2) by (simp add: u64_le)
    then have "unat q < unat a" unfolding qr(2) by (rule less_mult_imp_div_less)
    then show ?thesis using unat_u64_less [of a] u64_unat_add [of q 1] by simp
  qed
  have "unat (if r \<noteq> 0 then q + 1 else q) = (if unat r = 0 then unat q else unat q + 1)"
    using up by (auto simp: u64_eq)
  then have "unat (if r \<noteq> 0 then q + 1 else q) = ceil_div (unat a * unat b) (unat d)"
    unfolding ceil_div_rem [OF pos] qr(2,3) .
  with qr show ?thesis by blast
qed

lemma mulDiv64_ceil:
  assumes "d \<noteq> 0" "unat a < unat d"
  shows "\<exists>q r. mulDiv64 a b d = Some (q, r) \<and> unat (if r \<noteq> 0 then q + 1 else q) = ceil_div (unat a * unat b) (unat d)"
proof -
  have "mulDiv64 a b d = mulDiv64 b a d" by (simp add: mulDiv64_def bits_Mul64_def mult.commute)
  moreover have "a \<le> d" using assms(2) by (simp add: u64_le)
  ultimately show ?thesis using mulDiv64_slice [OF assms(1), of a b] by (metis mult.commute)
qed

lemma ProportionalBtc_exact:
  assumes "wholeAsset \<noteq> 0" "takeAsset \<le> wholeAsset"
  shows "\<exists>b. ProportionalBtc wholeBtc takeAsset wholeAsset = Some b \<and>
    unat b = ceil_div (unat wholeBtc * unat takeAsset) (unat wholeAsset)"
    "\<exists>b. ProportionalBtcFloor wholeBtc takeAsset wholeAsset = Some b \<and>
    unat b = unat wholeBtc * unat takeAsset div unat wholeAsset"
proof -
  have pos: "0 < unat wholeAsset" using assms(1) by (simp add: unat_u64_pos)
  obtain q r where qr: "mulDiv64 wholeBtc takeAsset wholeAsset = Some (q, r)"
      "unat q = unat wholeBtc * unat takeAsset div unat wholeAsset"
      "unat (if r \<noteq> 0 then q + 1 else q) = ceil_div (unat wholeBtc * unat takeAsset) (unat wholeAsset)"
    using mulDiv64_slice [OF assms] by blast
  have whole: "wholeAsset \<le> takeAsset \<Longrightarrow> takeAsset = wholeAsset" using assms(2) by simp
  have exact: "ceil_div (unat wholeBtc * unat wholeAsset) (unat wholeAsset) = unat wholeBtc"
    using pos by (simp add: ceil_div_rem)
  show "\<exists>b. ProportionalBtc wholeBtc takeAsset wholeAsset = Some b \<and> unat b = ceil_div (unat wholeBtc * unat takeAsset) (unat wholeAsset)"
  proof (cases "wholeAsset \<le> takeAsset")
    case True
    with whole exact show ?thesis by (simp add: ProportionalBtc_def)
  next
    case False
    with assms(1) have "ProportionalBtc wholeBtc takeAsset wholeAsset = Some (if r \<noteq> 0 then q + 1 else q)"
      by (simp add: ProportionalBtc_def qr(1))
    with qr(3) show ?thesis by blast
  qed
  show "\<exists>b. ProportionalBtcFloor wholeBtc takeAsset wholeAsset = Some b \<and> unat b = unat wholeBtc * unat takeAsset div unat wholeAsset"
    using assms(1) qr(1,2) whole pos by (cases "wholeAsset \<le> takeAsset") (auto simp: ProportionalBtcFloor_def)
qed

text \<open>C27: a slice of an offer has one price that both sides compute: it never panics, the price a payer of Bitcoin owes is the exact
  proportional price rounded up to a satoshi, the price a receiver of Bitcoin gets is the same price rounded down, and a whole take
  costs exactly the offer's amount.\<close>

theorem slice_price_exact:
  assumes "wholeAsset \<noteq> 0" "takeAsset \<le> wholeAsset"
  shows "\<exists>up down. ProportionalBtc wholeBtc takeAsset wholeAsset = Some up \<and> ProportionalBtcFloor wholeBtc takeAsset wholeAsset = Some down \<and>
    unat up = ceil_div (unat wholeBtc * unat takeAsset) (unat wholeAsset) \<and>
    unat down = unat wholeBtc * unat takeAsset div unat wholeAsset \<and> down \<le> up \<and> up \<le> wholeBtc \<and>
    (takeAsset = wholeAsset \<longrightarrow> up = wholeBtc \<and> down = wholeBtc)"
proof -
  obtain up down where p: "ProportionalBtc wholeBtc takeAsset wholeAsset = Some up" "ProportionalBtcFloor wholeBtc takeAsset wholeAsset = Some down"
      "unat up = ceil_div (unat wholeBtc * unat takeAsset) (unat wholeAsset)" "unat down = unat wholeBtc * unat takeAsset div unat wholeAsset"
    using ProportionalBtc_exact [OF assms] by blast
  have pos: "0 < unat wholeAsset" using assms(1) by (simp add: unat_u64_pos)
  have "down \<le> up" using pos by (simp add: u64_le p(3,4) ceil_div_rem)
  moreover have "up \<le> wholeBtc" unfolding u64_le p(3)
    using assms(2) by (intro ceil_div_least [OF pos]) (simp add: u64_le)
  moreover have "up = wholeBtc \<and> down = wholeBtc" if "takeAsset = wholeAsset"
    using p(1,2) that by (simp add: ProportionalBtc_def ProportionalBtcFloor_def)
  ultimately show ?thesis using p by blast
qed

theorem slice_price_exact_witness:
  "\<exists>up down. ProportionalBtc 100000000 700000000000000 2100000000000000 = Some up \<and>
    ProportionalBtcFloor 100000000 700000000000000 2100000000000000 = Some down \<and> unat up = 33333334 \<and> unat down = 33333333"
  using slice_price_exact [of 2100000000000000 700000000000000 100000000] by (auto simp: ceil_div_def)

section \<open>Requests\<close>

text \<open>An honest request passes the maker's check: for every take within the offer the amounts are computed without a panic, and when they
  are not zero the request that carries them validates against the offer; every request that validates pays the maker at least the
  offer's ratio for what it receives, and never asks for more than is offered.\<close>

lemma honest_request_validates:
  assumes "takeBase \<le> BaseAmount ofr"
  shows "(\<exists>r. proRata ofr takeBase = Some r) \<and>
    (\<forall>recv pay. proRata ofr takeBase = Some (Inr (recv, pay)) \<longrightarrow>
       ValidateRequestAgainstOffer \<lparr>sr_AssetP = WantAsset ofr, sr_AmountP = pay, sr_AssetR = OfferAsset ofr, sr_AmountR = recv\<rparr> ofr = Inr ()) \<and>
    (\<forall>req. ValidateRequestAgainstOffer req ofr = Inr () \<longrightarrow>
       unat (WantAmount ofr) * unat (sr_AmountR req) \<le> unat (sr_AmountP req) * unat (OfferAmount ofr) \<and> sr_AmountR req \<le> OfferAmount ofr)"
proof (intro conjI allI impI)
  note price = mulDiv64_slice [OF _ assms]
  show "\<exists>r. proRata ofr takeBase = Some r"
    using price [of "OfferAmount ofr"] price [of "WantAmount ofr"] by (fastforce simp: proRata_def Let_def)
  fix recv pay
  assume pr: "proRata ofr takeBase = Some (Inr (recv, pay))"
  then obtain q r r' where ok: "BaseAmount ofr \<noteq> 0" "mulDiv64 (OfferAmount ofr) takeBase (BaseAmount ofr) = Some (recv, r')"
      "mulDiv64 (WantAmount ofr) takeBase (BaseAmount ofr) = Some (q, r)" "pay = (if r \<noteq> 0 then q + 1 else q)" "recv \<noteq> 0" "pay \<noteq> 0"
    by (auto simp: proRata_def Let_def split: if_splits option.splits)
  let ?b = "unat (BaseAmount ofr)" and ?t = "unat takeBase" and ?w = "unat (WantAmount ofr)" and ?f = "unat (OfferAmount ofr)"
  have pos: "0 < ?b" using ok(1) by (simp add: unat_u64_pos)
  have recv: "unat recv = ?f * ?t div ?b" using price [OF ok(1), of "OfferAmount ofr"] ok(2) by simp
  have pay: "?w * ?t \<le> unat pay * ?b"
    using price [OF ok(1), of "WantAmount ofr"] ok(3,4) ceil_div_ge [OF pos, of "?w * ?t"] by auto
  have "unat recv \<le> ?f" using assms unfolding recv
    by (metis div_le_mono div_mult_self_is_m mult_le_mono2 nonzero_mult_div_cancel_right pos u64_le less_not_refl2)
  moreover have "?w * unat recv \<le> unat pay * ?f"
  proof -
    have "?w * unat recv * ?b \<le> ?w * (?f * ?t)" using div_times_less_eq_dividend [of "?f * ?t" ?b] by (simp add: recv mult.assoc)
    also have "\<dots> = ?f * (?w * ?t)" by (simp add: mult.left_commute)
    also have "\<dots> \<le> ?f * (unat pay * ?b)" using pay by simp
    finally have "?w * unat recv * ?b \<le> unat pay * ?f * ?b" by (simp add: ac_simps)
    then show ?thesis using pos by simp
  qed
  ultimately show "ValidateRequestAgainstOffer \<lparr>sr_AssetP = WantAsset ofr, sr_AmountP = pay, sr_AssetR = OfferAsset ofr, sr_AmountR = recv\<rparr> ofr = Inr ()"
    using ok(5,6) by (simp add: ValidateRequestAgainstOffer_def u64_less not_less)
qed (auto simp: ValidateRequestAgainstOffer_def not_less split: if_splits)

section \<open>Minimum slices\<close>

text \<open>The advertised minimum slice is exact: a slice of an offer, rounded down, prices to a Bitcoin leg that clears the dust and fee floor
  exactly when it is at least the advertised minimum, so every such slice passes the drivers' guard whichever way its price is rounded;
  and when the whole offer does not clear the floor, only whole takes are advertised.\<close>

lemma min_fill_exact:
  assumes "wholeAsset \<noteq> 0" "0 < tk" "tk < wholeAsset" "MinSafeBtcLegSats fee \<noteq> 0"
  shows "\<exists>m up down. MinFillBase wholeBtc wholeAsset fee = Some m \<and> ProportionalBtc wholeBtc tk wholeAsset = Some up \<and>
    ProportionalBtcFloor wholeBtc tk wholeAsset = Some down \<and> (minSafeBtcErr tk wholeAsset down fee \<longleftrightarrow> m \<le> tk) \<and>
    (m \<le> tk \<longrightarrow> minSafeBtcErr tk wholeAsset up fee)"
proof -
  let ?B = "unat wholeBtc" and ?W = "unat wholeAsset" and ?t = "unat tk" and ?m = "unat (MinSafeBtcLegSats fee)"
  obtain up down where p: "ProportionalBtc wholeBtc tk wholeAsset = Some up" "ProportionalBtcFloor wholeBtc tk wholeAsset = Some down"
      "unat up = ceil_div (?B * ?t) ?W" "unat down = ?B * ?t div ?W"
    using ProportionalBtc_exact [OF assms(1) less_imp_le [OF assms(3)], of wholeBtc] by blast
  have pos: "0 < ?W" "0 < ?t" "?t < ?W" "0 < ?m" using assms by (simp_all add: unat_u64_pos u64_less)
  have guard: "minSafeBtcErr tk wholeAsset v fee \<longleftrightarrow> ?m \<le> unat v" for v
    using assms(3) by (simp add: minSafeBtcErr_def u64_le not_le u64_less)
  have le: "down \<le> up" using pos(1) by (simp add: u64_le p(3,4) ceil_div_rem)
  have floor: "?m \<le> unat down \<longleftrightarrow> ?m * ?W \<le> ?B * ?t"
    unfolding p(4) using pos(1) by (simp add: less_eq_div_iff_mult_less_eq)
  have "\<exists>m. MinFillBase wholeBtc wholeAsset fee = Some m \<and> (?m * ?W \<le> ?B * ?t \<longleftrightarrow> unat m \<le> ?t)"
  proof (cases "wholeBtc \<le> MinSafeBtcLegSats fee")
    case True
    then have "?B * ?t \<le> ?m * ?t" by (simp add: u64_le)
    also have "\<dots> < ?m * ?W" using pos by simp
    finally have "\<not> ?m * ?W \<le> ?B * ?t" by simp
    then show ?thesis using True assms(1) pos(3) by (simp add: MinFillBase_def Let_def)
  next
    case False
    then have B: "?m < ?B" by (simp add: u64_le)
    then have nz: "wholeBtc \<noteq> 0" by (auto simp: u64_eq)
    obtain q r where qr: "mulDiv64 (MinSafeBtcLegSats fee) wholeAsset wholeBtc = Some (q, r)"
        "unat (if r \<noteq> 0 then q + 1 else q) = ceil_div (?m * ?W) ?B" using mulDiv64_ceil [OF nz B] by blast
    let ?q = "if r \<noteq> 0 then q + 1 else q"
    have cd: "0 < ceil_div (?m * ?W) ?B" "ceil_div (?m * ?W) ?B \<le> ?W"
      using B pos by (auto intro!: ceil_div_pos ceil_div_least)
    then have "?q \<noteq> 0" "\<not> wholeAsset < ?q" using qr(2) by (auto simp: u64_eq u64_less)
    then have "MinFillBase wholeBtc wholeAsset fee = Some ?q"
      using False assms(1) by (simp add: MinFillBase_def qr(1) Let_def)
    moreover have "?m * ?W \<le> ?B * ?t \<longleftrightarrow> ceil_div (?m * ?W) ?B \<le> ?t"
      using ceil_div_le_iff [of ?B "?m * ?W" ?t] B by (simp add: mult.commute)
    ultimately show ?thesis using qr(2) by metis
  qed
  then obtain m where m: "MinFillBase wholeBtc wholeAsset fee = Some m" "?m * ?W \<le> ?B * ?t \<longleftrightarrow> m \<le> tk" by (auto simp: u64_le)
  have "m \<le> tk \<Longrightarrow> ?m \<le> unat up" using floor m(2) le by (auto simp: u64_le)
  then show ?thesis using m p(1,2) guard floor by metis
qed

section \<open>Deadlines\<close>

lemma unat_u32_less: "unat (x :: u32) < 4294967296"
  using unsigned_less [of x, where 'a = nat] by simp

lemma unat_ucast_u32 [simp]: "unat (ucast (x :: u32) :: u64) = unat x"
  by (simp add: unsigned_ucast_eq take_bit_nat_eq_self order.strict_trans [OF unat_u32_less])

lemma unat_secs: "unat (ucast (x :: u32) * ucast (y :: u32) :: u64) = unat x * unat y"
  and unat_secs_add: "unat (ucast (x :: u32) * ucast (y :: u32) + ucast (z :: u32) :: u64) = unat x * unat y + unat z"
proof -
  have "unat x * unat y \<le> 4294967295 * 4294967295"
    using unat_u32_less [of x] unat_u32_less [of y] by (intro mult_le_mono) simp_all
  then have b: "unat x * unat y + unat z < 18446744073709551616" using unat_u32_less [of z] by simp
  show *: "unat (ucast x * ucast y :: u64) = unat x * unat y" using b by (simp add: unat_word_ariths)
  show "unat (ucast x * ucast y + ucast z :: u64) = unat x * unat y + unat z"
    using b by (subst u64_unat_add) (simp_all add: *)
qed

lemma unat_cut: "unat (ucast (x :: u64) :: u32) = unat x mod 4294967296"
  by (simp add: unsigned_ucast_eq take_bit_eq_mod)

lemma CapDelay_nat:
  assumes "tm_Slow ot \<noteq> 0"
  shows "unat (CapDelay r it ot m) =
    (if unat r * unat (tm_Fast it) \<le> unat m then 0 else (unat r * unat (tm_Fast it) - unat m) div unat (tm_Slow ot) mod 4294967296)"
  unfolding CapDelay_def Let_def
  by (simp add: u64_le unat_secs unat_cut unat_div u64_unat_diff)

lemma CoverDelay_nat:
  assumes "tm_Fast it \<noteq> 0" "unat d * unat (tm_Slow ot) + unat m + unat (tm_Fast it) < 2 ^ 64"
  shows "unat (CoverDelay d ot it m) = ceil_div (unat d * unat (tm_Slow ot) + unat m) (unat (tm_Fast it)) mod 4294967296"
proof -
  let ?s = "ucast d * ucast (tm_Slow ot) + ucast m :: u64" and ?f = "ucast (tm_Fast it) :: u64"
  have s: "unat ?s = unat d * unat (tm_Slow ot) + unat m" by (rule unat_secs_add)
  have pos: "0 < unat (tm_Fast it)" using assms(1) by (simp add: unat_gt_0)
  have "unat (?s + ?f) = unat ?s + unat (tm_Fast it)" using assms(2) s by (subst u64_unat_add) simp_all
  moreover have "(1 :: u64) \<le> ?s + ?f" using calculation pos by (simp add: u64_le)
  ultimately have "unat (?s + ?f - 1) = unat ?s + (unat (tm_Fast it) - 1)" using pos by (simp add: u64_unat_diff)
  then show ?thesis unfolding CoverDelay_def Let_def by (simp add: unat_cut unat_div s ceil_div_def)
qed

text \<open>The two deadline computations agree and err on the safe side: an outgoing timelock that the cap allows, with the outgoing chain at
  its slowest, ends at least the margin before the incoming deadline with the incoming chain at its fastest; and an incoming hold covers
  an outgoing timelock exactly when the cap computed from that hold allows it.\<close>

lemma deadlines_cover:
  assumes "tm_Slow ot \<noteq> 0" "tm_Fast it \<noteq> 0" "d \<noteq> 0" "unat r * unat (tm_Fast it) < unat (tm_Slow ot) * 2 ^ 32"
    "unat d * unat (tm_Slow ot) + unat m + unat (tm_Fast it) < unat (tm_Fast it) * 2 ^ 32"
  shows "(d \<le> CapDelay r it ot m \<longrightarrow> unat d * unat (tm_Slow ot) + unat m \<le> unat r * unat (tm_Fast it)) \<and>
    (CoverDelay d ot it m \<le> r \<longleftrightarrow> d \<le> CapDelay r it ot m)"
proof -
  let ?d = "unat d" and ?r = "unat r" and ?s = "unat (tm_Slow ot)" and ?f = "unat (tm_Fast it)" and ?m = "unat m"
  have pos: "0 < ?s" "0 < ?f" "0 < ?d" using assms(1-3) by (simp_all add: unat_gt_0)
  have "(?r * ?f - ?m) div ?s < 2 ^ 32" using assms(4) by (intro less_mult_imp_div_less) (simp add: mult.commute less_imp_diff_less)
  then have cap: "unat (CapDelay r it ot m) = (?r * ?f - ?m) div ?s" unfolding CapDelay_nat [OF assms(1)] by simp
  have "?f * 2 ^ 32 \<le> 4294967295 * 2 ^ 32" using unat_u32_less [of "tm_Fast it"] by simp
  then have small: "?d * ?s + ?m + ?f < 2 ^ 64" using assms(5) by simp
  have "ceil_div (?d * ?s + ?m) ?f < 2 ^ 32"
    unfolding ceil_div_def using assms(5) pos(2) by (intro less_mult_imp_div_less) (simp add: mult.commute)
  then have cover: "unat (CoverDelay d ot it m) = ceil_div (?d * ?s + ?m) ?f" unfolding CoverDelay_nat [OF assms(2) small] by simp
  have fits: "d \<le> CapDelay r it ot m \<longleftrightarrow> ?d * ?s + ?m \<le> ?r * ?f"
  proof -
    have "?d \<le> (?r * ?f - ?m) div ?s \<longleftrightarrow> ?d * ?s \<le> ?r * ?f - ?m" using pos(1) by (simp add: less_eq_div_iff_mult_less_eq)
    also have "\<dots> \<longleftrightarrow> ?d * ?s + ?m \<le> ?r * ?f" using pos by (cases "?m \<le> ?r * ?f") auto
    finally show ?thesis by (simp add: word_le_nat_alt cap)
  qed
  have "CoverDelay d ot it m \<le> r \<longleftrightarrow> ?d * ?s + ?m \<le> ?r * ?f"
    unfolding word_le_nat_alt cover
    by (rule ceil_div_le_iff [OF pos(2)])
  with fits show ?thesis by blast
qed

end
