(* ===== verification/Taker_Safety.thy ===== *)
theory Taker_Safety
  imports Swap_Logic Swap_Arithmetic
begin

text \<open>
  The forward taker never moves value except by its rules, against any maker, relay, node, clock and user: the rule of an event
  is a condition on the history before it. Funding: once, at the signed price, under the agreed keys, with lock times in bounds.
  Announcing: the leg that was funded, at the height read for it. Revealing: after the maker's leg is verified and its own block
  passes the anchor gate, while the claim window is open.
\<close>

section \<open>Reading a history\<close>

fun frame_of :: "'r xc_event \<Rightarrow> xc_msg option" where
  "frame_of (EvRecv d (Frame m)) = Some m"
| "frame_of ev = None"

definition frames :: "'r xc_event list \<Rightarrow> xc_msg list" where
  "frames t = List.map_filter frame_of t"

definition agreed_terms :: "'r xc_event list \<Rightarrow> xc_msg option" where
  "agreed_terms t = find (\<lambda>m. xm_Type m = XcTerms) (frames t)"

fun locks_btc :: "'r xc_event \<Rightarrow> bool" where
  "locks_btc (EvLockBTC c r a l x) \<longleftrightarrow> True"
| "locks_btc ev \<longleftrightarrow> False"

definition take_of :: "taker_params \<Rightarrow> u64" where
  "take_of p = (if tf_TakeSeqAmount p = 0 then tf_ExpectSeqAmount p else tf_TakeSeqAmount p)"

section \<open>The rules of the taker\<close>

definition funding_ok :: "taker_params \<Rightarrow> taker_result xc_event list \<Rightarrow> bytes \<Rightarrow> bytes \<Rightarrow> string \<Rightarrow> u32 \<Rightarrow> bool" where
  "funding_ok p pre c r amt l \<longleftrightarrow>
     \<not> list_ex locks_btc pre \<and>
     (\<exists>terms key fundBtc b sq rest.
        agreed_terms pre = Some terms \<and> tf_BtcRefundKey p = Some key \<and> pre = rest @ [EvBtcTip (Some b), EvSeqTip (Some sq)] \<and>
        take_of p \<le> tf_ExpectSeqAmount p \<and> xm_SeqAmount terms = take_of p \<and> xm_BtcAmount terms = fundBtc \<and> fundBtc \<noteq> 0 \<and>
        unat fundBtc = ceil_div (unat (tf_ExpectBtcAmount p) * unat (take_of p)) (unat (tf_ExpectSeqAmount p)) \<and>
        xm_FeeBtc terms \<le> tf_MaxFeeBtc p \<and> hex_key (xm_MakerBtcClaimPub terms) = Some c \<and> r = k_PubKey key \<and>
        amt = atomsToCoins fundBtc \<and> l = xm_BtcLocktime terms \<and> of_int b < l \<and> l \<le> of_int b + tf_MaxBtcLockDelta p \<and>
        of_int sq + tf_MinSeqClaimWindow p \<le> xm_SeqLocktime terms)"

text \<open>The height of a leg is read between two equal confirmation counts.\<close>

definition height_read :: "int \<Rightarrow> string \<Rightarrow> int \<Rightarrow> 'r xc_event list \<Rightarrow> bool" where
  "height_read minConf txid h t \<longleftrightarrow>
     (\<exists>rest k tip. t = rest @ [EvBtcConfirmations txid (Some k), EvBtcTip (Some tip), EvBtcConfirmations txid (Some k)] \<and>
        minConf \<le> k \<and> h = tip - k + 1)"

definition height_ok :: "taker_params \<Rightarrow> taker_result xc_event list \<Rightarrow> string \<Rightarrow> int \<Rightarrow> int \<Rightarrow> bool" where
  "height_ok p pre txid hp0 hp \<longleftrightarrow>
     0 < hp0 \<and> hp = hp0 \<or> height_read (tf_MinBTCConf p) txid hp pre"

definition announce_ok :: "(bytes \<Rightarrow> bytes) \<Rightarrow> taker_params \<Rightarrow> taker_result xc_event list \<Rightarrow> xc_msg \<Rightarrow> bool" where
  "announce_ok sha p pre m \<longleftrightarrow>
     (\<exists>c r amt l leg hp0 hp ckey rkey fundBtc.
        EvLockBTC c r amt l (Some (leg, hp0)) \<in> set pre \<and> height_ok p pre (fh_TxID (ll_Funded leg)) hp0 hp \<and>
        tf_SeqClaimKey p = Some ckey \<and> tf_BtcRefundKey p = Some rkey \<and> amt = atomsToCoins fundBtc \<and>
        m = taker_announce (sha (tf_Secret p)) ckey rkey (take_of p) fundBtc leg l hp)"

definition gate_read :: "string \<Rightarrow> int \<Rightarrow> 'r xc_event list \<Rightarrow> bool" where
  "gate_read txid hp es \<longleftrightarrow>
     (\<exists>bh a nh cert present. bh \<noteq> [] \<and> hp \<le> a \<and> (present \<longrightarrow> cert) \<and>
        es = [EvBlockHashOfTx txid (Some bh), EvBlockOnActiveChain bh (Some True), EvBlockOnActiveChain bh (Some True),
          EvBlockAnchorHeight bh (Some a), EvAnchorStatus (Some (nh, ''ok'')), EvBlockCertification bh (Some (cert, present))])"

definition reveal_ok :: "(bytes \<Rightarrow> bytes) \<Rightarrow> taker_params \<Rightarrow> taker_result xc_event list \<Rightarrow> leg_lock \<Rightarrow> xkey \<Rightarrow> u64 \<Rightarrow> bool" where
  "reveal_ok sha p pre leg key fee \<longleftrightarrow>
     (\<exists>rest gate tip rate terms m xl lt v.
        pre = rest @ gate @ [EvSeqTip (Some tip), EvFeeRate (tf_ExpectAsset p) rate] \<and>
        agreed_terms pre = Some terms \<and> tf_SeqClaimKey p = Some key \<and>
        EvSend m True \<in> set rest \<and> xm_Type m = XcBtcLegFunded \<and> xm_Leg m = Some xl \<and>
        EvVerifySEQ lt (Inr v) \<in> set rest \<and> leg = vl_Leg v \<and> gate_read (fh_TxID (ll_Funded leg)) (xl_Height xl) gate \<and>
        lt_HashH lt = sha (tf_Secret p) \<and> lt_ClaimPub lt = k_PubKey key \<and> hex_key (xm_MakerRefundPub terms) = Some (lt_RefundPub lt) \<and>
        lt_Locktime lt = xm_SeqLocktime terms \<and> lt_Amount lt = take_of p \<and> lt_Asset lt = tf_ExpectAsset p \<and> lt_MinConf lt = 1 \<and>
        of_int tip + tf_SeqClaimMargin p < xm_SeqLocktime terms \<and> fee = xcSeqLegFee rate (tf_SpendFeeSats p) (take_of p))"

fun taker_rule :: "(bytes \<Rightarrow> bytes) \<Rightarrow> taker_params \<Rightarrow> taker_result xc_event list \<Rightarrow> taker_result xc_event \<Rightarrow> bool" where
  "taker_rule sha p pre (EvLockBTC c r amt l x) \<longleftrightarrow> funding_ok p pre c r amt l"
| "taker_rule sha p pre (EvSend m ok) \<longleftrightarrow> calm (EvSend m ok :: taker_result xc_event) \<or> announce_ok sha p pre m"
| "taker_rule sha p pre (EvClaimSEQ leg key fee x) \<longleftrightarrow> reveal_ok sha p pre leg key fee"
| "taker_rule sha p pre ev \<longleftrightarrow> calm ev"

text \<open>A funded leg is handed to the caller for safekeeping before anything else happens.\<close>

fun unsaved :: "taker_params \<Rightarrow> taker_result xc_event \<Rightarrow> bool" where
  "unsaved p (EvLockBTC c r amt l (Some x)) \<longleftrightarrow> tf_OnBtcLegFunded p"
| "unsaved p ev \<longleftrightarrow> False"

fun saves_leg :: "taker_result xc_event \<Rightarrow> taker_result xc_event \<Rightarrow> bool" where
  "saves_leg (EvLockBTC c r amt l (Some (leg, hp))) (EvPersist snap) \<longleftrightarrow> tr_BtcLeg snap = Some leg \<and> tr_BtcLocktime snap = l"
| "saves_leg ev ev' \<longleftrightarrow> False"

abbreviation taker_inv :: "(bytes \<Rightarrow> bytes) \<Rightarrow> taker_params \<Rightarrow> taker_result run_state \<Rightarrow> bool" where
  "taker_inv sha p \<equiv> run_inv (taker_rule sha p) (unsaved p) saves_leg"

section \<open>The rules are kept\<close>

interpretation tk: ruled_run "taker_rule sha p" "unsaved p" saves_leg for sha p
proof
  fix ev :: "taker_result xc_event" and pre
  assume "calm ev"
  then show "taker_rule sha p pre ev" by (cases "(sha, p, pre, ev)" rule: taker_rule.cases) auto
next
  fix ev :: "taker_result xc_event"
  assume "calm ev"
  then show "\<not> unsaved p ev" by (cases "(p, ev)" rule: unsaved.cases) auto
qed

lemma frames_simps [simp]:
  "frames [] = []" "frames (ev # t) = (case frame_of ev of None \<Rightarrow> frames t | Some m \<Rightarrow> m # frames t)"
  "frames (t @ t') = frames t @ frames t'"
  by (auto simp: frames_def List.map_filter_def split: option.split)

lemma agreed_append: "agreed_terms t = Some m \<Longrightarrow> agreed_terms (t @ t') = Some m"
  by (induction t) (auto simp: agreed_terms_def split: option.splits if_splits)

lemma find_first: "list_all (\<lambda>x. \<not> P x) xs \<Longrightarrow> P y \<Longrightarrow> find P (xs @ y # ys) = Some y"
  by (induction xs) auto

lemma calm_no_lock: "list_all calm es \<Longrightarrow> \<not> list_ex locks_btc es"
  by (induction es) (auto elim!: locks_btc.elims)

lemma recv_until_frames:
  "recv_until n e want d s = (s', Ret m) \<Longrightarrow>
     \<exists>es fs. st_trace s' = st_trace s @ es \<and> st_res s' = st_res s \<and> frames es = fs @ [m] \<and> list_all (\<lambda>f. xm_Type f \<noteq> want) fs \<and> xm_Type m = want"
proof (induction n arbitrary: s)
  case (Suc n)
  let ?now = "xe_Now e (st_trace s)"
  let ?s1 = "s\<lparr>st_trace := st_trace s @ [EvNow ?now]\<rparr>"
  let ?fr = "xe_Recv e (st_trace ?s1) (d - ?now)"
  let ?s2 = "?s1\<lparr>st_trace := st_trace ?s1 @ [EvRecv (d - ?now) ?fr]\<rparr>"
  have *: "\<exists>es fs. st_trace s' = st_trace s @ es \<and> st_res s' = st_res s \<and> frames es = fs @ [m] \<and> list_all (\<lambda>f. xm_Type f \<noteq> want) fs \<and> xm_Type m = want"
    if run: "recv_until n e want d ?s2 = (s', Ret m)" and other: "\<And>f. ?fr = Frame f \<Longrightarrow> xm_Type f \<noteq> want" and read: "?fr \<noteq> RecvError"
  proof -
    obtain es fs where "st_trace s' = st_trace ?s2 @ es" "st_res s' = st_res s" "frames es = fs @ [m]" "list_all (\<lambda>f. xm_Type f \<noteq> want) fs" "xm_Type m = want"
      using Suc.IH [OF run] by auto
    then show ?thesis using other read
      by (intro exI [of _ "[EvNow ?now, EvRecv (d - ?now) ?fr] @ es"] exI [of _ "(case ?fr of Frame f \<Rightarrow> [f] | _ \<Rightarrow> []) @ fs"])
        (auto split: courier_frame.split)
  qed
  show ?case using Suc.prems *
    by (auto simp: act_bind_def xc_Now_def xc_Recv_def ask_def Let_def stop_def ret_def split: courier_frame.splits if_splits)
qed (simp add: running_def)

section \<open>Stages\<close>

definition after_terms :: "xc_msg \<Rightarrow> taker_result run_state \<Rightarrow> bool" where
  "after_terms terms s \<longleftrightarrow> agreed_terms (st_trace s) = Some terms \<and> \<not> list_ex locks_btc (st_trace s) \<and> tr_BtcLocktime (st_res s) = xm_BtcLocktime terms"

definition priced :: "taker_params \<Rightarrow> xc_msg \<Rightarrow> u64 \<Rightarrow> bool" where
  "priced p terms fundBtc \<longleftrightarrow> take_of p \<le> tf_ExpectSeqAmount p \<and> xm_SeqAmount terms = take_of p \<and> xm_BtcAmount terms = fundBtc \<and> fundBtc \<noteq> 0 \<and>
     unat fundBtc = ceil_div (unat (tf_ExpectBtcAmount p) * unat (take_of p)) (unat (tf_ExpectSeqAmount p)) \<and> xm_FeeBtc terms \<le> tf_MaxFeeBtc p"

lemma after_terms_calm:
  "after_terms terms s \<Longrightarrow> st_trace s' = st_trace s @ es \<Longrightarrow> list_all calm es \<Longrightarrow> tr_BtcLocktime (st_res s') = xm_BtcLocktime terms \<Longrightarrow> after_terms terms s'"
  by (simp add: after_terms_def agreed_append calm_no_lock)

lemma sendXc_run: "sendXc e m s = (s', Ret x) \<Longrightarrow> s' = s\<lparr>st_trace := st_trace s @ [EvSend m True]\<rparr>"
  by (auto simp: sendXc_def act_bind_def xc_Send_def ask_def Let_def guard_def ret_def stop_def split: if_splits)

lemma sendXc_calm: "calm (EvSend m True :: 'r xc_event) \<Longrightarrow> does calm (sendXc e m :: ('r, unit) act)"
  by (simp add: sendXc_def xc_Send_def does_rules)

lemma recvXcType_frames:
  "recvXcType n e want d s = (s', Ret m) \<Longrightarrow>
     \<exists>es fs. st_trace s' = st_trace s @ es \<and> st_res s' = st_res s \<and> frames es = fs @ [m] \<and> list_all (\<lambda>f. xm_Type f \<noteq> want) fs \<and> xm_Type m = want"
proof -
  let ?now = "EvNow (xe_Now e (st_trace s))"
  assume "recvXcType n e want d s = (s', Ret m)"
  then have "recv_until n e want (xe_Now e (st_trace s) + d) (s\<lparr>st_trace := st_trace s @ [?now]\<rparr>) = (s', Ret m)"
    by (simp add: recvXcType_def act_bind_def xc_Now_def ask_def Let_def)
  from recv_until_frames [OF this] obtain es fs where "st_trace s' = (st_trace s @ [?now]) @ es" "st_res s' = st_res s"
    "frames es = fs @ [m]" "list_all (\<lambda>f. xm_Type f \<noteq> want) fs" "xm_Type m = want" by auto
  then show ?thesis by (intro exI [of _ "?now # es"] exI [of _ fs]) simp
qed

lemma taker_terms_keeps:
  assumes inv: "taker_inv sha p s" and start: "st_trace s = []"
  shows "keeps (taker_inv sha p) (taker_terms n e p) after_terms s"
  unfolding taker_terms_def
proof (rule tk.bind_calm [OF sendXc_calm inv])
  fix x s1 es1
  assume send: "sendXc e (zero_msg\<lparr>xm_Type := XcTermsRequest\<rparr>) s = (s1, Ret x)" and inv1: "taker_inv sha p s1"
  show "keeps (taker_inv sha p) (act_bind (recvXcType n e XcTerms (xt_TermsWait (tf_Timing p)))
     (\<lambda>terms. act_bind (put_res (\<lambda>r. r\<lparr>tr_Terms := Some terms, tr_BtcLocktime := xm_BtcLocktime terms\<rparr>)) (\<lambda>_. ret terms))) after_terms s1"
  proof (rule tk.bind_calm [OF recvXcType_calm inv1])
    fix terms s2 es2
    assume recv: "recvXcType n e XcTerms (xt_TermsWait (tf_Timing p)) s1 = (s2, Ret terms)" and inv2: "taker_inv sha p s2"
      and ext: "st_trace s2 = st_trace s1 @ es2" and calm: "list_all calm es2"
    obtain fs where "frames es2 = fs @ [terms]" "list_all (\<lambda>f. xm_Type f \<noteq> XcTerms) fs" "xm_Type terms = XcTerms"
      using recvXcType_frames [OF recv] ext by auto
    then have "agreed_terms (st_trace s2) = Some terms"
      using ext sendXc_run [OF send] start by (simp add: agreed_terms_def find_first)
    then show "keeps (taker_inv sha p) (act_bind (put_res (\<lambda>r. r\<lparr>tr_Terms := Some terms, tr_BtcLocktime := xm_BtcLocktime terms\<rparr>)) (\<lambda>_. ret terms)) after_terms s2"
      using ext calm sendXc_run [OF send] start
      by (intro tk.bind_put_res keeps_ret inv2) (auto simp: after_terms_def calm_no_lock)
  qed
qed simp

lemma taker_bind_keeps:
  assumes inv: "taker_inv sha p s" and terms: "after_terms terms s" and whole: "tf_ExpectSeqAmount p \<noteq> 0"
  shows "keeps (taker_inv sha p) (taker_bind e p terms) (\<lambda>(t, f) s'. t = take_of p \<and> priced p terms f \<and> after_terms terms s') s"
  unfolding taker_bind_def take_of_def [symmetric] Let_def
proof (intro tk.bind_check tk.bind_need tk.bind_guard inv)
  fix fundBtc
  assume ok: "take_of p \<le> tf_ExpectSeqAmount p" "ProportionalBtc (tf_ExpectBtcAmount p) (take_of p) (tf_ExpectSeqAmount p) = Some fundBtc"
    "xm_SeqAmount terms = take_of p" "xm_BtcAmount terms = fundBtc" "fundBtc \<noteq> 0"
  have price: "unat fundBtc = ceil_div (unat (tf_ExpectBtcAmount p) * unat (take_of p)) (unat (tf_ExpectSeqAmount p))"
    using ProportionalBtc_exact(1) [OF whole ok(1), of "tf_ExpectBtcAmount p"] ok(2) by auto
  let ?rest = "\<lambda>rate. act_bind (check e ''amount_too_small'' AmountTooSmall
      (minSafeAssetErr rate (take_of p) (tf_ExpectSeqAmount p) (take_of p) (tf_SpendFeeSats p))) (\<lambda>_.
    act_bind (put_res (\<lambda>r. r\<lparr>tr_FilledSeq := take_of p, tr_FilledBtc := fundBtc\<rparr>)) (\<lambda>_.
    act_bind (check e ''terms_mismatch'' XcBadTerms (xm_FeeBtc terms \<le> tf_MaxFeeBtc p)) (\<lambda>_. ret (take_of p, fundBtc))))"
  have rest: "keeps (taker_inv sha p) (?rest rate) (\<lambda>(t, f) s'. t = take_of p \<and> priced p terms f \<and> after_terms terms s') s'"
    if "taker_inv sha p s'" "after_terms terms s'" for rate s'
    using that price ok by (intro tk.bind_check tk.bind_put_res keeps_ret) (auto simp: priced_def after_terms_def)
  show "keeps (taker_inv sha p) (act_bind (if tf_ExpectSeqAmount p \<le> take_of p then ret None else FeeRate e (tf_ExpectAsset p)) ?rest)
     (\<lambda>(t, f) s'. t = take_of p \<and> priced p terms f \<and> after_terms terms s') s"
  proof (rule tk.bind_calm [OF _ inv])
    fix rate s' es
    assume run: "(if tf_ExpectSeqAmount p \<le> take_of p then ret None else FeeRate e (tf_ExpectAsset p)) s = (s', Ret rate)"
      and "taker_inv sha p s'" "st_trace s' = st_trace s @ es" "list_all calm es"
    moreover have "st_res s' = st_res s" using run by (auto simp: ret_def FeeRate_def ask_def Let_def split: if_splits)
    ultimately show "keeps (taker_inv sha p) (?rest rate) (\<lambda>(t, f) s'. t = take_of p \<and> priced p terms f \<and> after_terms terms s') s'"
      using terms by (intro rest after_terms_calm [OF terms]) (auto simp: after_terms_def)
  qed (auto intro: does_rules)
qed

definition locktimes_read :: "taker_params \<Rightarrow> xc_msg \<Rightarrow> taker_result xc_event list \<Rightarrow> bool" where
  "locktimes_read p terms t \<longleftrightarrow>
     (\<exists>rest b sq. t = rest @ [EvBtcTip (Some b), EvSeqTip (Some sq)] \<and> of_int b < xm_BtcLocktime terms \<and>
        xm_BtcLocktime terms \<le> of_int b + tf_MaxBtcLockDelta p \<and> of_int sq + tf_MinSeqClaimWindow p \<le> xm_SeqLocktime terms)"

lemma taker_locktimes_keeps:
  assumes inv: "taker_inv sha p s" and terms: "after_terms terms s"
  shows "keeps (taker_inv sha p) (taker_locktimes e p terms) (\<lambda>_ s'. after_terms terms s' \<and> locktimes_read p terms (st_trace s')) s"
  unfolding taker_locktimes_def BtcTip_def SeqTip_def
  using terms by (intro tk.bind_ask tk.bind_need tk.bind_check tk.keeps_check inv)
    (auto simp: after_terms_def agreed_append locktimes_read_def)

lemma confirmed_height_read: "confirmed_height k e txid mc s = (s', Ret h) \<Longrightarrow> height_read mc txid h (st_trace s')"
proof (induction k arbitrary: s)
  case (Suc k)
  then show ?case
    by (fastforce simp: act_bind_def BtcConfirmations_def BtcTip_def ask_def Let_def need_def ret_def stop_def height_read_def
        split: option.splits if_splits)
qed (simp add: stop_def)

lemma conf_wait_read: "conf_wait n e p txid d s = (s', Ret h) \<Longrightarrow> height_read (tf_MinBTCConf p) txid h (st_trace s')"
proof (induction n arbitrary: s)
  case (Suc n)
  obtain s1 r where run: "btcLegConfirmedHeight e txid (tf_MinBTCConf p) s = (s1, r)" by fastforce
  show ?case
  proof (cases r)
    case (Ret h')
    then show ?thesis using Suc.prems run confirmed_height_read [of 5 e txid "tf_MinBTCConf p" s s1 h']
      by (simp add: act_bind_def attempt_def btcLegConfirmedHeight_def ret_def)
  next
    case (Fail er)
    let ?now = "xe_Now e (st_trace s1)"
    let ?s2 = "s1\<lparr>st_trace := st_trace s1 @ [EvNow ?now] @ [EvSleep (xt_Poll (tf_Timing p))]\<rparr>"
    have "conf_wait n e p txid d ?s2 = (s', Ret h)" using Suc.prems run Fail
      by (auto simp: act_bind_def attempt_def xc_Now_def xc_Sleep_def ask_def Let_def refuse_def sendXcFail_def stop_def xc_Send_def ret_def
          split: if_splits)
    then show ?thesis by (rule Suc.IH)
  qed (use Suc.prems run in \<open>simp_all add: act_bind_def attempt_def\<close>)
qed (simp add: running_def)

lemma conf_wait_calm [does_rules]: "does calm (conf_wait n e p txid d)"
proof (induction n)
  case (Suc n)
  then show ?case by (auto simp: btcLegConfirmedHeight_def intro!: does_rules)
qed (simp add: does_rules)

definition leg_funded :: "taker_params \<Rightarrow> xc_msg \<Rightarrow> u64 \<Rightarrow> leg_lock \<Rightarrow> int \<Rightarrow> taker_result run_state \<Rightarrow> bool" where
  "leg_funded p terms fundBtc leg hp0 s \<longleftrightarrow> agreed_terms (st_trace s) = Some terms \<and>
     (\<exists>c r. EvLockBTC c r (atomsToCoins fundBtc) (xm_BtcLocktime terms) (Some (leg, hp0)) \<in> set (st_trace s))"

lemma lock_keeps:
  assumes inv: "taker_inv sha p s" and terms: "after_terms terms s" and tips: "locktimes_read p terms (st_trace s)"
    and price: "priced p terms fundBtc" and keys: "hex_key (xm_MakerBtcClaimPub terms) = Some c" "tf_BtcRefundKey p = Some rkey"
    and rest: "\<And>leg hp0 s'. taker_inv sha p s' \<Longrightarrow> leg_funded p terms fundBtc leg hp0 s' \<Longrightarrow> keeps (taker_inv sha p) (f leg hp0) T s'"
  shows "keeps (taker_inv sha p) (act_bind (LockBTCLeg e c (k_PubKey rkey) (atomsToCoins fundBtc) (xm_BtcLocktime terms)) (\<lambda>r.
       case r of
         None \<Rightarrow> refuse e code er
       | Some (btcLeg, hp) \<Rightarrow>
           act_bind (put_res (\<lambda>r. r\<lparr>tr_BtcLeg := Some btcLeg\<rparr>)) (\<lambda>_. act_bind (persist (tf_OnBtcLegFunded p)) (\<lambda>_. f btcLeg hp)))) T s"
proof -
  let ?l = "xm_BtcLocktime terms" and ?amt = "atomsToCoins fundBtc"
  define x where "x = xe_LockBTCLeg e (st_trace s) c (k_PubKey rkey) ?amt ?l"
  let ?ev = "EvLockBTC c (k_PubKey rkey) ?amt ?l x"
  have rule: "taker_rule sha p (st_trace s) ?ev"
    using terms tips price keys by (auto simp: funding_ok_def after_terms_def locktimes_read_def priced_def)
  show ?thesis
  proof (cases x)
    case None
    then have "taker_inv sha p (s\<lparr>st_trace := st_trace s @ [?ev]\<rparr>)"
      by (intro tk.inv_step [OF inv rule]) simp_all
    from tk.refuse_keeps [OF this] None show ?thesis
      by (simp add: keeps_def act_bind_def LockBTCLeg_def ask_def Let_def x_def)
  next
    case (Some y)
    obtain leg hp0 where y: "y = (leg, hp0)" by fastforce
    let ?r = "(st_res s)\<lparr>tr_BtcLeg := Some leg\<rparr>"
    let ?s1 = "s\<lparr>st_trace := st_trace s @ [?ev] @ (if tf_OnBtcLegFunded p then [EvPersist ?r] else []), st_res := ?r\<rparr>"
    have "taker_inv sha p ?s1"
      using terms tk.inv_step [OF inv rule, of ?s1] tk.inv_saved [OF inv rule, of "EvPersist ?r" ?s1]
      by (cases "tf_OnBtcLegFunded p") (auto simp: after_terms_def Some y)
    moreover have "leg_funded p terms fundBtc leg hp0 ?s1"
      using terms by (auto simp: leg_funded_def after_terms_def Some y agreed_append)
    ultimately have "keeps (taker_inv sha p) (f leg hp0) T ?s1" by (rule rest)
    then show ?thesis using Some y
      by (auto simp: keeps_def act_bind_def LockBTCLeg_def ask_def Let_def x_def put_res_def persist_def run_state_order)
  qed
qed

lemma leg_funded_mono: "leg_funded p terms fundBtc leg hp0 s \<Longrightarrow> st_trace s' = st_trace s @ es \<Longrightarrow> leg_funded p terms fundBtc leg hp0 s'"
  by (auto simp: leg_funded_def agreed_append)

lemma taker_fund_keeps:
  assumes "taker_inv sha p s" "after_terms terms s" "locktimes_read p terms (st_trace s)" "priced p terms fundBtc"
    "hex_key (xm_MakerBtcClaimPub terms) = Some c" "tf_BtcRefundKey p = Some rkey"
  shows "keeps (taker_inv sha p) (taker_fund n e p terms c rkey fundBtc)
    (\<lambda>(leg, hp) s'. \<exists>hp0. leg_funded p terms fundBtc leg hp0 s' \<and> height_ok p (st_trace s') (fh_TxID (ll_Funded leg)) hp0 hp) s"
  unfolding taker_fund_def
proof (rule lock_keeps [OF assms])
  fix leg hp0 s1
  assume inv: "taker_inv sha p s1" and funded: "leg_funded p terms fundBtc leg hp0 s1"
  let ?txid = "fh_TxID (ll_Funded leg)"
  let ?wait = "if hp0 \<le> 0 then act_bind (xc_Now e) (\<lambda>now. conf_wait n e p ?txid (now + xt_BtcConfWait (tf_Timing p))) else ret hp0"
  show "keeps (taker_inv sha p) (act_bind ?wait (\<lambda>hp. act_bind (put_res (\<lambda>r. r\<lparr>tr_BtcLegHeight := hp\<rparr>)) (\<lambda>_. ret (leg, hp))))
    (\<lambda>(leg, hp) s'. \<exists>hp0. leg_funded p terms fundBtc leg hp0 s' \<and> height_ok p (st_trace s') (fh_TxID (ll_Funded leg)) hp0 hp) s1"
  proof (rule tk.bind_calm [OF _ inv])
    fix hp s2 es
    assume run: "?wait s1 = (s2, Ret hp)" and inv2: "taker_inv sha p s2" and ext: "st_trace s2 = st_trace s1 @ es"
    have "height_ok p (st_trace s2) ?txid hp0 hp"
    proof (cases "hp0 \<le> 0")
      case True
      then show ?thesis using run
        by (auto simp: height_ok_def act_bind_def xc_Now_def ask_def Let_def dest: conf_wait_read)
    qed (use run in \<open>simp add: height_ok_def ret_def\<close>)
    then show "keeps (taker_inv sha p) (act_bind (put_res (\<lambda>r. r\<lparr>tr_BtcLegHeight := hp\<rparr>)) (\<lambda>_. ret (leg, hp)))
      (\<lambda>(leg, hp) s'. \<exists>hp0. leg_funded p terms fundBtc leg hp0 s' \<and> height_ok p (st_trace s') (fh_TxID (ll_Funded leg)) hp0 hp) s2"
      using leg_funded_mono [OF funded ext] by (intro tk.bind_put_res keeps_ret inv2) (auto simp: leg_funded_def)
  qed (auto intro!: does_rules)
qed

lemma announce_keeps:
  assumes inv: "taker_inv sha p s" and funded: "leg_funded p terms fundBtc leg hp0 s"
    and height: "height_ok p (st_trace s) (fh_TxID (ll_Funded leg)) hp0 hp"
    and keys: "tf_SeqClaimKey p = Some ckey" "tf_BtcRefundKey p = Some rkey"
    and m: "m = taker_announce (sha (tf_Secret p)) ckey rkey (take_of p) fundBtc leg (xm_BtcLocktime terms) hp"
  shows "keeps (taker_inv sha p) (sendXc e m) (\<lambda>_ s'. agreed_terms (st_trace s') = Some terms \<and> EvSend m True \<in> set (st_trace s')) s"
proof -
  have "announce_ok sha p (st_trace s) m"
    using funded height keys unfolding announce_ok_def leg_funded_def m by blast
  then have "taker_inv sha p (s\<lparr>st_trace := st_trace s @ [EvSend m ok]\<rparr>)" for ok
    by (intro tk.inv_step [OF inv, of "EvSend m ok"]) simp_all
  then show ?thesis unfolding sendXc_def xc_Send_def
    using funded by (intro keeps_bind_ask conjI keeps_guard) (auto simp: leg_funded_def agreed_append)
qed

lemma claim_open_calm: "does calm (claim_open e p terms)"
  by (auto simp: claim_open_def intro!: does_rules)

lemma taker_await_keeps:
  assumes inv: "taker_inv sha p s" and sent: "agreed_terms (st_trace s) = Some terms" "EvSend m True \<in> set (st_trace s)"
  shows "keeps (taker_inv sha p) (taker_await n e p terms (take_of p)) (\<lambda>(leg, script) s'.
    agreed_terms (st_trace s') = Some terms \<and> EvSend m True \<in> set (st_trace s') \<and>
    xl_Amount leg = take_of p \<and> xl_Asset leg = tf_ExpectAsset p \<and> xl_Locktime leg = xm_SeqLocktime terms) s"
  unfolding taker_await_def recvXcTypeWhile_def
proof (rule tk.bind_calm [OF recv_windows_calm [OF claim_open_calm] inv])
  fix locked s' es
  assume "taker_inv sha p s'" "st_trace s' = st_trace s @ es"
  then show "keeps (taker_inv sha p) (act_bind (need NoLeg (xm_Leg locked)) (\<lambda>leg.
     act_bind (check e ''seq_leg_mismatch'' SeqLegMismatch (xl_Amount leg = take_of p \<and> xl_Asset leg = tf_ExpectAsset p)) (\<lambda>_.
     act_bind (check e ''seq_leg_mismatch'' SeqLegMismatch (xl_Locktime leg = xm_SeqLocktime terms)) (\<lambda>_.
     act_bind (need BadHex (hex_DecodeString (xl_RedeemScript leg))) (\<lambda>script. ret (leg, script))))))
    (\<lambda>(leg, script) s'. agreed_terms (st_trace s') = Some terms \<and> EvSend m True \<in> set (st_trace s') \<and>
       xl_Amount leg = take_of p \<and> xl_Asset leg = tf_ExpectAsset p \<and> xl_Locktime leg = xm_SeqLocktime terms) s'"
    using sent by (intro tk.bind_rules keeps_ret) (auto simp: agreed_append)
qed

definition leg_verified :: "(bytes \<Rightarrow> bytes) \<Rightarrow> taker_params \<Rightarrow> xc_msg \<Rightarrow> xkey \<Rightarrow> leg_lock \<Rightarrow> taker_result xc_event list \<Rightarrow> bool" where
  "leg_verified sha p terms ckey leg t \<longleftrightarrow>
     (\<exists>lt v. EvVerifySEQ lt (Inr v) \<in> set t \<and> leg = vl_Leg v \<and> lt_HashH lt = sha (tf_Secret p) \<and> lt_ClaimPub lt = k_PubKey ckey \<and>
        hex_key (xm_MakerRefundPub terms) = Some (lt_RefundPub lt) \<and> lt_Locktime lt = xm_SeqLocktime terms \<and> lt_Amount lt = take_of p \<and>
        lt_Asset lt = tf_ExpectAsset p \<and> lt_MinConf lt = 1)"

lemma taker_verify_keeps:
  assumes inv: "taker_inv sha p s" and sent: "agreed_terms (st_trace s) = Some terms" "EvSend m True \<in> set (st_trace s)"
    and leg: "xl_Amount xleg = take_of p" "xl_Asset xleg = tf_ExpectAsset p" and pub: "hex_key (xm_MakerRefundPub terms) = Some refundPub"
  shows "keeps (taker_inv sha p) (taker_verify e (sha (tf_Secret p)) ckey refundPub terms xleg script) (\<lambda>leg s'.
    agreed_terms (st_trace s') = Some terms \<and> EvSend m True \<in> set (st_trace s') \<and> leg_verified sha p terms ckey leg (st_trace s')) s"
  unfolding taker_verify_def VerifySEQLeg_def
proof (rule tk.bind_ask [OF inv])
  let ?lt = "\<lparr>lt_HashH = sha (tf_Secret p), lt_ClaimPub = k_PubKey ckey, lt_RefundPub = refundPub, lt_Script = script,
    lt_Locktime = xm_SeqLocktime terms, lt_Txid = xl_Txid xleg, lt_Vout = xl_Vout xleg, lt_Amount = xl_Amount xleg, lt_Asset = xl_Asset xleg, lt_MinConf = 1\<rparr>"
  fix x
  let ?s1 = "s\<lparr>st_trace := st_trace s @ [EvVerifySEQ ?lt x]\<rparr>"
  assume inv1: "taker_inv sha p ?s1"
  show "keeps (taker_inv sha p) (case x of Inl _ \<Rightarrow> refuse e ''seq_leg_invalid'' SeqLegInvalid
       | Inr v \<Rightarrow> act_bind (put_res (\<lambda>r. r\<lparr>tr_SeqLeg := Some (vl_Leg v)\<rparr>)) (\<lambda>_. ret (vl_Leg v)))
    (\<lambda>leg s'. agreed_terms (st_trace s') = Some terms \<and> EvSend m True \<in> set (st_trace s') \<and> leg_verified sha p terms ckey leg (st_trace s')) ?s1"
  proof (cases x)
    case (Inr v)
    then have "leg_verified sha p terms ckey (vl_Leg v) (st_trace ?s1)"
      using leg pub unfolding leg_verified_def by (intro exI [of _ ?lt] exI [of _ v]) simp
    then show ?thesis using Inr sent inv1 by (auto intro!: tk.bind_put_res keeps_ret simp: agreed_append)
  qed (use inv1 in \<open>auto intro: tk.refuse_keeps\<close>)
qed simp

section \<open>The gate\<close>

interpretation ext: driver_invariant "\<lambda>s. \<exists>es. st_trace s = t0 @ es" for t0
  by unfold_locales (auto intro: append_assoc)

lemma VerifySeqLegSafe_read:
  "VerifySeqLegSafe e bh h s = (s', Ret ev) \<Longrightarrow>
     \<exists>a nh cert present. st_trace s' = st_trace s @ [EvBlockOnActiveChain bh (Some True), EvBlockAnchorHeight bh (Some a),
       EvAnchorStatus (Some (nh, ''ok'')), EvBlockCertification bh (Some (cert, present))] \<and> h \<le> a \<and> (present \<longrightarrow> cert)"
  by (auto simp: VerifySeqLegSafe_def act_bind_def BlockOnActiveChain_def BlockAnchorHeight_def AnchorStatus_def BlockCertification_def
      ask_def Let_def need_def ret_def stop_def not_less split: option.splits if_splits) blast+

lemma gate_pass_read: "gate_pass e txid h s = (s', Ret (Some ev)) \<Longrightarrow> \<exists>gate. st_trace s' = st_trace s @ gate \<and> gate_read txid h gate"
proof -
  assume run: "gate_pass e txid h s = (s', Ret (Some ev))"
  define bh where "bh = xe_BlockHashOfTx e (st_trace s) txid"
  let ?s1 = "s\<lparr>st_trace := st_trace s @ [EvBlockHashOfTx txid bh]\<rparr>"
  obtain b where b: "bh = Some b" "b \<noteq> []"
    using run by (auto simp: gate_pass_def act_bind_def BlockHashOfTx_def ask_def Let_def ret_def bh_def split: option.splits if_splits)
  define on where "on = xe_BlockOnActiveChain e (st_trace ?s1) b"
  let ?s2 = "?s1\<lparr>st_trace := st_trace ?s1 @ [EvBlockOnActiveChain b on]\<rparr>"
  obtain s3 r where v: "VerifySeqLegSafe e b h ?s2 = (s3, r)" by fastforce
  have on: "on = Some True" and r: "r = Ret ev" "s3 = s'"
    using run b v by (auto simp: gate_pass_def act_bind_def BlockHashOfTx_def BlockOnActiveChain_def ask_def Let_def ret_def bh_def on_def
        attempt_def stop_def split: option.splits if_splits xc_outcome.splits)
  show ?thesis using VerifySeqLegSafe_read [of e b h ?s2 s' ev] v r b on by (force simp: gate_read_def)
qed

lemma gateSeqLeg_keeps:
  "\<exists>es. st_trace s = t0 @ es \<Longrightarrow> keeps (\<lambda>s. \<exists>es. st_trace s = t0 @ es) (gateSeqLeg n e txid h w tm)
     (\<lambda>_ s'. \<exists>rest gate. st_trace s' = t0 @ rest @ gate \<and> gate_read txid h gate) s"
proof (induction n arbitrary: s)
  case (Suc n)
  let ?I = "\<lambda>s. \<exists>es. st_trace s = t0 @ es"
  let ?T = "\<lambda>(_ :: anchor_evidence) s'. \<exists>rest gate. st_trace s' = t0 @ rest @ gate \<and> gate_read txid h gate"
  let ?next = "\<lambda>r. case r of Some ev \<Rightarrow> ret ev | None \<Rightarrow> act_bind (claimWindow_closed e w) (\<lambda>closed. case closed of Some er \<Rightarrow> stop er
    | None \<Rightarrow> act_bind (xc_Sleep (xt_Poll tm)) (\<lambda>_. gateSeqLeg n e txid h w tm))"
  have next_turn: "keeps ?I (?next r) ?T s2" if run: "gate_pass e txid h s1 = (s2, Ret r)" and inv1: "?I s1" and inv2: "?I s2" for s1 s2 r
  proof (cases r)
    case (Some ev)
    obtain gate es where "st_trace s2 = t0 @ es @ gate" "gate_read txid h gate" using gate_pass_read run Some inv1 by fastforce
    then have "?T ev s2" by blast
    then show ?thesis using Some inv2 by (simp add: keeps_ret)
  next
    case None
    have "keeps ?I (case closed of Some er \<Rightarrow> stop er | None \<Rightarrow> act_bind (xc_Sleep (xt_Poll tm)) (\<lambda>_. gateSeqLeg n e txid h w tm)) ?T s3"
      if "?I s3" for closed s3
      using that Suc.IH by (cases closed) (auto intro!: keeps_stop ext.bind_calm [OF read_calm(2)])
    then show ?thesis using None inv2 by (auto intro!: ext.bind_calm [OF claimWindow_closed_calm])
  qed
  have "keeps ?I (if c then stop XcCanceled else act_bind (gate_pass e txid h) ?next) ?T s1" if "?I s1" for c s1
    using that by (cases c) (auto intro!: keeps_stop ext.bind_calm [OF gate_pass_calm] next_turn)
  then show ?case using Suc.prems by (simp, intro ext.bind_calm [OF read_calm(4)]) auto
qed (simp add: keeps_running)

section \<open>The claim\<close>

lemma claim_step:
  assumes inv: "taker_inv sha p s" and ok: "reveal_ok sha p (st_trace s) leg key fee"
  shows "keeps (taker_inv sha p) (act_bind (ClaimSEQLeg e leg key fee) (\<lambda>r. act_bind (need ClaimFailed r) (\<lambda>txid. put_res (g txid)))) (\<lambda>_ _. True) s"
proof -
  have "taker_inv sha p (s\<lparr>st_trace := st_trace s @ [EvClaimSEQ leg key fee y]\<rparr>)" for y
    using ok by (intro tk.inv_step [OF inv, of "EvClaimSEQ leg key fee y"]) simp_all
  then show ?thesis unfolding ClaimSEQLeg_def
    by (intro keeps_bind_ask conjI tk.bind_need keeps_put_res) auto
qed

lemma taker_claim_keeps:
  assumes inv: "taker_inv sha p s" and terms: "agreed_terms (st_trace s) = Some terms" and key: "tf_SeqClaimKey p = Some ckey"
    and ver: "leg_verified sha p terms ckey leg (st_trace s)"
    and sent: "EvSend m True \<in> set (st_trace s)" "xm_Type m = XcBtcLegFunded" "xm_Leg m = Some xl"
    and args: "amount = take_of p" "hp = xl_Height xl"
  shows "keeps (taker_inv sha p) (taker_claim n e p ckey terms amount leg hp) (\<lambda>_ _. True) s"
  unfolding taker_claim_def args
proof (rule tk.bind_calm [OF gateSeqLeg_calm inv])
  let ?txid = "fh_TxID (ll_Funded leg)" and ?w = "\<lparr>cw_SeqLocktime = xm_SeqLocktime terms, cw_Margin = tf_SeqClaimMargin p\<rparr>"
  fix ev s1 es
  assume run: "gateSeqLeg n e ?txid (xl_Height xl) ?w (tf_Timing p) s = (s1, Ret ev)" and inv1: "taker_inv sha p s1"
  obtain rest gate where s1: "st_trace s1 = st_trace s @ rest @ gate" "gate_read ?txid (xl_Height xl) gate"
    using keeps_run [OF gateSeqLeg_keeps [of s "st_trace s" n e ?txid "xl_Height xl" ?w "tf_Timing p"] run] by auto
  let ?fee = "\<lambda>rate. xcSeqLegFee rate (tf_SpendFeeSats p) (take_of p)"
  have reveal: "reveal_ok sha p (st_trace s1 @ [EvSeqTip (Some tip), EvFeeRate (tf_ExpectAsset p) rate]) leg ckey (?fee rate)"
    if "\<not> near (Some tip) (tf_SeqClaimMargin p) (xm_SeqLocktime terms)" for tip rate
  proof -
    have "of_int tip + tf_SeqClaimMargin p < xm_SeqLocktime terms" using that by (simp add: near_def not_le)
    then show ?thesis using s1 terms key sent ver unfolding reveal_ok_def leg_verified_def
      by (intro exI [of _ "st_trace s @ rest"] exI [of _ gate] exI [of _ tip] exI [of _ rate] exI [of _ terms] exI [of _ m] exI [of _ xl])
        (auto simp: agreed_append)
  qed
  show "keeps (taker_inv sha p) (act_bind (put_res (\<lambda>r. r\<lparr>tr_Evidence := Some ev\<rparr>)) (\<lambda>_.
     act_bind (SeqTip e) (\<lambda>r. act_bind (need NodeError r) (\<lambda>seqTip2.
     act_bind (guard XcBadTerms (\<not> near (Some seqTip2) (tf_SeqClaimMargin p) (xm_SeqLocktime terms))) (\<lambda>_.
     act_bind (FeeRate e (tf_ExpectAsset p)) (\<lambda>rate.
     act_bind (ClaimSEQLeg e leg ckey (?fee rate)) (\<lambda>r. act_bind (need ClaimFailed r) (\<lambda>claimTxid.
     put_res (\<lambda>r. r\<lparr>tr_SeqClaimTxid := claimTxid\<rparr>))))))))) (\<lambda>_ _. True) s1"
    unfolding SeqTip_def FeeRate_def
    by (intro tk.bind_put_res tk.bind_ask tk.bind_need tk.bind_guard claim_step inv1) (use reveal in auto)
qed

section \<open>The whole run\<close>

definition taker_start :: "taker_result run_state" where
  "taker_start = \<lparr>st_trace = [], st_res = no_taker_result\<rparr>"

lemma taker_run_keeps: "keeps (taker_inv (xe_sha256 e) (taker_defaults q)) (RunTakerForward n e q) (\<lambda>_ _. True) taker_start"
proof -
  define p where "p = taker_defaults q"
  let ?I = "taker_inv (xe_sha256 e) p"
  have start: "?I taker_start" "st_trace taker_start = []" by (simp_all add: taker_start_def run_inv_def)
  show ?thesis
  proof (cases "tf_BtcRefundKey p = None \<or> tf_SeqClaimKey p = None")
    case True
    then show ?thesis using start by (auto simp: RunTakerForward_def p_def Let_def intro!: keeps_stop split: option.split)
  next
    case False
    then obtain rkey ckey where keys: "tf_BtcRefundKey p = Some rkey" "tf_SeqClaimKey p = Some ckey" by auto
    show ?thesis
      unfolding RunTakerForward_def Let_def p_def [symmetric] keys option.case prod.case
      apply (rule tk.bind_guard [OF start(1)])
      apply (rule tk.bind_guard [OF start(1)])
      apply (rule keeps_bind [OF taker_terms_keeps [OF start]])
      apply (rule keeps_bind [OF taker_bind_keeps], assumption, assumption, blast)
      apply (clarify, rule tk.bind_need, assumption, rule tk.bind_need, assumption)
      apply (rule keeps_bind [OF taker_locktimes_keeps], assumption, assumption)
      apply (clarify, rule keeps_bind [OF taker_fund_keeps], assumption, assumption, assumption, assumption, assumption, rule keys(1))
      apply (clarify, rule keeps_bind [OF announce_keeps], assumption, assumption, assumption, rule keys(2), rule keys(1), rule refl)
      apply (clarify, rule keeps_bind [OF taker_await_keeps], assumption, assumption, assumption)
      apply (clarify, rule keeps_bind [OF taker_verify_keeps], assumption, assumption, assumption, assumption, assumption, assumption)
      apply (clarify, rule taker_claim_keeps, assumption, assumption, rule keys(2), assumption, assumption)
      apply (auto simp: taker_announce_def)
      done
  qed
qed

text \<open>C4: the forward taker, against any maker, relay, node, clock and user, and stopped at any time: it funds the bitcoin leg at most once,
  at the signed offer's exact price for its slice, under the agreed keys, with lock times within its bounds at the tips it has just read, and
  hands the funded leg to the caller before anything else happens; it announces only that leg, at the positive height that funding it returned
  or else at a height read between two equal confirmation counts; and it reveals the secret only for a leg of exactly the slice that verified under its own key, right after a reading in which the
  block of that leg is on the active chain, anchored at or above its own leg's height, with a healthy anchor and certified where the node
  reports certification, and at a tip that leaves the claim margin. It does nothing else with value.\<close>

theorem taker_moves_by_rules:
  "run_inv (taker_rule (xe_sha256 e) (taker_defaults q)) (unsaved (taker_defaults q)) saves_leg (fst (RunTakerForward n e q taker_start))"
  using taker_run_keeps [of e q n] by (auto simp: keeps_def split: prod.splits)

end
