(* ===== verification/Maker_Safety.thy ===== *)
theory Maker_Safety
  imports Taker_Safety
begin

text \<open>
  The rules of the forward maker: what it must have seen before it sends terms, locks the asset, announces the leg, claims the
  bitcoin leg, or refunds the asset. The environment is arbitrary, as for the taker.
\<close>

section \<open>The rules\<close>

fun locks_seq :: "'r xc_event \<Rightarrow> bool" where
  "locks_seq (EvLockSEQ c r a asset l x) \<longleftrightarrow> True"
| "locks_seq ev \<longleftrightarrow> False"

fun sends_terms :: "'r xc_event \<Rightarrow> bool" where
  "sends_terms (EvSend m ok) \<longleftrightarrow> xm_Type m = XcTerms"
| "sends_terms ev \<longleftrightarrow> False"

fun lock_leg :: "seq_lock \<Rightarrow> leg_lock option" where
  "lock_leg SeqLockFailed = None"
| "lock_leg (SeqLockPending leg) = Some leg"
| "lock_leg (SeqLockConfirmed leg bh) = Some leg"

definition slice_of :: "maker_params \<Rightarrow> xc_msg \<Rightarrow> u64" where
  "slice_of p funded = (if xm_SeqAmount funded = 0 then mf_SeqAmount p else xm_SeqAmount funded)"

text \<open>Terms: once, with keys that were just made and saved, and lock times above the tips that were just read.\<close>

definition terms_ok :: "maker_params \<Rightarrow> maker_result xc_event list \<Rightarrow> xc_msg \<Rightarrow> bool" where
  "terms_ok p pre m \<longleftrightarrow> \<not> list_ex sends_terms pre \<and>
     (\<exists>rest ck rk b sq save. pre = rest @ [EvNewKey (Some ck), EvNewKey (Some rk), EvBtcTip (Some b), EvSeqTip (Some sq)] @ save \<and>
        m = maker_terms p ck rk (of_int b + mf_BtcLocktimeDelta p) (of_int sq + mf_SeqLocktimeDelta p) \<and>
        (mf_OnUpdate p \<longrightarrow> (\<exists>r. save = [EvPersist r] \<and> mr_BtcClaimKey r = Some ck \<and> mr_SeqRefundKey r = Some rk \<and>
           mr_BtcLocktime r = xm_BtcLocktime m \<and> mr_SeqLocktime r = xm_SeqLocktime m)))"

text \<open>The bitcoin leg that the taker announced, as it must verify: our key and lock time, the price of the slice.\<close>

definition leg_agreed :: "maker_params \<Rightarrow> maker_result xc_event list \<Rightarrow> xkey \<Rightarrow> xkey \<Rightarrow> u32 \<Rightarrow> u32 \<Rightarrow> xc_msg \<Rightarrow> leg_terms \<Rightarrow> bool" where
  "leg_agreed p pre ck rk tb ts funded lt \<longleftrightarrow>
     EvSend (maker_terms p ck rk tb ts) True \<in> set pre \<and>
     (\<exists>d. EvRecv d (Frame funded) \<in> set pre) \<and> xm_Type funded = XcBtcLegFunded \<and> slice_of p funded \<le> mf_SeqAmount p \<and>
     hex_DecodeString (xm_HashH funded) = Some (lt_HashH lt) \<and> length (lt_HashH lt) = 32 \<and> lt_ClaimPub lt = k_PubKey ck \<and>
     hex_key (xm_TakerBtcRefundPub funded) = Some (lt_RefundPub lt) \<and> lt_Locktime lt = tb \<and> lt_MinConf lt = mf_MinBTCConf p \<and>
     unat (lt_Amount lt) = ceil_div (unat (mf_BtcAmount p) * unat (slice_of p funded)) (unat (mf_SeqAmount p))"

definition window_of :: "maker_params \<Rightarrow> u32 \<Rightarrow> u32 \<Rightarrow> fund_window" where
  "window_of p tb ts = \<lparr>fw_SeqLocktime = ts, fw_MinSeqClaimWindow = mf_MinSeqClaimWindow p, fw_BtcLocktime = tb,
     fw_MinBtcClaimWindow = mf_MinBtcClaimWindow p\<rparr>"

text \<open>The reads of the window check: a tip that could be read is short of the window's end. A failed read does not close the window.\<close>

definition window_read :: "fund_window \<Rightarrow> 'r xc_event list \<Rightarrow> bool" where
  "window_read w es \<longleftrightarrow>
     (\<exists>seqTip btcTip. es = (if 0 < fw_SeqLocktime w \<and> 0 < fw_MinSeqClaimWindow w then [EvSeqTip seqTip] else []) @
        (if 0 < fw_BtcLocktime w \<and> 0 < fw_MinBtcClaimWindow w then [EvBtcTip btcTip] else []) \<and>
        \<not> near seqTip (fw_MinSeqClaimWindow w) (fw_SeqLocktime w) \<and> \<not> near btcTip (fw_MinBtcClaimWindow w) (fw_BtcLocktime w))"

text \<open>Ready to lock: the leg has verified, the anchor was then read above its height, the leg verified again at the same height, and
  then only the window was read.\<close>

definition lock_ready :: "maker_params \<Rightarrow> maker_result xc_event list \<Rightarrow> leg_terms \<Rightarrow> verified_leg \<Rightarrow> u32 \<Rightarrow> u32 \<Rightarrow> bool" where
  "lock_ready p t lt v tb ts \<longleftrightarrow>
     (\<exists>rest h v0 win. t = rest @ [EvAnchorStatus (Some (h, ''ok'')), EvVerifyBTC lt (Inr v)] @ win \<and> window_read (window_of p tb ts) win \<and>
        EvVerifyBTC lt (Inr v0) \<in> set rest \<and> vl_Height v0 = vl_Height v \<and> vl_Height v < h)"

definition lock_ok :: "maker_params \<Rightarrow> maker_result xc_event list \<Rightarrow> bytes \<Rightarrow> bytes \<Rightarrow> string \<Rightarrow> string \<Rightarrow> u32 \<Rightarrow> bool" where
  "lock_ok p pre c r amt asset l \<longleftrightarrow> \<not> list_ex locks_seq pre \<and>
     (\<exists>lt v ck rk tb funded. lock_ready p pre lt v tb l \<and> leg_agreed p pre ck rk tb l funded lt \<and>
        hex_key (xm_TakerSeqClaimPub funded) = Some c \<and> r = k_PubKey rk \<and> amt = atomsToCoins (slice_of p funded) \<and> asset = mf_AssetHex p)"

text \<open>The announcement: the leg that was locked, in a block on the active chain whose anchor was just read, at or above the height
  that the taker's leg had in the verification right before the lock.\<close>

definition locked_ok :: "maker_params \<Rightarrow> maker_result xc_event list \<Rightarrow> xc_msg \<Rightarrow> bool" where
  "locked_ok p pre m \<longleftrightarrow>
     (\<exists>before c r amt asset l x es leg bh h lt v tb.
        pre = before @ [EvLockSEQ c r amt asset l x] @ es @ [EvBlockOnActiveChain bh (Some True), EvBlockAnchorHeight bh (Some h)] \<and>
        lock_leg x = Some leg \<and> m = maker_locked leg l bh h \<and> lock_ready p before lt v tb l \<and> vl_Height v \<le> h)"

text \<open>The claim: a secret of the verified leg's hash, read off the chain and saved.\<close>

definition claim_ok :: "(bytes \<Rightarrow> bytes) \<Rightarrow> maker_params \<Rightarrow> maker_result xc_event list \<Rightarrow> leg_lock \<Rightarrow> xkey \<Rightarrow> u64 \<Rightarrow> bool" where
  "claim_ok sha p pre leg key fee \<longleftrightarrow>
     (\<exists>rest seqLeg txid secret save rk tb ts funded lt v.
        pre = rest @ [EvWatchSEQ seqLeg (Some (txid, secret))] @ save \<and> length secret = 32 \<and> sha secret = lt_HashH lt \<and>
        (mf_OnUpdate p \<longrightarrow> (\<exists>r. save = [EvPersist r] \<and> mr_Secret r = secret)) \<and>
        EvVerifyBTC lt (Inr v) \<in> set pre \<and> leg = vl_Leg v \<and> leg_agreed p pre key rk tb ts funded lt \<and>
        fee = xcSafeFee (mf_SpendFeeSats p) (lt_Amount lt))"

text \<open>The refund: of the leg that was locked, at its lock time, when the chain has reached it and shows no claim.\<close>

definition refund_ok :: "maker_params \<Rightarrow> maker_result xc_event list \<Rightarrow> leg_lock \<Rightarrow> xkey \<Rightarrow> u32 \<Rightarrow> bool" where
  "refund_ok p pre leg key l \<longleftrightarrow>
     (\<exists>rest w tip rate c amt x. pre = rest @ [EvWatchSEQ leg w, EvSeqTip (Some tip), EvFeeRate (mf_AssetHex p) rate] \<and>
        (\<forall>txid secret. w = Some (txid, secret) \<longrightarrow> secret = []) \<and> l \<le> of_int tip \<and>
        EvLockSEQ c (k_PubKey key) amt (mf_AssetHex p) l x \<in> set pre \<and> lock_leg x = Some leg)"

fun maker_rule :: "(bytes \<Rightarrow> bytes) \<Rightarrow> maker_params \<Rightarrow> maker_result xc_event list \<Rightarrow> maker_result xc_event \<Rightarrow> bool" where
  "maker_rule sha p pre (EvSend m ok) \<longleftrightarrow> calm (EvSend m ok :: maker_result xc_event) \<or> terms_ok p pre m \<or> locked_ok p pre m"
| "maker_rule sha p pre (EvLockSEQ c r amt asset l x) \<longleftrightarrow> lock_ok p pre c r amt asset l"
| "maker_rule sha p pre (EvClaimBTC leg key fee x) \<longleftrightarrow> claim_ok sha p pre leg key fee"
| "maker_rule sha p pre (EvRefundSEQ leg key l fee x) \<longleftrightarrow> refund_ok p pre leg key l"
| "maker_rule sha p pre (EvSeqBroadcast raw x) \<longleftrightarrow> (\<exists>rest leg key l fee. pre = rest @ [EvRefundSEQ leg key l fee (Some raw)])"
| "maker_rule sha p pre ev \<longleftrightarrow> calm ev"

fun unsaved_lock :: "maker_params \<Rightarrow> maker_result xc_event \<Rightarrow> bool" where
  "unsaved_lock p (EvLockSEQ c r amt asset l x) \<longleftrightarrow> mf_OnUpdate p \<and> lock_leg x \<noteq> None"
| "unsaved_lock p ev \<longleftrightarrow> False"

fun saves_lock :: "maker_result xc_event \<Rightarrow> maker_result xc_event \<Rightarrow> bool" where
  "saves_lock (EvLockSEQ c r amt asset l x) (EvPersist snap) \<longleftrightarrow> mr_SeqLeg snap = lock_leg x"
| "saves_lock ev ev' \<longleftrightarrow> False"

abbreviation maker_inv :: "(bytes \<Rightarrow> bytes) \<Rightarrow> maker_params \<Rightarrow> maker_result run_state \<Rightarrow> bool" where
  "maker_inv sha p \<equiv> run_inv (maker_rule sha p) (unsaved_lock p) saves_lock"

interpretation mk: ruled_run "maker_rule sha p" "unsaved_lock p" saves_lock for sha p
proof
  fix ev :: "maker_result xc_event" and pre
  assume "calm ev"
  then show "maker_rule sha p pre ev" by (cases "(sha, p, pre, ev)" rule: maker_rule.cases) auto
next
  fix ev :: "maker_result xc_event"
  assume "calm ev"
  then show "\<not> unsaved_lock p ev" by (cases "(p, ev)" rule: unsaved_lock.cases) auto
qed

section \<open>Stable facts\<close>

lemma leg_agreed_append: "leg_agreed p t ck rk tb ts funded lt \<Longrightarrow> leg_agreed p (t @ t') ck rk tb ts funded lt"
  by (auto simp: leg_agreed_def)

lemma calm_no_lock_seq: "list_all calm es \<Longrightarrow> \<not> list_ex locks_seq es"
  by (induction es) (auto elim!: locks_seq.elims)

lemma calm_no_terms: "list_all calm es \<Longrightarrow> \<not> list_ex sends_terms es"
  by (induction es) (auto elim!: sends_terms.elims)

lemma near_none [simp]: "\<not> near None m l"
  by (simp add: near_def)

lemma far_exists [simp]: "\<exists>t. \<not> near t m l"
  by (rule exI [of _ None]) simp

lemma fundWindow_check_read:
  "fundWindow_check e w s = (s', Ret None) \<Longrightarrow> \<exists>win. st_trace s' = st_trace s @ win \<and> window_read w win"
  by (auto simp: fundWindow_check_def act_bind_def SeqTip_def BtcTip_def ask_def Let_def ret_def window_read_def split: if_splits)

lemma anchor_wait_read:
  "anchor_wait n k e target w tm s = (s', Ret x) \<Longrightarrow> \<exists>rest h. st_trace s' = st_trace s @ rest @ [EvAnchorStatus (Some (h, ''ok''))] \<and> target \<le> h"
proof (induction n arbitrary: k s)
  case (Suc n)
  let ?c = "xe_Cancelled e (st_trace s)"
  let ?s1 = "s\<lparr>st_trace := st_trace s @ [EvCancelled ?c]\<rparr>"
  let ?a = "xe_AnchorStatus e (st_trace ?s1)"
  let ?s2 = "?s1\<lparr>st_trace := st_trace ?s1 @ [EvAnchorStatus ?a]\<rparr>"
  show ?case
  proof (cases "anchored ?a target")
    case True
    then show ?thesis using Suc.prems
      by (auto simp: act_bind_def xc_Cancelled_def AnchorStatus_def ask_def Let_def stop_def ret_def anchored_def split: if_splits option.splits)
  next
    case False
    obtain s3 closed where w: "fundWindow_check e w ?s2 = (s3, closed)" by fastforce
    obtain es where es: "st_trace s3 = st_trace ?s2 @ es" by (rule does_run [OF fundWindow_check_calm w])
    let ?sel = "xe_Select e (st_trace s3) (xt_Poll tm)"
    let ?s4 = "s3\<lparr>st_trace := st_trace s3 @ [EvSelect (xt_Poll tm) ?sel]\<rparr>"
    obtain k' where "anchor_wait n k' e target w tm ?s4 = (s', Ret x)"
      using Suc.prems False w
      by (auto simp: act_bind_def xc_Cancelled_def AnchorStatus_def xc_Select_def ask_def Let_def stop_def ret_def
          split: if_splits option.splits xc_outcome.splits)
    from Suc.IH [OF this] show ?thesis using es by auto
  qed
qed (simp add: running_def)

lemma frames_received: "m \<in> set (frames t) \<Longrightarrow> \<exists>d. EvRecv d (Frame m) \<in> set t"
proof (induction t)
  case (Cons ev t)
  then show ?case by (cases ev rule: frame_of.cases) auto
qed simp

lemma recv_event: "recvXcType n e want d s = (s', Ret m) \<Longrightarrow> xm_Type m = want \<and> (\<exists>d. EvRecv d (Frame m) \<in> set (st_trace s'))"
  using recvXcType_frames [of n e want d s s' m] frames_received [of m "st_trace s'"] by auto

section \<open>Terms\<close>

lemma maker_keys_keeps:
  assumes inv: "maker_inv sha p s" and fresh: "\<not> list_ex sends_terms (st_trace s)" "\<not> list_ex locks_seq (st_trace s)"
  shows "keeps (maker_inv sha p) (maker_keys e p) (\<lambda>(ck, rk, tb, ts) s'.
    terms_ok p (st_trace s') (maker_terms p ck rk tb ts) \<and> \<not> list_ex locks_seq (st_trace s')) s"
proof -
  let ?T = "\<lambda>(ck, rk, tb, ts) s'. terms_ok p (st_trace s') (maker_terms p ck rk tb ts) \<and> \<not> list_ex locks_seq (st_trace s')"
  have last_step: "keeps (maker_inv sha p) (act_bind (put_res (\<lambda>r. r\<lparr>mr_BtcClaimKey := Some ck, mr_SeqRefundKey := Some rk, mr_BtcLocktime := tb,
      mr_SeqLocktime := ts\<rparr>)) (\<lambda>_. act_bind (persist (mf_OnUpdate p)) (\<lambda>_. ret (ck, rk, tb, ts)))) ?T s'"
    if inv': "maker_inv sha p s'" and tr: "st_trace s' = st_trace s @ [EvNewKey (Some ck), EvNewKey (Some rk), EvBtcTip (Some b), EvSeqTip (Some sq)]"
      and tb: "tb = of_int b + mf_BtcLocktimeDelta p" and ts: "ts = of_int sq + mf_SeqLocktimeDelta p" for s' ck rk b sq tb ts
  proof (rule mk.bind_put_res [OF inv'], rule mk.bind_calm [OF does_persist])
    let ?s = "s'\<lparr>st_res := st_res s'\<lparr>mr_BtcClaimKey := Some ck, mr_SeqRefundKey := Some rk, mr_BtcLocktime := tb, mr_SeqLocktime := ts\<rparr>\<rparr>"
    fix x s2 es
    assume run: "persist (mf_OnUpdate p) ?s = (s2, Ret x)" and inv2: "maker_inv sha p s2"
    have "?T (ck, rk, tb, ts) s2"
    proof (cases "mf_OnUpdate p")
      case True
      then show ?thesis using run tr tb ts fresh
        by (auto simp: persist_def terms_ok_def maker_terms_def intro!: exI [of _ "st_trace s"])
    next
      case False
      then show ?thesis using run tr tb ts fresh
        by (auto simp: persist_def terms_ok_def maker_terms_def intro!: exI [of _ "st_trace s"])
    qed
    with inv2 show "keeps (maker_inv sha p) (ret (ck, rk, tb, ts)) ?T s2" by (simp add: keeps_ret)
  qed (auto simp: inv')
  show ?thesis unfolding maker_keys_def NewKey_def BtcTip_def SeqTip_def Let_def
    by (intro mk.bind_ask mk.bind_need inv last_step) auto
qed

lemma send_terms_keeps:
  assumes inv: "maker_inv sha p s" and ok: "terms_ok p (st_trace s) m" and fresh: "\<not> list_ex locks_seq (st_trace s)"
  shows "keeps (maker_inv sha p) (sendXc e m) (\<lambda>_ s'. EvSend m True \<in> set (st_trace s') \<and> \<not> list_ex locks_seq (st_trace s')) s"
proof -
  have "maker_inv sha p (s\<lparr>st_trace := st_trace s @ [EvSend m b]\<rparr>)" for b
    using ok by (intro mk.inv_step [OF inv, of "EvSend m b"]) simp_all
  then show ?thesis unfolding sendXc_def xc_Send_def using fresh by (intro keeps_bind_ask conjI keeps_guard) auto
qed

section \<open>The announcement\<close>

definition announced_leg :: "maker_params \<Rightarrow> xc_msg \<Rightarrow> bytes \<times> bytes \<times> bytes \<times> u64 \<times> u64 \<times> xc_leg \<Rightarrow> bool" where
  "announced_leg p funded = (\<lambda>(hashH, claimPub, refundPub, takeSeq, wantBtc, leg).
     hex_DecodeString (xm_HashH funded) = Some hashH \<and> length hashH = 32 \<and> hex_key (xm_TakerSeqClaimPub funded) = Some claimPub \<and>
     hex_key (xm_TakerBtcRefundPub funded) = Some refundPub \<and> takeSeq = slice_of p funded \<and> takeSeq \<le> mf_SeqAmount p \<and>
     xl_Amount leg = wantBtc \<and> unat wantBtc = ceil_div (unat (mf_BtcAmount p) * unat takeSeq) (unat (mf_SeqAmount p)))"

lemma maker_announced_keeps:
  assumes inv: "maker_inv sha p s" and whole: "mf_SeqAmount p \<noteq> 0"
  shows "keeps (maker_inv sha p) (maker_announced e p funded) (\<lambda>x s'. announced_leg p funded x \<and> s' = s) s"
proof -
  have price: "unat b = ceil_div (unat (mf_BtcAmount p) * unat t) (unat (mf_SeqAmount p))"
    if "t \<le> mf_SeqAmount p" "ProportionalBtc (mf_BtcAmount p) t (mf_SeqAmount p) = Some b" for t b
    using ProportionalBtc_exact(1) [OF whole that(1), of "mf_BtcAmount p"] that(2) by auto
  show ?thesis unfolding maker_announced_def slice_of_def [symmetric] Let_def
    using price
    by (auto intro!: mk.bind_need mk.bind_check mk.refuse_keeps keeps_ret inv simp: announced_leg_def split: option.split)
qed

lemma maker_slice_calm [does_rules]: "does calm (maker_slice e p hashH takeSeq wantBtc leg)"
  by (auto simp: maker_slice_def intro!: does_rules)

section \<open>Verification and the anchor precondition\<close>

lemma verify_wait_calm [does_rules]: "does calm (verify_wait n e p lt d)"
proof (induction n)
  case (Suc n)
  then show ?case by (auto intro!: does_rules)
qed (simp add: does_rules)

lemma verify_wait_read: "verify_wait n e p lt d s = (s', Ret v) \<Longrightarrow> \<exists>rest. st_trace s' = st_trace s @ rest @ [EvVerifyBTC lt (Inr v)]"
proof (induction n arbitrary: s)
  case (Suc n)
  let ?r = "xe_VerifyBTCLeg e (st_trace s) lt"
  let ?s1 = "s\<lparr>st_trace := st_trace s @ [EvVerifyBTC lt ?r]\<rparr>"
  show ?case
  proof (cases ?r)
    case (Inr v')
    then show ?thesis using Suc.prems by (auto simp: act_bind_def VerifyBTCLeg_def ask_def Let_def ret_def)
  next
    case (Inl er)
    then obtain es where "verify_wait n e p lt d (s\<lparr>st_trace := st_trace s @ es\<rparr>) = (s', Ret v)"
      using Suc.prems by (auto simp: act_bind_def VerifyBTCLeg_def xc_Now_def xc_Sleep_def ask_def Let_def ret_def refuse_def sendXcFail_def
          stop_def xc_Send_def split: if_splits)
    from Suc.IH [OF this] show ?thesis by auto
  qed
qed (simp add: running_def)

definition ready :: "leg_terms \<Rightarrow> verified_leg \<Rightarrow> int \<Rightarrow> 'r xc_event list \<Rightarrow> bool" where
  "ready lt v btcLegH t \<longleftrightarrow> vl_Height v \<le> btcLegH \<and>
     (\<exists>rest h v'. t = rest @ [EvAnchorStatus (Some (h, ''ok'')), EvVerifyBTC lt (Inr v')] \<and> EvVerifyBTC lt (Inr v) \<in> set rest \<and>
        vl_Height v = vl_Height v' \<and> vl_Height v' < h)"

lemma claimant_height: "ours \<le> claimantBtcLegHeight ours theirs"
  by (simp add: claimantBtcLegHeight_def maxCounterpartyHeightSlack_def Let_def)

lemma remine_calm [does_rules]: "does calm (remine k n e p w lt theirs v)"
proof (induction k arbitrary: v)
  case (Suc k)
  then show ?case by (auto simp: waitSeqAnchorReachesBTCLeg_def Let_def intro!: does_rules)
qed (simp add: does_rules)

lemma remine_read:
  "remine k n e p w lt theirs v s = (s', Ret (v', h)) \<Longrightarrow> EvVerifyBTC lt (Inr v) \<in> set (st_trace s) \<Longrightarrow>
     (\<exists>es. st_trace s' = st_trace s @ es) \<and> ready lt v' h (st_trace s')"
proof (induction k arbitrary: v s)
  case (Suc k)
  let ?h = "claimantBtcLegHeight (vl_Height v) theirs"
  obtain s1 r where w: "anchor_wait n 0 e (?h + 1) w (mf_Timing p) s = (s1, r)" by fastforce
  then obtain x where r: "r = Ret x"
    using Suc.prems(1) by (cases r) (auto simp: act_bind_def attempt_def waitSeqAnchorReachesBTCLeg_def Let_def mk.refuse_never)
  obtain rest a where s1: "st_trace s1 = st_trace s @ rest @ [EvAnchorStatus (Some (a, ''ok''))]" "?h + 1 \<le> a"
    using anchor_wait_read w r by blast
  define y where "y = xe_VerifyBTCLeg e (st_trace s1) lt"
  let ?s2 = "s1\<lparr>st_trace := st_trace s1 @ [EvVerifyBTC lt y]\<rparr>"
  obtain v2 where y: "y = Inr v2"
    using Suc.prems(1) w r by (cases y) (auto simp: act_bind_def attempt_def waitSeqAnchorReachesBTCLeg_def VerifyBTCLeg_def ask_def Let_def
        mk.refuse_never y_def)
  have run: "(if vl_Height v2 = vl_Height v then ret (v, ?h) else if k = 0 then refuse e ''btc_leg_gone'' BtcLegChanged
      else remine k n e p w lt theirs v2) ?s2 = (s', Ret (v', h))"
    using Suc.prems(1) w r y by (simp add: act_bind_def attempt_def waitSeqAnchorReachesBTCLeg_def VerifyBTCLeg_def ask_def Let_def y_def [symmetric])
  show ?case
  proof (cases "vl_Height v2 = vl_Height v")
    case True
    then have "s' = ?s2" "v' = v" "h = ?h" using run by (auto simp: ret_def)
    then show ?thesis using s1 Suc.prems(2) y True claimant_height [of "vl_Height v" theirs] by (auto simp: ready_def)
  next
    case False
    then have "remine k n e p w lt theirs v2 ?s2 = (s', Ret (v', h))" using run by (auto simp: mk.refuse_never split: if_splits)
    from Suc.IH [OF this] show ?thesis using s1 y by auto
  qed
qed (simp add: running_def)

lemma maker_ready_calm [does_rules]: "does calm (maker_ready n e p w lt theirs v)"
  by (auto simp: maker_ready_def intro!: does_rules)

lemma maker_ready_read:
  assumes run: "maker_ready n e p w lt theirs v s = (s', Ret (v', h))" and ver: "EvVerifyBTC lt (Inr v) \<in> set (st_trace s)"
  shows "\<exists>t win. st_trace s' = t @ win \<and> window_read w win \<and> ready lt v' h t \<and> (\<exists>es. t = st_trace s @ es)"
proof -
  obtain s1 r where 1: "remine 11 n e p w lt theirs v s = (s1, r)" by fastforce
  have r: "r = Ret (v', h)" and 2: "fundWindow_check e w s1 = (s', Ret None)"
    using run 1 by (auto simp: maker_ready_def act_bind_def ret_def mk.refuse_never split: xc_outcome.splits option.splits prod.splits)
  obtain win where win: "st_trace s' = st_trace s1 @ win" "window_read w win" using fundWindow_check_read [OF 2] by blast
  have "(\<exists>es. st_trace s1 = st_trace s @ es) \<and> ready lt v' h (st_trace s1)" by (rule remine_read [OF _ ver]) (use 1 r in simp)
  then show ?thesis using win by blast
qed

section \<open>The lock and its announcement\<close>

definition has_lock :: "maker_params \<Rightarrow> xkey \<Rightarrow> u32 \<Rightarrow> leg_lock \<Rightarrow> maker_result xc_event list \<Rightarrow> bool" where
  "has_lock p rk ts leg t \<longleftrightarrow> (\<exists>c amt x. EvLockSEQ c (k_PubKey rk) amt (mf_AssetHex p) ts x \<in> set t \<and> lock_leg x = Some leg)"

lemma has_lock_append: "has_lock p rk ts leg t \<Longrightarrow> has_lock p rk ts leg (t @ t')"
  by (auto simp: has_lock_def)

lemma lock_wait_calm [does_rules]: "does calm (lock_wait n e p txid d)"
proof (induction n)
  case (Suc n)
  then show ?case by (auto intro!: does_rules)
qed (simp add: does_rules)

text \<open>The lock of a leg, right after the events \<open>t0\<close>.\<close>

definition lock_after :: "maker_result xc_event list \<Rightarrow> maker_params \<Rightarrow> xkey \<Rightarrow> u32 \<Rightarrow> leg_lock \<Rightarrow> maker_result xc_event list \<Rightarrow> bool" where
  "lock_after t0 p rk ts leg t \<longleftrightarrow>
     (\<exists>c amt x es. t = t0 @ [EvLockSEQ c (k_PubKey rk) amt (mf_AssetHex p) ts x] @ es \<and> lock_leg x = Some leg)"

lemma lock_after_append: "lock_after t0 p rk ts leg t \<Longrightarrow> lock_after t0 p rk ts leg (t @ t')"
  unfolding lock_after_def by (metis append.assoc)

lemma lock_after_has: "lock_after t0 p rk ts leg t \<Longrightarrow> has_lock p rk ts leg t"
  unfolding lock_after_def has_lock_def by fastforce

lemma ready_lock:
  assumes "ready lt v h t" and "window_read (window_of p tb ts) win"
  shows "\<exists>v'. lock_ready p (t @ win) lt v' tb ts \<and> vl_Height v' \<le> h"
  using assms unfolding ready_def lock_ready_def by (metis append.assoc)

lemma lock_rule:
  assumes "\<not> list_ex locks_seq (st_trace s)" and "lock_ready p (st_trace s) lt v tb ts"
    and "leg_agreed p (st_trace s) ck rk tb ts funded lt" and "hex_key (xm_TakerSeqClaimPub funded) = Some c"
  shows "maker_rule sha p (st_trace s) (EvLockSEQ c (k_PubKey rk) (atomsToCoins (slice_of p funded)) (mf_AssetHex p) ts x)"
  using assms unfolding maker_rule.simps lock_ok_def by blast

lemma maker_lock_keeps:
  assumes inv: "maker_inv sha p s" and rule: "\<And>x. maker_rule sha p (st_trace s) (EvLockSEQ c (k_PubKey rk) (atomsToCoins takeSeq) (mf_AssetHex p) ts x)"
  shows "keeps (maker_inv sha p) (maker_lock n e p c rk takeSeq ts) (\<lambda>(leg, bh) s'. lock_after (st_trace s) p rk ts leg (st_trace s')) s"
proof -
  define x where "x = xe_LockSEQLeg e (st_trace s) c (k_PubKey rk) (atomsToCoins takeSeq) (mf_AssetHex p) ts"
  let ?ev = "EvLockSEQ c (k_PubKey rk) (atomsToCoins takeSeq) (mf_AssetHex p) ts x"
  let ?T = "\<lambda>(leg, bh) s'. lock_after (st_trace s) p rk ts leg (st_trace s')"
  let ?s1 = "\<lambda>leg. s\<lparr>st_trace := st_trace s @ [?ev] @ (if mf_OnUpdate p then [EvPersist ((st_res s)\<lparr>mr_SeqLeg := Some leg\<rparr>)] else []),
    st_res := (st_res s)\<lparr>mr_SeqLeg := Some leg\<rparr>\<rparr>"
  have inv1: "maker_inv sha p (?s1 leg)" if "lock_leg x = Some leg" for leg
    using that mk.inv_step [OF inv rule, of x "?s1 leg"] mk.inv_saved [OF inv rule, of "EvPersist ((st_res s)\<lparr>mr_SeqLeg := Some leg\<rparr>)" x "?s1 leg"]
    by (cases "mf_OnUpdate p") auto
  have lock1: "lock_after (st_trace s) p rk ts leg (st_trace (?s1 leg))" if "lock_leg x = Some leg" for leg
    using that by (auto simp: lock_after_def)
  show ?thesis
  proof (cases x)
    case SeqLockFailed
    then have "maker_inv sha p (s\<lparr>st_trace := st_trace s @ [?ev]\<rparr>)" by (intro mk.inv_step [OF inv rule, of x]) simp_all
    from mk.refuse_keeps [OF this, of e "''seq_lock_failed''" SeqLockError ?T] SeqLockFailed show ?thesis
      by (simp add: maker_lock_def keeps_def act_bind_def LockSEQLeg_def ask_def Let_def x_def)
  next
    case (SeqLockPending leg)
    have "keeps (maker_inv sha p) (act_bind (xc_Now e) (\<lambda>now. act_bind (lock_wait n e p (fh_TxID (ll_Funded leg)) (now + xt_SeqLockWait (mf_Timing p)))
        (\<lambda>bh. ret (leg, bh)))) ?T (?s1 leg)"
      using inv1 [of leg] lock1 [of leg] SeqLockPending
      by (intro mk.bind_calm [OF read_calm(1)] mk.bind_calm [OF lock_wait_calm] keeps_ret) (auto simp: lock_after_def)
    then show ?thesis using SeqLockPending
      by (auto simp: maker_lock_def keeps_def act_bind_def LockSEQLeg_def ask_def Let_def x_def put_res_def persist_def run_state_order)
  next
    case (SeqLockConfirmed leg bh)
    have "keeps (maker_inv sha p) (ret (leg, bh)) ?T (?s1 leg)"
      using inv1 [of leg] lock1 [of leg] SeqLockConfirmed by (intro keeps_ret) auto
    then show ?thesis using SeqLockConfirmed
      by (auto simp: maker_lock_def keeps_def act_bind_def LockSEQLeg_def ask_def Let_def x_def put_res_def persist_def run_state_order)
  qed
qed

lemma read_anchor_calm [does_rules]: "does calm (read_anchor k e p txid bh)"
proof (induction k arbitrary: bh)
  case (Suc k)
  then show ?case by (auto simp: Let_def intro!: does_rules)
qed (simp add: does_rules)

lemma read_anchor_read:
  "read_anchor k e p txid bh s = (s', Ret (bh', Some h)) \<Longrightarrow>
     \<exists>rest. st_trace s' = rest @ [EvBlockOnActiveChain bh' (Some True), EvBlockAnchorHeight bh' (Some h)]"
proof (induction k arbitrary: bh s)
  case (Suc k)
  then show ?case
    by (auto simp: act_bind_def BlockHashOfTx_def BlockOnActiveChain_def BlockAnchorHeight_def xc_Sleep_def ask_def Let_def ret_def
        split: if_splits option.splits)
qed (simp add: ret_def)

lemma two_last:
  assumes "xs @ [l] @ es = rest @ [a, b]" and "l \<noteq> a" and "l \<noteq> b"
  obtains es' where "es = es' @ [a, b]"
proof (cases es rule: rev_cases)
  case (snoc es1 y)
  then show ?thesis using assms that by (cases es1 rule: rev_cases) auto
qed (use assms in simp)

lemma announce_rule:
  assumes "lock_after t0 p rk ts leg t" and "t' = t @ es" and "t' = rest @ [EvBlockOnActiveChain bh (Some True), EvBlockAnchorHeight bh (Some h)]"
    and "lock_ready p t0 lt v tb ts" and "vl_Height v \<le> h"
  shows "locked_ok p t' (maker_locked leg ts bh h)"
proof -
  let ?rd = "[EvBlockOnActiveChain bh (Some True), EvBlockAnchorHeight bh (Some h)]"
  obtain c amt x es1 where t': "t' = t0 @ [EvLockSEQ c (k_PubKey rk) amt (mf_AssetHex p) ts x] @ es1" and leg: "lock_leg x = Some leg"
    using lock_after_append [OF assms(1), of es] assms(2) by (auto simp: lock_after_def)
  obtain es2 where "es1 = es2 @ ?rd" by (rule two_last [OF t' [symmetric, unfolded assms(3)]]) simp_all
  with t' leg assms(4,5) show ?thesis unfolding locked_ok_def by (metis append.assoc)
qed

lemma maker_announce_keeps:
  assumes inv: "maker_inv sha p s" and lock: "lock_after t0 p rk ts leg (st_trace s)"
    and ver: "lock_ready p t0 lt v tb ts" "vl_Height v \<le> btcLegH"
  shows "keeps (maker_inv sha p) (maker_announce e p leg ts bh btcLegH) (\<lambda>_ s'. \<exists>es. st_trace s' = st_trace s @ es) s"
proof -
  let ?T = "\<lambda>_ s'. \<exists>es. st_trace s' = st_trace s @ es"
  have fail: "keeps (maker_inv sha p) (sendXcFail e code) ?T s1" if "maker_inv sha p s1" "\<exists>es. st_trace s1 = st_trace s @ es" for s1 code
    using that by (intro mk.keeps_calm [OF sendXcFail_calm]) auto
  have tell: "keeps (maker_inv sha p) (act_bind (xc_Send e (maker_locked leg ts bh' h)) (\<lambda>_. ret ())) ?T s1"
    if "maker_inv sha p s1" and ext: "st_trace s1 = st_trace s @ es" and h: "btcLegH \<le> h"
      and rd: "st_trace s1 = rest @ [EvBlockOnActiveChain bh' (Some True), EvBlockAnchorHeight bh' (Some h)]" for s1 es bh' h rest
  proof -
    have "locked_ok p (st_trace s1) (maker_locked leg ts bh' h)" by (rule announce_rule [OF lock ext rd ver(1)]) (use ver(2) h in simp)
    then have "maker_inv sha p (s1\<lparr>st_trace := st_trace s1 @ [EvSend (maker_locked leg ts bh' h) b]\<rparr>)" for b
      using that(1) by (intro mk.inv_step [OF that(1), of "EvSend (maker_locked leg ts bh' h) b"]) simp_all
    then show ?thesis unfolding xc_Send_def using ext by (intro keeps_bind_ask conjI keeps_ret) auto
  qed
  show ?thesis unfolding maker_announce_def
  proof (intro mk.bind_put_res mk.bind_calm [OF does_persist] mk.bind_calm [OF read_anchor_calm] inv)
    fix x s1 es y s2 es2
    assume p1: "persist (mf_OnUpdate p) (s\<lparr>st_res := st_res s\<lparr>mr_SeqBlockHash := bh\<rparr>\<rparr>) = (s1, Ret x)"
      and e1: "st_trace s1 = st_trace (s\<lparr>st_res := st_res s\<lparr>mr_SeqBlockHash := bh\<rparr>\<rparr>) @ es"
      and p2: "read_anchor 6 e p (fh_TxID (ll_Funded leg)) bh s1 = (s2, Ret y)" and inv2: "maker_inv sha p s2" and e2: "st_trace s2 = st_trace s1 @ es2"
    obtain bh' a where y: "y = (bh', a)" by fastforce
    show "keeps (maker_inv sha p) (case y of (bh, anchorH) \<Rightarrow> act_bind (put_res (\<lambda>r. r\<lparr>mr_SeqBlockHash := bh\<rparr>)) (\<lambda>_.
       case anchorH of Some h \<Rightarrow> if btcLegH \<le> h then act_bind (xc_Send e (maker_locked leg ts bh h)) (\<lambda>_. ret ())
           else sendXcFail e ''seq_leg_underanchored'' | None \<Rightarrow> sendXcFail e ''seq_leg_underanchored'')) ?T s2"
      unfolding y prod.case
    proof (rule mk.bind_put_res [OF inv2])
      let ?s3 = "s2\<lparr>st_res := st_res s2\<lparr>mr_SeqBlockHash := bh'\<rparr>\<rparr>"
      have ext: "st_trace ?s3 = st_trace s @ es @ es2" using e1 e2 by simp
      show "keeps (maker_inv sha p) (case a of Some h \<Rightarrow> if btcLegH \<le> h then act_bind (xc_Send e (maker_locked leg ts bh' h)) (\<lambda>_. ret ())
           else sendXcFail e ''seq_leg_underanchored'' | None \<Rightarrow> sendXcFail e ''seq_leg_underanchored'') ?T ?s3"
      proof (cases a)
        case (Some h)
        obtain rest where "st_trace s2 = rest @ [EvBlockOnActiveChain bh' (Some True), EvBlockAnchorHeight bh' (Some h)]"
          using read_anchor_read p2 y Some by blast
        then show ?thesis using Some inv2 ext tell [of ?s3 "es @ es2" h rest bh'] fail [of ?s3] by auto
      qed (use inv2 ext fail [of ?s3] in auto)
    qed
  qed (auto simp: inv)
qed

section \<open>Settlement\<close>

definition settling :: "maker_params \<Rightarrow> settle_params \<Rightarrow> xc_msg \<Rightarrow> leg_terms \<Rightarrow> maker_result xc_event list \<Rightarrow> bool" where
  "settling p sp funded lt t \<longleftrightarrow>
     leg_agreed p t (sp_BtcClaimKey sp) (sp_SeqRefundKey sp) (sp_BtcLocktime sp) (sp_SeqLocktime sp) funded lt \<and>
     (\<exists>v. EvVerifyBTC lt (Inr v) \<in> set t \<and> sp_BtcLeg sp = vl_Leg v) \<and> has_lock p (sp_SeqRefundKey sp) (sp_SeqLocktime sp) (sp_SeqLeg sp) t \<and>
     sp_Hash sp = lt_HashH lt \<and> sp_BtcAmount sp = lt_Amount lt \<and> sp_SpendFeeSats sp = mf_SpendFeeSats p \<and> sp_AssetHex sp = mf_AssetHex p \<and>
     sp_OnUpdate sp = mf_OnUpdate p"

lemma settling_append: "settling p sp funded lt t \<Longrightarrow> settling p sp funded lt (t @ t')"
  unfolding settling_def by (auto intro: leg_agreed_append has_lock_append)

lemma claim_rule:
  assumes "settling p sp funded lt t" and "t = rest @ [EvWatchSEQ seqLeg (Some (txid, secret))]" and "InjectSecret sha (sp_Hash sp) secret"
    and "mf_OnUpdate p \<longrightarrow> (\<exists>r. save = [EvPersist r] \<and> mr_Secret r = secret)"
  shows "maker_rule sha p (t @ save) (EvClaimBTC (sp_BtcLeg sp) (sp_BtcClaimKey sp) (xcSafeFee (sp_SpendFeeSats sp) (sp_BtcAmount sp)) x)"
proof -
  obtain v where "EvVerifyBTC lt (Inr v) \<in> set t" "sp_BtcLeg sp = vl_Leg v" using assms(1) by (auto simp: settling_def)
  then have body: "t @ save = rest @ [EvWatchSEQ seqLeg (Some (txid, secret))] @ save \<and> length secret = 32 \<and> sha secret = lt_HashH lt \<and>
      (mf_OnUpdate p \<longrightarrow> (\<exists>r. save = [EvPersist r] \<and> mr_Secret r = secret)) \<and> EvVerifyBTC lt (Inr v) \<in> set (t @ save) \<and> sp_BtcLeg sp = vl_Leg v \<and>
      leg_agreed p (t @ save) (sp_BtcClaimKey sp) (sp_SeqRefundKey sp) (sp_BtcLocktime sp) (sp_SeqLocktime sp) funded lt \<and>
      xcSafeFee (sp_SpendFeeSats sp) (sp_BtcAmount sp) = xcSafeFee (mf_SpendFeeSats p) (lt_Amount lt)"
    using assms by (auto simp: settling_def InjectSecret_def leg_agreed_def)
  show ?thesis unfolding maker_rule.simps claim_ok_def by (intro exI) (rule body)
qed

lemma settle_claim_keeps:
  assumes inv: "maker_inv (xe_sha256 e) p s" and ctx: "settling p sp funded lt (st_trace s)"
    and seen: "st_trace s = rest @ [EvWatchSEQ seqLeg (Some (txid, secret))]"
  shows "keeps (maker_inv (xe_sha256 e) p) (settle_claim e sp secret) (\<lambda>_ s'. \<exists>es. st_trace s' = st_trace s @ es) s"
  unfolding settle_claim_def
proof (rule mk.bind_guard [OF inv], rule mk.bind_put_res [OF inv], rule mk.bind_calm [OF does_persist])
  let ?s1 = "s\<lparr>st_res := st_res s\<lparr>mr_Secret := secret\<rparr>\<rparr>"
  let ?fee = "xcSafeFee (sp_SpendFeeSats sp) (sp_BtcAmount sp)"
  let ?next = "\<lambda>r. case r of None \<Rightarrow> act_bind (BtcTip e) (\<lambda>tip.
      if (case tip of Some h \<Rightarrow> sp_BtcLocktime sp - 6 \<le> of_int h | None \<Rightarrow> False) then stop BtcClaimFailing else ret False)
    | Some txid \<Rightarrow> act_bind (put_res (\<lambda>r. r\<lparr>mr_BtcClaimTxid := txid, mr_Settled := True\<rparr>)) (\<lambda>_. act_bind (persist (sp_OnUpdate sp)) (\<lambda>_. ret True))"
  fix x s2 es
  assume ok: "InjectSecret (xe_sha256 e) (sp_Hash sp) secret" and run: "persist (sp_OnUpdate sp) ?s1 = (s2, Ret x)"
    and inv2: "maker_inv (xe_sha256 e) p s2" and ext: "st_trace s2 = st_trace ?s1 @ es"
  have "mf_OnUpdate p \<longrightarrow> (\<exists>r. es = [EvPersist r] \<and> mr_Secret r = secret)"
    using run ext ctx by (auto simp: persist_def settling_def)
  then have "maker_inv (xe_sha256 e) p (s2\<lparr>st_trace := st_trace s2 @ [EvClaimBTC (sp_BtcLeg sp) (sp_BtcClaimKey sp) ?fee y]\<rparr>)" for y
    using claim_rule [OF ctx seen ok] ext
    by (intro mk.inv_step [OF inv2, of "EvClaimBTC (sp_BtcLeg sp) (sp_BtcClaimKey sp) ?fee y"]) simp_all
  moreover have "does calm (?next r)" for r by (auto intro!: does_rules)
  ultimately show "keeps (maker_inv (xe_sha256 e) p) (act_bind (ClaimBTCLeg e (sp_BtcLeg sp) (sp_BtcClaimKey sp) ?fee) ?next)
     (\<lambda>_ s'. \<exists>es. st_trace s' = st_trace s @ es) s2"
    unfolding ClaimBTCLeg_def using ext by (intro keeps_bind_ask conjI mk.keeps_calm) auto
qed (auto simp: inv)

lemma settle_refund_keeps:
  assumes inv: "maker_inv sha p s" and ctx: "settling p sp funded lt (st_trace s)"
    and seen: "st_trace s = rest @ [EvWatchSEQ (sp_SeqLeg sp) w]" and no_claim: "\<And>txid secret. w = Some (txid, secret) \<Longrightarrow> secret = []"
  shows "keeps (maker_inv sha p) (settle_refund e sp) (\<lambda>_ s'. \<exists>es. st_trace s' = st_trace s @ es) s"
  unfolding settle_refund_def SeqTip_def FeeRate_def
proof (rule mk.bind_ask [OF inv])
  let ?T = "\<lambda>_ s'. \<exists>es. st_trace s' = st_trace s @ es"
  let ?l = "sp_SeqLocktime sp" and ?key = "sp_SeqRefundKey sp" and ?leg = "sp_SeqLeg sp"
  let ?done = "\<lambda>r. case r of None \<Rightarrow> ret () | Some txid \<Rightarrow> act_bind (put_res (\<lambda>r. r\<lparr>mr_SeqRefundTx := txid\<rparr>)) (\<lambda>_. act_bind (persist (sp_OnUpdate sp)) (\<lambda>_.
      act_bind (if sp_Note sp then sendXcFail e ''refunded'' else ret ()) (\<lambda>_. stop XcRefunded)))"
  let ?send = "\<lambda>raw. case raw of None \<Rightarrow> ret () | Some tx \<Rightarrow> act_bind (SeqBroadcast e tx) ?done"
  fix tip
  let ?s1 = "s\<lparr>st_trace := st_trace s @ [EvSeqTip tip]\<rparr>"
  assume inv1: "maker_inv sha p ?s1"
  have done_calm: "does calm (?done r)" for r by (auto intro!: does_rules)
  have send: "keeps (maker_inv sha p) (?send raw) ?T s2" if inv2: "maker_inv sha p s2" and t: "st_trace s2 = st_trace s @ es @ [EvRefundSEQ ?leg ?key ?l fee raw]" for s2 raw es fee
  proof (cases raw)
    case (Some tx)
    then have "maker_inv sha p (s2\<lparr>st_trace := st_trace s2 @ [EvSeqBroadcast tx y]\<rparr>)" for y
      using t by (intro mk.inv_step [OF inv2, of "EvSeqBroadcast tx y"]) auto
    then show ?thesis unfolding Some option.case SeqBroadcast_def using t by (intro keeps_bind_ask conjI mk.keeps_calm [OF done_calm]) auto
  qed (use inv2 t in \<open>auto intro: keeps_ret\<close>)
  show "keeps (maker_inv sha p) (if \<not> near tip 0 ?l then ret () else act_bind (ask (\<lambda>t. xe_FeeRate e t (sp_AssetHex sp)) (EvFeeRate (sp_AssetHex sp)))
     (\<lambda>rate. act_bind (RefundSEQLeg e ?leg ?key ?l (xcSeqLegFee rate (sp_SpendFeeSats sp) (sp_SeqAmount sp))) ?send)) ?T ?s1"
  proof (rule keeps_if)
    assume due: "\<not> \<not> near tip 0 ?l"
    then obtain h where h: "tip = Some h" "?l \<le> of_int h" by (auto simp: near_def split: option.splits)
    show "keeps (maker_inv sha p) (act_bind (ask (\<lambda>t. xe_FeeRate e t (sp_AssetHex sp)) (EvFeeRate (sp_AssetHex sp)))
       (\<lambda>rate. act_bind (RefundSEQLeg e ?leg ?key ?l (xcSeqLegFee rate (sp_SpendFeeSats sp) (sp_SeqAmount sp))) ?send)) ?T ?s1"
    proof (rule mk.bind_ask [OF inv1])
      fix rate
      let ?s2 = "?s1\<lparr>st_trace := st_trace ?s1 @ [EvFeeRate (sp_AssetHex sp) rate]\<rparr>"
      let ?fee = "xcSeqLegFee rate (sp_SpendFeeSats sp) (sp_SeqAmount sp)"
      assume inv2: "maker_inv sha p ?s2"
      have t: "st_trace ?s2 = rest @ [EvWatchSEQ ?leg w, EvSeqTip (Some h), EvFeeRate (mf_AssetHex p) rate]" using seen h ctx by (simp add: settling_def)
      have lock: "has_lock p ?key ?l ?leg (st_trace ?s2)" using ctx by (auto simp: settling_def has_lock_def)
      have "refund_ok p (st_trace ?s2) ?leg ?key ?l" using lock h(2) no_claim unfolding has_lock_def t refund_ok_def by blast
      then have inv3: "maker_inv sha p (?s2\<lparr>st_trace := st_trace ?s2 @ [EvRefundSEQ ?leg ?key ?l ?fee raw]\<rparr>)" for raw
        by (intro mk.inv_step [OF inv2, of "EvRefundSEQ ?leg ?key ?l ?fee raw"]) simp_all
      show "keeps (maker_inv sha p) (act_bind (RefundSEQLeg e ?leg ?key ?l ?fee) ?send) ?T ?s2"
        unfolding RefundSEQLeg_def using inv3 by (intro keeps_bind_ask conjI send [of _ "[EvSeqTip tip, EvFeeRate (sp_AssetHex sp) rate]"]) auto
    qed simp
  qed (use inv1 in \<open>auto intro: keeps_ret\<close>)
qed simp

lemma settle_loop_keeps:
  assumes "maker_inv (xe_sha256 e) p s" and "settling p sp funded lt (st_trace s)"
  shows "keeps (maker_inv (xe_sha256 e) p) (settle_loop n e sp) (\<lambda>_ _. True) s"
  using assms
proof (induction n arbitrary: s)
  case (Suc n)
  let ?I = "maker_inv (xe_sha256 e) p"
  show ?case unfolding settle_loop.simps WatchSEQClaim_def
  proof (rule mk.bind_ask [OF Suc.prems(1)])
    fix r
    let ?s1 = "s\<lparr>st_trace := st_trace s @ [EvWatchSEQ (sp_SeqLeg sp) r]\<rparr>"
    let ?body = "case r of Some (_, secret) \<Rightarrow> if secret \<noteq> [] then settle_claim e sp secret else act_bind (settle_refund e sp) (\<lambda>_. ret False)
       | None \<Rightarrow> act_bind (settle_refund e sp) (\<lambda>_. ret False)"
    assume inv1: "?I ?s1"
    have ctx1: "settling p sp funded lt (st_trace ?s1)" using settling_append [OF Suc.prems(2)] by simp
    have refund: "keeps ?I (act_bind (settle_refund e sp) (\<lambda>_. ret False)) (\<lambda>_ s'. \<exists>es. st_trace s' = st_trace ?s1 @ es) ?s1"
      if "\<And>txid secret. r = Some (txid, secret) \<Longrightarrow> secret = []"
      by (rule keeps_bind [OF settle_refund_keeps [OF inv1 ctx1]]) (use that in \<open>auto intro: keeps_ret\<close>)
    have body: "keeps ?I ?body (\<lambda>_ s'. \<exists>es. st_trace s' = st_trace ?s1 @ es) ?s1"
    proof (cases "\<exists>txid secret. r = Some (txid, secret) \<and> secret \<noteq> []")
      case True
      then obtain txid secret where "r = Some (txid, secret)" "secret \<noteq> []" by blast
      then show ?thesis using settle_claim_keeps [OF inv1 ctx1, of "st_trace s" "sp_SeqLeg sp" txid secret] by simp
    next
      case False
      then show ?thesis using refund by (auto split: option.split)
    qed
    show "keeps ?I (act_bind ?body (\<lambda>finished. if finished then ret () else act_bind (xc_Sleep (sp_Poll sp)) (\<lambda>_. settle_loop n e sp))) (\<lambda>_ _. True) ?s1"
    proof (rule keeps_bind [OF body])
      fix x s2
      assume inv2: "?I s2" and "\<exists>es. st_trace s2 = st_trace ?s1 @ es"
      then have ctx2: "settling p sp funded lt (st_trace s2)" using settling_append [OF ctx1] by auto
      show "keeps ?I (if x then ret () else act_bind (xc_Sleep (sp_Poll sp)) (\<lambda>_. settle_loop n e sp)) (\<lambda>_ _. True) s2"
        by (intro keeps_if keeps_ret mk.bind_calm [OF read_calm(2)] inv2 Suc.IH) (auto intro: settling_append [OF ctx2])
    qed
  qed simp
qed (simp add: keeps_running)

section \<open>The whole run\<close>

lemma maker_verified_calm [does_rules]: "does calm (maker_verified n e p w lt theirs)"
  by (auto simp: maker_verified_def intro!: does_rules)

lemma maker_verified_read:
  assumes run: "maker_verified n e p w lt theirs s = (s', Ret (v, h))"
  shows "\<exists>t win. st_trace s' = t @ win \<and> window_read w win \<and> ready lt v h t"
proof -
  let ?now = "xe_Now e (st_trace s)"
  let ?s1 = "s\<lparr>st_trace := st_trace s @ [EvNow ?now]\<rparr>"
  obtain s2 r where 2: "verify_wait n e p lt (?now + xt_SeqLockWait (mf_Timing p)) ?s1 = (s2, r)" by fastforce
  then obtain v' where r: "r = Ret v'" using run by (cases r) (auto simp: maker_verified_def act_bind_def xc_Now_def ask_def Let_def)
  have ver: "EvVerifyBTC lt (Inr v') \<in> set (st_trace s2)" using verify_wait_read 2 r by fastforce
  define s3 where "s3 = fst (persist (mf_OnUpdate p) (s2\<lparr>st_res := (st_res s2)\<lparr>mr_BtcLeg := Some (vl_Leg v')\<rparr>\<rparr>))"
  let ?s2 = "s2\<lparr>st_res := (st_res s2)\<lparr>mr_BtcLeg := Some (vl_Leg v')\<rparr>\<rparr>"
  have now: "xc_Now e s = (?s1, Ret ?now)" by (simp add: xc_Now_def ask_def Let_def)
  have put: "put_res (\<lambda>r. r\<lparr>mr_BtcLeg := Some (vl_Leg v')\<rparr>) s2 = (?s2, Ret ())" by (simp add: put_res_def)
  have save: "persist (mf_OnUpdate p) ?s2 = (s3, Ret ())" by (simp add: s3_def persist_def)
  have "maker_verified n e p w lt theirs s = maker_ready n e p w lt theirs v' s3"
    unfolding maker_verified_def bind_run [of "xc_Now e", OF now] bind_run [of "verify_wait _ _ _ _ _", OF 2 [unfolded r]]
      bind_run [of "put_res _", OF put] bind_run [of "persist _", OF save] ..
  with run have ready_run: "maker_ready n e p w lt theirs v' s3 = (s', Ret (v, h))" by simp
  have "EvVerifyBTC lt (Inr v') \<in> set (st_trace s3)" using ver by (simp add: s3_def persist_def)
  from maker_ready_read [OF ready_run this] show ?thesis by (elim exE conjE) (intro exI conjI)
qed

definition maker_start :: "maker_result run_state" where
  "maker_start = \<lparr>st_trace = [], st_res = no_maker_result\<rparr>"

lemma settle_keeps:
  assumes "maker_inv (xe_sha256 e) p s" and "settling p sp funded lt (st_trace s)"
  shows "keeps (maker_inv (xe_sha256 e) p) (settleMakerForward n e sp) (\<lambda>_ _. True) s"
  unfolding settleMakerForward_def using assms by (intro settle_loop_keeps) (auto simp: settling_def)

lemma maker_tail_keeps:
  assumes inv: "maker_inv (xe_sha256 e) p s" and fresh: "\<not> list_ex locks_seq (st_trace s)"
    and terms: "EvSend (maker_terms p ck rk tb ts) True \<in> set (st_trace s)"
    and recv: "EvRecv d (Frame funded) \<in> set (st_trace s)" "xm_Type funded = XcBtcLegFunded"
    and ann: "announced_leg p funded (hashH, claimPub, refundPub, takeSeq, wantBtc, leg)"
    and lt: "lt = \<lparr>lt_HashH = hashH, lt_ClaimPub = k_PubKey ck, lt_RefundPub = refundPub, lt_Script = script, lt_Locktime = tb, lt_Txid = xl_Txid leg,
      lt_Vout = xl_Vout leg, lt_Amount = xl_Amount leg, lt_Asset = [], lt_MinConf = mf_MinBTCConf p\<rparr>"
  shows "keeps (maker_inv (xe_sha256 e) p) (act_bind (maker_verified n e p (window_of p tb ts) lt (xl_Height leg)) (\<lambda>(v, btcLegH).
      act_bind (maker_lock n e p claimPub rk takeSeq ts) (\<lambda>(seqLeg, bh).
      act_bind (maker_announce e p seqLeg ts bh btcLegH) (\<lambda>_.
      act_bind (put_res (\<lambda>r. r\<lparr>mr_FilledSeq := takeSeq, mr_FilledBtc := wantBtc\<rparr>)) (\<lambda>_.
      settleMakerForward n e \<lparr>sp_Hash = hashH, sp_BtcLeg = vl_Leg v, sp_SeqLeg = seqLeg, sp_BtcClaimKey = ck,
        sp_SeqRefundKey = rk, sp_BtcLocktime = tb, sp_SeqLocktime = ts, sp_AssetHex = mf_AssetHex p,
        sp_BtcAmount = wantBtc, sp_SeqAmount = takeSeq, sp_SpendFeeSats = mf_SpendFeeSats p, sp_Poll = xt_Poll (mf_Timing p),
        sp_Note = True, sp_OnUpdate = mf_OnUpdate p\<rparr>))))) (\<lambda>_ _. True) s"
proof (rule mk.bind_calm [OF maker_verified_calm inv], clarify)
  let ?I = "maker_inv (xe_sha256 e) p"
  fix v h s1 es
  assume run: "maker_verified n e p (window_of p tb ts) lt (xl_Height leg) s = (s1, Ret (v, h))" and inv1: "?I s1"
    and ext: "st_trace s1 = st_trace s @ es" and calm: "list_all calm es"
  obtain t win where t: "st_trace s1 = t @ win" "window_read (window_of p tb ts) win" "ready lt v h t" using maker_verified_read [OF run] by blast
  have agreed: "leg_agreed p (st_trace s1) ck rk tb ts funded lt"
    using terms recv ann ext lt by (auto simp: leg_agreed_def announced_leg_def)
  obtain v' where go: "lock_ready p (st_trace s1) lt v' tb ts" "vl_Height v' \<le> h" using ready_lock [OF t(3,2)] t(1) by auto
  have rule: "maker_rule (xe_sha256 e) p (st_trace s1) (EvLockSEQ claimPub (k_PubKey rk) (atomsToCoins takeSeq) (mf_AssetHex p) ts x)" for x
    using lock_rule [OF _ go(1) agreed] ann fresh calm ext by (auto simp: announced_leg_def calm_no_lock_seq)
  have ver: "EvVerifyBTC lt (Inr v) \<in> set (st_trace s1)" using t by (auto simp: ready_def)
  show "keeps ?I (act_bind (maker_lock n e p claimPub rk takeSeq ts) (\<lambda>(seqLeg, bh).
      act_bind (maker_announce e p seqLeg ts bh h) (\<lambda>_. act_bind (put_res (\<lambda>r. r\<lparr>mr_FilledSeq := takeSeq, mr_FilledBtc := wantBtc\<rparr>)) (\<lambda>_.
      settleMakerForward n e \<lparr>sp_Hash = hashH, sp_BtcLeg = vl_Leg v, sp_SeqLeg = seqLeg, sp_BtcClaimKey = ck,
        sp_SeqRefundKey = rk, sp_BtcLocktime = tb, sp_SeqLocktime = ts, sp_AssetHex = mf_AssetHex p,
        sp_BtcAmount = wantBtc, sp_SeqAmount = takeSeq, sp_SpendFeeSats = mf_SpendFeeSats p, sp_Poll = xt_Poll (mf_Timing p),
        sp_Note = True, sp_OnUpdate = mf_OnUpdate p\<rparr>)))) (\<lambda>_ _. True) s1"
  proof (rule keeps_bind [OF maker_lock_keeps [OF inv1 rule]], clarify)
    fix seqLeg bh s2
    assume inv2: "?I s2" and lock: "lock_after (st_trace s1) p rk ts seqLeg (st_trace s2)"
    then obtain es2 where ext2: "st_trace s2 = st_trace s1 @ es2" by (auto simp: lock_after_def)
    let ?sp = "\<lparr>sp_Hash = hashH, sp_BtcLeg = vl_Leg v, sp_SeqLeg = seqLeg, sp_BtcClaimKey = ck,
        sp_SeqRefundKey = rk, sp_BtcLocktime = tb, sp_SeqLocktime = ts, sp_AssetHex = mf_AssetHex p,
        sp_BtcAmount = wantBtc, sp_SeqAmount = takeSeq, sp_SpendFeeSats = mf_SpendFeeSats p, sp_Poll = xt_Poll (mf_Timing p),
        sp_Note = True, sp_OnUpdate = mf_OnUpdate p\<rparr>"
    have ctx: "settling p ?sp funded lt (st_trace s2)"
      using leg_agreed_append [OF agreed, of es2] ver lock_after_has [OF lock] ext2 ann lt by (auto simp: settling_def announced_leg_def)
    show "keeps ?I (act_bind (maker_announce e p seqLeg ts bh h) (\<lambda>_. act_bind (put_res (\<lambda>r. r\<lparr>mr_FilledSeq := takeSeq, mr_FilledBtc := wantBtc\<rparr>)) (\<lambda>_.
        settleMakerForward n e ?sp))) (\<lambda>_ _. True) s2"
    proof (rule keeps_bind [OF maker_announce_keeps [OF inv2 lock go]])
      fix x s3
      assume inv3: "?I s3" and "\<exists>es. st_trace s3 = st_trace s2 @ es"
      then have "settling p ?sp funded lt (st_trace s3)" using settling_append [OF ctx] by auto
      then show "keeps ?I (act_bind (put_res (\<lambda>r. r\<lparr>mr_FilledSeq := takeSeq, mr_FilledBtc := wantBtc\<rparr>)) (\<lambda>_. settleMakerForward n e ?sp)) (\<lambda>_ _. True) s3"
        using inv3 by (intro mk.bind_put_res settle_keeps) auto
    qed
  qed
qed

lemma maker_run_keeps: "keeps (maker_inv (xe_sha256 e) (maker_defaults q)) (RunMakerForward n e q) (\<lambda>_ _. True) maker_start"
proof -
  define p where "p = maker_defaults q"
  have start: "maker_inv (xe_sha256 e) p maker_start" by (simp add: maker_start_def run_inv_def)
  show ?thesis
    unfolding RunMakerForward_def Let_def p_def [symmetric] window_of_def [symmetric]
    apply (rule mk.bind_guard [OF start])
    apply (rule mk.bind_calm [OF recvXcType_calm start])
    apply (rule keeps_bind [OF maker_keys_keeps], assumption)
      apply (simp add: maker_start_def calm_no_terms)
     apply (simp add: maker_start_def calm_no_lock_seq)
    apply (clarify, rule keeps_bind [OF send_terms_keeps], assumption, assumption, assumption)
    apply (clarify, rule mk.bind_calm [OF recvXcType_calm], assumption)
    apply (drule recv_event [where want = XcBtcLegFunded], elim conjE exE)
    apply (rule keeps_bind [OF maker_announced_keeps], assumption, blast)
    apply (clarify, rule mk.bind_calm [OF maker_slice_calm], assumption)
    apply (rule maker_tail_keeps, assumption)
         apply (auto simp: calm_no_lock_seq)
    done
qed

text \<open>C5: the forward maker, against any taker, relay, node, clock and user, and stopped at any time: it sends terms once, with fresh keys that
  were handed to the caller and lock times above the tips it has just read; it locks its asset at most once, and only for the exact slice and
  lock time of those terms, after the taker's leg has verified with the slice's exact price, its own key and its own lock time, the
  anchor was then read above the height of that leg, and the leg verified again at the same height, with nothing in between; the only calls between
  that second verification and the lock are the tip reads of the two claim windows, of which every one that succeeded shows its window open (a
  failed tip read does not stop the lock); the locked leg is handed to the caller before anything else happens and announced only from an
  active block whose anchor, just read, is at or above the height of the taker's leg in the verification right before the lock; it claims the
  bitcoin leg only with a saved 32-byte secret of the verified hash that it read off the chain; and it refunds its asset only at the lock time,
  when the tip has reached it and the last look at the chain showed no claim. It does nothing else with value.\<close>

theorem maker_moves_by_rules:
  "run_inv (maker_rule (xe_sha256 e) (maker_defaults q)) (unsaved_lock (maker_defaults q)) saves_lock (fst (RunMakerForward n e q maker_start))"
  using maker_run_keeps [of e q n] by (auto simp: keeps_def split: prod.splits)

text \<open>A maker that restarts in the middle of a settlement goes on by the same rules: the events before the restart justify the ones after it.\<close>

lemma resumed_maker_moves_by_rules:
  assumes "maker_inv (xe_sha256 e) p s" and "settling p sp funded lt (st_trace s)"
  shows "maker_inv (xe_sha256 e) p (fst (ResumeMakerForward n e sp s))"
proof -
  have "keeps (maker_inv (xe_sha256 e) p) (ResumeMakerForward n e sp) (\<lambda>_ _. True) s"
    unfolding ResumeMakerForward_def using assms by (intro mk.bind_put_res settle_keeps) (auto simp: settling_def)
  then show ?thesis by (auto simp: keeps_def split: prod.splits)
qed

end
