(* ===== verification/Swap_Outcome.thy ===== *)
theory Swap_Outcome
  imports Maker_Safety
begin

text \<open>
  How runs of the forward swap end: every wait ends once the chain has reached its deadline, the maker's settlement ends in a
  claim or a refund, the taker's refund happens when it is due, and two honest sides agree on the same slice and price.
\<close>

section \<open>Actions that end\<close>

definition ends :: "('r, 'a) act \<Rightarrow> 'r run_state \<Rightarrow> bool" where
  "ends m s \<longleftrightarrow> snd (m s) \<noteq> Running"

named_theorems ends_rules "introduction rules for ends"

lemma ends_basic [ends_rules]:
  "ends (ret x) s" "ends (stop er) s" "ends (put_res f) s" "ends (persist on) s" "ends (ask g ev) s"
  by (simp_all add: ends_def ret_def stop_def put_res_def persist_def ask_def Let_def)

lemma ends_guard [ends_rules]: "ends (guard er b) s"
  by (simp add: guard_def ends_rules)

lemma ends_need [ends_rules]: "ends (need er x) s"
  by (simp add: need_def ends_rules split: option.split)

lemma ends_bind [ends_rules]: "ends m s \<Longrightarrow> (\<And>x s'. m s = (s', Ret x) \<Longrightarrow> ends (f x) s') \<Longrightarrow> ends (act_bind m f) s"
  by (auto simp: ends_def act_bind_def split: prod.splits xc_outcome.splits)

lemma ends_if [ends_rules]: "(b \<Longrightarrow> ends m s) \<Longrightarrow> (\<not> b \<Longrightarrow> ends m' s) \<Longrightarrow> ends (if b then m else m') s"
  by simp

lemma ends_attempt [ends_rules]: "ends m s \<Longrightarrow> ends (attempt m) s"
  by (auto simp: ends_def attempt_def split: prod.splits xc_outcome.splits)

lemma ends_call [ends_rules]:
  "ends (xc_Now e) s" "ends (xc_Sleep d) s" "ends (xc_Select e d) s" "ends (xc_Cancelled e) s" "ends (xc_Send e m) s" "ends (BtcTip e) s"
  "ends (SeqTip e) s" "ends (AnchorStatus e) s" "ends (BlockOnActiveChain e bh) s" "ends (BlockAnchorHeight e bh) s" "ends (BlockCertification e bh) s"
  "ends (BlockHashOfTx e txid) s" "ends (FeeRate e asset) s" "ends (WatchSEQClaim e leg) s" "ends (RefundSEQLeg e leg k l fee) s"
  "ends (SeqBroadcast e raw) s" "ends (ClaimBTCLeg e leg k fee) s"
  by (simp_all add: call_defs ends_rules)

lemma ends_sendXcFail [ends_rules]: "ends (sendXcFail e code) s"
  by (auto simp: sendXcFail_def intro!: ends_rules)

lemma ends_VerifySeqLegSafe [ends_rules]: "ends (VerifySeqLegSafe e bh h) s"
  by (auto simp: VerifySeqLegSafe_def Let_def intro!: ends_rules split: prod.split)

lemma ends_gate_pass [ends_rules]: "ends (gate_pass e txid h) s"
  by (auto simp: gate_pass_def intro!: ends_rules split: option.split sum.split)

lemma ends_fundWindow_check [ends_rules]: "ends (fundWindow_check e w) s"
  by (auto simp: fundWindow_check_def intro!: ends_rules)

lemma ends_claimWindow_closed [ends_rules]: "ends (claimWindow_closed e w) s"
  by (auto simp: claimWindow_closed_def intro!: ends_rules)

lemma ends_settle_claim [ends_rules]: "ends (settle_claim e sp secret) s"
  by (auto simp: settle_claim_def intro!: ends_rules split: option.split)

lemma ends_settle_refund [ends_rules]: "ends (settle_refund e sp) s"
  by (auto simp: settle_refund_def intro!: ends_rules split: option.split)

section \<open>Turns of a wait\<close>

fun is_turn :: "'r xc_event \<Rightarrow> bool" where
  "is_turn (EvSleep d) \<longleftrightarrow> True"
| "is_turn (EvSelect d b) \<longleftrightarrow> True"
| "is_turn ev \<longleftrightarrow> False"

definition turns :: "'r xc_event list \<Rightarrow> nat" where
  "turns t = length (filter is_turn t)"

lemma turns_append [simp]: "turns (t @ t') = turns t + turns t'"
  by (simp add: turns_def)

lemma turns_grow: "does P m \<Longrightarrow> m s = (s', x) \<Longrightarrow> turns (st_trace s) \<le> turns (st_trace s')"
  by (erule does_run) auto

text \<open>A clock-free deadline: from turn \<open>K\<close> on the predicate holds of every history.\<close>

definition by_turn :: "nat \<Rightarrow> ('r xc_event list \<Rightarrow> bool) \<Rightarrow> bool" where
  "by_turn K P \<longleftrightarrow> (\<forall>t. K \<le> turns t \<longrightarrow> P t)"

lemma by_turnD: "by_turn K P \<Longrightarrow> \<not> P t \<Longrightarrow> turns t < K"
  by (auto simp: by_turn_def not_le [symmetric])

lemma calm_read_turns:
  assumes "m s = (s', x)" and "does calm m"
  shows "turns (st_trace s) \<le> turns (st_trace s')"
  using turns_grow assms by blast

lemma gate_ends:
  assumes late: "by_turn K (\<lambda>t. near (xe_SeqTip e t) (cw_Margin w) (cw_SeqLocktime w))"
  shows "K - turns (st_trace s) < n \<Longrightarrow> ends (gateSeqLeg n e txid h w tm) s"
proof (induction n arbitrary: s)
  case (Suc n)
  show ?case unfolding gateSeqLeg.simps
  proof (rule ends_bind [OF ends_call(4)], simp, intro impI conjI ends_basic ends_bind [OF ends_gate_pass])
    fix c s1 r s2
    assume 1: "xc_Cancelled e s = (s1, Ret c)" and 2: "gate_pass e txid h s1 = (s2, Ret r)"
    have grown: "turns (st_trace s) \<le> turns (st_trace s2)"
      using turns_grow [OF read_calm(4) 1] turns_grow [OF gate_pass_calm 2] by simp
    show "ends (case r of None \<Rightarrow> act_bind (claimWindow_closed e w) (\<lambda>closed. case closed of None \<Rightarrow> act_bind (xc_Sleep (xt_Poll tm)) (\<lambda>_. gateSeqLeg n e txid h w tm)
        | Some er \<Rightarrow> stop er) | Some ev \<Rightarrow> ret ev) s2"
    proof (cases r)
      case None
      show ?thesis unfolding None option.case
      proof (rule ends_bind [OF ends_claimWindow_closed])
        fix closed s3
        assume 3: "claimWindow_closed e w s2 = (s3, Ret closed)"
        show "ends (case closed of None \<Rightarrow> act_bind (xc_Sleep (xt_Poll tm)) (\<lambda>_. gateSeqLeg n e txid h w tm) | Some er \<Rightarrow> stop er) s3"
        proof (cases closed)
          case None
          have "\<not> near (xe_SeqTip e (st_trace s2)) (cw_Margin w) (cw_SeqLocktime w)"
            using 3 None by (auto simp: claimWindow_closed_def act_bind_def SeqTip_def ask_def Let_def ret_def split: if_splits)
          then have "turns (st_trace s2) < K" by (rule by_turnD [OF late])
          moreover have "turns (st_trace s2) \<le> turns (st_trace s3)" by (rule turns_grow [OF claimWindow_closed_calm 3])
          ultimately show ?thesis unfolding None option.case using Suc.prems grown
            by (intro ends_bind [OF ends_call(2)] Suc.IH) (auto simp: xc_Sleep_def ask_def Let_def turns_def)
        qed (simp add: ends_rules)
      qed
    qed (simp add: ends_rules)
  qed
qed simp

definition fund_closed :: "'r xc_env \<Rightarrow> fund_window \<Rightarrow> 'r xc_event list \<Rightarrow> bool" where
  "fund_closed e w t \<longleftrightarrow> 0 < fw_SeqLocktime w \<and> 0 < fw_MinSeqClaimWindow w \<and> near (xe_SeqTip e t) (fw_MinSeqClaimWindow w) (fw_SeqLocktime w)"

lemma anchor_wait_ends:
  assumes late: "by_turn K (fund_closed e w)"
  shows "K - turns (st_trace s) < n \<Longrightarrow> ends (anchor_wait n k e target w tm) s"
proof (induction n arbitrary: s k)
  case (Suc n)
  have turn: "ends (case closed of None \<Rightarrow> act_bind (xc_Select e (xt_Poll tm)) (\<lambda>cancel. if cancel then stop XcCanceled else anchor_wait n k' e target w tm)
        | Some er \<Rightarrow> stop er) s3"
    if grown: "turns (st_trace s) \<le> turns (st_trace s2)" and 3: "fundWindow_check e w s2 = (s3, Ret closed)" for closed s2 s3 k'
  proof (cases closed)
    case None
    have "\<not> fund_closed e w (st_trace s2)"
      using 3 None by (auto simp: fund_closed_def fundWindow_check_def act_bind_def SeqTip_def ask_def Let_def ret_def split: if_splits)
    then have "turns (st_trace s2) < K" by (rule by_turnD [OF late])
    moreover have "turns (st_trace s2) \<le> turns (st_trace s3)" by (rule turns_grow [OF fundWindow_check_calm 3])
    ultimately show ?thesis unfolding None option.case using Suc.prems grown
      by (intro ends_bind [OF ends_call(3)]) (auto simp: xc_Select_def ask_def Let_def turns_def ends_rules intro!: Suc.IH)
  qed (simp add: ends_rules)
  have grown: "turns (st_trace s) \<le> turns (st_trace s2)" if "xc_Cancelled e s = (s1, Ret c)" "AnchorStatus e s1 = (s2, Ret st)" for c s1 s2 st
    using turns_grow [OF read_calm(4) that(1)] turns_grow [OF read_calm(12) that(2)] by simp
  show ?case unfolding anchor_wait.simps Let_def
    by (intro ends_bind [OF ends_call(4)] ends_bind [OF ends_call(8)] ends_bind [OF ends_fundWindow_check] ends_if ends_basic)
      (rule turn [OF grown], assumption+)
qed simp

section \<open>Settlement\<close>

text \<open>What the maker's settlement relies on once its asset leg has expired: the nodes answer, and take the refund or the claim.\<close>

definition settle_world :: "nat \<Rightarrow> maker_result xc_env \<Rightarrow> settle_params \<Rightarrow> bool" where
  "settle_world K e sp \<longleftrightarrow>
     by_turn K (\<lambda>t. near (xe_SeqTip e t) 0 (sp_SeqLocktime sp)) \<and>
     by_turn K (\<lambda>t. \<forall>leg k l fee. xe_RefundSEQLeg e t leg k l fee \<noteq> None) \<and>
     by_turn K (\<lambda>t. \<forall>raw. xe_SeqBroadcast e t raw \<noteq> None) \<and>
     by_turn K (\<lambda>t. \<forall>leg k fee. xe_ClaimBTCLeg e t leg k fee \<noteq> None)"

lemmas run_defs = act_bind_def ask_def Let_def ret_def stop_def guard_def persist_def put_res_def sendXcFail_def call_defs

lemma turns_Nil_Cons [simp]: "turns [] = 0" "turns (ev # t) = (if is_turn ev then 1 else 0) + turns t"
  by (simp_all add: turns_def)

lemma settle_worldD:
  assumes "settle_world K e sp"
  shows "\<not> near (xe_SeqTip e t) 0 (sp_SeqLocktime sp) \<Longrightarrow> turns t < K" "xe_RefundSEQLeg e t leg k l fee = None \<Longrightarrow> turns t < K"
    "xe_SeqBroadcast e t raw = None \<Longrightarrow> turns t < K" "xe_ClaimBTCLeg e t leg k fee = None \<Longrightarrow> turns t < K"
  using assms unfolding settle_world_def by_turn_def by (metis not_le)+

lemma settle_claim_again:
  assumes "settle_world K e sp" and "settle_claim e sp secret s = (s', Ret False)"
  shows "turns (st_trace s) < K \<and> turns (st_trace s) \<le> turns (st_trace s')"
  using assms(2) by (auto simp: settle_claim_def run_defs split: if_splits option.splits dest!: settle_worldD [OF assms(1)])

lemma settle_refund_again:
  assumes "settle_world K e sp" and "settle_refund e sp s = (s', Ret x)"
  shows "turns (st_trace s) < K \<and> turns (st_trace s) \<le> turns (st_trace s')"
  using assms(2) by (auto simp: settle_refund_def run_defs split: if_splits option.splits dest!: settle_worldD [OF assms(1)])


lemma settle_loop_ends:
  assumes world: "settle_world K e sp"
  shows "K - turns (st_trace s) < n \<Longrightarrow> ends (settle_loop n e sp) s"
proof (induction n arbitrary: s)
  case (Suc n)
  have again: "ends (if finished then ret () else act_bind (xc_Sleep (sp_Poll sp)) (\<lambda>_. settle_loop n e sp)) s2"
    if "\<not> finished \<Longrightarrow> turns (st_trace s) < K \<and> turns (st_trace s) \<le> turns (st_trace s2)" for finished s2
    using that Suc.prems by (intro ends_if ends_basic ends_bind [OF ends_call(2)] Suc.IH) (auto simp: xc_Sleep_def ask_def)
  have look: "turns (st_trace s1) = turns (st_trace s)" if "WatchSEQClaim e (sp_SeqLeg sp) s = (s1, Ret r)" for s1 r
    using that by (auto simp: WatchSEQClaim_def ask_def Let_def)
  have refund: "turns (st_trace s1) < K \<and> turns (st_trace s1) \<le> turns (st_trace s2)"
    if "act_bind (settle_refund e sp) (\<lambda>_. ret False) s1 = (s2, Ret finished)" for s1 s2 finished
    using that settle_refund_again [OF world] by (auto simp: act_bind_def ret_def split: prod.splits xc_outcome.splits)
  show ?case unfolding settle_loop.simps
  proof (rule ends_bind [OF ends_call(14)], rule ends_bind)
    fix r s1
    show "ends (case r of Some (_, secret) \<Rightarrow> if secret \<noteq> [] then settle_claim e sp secret else act_bind (settle_refund e sp) (\<lambda>_. ret False)
        | None \<Rightarrow> act_bind (settle_refund e sp) (\<lambda>_. ret False)) s1"
      by (auto intro!: ends_rules split: option.split)
  next
    fix r s1 finished s2
    assume 1: "WatchSEQClaim e (sp_SeqLeg sp) s = (s1, Ret r)"
      and 2: "(case r of Some (_, secret) \<Rightarrow> if secret \<noteq> [] then settle_claim e sp secret else act_bind (settle_refund e sp) (\<lambda>_. ret False)
        | None \<Rightarrow> act_bind (settle_refund e sp) (\<lambda>_. ret False)) s1 = (s2, Ret finished)"
    show "ends (if finished then ret () else act_bind (xc_Sleep (sp_Poll sp)) (\<lambda>_. settle_loop n e sp)) s2"
    proof (rule again)
      assume "\<not> finished"
      then show "turns (st_trace s) < K \<and> turns (st_trace s) \<le> turns (st_trace s2)" unfolding look [OF 1, symmetric]
        using 2 by (auto split: option.splits prod.splits if_splits dest: refund settle_claim_again [OF world])
    qed
  qed
qed simp

text \<open>How a settlement may end: with the claim of the bitcoin leg (\<open>None\<close>), or with one of three errors.\<close>

fun settle_end :: "(bytes \<Rightarrow> bytes) \<Rightarrow> settle_params \<Rightarrow> maker_result run_state \<Rightarrow> xc_error option \<Rightarrow> bool" where
  "settle_end sha256 sp s None \<longleftrightarrow> mr_Settled (st_res s) \<and>
     (\<exists>fee. EvClaimBTC (sp_BtcLeg sp) (sp_BtcClaimKey sp) fee (Some (mr_BtcClaimTxid (st_res s))) \<in> set (st_trace s))"
| "settle_end sha256 sp s (Some XcRefunded) \<longleftrightarrow>
     (\<exists>fee raw. EvRefundSEQ (sp_SeqLeg sp) (sp_SeqRefundKey sp) (sp_SeqLocktime sp) fee (Some raw) \<in> set (st_trace s) \<and>
       EvSeqBroadcast raw (Some (mr_SeqRefundTx (st_res s))) \<in> set (st_trace s))"
| "settle_end sha256 sp s (Some SecretRejected) \<longleftrightarrow>
     (\<exists>txid secret. EvWatchSEQ (sp_SeqLeg sp) (Some (txid, secret)) \<in> set (st_trace s) \<and> secret \<noteq> [] \<and> \<not> InjectSecret sha256 (sp_Hash sp) secret)"
| "settle_end sha256 sp s (Some BtcClaimFailing) \<longleftrightarrow>
     (\<exists>tip. EvBtcTip (Some tip) \<in> set (st_trace s) \<and> sp_BtcLocktime sp - 6 \<le> of_int tip)"
| "settle_end sha256 sp s (Some _) \<longleftrightarrow> False"

lemma settle_claim_end:
  assumes "settle_claim e sp secret s = (s', r)" and "EvWatchSEQ (sp_SeqLeg sp) (Some (txid, secret)) \<in> set (st_trace s)" and "secret \<noteq> []"
  shows "r = Ret False \<or> (r = Ret True \<and> settle_end (xe_sha256 e) sp s' None) \<or> (\<exists>er. r = Fail er \<and> settle_end (xe_sha256 e) sp s' (Some er))"
  using assms by (auto simp: settle_claim_def run_defs split: if_splits option.splits) blast+

lemma settle_refund_end:
  assumes "settle_refund e sp s = (s', r)"
  shows "r = Ret () \<or> (\<exists>er. r = Fail er \<and> settle_end (xe_sha256 e) sp s' (Some er))"
  using assms by (auto simp: settle_refund_def run_defs split: if_splits option.splits) blast+

lemma settle_loop_outcome:
  "settle_loop n e sp s = (s', r) \<Longrightarrow>
    r = Running \<or> (r = Ret () \<and> settle_end (xe_sha256 e) sp s' None) \<or> (\<exists>er. r = Fail er \<and> settle_end (xe_sha256 e) sp s' (Some er))"
proof (induction n arbitrary: s)
  case (Suc n)
  define pass where "pass = (\<lambda>v :: (string \<times> bytes) option. case v of Some (_, secret) \<Rightarrow> if secret \<noteq> [] then settle_claim e sp secret else act_bind (settle_refund e sp) (\<lambda>_. ret False)
        | None \<Rightarrow> act_bind (settle_refund e sp) (\<lambda>_. ret False))"
  define v where "v = xe_WatchSEQClaim e (st_trace s) (sp_SeqLeg sp)"
  obtain s2 q where q: "pass v (s\<lparr>st_trace := st_trace s @ [EvWatchSEQ (sp_SeqLeg sp) v]\<rparr>) = (s2, q)" by fastforce
  have refund: "q = Ret False \<or> (\<exists>er. q = Fail er \<and> settle_end (xe_sha256 e) sp s2 (Some er))"
    if "act_bind (settle_refund e sp) (\<lambda>_. ret False) s1 = (s2, q)" for s1
    using that by (auto simp: act_bind_def ret_def split: prod.splits xc_outcome.splits dest!: settle_refund_end)
  have one: "q = Ret False \<or> (q = Ret True \<and> settle_end (xe_sha256 e) sp s2 None) \<or> (\<exists>er. q = Fail er \<and> settle_end (xe_sha256 e) sp s2 (Some er))"
    using q unfolding pass_def by (auto split: option.splits prod.splits if_splits dest: refund settle_claim_end)
  have look: "WatchSEQClaim e (sp_SeqLeg sp) s = (s\<lparr>st_trace := st_trace s @ [EvWatchSEQ (sp_SeqLeg sp) v]\<rparr>, Ret v)"
    by (simp add: v_def WatchSEQClaim_def ask_def Let_def)
  have again: "act_bind (xc_Sleep (sp_Poll sp)) (\<lambda>_. settle_loop n e sp) s2 = settle_loop n e sp (s2\<lparr>st_trace := st_trace s2 @ [EvSleep (sp_Poll sp)]\<rparr>)"
    by (simp add: act_bind_def xc_Sleep_def ask_def)
  have "act_bind (pass v) (\<lambda>finished. if finished then ret () else act_bind (xc_Sleep (sp_Poll sp)) (\<lambda>_. settle_loop n e sp))
      (s\<lparr>st_trace := st_trace s @ [EvWatchSEQ (sp_SeqLeg sp) v]\<rparr>) = (s', r)"
    using Suc.prems by (simp add: pass_def bind_run [of "WatchSEQClaim e (sp_SeqLeg sp)", OF look])
  then have "(case q of Ret x \<Rightarrow> (if x then ret () else act_bind (xc_Sleep (sp_Poll sp)) (\<lambda>_. settle_loop n e sp)) s2
      | Fail er \<Rightarrow> (s2, Fail er) | Running \<Rightarrow> (s2, Running)) = (s', r)"
    by (simp add: act_bind_def [of "pass v"] q)
  with one show ?case using Suc.IH by (auto simp: ret_def again)
qed (simp add: running_def)

text \<open>C13: the maker's settlement completes: if from some turn on the tip has reached the lock time of its asset leg and the nodes take its
  transactions, then within one turn more it has claimed the bitcoin leg, or has refunded its asset with a broadcast transaction, or has stopped
  because the chain showed a secret of another hash, or because the claim failed within six blocks of the taker's refund; the result record names the
  transaction. It never waits longer.\<close>

theorem settlement_completes:
  assumes "settle_world K e sp" and "K < n"
  shows "case settleMakerForward n e sp s of
      (s', Ret ()) \<Rightarrow> settle_end (xe_sha256 e) sp s' None
    | (s', Fail er) \<Rightarrow> settle_end (xe_sha256 e) sp s' (Some er)
    | (s', Running) \<Rightarrow> False"
proof -
  obtain poll where poll: "settleMakerForward n e sp = settle_loop n e (sp\<lparr>sp_Poll := poll\<rparr>)" unfolding settleMakerForward_def by blast
  have world: "settle_world K e (sp\<lparr>sp_Poll := poll\<rparr>)" using assms(1) by (simp add: settle_world_def)
  obtain s' r where run: "settle_loop n e (sp\<lparr>sp_Poll := poll\<rparr>) s = (s', r)" by fastforce
  have same: "settle_end h (sp\<lparr>sp_Poll := poll\<rparr>) u x = settle_end h sp u x" for h u x
    by (cases "(h, sp, u, x)" rule: settle_end.cases) simp_all
  have "r \<noteq> Running" using settle_loop_ends [OF world, of s n] assms(2) run by (simp add: ends_def)
  then consider "r = Ret ()" "settle_end (xe_sha256 e) sp s' None" | er where "r = Fail er" "settle_end (xe_sha256 e) sp s' (Some er)"
    using settle_loop_outcome [OF run] same by blast
  then show ?thesis by cases (simp_all only: poll run prod.case xc_outcome.simps unit.case)
qed

text \<open>An environment in which nothing answers, and one in which the maker's lock time passes at the third turn.\<close>

definition silent_env :: "'r xc_env" where
  "silent_env = \<lparr>xe_sha256 = rev, xe_Now = (\<lambda>_. 0), xe_Select = (\<lambda>_ _. False), xe_Cancelled = (\<lambda>_. False), xe_Send = (\<lambda>_ _. False),
     xe_Recv = (\<lambda>_ _. RecvError), xe_NewKey = (\<lambda>_. None), xe_NewOps = (\<lambda>_ _. False), xe_BtcTip = (\<lambda>_. None), xe_BtcConfirmations = (\<lambda>_ _. None),
     xe_LockBTCLeg = (\<lambda>_ _ _ _ _. None), xe_VerifyBTCLeg = (\<lambda>_ _. Inl LegReadError), xe_ClaimBTCLeg = (\<lambda>_ _ _ _. None),
     xe_RefundBTCLeg = (\<lambda>_ _ _ _ _. None), xe_SeqTip = (\<lambda>_. None), xe_AnchorStatus = (\<lambda>_. None), xe_BlockOnActiveChain = (\<lambda>_ _. None),
     xe_BlockAnchorHeight = (\<lambda>_ _. None), xe_BlockCertification = (\<lambda>_ _. None), xe_BlockHashOfTx = (\<lambda>_ _. None), xe_FeeRate = (\<lambda>_ _. None),
     xe_LockSEQLeg = (\<lambda>_ _ _ _ _ _. SeqLockFailed), xe_VerifySEQLeg = (\<lambda>_ _. Inl LegReadError), xe_ClaimSEQLeg = (\<lambda>_ _ _ _. None),
     xe_WatchSEQClaim = (\<lambda>_ _. None), xe_RefundSEQLeg = (\<lambda>_ _ _ _ _. None), xe_SeqBroadcast = (\<lambda>_ _. None)\<rparr>"

definition ticking_env :: "'r xc_env" where
  "ticking_env = silent_env\<lparr>xe_SeqTip := (\<lambda>t. Some (if turns t < 3 then int (turns t) else 3)), xe_BtcTip := (\<lambda>t. Some (if turns t < 3 then int (turns t) else 3)),
     xe_RefundSEQLeg := (\<lambda>_ _ _ _ _. Some ''raw''), xe_SeqBroadcast := (\<lambda>_ _. Some ''refund''), xe_ClaimBTCLeg := (\<lambda>_ _ _ _. Some ''claim''),
     xe_RefundBTCLeg := (\<lambda>_ _ _ _ _. Some ''refund'')\<rparr>"

definition some_key :: xkey where "some_key = \<lparr>k_Bytes = replicate 32 1, k_PubKey = replicate 33 2\<rparr>"

definition some_timing :: xc_timing where
  "some_timing = setDefaults \<lparr>xt_Poll = 0, xt_TermsWait = 0, xt_BtcConfWait = 0, xt_SeqLockWait = 0, xt_AnchorWait = 0, xt_TermsReqWait = 0, xt_BtcFundWait = 0\<rparr>"

definition some_leg :: leg_lock where
  "some_leg = \<lparr>ll_Script = [1, 2], ll_Funded = \<lparr>fh_TxID = ''tx'', fh_Vout = 0, fh_Amount = 100000, fh_AssetID = []\<rparr>, ll_Locktime = 3\<rparr>"

definition some_settlement :: settle_params where
  "some_settlement = \<lparr>sp_Hash = replicate 32 0, sp_BtcLeg = some_leg, sp_SeqLeg = some_leg, sp_BtcClaimKey = some_key, sp_SeqRefundKey = some_key,
     sp_BtcLocktime = 100, sp_SeqLocktime = 3, sp_AssetHex = ''aa'', sp_BtcAmount = 100000, sp_SeqAmount = 5000, sp_SpendFeeSats = 1000, sp_Poll = 1,
     sp_Note = False, sp_OnUpdate = True\<rparr>"

lemma ticking_settle_world: "settle_world 3 ticking_env some_settlement"
  by (simp add: settle_world_def by_turn_def ticking_env_def some_settlement_def near_def)

theorem settlement_completes_witness:
  "settle_world 3 ticking_env some_settlement \<and>
   (case settleMakerForward 4 ticking_env some_settlement maker_start of
      (s', Ret ()) \<Rightarrow> settle_end (xe_sha256 (ticking_env :: maker_result xc_env)) some_settlement s' None
    | (s', Fail er) \<Rightarrow> settle_end (xe_sha256 (ticking_env :: maker_result xc_env)) some_settlement s' (Some er)
    | (s', Running) \<Rightarrow> False)"
proof (rule conjI)
  show "settle_world 3 ticking_env some_settlement" by (rule ticking_settle_world)
  have "(3 :: nat) < 4" by simp
  from settlement_completes [OF ticking_settle_world this, of maker_start]
  show "case settleMakerForward 4 ticking_env some_settlement maker_start of
      (s', Ret ()) \<Rightarrow> settle_end (xe_sha256 (ticking_env :: maker_result xc_env)) some_settlement s' None
    | (s', Fail er) \<Rightarrow> settle_end (xe_sha256 (ticking_env :: maker_result xc_env)) some_settlement s' (Some er)
    | (s', Running) \<Rightarrow> False" .
qed

text \<open>C26: the waits on the anchor end by the chain: once the tip of the asset chain has come within the margin of the lock time, at turn \<open>K\<close>, the
  taker's anchor gate and the maker's anchor precondition have returned, whatever the nodes answered before.\<close>

theorem swap_waits_end:
  assumes "by_turn K (\<lambda>t. near (xe_SeqTip e t) margin locktime)" and "K < n" and "0 < locktime" and "0 < margin"
  shows "ends (gateSeqLeg n e txid h \<lparr>cw_SeqLocktime = locktime, cw_Margin = margin\<rparr> tm) s \<and>
    ends (waitSeqAnchorReachesBTCLeg n e target
      \<lparr>fw_SeqLocktime = locktime, fw_MinSeqClaimWindow = margin, fw_BtcLocktime = btcLocktime, fw_MinBtcClaimWindow = btcMargin\<rparr> tm) s"
  unfolding waitSeqAnchorReachesBTCLeg_def using assms
  by (intro conjI gate_ends [of K] anchor_wait_ends [of K]) (auto simp: by_turn_def fund_closed_def)

lemma ticking_near: "by_turn 2 (\<lambda>t. near (xe_SeqTip ticking_env t) 1 3)"
  unfolding by_turn_def
proof (intro allI impI)
  fix t :: "'a xc_event list"
  assume "2 \<le> turns t"
  then consider "turns t = 2" | "\<not> turns t < 3" by linarith
  then show "near (xe_SeqTip ticking_env t) 1 3" by cases (simp_all add: ticking_env_def near_def)
qed

theorem swap_waits_end_witness:
  "by_turn 2 (\<lambda>t. near (xe_SeqTip (ticking_env :: taker_result xc_env) t) 1 3) \<and>
   ends (gateSeqLeg 3 (ticking_env :: taker_result xc_env) ''tx'' 7 \<lparr>cw_SeqLocktime = 3, cw_Margin = 1\<rparr> some_timing) taker_start"
  using swap_waits_end [OF ticking_near, of 3 "''tx''" 7 some_timing taker_start] ticking_near by simp

section \<open>The taker's refund\<close>

lemma refund_wait_due:
  "refund_wait n e locktime wait poll s = (s', r) \<Longrightarrow>
    \<exists>es. st_trace s' = st_trace s @ es \<and> list_all calm es \<and>
      (r = Ret () \<longrightarrow> (\<exists>es' tip. es = es' @ [EvBtcTip (Some tip)] \<and> locktime \<le> of_int tip))"
proof (induction n arbitrary: s)
  case (Suc n)
  show ?case
  proof (cases "xe_BtcTip e (st_trace s)")
    case (Some tip)
    let ?s = "s\<lparr>st_trace := st_trace s @ [EvBtcTip (Some tip)]\<rparr>"
    have "refund_wait (Suc n) e locktime wait poll s = (if locktime \<le> of_int tip then (?s, Ret ()) else if \<not> wait then (?s, Fail RefundNotDue)
        else refund_wait n e locktime wait poll (s\<lparr>st_trace := st_trace s @ [EvBtcTip (Some tip), EvSleep poll]\<rparr>))"
      by (simp add: run_defs need_def Some)
    with Suc.prems have go: "(s', r) = (if locktime \<le> of_int tip then (?s, Ret ()) else if \<not> wait then (?s, Fail RefundNotDue)
        else refund_wait n e locktime wait poll (s\<lparr>st_trace := st_trace s @ [EvBtcTip (Some tip), EvSleep poll]\<rparr>))" by simp
    show ?thesis
    proof (cases "locktime \<le> of_int tip \<or> \<not> wait")
      case False
      then have "refund_wait n e locktime wait poll (s\<lparr>st_trace := st_trace s @ [EvBtcTip (Some tip), EvSleep poll]\<rparr>) = (s', r)" using go by auto
      from Suc.IH [OF this] obtain es where "st_trace s' = st_trace s @ [EvBtcTip (Some tip), EvSleep poll] @ es" "list_all calm es"
          "r = Ret () \<longrightarrow> (\<exists>es' tip. es = es' @ [EvBtcTip (Some tip)] \<and> locktime \<le> of_int tip)" by auto
      then show ?thesis by (intro exI [of _ "[EvBtcTip (Some tip), EvSleep poll] @ es"]) auto
    qed (use go in \<open>auto split: if_splits\<close>)
  qed (use Suc.prems in \<open>auto simp: run_defs need_def\<close>)
qed (simp add: running_def)

lemma refund_wait_returns:
  assumes answers: "\<And>t. xe_BtcTip e t \<noteq> None" and late: "by_turn K (\<lambda>t. locktime \<le> of_int (the (xe_BtcTip e t)))"
  shows "K - turns (st_trace s) < n \<Longrightarrow> \<exists>s'. refund_wait n e locktime True poll s = (s', Ret ())"
proof (induction n arbitrary: s)
  case (Suc n)
  obtain tip where tip: "xe_BtcTip e (st_trace s) = Some tip" using answers by blast
  show ?case
  proof (cases "locktime \<le> of_int tip")
    case False
    then have "turns (st_trace s) < K" using by_turnD [OF late, of "st_trace s"] tip by simp
    then have "K - turns (st_trace (s\<lparr>st_trace := st_trace s @ [EvBtcTip (Some tip), EvSleep poll]\<rparr>)) < n" using Suc.prems by simp
    from Suc.IH [OF this] show ?thesis using False tip by (simp add: run_defs need_def)
  qed (simp add: run_defs need_def tip)
qed simp

text \<open>C24: the taker's refund completes, and only when it is due: if the bitcoin node answers, the tip reaches the lock time by turn \<open>K\<close> and the node takes the
  transaction, then waiting for the refund returns its transaction; the refund is the last thing that happens, with the lock time of the leg, and comes right
  after a tip that has reached it.\<close>

theorem taker_refund_completes:
  assumes "\<forall>t. xe_BtcTip e t \<noteq> None" and "by_turn K (\<lambda>t. locktime \<le> of_int (the (xe_BtcTip e t)))" and "K < n"
    and "\<forall>t fee. xe_RefundBTCLeg e t leg key locktime fee = Some txid"
  shows "\<exists>s' es tip fee. RefundTakerOnchainLeg n e leg key locktime spendFee True poll s = (s', Ret txid) \<and>
    st_trace s' = st_trace s @ es @ [EvBtcTip (Some tip), EvRefundBTC leg key locktime fee (Some txid)] \<and> list_all calm es \<and>
    locktime \<le> of_int tip \<and> fee \<le> fh_Amount (ll_Funded leg) div 2"
proof -
  define poll' where "poll' = (if poll \<le> 0 then 15 * Second else poll)"
  obtain s1 where wait: "refund_wait n e locktime True poll' s = (s1, Ret ())"
    using refund_wait_returns [OF _ assms(2), of s n poll'] assms(1,3) by (meson diff_le_self le_less_trans)
  obtain es tip where tr: "st_trace s1 = st_trace s @ es @ [EvBtcTip (Some tip)]" "list_all calm es" "locktime \<le> of_int tip"
    using refund_wait_due [OF wait] by auto
  define fee where "fee = xcSafeFee (if spendFee = 0 then 1000 else spendFee) (fh_Amount (ll_Funded leg))"
  have "RefundTakerOnchainLeg n e leg key locktime spendFee True poll s
      = (s1\<lparr>st_trace := st_trace s1 @ [EvRefundBTC leg key locktime fee (Some txid)]\<rparr>, Ret txid)"
    unfolding RefundTakerOnchainLeg_def poll'_def [symmetric] fee_def [symmetric]
    by (simp add: act_bind_def [of "refund_wait n e locktime True poll'"] wait) (simp add: run_defs need_def assms(4))
  moreover have "fee \<le> fh_Amount (ll_Funded leg) div 2" by (auto simp: fee_def xcSafeFee_def Let_def not_less)
  ultimately show ?thesis using tr
    by (intro exI [of _ "s1\<lparr>st_trace := st_trace s1 @ [EvRefundBTC leg key locktime fee (Some txid)]\<rparr>"] exI [of _ es] exI [of _ tip] exI [of _ fee]) simp
qed

lemma ticking_tip: "by_turn 3 (\<lambda>t. (3 :: u32) \<le> of_int (the (xe_BtcTip ticking_env t)))"
  by (simp add: by_turn_def ticking_env_def)

theorem taker_refund_completes_witness:
  "\<exists>s' es tip fee. RefundTakerOnchainLeg 4 ticking_env some_leg some_key 3 0 True 0 taker_start = (s', Ret ''refund'') \<and>
    st_trace s' = es @ [EvBtcTip (Some tip), EvRefundBTC some_leg some_key 3 fee (Some ''refund'')] \<and> fee \<le> 50000"
proof -
  have "\<forall>t :: taker_result xc_event list. xe_BtcTip ticking_env t \<noteq> None"
    "\<forall>(t :: taker_result xc_event list) fee. xe_RefundBTCLeg ticking_env t some_leg some_key 3 fee = Some ''refund''"
    by (simp_all add: ticking_env_def)
  from taker_refund_completes [OF this(1) ticking_tip _ this(2), of 4 0 0 taker_start]
  show ?thesis by (auto simp: some_leg_def taker_start_def)
qed

section \<open>Two honest sides\<close>

lemma whole_price [simp]: "ProportionalBtc b a a = Some b"
  by (simp add: ProportionalBtc_def)

lemma hex_key_pub [simp]: "length b = 33 \<Longrightarrow> hex_key (hex_EncodeToString b) = Some b"
  by (simp add: hex_key_def hex_Decode_Encode)

text \<open>Everything that the taker checks of the maker's terms before it funds, as \<open>RunTakerForward\<close> composes it, and everything that the maker checks of the
  taker's announcement before it looks at the chain, as \<open>RunMakerForward\<close> composes it.\<close>

definition taker_accepts :: "taker_result xc_env \<Rightarrow> taker_params \<Rightarrow> xc_msg \<Rightarrow> (taker_result, u64 \<times> u64 \<times> bytes \<times> bytes) act" where
  "taker_accepts e p terms =
     act_bind (taker_bind e p terms) (\<lambda>(takeSeq, fundBtc).
     act_bind (need XcBadTerms (hex_key (xm_MakerBtcClaimPub terms))) (\<lambda>makerBtcClaimPub.
     act_bind (need XcBadTerms (hex_key (xm_MakerRefundPub terms))) (\<lambda>makerSeqRefundPub.
     act_bind (taker_locktimes e p terms) (\<lambda>_. ret (takeSeq, fundBtc, makerBtcClaimPub, makerSeqRefundPub)))))"

definition maker_accepts :: "maker_result xc_env \<Rightarrow> maker_params \<Rightarrow> xc_msg \<Rightarrow> (maker_result, bytes \<times> bytes \<times> bytes \<times> u64 \<times> u64 \<times> xc_leg \<times> bytes) act" where
  "maker_accepts e p funded =
     act_bind (maker_announced e p funded) (\<lambda>(hashH, claimPub, refundPub, takeSeq, wantBtc, leg).
     act_bind (maker_slice e p hashH takeSeq wantBtc leg) (\<lambda>script. ret (hashH, claimPub, refundPub, takeSeq, wantBtc, leg, script)))"

definition slice_taken :: "taker_params \<Rightarrow> u64" where
  "slice_taken p = (if tf_TakeSeqAmount p = 0 then tf_ExpectSeqAmount p else tf_TakeSeqAmount p)"

lemma taker_bind_accepts:
  assumes "slice_taken p \<le> tf_ExpectSeqAmount p"
    and "ProportionalBtc (tf_ExpectBtcAmount p) (slice_taken p) (tf_ExpectSeqAmount p) = Some price" "price \<noteq> 0"
    and "xm_SeqAmount terms = slice_taken p" "xm_BtcAmount terms = price" "xm_FeeBtc terms \<le> tf_MaxFeeBtc p"
    and "slice_taken p < tf_ExpectSeqAmount p \<Longrightarrow> MinSafeBtcLegSats (tf_SpendFeeSats p) \<le> price \<and>
      (\<forall>t. minSafeAssetLeg (xe_FeeRate e t (tf_ExpectAsset p)) (tf_SpendFeeSats p) \<le> slice_taken p)"
  shows "\<exists>s'. taker_bind e p terms s = (s', Ret (slice_taken p, price))"
proof (cases "slice_taken p < tf_ExpectSeqAmount p")
  case True
  then show ?thesis
    using assms by (simp add: taker_bind_def slice_taken_def [symmetric] check_def run_defs need_def minSafeBtcErr_def minSafeAssetErr_def not_le)
next
  case False
  then show ?thesis
    using assms by (simp add: taker_bind_def slice_taken_def [symmetric] check_def run_defs need_def minSafeBtcErr_def minSafeAssetErr_def)
qed

lemma taker_locktimes_accepts:
  assumes "\<forall>t. \<exists>tip. xe_BtcTip e t = Some tip \<and> of_int tip < xm_BtcLocktime terms \<and> xm_BtcLocktime terms \<le> of_int tip + tf_MaxBtcLockDelta p"
    and "\<forall>t. \<exists>tip. xe_SeqTip e t = Some tip \<and> of_int tip + tf_MinSeqClaimWindow p \<le> xm_SeqLocktime terms"
  shows "\<exists>s'. taker_locktimes e p terms s = (s', Ret ())"
proof -
  obtain b where b: "xe_BtcTip e (st_trace s) = Some b" "of_int b < xm_BtcLocktime terms" "xm_BtcLocktime terms \<le> of_int b + tf_MaxBtcLockDelta p"
    using assms(1) by blast
  obtain q where q: "xe_SeqTip e (st_trace s @ [EvBtcTip (Some b)]) = Some q" "of_int q + tf_MinSeqClaimWindow p \<le> xm_SeqLocktime terms"
    using assms(2) by blast
  from b q show ?thesis by (simp add: taker_locktimes_def check_def run_defs need_def)
qed

text \<open>C25: two honest sides agree. Let a maker quote a slice of an offer at the offer's price for it, not zero, with a fee within the taker's limit, under keys
  of 33 bytes, with lock times within the taker's bounds at every tip it may read; and if the slice is not the whole offer, let both of its legs be at
  or above the taker's safe minimum. Then the taker of that slice accepts the terms: slice and price, both keys and both lock times. And the
  taker's announcement of a leg funded with that price, under keys of 33 bytes and a hash of 32, passes all of the maker's checks, once its engine starts, with the
  same slice, the same price, the hash of the taker's secret, the taker's keys and the leg's own script.\<close>

theorem handshake_agrees:
  assumes slice: "slice_taken p \<le> tf_ExpectSeqAmount p"
    and price: "ProportionalBtc (tf_ExpectBtcAmount p) (slice_taken p) (tf_ExpectSeqAmount p) = Some price" "price \<noteq> 0"
    and quote: "mf_SeqAmount mp = slice_taken p" "mf_BtcAmount mp = price" "mf_FeeBtc mp \<le> tf_MaxFeeBtc p"
    and large: "slice_taken p < tf_ExpectSeqAmount p \<Longrightarrow> MinSafeBtcLegSats (tf_SpendFeeSats p) \<le> price \<and>
      (\<forall>t. minSafeAssetLeg (xe_FeeRate e t (tf_ExpectAsset p)) (tf_SpendFeeSats p) \<le> slice_taken p)"
    and makerKeys: "length (k_PubKey btcClaim) = 33" "length (k_PubKey seqRefund) = 33"
    and locks: "\<forall>t. \<exists>tip. xe_BtcTip e t = Some tip \<and> of_int tip < btcLocktime \<and> btcLocktime \<le> of_int tip + tf_MaxBtcLockDelta p"
      "\<forall>t. \<exists>tip. xe_SeqTip e t = Some tip \<and> of_int tip + tf_MinSeqClaimWindow p \<le> seqLocktime"
    and keys: "length (k_PubKey claimKey) = 33" "length (k_PubKey refundKey) = 33" "length hashH = 32"
    and funded: "fh_Amount (ll_Funded btcLeg) = price" and ops: "\<forall>t. xe_NewOps e' t hashH"
  shows "snd (taker_accepts e p (maker_terms mp btcClaim seqRefund btcLocktime seqLocktime) s) =
      Ret (slice_taken p, price, k_PubKey btcClaim, k_PubKey seqRefund) \<and>
    (\<exists>leg. snd (maker_accepts e' mp (taker_announce hashH claimKey refundKey (slice_taken p) price btcLeg btcLocktime hp) s') =
      Ret (hashH, k_PubKey claimKey, k_PubKey refundKey, slice_taken p, price, leg, ll_Script btcLeg) \<and>
      xl_Txid leg = fh_TxID (ll_Funded btcLeg) \<and> xl_Amount leg = price)"
proof
  let ?terms = "maker_terms mp btcClaim seqRefund btcLocktime seqLocktime"
  obtain s1 where bind: "taker_bind e p ?terms s = (s1, Ret (slice_taken p, price))"
    using taker_bind_accepts [of p price ?terms e s] slice price quote large by (auto simp: maker_terms_def)
  obtain s2 where "taker_locktimes e p ?terms s1 = (s2, Ret ())"
    using taker_locktimes_accepts [of e ?terms p s1] locks by (auto simp: maker_terms_def)
  moreover have terms_keys: "xm_MakerBtcClaimPub ?terms = hex_EncodeToString (k_PubKey btcClaim)"
      "xm_MakerRefundPub ?terms = hex_EncodeToString (k_PubKey seqRefund)" by (simp_all add: maker_terms_def)
  ultimately show "snd (taker_accepts e p ?terms s) = Ret (slice_taken p, price, k_PubKey btcClaim, k_PubKey seqRefund)"
    using bind makerKeys by (simp add: taker_accepts_def act_bind_def need_def ret_def)
  show "\<exists>leg. snd (maker_accepts e' mp (taker_announce hashH claimKey refundKey (slice_taken p) price btcLeg btcLocktime hp) s') =
      Ret (hashH, k_PubKey claimKey, k_PubKey refundKey, slice_taken p, price, leg, ll_Script btcLeg) \<and>
      xl_Txid leg = fh_TxID (ll_Funded btcLeg) \<and> xl_Amount leg = price"
    using quote keys funded ops
    by (simp add: maker_accepts_def maker_announced_def maker_slice_def taker_announce_def check_def run_defs need_def hex_Decode_Encode
        minSafeBtcErr_def minSafeAssetErr_def)
qed

definition some_taker :: taker_params where
  "some_taker = \<lparr>tf_Secret = replicate 32 7, tf_BtcRefundKey = Some some_key, tf_SeqClaimKey = Some some_key, tf_ExpectAsset = ''aa'',
     tf_ExpectSeqAmount = 1000000, tf_ExpectBtcAmount = 100001, tf_MaxFeeBtc = 10, tf_TakeSeqAmount = 300000, tf_MaxBtcLockDelta = 0,
     tf_MinSeqClaimWindow = 0, tf_SeqClaimMargin = 0, tf_MinBTCConf = 1, tf_SpendFeeSats = 1000, tf_Timing = some_timing, tf_OnBtcLegFunded = True\<rparr>"

definition some_maker :: maker_params where
  "some_maker = \<lparr>mf_AssetHex = ''aa'', mf_SeqAmount = 300000, mf_BtcAmount = 30001, mf_FeeBtc = 0, mf_BtcLocktimeDelta = 0, mf_SeqLocktimeDelta = 0,
     mf_MinBTCConf = 1, mf_SpendFeeSats = 1000, mf_MinSeqClaimWindow = 0, mf_MinBtcClaimWindow = 0, mf_Timing = some_timing, mf_OnUpdate = True\<rparr>"

text \<open>A taker of a whole offer against a maker that keeps its word, on chains that move on: the run pays, sees the asset leg and claims it.\<close>

definition paid :: "'r xc_event list \<Rightarrow> bool" where
  "paid t = list_ex (\<lambda>ev. case ev of EvLockBTC _ _ _ _ _ \<Rightarrow> True | _ \<Rightarrow> False) t"

definition fair_env :: "taker_result xc_env" where
  "fair_env = silent_env\<lparr>xe_Send := (\<lambda>_ _. True), xe_BtcTip := (\<lambda>_. Some 400), xe_SeqTip := (\<lambda>_. Some 700),
     xe_Recv := (\<lambda>t _. Frame (if paid t then maker_locked (some_leg\<lparr>ll_Funded := \<lparr>fh_TxID = ''seq'', fh_Vout = 1, fh_Amount = 300000, fh_AssetID = ''aa''\<rparr>\<rparr>) 900 ''bb'' 406
       else maker_terms some_maker some_key some_key 500 900)),
     xe_LockBTCLeg := (\<lambda>_ _ _ _ _. Some (some_leg, 405)),
     xe_VerifySEQLeg := (\<lambda>_ lt. Inr \<lparr>vl_Leg = some_leg, vl_Height = 690, vl_Confirmations = 2, vl_BlockHash = ''bb'', vl_ExpectedScript = lt_Script lt\<rparr>),
     xe_BlockHashOfTx := (\<lambda>_ _. Some ''bb''), xe_BlockOnActiveChain := (\<lambda>_ _. Some True), xe_BlockAnchorHeight := (\<lambda>_ _. Some 406),
     xe_AnchorStatus := (\<lambda>_. Some (407, ''ok'')), xe_BlockCertification := (\<lambda>_ _. Some (True, True)), xe_ClaimSEQLeg := (\<lambda>_ _ _ _. Some ''claim'')\<rparr>"


lemma fair_simps:
  "xe_sha256 fair_env = rev" "xe_Now fair_env t = 0" "xe_Cancelled fair_env t = False" "xe_Send fair_env t m = True" "xe_BtcTip fair_env t = Some 400"
  "xe_SeqTip fair_env t = Some 700" "xe_LockBTCLeg fair_env t c r a l = Some (some_leg, 405)" "xe_BlockHashOfTx fair_env t txid = Some ''bb''"
  "xe_BlockOnActiveChain fair_env t bh = Some True" "xe_BlockAnchorHeight fair_env t bh = Some 406" "xe_AnchorStatus fair_env t = Some (407, ''ok'')"
  "xe_BlockCertification fair_env t bh = Some (True, True)" "xe_ClaimSEQLeg fair_env t leg k fee = Some ''claim''" "xe_FeeRate fair_env t asset = None"
  "xe_Recv fair_env t d = Frame (if paid t then maker_locked (some_leg\<lparr>ll_Funded := \<lparr>fh_TxID = ''seq'', fh_Vout = 1, fh_Amount = 300000, fh_AssetID = ''aa''\<rparr>\<rparr>) 900 ''bb'' 406
       else maker_terms some_maker some_key some_key 500 900)"
  "xe_VerifySEQLeg fair_env t lt = Inr \<lparr>vl_Leg = some_leg, vl_Height = 690, vl_Confirmations = 2, vl_BlockHash = ''bb'', vl_ExpectedScript = lt_Script lt\<rparr>"
  by (simp_all add: fair_env_def silent_env_def)

lemma some_pub [simp]: "length (k_PubKey some_key) = 33"
  by (simp add: some_key_def)

theorem handshake_agrees_witness:
  "snd (taker_accepts fair_env (some_taker\<lparr>tf_MaxBtcLockDelta := 200, tf_MinSeqClaimWindow := 120\<rparr>) (maker_terms some_maker some_key some_key 500 900) taker_start) =
     Ret (300000, 30001, k_PubKey some_key, k_PubKey some_key)"
proof -
  let ?p = "some_taker\<lparr>tf_MaxBtcLockDelta := 200, tf_MinSeqClaimWindow := 120\<rparr>"
  obtain b where b: "ProportionalBtc 100001 300000 1000000 = Some b" "unat b = 30001"
    using ProportionalBtc_exact(1) [of 1000000 300000 100001] by (auto simp: ceil_div_def)
  then have "b = 30001" by (intro unsigned_word_eqI) simp
  with b(1) have p: "ProportionalBtc 100001 300000 1000000 = Some 30001" by simp
  have m: "MinSafeBtcLegSats 1000 \<le> 30001" by (simp add: MinSafeBtcLegSats_def legSpendFeeFloor_def btcDustLimit_def)
  have a: "minSafeAssetLeg None 1000 \<le> 300000" by (simp add: minSafeAssetLeg_def legSpendFeeFloor_def)
  have t: "slice_taken ?p = 300000" by (simp add: slice_taken_def some_taker_def)
  have "snd (taker_accepts fair_env ?p (maker_terms some_maker some_key some_key 500 900) taker_start) =
      Ret (slice_taken ?p, 30001, k_PubKey some_key, k_PubKey some_key)"
  proof (rule conjunct1 [OF handshake_agrees [where claimKey = some_key and refundKey = some_key and hashH = "replicate 32 0"
      and btcLeg = "some_leg\<lparr>ll_Funded := ll_Funded some_leg\<lparr>fh_Amount := 30001\<rparr>\<rparr>" and e' = "silent_env\<lparr>xe_NewOps := \<lambda>_ _. True\<rparr>"
      and s' = maker_start and hp = 7]])
    show "ProportionalBtc (tf_ExpectBtcAmount ?p) (slice_taken ?p) (tf_ExpectSeqAmount ?p) = Some 30001"
      unfolding t using p by (simp add: some_taker_def)
    show "MinSafeBtcLegSats (tf_SpendFeeSats ?p) \<le> 30001 \<and>
      (\<forall>t. minSafeAssetLeg (xe_FeeRate fair_env t (tf_ExpectAsset ?p)) (tf_SpendFeeSats ?p) \<le> slice_taken ?p)"
      unfolding t using m a by (simp add: some_taker_def fair_simps)
  qed (simp_all only: t, simp_all add: some_maker_def fair_simps, simp_all add: some_taker_def)
  then show ?thesis by (simp add: t)
qed

lemma honest_taker_claims:
  "\<exists>s. RunTakerForward (Suc (Suc 0)) fair_env (some_taker\<lparr>tf_ExpectSeqAmount := 300000, tf_TakeSeqAmount := 0, tf_ExpectBtcAmount := 30001\<rparr>) taker_start = (s, Ret ()) \<and>
    tr_SeqClaimTxid (st_res s) = ''claim'' \<and> last (st_trace s) = EvClaimSEQ some_leg some_key 1000 (Some ''claim'')"
  by (simp add: RunTakerForward_def taker_defaults_def some_taker_def taker_start_def taker_terms_def sendXc_def recvXcType_def run_defs need_def fair_simps paid_def
    maker_terms_def some_maker_def maker_locked_def msg_types check_def some_timing_def setDefaults_def Second_def Minute_def Hour_def taker_bind_def minSafeBtcErr_def minSafeAssetErr_def
    taker_locktimes_def taker_fund_def taker_announce_def taker_await_def recvXcTypeWhile_def claim_open_def attempt_def near_def hex_Decode_Encode
    taker_verify_def taker_claim_def gate_pass_def VerifySeqLegSafe_def zero_msg_def
    xcSeqLegFee_def xcSafeFee_def)

text \<open>The maker's side of such a swap: it verifies the taker's leg, locks its asset, reads the secret off the chain and claims.\<close>

definition quoted :: "'r xc_event list \<Rightarrow> bool" where
  "quoted t = list_ex (\<lambda>ev. case ev of EvNewKey _ \<Rightarrow> True | _ \<Rightarrow> False) t"

definition fair_leg :: leg_lock where
  "fair_leg = some_leg\<lparr>ll_Funded := \<lparr>fh_TxID = ''btc'', fh_Vout = 0, fh_Amount = 30001, fh_AssetID = []\<rparr>\<rparr>"

definition fair_chains :: "maker_result xc_env" where
  "fair_chains = silent_env\<lparr>xe_Send := (\<lambda>_ _. True), xe_BtcTip := (\<lambda>_. Some 400), xe_SeqTip := (\<lambda>_. Some 700), xe_NewKey := (\<lambda>_. Some some_key),
     xe_NewOps := (\<lambda>_ _. True),
     xe_Recv := (\<lambda>t _. Frame (if quoted t then taker_announce (replicate 32 7) some_key some_key 300000 30001 fair_leg 580 398
       else zero_msg\<lparr>xm_Type := XcTermsRequest\<rparr>)),
     xe_VerifyBTCLeg := (\<lambda>_ lt. Inr \<lparr>vl_Leg = fair_leg, vl_Height = 398, vl_Confirmations = 3, vl_BlockHash = ''cc'', vl_ExpectedScript = lt_Script lt\<rparr>),
     xe_LockSEQLeg := (\<lambda>_ _ _ _ _ _. SeqLockConfirmed some_leg ''bb''),
     xe_BlockHashOfTx := (\<lambda>_ _. Some ''bb''), xe_BlockOnActiveChain := (\<lambda>_ _. Some True), xe_BlockAnchorHeight := (\<lambda>_ _. Some 400),
     xe_AnchorStatus := (\<lambda>_. Some (400, ''ok'')), xe_WatchSEQClaim := (\<lambda>_ _. Some (''claim'', replicate 32 7)),
     xe_ClaimBTCLeg := (\<lambda>_ _ _ _. Some ''settled'')\<rparr>"

lemma fair_chains_simps:
  "xe_sha256 fair_chains = rev" "xe_Now fair_chains t = 0" "xe_Cancelled fair_chains t = False" "xe_Send fair_chains t m = True" "xe_BtcTip fair_chains t = Some 400"
  "xe_SeqTip fair_chains t = Some 700" "xe_NewKey fair_chains t = Some some_key" "xe_NewOps fair_chains t h" "xe_BlockHashOfTx fair_chains t txid = Some ''bb''"
  "xe_BlockOnActiveChain fair_chains t bh = Some True" "xe_BlockAnchorHeight fair_chains t bh = Some 400" "xe_AnchorStatus fair_chains t = Some (400, ''ok'')"
  "xe_LockSEQLeg fair_chains t c r a asset l = SeqLockConfirmed some_leg ''bb''" "xe_WatchSEQClaim fair_chains t leg = Some (''claim'', replicate 32 7)"
  "xe_ClaimBTCLeg fair_chains t leg k fee = Some ''settled''" "xe_FeeRate fair_chains t asset = None"
  "xe_Recv fair_chains t d = Frame (if quoted t then taker_announce (replicate 32 7) some_key some_key 300000 30001 fair_leg 580 398
       else zero_msg\<lparr>xm_Type := XcTermsRequest\<rparr>)"
  "xe_VerifyBTCLeg fair_chains t lt = Inr \<lparr>vl_Leg = fair_leg, vl_Height = 398, vl_Confirmations = 3, vl_BlockHash = ''cc'', vl_ExpectedScript = lt_Script lt\<rparr>"
  by (simp_all add: fair_chains_def silent_env_def)

lemma honest_maker_claims:
  "\<exists>s. RunMakerForward (Suc (Suc 0)) fair_chains some_maker maker_start = (s, Ret ()) \<and> mr_Settled (st_res s) \<and> mr_BtcClaimTxid (st_res s) = ''settled''"
  by (simp add: RunMakerForward_def maker_defaults_def some_maker_def maker_start_def sendXc_def recvXcType_def run_defs need_def fair_chains_simps quoted_def
    msg_types check_def some_timing_def setDefaults_def Second_def Minute_def Hour_def minSafeBtcErr_def minSafeAssetErr_def maker_keys_def maker_terms_def
    taker_announce_def maker_announced_def hex_Decode_Encode fair_leg_def maker_slice_def maker_verified_def maker_ready_def maker_lock_def maker_announce_def
    maker_locked_def settleMakerForward_def settle_claim_def InjectSecret_def attempt_def near_def fundWindow_check_def waitSeqAnchorReachesBTCLeg_def anchored_def
    claimantBtcLegHeight_def maxCounterpartyHeightSlack_def maxFundWaitReadFailures_def zero_msg_def
    remine.simps(2) [of 10, simplified] read_anchor.simps(2) [of 5, simplified])

end
