(* ===== verification/Spec2Isabelle.thy ===== *)
theory Spec2Isabelle
  imports Feed_Interleaving Trade_File Relay_Properties Settler_Properties Lift_Release Bridge Crosser_Safety Covfill_Properties
    Chain_Rpc_Properties Swap_Outcome
begin

text \<open>
  SeqOB, the order book of SeqDEX, an exchange for Sequentia assets (\<open>src/daemon\<close>, in Go). A relay
  (\<open>cmd/seqobd\<close>) keeps a book of offers that makers sign and anyone can verify. It admits offers
  through a validator, announces deltas to subscribers, matches an incoming order against resting
  covenant orders, routes the frames of interactive swap sessions, and keeps the book in step with
  the chain. A covenant order is locked on chain under a FILL script, so it can be taken without its
  maker; the settler (\<open>cmd/seqob-settler\<close>) spends two crossing covenant orders in one transaction, the
  bridge (\<open>internal/seqob/bridge\<close>) settles a covenant order against a Lightning order, and the crosser
  (\<open>cmd/seqob-crosser\<close>) takes two resting orders of any settlement family whose prices cross.

  \<^bold>\<open>Theories and the code they model\<close>

  \<^item> \<open>SeqOB_Prelude\<close>: machine words, results as sums, Go maps as association lists, hex, ASCII case
    folding, durations, \<open>float64\<close> division, rounded-up division. The generic lemmas and the simp
    collection of the development.
  \<^item> \<open>Offer_Model\<close>: the protobuf messages and \<open>internal/seqob/offer\<close>. The record \<open>crypto\<close> holds what
    the code calls from libraries (secp256k1, DER, SHA-256, protobuf marshalling); \<open>signing_laws\<close> and
    \<open>low_s_law\<close> are the documented facts about it, and \<open>demo_crypto\<close> is an instance of them.
  \<^item> \<open>Covenant\<close>: \<open>pkg/covenant\<close>, that is \<open>leaf.go\<close> (the scripts byte for byte), \<open>order.go\<close> (taproot
    derivation, \<open>CeilPrice\<close> on 128 bits, \<open>CheckArithmetic\<close>), \<open>plan.go\<close> and \<open>settle.go\<close>.
  \<^item> \<open>Offerstore\<close>: \<open>offerstore/store.go\<close>, the state \<open>store\<close> and one definition per method. A method
    changes the book under the store's mutex; it sends its deltas and writes its trade-log line after it has released the
    mutex. The definition of a method composes both parts into one function on the state, which is its effect when no other
    call overlaps it; \<open>Feed_Interleaving\<close> and \<open>Trade_File\<close> take the parts apart again and interleave them. The clock
    is an argument. \<open>Book_Invariant\<close> lists the operations as data (\<open>store_op\<close>, \<open>exec\<close>), reduces each to
    four primitive changes, and proves the invariant of reachable books. \<open>Book_Deltas\<close> relates the
    broadcast events to the book and \<open>Trade_Log\<close> the trade feed to the lines issued to its log.
    \<open>Feed_Interleaving\<close>: changes of the book and later broadcasts of overlapping calls in any order, against a
    subscriber. \<open>Trade_File\<close>: the best-effort writes of log lines, which may fail, be cut short or overtake each other.
  \<^item> \<open>Matcher\<close>: \<open>matcher/matcher.go\<close> over the interface \<open>book\<close>; the locales \<open>snapshot_book\<close> and, for books with an
    exact pair index, \<open>matchable_book\<close> state what the matcher relies on and are interpreted on the store.
  \<^item> \<open>Validator\<close>: \<open>validator/validator.go\<close>; the locale \<open>resting_offers\<close> states what the replay check
    relies on and is interpreted on the store.
  \<^item> \<open>Chain_Watcher\<close>: \<open>watcher/classify.go\<close>, \<open>watcher.go\<close>, \<open>storebook.go\<close>, \<open>probe.go\<close>; the locale
    \<open>covenant_book\<close> is the contract of the controller interface, interpreted on the store adapter.
  \<^item> \<open>Session_Router\<close>: \<open>session/router.go\<close> and \<open>reorg/reorg.go\<close>; sessions live in a heap because the
    orphan callback keeps a pointer to its session. \<open>Relay\<close>: the settlement handlers of \<open>api/ws.go\<close>
    and the undo hook of \<open>cmd/seqobd/main.go\<close>.
  \<^item> \<open>Relay_Api\<close>: the state \<open>server\<close> and the WebSocket side of \<open>api/ws.go\<close>, \<open>api/server.go\<close> and
    \<open>api/matched.go\<close>, one definition per handler. Connections are objects in a heap; inbox pumps, delta
    forwarders and the goroutines that sleep for a grace period are elements of the state that later
    steps run. \<open>openLift\<close> is the composition of its critical sections (\<open>lift_check\<close>, \<open>lift_reserve\<close>,
    \<open>lift_start\<close>, \<open>lift_record\<close>). \<open>Relay_Rest\<close>: the request router, the REST handlers and the candles of
    \<open>api/server.go\<close>. \<open>Api_Invariant\<close>: one step of the server (\<open>serve\<close>), its reachable states
    (\<open>serving\<close>) and their invariant. \<open>Lift_Slots\<close>: the critical sections of concurrent lifts in any
    interleaving (\<open>lifting\<close>). \<open>Lift_Release\<close>: the timers of the server and the release of an abandoned lift.
  \<^item> \<open>Settler\<close>: \<open>internal/seqob/settler\<close> and the loop of \<open>cmd/seqob-settler/run.go\<close>; the locale
    \<open>fee_funding\<close> states what the assembler relies on and is interpreted on the node wallet funder. The
    go-elements library and the node are the parameters \<open>elements_lib\<close> and \<open>node_rpc\<close>, with
    \<open>value_law\<close>, \<open>codec_law\<close> and \<open>sign_law\<close> as the facts relied on.
  \<^item> \<open>Bridge\<close>: \<open>bridge/bridge.go\<close> and \<open>bridge/terms.go\<close>, on top of the matcher and the covenant library.
  \<^item> \<open>Crosser\<close>: the crosser's planner, \<open>norm.go\<close>, \<open>book.go\<close>, \<open>detect.go\<close>, \<open>legorder.go\<close> and the capability
    check and command lines of \<open>exec.go\<close>. \<open>Crosser_Ledger\<close>: \<open>exposure.go\<close>, \<open>journal.go\<close> and the loop of
    \<open>main.go\<close>; a goroutine is the list of operations it has left, so that crossings interleave
    (\<open>crosser_step\<close>), and the process may die between any two of them.
  \<^item> \<open>Covfill\<close>: \<open>covfill/covfill.go\<close>, the fill of a covenant order by a taker, with the calls it makes on
    the node in order. \<open>Chain_Rpc\<close>: \<open>watcher/chainview_rpc.go\<close>, the node behind the chain view.
  \<^item> \<open>Swap_Terms\<close>: prices of slices, minimum slices, fees and deadlines of the swap drivers
    (\<open>internal/seqob/client\<close>, \<open>pkg/xchain/cltv.go\<close>).
  \<^item> \<open>Swap_Run\<close>: the courier messages (\<open>client/xcourier.go\<close>), the settlement interface \<open>XcOps\<close> of
    \<open>client/xdriver.go\<close>, and runs of a driver: an action appends to a history of calls and replies, and
    the environment (\<open>xc_env\<close>) answers each call as an arbitrary function of that history. \<open>Swap_Driver\<close>
    and \<open>Swap_Maker\<close>: the taker and the maker of the forward swap of \<open>client/xdriver.go\<close>, stage by stage,
    with the maker's settlement loop, its resumption after a restart, and the taker's refund.
  \<^item> \<open>Swap_Logic\<close>: a program logic for runs (\<open>keeps\<close>, \<open>does\<close>, \<open>justified\<close>); the locale
    \<open>driver_invariant\<close> gives the rules of an invariant that harmless events keep, its extension
    \<open>ruled_run\<close> those of a driver that follows a rule for every move of value. \<open>Taker_Safety\<close> and
    \<open>Maker_Safety\<close> interpret it on the rules of the two drivers; \<open>Swap_Outcome\<close> shows how runs end.
  \<^item> \<open>Sample_Book\<close> and \<open>Sample_Codec\<close>: concrete offers, books, and instances of the parameters, on
    which the theorems are evaluated.
  \<^item> \<open>Book_Properties\<close>, \<open>Wire_Properties\<close>, \<open>Feed_Properties\<close>, \<open>Match_Properties\<close>, \<open>Gate_Properties\<close>,
    \<open>Settlement_Properties\<close>, \<open>Settler_Properties\<close>, \<open>Relay_Properties\<close>, \<open>Api_Properties\<close>, \<open>Order_Entry\<close>,
    \<open>Feed_Client\<close>, \<open>Feed_Interleaving\<close>, \<open>Trade_File\<close>, \<open>Lift_Release\<close>, \<open>Crosser_Properties\<close>, \<open>Crosser_Safety\<close>, \<open>Covfill_Properties\<close>, \<open>Swap_Arithmetic\<close>,
    \<open>Chain_Rpc_Properties\<close>: the theorems, each followed by a concrete instance.

  \<^bold>\<open>What is shown\<close>

  \<^item> Book: every reachable book is well formed (signed entries filed under their keys, amounts within
    bounds, every live entry in its pair's index); fills, sweeps and evictions do exactly what they say; cancels and
    settlement reports are accepted once, after any later history.
  \<^item> Feeds: a subscriber is told of every gap, and without one it holds the relay's book once the changes of each offer have been
    announced in their order; namespaces stay apart; the trades of a market survive a crash if its log lines were
    written, whatever happened to those of other markets; retractions, covenant fills and candles are exact.
  \<^item> Signatures and covenants: what is signed verifies, signatures are not malleable, the FILL script
    commits to its terms, the price is the exact ceiling, the funding guard is exact, and fill plans
    exist exactly when the fill is valid.
  \<^item> Matching: conservation, price-time priority, limit prices, completeness on whole orders, the
    time-in-force table with the two cases in which the code departs from it, independence of map order. Admission: accepted
    offers are well formed, rate limits hold in every interleaving up to the lag between reading the clock and taking the mutex, forged and replayed offers cost the maker nothing.
  \<^item> Composition: every match in a book fed through the validator has a fill plan at the announced
    quote; a broadcast joint settlement satisfies both FILL leaves; a watcher pass makes the book agree
    with the node; an orphaned settlement is undone by the reorg passes; frames reach only their session.
  \<^item> The server: no reachable state panics and only the delivery of a swap message can wait; the book,
    the router, the pump counts and the subscriptions stay consistent; a submission follows its time in
    force; one session at a time holds an interactive offer, and an abandoned one is released; a
    connection becomes a maker's endpoint only with the maker's signature; a disconnect evicts exactly
    what it should.
  \<^item> For a Lightning order that meets a resting covenant, and below the wrap of its product, the bridge pays the covenant's maker the
    announced quote and refuses a match of the relay only for a difference of one atom; it releases the Lightning leg early exactly within the cap and above the fee.
  \<^item> The crosser plans on genuine offers at the best prices, takes the largest size both legs can settle (for a bid that is no covenant),
    never plans a loss while its fee and floor products fit in 64 bits, and hands its drivers what it planned; its sizing loop reaches an answer within its
    bound; an interrupted crossing blocks its pair until it is cleared; the drift of every asset stays
    within the cap if the watched pairs share no asset.
  \<^item> The fill builder only broadcasts a transaction that satisfies the FILL leaf and balances in every asset,
    and releases the coins it locked when it fails; the node's view of an outpoint is classified exactly.
  \<^item> The forward swap, against any counterparty, relay, node, clock and user: each side moves value only by
    its rules (exact price, agreed keys and lock times, verified legs, anchor gate, claim margin, saved
    state), at every moment of a run; both claim in an honest run. The maker's settlement ends in a claim or
    a refund, the taker's refund completes when it is due, the anchor waits end with the chain, and two
    honest sides agree on slice and price.
  \<^item> Some theorems and lemmas exhibit defects: deltas of overlapping calls can reach a subscriber in the wrong order without a gap, a
    rate-limit charge that waited for the mutex can exceed the limit, the rate-limit sweep counts hits twice, the settler's fill
    bound and the bridge's split product wrap at 64 bits, a cancelled offer can be submitted again by
    anyone, the crosser's cap fails for pairs that share an asset, and a failed first leg leaves no trace
    in its journal.

  \<^bold>\<open>Conventions\<close>

  Unsigned integers are words of their width and wrap; times are nanoseconds in \<open>int\<close>. A Go map is an
  association list with distinct keys, so iteration order is the list's order and theorems about
  iteration hold for every order. Errors are values of one datatype per component; a panic is \<open>None\<close>,
  and in the server \<open>Panics\<close>, beside \<open>Blocks\<close> for a call that waits. A handler of the server is one
  step except for lifts, and so is an operation of the store outside \<open>Feed_Interleaving\<close> and \<open>Trade_File\<close>; the clock, fresh identifiers and the choice of a \<open>select\<close> are arguments (\<open>api_call\<close>).
  Loops are structural or carry a termination proof. The settler's fill search is bounded by 256 steps and
  the crosser's sizing by four passes because the code bounds them so; three passes are shown to be enough
  for the latter. A waiting loop of a swap driver takes the bound \<open>n\<close> on its turns; a run that has used it up
  ends as \<open>Running\<close>, so safety is shown for every prefix of a run, and \<open>Swap_Outcome\<close> shows for which \<open>n\<close>
  the waits return. A signed 64-bit amount of the crosser is a
  word read with \<open>sint\<close>.

  \<open>reachable\<close> books are those of any sequence of store operations; \<open>reachable_fresh\<close> leaves out a reopen over a resting entry
  of another pair or namespace under the same key, which \<open>Reopen\<close> does not prevent and which breaks the exactness of the
  pair index. Theorems that need the exact index assume the latter and say so. \<open>boot\<close> is a restart whose first write of the journal
  succeeded. \<open>codec_law\<close> is the round trip of the library's transaction codec; the library keeps flags in the top bits of an
  input index, so it describes transactions whose input indices are below two to the 30, as those of all funding outputs are.

  \<open>fill_leaf_accepts\<close> states what the FILL script checks, as \<open>leaf.go\<close> documents it; script execution
  is consensus code of the node and is not modelled.

  \<^bold>\<open>Not modelled\<close>

  Of the API: JSON framing, pings, read limits and the interleaving of handlers other than lifts. Of the
  crosser: the HTTP fetch and the run of a driver process, which are inputs of a step, and the
  pure-Lightning driver it embeds. Of the bridge: the command that prints a plan. Of the swap drivers: the
  sealing of frames, the live binding of the settlement interface to the cross-chain engine, and the
  reverse, submarine, sub-asset and pure-Lightning drivers, which follow the same pattern. The maker daemon
  and the command line tools are dominated by flags, RPC and persistence.
  The TDEX daemon and the Ocean wallet are inherited programs that the order book does not call.
\<close>

end
